(* ===== verification/Prelude.thy ===== *)
theory Prelude
  imports Main "HOL-Library.Word" "HOL-Library.Monad_Syntax"
begin

text \<open>
  Shared vocabulary of the development: the integer types of \<open>include/stdvar.h\<close> at their
  widths, the null pointer, the option monad in which a code path that never returns (a page
  fault, whose handler loops for ever; a panic; a lock that is never released) is \<open>None\<close>, and
  the generic lemmas on words, lists and options the components use.
\<close>

unbundle bit_operations_syntax

type_synonym uint8 = "8 word"
type_synonym uint16 = "16 word"
type_synonym uint32 = "32 word"
type_synonym uint64 = "64 word"

text \<open>A pointer is its 64-bit address; \<open>NULL\<close> is address 0.\<close>

type_synonym addr = "64 word"

abbreviation NULL :: addr where
  "NULL \<equiv> 0"

named_theorems unat_defs \<open>rewriting word arithmetic to natural numbers\<close>
named_theorems frame_simps \<open>what an operation leaves unchanged\<close>

section \<open>The option monad\<close>

lemma bind_eq_Some_iff [simp]:
  "Option.bind x f = Some y \<longleftrightarrow> (\<exists>a. x = Some a \<and> f a = Some y)"
  by (cases x) auto

lemma Some_eq_bind_iff [simp]:
  "Some y = Option.bind x f \<longleftrightarrow> (\<exists>a. x = Some a \<and> f a = Some y)"
  by (cases x) auto

section \<open>Words as natural numbers\<close>

lemma unat_add_no_wrap [unat_defs]:
  fixes a b :: "'a::len word"
  assumes "unat a + unat b < 2 ^ LENGTH('a)"
  shows "unat (a + b) = unat a + unat b"
  using assms by (simp add: unat_word_ariths)

lemma unat_sub_le [unat_defs]:
  fixes a b :: "'a::len word"
  assumes "unat b \<le> unat a"
  shows "unat (a - b) = unat a - unat b"
  using assms by (simp add: unat_sub word_le_nat_alt)

lemma unat_mult_no_wrap [unat_defs]:
  fixes a b :: "'a::len word"
  assumes "unat a * unat b < 2 ^ LENGTH('a)"
  shows "unat (a * b) = unat a * unat b"
  using assms by (simp add: unat_word_ariths)

lemma unat_of_nat_small: "n < 2 ^ LENGTH('a::len) \<Longrightarrow> unat (of_nat n :: 'a word) = n"
  by (simp add: unsigned_of_nat take_bit_nat_eq_self)

lemma unat_lt32: "unat (x :: uint32) < 4294967296"
  using unsigned_less [of x] by simp

lemma unat_lt64: "unat (x :: uint64) < 18446744073709551616"
  using unsigned_less [of x] by simp

lemma unat_ucast_32_64 [simp]: "unat (ucast (x :: uint32) :: uint64) = unat x"
  by (simp add: unsigned_ucast_eq take_bit_nat_eq_self_iff unat_lt32 [THEN order_less_trans])

lemma unat_ucast_up:
  fixes x :: "'a::len word"
  assumes "LENGTH('a) \<le> LENGTH('b::len)"
  shows "unat (ucast x :: 'b word) = unat x"
proof -
  have "(2::nat) ^ LENGTH('a) \<le> 2 ^ LENGTH('b)" using assms by simp
  then have "unat x < 2 ^ LENGTH('b)" by (rule less_le_trans [OF unsigned_less])
  then show ?thesis by (simp add: unsigned_ucast_eq take_bit_nat_eq_self_iff)
qed

lemma unat_ucast_64_32: "unat (ucast (x :: uint64) :: uint32) = unat x mod 4294967296"
  by (simp add: unsigned_ucast_eq take_bit_eq_mod)

lemma unat_ucast_64_32_small:
  "unat (x :: uint64) < 4294967296 \<Longrightarrow> unat (ucast x :: uint32) = unat x"
  by (simp add: unat_ucast_64_32)

lemma word_eq_unat: "a = b \<longleftrightarrow> unat a = unat (b :: 'a::len word)"
  by (simp add: word_unat_eq_iff)

lemma unat_2p:
  assumes "k < LENGTH('a)"
  shows "unat (2 ^ k :: 'a::len word) = 2 ^ k"
proof -
  have "(2::nat) ^ k < 2 ^ LENGTH('a)" using assms by simp
  then have "unat (of_nat (2 ^ k) :: 'a word) = 2 ^ k" by (simp add: unat_of_nat del: of_nat_power)
  then show ?thesis by simp
qed

text \<open>A single-bit test is a test of that bit.\<close>

lemma and_push_bit_1:
  fixes e :: "'a::len word"
  assumes "k < LENGTH('a)"
  shows "e AND push_bit k 1 \<noteq> 0 \<longleftrightarrow> bit e k"
proof -
  have "bit (e AND push_bit k 1) n \<longleftrightarrow> n = k \<and> bit e k" for n
    using assms by (auto simp: bit_simps)
  then show ?thesis by (metis bit_0_eq bot_apply bot_bool_def bit_eqI)
qed

lemma ucast_of_nat_down:
  "LENGTH('b::len) \<le> LENGTH('a::len) \<Longrightarrow> ucast (of_nat n :: 'a word) = (of_nat n :: 'b word)"
  by (simp add: unsigned_of_nat word_of_nat_eq_iff)

text \<open>A 32-bit value read as a C \<open>int\<close> is positive exactly below \<open>2 ^ 31\<close>.\<close>

lemma centred_mod:
  assumes "n < 2 ^ 32"
  shows "(int n + 2 ^ 31) mod 2 ^ 32 - 2 ^ 31 = (if n < 2 ^ 31 then int n else int n - 2 ^ 32)"
proof (cases "n < 2 ^ 31")
  case True
  then show ?thesis by (simp add: mod_pos_pos_trivial)
next
  case False
  have "(int n + 2 ^ 31) mod 2 ^ 32 = ((int n - 2 ^ 31) + 2 ^ 32) mod 2 ^ 32" by (simp add: add.commute)
  also have "\<dots> = (int n - 2 ^ 31) mod 2 ^ 32" by (rule mod_add_self2)
  also have "\<dots> = int n - 2 ^ 31" using False assms by (intro mod_pos_pos_trivial) auto
  finally show ?thesis using False by simp
qed

lemma sint_32: "sint (w :: uint32) = (if unat w < 2 ^ 31 then int (unat w) else int (unat w) - 2 ^ 32)"
proof -
  define n where "n = unat w"
  have n: "n < 2 ^ 32" "uint w = int n" using unat_lt32 [of w] by (simp_all add: n_def)
  have "sint w = (uint w + 2 ^ 31) mod 2 ^ 32 - 2 ^ 31"
    using int_word_sint [of "uint w", where 'a = 32] by simp
  then show ?thesis unfolding n(2) centred_mod [OF n(1)] by (simp add: n_def [symmetric])
qed

lemma sint_pos_iff: "0 < sint (w :: uint32) \<longleftrightarrow> 0 < unat w \<and> unat w < 2 ^ 31"
proof -
  define n where "n = unat w"
  have "n < 4294967296" using unat_lt32 [of w] by (simp add: n_def)
  then show ?thesis unfolding sint_32 n_def [symmetric] by auto
qed

text \<open>Counting pages: \<open>n\<close> bytes, rounded up.\<close>

definition pages_up :: "nat \<Rightarrow> nat" where
  "pages_up n = (if n mod 4096 \<noteq> 0 then n div 4096 + 1 else n div 4096)"

lemma pages_up_bounds: "n \<le> pages_up n * 4096" "pages_up n * 4096 < n + 4096"
proof -
  define q r where "q = n div 4096" and "r = n mod 4096"
  have "n = q * 4096 + r" "r < 4096" by (simp_all add: q_def r_def)
  then show "n \<le> pages_up n * 4096" "pages_up n * 4096 < n + 4096"
    unfolding pages_up_def q_def [symmetric] r_def [symmetric] by auto
qed

lemma pages_up_mult [simp]: "pages_up (k * 4096) = k"
  by (simp add: pages_up_def)

section \<open>Lists\<close>

lemma remove1_split:
  "x \<notin> set ys \<Longrightarrow> remove1 x (ys @ x # zs) = ys @ zs"
  by (simp add: remove1_append)

lemma length_filter_pos: "x \<in> set xs \<Longrightarrow> P x \<Longrightarrow> 0 < length (filter P xs)"
  by (induction xs) auto

lemma length_filter_remove1:
  "x \<in> set xs \<Longrightarrow>
   length (filter P (remove1 x xs)) = length (filter P xs) - (if P x then 1 else 0)"
  by (simp add: filter_remove1 length_remove1)

lemma filter_length_cong:
  "(\<And>x. x \<in> set xs \<Longrightarrow> P x = Q x) \<Longrightarrow> length (filter P xs) = length (filter Q xs)"
  by (metis filter_cong)

end
