(* ===== verification/Atomic.thy ===== *)
theory Atomic
  imports Prelude
begin

text \<open>
  The spin lock of \<open>src/asm/funcs/global/atomic.asm\<close>: a 16-bit word whose bit 0 is the lock.
  The first section is what a caller sees when it runs alone: \<open>acquireLock\<close> returns with
  the bit set, or spins for ever (\<open>None\<close>) when the bit is set already and nobody is left to
  clear it. The second section runs any number of processors on one lock word, one
  instruction at a time.
\<close>

section \<open>One processor\<close>

definition acquireLock :: "uint16 \<Rightarrow> uint16 option" where
  "acquireLock w = (if bit w 0 then None else Some (set_bit 0 w))"

definition releaseLock :: "uint16 \<Rightarrow> uint16" where
  "releaseLock w = 0"

lemma acquireLock_0 [simp]: "acquireLock 0 = Some 1"
  by (simp add: acquireLock_def set_bit_eq_or)

lemma acquireLock_1 [simp]: "acquireLock 1 = None"
  by (simp add: acquireLock_def)

lemma releaseLock_eq [simp]: "releaseLock w = 0"
  by (simp add: releaseLock_def)

lemma acquireLock_held: "bit w 0 \<Longrightarrow> acquireLock w = None"
  by (simp add: acquireLock_def)

section \<open>Any number of processors\<close>

text \<open>
  Where a processor is: outside, at the \<open>lock bts\<close> of \<open>acquireLock\<close>, in its spin loop, past the
  routine with the lock held, at the \<open>test\<close> or at the \<open>lock bts\<close> of \<open>tryAcquireLock\<close>.
\<close>

datatype place = Outside | AtBts | Spinning | Holding | TryTest | TryBts

record smp =
  lock_word :: uint16
  place :: "nat \<Rightarrow> place"

text \<open>One instruction of processor \<open>i\<close>, in the code of \<open>acquireLock\<close> and \<open>releaseLock\<close>.\<close>

inductive lock_step :: "nat \<Rightarrow> smp \<Rightarrow> smp \<Rightarrow> bool" for i where
  call: "place s i = Outside \<Longrightarrow> lock_step i s (s\<lparr>place := (place s)(i := AtBts)\<rparr>)"
| bts_free: "place s i = AtBts \<Longrightarrow> \<not> bit (lock_word s) 0 \<Longrightarrow>
    lock_step i s (s\<lparr>lock_word := set_bit 0 (lock_word s), place := (place s)(i := Holding)\<rparr>)"
| bts_taken: "place s i = AtBts \<Longrightarrow> bit (lock_word s) 0 \<Longrightarrow>
    lock_step i s (s\<lparr>lock_word := set_bit 0 (lock_word s), place := (place s)(i := Spinning)\<rparr>)"
| spin_taken: "place s i = Spinning \<Longrightarrow> bit (lock_word s) 0 \<Longrightarrow> lock_step i s s"
| spin_free: "place s i = Spinning \<Longrightarrow> \<not> bit (lock_word s) 0 \<Longrightarrow>
    lock_step i s (s\<lparr>place := (place s)(i := AtBts)\<rparr>)"
| release: "place s i = Holding \<Longrightarrow>
    lock_step i s (s\<lparr>lock_word := 0, place := (place s)(i := Outside)\<rparr>)"

text \<open>
  \<open>tryAcquireLock\<close>: the \<open>xor eax,eax\<close> between \<open>lock bts\<close> and \<open>jnc\<close> clears the carry flag that
  \<open>jnc\<close> is meant to test, so the routine returns 0 (taken) whatever the old bit was.
\<close>

inductive try_step :: "nat \<Rightarrow> smp \<Rightarrow> smp \<Rightarrow> bool" for i where
  try_call: "place s i = Outside \<Longrightarrow> try_step i s (s\<lparr>place := (place s)(i := TryTest)\<rparr>)"
| test_taken: "place s i = TryTest \<Longrightarrow> bit (lock_word s) 0 \<Longrightarrow>
    try_step i s (s\<lparr>place := (place s)(i := Outside)\<rparr>)"
| test_free: "place s i = TryTest \<Longrightarrow> \<not> bit (lock_word s) 0 \<Longrightarrow>
    try_step i s (s\<lparr>place := (place s)(i := TryBts)\<rparr>)"
| try_bts: "place s i = TryBts \<Longrightarrow>
    try_step i s (s\<lparr>lock_word := set_bit 0 (lock_word s), place := (place s)(i := Holding)\<rparr>)"

inductive_cases lock_stepE: "lock_step i s s'"

definition some_lock_step :: "smp \<Rightarrow> smp \<Rightarrow> bool" where
  "some_lock_step s s' \<longleftrightarrow> (\<exists>i. lock_step i s s')"

definition some_step :: "smp \<Rightarrow> smp \<Rightarrow> bool" where
  "some_step s s' \<longleftrightarrow> (\<exists>i. lock_step i s s' \<or> try_step i s s')"

definition all_outside :: smp where
  "all_outside = \<lparr>lock_word = 0, place = (\<lambda>_. Outside)\<rparr>"

text \<open>Bit 0 says whether somebody holds the lock, and nobody else does.\<close>

definition one_holder :: "smp \<Rightarrow> bool" where
  "one_holder s \<longleftrightarrow> (bit (lock_word s) 0 \<longleftrightarrow> (\<exists>i. place s i = Holding)) \<and>
     (\<forall>i j. place s i = Holding \<longrightarrow> place s j = Holding \<longrightarrow> i = j)"

lemma one_holder_same:
  assumes "bit (lock_word s') 0 = bit (lock_word s) 0" "\<And>j. place s' j = Holding \<longleftrightarrow> place s j = Holding" "one_holder s"
  shows "one_holder s'"
  using assms by (simp add: one_holder_def)

lemma one_holder_step:
  assumes "one_holder s" "lock_step i s s'"
  shows "one_holder s'"
  using assms(2)
proof (cases rule: lock_step.cases)
  case bts_free
  have "place s j \<noteq> Holding" for j using bts_free(3) assms(1) by (auto simp: one_holder_def)
  then have "place s' j = Holding \<longleftrightarrow> j = i" for j using bts_free(1) by simp
  moreover have "bit (lock_word s') 0" using bts_free(1) by (simp add: bit_set_bit_iff)
  ultimately show ?thesis by (simp add: one_holder_def)
next
  case bts_taken
  then show ?thesis by (intro one_holder_same [OF _ _ assms(1)]) (auto simp: bit_set_bit_iff)
next
  case release
  have "place s j = Holding \<longleftrightarrow> j = i" for j using release(2) assms(1) by (auto simp: one_holder_def)
  then have "place s' j \<noteq> Holding" for j using release(1) by simp
  then show ?thesis using release(1) by (simp add: one_holder_def)
qed (rule one_holder_same [OF _ _ assms(1)]; auto)+

lemma one_holder_reachable:
  "some_lock_step\<^sup>*\<^sup>* all_outside s \<Longrightarrow> one_holder s"
proof (induction rule: rtranclp_induct)
  case base
  show ?case by (simp add: one_holder_def all_outside_def)
next
  case (step s s')
  then show ?case using one_holder_step by (auto simp: some_lock_step_def)
qed

text \<open>
  C1. Mutual exclusion: however many processors run \<open>acquireLock\<close> and \<open>releaseLock\<close>, in any
  interleaving of their instructions, at most one is between the two; the lock bit is set
  exactly while one is; and whenever it is clear a processor at its \<open>lock bts\<close> gets the lock
  with that instruction.
\<close>

theorem mutual_exclusion:
  assumes "some_lock_step\<^sup>*\<^sup>* all_outside s"
  shows "(\<forall>i j. place s i = Holding \<and> place s j = Holding \<longrightarrow> i = j) \<and>
     (bit (lock_word s) 0 \<longleftrightarrow> (\<exists>i. place s i = Holding)) \<and>
     (\<forall>i. place s i = AtBts \<and> \<not> bit (lock_word s) 0 \<longrightarrow> (\<exists>s'. lock_step i s s' \<and> place s' i = Holding))"
proof -
  have "\<exists>s'. lock_step i s s' \<and> place s' i = Holding" if "place s i = AtBts" "\<not> bit (lock_word s) 0" for i
    using lock_step.bts_free [OF that] by auto
  then show ?thesis using one_holder_reachable [OF assms] unfolding one_holder_def by blast
qed

definition one_inside :: smp where
  "one_inside = \<lparr>lock_word = 1, place = (\<lambda>_. Outside)(0 := Holding)\<rparr>"

lemma reach_one_inside: "some_lock_step\<^sup>*\<^sup>* all_outside one_inside"
proof -
  let ?s = "\<lparr>lock_word = 0, place = (\<lambda>_. Outside)(0 := AtBts)\<rparr>"
  have "some_lock_step all_outside ?s"
    using lock_step.call [of all_outside 0] by (auto simp: all_outside_def some_lock_step_def)
  moreover have "some_lock_step ?s one_inside"
    using lock_step.bts_free [of ?s 0] by (auto simp: one_inside_def some_lock_step_def set_bit_eq_or)
  ultimately show ?thesis by (meson rtranclp.rtrancl_into_rtrancl rtranclp.rtrancl_refl)
qed

lemma mutual_exclusion_witness:
  "(\<exists>i. place one_inside i = Holding) \<and> bit (lock_word one_inside) 0"
proof -
  have "bit (lock_word one_inside) 0 \<longleftrightarrow> (\<exists>i. place one_inside i = Holding)"
    using mutual_exclusion [OF reach_one_inside] by blast
  then show ?thesis by (simp add: one_inside_def)
qed

text \<open>
  \<open>tryAcquireLock\<close> breaks it: two processors that both pass its test before either executes
  \<open>lock bts\<close> both return with the lock.
\<close>

theorem tryAcquireLock_two_holders:
  "\<exists>s. some_step\<^sup>*\<^sup>* all_outside s \<and> place s 0 = Holding \<and> place s 1 = Holding"
proof -
  let ?st = "\<lambda>w p q. \<lparr>lock_word = w, place = ((\<lambda>_. Outside)(0 := p))(1 := q)\<rparr> :: smp"
  have "some_step all_outside (?st 0 TryTest Outside)"
    using try_step.try_call [of all_outside 0] by (auto simp: some_step_def all_outside_def fun_upd_idem)
  moreover have "some_step (?st 0 TryTest Outside) (?st 0 TryTest TryTest)"
    using try_step.try_call [of "?st 0 TryTest Outside" 1] by (auto simp: some_step_def)
  moreover have "some_step (?st 0 TryTest TryTest) (?st 0 TryBts TryTest)"
    using try_step.test_free [of "?st 0 TryTest TryTest" 0] by (auto simp: some_step_def fun_upd_twist)
  moreover have "some_step (?st 0 TryBts TryTest) (?st 0 TryBts TryBts)"
    using try_step.test_free [of "?st 0 TryBts TryTest" 1] by (auto simp: some_step_def)
  moreover have "some_step (?st 0 TryBts TryBts) (?st 1 Holding TryBts)"
    using try_step.try_bts [of "?st 0 TryBts TryBts" 0] by (auto simp: some_step_def fun_upd_twist set_bit_eq_or)
  moreover have "some_step (?st 1 Holding TryBts) (?st 1 Holding Holding)"
    using try_step.try_bts [of "?st 1 Holding TryBts" 1] by (auto simp: some_step_def set_bit_eq_or)
  ultimately have "some_step\<^sup>*\<^sup>* all_outside (?st 1 Holding Holding)"
    by (meson rtranclp.rtrancl_into_rtrancl rtranclp.rtrancl_refl)
  then show ?thesis by (intro exI [of _ "?st 1 Holding Holding"]) simp
qed

text \<open>
  The one-processor functions are this code run alone. Where \<open>acquireLock w = Some w'\<close>, the
  next step of the processor takes the lock, leaves the word \<open>w'\<close>, and \<open>releaseLock\<close> is its
  release step; where \<open>acquireLock w = None\<close>, no number of its own steps gets it the lock.
\<close>

theorem acquireLock_alone:
  "case acquireLock w of
     Some w' \<Rightarrow>
       (\<forall>s. lock_step i \<lparr>lock_word = w, place = p(i := AtBts)\<rparr> s \<longleftrightarrow> s = \<lparr>lock_word = w', place = p(i := Holding)\<rparr>) \<and>
       lock_step i \<lparr>lock_word = w', place = p(i := Holding)\<rparr> \<lparr>lock_word = releaseLock w', place = p(i := Outside)\<rparr>
   | None \<Rightarrow> \<not> (\<exists>s. (lock_step i)\<^sup>*\<^sup>* \<lparr>lock_word = w, place = p(i := AtBts)\<rparr> s \<and> place s i = Holding)"
proof (cases "bit w 0")
  case True
  then have sw: "set_bit 0 w = w" by (intro bit_word_eqI) (auto simp: bit_simps)
  have "place s i \<noteq> Holding \<and> lock_word s = w \<and> (place s i = AtBts \<or> place s i = Spinning)"
    if "(lock_step i)\<^sup>*\<^sup>* \<lparr>lock_word = w, place = p(i := AtBts)\<rparr> s" for s
    using that
  proof (induction s rule: rtranclp_induct)
    case (step s s')
    from step(2) show ?case using step(3) True sw by cases auto
  qed simp
  then show ?thesis using True by (auto simp: acquireLock_def)
next
  case False
  let ?s = "\<lparr>lock_word = w, place = p(i := AtBts)\<rparr>" and ?h = "\<lparr>lock_word = set_bit 0 w, place = p(i := Holding)\<rparr>"
  have "lock_step i ?s s \<longleftrightarrow> s = ?h" for s
    using lock_step.bts_free [of ?s i] False by (auto elim!: lock_stepE)
  moreover have "lock_step i ?h \<lparr>lock_word = 0, place = p(i := Outside)\<rparr>"
    using lock_step.release [of ?h i] by simp
  ultimately show ?thesis using False by (simp add: acquireLock_def)
qed

end
