(* ===== verification/Liballoc.thy ===== *)
theory Liballoc
  imports Prelude Atomic
begin

text \<open>
  The kernel heap, \<open>src/lib/kernel/memory/liballoc/liballoc.c\<close> with the boundary tag of
  \<open>liballoc.h\<close> and the lock of \<open>liballoc_interface.cpp\<close>.

  Memory is a store of boundary tags by address, so every pointer of the code is an address
  and the doubly linked lists are the code's own. Reading or writing through \<open>NULL\<close> is a
  page fault, whose handler never returns: \<open>None\<close>. The hooks \<open>liballoc_alloc\<close> and
  \<open>liballoc_free\<close> are arguments (\<open>palloc\<close>, \<open>pfree\<close>): the page table provides them.
  They see the whole kernel state, of which the heap's globals are the first part (the record
  \<open>liballoc\<close> is extended by the later components).
\<close>

section \<open>Data\<close>

record boundary_tag =
  magic :: uint32
  req_size :: uint32        \<comment> \<open>field \<open>size\<close>\<close>
  real_size :: uint32
  index :: int
  split_left :: addr
  split_right :: addr
  next_tag :: addr          \<comment> \<open>field \<open>next\<close>\<close>
  prev_tag :: addr          \<comment> \<open>field \<open>prev\<close>\<close>

definition TAG_SIZE :: nat where \<comment> \<open>\<open>sizeof(struct boundary_tag)\<close>: four ints, four pointers\<close>
  "TAG_SIZE = 48"

definition LIBALLOC_MAGIC :: uint32 where
  "LIBALLOC_MAGIC = 0xc001c0de"

definition MAXCOMPLETE :: int where
  "MAXCOMPLETE = 5"

definition MAXEXP :: nat where
  "MAXEXP = 32"

definition MINEXP :: nat where
  "MINEXP = 4"

definition MODE :: int where \<comment> \<open>\<open>MODE_BEST\<close>\<close>
  "MODE = 0"

definition l_pageSize :: uint32 where
  "l_pageSize = 0x1000"

definition l_pageCount :: uint32 where
  "l_pageCount = 16"

record liballoc =
  mem :: "addr \<Rightarrow> boundary_tag"      \<comment> \<open>memory, read as boundary tags\<close>
  bytes :: "addr \<Rightarrow> uint8"           \<comment> \<open>the payload bytes\<close>
  l_freePages :: "addr list"
  l_completePages :: "int list"
  l_initialized :: int
  alloc_lock :: uint16                  \<comment> \<open>\<open>lock\<close> of \<open>liballoc_interface.cpp\<close>\<close>

section \<open>Memory access\<close>

definition rd :: "addr \<Rightarrow> 'a liballoc_scheme \<Rightarrow> boundary_tag option" where
  "rd p s = (if p = NULL then None else Some (mem s p))"

definition wr :: "addr \<Rightarrow> boundary_tag \<Rightarrow> 'a liballoc_scheme \<Rightarrow> 'a liballoc_scheme option" where
  "wr p t s = (if p = NULL then None else Some (s\<lparr>mem := (mem s)(p := t)\<rparr>))"

definition upd :: "addr \<Rightarrow> (boundary_tag \<Rightarrow> boundary_tag) \<Rightarrow> 'a liballoc_scheme \<Rightarrow>
    'a liballoc_scheme option" where
  "upd p f s = (if p = NULL then None else Some (s\<lparr>mem := (mem s)(p := f (mem s p))\<rparr>))"

text \<open>The two global arrays have \<open>MAXEXP\<close> entries; an index outside them has no meaning.\<close>

definition get_freePages :: "int \<Rightarrow> 'a liballoc_scheme \<Rightarrow> addr option" where
  "get_freePages i s =
     (if 0 \<le> i \<and> i < int MAXEXP then Some (l_freePages s ! nat i) else None)"

definition set_freePages :: "int \<Rightarrow> addr \<Rightarrow> 'a liballoc_scheme \<Rightarrow> 'a liballoc_scheme option" where
  "set_freePages i p s =
     (if 0 \<le> i \<and> i < int MAXEXP
      then Some (s\<lparr>l_freePages := (l_freePages s)[nat i := p]\<rparr>) else None)"

definition get_completePages :: "int \<Rightarrow> 'a liballoc_scheme \<Rightarrow> int option" where
  "get_completePages i s =
     (if 0 \<le> i \<and> i < int MAXEXP then Some (l_completePages s ! nat i) else None)"

definition add_completePages :: "int \<Rightarrow> int \<Rightarrow> 'a liballoc_scheme \<Rightarrow> 'a liballoc_scheme option" where
  "add_completePages i d s =
     (if 0 \<le> i \<and> i < int MAXEXP
      then Some (s\<lparr>l_completePages := (l_completePages s)[nat i := l_completePages s ! nat i + d]\<rparr>)
      else None)"

section \<open>The lock\<close>

definition liballoc_lock :: "'a liballoc_scheme \<Rightarrow> 'a liballoc_scheme option" where
  "liballoc_lock s = do { l \<leftarrow> acquireLock (alloc_lock s); Some (s\<lparr>alloc_lock := l\<rparr>) }"

definition liballoc_unlock :: "'a liballoc_scheme \<Rightarrow> 'a liballoc_scheme" where
  "liballoc_unlock s = s\<lparr>alloc_lock := releaseLock (alloc_lock s)\<rparr>"

section \<open>Helper functions\<close>

text \<open>The loop of \<open>getexp\<close>, from a given value of \<open>shift\<close>.\<close>

function getexp_loop :: "uint32 \<Rightarrow> nat \<Rightarrow> nat" where
  "getexp_loop sz shift =
     (if shift < MAXEXP then if sz < push_bit shift 1 then shift else getexp_loop sz (shift + 1)
      else shift)"
  by pat_completeness auto
termination
  by (relation "measure (\<lambda>(sz, shift). MAXEXP - shift)") auto

declare getexp_loop.simps [simp del]

definition getexp :: "uint32 \<Rightarrow> int" where
  "getexp sz = (if sz < push_bit MINEXP 1 then -1 else int (getexp_loop sz MINEXP) - 1)"

text \<open>The byte loops of \<open>liballoc_memset\<close> and \<open>liballoc_memcpy\<close>.\<close>

definition wr_byte :: "addr \<Rightarrow> uint8 \<Rightarrow> 'a liballoc_scheme \<Rightarrow> 'a liballoc_scheme option" where
  "wr_byte p v s = (if p = NULL then None else Some (s\<lparr>bytes := (bytes s)(p := v)\<rparr>))"

definition rd_byte :: "addr \<Rightarrow> 'a liballoc_scheme \<Rightarrow> uint8 option" where
  "rd_byte p s = (if p = NULL then None else Some (bytes s p))"

fun memset_loop :: "addr \<Rightarrow> uint8 \<Rightarrow> nat \<Rightarrow> nat \<Rightarrow> 'a liballoc_scheme \<Rightarrow> 'a liballoc_scheme option" where
  "memset_loop p c i 0 s = Some s"
| "memset_loop p c i (Suc n) s =
     do { s \<leftarrow> wr_byte (p + of_nat i) c s; memset_loop p c (i + 1) n s }"

definition liballoc_memset :: "addr \<Rightarrow> uint8 \<Rightarrow> uint64 \<Rightarrow> 'a liballoc_scheme \<Rightarrow> 'a liballoc_scheme option" where
  "liballoc_memset p c n s = memset_loop p c 0 (unat n) s"

text \<open>
  \<open>*ldest++ = *lsrc++\<close> reads eight bytes and then writes eight bytes; the second loop moves the
  rest one byte at a time.
\<close>

fun copy_words :: "addr \<Rightarrow> addr \<Rightarrow> nat \<Rightarrow> 'a liballoc_scheme \<Rightarrow>
    (addr \<times> addr \<times> nat \<times> 'a liballoc_scheme) option" where
  "copy_words d sr n s =
     (if n < 8 then Some (d, sr, n, s)
      else if d = NULL \<or> sr = NULL then None
      else copy_words (d + 8) (sr + 8) (n - 8)
             (s\<lparr>bytes := (\<lambda>a. if a - d < 8 then bytes s (sr + (a - d)) else bytes s a)\<rparr>))"

declare copy_words.simps [simp del]

fun copy_bytes :: "nat \<Rightarrow> addr \<Rightarrow> addr \<Rightarrow> 'a liballoc_scheme \<Rightarrow> 'a liballoc_scheme option" where
  "copy_bytes 0 d sr s = Some s"
| "copy_bytes (Suc n) d sr s =
     do { b \<leftarrow> rd_byte sr s; s \<leftarrow> wr_byte d b s; copy_bytes n (d + 1) (sr + 1) s }"

definition liballoc_memcpy :: "addr \<Rightarrow> addr \<Rightarrow> uint64 \<Rightarrow> 'a liballoc_scheme \<Rightarrow> 'a liballoc_scheme option" where
  "liballoc_memcpy s1 s2 n s =
     do { (d, sr, m, s) \<leftarrow> copy_words s1 s2 (unat n) s; copy_bytes m d sr s }"

section \<open>Free lists and split chains\<close>

definition insert_tag :: "addr \<Rightarrow> int \<Rightarrow> 'a liballoc_scheme \<Rightarrow> 'a liballoc_scheme option" where
  "insert_tag tag idx s = do {
     t \<leftarrow> rd tag s;
     let realIndex =
       (if idx < 0
        then (let r = getexp (real_size t - of_nat TAG_SIZE) in if r < int MINEXP then int MINEXP else r)
        else idx);
     s \<leftarrow> upd tag (\<lambda>t. t\<lparr>index := realIndex\<rparr>) s;
     head \<leftarrow> get_freePages realIndex s;
     s \<leftarrow> (if head \<noteq> NULL
       then do {
         h \<leftarrow> rd head s;
         s \<leftarrow> upd tag (\<lambda>t. t\<lparr>prev_tag := prev_tag h\<rparr>) s;
         s \<leftarrow> (if prev_tag h \<noteq> NULL then upd (prev_tag h) (\<lambda>t. t\<lparr>next_tag := tag\<rparr>) s else Some s);
         s \<leftarrow> upd head (\<lambda>t. t\<lparr>prev_tag := tag\<rparr>) s;
         upd tag (\<lambda>t. t\<lparr>next_tag := head\<rparr>) s }
       else Some s);
     set_freePages realIndex tag s }"

definition remove_tag :: "addr \<Rightarrow> 'a liballoc_scheme \<Rightarrow> 'a liballoc_scheme option" where
  "remove_tag tag s = do {
     t \<leftarrow> rd tag s;
     head \<leftarrow> get_freePages (index t) s;
     s \<leftarrow> (if head = tag then set_freePages (index t) (next_tag t) s else Some s);
     s \<leftarrow> (if prev_tag t \<noteq> NULL then upd (prev_tag t) (\<lambda>u. u\<lparr>next_tag := next_tag t\<rparr>) s else Some s);
     t \<leftarrow> rd tag s;
     s \<leftarrow> (if next_tag t \<noteq> NULL then upd (next_tag t) (\<lambda>u. u\<lparr>prev_tag := prev_tag t\<rparr>) s else Some s);
     upd tag (\<lambda>u. u\<lparr>next_tag := NULL, prev_tag := NULL, index := -1\<rparr>) s }"

definition melt_left :: "addr \<Rightarrow> 'a liballoc_scheme \<Rightarrow> (addr \<times> 'a liballoc_scheme) option" where
  "melt_left tag s = do {
     t \<leftarrow> rd tag s;
     let left = split_left t;
     s \<leftarrow> upd left (\<lambda>l. l\<lparr>real_size := real_size l + real_size t, split_right := split_right t\<rparr>) s;
     s \<leftarrow> (if split_right t \<noteq> NULL then upd (split_right t) (\<lambda>r. r\<lparr>split_left := left\<rparr>) s else Some s);
     Some (left, s) }"

definition absorb_right :: "addr \<Rightarrow> 'a liballoc_scheme \<Rightarrow> (addr \<times> 'a liballoc_scheme) option" where
  "absorb_right tag s = do {
     t \<leftarrow> rd tag s;
     let right = split_right t;
     s \<leftarrow> remove_tag right s;
     r \<leftarrow> rd right s;
     s \<leftarrow> upd tag (\<lambda>t. t\<lparr>real_size := real_size t + real_size r, split_right := split_right r\<rparr>) s;
     s \<leftarrow> (if split_right r \<noteq> NULL then upd (split_right r) (\<lambda>u. u\<lparr>split_left := tag\<rparr>) s else Some s);
     Some (tag, s) }"

text \<open>
  The new tag lies in memory that held payload: its \<open>size\<close> is not written, so it keeps
  what the memory held there.
\<close>

definition split_tag :: "addr \<Rightarrow> 'a liballoc_scheme \<Rightarrow> (addr \<times> 'a liballoc_scheme) option" where
  "split_tag tag s = do {
     t \<leftarrow> rd tag s;
     let remainder = real_size t - of_nat TAG_SIZE - req_size t;
     let new_tag = tag + of_nat TAG_SIZE + ucast (req_size t);
     s \<leftarrow> upd new_tag (\<lambda>n. n\<lparr>magic := LIBALLOC_MAGIC, real_size := remainder,
            next_tag := NULL, prev_tag := NULL, split_left := tag, split_right := split_right t\<rparr>) s;
     s \<leftarrow> (if split_right t \<noteq> NULL then upd (split_right t) (\<lambda>r. r\<lparr>split_left := new_tag\<rparr>) s else Some s);
     s \<leftarrow> upd tag (\<lambda>t. t\<lparr>split_right := new_tag, real_size := real_size t - remainder\<rparr>) s;
     s \<leftarrow> insert_tag new_tag (-1) s;
     Some (new_tag, s) }"

section \<open>Allocation\<close>

definition pages_for :: "uint32 \<Rightarrow> uint32" where
  "pages_for sz =
     (let usage = sz + of_nat TAG_SIZE;
          pages = usage div l_pageSize;
          pages = (if usage mod l_pageSize \<noteq> 0 then pages + 1 else pages)
      in if pages < l_pageCount then l_pageCount else pages)"

definition allocate_new_tag ::
    "(uint32 \<Rightarrow> 'a liballoc_scheme \<Rightarrow> (addr \<times> 'a liballoc_scheme) option) \<Rightarrow>
     uint32 \<Rightarrow> 'a liballoc_scheme \<Rightarrow> (addr \<times> 'a liballoc_scheme) option" where
  "allocate_new_tag palloc sz s = do {
     let pages = pages_for sz;
     (tag, s) \<leftarrow> palloc pages s;
     if tag = NULL then Some (NULL, s)
     else do {
       s \<leftarrow> wr tag \<lparr>magic = LIBALLOC_MAGIC, req_size = sz, real_size = pages * l_pageSize, index = -1,
                     split_left = NULL, split_right = NULL, next_tag = NULL, prev_tag = NULL\<rparr> s;
       Some (tag, s) } }"

definition liballoc_init :: "'a liballoc_scheme \<Rightarrow> 'a liballoc_scheme" where
  "liballoc_init s =
     (if l_initialized s = 0
      then s\<lparr>l_freePages := replicate MAXEXP NULL, l_completePages := replicate MAXEXP 0,
             l_initialized := 1\<rparr>
      else s)"

text \<open>The test of the search loop: both sides are \<open>size_t\<close>.\<close>

definition enough_space :: "boundary_tag \<Rightarrow> uint64 \<Rightarrow> bool" where
  "enough_space t sz \<longleftrightarrow> sz + of_nat TAG_SIZE \<le> ucast (real_size t) - of_nat TAG_SIZE"

partial_function (option) find_tag :: "uint64 \<Rightarrow> addr \<Rightarrow> 'a liballoc_scheme \<Rightarrow> addr option" where
  "find_tag sz tag s =
     (if tag = NULL then Some NULL
      else do { t \<leftarrow> rd tag s;
                if enough_space t sz then Some tag else find_tag sz (next_tag t) s })"

definition min_index :: "int \<Rightarrow> int" where
  "min_index i = (if i < int MINEXP then int MINEXP else i)"

text \<open>From the search to the point where \<open>tag\<close> is off the free lists (or is a fresh block).\<close>

definition take_tag ::
    "(uint32 \<Rightarrow> 'a liballoc_scheme \<Rightarrow> (addr \<times> 'a liballoc_scheme) option) \<Rightarrow>
     uint64 \<Rightarrow> 'a liballoc_scheme \<Rightarrow> (addr \<times> 'a liballoc_scheme) option" where
  "take_tag palloc sz s = do {
     let idx = min_index (getexp (ucast sz) + MODE);
     head \<leftarrow> get_freePages idx s;
     tag \<leftarrow> find_tag sz head s;
     if tag = NULL then allocate_new_tag palloc (ucast sz) s
     else do {
       s \<leftarrow> remove_tag tag s;
       t \<leftarrow> rd tag s;
       s \<leftarrow> (if split_left t = NULL \<and> split_right t = NULL then add_completePages idx (-1) s else Some s);
       Some (tag, s) } }"

text \<open>The second half: record the size and give the excess back as a new free tag.\<close>

definition carve_tag :: "addr \<Rightarrow> uint64 \<Rightarrow> 'a liballoc_scheme \<Rightarrow> 'a liballoc_scheme option" where
  "carve_tag tag sz s = do {
     s \<leftarrow> upd tag (\<lambda>t. t\<lparr>req_size := ucast sz\<rparr>) s;
     t \<leftarrow> rd tag s;
     let remainder = (ucast (ucast (real_size t) - sz - of_nat TAG_SIZE * 2 :: uint64) :: uint32);
     if 0 < sint remainder \<and> 0 \<le> getexp remainder
     then do { (new_tag, s) \<leftarrow> split_tag tag s; Some s }
     else Some s }"

definition kernel_malloc ::
    "(uint32 \<Rightarrow> 'a liballoc_scheme \<Rightarrow> (addr \<times> 'a liballoc_scheme) option) \<Rightarrow>
     uint64 \<Rightarrow> 'a liballoc_scheme \<Rightarrow> (addr \<times> 'a liballoc_scheme) option" where
  "kernel_malloc palloc sz s = do {
     s \<leftarrow> liballoc_lock s;
     let s = liballoc_init s;
     (tag, s) \<leftarrow> take_tag palloc sz s;
     if tag = NULL then Some (NULL, liballoc_unlock s)
     else do {
       s \<leftarrow> carve_tag tag sz s;
       Some (tag + of_nat TAG_SIZE, liballoc_unlock s) } }"

section \<open>Release\<close>

partial_function (option) melt_left_loop ::
    "addr \<Rightarrow> 'a liballoc_scheme \<Rightarrow> (addr \<times> 'a liballoc_scheme) option" where
  "melt_left_loop tag s = do {
     t \<leftarrow> rd tag s;
     if split_left t = NULL then Some (tag, s)
     else do {
       l \<leftarrow> rd (split_left t) s;
       if index l < 0 then Some (tag, s)
       else do {
         r \<leftarrow> melt_left tag s;
         s \<leftarrow> remove_tag (fst r) (snd r);
         melt_left_loop (fst r) s } } }"

partial_function (option) absorb_right_loop ::
    "addr \<Rightarrow> 'a liballoc_scheme \<Rightarrow> (addr \<times> 'a liballoc_scheme) option" where
  "absorb_right_loop tag s = do {
     t \<leftarrow> rd tag s;
     if split_right t = NULL then Some (tag, s)
     else do {
       r \<leftarrow> rd (split_right t) s;
       if index r < 0 then Some (tag, s)
       else do {
         p \<leftarrow> absorb_right tag s;
         absorb_right_loop (fst p) (snd p) } } }"

text \<open>The pages of a whole block that goes back to the page table.\<close>

definition release_pages :: "uint32 \<Rightarrow> uint32" where
  "release_pages rs =
     (let pages = rs div l_pageSize;
          pages = (if rs mod l_pageSize \<noteq> 0 then pages + 1 else pages)
      in if pages < l_pageCount then l_pageCount else pages)"

text \<open>From the choice of the list to the end of \<open>kernel_free\<close>, the lock still held.\<close>

definition give_back ::
    "(addr \<Rightarrow> uint32 \<Rightarrow> 'a liballoc_scheme \<Rightarrow> 'a liballoc_scheme option) \<Rightarrow>
     addr \<Rightarrow> 'a liballoc_scheme \<Rightarrow> 'a liballoc_scheme option" where
  "give_back pfree tag s = do {
     t \<leftarrow> rd tag s;
     let idx = min_index (getexp (real_size t - of_nat TAG_SIZE));
     if split_left t = NULL \<and> split_right t = NULL
     then do {
       c \<leftarrow> get_completePages idx s;
       if c = MAXCOMPLETE then pfree tag (release_pages (real_size t)) s
       else do { s \<leftarrow> add_completePages idx 1 s; insert_tag tag idx s } }
     else insert_tag tag idx s }"

definition kernel_free ::
    "(addr \<Rightarrow> uint32 \<Rightarrow> 'a liballoc_scheme \<Rightarrow> 'a liballoc_scheme option) \<Rightarrow>
     addr \<Rightarrow> 'a liballoc_scheme \<Rightarrow> 'a liballoc_scheme option" where
  "kernel_free pfree ptr s =
     (if ptr = NULL then Some s
      else do {
        s \<leftarrow> liballoc_lock s;
        let tag = ptr - of_nat TAG_SIZE;
        t \<leftarrow> rd tag s;
        if magic t \<noteq> LIBALLOC_MAGIC then Some (liballoc_unlock s)
        else do {
          (tag, s) \<leftarrow> melt_left_loop tag s;
          (tag, s) \<leftarrow> absorb_right_loop tag s;
          s \<leftarrow> give_back pfree tag s;
          Some (liballoc_unlock s) } })"

section \<open>\<open>calloc\<close> and \<open>realloc\<close>\<close>

text \<open>\<open>real_size\<close> is an \<open>int\<close>: the product is cut to 32 bits and read as signed when it is
  passed on as a \<open>size_t\<close>.\<close>

definition kernel_calloc ::
    "(uint32 \<Rightarrow> 'a liballoc_scheme \<Rightarrow> (addr \<times> 'a liballoc_scheme) option) \<Rightarrow>
     uint64 \<Rightarrow> uint64 \<Rightarrow> 'a liballoc_scheme \<Rightarrow> (addr \<times> 'a liballoc_scheme) option" where
  "kernel_calloc palloc nobj sz s = do {
     let real_size = (ucast (nobj * sz) :: uint32);
     (p, s) \<leftarrow> kernel_malloc palloc (scast real_size) s;
     s \<leftarrow> liballoc_memset p 0 (scast real_size) s;
     Some (p, s) }"

definition kernel_realloc ::
    "(uint32 \<Rightarrow> 'a liballoc_scheme \<Rightarrow> (addr \<times> 'a liballoc_scheme) option) \<Rightarrow>
     (addr \<Rightarrow> uint32 \<Rightarrow> 'a liballoc_scheme \<Rightarrow> 'a liballoc_scheme option) \<Rightarrow>
     addr \<Rightarrow> uint64 \<Rightarrow> 'a liballoc_scheme \<Rightarrow> (addr \<times> 'a liballoc_scheme) option" where
  "kernel_realloc palloc pfree p sz s =
     (if sz = 0 then do { s \<leftarrow> kernel_free pfree p s; Some (NULL, s) }
      else if p = NULL then kernel_malloc palloc sz s
      else do {
        s \<leftarrow> liballoc_lock s;
        t \<leftarrow> rd (p - of_nat TAG_SIZE) s;
        let s = liballoc_unlock s;
        let real_size = req_size t;
        let real_size = (if sz < ucast real_size then ucast sz else real_size);
        (ptr, s) \<leftarrow> kernel_malloc palloc sz s;
        s \<leftarrow> liballoc_memcpy ptr p (ucast real_size) s;
        s \<leftarrow> kernel_free pfree p s;
        Some (ptr, s) })"

end
