(* ===== verification/Liballoc_Lists.thy ===== *)
theory Liballoc_Lists
  imports Liballoc
begin

text \<open>
  The free lists of the heap. A list of addresses \<open>F i\<close> for every size class \<open>i\<close>
  describes the doubly linked list that starts at \<open>l_freePages[i]\<close>; \<open>insert_tag\<close> puts a tag
  in front, \<open>remove_tag\<close> takes one out anywhere, and both return on every tag the lists allow.
\<close>

section \<open>Doubly linked lists in memory\<close>

fun head_or :: "addr list \<Rightarrow> addr \<Rightarrow> addr" where
  "head_or [] q = q"
| "head_or (a # _) q = a"

fun last_or :: "addr \<Rightarrow> addr list \<Rightarrow> addr" where
  "last_or p [] = p"
| "last_or p (a # xs) = last_or a xs"

fun dll :: "(addr \<Rightarrow> boundary_tag) \<Rightarrow> addr \<Rightarrow> addr list \<Rightarrow> addr \<Rightarrow> bool" where
  "dll m p [] q = True"
| "dll m p (a # xs) q \<longleftrightarrow> prev_tag (m a) = p \<and> next_tag (m a) = head_or xs q \<and> dll m a xs q"

lemma last_or_snoc [simp]: "last_or p (ys @ [y]) = y"
  by (induction ys arbitrary: p) auto

lemma head_or_append: "head_or (xs @ ys) q = head_or xs (head_or ys q)"
  by (cases xs) auto

lemma dll_append:
  "dll m p (ys @ zs) q \<longleftrightarrow> dll m p ys (head_or zs q) \<and> dll m (last_or p ys) zs q"
  by (induction ys arbitrary: p) (auto simp: head_or_append)

lemma dll_cong:
  "(\<And>a. a \<in> set xs \<Longrightarrow> prev_tag (m a) = prev_tag (m' a) \<and> next_tag (m a) = next_tag (m' a)) \<Longrightarrow>
   dll m p xs q = dll m' p xs q"
  by (induction xs arbitrary: p) auto

lemma dll_upd_other [simp]: "a \<notin> set xs \<Longrightarrow> dll (m(a := t)) p xs q = dll m p xs q"
  by (rule dll_cong) auto

lemma dll_set_end:
  "dll m p (ys @ [y]) q \<Longrightarrow> y \<notin> set ys \<Longrightarrow> dll (m(y := (m y)\<lparr>next_tag := q'\<rparr>)) p (ys @ [y]) q'"
  by (simp add: dll_append)

lemma dll_set_start:
  "dll m p (z # zs) q \<Longrightarrow> z \<notin> set zs \<Longrightarrow> dll (m(z := (m z)\<lparr>prev_tag := p'\<rparr>)) p' (z # zs) q"
  by simp

lemma head_or_in: "xs \<noteq> [] \<Longrightarrow> head_or xs q \<in> set xs"
  by (cases xs) auto

section \<open>The list invariant\<close>

definition lists_ok :: "'a liballoc_scheme \<Rightarrow> addr set \<Rightarrow> (nat \<Rightarrow> addr list) \<Rightarrow> bool" where
  "lists_ok s L F \<longleftrightarrow>
     NULL \<notin> L \<and> length (l_freePages s) = MAXEXP \<and>
     (\<forall>i < MAXEXP. distinct (F i) \<and> set (F i) \<subseteq> L \<and> dll (mem s) NULL (F i) NULL \<and>
        l_freePages s ! i = head_or (F i) NULL \<and> (\<forall>a \<in> set (F i). index (mem s a) = int i)) \<and>
     (\<forall>a \<in> L. (\<forall>i < MAXEXP. a \<notin> set (F i)) \<longrightarrow>
        index (mem s a) = -1 \<and> next_tag (mem s a) = NULL \<and> prev_tag (mem s a) = NULL)"

text \<open>Two memories that differ in the list fields of the tags only.\<close>

definition same_blocks :: "(addr \<Rightarrow> boundary_tag) \<Rightarrow> (addr \<Rightarrow> boundary_tag) \<Rightarrow> bool" where
  "same_blocks m m' \<longleftrightarrow>
     (\<forall>a. magic (m' a) = magic (m a) \<and> req_size (m' a) = req_size (m a) \<and>
        real_size (m' a) = real_size (m a) \<and> split_left (m' a) = split_left (m a) \<and>
        split_right (m' a) = split_right (m a))"

text \<open>Two states that differ in the list fields of tags of \<open>L\<close> and in the list heads only.\<close>

definition list_step :: "addr set \<Rightarrow> 'a liballoc_scheme \<Rightarrow> 'a liballoc_scheme \<Rightarrow> bool" where
  "list_step L s s' \<longleftrightarrow>
     same_blocks (mem s) (mem s') \<and> (\<forall>a. a \<notin> L \<longrightarrow> mem s' a = mem s a) \<and>
     (\<exists>m h. s' = s\<lparr>mem := m, l_freePages := h\<rparr>)"

lemma lists_okD:
  assumes "lists_ok s L F" "i < MAXEXP"
  shows "distinct (F i)" "set (F i) \<subseteq> L" "dll (mem s) NULL (F i) NULL"
    "l_freePages s ! i = head_or (F i) NULL" "\<And>a. a \<in> set (F i) \<Longrightarrow> index (mem s a) = int i"
  using assms by (auto simp: lists_ok_def)

lemma lists_ok_disjoint:
  assumes "lists_ok s L F" "i < MAXEXP" "j < MAXEXP" "a \<in> set (F i)" "a \<in> set (F j)"
  shows "i = j"
proof -
  have "int i = int j" using lists_okD(5) [OF assms(1,2,4)] lists_okD(5) [OF assms(1,3,5)] by simp
  then show ?thesis by simp
qed

lemma lists_ok_used:
  assumes "lists_ok s L F" "a \<in> L" "index (mem s a) = -1"
  shows "next_tag (mem s a) = NULL" "prev_tag (mem s a) = NULL" "\<And>i. i < MAXEXP \<Longrightarrow> a \<notin> set (F i)"
proof -
  show n: "a \<notin> set (F i)" if "i < MAXEXP" for i
    using lists_okD(5) [OF assms(1) that, of a] assms(3) by auto
  show "next_tag (mem s a) = NULL" "prev_tag (mem s a) = NULL"
    using assms n by (auto simp: lists_ok_def)
qed

lemma lists_ok_free:
  assumes "lists_ok s L F" "a \<in> L" "0 \<le> index (mem s a)"
  obtains i where "i < MAXEXP" "a \<in> set (F i)" "index (mem s a) = int i"
proof -
  have "\<exists>i < MAXEXP. a \<in> set (F i)"
    using assms by (auto simp: lists_ok_def)
  then show ?thesis using that lists_okD(5) [OF assms(1)] by blast
qed

lemma lists_okI:
  assumes "NULL \<notin> L" "length (l_freePages s) = MAXEXP"
    and "\<And>i. i < MAXEXP \<Longrightarrow> distinct (F i)"
    and "\<And>i. i < MAXEXP \<Longrightarrow> set (F i) \<subseteq> L"
    and "\<And>i. i < MAXEXP \<Longrightarrow> dll (mem s) NULL (F i) NULL"
    and "\<And>i. i < MAXEXP \<Longrightarrow> l_freePages s ! i = head_or (F i) NULL"
    and "\<And>i a. i < MAXEXP \<Longrightarrow> a \<in> set (F i) \<Longrightarrow> index (mem s a) = int i"
    and "\<And>a. a \<in> L \<Longrightarrow> (\<And>i. i < MAXEXP \<Longrightarrow> a \<notin> set (F i)) \<Longrightarrow>
           index (mem s a) = -1 \<and> next_tag (mem s a) = NULL \<and> prev_tag (mem s a) = NULL"
  shows "lists_ok s L F"
  using assms unfolding lists_ok_def by blast

lemma lists_ok_rest:
  assumes "lists_ok s L F" "a \<in> L" "\<And>i. i < MAXEXP \<Longrightarrow> a \<notin> set (F i)"
  shows "index (mem s a) = -1 \<and> next_tag (mem s a) = NULL \<and> prev_tag (mem s a) = NULL"
  using assms by (auto simp: lists_ok_def)

section \<open>\<open>insert_tag\<close>\<close>

text \<open>The class of a block: the list \<open>insert_tag\<close> and \<open>kernel_free\<close> choose for it.\<close>

definition size_class :: "boundary_tag \<Rightarrow> int" where
  "size_class t = min_index (getexp (real_size t - of_nat TAG_SIZE))"

lemma insert_tag_at:
  assumes ok: "lists_ok s L F" and a: "a \<in> L" and used: "index (mem s a) = -1" and i: "i < MAXEXP"
  shows "\<exists>s'. insert_tag a (int i) s = Some s' \<and> lists_ok s' L (F(i := a # F i)) \<and> list_step L s s' \<and>
           (\<forall>b. index (mem s' b) = (if b = a then int i else index (mem s b)))"
proof -
  have nL: "NULL \<notin> L" and len: "length (l_freePages s) = MAXEXP" using ok by (auto simp: lists_ok_def)
  have an: "a \<noteq> NULL" using nL a by auto
  note D = lists_okD [OF ok]
  note F = D [OF i]
  note U = lists_ok_used [OF ok a used]
  define m' where "m' = (case F i of
      [] \<Rightarrow> (mem s)(a := (mem s a)\<lparr>index := int i\<rparr>)
    | h # _ \<Rightarrow> (mem s)(a := (mem s a)\<lparr>index := int i, prev_tag := NULL, next_tag := h\<rparr>,
                  h := (mem s h)\<lparr>prev_tag := a\<rparr>))"
  let ?s = "s\<lparr>mem := m', l_freePages := (l_freePages s)[i := a]\<rparr>"
  have head: "h \<in> L \<and> h \<noteq> NULL \<and> h \<noteq> a \<and> prev_tag (mem s h) = NULL \<and> h \<notin> set hs" if "F i = h # hs" for h hs
    using F that nL U(3) [OF i] by auto
  have run: "insert_tag a (int i) s = Some ?s"
    using an i F head
    by (auto simp: insert_tag_def rd_def upd_def get_freePages_def set_freePages_def m'_def
        fun_upd_twist split: list.splits)
  have ix: "index (m' b) = (if b = a then int i else index (mem s b))" for b
    using head by (auto simp: m'_def split: list.splits)
  have dl: "dll m' NULL (a # F i) NULL"
    using F(3) head U(1,2) U(3) [OF i] by (cases "F i") (auto simp: m'_def)
  have other: "dll m' NULL (F j) NULL" if j: "j < MAXEXP" "j \<noteq> i" for j
  proof -
    have "h \<notin> set (F j)" if "F i = h # hs" for h hs
      using lists_ok_disjoint [OF ok i j(1), of h] that j by auto
    then show ?thesis using D(3) [OF j(1)] U(3) [OF j(1)] by (cases "F i") (auto simp: m'_def)
  qed
  have "lists_ok ?s L (F(i := a # F i))"
  proof (rule lists_okI)
    fix b assume b: "b \<in> L" and nb: "\<And>j. j < MAXEXP \<Longrightarrow> b \<notin> set ((F(i := a # F i)) j)"
    have "b \<notin> set (F j)" if "j < MAXEXP" for j using nb [OF that] i by (auto split: if_splits)
    moreover have "b \<noteq> a" using nb [OF i] by auto
    moreover have "b \<noteq> h" if "F i = h # hs" for h hs using nb [OF i] that by auto
    ultimately show "index (mem ?s b) = -1 \<and> next_tag (mem ?s b) = NULL \<and> prev_tag (mem ?s b) = NULL"
      using lists_ok_rest [OF ok b] by (cases "F i") (auto simp: m'_def)
  qed (use nL len F U(3) a D dl other ix i in \<open>auto simp: nth_list_update split: if_splits\<close>)
  moreover have "list_step L s ?s"
    using a head by (auto simp: list_step_def same_blocks_def m'_def split: list.splits)
  ultimately show ?thesis using run ix by auto
qed

lemma insert_tag_auto:
  assumes "a \<noteq> NULL" "size_class (mem s a) = int i"
  shows "insert_tag a (-1) s = insert_tag a (int i) s"
  using assms by (simp add: insert_tag_def rd_def size_class_def min_index_def Let_def)

section \<open>\<open>remove_tag\<close>\<close>

text \<open>The memory after a tag between \<open>ys\<close> and \<open>zs\<close> is unlinked.\<close>

definition unlinked :: "addr list \<Rightarrow> addr \<Rightarrow> addr list \<Rightarrow> (addr \<Rightarrow> boundary_tag) \<Rightarrow> addr \<Rightarrow> boundary_tag" where
  "unlinked ys a zs m =
     (let m1 = (if ys = [] then m
                else m(last_or NULL ys := (m (last_or NULL ys))\<lparr>next_tag := head_or zs NULL\<rparr>));
          m2 = (if zs = [] then m1
                else m1(head_or zs NULL := (m1 (head_or zs NULL))\<lparr>prev_tag := last_or NULL ys\<rparr>))
      in m2(a := (m a)\<lparr>next_tag := NULL, prev_tag := NULL, index := -1\<rparr>))"

lemma last_or_in: "ys \<noteq> [] \<Longrightarrow> last_or p ys \<in> set ys"
  by (induction ys arbitrary: p) (auto, metis last_or.simps(1))

lemma dll_unlink:
  assumes "dll m NULL (ys @ a # zs) NULL" "distinct (ys @ a # zs)"
  shows "dll (unlinked ys a zs m) NULL (ys @ zs) NULL"
proof -
  have y: "dll m NULL ys a" and z: "dll m a zs NULL"
    using assms(1) by (auto simp: dll_append)
  have "dll (unlinked ys a zs m) NULL ys (head_or zs NULL)"
  proof (cases ys rule: rev_cases)
    case Nil
    then show ?thesis by simp
  next
    case (snoc ys' y')
    have "y' \<notin> set ys'" "y' \<noteq> a" "a \<notin> set ys'" "zs = [] \<or> head_or zs NULL \<notin> set ys"
      using assms(2) snoc head_or_in [of zs NULL] by auto
    then show ?thesis using dll_set_end [of m NULL ys' y' a "head_or zs NULL"] y snoc
      by (auto simp: unlinked_def Let_def)
  qed
  moreover have "dll (unlinked ys a zs m) (last_or NULL ys) zs NULL"
  proof (cases zs)
    case Nil
    then show ?thesis by simp
  next
    case (Cons z' zs')
    have "a \<notin> set zs" "ys = [] \<or> last_or NULL ys \<notin> set zs" "z' \<notin> set zs'"
      using assms(2) Cons last_or_in [of ys NULL] by auto
    then show ?thesis using z Cons by (auto simp: unlinked_def Let_def)
  qed
  ultimately show ?thesis by (simp add: dll_append)
qed

lemma unlinked_index: "a \<notin> set ys \<Longrightarrow> a \<notin> set zs \<Longrightarrow>
    index (unlinked ys a zs m b) = (if b = a then -1 else index (m b))"
  by (auto simp: unlinked_def Let_def)

lemma unlinked_fields:
  "magic (unlinked ys a zs m b) = magic (m b)"
  "req_size (unlinked ys a zs m b) = req_size (m b)"
  "real_size (unlinked ys a zs m b) = real_size (m b)"
  "split_left (unlinked ys a zs m b) = split_left (m b)"
  "split_right (unlinked ys a zs m b) = split_right (m b)"
  by (simp_all add: unlinked_def Let_def)

lemma unlinked_same_blocks: "same_blocks m (unlinked ys a zs m)"
  by (simp add: same_blocks_def unlinked_fields)

lemma unlinked_other:
  assumes "b \<notin> set (ys @ a # zs)"
  shows "unlinked ys a zs m b = m b"
proof -
  have "ys \<noteq> [] \<Longrightarrow> b \<noteq> last_or NULL ys" "zs \<noteq> [] \<Longrightarrow> b \<noteq> head_or zs NULL" "b \<noteq> a"
    using assms last_or_in [of ys NULL] head_or_in [of zs NULL] by fastforce+
  then show ?thesis by (simp add: unlinked_def Let_def)
qed

lemma remove_tag_at:
  assumes ok: "lists_ok s L F" and i: "i < MAXEXP" and a: "a \<in> set (F i)"
  shows "\<exists>s'. remove_tag a s = Some s' \<and> lists_ok s' L (F(i := remove1 a (F i))) \<and> list_step L s s' \<and>
           (\<forall>b. index (mem s' b) = (if b = a then -1 else index (mem s b)))"
proof -
  have nL: "NULL \<notin> L" and len: "length (l_freePages s) = MAXEXP" using ok by (auto simp: lists_ok_def)
  note D = lists_okD [OF ok]
  note F = D [OF i]
  obtain ys zs where s: "F i = ys @ a # zs" using a by (auto simp: in_set_conv_decomp)
  have dist: "distinct (ys @ a # zs)" and sub: "set (ys @ a # zs) \<subseteq> L" using F s by auto
  have rem: "remove1 a (F i) = ys @ zs" using s dist by (simp add: remove1_split)
  let ?m = "unlinked ys a zs (mem s)"
  let ?s = "s\<lparr>mem := ?m, l_freePages := (l_freePages s)[i := head_or (ys @ zs) NULL]\<rparr>"
  have links: "prev_tag (mem s a) = last_or NULL ys" "next_tag (mem s a) = head_or zs NULL"
    using F(3) s by (auto simp: dll_append)
  have nn: "a \<noteq> NULL" "ys \<noteq> [] \<Longrightarrow> last_or NULL ys \<noteq> NULL" "zs \<noteq> [] \<Longrightarrow> head_or zs NULL \<noteq> NULL"
    "ys \<noteq> [] \<Longrightarrow> last_or NULL ys \<noteq> a" "zs \<noteq> [] \<Longrightarrow> head_or zs NULL \<noteq> a"
    using sub nL dist last_or_in [of ys NULL] head_or_in [of zs NULL] by auto
  have hd: "l_freePages s ! i = head_or ys a" using F(4) s by (simp add: head_or_append)
  have hd': "head_or ys a = a \<longleftrightarrow> ys = []" using dist by (cases ys) auto
  have run: "remove_tag a s = Some ?s"
  proof (cases ys)
    case Nil
    then show ?thesis using links nn hd F(5) [OF a] i
      by (auto simp: remove_tag_def rd_def upd_def get_freePages_def set_freePages_def unlinked_def
          fun_upd_twist Let_def)
  next
    case (Cons y ys')
    have "(l_freePages s)[i := y] = l_freePages s" using hd Cons len i by (metis head_or.simps(2) list_update_id)
    moreover have "y \<noteq> a" using dist Cons by auto
    ultimately show ?thesis using links nn hd F(5) [OF a] i Cons
      by (cases zs) (auto simp: remove_tag_def rd_def upd_def get_freePages_def set_freePages_def unlinked_def
          fun_upd_twist Let_def)
  qed
  have ix: "index (?m b) = (if b = a then -1 else index (mem s b))" for b
    using dist by (simp add: unlinked_index)
  have other: "unlinked ys a zs (mem s) b = mem s b" if "b \<notin> set (F i)" for b
    using that s by (simp add: unlinked_other)
  have apart: "b \<notin> set (F i)" if "j < MAXEXP" "j \<noteq> i" "b \<in> set (F j)" for j b
    using lists_ok_disjoint [OF ok i that(1), of b] that by auto
  have "lists_ok ?s L (F(i := ys @ zs))"
  proof (rule lists_okI)
    fix j assume j: "j < MAXEXP"
    show "dll (mem ?s) NULL ((F(i := ys @ zs)) j) NULL"
    proof (cases "j = i")
      case True
      then show ?thesis using dll_unlink [of "mem s" ys a zs] F(3) dist s by simp
    next
      case False
      have "dll ?m NULL (F j) NULL = dll (mem s) NULL (F j) NULL"
        by (rule dll_cong) (use apart [OF j False] other in auto)
      then show ?thesis using D(3) [OF j] False by simp
    qed
  next
    fix j b assume j: "j < MAXEXP" and b: "b \<in> set ((F(i := ys @ zs)) j)"
    show "index (mem ?s b) = int j"
      using b dist D(5) [OF j, of b] apart [OF j, of b] a s by (auto simp: ix split: if_splits)
  next
    fix b assume b: "b \<in> L" and nb: "\<And>j. j < MAXEXP \<Longrightarrow> b \<notin> set ((F(i := ys @ zs)) j)"
    show "index (mem ?s b) = -1 \<and> next_tag (mem ?s b) = NULL \<and> prev_tag (mem ?s b) = NULL"
    proof (cases "b = a")
      case True
      then show ?thesis by (simp add: unlinked_def Let_def)
    next
      case False
      then have "b \<notin> set (F j)" if "j < MAXEXP" for j using nb [OF that] s by (auto split: if_splits)
      then show ?thesis using lists_ok_rest [OF ok b] other i by auto
    qed
  qed (use nL len D dist sub i in \<open>auto simp: nth_list_update split: if_splits\<close>)
  moreover have "list_step L s ?s"
    unfolding list_step_def
  proof (intro conjI)
    show "same_blocks (mem s) (mem ?s)" by (simp add: unlinked_same_blocks)
    show "\<forall>b. b \<notin> L \<longrightarrow> mem ?s b = mem s b" using other F(2) by auto
    show "\<exists>m h. ?s = s\<lparr>mem := m, l_freePages := h\<rparr>" by blast
  qed
  ultimately show ?thesis using run ix rem by auto
qed

end
