(* ===== verification/Liballoc_Blocks.thy ===== *)
theory Liballoc_Blocks
  imports Liballoc_Lists
begin

text \<open>
  The blocks of the heap: size classes (\<open>getexp\<close>), the chains of blocks that tile each region
  obtained from the page table, and how splitting and melting keep the tiling.
\<close>

section \<open>Size classes\<close>

lemma unat_push_bit_1: "k < 32 \<Longrightarrow> unat (push_bit k 1 :: uint32) = 2 ^ k"
  using unat_2p [of k, where 'a = 32] by simp

lemma getexp_loop_bounds:
  assumes "0 < k" "k \<le> 32" "2 ^ (k - 1) \<le> unat sz"
  shows "k \<le> getexp_loop sz k \<and> getexp_loop sz k \<le> 32 \<and>
    2 ^ (getexp_loop sz k - 1) \<le> unat sz \<and> unat sz < 2 ^ getexp_loop sz k"
  using assms
proof (induction sz k rule: getexp_loop.induct)
  case (1 sz k)
  show ?case
  proof (cases "k < MAXEXP \<and> \<not> sz < push_bit k 1")
    case True
    then have "2 ^ k \<le> unat sz"
      by (auto simp: MAXEXP_def word_less_nat_alt unat_2p)
    then show ?thesis using 1 True
      by (auto simp: getexp_loop.simps [of sz k] MAXEXP_def)
  next
    case False
    then show ?thesis using 1 unat_lt32 [of sz]
      by (auto simp: getexp_loop.simps [of sz k] MAXEXP_def word_less_nat_alt unat_2p)
  qed
qed

text \<open>What the comment above \<open>getexp\<close> promises, and what it returns below the quantum.\<close>

lemma getexp_small: "unat sz < 16 \<Longrightarrow> getexp sz = -1"
  by (simp add: getexp_def MINEXP_def word_less_nat_alt)

lemma getexp_bounds:
  assumes "16 \<le> unat sz"
  shows "\<exists>n. getexp sz = int n \<and> 4 \<le> n \<and> n < 32 \<and> 2 ^ n \<le> unat sz \<and> unat sz < 2 ^ (n + 1)"
proof -
  have b: "4 \<le> getexp_loop sz 4 \<and> getexp_loop sz 4 \<le> 32 \<and>
      2 ^ (getexp_loop sz 4 - 1) \<le> unat sz \<and> unat sz < 2 ^ getexp_loop sz 4"
    by (rule getexp_loop_bounds) (use assms in auto)
  have "getexp_loop sz 4 \<noteq> 4" using b assms by auto
  then obtain n where n: "getexp_loop sz 4 = Suc n" "4 \<le> n" using b by (cases "getexp_loop sz 4") auto
  have "getexp sz = int n"
    using assms n by (simp add: getexp_def MINEXP_def word_less_nat_alt)
  then show ?thesis using n b by auto
qed

lemma getexp_range: "-1 \<le> getexp sz \<and> getexp sz < 32"
  using getexp_small [of sz] getexp_bounds [of sz] by (cases "unat sz < 16") auto

lemma getexp_nonneg: "0 \<le> getexp sz \<Longrightarrow> 16 \<le> unat sz"
  using getexp_small [of sz] by (cases "unat sz < 16") auto

lemma min_index_range: "4 \<le> min_index (getexp sz) \<and> min_index (getexp sz) < 32"
  using getexp_range [of sz] by (auto simp: min_index_def MINEXP_def)

lemma size_class_nat: "\<exists>i < MAXEXP. size_class t = int i"
  using min_index_range [of "real_size t - of_nat TAG_SIZE"]
  by (auto simp: size_class_def MAXEXP_def intro!: exI [of _ "nat (min_index (getexp (real_size t - of_nat TAG_SIZE)))"])

section \<open>The tiling\<close>

text \<open>
  \<open>L\<close> is the set of live tags, \<open>R\<close> the regions the page table handed out, by base address
  with their size in bytes. A block is the bytes from its tag to \<open>block_end\<close>.
\<close>

definition block_end :: "(addr \<Rightarrow> boundary_tag) \<Rightarrow> addr \<Rightarrow> nat" where
  "block_end m a = unat a + unat (real_size (m a))"

definition regions_ok :: "(addr \<rightharpoonup> nat) \<Rightarrow> bool" where
  "regions_ok R \<longleftrightarrow>
     (\<forall>r n. R r = Some n \<longrightarrow> r \<noteq> NULL \<and> unat r + n < 2 ^ 64 \<and> 16 * 4096 \<le> n \<and> n < 2 ^ 32 \<and> 4096 dvd n) \<and>
     (\<forall>r n r' n'. R r = Some n \<longrightarrow> R r' = Some n' \<longrightarrow> r \<noteq> r' \<longrightarrow>
        unat r + n \<le> unat r' \<or> unat r' + n' \<le> unat r)"

lemma regions_okD:
  assumes "regions_ok R" "R r = Some n"
  shows "r \<noteq> NULL" "unat r + n < 2 ^ 64" "16 * 4096 \<le> n" "n < 2 ^ 32" "4096 dvd n"
  using assms unfolding regions_ok_def by blast+

lemma regions_ok_apart:
  assumes "regions_ok R" "R r = Some n" "R r' = Some n'" "r \<noteq> r'"
  shows "unat r + n \<le> unat r' \<or> unat r' + n' \<le> unat r"
  using assms unfolding regions_ok_def by blast

definition tags_ok :: "(addr \<Rightarrow> boundary_tag) \<Rightarrow> addr set \<Rightarrow> bool" where
  "tags_ok m L \<longleftrightarrow> finite L \<and> NULL \<notin> L \<and>
     (\<forall>a \<in> L. magic (m a) = LIBALLOC_MAGIC \<and> TAG_SIZE \<le> unat (real_size (m a)))"

definition links_ok :: "(addr \<Rightarrow> boundary_tag) \<Rightarrow> addr set \<Rightarrow> bool" where
  "links_ok m L \<longleftrightarrow> (\<forall>a \<in> L.
     (split_right (m a) \<noteq> NULL \<longrightarrow> split_right (m a) \<in> L \<and>
        unat (split_right (m a)) = block_end m a \<and> split_left (m (split_right (m a))) = a) \<and>
     (split_left (m a) \<noteq> NULL \<longrightarrow> split_left (m a) \<in> L \<and> split_right (m (split_left (m a))) = a))"

definition disjoint_ok :: "(addr \<Rightarrow> boundary_tag) \<Rightarrow> addr set \<Rightarrow> bool" where
  "disjoint_ok m L \<longleftrightarrow>
     (\<forall>a \<in> L. \<forall>b \<in> L. a \<noteq> b \<longrightarrow> block_end m a \<le> unat b \<or> block_end m b \<le> unat a)"

definition in_region :: "(addr \<rightharpoonup> nat) \<Rightarrow> (addr \<Rightarrow> boundary_tag) \<Rightarrow> addr \<Rightarrow> bool" where
  "in_region R m a \<longleftrightarrow> (\<exists>r n. R r = Some n \<and> unat r \<le> unat a \<and> block_end m a \<le> unat r + n \<and>
     (split_left (m a) = NULL \<longleftrightarrow> a = r) \<and> (split_right (m a) = NULL \<longleftrightarrow> block_end m a = unat r + n))"

definition blocks_ok :: "(addr \<Rightarrow> boundary_tag) \<Rightarrow> addr set \<Rightarrow> (addr \<rightharpoonup> nat) \<Rightarrow> bool" where
  "blocks_ok m L R \<longleftrightarrow> regions_ok R \<and> tags_ok m L \<and> links_ok m L \<and> disjoint_ok m L \<and>
     (\<forall>a \<in> L. in_region R m a)"

lemma blocks_okD:
  assumes "blocks_ok m L R"
  shows "regions_ok R" "tags_ok m L" "links_ok m L" "disjoint_ok m L" "\<And>a. a \<in> L \<Longrightarrow> in_region R m a"
  using assms by (auto simp: blocks_ok_def)

lemma same_blocks_fields:
  assumes "same_blocks m m'"
  shows "magic (m' a) = magic (m a)" "req_size (m' a) = req_size (m a)" "real_size (m' a) = real_size (m a)"
    "split_left (m' a) = split_left (m a)" "split_right (m' a) = split_right (m a)"
    "block_end m' a = block_end m a"
  using assms by (auto simp: same_blocks_def block_end_def)

lemma same_blocks_ok: "same_blocks m m' \<Longrightarrow> blocks_ok m' L R = blocks_ok m L R"
  by (simp add: blocks_ok_def tags_ok_def links_ok_def disjoint_ok_def in_region_def same_blocks_fields)

lemma blocks_ok_cong:
  assumes "\<And>a. magic (m' a) = magic (m a) \<and> real_size (m' a) = real_size (m a) \<and>
      split_left (m' a) = split_left (m a) \<and> split_right (m' a) = split_right (m a)"
  shows "blocks_ok m' L R = blocks_ok m L R"
  using assms by (simp add: blocks_ok_def tags_ok_def links_ok_def disjoint_ok_def in_region_def block_end_def)

lemma same_blocks_refl [simp]: "same_blocks m m"
  by (simp add: same_blocks_def)

lemma same_blocks_trans: "same_blocks m m' \<Longrightarrow> same_blocks m' m'' \<Longrightarrow> same_blocks m m''"
  by (simp add: same_blocks_def)

lemma block_end_lt: "blocks_ok m L R \<Longrightarrow> a \<in> L \<Longrightarrow> block_end m a < 2 ^ 64"
  by (fastforce simp: blocks_ok_def in_region_def regions_ok_def dest!: bspec)

text \<open>A block with no neighbours is the whole region.\<close>

definition whole :: "boundary_tag \<Rightarrow> bool" where
  "whole t \<longleftrightarrow> split_left t = NULL \<and> split_right t = NULL"

lemma whole_region:
  assumes "blocks_ok m L R" "a \<in> L" "whole (m a)"
  shows "R a = Some (unat (real_size (m a)))"
  using blocks_okD(5) [OF assms(1,2)] assms(3) by (auto simp: in_region_def whole_def block_end_def)

section \<open>Melting two neighbours\<close>

text \<open>What \<open>melt_left\<close> (from the right tag) and \<open>absorb_right\<close> (from the left tag) both do.\<close>

definition merged :: "(addr \<Rightarrow> boundary_tag) \<Rightarrow> addr \<Rightarrow> addr \<Rightarrow> addr \<Rightarrow> boundary_tag" where
  "merged m a b =
     (let c = split_right (m b);
          m1 = m(a := (m a)\<lparr>real_size := real_size (m a) + real_size (m b), split_right := c\<rparr>)
      in if c = NULL then m1 else m1(c := (m1 c)\<lparr>split_left := a\<rparr>))"

lemma blocks_facts:
  assumes "blocks_ok m L R" "a \<in> L"
  shows "a \<noteq> NULL" "magic (m a) = LIBALLOC_MAGIC" "48 \<le> unat (real_size (m a))"
    "unat a + 48 \<le> block_end m a"
    "\<And>b. b \<in> L \<Longrightarrow> a \<noteq> b \<Longrightarrow> block_end m a \<le> unat b \<or> block_end m b \<le> unat a"
  using assms by (auto simp: blocks_ok_def tags_ok_def disjoint_ok_def block_end_def TAG_SIZE_def)

lemma blocks_finite: "blocks_ok m L R \<Longrightarrow> finite L"
  by (simp add: blocks_ok_def tags_ok_def)

lemma blocks_right:
  assumes "blocks_ok m L R" "a \<in> L" "split_right (m a) \<noteq> NULL"
  shows "split_right (m a) \<in> L" "unat (split_right (m a)) = block_end m a"
    "split_left (m (split_right (m a))) = a"
  using assms by (auto simp: blocks_ok_def links_ok_def)

lemma blocks_left:
  assumes "blocks_ok m L R" "a \<in> L" "split_left (m a) \<noteq> NULL"
  shows "split_left (m a) \<in> L" "split_right (m (split_left (m a))) = a"
  using assms by (auto simp: blocks_ok_def links_ok_def)

lemma same_region:
  assumes ok: "blocks_ok m L R" and a: "a \<in> L" and b: "split_right (m a) = b" "b \<noteq> NULL"
  shows "\<exists>r n. R r = Some n \<and> unat r \<le> unat a \<and> block_end m b \<le> unat r + n \<and> n < 2 ^ 32 \<and>
     (split_left (m a) = NULL \<longleftrightarrow> a = r) \<and> (split_right (m b) = NULL \<longleftrightarrow> block_end m b = unat r + n)"
proof -
  have bL: "b \<in> L" and ub: "unat b = block_end m a" and lb: "split_left (m b) = a"
    using blocks_right [OF ok a] b by auto
  note fa = blocks_facts [OF ok a] and fb = blocks_facts [OF ok bL]
  obtain r n where r: "R r = Some n" "unat r \<le> unat a" "block_end m a \<le> unat r + n"
      "split_left (m a) = NULL \<longleftrightarrow> a = r" "split_right (m a) = NULL \<longleftrightarrow> block_end m a = unat r + n"
    using blocks_okD(5) [OF ok a] by (auto simp: in_region_def)
  obtain r' n' where r': "R r' = Some n'" "unat r' \<le> unat b" "block_end m b \<le> unat r' + n'"
      "split_right (m b) = NULL \<longleftrightarrow> block_end m b = unat r' + n'"
    using blocks_okD(5) [OF ok bL] by (auto simp: in_region_def)
  have "r = r'"
  proof (rule ccontr)
    assume "r \<noteq> r'"
    then have "unat r + n \<le> unat r' \<or> unat r' + n' \<le> unat r"
      using blocks_okD(1) [OF ok] r(1) r'(1) by (simp add: regions_ok_def)
    moreover have "block_end m a < unat r + n" using r b by auto
    ultimately show False using r(2) r'(2,3) ub fa(4) fb(4) by linarith
  qed
  moreover have "n < 2 ^ 32" using blocks_okD(1) [OF ok] r(1) by (simp add: regions_ok_def)
  ultimately show ?thesis using r r' by auto
qed

lemma merged_ok:
  assumes ok: "blocks_ok m L R" and a: "a \<in> L" and b: "split_right (m a) = b" "b \<noteq> NULL"
  shows "blocks_ok (merged m a b) (L - {b}) R"
proof -
  have bL: "b \<in> L" and ub: "unat b = block_end m a" and lb: "split_left (m b) = a"
    using blocks_right [OF ok a] b by auto
  note fa = blocks_facts [OF ok a] and fb = blocks_facts [OF ok bL]
  let ?c = "split_right (m b)" and ?m = "merged m a b"
  have ab: "a \<noteq> b" using ub fa(4) by auto
  have c: "?c \<noteq> NULL \<Longrightarrow> ?c \<in> L \<and> unat ?c = block_end m b \<and> split_left (m ?c) = b \<and> ?c \<noteq> a \<and> ?c \<noteq> b"
    using blocks_right [OF ok bL] ub fa(4) fb(4) by fastforce
  obtain r n where r: "R r = Some n" "unat r \<le> unat a" "block_end m b \<le> unat r + n" "n < 2 ^ 32"
      "split_left (m a) = NULL \<longleftrightarrow> a = r" "?c = NULL \<longleftrightarrow> block_end m b = unat r + n"
    using same_region [OF ok a b] by blast
  have sum: "unat (real_size (m a) + real_size (m b)) = unat (real_size (m a)) + unat (real_size (m b))"
    using r ub by (intro unat_add_no_wrap) (simp add: block_end_def)
  have rs: "unat (real_size (?m d)) = (if d = a then unat (real_size (m a)) + unat (real_size (m b)) else unat (real_size (m d)))"
    and mg: "magic (?m d) = magic (m d)"
    and sr: "split_right (?m d) = (if d = a then ?c else split_right (m d))"
    and sl: "split_left (?m d) = (if ?c \<noteq> NULL \<and> d = ?c then a else split_left (m d))" for d
    using c sum by (auto simp: merged_def Let_def)
  have be: "block_end ?m d = (if d = a then block_end m b else block_end m d)" for d
    using rs ub by (simp add: block_end_def)
  have "tags_ok ?m (L - {b})"
    using blocks_okD(2) [OF ok] fa(3) by (auto simp: tags_ok_def mg rs TAG_SIZE_def)
  moreover have "disjoint_ok ?m (L - {b})"
  proof -
    have key: "block_end m b \<le> unat d \<or> block_end m d \<le> unat a" if "d \<in> L" "d \<noteq> a" "d \<noteq> b" for d
      using fa(5) [of d] fb(5) [of d] that ub blocks_facts(4) [OF ok that(1)] by force
    show ?thesis using key blocks_okD(4) [OF ok] unfolding disjoint_ok_def by (auto simp: be)
  qed
  moreover have "links_ok ?m (L - {b})"
    unfolding links_ok_def
  proof (intro ballI conjI impI)
    fix d assume d: "d \<in> L - {b}" and nn: "split_right (?m d) \<noteq> NULL"
    show "split_right (?m d) \<in> L - {b}" "unat (split_right (?m d)) = block_end ?m d"
      "split_left (?m (split_right (?m d))) = d"
      using d nn c blocks_right [OF ok, of d] lb ab b by (auto simp: sr sl be)
  next
    fix d assume d: "d \<in> L - {b}" and nn: "split_left (?m d) \<noteq> NULL"
    have al: "split_left (m a) \<noteq> b"
      using blocks_left(2) [OF ok a] blocks_right(2) [OF ok bL] fa(4) fb(4) ub fa(1) fb(1) by force
    show "split_left (?m d) \<in> L - {b}"
      using d nn a ab c al blocks_left [OF ok, of d] blocks_facts(1) [OF ok, of d] by (auto simp: sl)
    show "split_right (?m (split_left (?m d))) = d"
      using d nn a ab c al b blocks_left [OF ok, of d] by (auto simp: sl sr)
  qed
  moreover have "in_region R ?m d" if d: "d \<in> L - {b}" for d
  proof (cases "d = a")
    case True
    have "split_left (?m a) = split_left (m a)" using c by (auto simp: sl)
    then show ?thesis unfolding in_region_def using r True by (auto simp: be sr)
  next
    case False
    have "split_left (?m d) = NULL \<longleftrightarrow> split_left (m d) = NULL" using c fa(1) fb(1) by (auto simp: sl)
    then show ?thesis using blocks_okD(5) [OF ok, of d] d False by (auto simp: in_region_def be sr)
  qed
  ultimately show ?thesis using blocks_okD(1) [OF ok] by (simp add: blocks_ok_def)
qed

section \<open>Splitting a block\<close>

definition split_at :: "addr \<Rightarrow> uint32 \<Rightarrow> addr" where
  "split_at a sz = a + of_nat TAG_SIZE + ucast sz"

definition split_mem :: "(addr \<Rightarrow> boundary_tag) \<Rightarrow> addr \<Rightarrow> addr \<Rightarrow> boundary_tag" where
  "split_mem m a =
     (let n = split_at a (req_size (m a)); c = split_right (m a);
          rest = real_size (m a) - of_nat TAG_SIZE - req_size (m a);
          m1 = m(n := (m n)\<lparr>magic := LIBALLOC_MAGIC, real_size := rest, next_tag := NULL,
                 prev_tag := NULL, split_left := a, split_right := c\<rparr>);
          m2 = (if c = NULL then m1 else m1(c := (m1 c)\<lparr>split_left := n\<rparr>))
      in m2(a := (m2 a)\<lparr>split_right := n, real_size := real_size (m2 a) - rest\<rparr>))"

lemma split_at_facts:
  assumes ok: "blocks_ok m L R" and a: "a \<in> L" and room: "96 + unat (req_size (m a)) \<le> unat (real_size (m a))"
  shows "unat (split_at a (req_size (m a))) = unat a + 48 + unat (req_size (m a))"
    "split_at a (req_size (m a)) \<notin> L" "split_at a (req_size (m a)) \<noteq> NULL"
    "split_at a (req_size (m a)) \<noteq> a"
    "unat (real_size (m a) - of_nat TAG_SIZE - req_size (m a)) = unat (real_size (m a)) - 48 - unat (req_size (m a))"
proof -
  let ?n = "split_at a (req_size (m a))"
  have e: "unat a + unat (real_size (m a)) < 2 ^ 64"
    using block_end_lt [OF ok a] by (simp add: block_end_def)
  have "unat (a + of_nat TAG_SIZE) = unat a + 48"
    using e room by (subst unat_add_no_wrap) (auto simp: TAG_SIZE_def)
  then show n: "unat ?n = unat a + 48 + unat (req_size (m a))"
    unfolding split_at_def using e room by (subst unat_add_no_wrap) auto
  then show "?n \<noteq> NULL" "?n \<noteq> a" by auto
  show "?n \<notin> L"
  proof
    assume nL: "?n \<in> L"
    then have "block_end m a \<le> unat ?n \<or> block_end m ?n \<le> unat a"
      using blocks_facts(5) [OF ok a nL] n by fastforce
    then show False using blocks_facts(4) [OF ok nL] n room by (auto simp: block_end_def)
  qed
  have "unat (real_size (m a) - of_nat TAG_SIZE) = unat (real_size (m a)) - 48"
    using room by (subst unat_sub_le) (auto simp: TAG_SIZE_def)
  then show "unat (real_size (m a) - of_nat TAG_SIZE - req_size (m a)) = unat (real_size (m a)) - 48 - unat (req_size (m a))"
    using room by (subst unat_sub_le) auto
qed

lemma split_mem_ok:
  assumes ok: "blocks_ok m L R" and a: "a \<in> L" and room: "96 + unat (req_size (m a)) \<le> unat (real_size (m a))"
    and n: "n = split_at a (req_size (m a))"
  shows "blocks_ok (split_mem m a) (insert n L) R"
proof -
  note N = split_at_facts [OF ok a room, folded n]
  note fa = blocks_facts [OF ok a]
  let ?c = "split_right (m a)" and ?m = "split_mem m a"
  let ?rest = "real_size (m a) - of_nat TAG_SIZE - req_size (m a)"
  have c: "?c \<noteq> NULL \<Longrightarrow> ?c \<in> L \<and> unat ?c = block_end m a \<and> split_left (m ?c) = a \<and> ?c \<noteq> a \<and> ?c \<noteq> n"
    using blocks_right [OF ok a] fa(4) N(2) by fastforce
  have ra: "unat (real_size (m a) - ?rest) = 48 + unat (req_size (m a))"
    using N(5) room by (subst unat_sub_le) auto
  have rs: "unat (real_size (?m d)) = (if d = a then 48 + unat (req_size (m a))
       else if d = n then unat (real_size (m a)) - 48 - unat (req_size (m a)) else unat (real_size (m d)))"
    and mg: "magic (?m d) = (if d = n then LIBALLOC_MAGIC else magic (m d))"
    and sr: "split_right (?m d) = (if d = a then n else if d = n then ?c else split_right (m d))"
    and sl: "split_left (?m d) = (if ?c \<noteq> NULL \<and> d = ?c then n else if d = n then a else split_left (m d))" for d
    using c ra N(4,5) n by (auto simp: split_mem_def Let_def)
  have be: "block_end ?m d = (if d = a then unat n else if d = n then block_end m a else block_end m d)" for d
    using rs N(1) room by (auto simp: block_end_def)
  have out: "d \<in> L \<Longrightarrow> d \<noteq> n" for d using N(2) by auto
  have "tags_ok ?m (insert n L)"
    using blocks_okD(2) [OF ok] room N(3) by (auto simp: tags_ok_def mg rs TAG_SIZE_def)
  moreover have "disjoint_ok ?m (insert n L)"
  proof -
    have key: "block_end m a \<le> unat d \<or> block_end m d \<le> unat a" if "d \<in> L" "d \<noteq> a" for d
      using fa(5) [of d] that by auto
    have nle: "unat a \<le> unat n" "unat n \<le> block_end m a" using N(1) room by (auto simp: block_end_def)
    show ?thesis unfolding disjoint_ok_def
    proof (intro ballI impI)
      fix d e assume d: "d \<in> insert n L" "e \<in> insert n L" "d \<noteq> e"
      have "d \<in> L \<Longrightarrow> e \<in> L \<Longrightarrow> block_end m d \<le> unat e \<or> block_end m e \<le> unat d"
        using blocks_facts(5) [OF ok] d(3) by blast
      then show "block_end ?m d \<le> unat e \<or> block_end ?m e \<le> unat d"
        using d key [of d] key [of e] nle out a by (auto simp: be)
    qed
  qed
  moreover have "links_ok ?m (insert n L)"
    unfolding links_ok_def
  proof (intro ballI conjI impI)
    fix d assume d: "d \<in> insert n L" and nn: "split_right (?m d) \<noteq> NULL"
    show "split_right (?m d) \<in> insert n L" "unat (split_right (?m d)) = block_end ?m d"
      using d nn c a out blocks_right [OF ok, of d] by (auto simp: sr be)
    show "split_left (?m (split_right (?m d))) = d"
    proof (cases "d = a \<or> d = n")
      case True
      then show ?thesis using nn c N(4) by (auto simp: sl sr)
    next
      case False
      then have dL: "d \<in> L" and nd: "split_right (m d) \<noteq> NULL" using d nn by (auto simp: sr)
      note rd = blocks_right [OF ok dL nd]
      have "split_right (m d) \<noteq> ?c" using rd(3) c nd False by auto
      then show ?thesis using rd out [OF rd(1)] False by (simp add: sl sr)
    qed
  next
    fix d assume d: "d \<in> insert n L" and nn: "split_left (?m d) \<noteq> NULL"
    show "split_left (?m d) \<in> insert n L"
      using d nn a c out blocks_left [OF ok, of d] by (auto simp: sl)
    show "split_right (?m (split_left (?m d))) = d"
    proof (cases "d = n \<or> (?c \<noteq> NULL \<and> d = ?c)")
      case True
      then show ?thesis using c N(4) by (auto simp: sl sr)
    next
      case False
      then have dL: "d \<in> L" and s0: "split_left (?m d) = split_left (m d)" using d by (auto simp: sl)
      note ld = blocks_left [OF ok dL nn [unfolded s0]]
      have "split_left (m d) \<noteq> a" using ld(2) False blocks_facts(1) [OF ok dL] by auto
      then show ?thesis using ld out [OF ld(1)] by (simp add: s0 sr)
    qed
  qed
  moreover have "in_region R ?m d" if d: "d \<in> insert n L" for d
  proof -
    obtain r k where r: "R r = Some k" "unat r \<le> unat a" "block_end m a \<le> unat r + k"
        "split_left (m a) = NULL \<longleftrightarrow> a = r" "?c = NULL \<longleftrightarrow> block_end m a = unat r + k"
      using blocks_okD(5) [OF ok a] by (auto simp: in_region_def)
    consider "d = a" | "d = n" | "d \<in> L" "d \<noteq> a" "d \<noteq> n" using d by auto
    then show ?thesis
    proof cases
      case 1
      have "split_left (?m a) = split_left (m a)" "split_right (?m a) = n" using c N(4) by (auto simp: sl sr)
      moreover have "unat n < block_end m a" using N(1) room by (simp add: block_end_def)
      ultimately show ?thesis using r 1 N(3) unfolding in_region_def
        by (intro exI [of _ r] exI [of _ k]) (simp add: be)
    next
      case 2
      have "split_left (?m n) = a" "split_right (?m n) = ?c" using c N(4) by (auto simp: sl sr)
      moreover have "n \<noteq> r" using r(2) N(1) by auto
      ultimately show ?thesis using r 2 N(1) fa(1) N(4) unfolding in_region_def
        by (intro exI [of _ r] exI [of _ k]) (simp add: be)
    next
      case 3
      have "split_left (?m d) = NULL \<longleftrightarrow> split_left (m d) = NULL"
        using c 3 fa(1) N(3) by (auto simp: sl)
      then show ?thesis using blocks_okD(5) [OF ok 3(1)] 3 by (auto simp: in_region_def be sr)
    qed
  qed
  ultimately show ?thesis using blocks_okD(1) [OF ok] by (simp add: blocks_ok_def)
qed

section \<open>A new region\<close>

text \<open>The tag \<open>allocate_new_tag\<close> writes at the base of fresh pages.\<close>

lemma fresh_block_ok:
  assumes ok: "blocks_ok m L R" and R': "regions_ok (R(p \<mapsto> n))" and p: "R p = None"
    and t: "magic t = LIBALLOC_MAGIC" "unat (real_size t) = n" "split_left t = NULL" "split_right t = NULL"
  shows "blocks_ok (m(p := t)) (insert p L) (R(p \<mapsto> n))" "p \<notin> L"
proof -
  have pn: "p \<noteq> NULL" "16 * 4096 \<le> n"
    using regions_okD [OF R', of p n] by auto
  have reg: "unat r + k \<le> unat p \<or> unat p + n \<le> unat r" if "R r = Some k" for r k
  proof -
    have "r \<noteq> p" using that p by auto
    then show ?thesis using regions_ok_apart [OF R', of r k p n] that by simp
  qed
  have far: "block_end m d \<le> unat p \<or> unat p + n \<le> unat d" if d: "d \<in> L" for d
  proof -
    obtain r k where "R r = Some k" "unat r \<le> unat d" "block_end m d \<le> unat r + k"
      using blocks_okD(5) [OF ok d] by (auto simp: in_region_def)
    then show ?thesis using reg [of r k] by auto
  qed
  show pL: "p \<notin> L" using far [of p] blocks_facts(4) [OF ok, of p] pn by auto
  then have ne: "d \<in> L \<Longrightarrow> d \<noteq> p" for d by auto
  have be: "block_end (m(p := t)) d = (if d = p then unat p + n else block_end m d)" for d
    using t by (simp add: block_end_def)
  have "tags_ok (m(p := t)) (insert p L)"
    using blocks_okD(2) [OF ok] t pn by (auto simp: tags_ok_def TAG_SIZE_def)
  moreover have "links_ok (m(p := t)) (insert p L)"
    unfolding links_ok_def be using t ne blocks_right [OF ok] blocks_left [OF ok] by (auto simp: fun_upd_apply)
  moreover have "disjoint_ok (m(p := t)) (insert p L)"
    unfolding disjoint_ok_def be using far ne blocks_facts(5) [OF ok] by auto
  moreover have "in_region (R(p \<mapsto> n)) (m(p := t)) d" if "d \<in> insert p L" for d
  proof (cases "d = p")
    case True
    then show ?thesis using t unfolding in_region_def be by (intro exI [of _ p] exI [of _ n]) simp
  next
    case False
    then have d: "d \<in> L" using that by auto
    obtain r k where r: "R r = Some k" "unat r \<le> unat d" "block_end m d \<le> unat r + k"
      "(split_left (m d) = NULL) = (d = r)" "(split_right (m d) = NULL) = (block_end m d = unat r + k)"
      using blocks_okD(5) [OF ok d] by (auto simp: in_region_def)
    then have "r \<noteq> p" using p by auto
    then show ?thesis using False r unfolding in_region_def be by (intro exI [of _ r] exI [of _ k]) simp
  qed
  ultimately show "blocks_ok (m(p := t)) (insert p L) (R(p \<mapsto> n))" using R' by (simp add: blocks_ok_def)
qed

text \<open>A whole block leaves with its region.\<close>

lemma drop_region_ok:
  assumes ok: "blocks_ok m L R" and a: "a \<in> L" and w: "whole (m a)"
  shows "blocks_ok m (L - {a}) (R(a := None))"
proof -
  have Ra: "R a = Some (unat (real_size (m a)))" by (rule whole_region [OF ok a w])
  have sep: "split_left (m d) \<noteq> a \<and> split_right (m d) \<noteq> a" if "d \<in> L" for d
    using blocks_left [OF ok that] blocks_right [OF ok that] w blocks_facts(1) [OF ok] that a
    by (auto simp: whole_def)
  have "in_region (R(a := None)) m d" if d: "d \<in> L - {a}" for d
  proof -
    obtain r k where r: "R r = Some k" "unat r \<le> unat d" "block_end m d \<le> unat r + k"
      "(split_left (m d) = NULL) = (d = r)" "(split_right (m d) = NULL) = (block_end m d = unat r + k)"
      using blocks_okD(5) [OF ok, of d] d by (auto simp: in_region_def)
    have "block_end m a \<le> unat d \<or> block_end m d \<le> unat a" using blocks_facts(5) [OF ok a, of d] d by auto
    then have "r \<noteq> a" using r Ra blocks_facts(4) [OF ok, of d] d by (auto simp: block_end_def)
    then show ?thesis using r unfolding in_region_def by (intro exI [of _ r] exI [of _ k]) simp
  qed
  moreover have "links_ok m (L - {a})" using blocks_okD(3) [OF ok] sep by (auto simp: links_ok_def)
  ultimately show ?thesis
    using ok by (auto simp: blocks_ok_def tags_ok_def disjoint_ok_def regions_ok_def split: if_splits)
qed

end
