(* ===== verification/Liballoc_Inv.thy ===== *)
theory Liballoc_Inv
  imports Liballoc_Blocks
begin

text \<open>
  The invariant of the whole heap and what the steps of \<open>kernel_malloc\<close> and \<open>kernel_free\<close>
  do to it.
\<close>

section \<open>The invariant\<close>

definition class_ok :: "(addr \<Rightarrow> boundary_tag) \<Rightarrow> (nat \<Rightarrow> addr list) \<Rightarrow> bool" where
  "class_ok m F \<longleftrightarrow> (\<forall>i < MAXEXP. \<forall>a \<in> set (F i). size_class (m a) = int i)"

definition counts_ok :: "'a liballoc_scheme \<Rightarrow> (nat \<Rightarrow> addr list) \<Rightarrow> bool" where
  "counts_ok s F \<longleftrightarrow> length (l_completePages s) = MAXEXP \<and>
     (\<forall>i < MAXEXP. l_completePages s ! i = int (length (filter (\<lambda>a. whole (mem s a)) (F i))) \<and>
        int (length (filter (\<lambda>a. whole (mem s a)) (F i))) \<le> MAXCOMPLETE)"

definition used_ok :: "(addr \<Rightarrow> boundary_tag) \<Rightarrow> addr set \<Rightarrow> bool" where
  "used_ok m L \<longleftrightarrow>
     (\<forall>a \<in> L. index (m a) = -1 \<longrightarrow> TAG_SIZE + unat (req_size (m a)) \<le> unat (real_size (m a)))"

text \<open>No two neighbouring blocks are both free.\<close>

definition coalesced :: "(addr \<Rightarrow> boundary_tag) \<Rightarrow> addr set \<Rightarrow> bool" where
  "coalesced m L \<longleftrightarrow>
     (\<forall>a \<in> L. split_right (m a) \<noteq> NULL \<longrightarrow> index (m a) = -1 \<or> index (m (split_right (m a))) = -1)"

text \<open>The invariant with the tags of \<open>X\<close> between two owners: off the lists, size not yet set.\<close>

definition heap_but :: "addr set \<Rightarrow> 'a liballoc_scheme \<Rightarrow> addr set \<Rightarrow> (addr \<rightharpoonup> nat) \<Rightarrow> (nat \<Rightarrow> addr list) \<Rightarrow> bool" where
  "heap_but X s L R F \<longleftrightarrow> lists_ok s L F \<and> blocks_ok (mem s) L R \<and> class_ok (mem s) F \<and>
     counts_ok s F \<and> used_ok (mem s) (L - X) \<and> coalesced (mem s) L"

abbreviation heap_ok :: "'a liballoc_scheme \<Rightarrow> addr set \<Rightarrow> (addr \<rightharpoonup> nat) \<Rightarrow> (nat \<Rightarrow> addr list) \<Rightarrow> bool" where
  "heap_ok \<equiv> heap_but {}"

text \<open>The tags of the blocks the program holds.\<close>

definition allocated :: "'a liballoc_scheme \<Rightarrow> addr set \<Rightarrow> addr set" where
  "allocated s L = {a \<in> L. index (mem s a) = -1}"

lemma heap_butD:
  assumes "heap_but X s L R F"
  shows "lists_ok s L F" "blocks_ok (mem s) L R" "class_ok (mem s) F" "counts_ok s F"
    "used_ok (mem s) (L - X)" "coalesced (mem s) L"
  using assms by (auto simp: heap_but_def)

lemma heap_but_cong:
  assumes "mem s' = mem s" "l_freePages s' = l_freePages s" "l_completePages s' = l_completePages s"
  shows "heap_but X s' L R F = heap_but X s L R F"
  using assms by (simp add: heap_but_def lists_ok_def counts_ok_def)

lemma allocated_cong: "mem s' = mem s \<Longrightarrow> allocated s' L = allocated s L"
  by (simp add: allocated_def)

lemma heap_empty:
  assumes "l_freePages s = replicate MAXEXP NULL" "l_completePages s = replicate MAXEXP 0"
  shows "heap_ok s {} Map.empty (\<lambda>_. [])"
  using assms by (simp add: heap_but_def lists_ok_def blocks_ok_def regions_ok_def tags_ok_def links_ok_def
      disjoint_ok_def class_ok_def counts_ok_def used_ok_def coalesced_def MAXCOMPLETE_def)

lemma list_stepD:
  assumes "list_step L s s'"
  shows "same_blocks (mem s) (mem s')" "\<And>a. a \<notin> L \<Longrightarrow> mem s' a = mem s a"
    "bytes s' = bytes s" "l_completePages s' = l_completePages s" "l_initialized s' = l_initialized s"
    "alloc_lock s' = alloc_lock s" "liballoc.more s' = liballoc.more s"
  using assms by (auto simp: list_step_def)

lemma same_blocks_class:
  "same_blocks m m' \<Longrightarrow> size_class (m' a) = size_class (m a) \<and> whole (m' a) = whole (m a)"
  by (simp add: size_class_def whole_def same_blocks_fields)

text \<open>The index of every tag is at least \<open>-1\<close>, so \<open>index < 0\<close> means in use.\<close>

lemma index_cases:
  assumes "lists_ok s L F" "a \<in> L"
  shows "index (mem s a) = -1 \<or> 0 \<le> index (mem s a)"
  using lists_ok_rest [OF assms] lists_okD(5) [OF assms(1), of _ a]
  by (metis of_nat_0_le_iff)

section \<open>Taking a tag off its list\<close>

lemma remove_tag_heap:
  assumes ok: "heap_but X s L R F" and i: "i < MAXEXP" and a: "a \<in> set (F i)" and w: "\<not> whole (mem s a)"
  shows "\<exists>s'. remove_tag a s = Some s' \<and> heap_but (insert a X) s' L R (F(i := remove1 a (F i))) \<and>
     list_step L s s' \<and> (\<forall>b. index (mem s' b) = (if b = a then -1 else index (mem s b)))"
proof -
  note H = heap_butD [OF ok]
  obtain s' where s': "remove_tag a s = Some s'" and l: "lists_ok s' L (F(i := remove1 a (F i)))"
    and st: "list_step L s s'" and ix: "\<And>b. index (mem s' b) = (if b = a then -1 else index (mem s b))"
    using remove_tag_at [OF H(1) i a] by blast
  note sb = list_stepD(1) [OF st]
  have "class_ok (mem s') (F(i := remove1 a (F i)))"
    using H(3) same_blocks_class [OF sb] by (auto simp: class_ok_def dest: notin_set_remove1 [rotated] intro: ccontr)
  moreover have "counts_ok s' (F(i := remove1 a (F i)))"
    using H(4) same_blocks_class [OF sb] list_stepD(4) [OF st] a w i
    by (simp add: counts_ok_def length_filter_remove1)
  moreover have "used_ok (mem s') (L - insert a X)"
    using H(5) by (auto simp: used_ok_def same_blocks_fields [OF sb] ix)
  moreover have "coalesced (mem s') L"
    using H(6) by (auto simp: coalesced_def same_blocks_fields [OF sb] ix)
  ultimately show ?thesis using s' l st ix H(2) same_blocks_ok [OF sb]
    by (auto simp: heap_but_def)
qed

lemma remove_tag_whole_heap:
  assumes ok: "heap_but X s L R F" and i: "i < MAXEXP" and a: "a \<in> set (F i)" and w: "whole (mem s a)"
  shows "\<exists>s' s''. remove_tag a s = Some s' \<and> add_completePages (int i) (-1) s' = Some s'' \<and>
     whole (mem s' a) \<and> mem s'' = mem s' \<and>
     heap_but (insert a X) s'' L R (F(i := remove1 a (F i))) \<and>
     list_step L s s' \<and> (\<forall>b. index (mem s' b) = (if b = a then -1 else index (mem s b)))"
proof -
  note H = heap_butD [OF ok]
  obtain s' where s': "remove_tag a s = Some s'" and l: "lists_ok s' L (F(i := remove1 a (F i)))"
    and st: "list_step L s s'" and ix: "\<And>b. index (mem s' b) = (if b = a then -1 else index (mem s b))"
    using remove_tag_at [OF H(1) i a] by blast
  note sb = list_stepD(1) [OF st]
  let ?s = "s'\<lparr>l_completePages := (l_completePages s')[i := l_completePages s' ! i + -1]\<rparr>"
  have add: "add_completePages (int i) (-1) s' = Some ?s"
    using i by (simp add: add_completePages_def)
  have "class_ok (mem s') (F(i := remove1 a (F i)))"
    using H(3) same_blocks_class [OF sb] by (auto simp: class_ok_def dest: notin_set_remove1 [rotated] intro: ccontr)
  moreover have "counts_ok ?s (F(i := remove1 a (F i)))"
  proof -
    obtain k where k: "length (filter (\<lambda>a. whole (mem s a)) (F i)) = Suc k"
      using length_filter_pos [of a "F i" "\<lambda>a. whole (mem s a)"] a w gr0_conv_Suc by auto
    have "int (Suc k) \<le> MAXCOMPLETE" using H(4) i k unfolding counts_ok_def by metis
    then show ?thesis
      using H(4) same_blocks_class [OF sb] list_stepD(4) [OF st] a w i k
      by (simp add: counts_ok_def length_filter_remove1 nth_list_update)
  qed
  moreover have "used_ok (mem s') (L - insert a X)"
    using H(5) by (auto simp: used_ok_def same_blocks_fields [OF sb] ix)
  moreover have "coalesced (mem s') L"
    using H(6) by (auto simp: coalesced_def same_blocks_fields [OF sb] ix)
  moreover have "lists_ok ?s L (F(i := remove1 a (F i)))" using l by (simp add: lists_ok_def)
  ultimately have "heap_but (insert a X) ?s L R (F(i := remove1 a (F i)))"
    using H(2) same_blocks_ok [OF sb] by (simp add: heap_but_def)
  then show ?thesis using s' add st ix same_blocks_class [OF sb] w by auto
qed

section \<open>Putting a tag on its list\<close>

text \<open>Neither neighbour of \<open>a\<close> is free.\<close>

definition lonely :: "(addr \<Rightarrow> boundary_tag) \<Rightarrow> addr \<Rightarrow> bool" where
  "lonely m a \<longleftrightarrow> (split_left (m a) \<noteq> NULL \<longrightarrow> index (m (split_left (m a))) = -1) \<and>
     (split_right (m a) \<noteq> NULL \<longrightarrow> index (m (split_right (m a))) = -1)"

lemma insert_tag_heap:
  assumes lo: "lists_ok s L F" and bo: "blocks_ok (mem s) L R" and cl: "class_ok (mem s) F"
    and co: "coalesced (mem s) L" and us: "used_ok (mem s) (L - X)"
    and a: "a \<in> L" and ia: "index (mem s a) = -1" and i: "i < MAXEXP" and ci: "size_class (mem s a) = int i"
    and ln: "lonely (mem s) a" and cn: "counts_ok s (F(i := a # F i))"
  shows "\<exists>s'. insert_tag a (int i) s = Some s' \<and> heap_but (X - {a}) s' L R (F(i := a # F i)) \<and>
     list_step L s s' \<and> (\<forall>b. index (mem s' b) = (if b = a then int i else index (mem s b)))"
proof -
  obtain s' where s': "insert_tag a (int i) s = Some s'" and l: "lists_ok s' L (F(i := a # F i))"
    and st: "list_step L s s'" and ix: "\<And>b. index (mem s' b) = (if b = a then int i else index (mem s b))"
    using insert_tag_at [OF lo a ia i] by blast
  note sb = list_stepD(1) [OF st]
  have "class_ok (mem s') (F(i := a # F i))"
    using cl same_blocks_class [OF sb] ci by (auto simp: class_ok_def)
  moreover have "counts_ok s' (F(i := a # F i))"
    using cn same_blocks_class [OF sb] list_stepD(4) [OF st] by (simp add: counts_ok_def)
  moreover have "used_ok (mem s') (L - (X - {a}))"
    using us by (auto simp: used_ok_def same_blocks_fields [OF sb] ix)
  moreover have "coalesced (mem s') L"
    unfolding coalesced_def same_blocks_fields [OF sb]
  proof (intro ballI impI)
    fix d assume d: "d \<in> L" and nn: "split_right (mem s d) \<noteq> NULL"
    have "split_right (mem s d) = a \<Longrightarrow> index (mem s d) = -1"
      using blocks_right(3) [OF bo d nn] ln d blocks_facts(1) [OF bo d] by (auto simp: lonely_def)
    moreover have "d = a \<Longrightarrow> index (mem s (split_right (mem s a))) = -1" using ln nn by (auto simp: lonely_def)
    moreover have "split_right (mem s a) \<noteq> a" if "split_right (mem s a) \<noteq> NULL"
      using blocks_right(2) [OF bo a that] blocks_facts(4) [OF bo a] by auto
    ultimately show "index (mem s' d) = -1 \<or> index (mem s' (split_right (mem s d))) = -1"
      using co d nn ia by (auto simp: coalesced_def ix)
  qed
  ultimately show ?thesis using s' l st ix bo same_blocks_ok [OF sb] by (auto simp: heap_but_def)
qed

lemma counts_ok_insert:
  assumes "counts_ok s F" "\<not> whole (mem s a)"
  shows "counts_ok s (F(i := a # F i))"
  using assms by (simp add: counts_ok_def)

section \<open>Melting in the heap\<close>

lemma lists_ok_same:
  assumes "\<And>a. index (mem s' a) = index (mem s a) \<and> next_tag (mem s' a) = next_tag (mem s a) \<and>
      prev_tag (mem s' a) = prev_tag (mem s a)"
    and "l_freePages s' = l_freePages s"
  shows "lists_ok s' L F = lists_ok s L F"
proof -
  have "dll (mem s') p xs q = dll (mem s) p xs q" for p xs q using assms(1) by (intro dll_cong) auto
  then show ?thesis using assms by (simp add: lists_ok_def)
qed

lemma lists_ok_shrink:
  assumes ok: "lists_ok s L F" and a: "index (mem s a) = -1"
  shows "lists_ok s (L - {a}) F"
proof -
  have "a \<notin> set (F i)" if "i < MAXEXP" for i using lists_okD(5) [OF ok that, of a] a by auto
  then show ?thesis using ok by (auto simp: lists_ok_def)
qed

lemma merged_fields:
  "magic (merged m a b d) = magic (m d)" "req_size (merged m a b d) = req_size (m d)"
  "index (merged m a b d) = index (m d)" "next_tag (merged m a b d) = next_tag (m d)"
  "prev_tag (merged m a b d) = prev_tag (m d)"
  "d \<noteq> a \<Longrightarrow> real_size (merged m a b d) = real_size (m d)"
  "d \<noteq> a \<Longrightarrow> split_right (merged m a b d) = split_right (m d)"
  by (simp_all add: merged_def Let_def)

lemma merged_whole:
  assumes ok: "blocks_ok m L R" and a: "a \<in> L" and b: "split_right (m a) = b" "b \<noteq> NULL" and d: "d \<noteq> a"
  shows "size_class (merged m a b d) = size_class (m d)" "whole (merged m a b d) = whole (m d)"
proof -
  have bL: "b \<in> L" using blocks_right(1) [OF ok a] b by auto
  have "split_right (m b) \<noteq> NULL \<Longrightarrow> split_left (m (split_right (m b))) = b"
    using blocks_right(3) [OF ok bL] .
  then have "split_left (merged m a b d) = NULL \<longleftrightarrow> split_left (m d) = NULL"
    using d b(2) blocks_facts(1) [OF ok a] by (auto simp: merged_def Let_def)
  then show "whole (merged m a b d) = whole (m d)" using d by (simp add: whole_def merged_fields)
  show "size_class (merged m a b d) = size_class (m d)" using d by (simp add: size_class_def merged_fields)
qed

text \<open>The right block \<open>b\<close> of two unlisted neighbours disappears into the left one.\<close>

lemma merge_heap:
  assumes lo: "lists_ok s L F" and bo: "blocks_ok (mem s) L R" and cl: "class_ok (mem s) F" and cn: "counts_ok s F"
    and us: "used_ok (mem s) (L - {a, b})" and co: "coalesced (mem s) L"
    and a: "a \<in> L" "index (mem s a) = -1" and b: "split_right (mem s a) = b" "b \<noteq> NULL" "index (mem s b) = -1"
    and s': "mem s' = merged (mem s) a b" "l_freePages s' = l_freePages s" "l_completePages s' = l_completePages s"
  shows "heap_but {a} s' (L - {b}) R F"
proof -
  note mw = merged_whole [OF bo a(1) b(1,2)]
  have na: "i < MAXEXP \<Longrightarrow> d \<in> set (F i) \<Longrightarrow> d \<noteq> a" for i d
    using lists_okD(5) [OF lo, of i d] a(2) by auto
  have "lists_ok s' (L - {b}) F"
    using lists_ok_shrink [OF lo b(3)] lists_ok_same [of s' s "L - {b}" F] s' by (simp add: merged_fields)
  moreover have "blocks_ok (mem s') (L - {b}) R" using merged_ok [OF bo a(1) b(1,2)] s' by simp
  moreover have "class_ok (mem s') F" using cl mw(1) na s' by (auto simp: class_ok_def)
  moreover have "counts_ok s' F"
  proof -
    have "length (filter (\<lambda>d. whole (mem s' d)) (F i)) = length (filter (\<lambda>d. whole (mem s d)) (F i))" if "i < MAXEXP" for i
      using mw(2) na [OF that] s' by (intro filter_length_cong) auto
    then show ?thesis using cn s' by (simp add: counts_ok_def)
  qed
  moreover have "used_ok (mem s') (L - {b} - {a})" using us s' by (auto simp: used_ok_def merged_fields)
  moreover have "coalesced (mem s') (L - {b})"
    using co a(2) s' unfolding coalesced_def
    by (metis DiffD1 merged_fields(3) merged_fields(7))
  ultimately show ?thesis by (simp add: heap_but_def)
qed

lemma melt_left_mem:
  assumes "blocks_ok (mem s) L R" "a \<in> L" "split_left (mem s a) = l" "l \<noteq> NULL"
  shows "melt_left a s = Some (l, s\<lparr>mem := merged (mem s) l a\<rparr>)"
proof -
  have "a \<noteq> NULL" "a \<noteq> l" using blocks_facts(1) [OF assms(1,2)] blocks_left [OF assms(1,2)] assms(3,4)
      blocks_right(2) [OF assms(1), of l] blocks_facts(4) [OF assms(1), of l] by auto
  then show ?thesis using assms(3,4)
    by (simp add: melt_left_def rd_def upd_def merged_def Let_def)
qed

lemma melt_step:
  assumes ok: "heap_but {a} s L R F" and a: "a \<in> L" "index (mem s a) = -1"
    and l: "split_left (mem s a) = l" "l \<noteq> NULL" and il: "0 \<le> index (mem s l)"
  shows "\<exists>s1 s2 F'. melt_left a s = Some (l, s1) \<and> remove_tag l s1 = Some s2 \<and>
     heap_but {l} s2 (L - {a}) R F' \<and> l \<in> L - {a} \<and>
     (\<forall>b. index (mem s2 b) = (if b = l then -1 else index (mem s b))) \<and>
     (\<forall>b. b \<noteq> l \<longrightarrow> req_size (mem s2 b) = req_size (mem s b) \<and> real_size (mem s2 b) = real_size (mem s b)) \<and>
     (\<forall>b. b \<notin> L \<longrightarrow> mem s2 b = mem s b) \<and>
     bytes s2 = bytes s \<and> l_initialized s2 = l_initialized s \<and> alloc_lock s2 = alloc_lock s \<and>
     liballoc.more s2 = liballoc.more s"
proof -
  note H = heap_butD [OF ok]
  have lL: "l \<in> L" and rl: "split_right (mem s l) = a" using blocks_left [OF H(2) a(1)] l by auto
  have la: "l \<noteq> a" using il a(2) by auto
  obtain i where i: "i < MAXEXP" "l \<in> set (F i)" using lists_ok_free [OF H(1) lL il] by blast
  have w: "\<not> whole (mem s l)" using rl blocks_facts(1) [OF H(2) a(1)] by (auto simp: whole_def)
  \<comment> \<open>in the code the melting comes first; the lists do not see it\<close>
  let ?s1 = "s\<lparr>mem := merged (mem s) l a\<rparr>"
  have lo1: "lists_ok ?s1 L F" using lists_ok_same [of ?s1 s L F] H(1) by (simp add: merged_fields)
  obtain s2 where s2: "remove_tag l ?s1 = Some s2" and l2: "lists_ok s2 L (F(i := remove1 l (F i)))"
    and st: "list_step L ?s1 s2" and ix: "\<And>b. index (mem s2 b) = (if b = l then -1 else index (mem ?s1 b))"
    using remove_tag_at [OF lo1 i] by blast
  note sb = list_stepD(1) [OF st]
  let ?F = "F(i := remove1 l (F i))"
  have an: "a \<noteq> NULL" by (rule blocks_facts(1) [OF H(2) a(1)])
  note mw = merged_whole [OF H(2) lL rl an]
  have di: "distinct (F i)" using lists_okD(1) [OF H(1) i(1)] .
  have nl: "d \<noteq> l" if "j < MAXEXP" "d \<in> set (?F j)" for j d
    using lists_okD(5) [OF l2 that] ix [of l] by auto
  have inF: "d \<in> set (F j)" if "d \<in> set (?F j)" for j d
    using that set_remove1_subset [of l "F i"] by (auto split: if_splits)
  have "lists_ok s2 (L - {a}) ?F" by (rule lists_ok_shrink [OF l2]) (use ix a la in \<open>simp add: merged_fields\<close>)
  moreover have "blocks_ok (mem s2) (L - {a}) R"
    using merged_ok [OF H(2) lL rl an] same_blocks_ok [OF sb] by simp
  moreover have "class_ok (mem s2) ?F"
    unfolding class_ok_def
  proof (intro allI impI ballI)
    fix j d assume j: "j < MAXEXP" and d: "d \<in> set (?F j)"
    show "size_class (mem s2 d) = int j"
      using same_blocks_class [OF sb] mw(1) [OF nl [OF j d]] H(3) j inF [OF d] by (simp add: class_ok_def)
  qed
  moreover have "counts_ok s2 ?F"
  proof -
    have "length (filter (\<lambda>d. whole (mem s2 d)) (?F j)) = length (filter (\<lambda>d. whole (mem s d)) (F j))"
      if j: "j < MAXEXP" for j
    proof -
      have "length (filter (\<lambda>d. whole (mem s2 d)) (?F j)) = length (filter (\<lambda>d. whole (mem s d)) (?F j))"
        using same_blocks_class [OF sb] mw(2) nl [OF j] by (intro filter_length_cong) auto
      then show ?thesis using i w by (simp add: length_filter_remove1)
    qed
    then show ?thesis using H(4) list_stepD(4) [OF st] by (simp add: counts_ok_def)
  qed
  moreover have "used_ok (mem s2) (L - {a} - {l})"
    using H(5) by (auto simp: used_ok_def same_blocks_fields [OF sb] ix merged_fields)
  moreover have "coalesced (mem s2) (L - {a})"
    using H(6) by (auto simp: coalesced_def same_blocks_fields [OF sb] ix merged_fields)
  ultimately have "heap_but {l} s2 (L - {a}) R ?F" by (simp add: heap_but_def)
  moreover have "mem s2 b = mem s b" if "b \<notin> L" for b
  proof -
    have "b \<noteq> split_right (mem s a) \<or> split_right (mem s a) = NULL"
      using blocks_right(1) [OF H(2) a(1)] that by auto
    moreover have "b \<noteq> l" using that lL by auto
    ultimately show ?thesis using list_stepD(2) [OF st that] by (auto simp: merged_def Let_def)
  qed
  moreover have "melt_left a s = Some (l, ?s1)" by (rule melt_left_mem [OF H(2) a(1) l])
  ultimately show ?thesis using s2 ix lL la list_stepD(3-) [OF st] same_blocks_fields [OF sb]
    by (simp add: merged_fields) blast
qed

section \<open>The two loops of \<open>kernel_free\<close>\<close>

text \<open>
  What a step of the heap keeps: the blocks of \<open>A\<close> with their sizes, memory outside the live
  tags \<open>L\<close>, the payload bytes and everything that is not a list or a tag.
\<close>

definition kept :: "addr set \<Rightarrow> addr set \<Rightarrow> 'a liballoc_scheme \<Rightarrow> 'a liballoc_scheme \<Rightarrow> bool" where
  "kept A L s s' \<longleftrightarrow>
     (\<forall>b \<in> A. index (mem s' b) = index (mem s b) \<and> req_size (mem s' b) = req_size (mem s b) \<and>
        real_size (mem s' b) = real_size (mem s b)) \<and>
     (\<forall>b. b \<notin> L \<longrightarrow> mem s' b = mem s b) \<and> bytes s' = bytes s \<and> l_initialized s' = l_initialized s \<and>
     alloc_lock s' = alloc_lock s \<and> liballoc.more s' = liballoc.more s"

lemma kept_refl [simp]: "kept A L s s"
  by (simp add: kept_def)

lemma kept_trans: "kept A L s s1 \<Longrightarrow> kept A L1 s1 s2 \<Longrightarrow> L1 \<subseteq> L \<Longrightarrow> kept A L s s2"
  by (auto simp: kept_def)

lemma kept_subset: "kept A L s s' \<Longrightarrow> A' \<subseteq> A \<Longrightarrow> kept A' L s s'"
  by (auto simp: kept_def)

lemma list_step_kept:
  assumes "list_step L s s'" "\<And>b. b \<in> A \<Longrightarrow> index (mem s' b) = index (mem s b)"
  shows "kept A L s s'"
  using assms(2) list_stepD [OF assms(1)] same_blocks_fields [OF list_stepD(1) [OF assms(1)]]
  by (simp add: kept_def)

lemma absorb_step:
  assumes ok: "heap_but {a} s L R F" and a: "a \<in> L" "index (mem s a) = -1"
    and r: "split_right (mem s a) = r" "r \<noteq> NULL" and ir: "0 \<le> index (mem s r)"
  shows "\<exists>s' F'. absorb_right a s = Some (a, s') \<and> heap_but {a} s' (L - {r}) R F' \<and> r \<in> L \<and> r \<noteq> a \<and>
     (\<forall>b. index (mem s' b) = (if b = r then -1 else index (mem s b))) \<and>
     split_left (mem s' a) = split_left (mem s a) \<and> kept (L - {a, r}) L s s'"
proof -
  note H = heap_butD [OF ok]
  have rL: "r \<in> L" and lr: "split_left (mem s r) = a" using blocks_right [OF H(2) a(1)] r by auto
  have ra: "r \<noteq> a" using ir a(2) by auto
  have an: "a \<noteq> NULL" by (rule blocks_facts(1) [OF H(2) a(1)])
  obtain i where i: "i < MAXEXP" "r \<in> set (F i)" using lists_ok_free [OF H(1) rL ir] by blast
  have w: "\<not> whole (mem s r)" using lr an by (auto simp: whole_def)
  obtain s1 where s1: "remove_tag r s = Some s1" and h1: "heap_but {r, a} s1 L R (F(i := remove1 r (F i)))"
    and st: "list_step L s s1" and ix: "\<And>b. index (mem s1 b) = (if b = r then -1 else index (mem s b))"
    using remove_tag_heap [OF ok i w] by blast
  note H1 = heap_butD [OF h1] and sb = same_blocks_fields [OF list_stepD(1) [OF st]]
  let ?s = "s1\<lparr>mem := merged (mem s1) a r\<rparr>"
  have run: "absorb_right a s = Some (a, ?s)"
    using s1 an r ra sb by (simp add: absorb_right_def rd_def upd_def merged_def Let_def)
  have h: "heap_but {a} ?s (L - {r}) R (F(i := remove1 r (F i)))"
    by (rule merge_heap [OF H1(1-4) _ H1(6) a(1)]) (use H1(5) a r ix ra sb in \<open>simp_all add: insert_commute\<close>)
  have "mem ?s b = mem s b" if "b \<notin> L" for b
  proof -
    have "b \<noteq> split_right (mem s r) \<or> split_right (mem s r) = NULL"
      using blocks_right(1) [OF H(2) rL] that by auto
    moreover have "b \<noteq> a" using that a by auto
    ultimately show ?thesis using list_stepD(2) [OF st that] sb by (auto simp: merged_def Let_def)
  qed
  then have k: "kept (L - {a, r}) L s ?s"
    using list_stepD(3-) [OF st] sb ix by (auto simp: kept_def merged_fields)
  have "split_right (mem s r) \<noteq> NULL \<Longrightarrow> split_right (mem s r) \<noteq> a"
    using blocks_right(2) [OF H(2) rL] blocks_right(2) [OF H(2) a(1)] r
      blocks_facts(4) [OF H(2) a(1)] blocks_facts(4) [OF H(2) rL] by auto
  then have "split_left (mem ?s a) = split_left (mem s a)"
    using sb an by (auto simp: merged_def Let_def)
  then show ?thesis using run h rL ra ix k by (intro exI [of _ ?s] exI) (simp add: merged_fields)
qed

lemma melt_left_loop_ok:
  assumes "heap_but {a} s L R F" "a \<in> L" "index (mem s a) = -1"
  shows "\<exists>l s' L' F'. melt_left_loop a s = Some (l, s') \<and> heap_but {l} s' L' R F' \<and> l \<in> L' \<and> L' \<subseteq> L \<and>
     index (mem s' l) = -1 \<and> (split_left (mem s' l) \<noteq> NULL \<longrightarrow> index (mem s' (split_left (mem s' l))) = -1) \<and>
     allocated s' L' - {l} = allocated s L - {a} \<and> kept (allocated s L - {a}) L s s'"
  using assms
proof (induction "card L" arbitrary: a s L F rule: less_induct)
  case less
  note ok = less.prems(1) and a = less.prems(2,3)
  note H = heap_butD [OF ok]
  have an: "a \<noteq> NULL" by (rule blocks_facts(1) [OF H(2) a(1)])
  let ?l = "split_left (mem s a)"
  show ?case
  proof (cases "?l \<noteq> NULL \<and> 0 \<le> index (mem s ?l)")
    case False
    have "?l \<noteq> NULL \<longrightarrow> index (mem s ?l) = -1"
      using False index_cases [OF H(1), of ?l] blocks_left(1) [OF H(2) a(1)] by auto
    moreover have "melt_left_loop a s = Some (a, s)"
      using False an by (subst melt_left_loop.simps) (auto simp: rd_def)
    ultimately show ?thesis using ok a by (intro exI [of _ a] exI [of _ s] exI [of _ L] exI [of _ F]) simp
  next
    case True
    then obtain s1 s2 F' where m: "melt_left a s = Some (?l, s1)" "remove_tag ?l s1 = Some s2"
      and h2: "heap_but {?l} s2 (L - {a}) R F'" and lL: "?l \<in> L - {a}"
      and ix: "\<And>b. index (mem s2 b) = (if b = ?l then -1 else index (mem s b))"
      and eqs: "\<And>b. b \<noteq> ?l \<Longrightarrow> req_size (mem s2 b) = req_size (mem s b) \<and> real_size (mem s2 b) = real_size (mem s b)"
        "\<And>b. b \<notin> L \<Longrightarrow> mem s2 b = mem s b" "bytes s2 = bytes s" "l_initialized s2 = l_initialized s"
        "alloc_lock s2 = alloc_lock s" "liballoc.more s2 = liballoc.more s"
      using melt_step [OF ok a refl] True by blast
    have al: "allocated s2 (L - {a}) - {?l} = allocated s L - {a}"
      using True by (auto simp: allocated_def ix)
    have k: "kept (allocated s L - {a}) L s s2"
      using eqs ix True by (auto simp: kept_def allocated_def)
    have "card (L - {a}) < card L"
      by (rule card_Diff1_less [OF blocks_finite [OF H(2)] a(1)])
    from less.hyps [OF this h2 lL] ix obtain l s' L' F''
      where r: "melt_left_loop ?l s2 = Some (l, s')" "heap_but {l} s' L' R F''" "l \<in> L'" "L' \<subseteq> L - {a}"
       "index (mem s' l) = -1" "split_left (mem s' l) \<noteq> NULL \<longrightarrow> index (mem s' (split_left (mem s' l))) = -1"
       "allocated s' L' - {l} = allocated s2 (L - {a}) - {?l}" "kept (allocated s2 (L - {a}) - {?l}) (L - {a}) s2 s'"
      by auto
    have "melt_left_loop a s = Some (l, s')"
      using True an m r(1) by (subst melt_left_loop.simps) (simp add: rd_def)
    moreover have "kept (allocated s L - {a}) L s s'"
      using kept_trans [OF k, of "L - {a}" s'] r(8) al by auto
    ultimately show ?thesis using r al by (intro exI [of _ l] exI [of _ s'] exI [of _ L'] exI [of _ F'']) auto
  qed
qed

lemma absorb_right_loop_ok:
  assumes "heap_but {a} s L R F" "a \<in> L" "index (mem s a) = -1"
    and "split_left (mem s a) \<noteq> NULL \<longrightarrow> index (mem s (split_left (mem s a))) = -1"
  shows "\<exists>s' L' F'. absorb_right_loop a s = Some (a, s') \<and> heap_but {a} s' L' R F' \<and> a \<in> L' \<and> L' \<subseteq> L \<and>
     index (mem s' a) = -1 \<and> lonely (mem s') a \<and>
     allocated s' L' - {a} = allocated s L - {a} \<and> kept (allocated s L - {a}) L s s'"
  using assms
proof (induction "card L" arbitrary: s L F rule: less_induct)
  case less
  note ok = less.prems(1) and a = less.prems(2,3) and lf = less.prems(4)
  note H = heap_butD [OF ok]
  have an: "a \<noteq> NULL" by (rule blocks_facts(1) [OF H(2) a(1)])
  let ?r = "split_right (mem s a)"
  show ?case
  proof (cases "?r \<noteq> NULL \<and> 0 \<le> index (mem s ?r)")
    case False
    have "?r \<noteq> NULL \<longrightarrow> index (mem s ?r) = -1"
      using False index_cases [OF H(1), of ?r] blocks_right(1) [OF H(2) a(1)] by auto
    moreover have "absorb_right_loop a s = Some (a, s)"
      using False an by (subst absorb_right_loop.simps) (auto simp: rd_def)
    ultimately show ?thesis using ok a lf by (intro exI [of _ s] exI [of _ L] exI [of _ F]) (simp add: lonely_def)
  next
    case True
    then obtain s2 F' where m: "absorb_right a s = Some (a, s2)"
      and h2: "heap_but {a} s2 (L - {?r}) R F'" and rL: "?r \<in> L" "?r \<noteq> a"
      and ix: "\<And>b. index (mem s2 b) = (if b = ?r then -1 else index (mem s b))"
      and sl: "split_left (mem s2 a) = split_left (mem s a)" and k: "kept (L - {a, ?r}) L s s2"
      using absorb_step [OF ok a refl] by blast
    have al: "allocated s2 (L - {?r}) - {a} = allocated s L - {a}"
      using True by (auto simp: allocated_def ix)
    have k': "kept (allocated s L - {a}) L s s2"
      by (rule kept_subset [OF k]) (use True in \<open>auto simp: allocated_def\<close>)
    have "card (L - {?r}) < card L"
      by (rule card_Diff1_less [OF blocks_finite [OF H(2)] rL(1)])
    moreover have "a \<in> L - {?r}" "index (mem s2 a) = -1" using a rL ix by auto
    moreover have "split_left (mem s2 a) \<noteq> NULL \<longrightarrow> index (mem s2 (split_left (mem s2 a))) = -1"
      using lf ix sl by auto
    ultimately obtain s' L' F'' where r: "absorb_right_loop a s2 = Some (a, s')" "heap_but {a} s' L' R F''"
       "a \<in> L'" "L' \<subseteq> L - {?r}" "index (mem s' a) = -1" "lonely (mem s') a"
       "allocated s' L' - {a} = allocated s2 (L - {?r}) - {a}"
       "kept (allocated s2 (L - {?r}) - {a}) (L - {?r}) s2 s'"
      using less.hyps [OF _ h2] by blast
    have "absorb_right_loop a s = Some (a, s')"
      using True an m r(1) by (subst absorb_right_loop.simps) (auto simp: rd_def)
    moreover have "kept (allocated s L - {a}) L s s'"
      using kept_trans [OF k', of "L - {?r}" s'] r(8) al by auto
    ultimately show ?thesis using r al by (intro exI [of _ s'] exI [of _ L'] exI [of _ F'']) auto
  qed
qed

section \<open>The search\<close>

lemma find_tag_ok:
  assumes "dll (mem s) p xs NULL" "NULL \<notin> set xs"
  shows "\<exists>a. find_tag sz (head_or xs NULL) s = Some a \<and>
    (if a = NULL then \<forall>x \<in> set xs. \<not> enough_space (mem s x) sz
     else a \<in> set xs \<and> enough_space (mem s a) sz)"
  using assms
proof (induction xs arbitrary: p)
  case Nil
  show ?case by (subst find_tag.simps) simp
next
  case (Cons x xs)
  show ?case
  proof (cases "enough_space (mem s x) sz")
    case True
    then show ?thesis using Cons.prems by (subst find_tag.simps) (auto simp: rd_def)
  next
    case False
    obtain a where "find_tag sz (head_or xs NULL) s = Some a"
      "if a = NULL then \<forall>x \<in> set xs. \<not> enough_space (mem s x) sz else a \<in> set xs \<and> enough_space (mem s a) sz"
      using Cons.IH [of x] Cons.prems by auto
    then show ?thesis using False Cons.prems
      by (subst find_tag.simps) (auto simp: rd_def split: if_splits)
  qed
qed

text \<open>The test of the search on the sizes of live blocks: a tag more than the payload is asked for.\<close>

lemma enough_space_unat:
  assumes "48 \<le> unat (real_size t)" "unat sz < 2 ^ 64 - 48"
  shows "enough_space t sz \<longleftrightarrow> unat sz + 96 \<le> unat (real_size t)"
proof -
  have "unat (sz + of_nat TAG_SIZE) = unat sz + 48"
    using assms(2) by (subst unat_add_no_wrap) (auto simp: TAG_SIZE_def)
  moreover have "unat (ucast (real_size t) - of_nat TAG_SIZE :: uint64) = unat (real_size t) - 48"
    using assms(1) by (subst unat_sub_le) (auto simp: TAG_SIZE_def)
  ultimately show ?thesis using assms(1) by (auto simp: enough_space_def word_le_nat_alt)
qed

section \<open>Carving the request out of a block\<close>

text \<open>
  The test before a split: \<open>remainder\<close> is computed in 64 bits, cut to 32 and read as an
  \<open>int\<close>. It passes only if a second tag and sixteen bytes fit behind the payload.
\<close>

definition remainder_of :: "boundary_tag \<Rightarrow> uint64 \<Rightarrow> uint32" where
  "remainder_of t sz = ucast (ucast (real_size t) - sz - of_nat TAG_SIZE * 2 :: uint64)"

lemma remainder_fits:
  assumes fit: "48 + unat sz \<le> unat (real_size t)"
    and go: "0 < sint (remainder_of t sz)" "0 \<le> getexp (remainder_of t sz)"
  shows "112 + unat sz \<le> unat (real_size t)" "unat (remainder_of t sz) = unat (real_size t) - unat sz - 96"
proof -
  define r where "r = unat (real_size t)"
  define z where "z = unat sz"
  have r: "r < 2 ^ 32" using unat_lt32 by (simp add: r_def)
  have d: "unat (ucast (real_size t) - sz :: uint64) = r - z"
    using fit by (subst unat_sub_le) (auto simp: r_def z_def)
  have le: "96 + z \<le> r"
  proof (rule ccontr)
    assume neg: "\<not> 96 + z \<le> r"
    let ?d = "ucast (real_size t) - sz :: uint64"
    have "unat (?d - of_nat TAG_SIZE * 2) = 2 ^ 64 + unat ?d - 96"
      using neg d fit by (subst unat_sub_if') (auto simp: TAG_SIZE_def r_def z_def)
    then have "unat (remainder_of t sz) = (2 ^ 64 + (r - z) - 96) mod 2 ^ 32"
      using d by (simp add: remainder_of_def unat_ucast_64_32)
    also have "\<dots> = 2 ^ 32 + (r - z) - 96"
    proof -
      have "(2::nat) ^ 64 + (r - z) - 96 = (2 ^ 32 - 1) * 2 ^ 32 + (2 ^ 32 + (r - z) - 96)" by simp
      then have "((2::nat) ^ 64 + (r - z) - 96) mod 2 ^ 32 = (2 ^ 32 + (r - z) - 96) mod 2 ^ 32"
        by (metis mod_mult_self3)
      then show ?thesis using neg by simp
    qed
    finally have "2 ^ 31 \<le> unat (remainder_of t sz)" by simp
    then show False using go(1) by (simp add: sint_pos_iff)
  qed
  have "unat (ucast (real_size t) - sz - of_nat TAG_SIZE * 2 :: uint64) = r - z - 96"
    using le d by (subst unat_sub_le) (auto simp: TAG_SIZE_def)
  then have u: "unat (remainder_of t sz) = r - z - 96"
    using r by (simp add: remainder_of_def unat_ucast_64_32)
  have "16 \<le> unat (remainder_of t sz)" by (rule getexp_nonneg [OF go(2)])
  then show "112 + unat sz \<le> unat (real_size t)" "unat (remainder_of t sz) = unat (real_size t) - unat sz - 96"
    using u le by (auto simp: r_def z_def)
qed

lemma insert_tag_ignores_index:
  assumes "0 \<le> i"
  shows "insert_tag a i s = insert_tag a i (s\<lparr>mem := (mem s)(a := (mem s a)\<lparr>index := k\<rparr>)\<rparr>)"
  using assms by (simp add: insert_tag_def rd_def upd_def get_freePages_def set_freePages_def Let_def)

lemma split_mem_fields:
  assumes "n = split_at a (req_size (m a))" "n \<noteq> a"
  shows "req_size (split_mem m a d) = req_size (m d)" "index (split_mem m a d) = index (m d)"
    "d \<noteq> n \<Longrightarrow> next_tag (split_mem m a d) = next_tag (m d)" "d \<noteq> n \<Longrightarrow> prev_tag (split_mem m a d) = prev_tag (m d)"
    "d \<noteq> n \<Longrightarrow> d \<noteq> a \<Longrightarrow> real_size (split_mem m a d) = real_size (m d)"
    "d \<noteq> n \<Longrightarrow> d \<noteq> a \<Longrightarrow> split_right (split_mem m a d) = split_right (m d)"
    "split_left (split_mem m a d) = (if split_right (m a) \<noteq> NULL \<and> d = split_right (m a) then n
        else if d = n then a else split_left (m d))"
  using assms by (simp_all add: split_mem_def Let_def)

lemma split_tag_mem:
  assumes "a \<noteq> NULL" "split_at a (req_size (mem s a)) = n" "n \<noteq> NULL"
  shows "split_tag a s = map_option (Pair n) (insert_tag n (-1) (s\<lparr>mem := split_mem (mem s) a\<rparr>))"
proof -
  have n: "a + of_nat TAG_SIZE + ucast (req_size (mem s a)) = n" using assms(2) by (simp add: split_at_def)
  have e: "do { s \<leftarrow> x; Some (n, s) } = map_option (Pair n) x" for x :: "'a liballoc_scheme option"
    by (cases x) auto
  show ?thesis
    unfolding split_tag_def rd_def upd_def split_mem_def Let_def
    using assms n by (simp del: fun_upd_apply add: e split_at_def)
qed

lemma kept_mono: "kept A L s s' \<Longrightarrow> L \<subseteq> L' \<Longrightarrow> kept A L' s s'"
  by (auto simp: kept_def)

lemma split_tag_heap:
  assumes ok: "heap_ok s L R F" and a: "a \<in> L" "index (mem s a) = -1" and ln: "lonely (mem s) a"
    and room: "112 + unat (req_size (mem s a)) \<le> unat (real_size (mem s a))"
  shows "\<exists>n s' F'. split_tag a s = Some (n, s') \<and> heap_ok s' (insert n L) R F' \<and> n \<notin> L \<and>
     allocated s' (insert n L) = allocated s L \<and> kept (allocated s L - {a}) (insert n L) s s' \<and>
     req_size (mem s' a) = req_size (mem s a) \<and>
     unat (real_size (mem s' a)) = 48 + unat (req_size (mem s a))"
proof -
  note H = heap_butD [OF ok]
  define n where "n = split_at a (req_size (mem s a))"
  have room': "96 + unat (req_size (mem s a)) \<le> unat (real_size (mem s a))" using room by simp
  note N = split_at_facts [OF H(2) a(1) room', folded n_def]
  note SF = split_mem_fields [where m = "mem s", OF n_def N(4)]
  have an: "a \<noteq> NULL" by (rule blocks_facts(1) [OF H(2) a(1)])
  have cn: "split_right (mem s a) \<noteq> n"
    using blocks_right(1) [OF H(2) a(1)] N(2,3) by (cases "split_right (mem s a) = NULL") auto
  let ?m = "split_mem (mem s) a" and ?L = "insert n L"
  let ?m1 = "?m(n := (?m n)\<lparr>index := -1\<rparr>)"
  let ?s1 = "s\<lparr>mem := ?m1\<rparr>"
  have sb1: "same_blocks ?m ?m1" by (simp add: same_blocks_def)
  note sb = same_blocks_fields [OF sb1]
  have ix1: "index (?m1 d) = (if d = n then -1 else index (mem s d))" for d using SF(2) by simp
  have nF: "d \<noteq> n \<and> d \<noteq> a \<and> d \<in> L" if "j < MAXEXP" "d \<in> set (F j)" for j d
    using lists_okD(2,5) [OF H(1) that(1)] that(2) N(2) a(2) by auto
  have bo: "blocks_ok ?m1 ?L R" using split_mem_ok [OF H(2) a(1) room' n_def] same_blocks_ok [OF sb1] by simp
  have wh: "whole (?m1 d) = whole (mem s d)" if "d \<noteq> n" "d \<noteq> a" for d
  proof -
    have "split_right (mem s a) \<noteq> NULL \<Longrightarrow> d = split_right (mem s a) \<Longrightarrow> split_left (mem s d) \<noteq> NULL"
      using blocks_right(3) [OF H(2) a(1)] an by auto
    then show ?thesis using that N(3) by (auto simp: whole_def SF)
  qed
  have n_fields: "next_tag (?m n) = NULL" "prev_tag (?m n) = NULL" "split_left (?m n) = a"
    "split_right (?m n) = split_right (mem s a)" "real_size (?m n) = real_size (mem s a) - of_nat TAG_SIZE - req_size (mem s a)"
    using N(4) cn by (simp_all add: split_mem_def Let_def n_def)
  have lo: "lists_ok ?s1 ?L F"
  proof (rule lists_okI)
    fix j assume j: "j < MAXEXP"
    have "dll ?m1 NULL (F j) NULL = dll (mem s) NULL (F j) NULL"
      by (rule dll_cong) (use nF [OF j] SF in auto)
    then show "dll (mem ?s1) NULL (F j) NULL" using lists_okD(3) [OF H(1) j] by simp
  next
    fix d assume "d \<in> ?L" "\<And>j. j < MAXEXP \<Longrightarrow> d \<notin> set (F j)"
    then show "index (mem ?s1 d) = -1 \<and> next_tag (mem ?s1 d) = NULL \<and> prev_tag (mem ?s1 d) = NULL"
      using lists_ok_rest [OF H(1), of d] n_fields SF by auto
  next
    fix j d assume "j < MAXEXP" "d \<in> set (F j)"
    then show "index (mem ?s1 d) = int j" using lists_okD(5) [OF H(1)] nF SF(2) by auto
  qed (use H(1) N(3) lists_okD [OF H(1)] in \<open>auto simp: lists_ok_def\<close>)
  have cl: "class_ok (mem ?s1) F"
    unfolding class_ok_def
  proof (intro allI impI ballI)
    fix j d assume j: "j < MAXEXP" "d \<in> set (F j)"
    have "real_size (?m1 d) = real_size (mem s d)" using nF [OF j] SF(5) by simp
    then show "size_class (mem ?s1 d) = int j" using H(3) j by (simp add: class_ok_def size_class_def)
  qed
  have cn1: "counts_ok ?s1 F"
  proof -
    have "length (filter (\<lambda>d. whole (?m1 d)) (F i)) = length (filter (\<lambda>d. whole (mem s d)) (F i))" if "i < MAXEXP" for i
      using wh nF [OF that] by (intro filter_length_cong) auto
    then show ?thesis using H(4) by (simp add: counts_ok_def)
  qed
  have ra: "unat (real_size (?m1 a)) = 48 + unat (req_size (mem s a))"
  proof -
    have "block_end ?m1 a = unat n"
      using blocks_right(2) [OF bo, of a] a N(3) N(4) by (simp add: split_mem_def Let_def n_def)
    then show ?thesis using N(1) by (simp add: block_end_def)
  qed
  have us: "used_ok (mem ?s1) (?L - {n})"
    unfolding used_ok_def
  proof (intro ballI impI)
    fix d assume d: "d \<in> ?L - {n}" "index (mem ?s1 d) = -1"
    show "TAG_SIZE + unat (req_size (mem ?s1 d)) \<le> unat (real_size (mem ?s1 d))"
    proof (cases "d = a")
      case True
      then show ?thesis using ra SF(1) N(4) by (simp add: TAG_SIZE_def)
    next
      case False
      then show ?thesis using H(5) d SF(1,5) ix1 [of d] by (auto simp: used_ok_def)
    qed
  qed
  have co: "coalesced (mem ?s1) ?L"
    unfolding coalesced_def
  proof (intro ballI impI)
    fix d assume d: "d \<in> ?L" "split_right (mem ?s1 d) \<noteq> NULL"
    show "index (mem ?s1 d) = -1 \<or> index (mem ?s1 (split_right (mem ?s1 d))) = -1"
    proof (cases "d = a \<or> d = n")
      case False
      then have "split_right (?m1 d) = split_right (mem s d)" using SF(6) by simp
      then show ?thesis using H(6) d False ix1 [of "split_right (mem s d)"] ix1 [of d] by (auto simp: coalesced_def)
    qed (use ix1 a in auto)
  qed
  obtain i where i: "i < MAXEXP" "size_class (mem ?s1 n) = int i" using size_class_nat by blast
  have lon: "lonely (mem ?s1) n"
    using ln a(2) n_fields cn N(4) ix1 [of a] ix1 [of "split_right (mem s a)"] by (auto simp: lonely_def)
  have "counts_ok ?s1 (F(i := n # F i))"
    by (rule counts_ok_insert [OF cn1]) (use n_fields an in \<open>simp add: whole_def\<close>)
  then obtain s' where s': "insert_tag n (int i) ?s1 = Some s'" "heap_but {} s' ?L R (F(i := n # F i))"
      and st: "list_step ?L ?s1 s'" and ix: "\<And>b. index (mem s' b) = (if b = n then int i else index (?m1 b))"
    using insert_tag_heap [OF lo _ cl co us, of R n i] bo ix1 [of n] i lon by auto
  have nn: "n \<noteq> NULL" by (rule N(3))
  have run: "split_tag a s = Some (n, s')"
  proof -
    have "insert_tag n (-1) (s\<lparr>mem := ?m\<rparr>) = insert_tag n (int i) (s\<lparr>mem := ?m\<rparr>)"
      by (rule insert_tag_auto [OF nn]) (use i in \<open>simp add: size_class_def\<close>)
    also have "\<dots> = insert_tag n (int i) ?s1"
      using insert_tag_ignores_index [of "int i" n "s\<lparr>mem := ?m\<rparr>" "-1"] by simp
    finally have ins: "insert_tag n (-1) (s\<lparr>mem := ?m\<rparr>) = Some s'" using s' by simp
    then show ?thesis using split_tag_mem [OF an n_def [symmetric] nn] by simp
  qed
  have "allocated s' ?L = allocated s L" using ix SF(2) N(2) by (auto simp: allocated_def)
  moreover have "kept (allocated s L - {a}) ?L s s'"
  proof -
    have m: "mem s' b = mem s b" if "b \<notin> ?L" for b
    proof -
      have "b \<noteq> split_right (mem s a) \<or> split_right (mem s a) = NULL" "b \<noteq> a" "b \<noteq> n"
        using that blocks_right(1) [OF H(2) a(1)] a(1) by auto
      then have "?m1 b = mem s b" using N(4) by (auto simp: split_mem_def Let_def n_def)
      then show ?thesis using list_stepD(2) [OF st that] by simp
    qed
    have k: "index (mem s' b) = index (mem s b) \<and> req_size (mem s' b) = req_size (mem s b) \<and> real_size (mem s' b) = real_size (mem s b)"
      if b: "b \<in> allocated s L - {a}" for b
    proof -
      have bn: "b \<noteq> n" "b \<noteq> a" using b N(2) by (auto simp: allocated_def)
      then show ?thesis using same_blocks_fields [OF list_stepD(1) [OF st], of b] ix SF(1,2,5) by simp
    qed
    show ?thesis using m k list_stepD(3-) [OF st] by (simp add: kept_def)
  qed
  ultimately show ?thesis
    using run s'(2) N(2,4) same_blocks_fields [OF list_stepD(1) [OF st], of a] ra SF(1)
    by (intro exI [of _ n] exI [of _ s'] exI [of _ "F(i := n # F i)"]) simp
qed

end
