(* ===== verification/Liballoc_Correct.thy ===== *)
theory Liballoc_Correct
  imports Liballoc_Inv
begin

text \<open>
  Correctness of \<open>kernel_malloc\<close> and \<open>kernel_free\<close> for every provider of pages that keeps
  the contract of \<open>liballoc.h\<close>: \<open>liballoc_alloc\<close> returns \<open>NULL\<close> or fresh pages,
  \<open>liballoc_free\<close> takes back what \<open>liballoc_alloc\<close> gave.
\<close>

section \<open>The request is written into the block\<close>

lemma set_req_size_heap:
  assumes ok: "heap_but {a} s L R F" and a: "a \<in> L" "index (mem s a) = -1"
    and fit: "48 + unat z \<le> unat (real_size (mem s a))"
  shows "heap_ok (s\<lparr>mem := (mem s)(a := (mem s a)\<lparr>req_size := z\<rparr>)\<rparr>) L R F"
proof -
  note H = heap_butD [OF ok]
  let ?m = "(mem s)(a := (mem s a)\<lparr>req_size := z\<rparr>)"
  let ?s = "s\<lparr>mem := ?m\<rparr>"
  have f: "magic (?m d) = magic (mem s d)" "real_size (?m d) = real_size (mem s d)"
    "split_left (?m d) = split_left (mem s d)" "split_right (?m d) = split_right (mem s d)"
    "index (?m d) = index (mem s d)" "next_tag (?m d) = next_tag (mem s d)" "prev_tag (?m d) = prev_tag (mem s d)"
    "req_size (?m d) = (if d = a then z else req_size (mem s d))" for d
    by simp_all
  have "lists_ok ?s L F" using lists_ok_same [of ?s s L F] H(1) f by simp
  moreover have "blocks_ok ?m L R" using blocks_ok_cong [of ?m "mem s" L R] H(2) f by simp
  moreover have "class_ok ?m F" using H(3) by (simp add: class_ok_def size_class_def)
  moreover have "counts_ok ?s F"
  proof -
    have "whole (?m d) = whole (mem s d)" for d by (simp add: whole_def)
    then show ?thesis using H(4) by (simp add: counts_ok_def del: fun_upd_apply)
  qed
  moreover have "used_ok ?m L" using H(5) fit by (auto simp: used_ok_def f TAG_SIZE_def simp del: fun_upd_apply)
  moreover have "coalesced ?m L" using H(6) by (simp add: coalesced_def f del: fun_upd_apply)
  ultimately show ?thesis by (simp add: heap_but_def)
qed

lemma carve_tag_heap:
  assumes ok: "heap_but {a} s L R F" and a: "a \<in> L" "index (mem s a) = -1" and ln: "lonely (mem s) a"
    and fit: "48 + unat sz \<le> unat (real_size (mem s a))"
  shows "\<exists>s' L' F'. carve_tag a sz s = Some s' \<and> heap_ok s' L' R F' \<and> L \<subseteq> L' \<and>
     allocated s' L' = allocated s L \<and> kept (allocated s L - {a}) L' s s' \<and>
     unat (req_size (mem s' a)) = unat sz"
proof -
  let ?z = "ucast sz :: uint32"
  have z: "unat ?z = unat sz"
    using fit unat_lt32 [of "real_size (mem s a)"] by (intro unat_ucast_64_32_small) simp
  let ?s = "s\<lparr>mem := (mem s)(a := (mem s a)\<lparr>req_size := ?z\<rparr>)\<rparr>"
  have an: "a \<noteq> NULL" by (rule blocks_facts(1) [OF heap_butD(2) [OF ok] a(1)])
  have h: "heap_ok ?s L R F" by (rule set_req_size_heap [OF ok a]) (use fit z in simp)
  have al: "allocated ?s L = allocated s L" by (auto simp: allocated_def)
  have k: "kept (allocated s L - {a}) L s ?s" using a by (auto simp: kept_def)
  have rem: "remainder_of (mem ?s a) sz = remainder_of (mem s a) sz" by (simp add: remainder_of_def)
  show ?thesis
  proof (cases "0 < sint (remainder_of (mem s a) sz) \<and> 0 \<le> getexp (remainder_of (mem s a) sz)")
    case False
    then have "carve_tag a sz s = Some ?s"
      using an by (auto simp: carve_tag_def upd_def rd_def remainder_of_def Let_def)
    then show ?thesis using h al k z by (intro exI [of _ ?s] exI [of _ L] exI [of _ F]) simp
  next
    case True
    have "112 + unat sz \<le> unat (real_size (mem s a))"
      using remainder_fits(1) [OF fit] True by simp
    then have "112 + unat (req_size (mem ?s a)) \<le> unat (real_size (mem ?s a))" using z by simp
    moreover have "lonely (mem ?s) a" using ln a(2) by (auto simp: lonely_def)
    moreover have "index (mem ?s a) = -1" using a by simp
    ultimately obtain n s' F' where sp: "split_tag a ?s = Some (n, s')" "heap_ok s' (insert n L) R F'"
        "allocated s' (insert n L) = allocated ?s L" "kept (allocated ?s L - {a}) (insert n L) ?s s'"
        "req_size (mem s' a) = req_size (mem ?s a)"
      using split_tag_heap [OF h a(1)] by blast
    have "carve_tag a sz s = Some s'"
      using True an sp(1) by (simp add: carve_tag_def upd_def rd_def remainder_of_def Let_def)
    moreover have "kept (allocated s L - {a}) (insert n L) s s'"
      using kept_trans [OF kept_mono [OF k, of "insert n L"] sp(4) [unfolded al]] by auto
    ultimately show ?thesis using sp al z
      by (intro exI [of _ s'] exI [of _ "insert n L"] exI [of _ F']) auto
  qed
qed

section \<open>Taking a free tag\<close>

lemma take_listed_tag:
  assumes ok: "heap_ok s L R F" and i: "int i = min_index (getexp (ucast sz) + MODE)" "i < MAXEXP"
    and a: "a \<in> set (F i)"
  shows "\<exists>s' F'. heap_but {a} s' L R F' \<and> a \<in> L \<and> index (mem s' a) = -1 \<and> lonely (mem s') a \<and> a \<notin> allocated s L \<and>
     allocated s' L = insert a (allocated s L) \<and> kept (allocated s L) L s s' \<and>
     real_size (mem s' a) = real_size (mem s a) \<and>
     do { s \<leftarrow> remove_tag a s; t \<leftarrow> rd a s;
          s \<leftarrow> (if split_left t = NULL \<and> split_right t = NULL
               then add_completePages (min_index (getexp (ucast sz) + MODE)) (-1) s else Some s);
          Some (a, s) } = Some (a, s')"
proof -
  note H = heap_butD [OF ok]
  have aL: "a \<in> L" and ia: "index (mem s a) = int i"
    using lists_okD(2,5) [OF H(1) i(2)] a by auto
  have an: "a \<noteq> NULL" by (rule blocks_facts(1) [OF H(2) aL])
  have nb: "split_left (mem s a) \<noteq> NULL \<Longrightarrow> index (mem s (split_left (mem s a))) = -1"
    using H(6) blocks_left [OF H(2) aL] an ia unfolding coalesced_def by force
  have nb': "split_right (mem s a) \<noteq> NULL \<Longrightarrow> index (mem s (split_right (mem s a))) = -1"
    using H(6) aL ia unfolding coalesced_def by force
  have fin: ?thesis
    if h: "heap_but {a} s' L R (F(i := remove1 a (F i)))" and st: "list_step L s s0" and m: "mem s' = mem s0"
      and ix: "\<And>b. index (mem s0 b) = (if b = a then -1 else index (mem s b))"
      and o: "bytes s' = bytes s0" "l_initialized s' = l_initialized s0" "alloc_lock s' = alloc_lock s0"
        "liballoc.more s' = liballoc.more s0"
      and run: "do { s \<leftarrow> remove_tag a s; t \<leftarrow> rd a s;
          s \<leftarrow> (if split_left t = NULL \<and> split_right t = NULL
               then add_completePages (int i) (-1) s else Some s);
          Some (a, s) } = Some (a, s')" for s' s0
  proof -
    note sb = same_blocks_fields [OF list_stepD(1) [OF st]]
    have "lonely (mem s') a" using nb nb' ix sb by (auto simp: lonely_def m)
    moreover have "a \<notin> allocated s L" using ia by (auto simp: allocated_def)
    moreover have "allocated s' L = insert a (allocated s L)" using ix aL by (auto simp: allocated_def m)
    moreover have "kept (allocated s L) L s s'"
      using list_step_kept [OF st, of "allocated s L"] ix ia m o by (auto simp: kept_def allocated_def)
    moreover have "index (mem s' a) = -1" "real_size (mem s' a) = real_size (mem s a)"
      using ix sb by (simp_all add: m)
    ultimately show ?thesis using h aL run unfolding i(1) by blast
  qed
  show ?thesis
  proof (cases "whole (mem s a)")
    case True
    obtain s0 s' where r: "remove_tag a s = Some s0" "add_completePages (int i) (-1) s0 = Some s'"
        "whole (mem s0 a)" "mem s' = mem s0" "heap_but {a} s' L R (F(i := remove1 a (F i)))" "list_step L s s0"
        "\<And>b. index (mem s0 b) = (if b = a then -1 else index (mem s b))"
      using remove_tag_whole_heap [OF ok i(2) a True] by auto
    have "bytes s' = bytes s0" "l_initialized s' = l_initialized s0" "alloc_lock s' = alloc_lock s0"
        "liballoc.more s' = liballoc.more s0"
      using r(2) i(2) by (auto simp: add_completePages_def)
    then show ?thesis
      by (intro fin [OF r(5,6,4,7)]) (use r an in \<open>auto simp: rd_def whole_def\<close>)
  next
    case False
    obtain s0 where r: "remove_tag a s = Some s0" "heap_but {a} s0 L R (F(i := remove1 a (F i)))" "list_step L s s0"
        "\<And>b. index (mem s0 b) = (if b = a then -1 else index (mem s b))"
      using remove_tag_heap [OF ok i(2) a False] by auto
    have "\<not> whole (mem s0 a)" using False same_blocks_class [OF list_stepD(1) [OF r(3)]] by simp
    then show ?thesis
      by (intro fin [OF r(2,3) refl r(4)]) (use r an in \<open>auto simp: rd_def whole_def\<close>)
  qed
qed

text \<open>The search and the removal never fail; only the page provider can.\<close>

lemma take_tag_returns:
  assumes ok: "heap_ok s L R F" and prov: "palloc (pages_for (ucast sz)) s \<noteq> None"
  shows "\<exists>a s'. take_tag palloc sz s = Some (a, s')"
proof -
  note H = heap_butD [OF ok]
  obtain i where i: "int i = min_index (getexp (ucast sz) + MODE)" "i < MAXEXP"
    using min_index_range [of "ucast sz"]
    by (auto simp: MODE_def MAXEXP_def intro!: that [of "nat (min_index (getexp (ucast sz)))"])
  note F = lists_okD [OF H(1) i(2)]
  have g: "get_freePages (min_index (getexp (ucast sz) + MODE)) s = Some (l_freePages s ! i)"
    using i(2) by (simp add: get_freePages_def i(1) [symmetric])
  have "NULL \<notin> set (F i)" using F(2) H(1) by (auto simp: lists_ok_def)
  from find_tag_ok [OF F(3) this, of sz] obtain b where b: "find_tag sz (l_freePages s ! i) s = Some b"
      "b \<noteq> NULL \<Longrightarrow> b \<in> set (F i)"
    unfolding F(4) by (auto split: if_splits)
  show ?thesis
  proof (cases "b = NULL")
    case True
    obtain p s1 where p: "palloc (pages_for (ucast sz)) s = Some (p, s1)" using prov by auto
    show ?thesis using b(1) g p True
      by (cases "p = NULL") (simp_all add: take_tag_def allocate_new_tag_def wr_def Let_def)
  next
    case False
    let ?rest = "do { s \<leftarrow> remove_tag b s; t \<leftarrow> rd b s;
          s \<leftarrow> (if split_left t = NULL \<and> split_right t = NULL
               then add_completePages (min_index (getexp (ucast sz) + MODE)) (-1) s else Some s);
          Some (b, s) }"
    obtain s' where "?rest = Some (b, s')" using take_listed_tag [OF ok i b(2) [OF False]] by auto
    moreover have "take_tag palloc sz s = ?rest" using False b(1) g by (simp add: take_tag_def)
    ultimately show ?thesis by (intro exI [of _ b] exI [of _ s']) (rule trans)
  qed
qed

text \<open>
  The state between the two halves of \<open>kernel_malloc\<close>: \<open>a\<close> is off the lists, large enough,
  and the only block more than before.
\<close>

definition ready :: "addr \<Rightarrow> uint64 \<Rightarrow> 'a liballoc_scheme \<Rightarrow> addr set \<Rightarrow> 'a liballoc_scheme \<Rightarrow> addr set \<Rightarrow>
    (addr \<rightharpoonup> nat) \<Rightarrow> (nat \<Rightarrow> addr list) \<Rightarrow> bool" where
  "ready a sz s L s' L' R' F' \<longleftrightarrow> heap_but {a} s' L' R' F' \<and> a \<in> L' \<and> index (mem s' a) = -1 \<and> lonely (mem s') a \<and>
     48 + unat sz \<le> unat (real_size (mem s' a)) \<and> a \<notin> allocated s L \<and>
     allocated s' L' = insert a (allocated s L) \<and>
     (\<forall>b \<in> allocated s L. req_size (mem s' b) = req_size (mem s b) \<and> real_size (mem s' b) = real_size (mem s b)) \<and>
     bytes s' = bytes s \<and> l_initialized s' = l_initialized s \<and> alloc_lock s' = alloc_lock s"

text \<open>What \<open>kernel_malloc\<close> promises of its result \<open>p\<close>.\<close>

definition malloc_post :: "addr \<Rightarrow> uint64 \<Rightarrow> 'a liballoc_scheme \<Rightarrow> addr set \<Rightarrow> 'a liballoc_scheme \<Rightarrow> addr set \<Rightarrow>
    (addr \<rightharpoonup> nat) \<Rightarrow> (nat \<Rightarrow> addr list) \<Rightarrow> bool" where
  "malloc_post p sz s L s' L' R' F' \<longleftrightarrow> heap_ok s' L' R' F' \<and>
     (if p = NULL then allocated s' L' = allocated s L
      else p - of_nat TAG_SIZE \<notin> allocated s L \<and>
        allocated s' L' = insert (p - of_nat TAG_SIZE) (allocated s L) \<and>
        unat (req_size (mem s' (p - of_nat TAG_SIZE))) = unat sz) \<and>
     (\<forall>b \<in> allocated s L. req_size (mem s' b) = req_size (mem s b) \<and> real_size (mem s' b) = real_size (mem s b)) \<and>
     bytes s' = bytes s \<and> l_initialized s' \<noteq> 0 \<and> alloc_lock s' = 0"

text \<open>What \<open>kernel_free\<close> promises when it gives back the block of payload \<open>p\<close>.\<close>

definition free_post :: "addr \<Rightarrow> 'a liballoc_scheme \<Rightarrow> addr set \<Rightarrow> 'a liballoc_scheme \<Rightarrow> addr set \<Rightarrow>
    (addr \<rightharpoonup> nat) \<Rightarrow> (nat \<Rightarrow> addr list) \<Rightarrow> bool" where
  "free_post p s L s' L' R' F' \<longleftrightarrow> heap_ok s' L' R' F' \<and>
     allocated s' L' = allocated s L - {p - of_nat TAG_SIZE} \<and>
     (\<forall>b \<in> allocated s' L'. req_size (mem s' b) = req_size (mem s b) \<and> real_size (mem s' b) = real_size (mem s b)) \<and>
     bytes s' = bytes s \<and> l_initialized s' = l_initialized s \<and> alloc_lock s' = 0"

lemma malloc_post_start:
  assumes "malloc_post p sz s1 L s' L' R' F'" "mem s1 = mem s" "bytes s1 = bytes s"
  shows "malloc_post p sz s L s' L' R' F'"
proof -
  have "allocated s1 L = allocated s L" using assms(2) by (simp add: allocated_def)
  then show ?thesis using assms by (simp add: malloc_post_def split: if_splits)
qed

lemma payload_addr:
  assumes "blocks_ok m L R" "a \<in> L"
  shows "unat (a + of_nat TAG_SIZE) = unat a + 48" "a + of_nat TAG_SIZE \<noteq> NULL"
proof -
  show u: "unat (a + of_nat TAG_SIZE) = unat a + 48"
    using block_end_lt [OF assms] blocks_facts(4) [OF assms]
    by (subst unat_add_no_wrap) (auto simp: TAG_SIZE_def)
  show "a + of_nat TAG_SIZE \<noteq> NULL" using u by auto
qed

lemma ready_carve:
  assumes "ready a sz s L s2 L2 R2 F2" "l_initialized s \<noteq> 0"
  shows "\<exists>s3 L3 F3. carve_tag a sz s2 = Some s3 \<and>
     malloc_post (a + of_nat TAG_SIZE) sz s L (liballoc_unlock s3) L3 R2 F3 \<and>
     liballoc.more s3 = liballoc.more s2"
proof -
  note r = assms(1) [unfolded ready_def]
  obtain s3 L3 F3 where cv: "carve_tag a sz s2 = Some s3" "heap_ok s3 L3 R2 F3" "L2 \<subseteq> L3"
      "allocated s3 L3 = allocated s2 L2" "kept (allocated s2 L2 - {a}) L3 s2 s3"
      "unat (req_size (mem s3 a)) = unat sz"
    using carve_tag_heap [of a s2 L2 R2 F2 sz] r by auto
  have "heap_ok (liballoc_unlock s3) L3 R2 F3"
    using cv(2) heap_but_cong [of "liballoc_unlock s3" s3] by (simp add: liballoc_unlock_def)
  moreover have "allocated (liballoc_unlock s3) L3 = insert a (allocated s L)"
    using cv(4) r by (simp add: allocated_def liballoc_unlock_def)
  moreover have "a + of_nat TAG_SIZE \<noteq> NULL"
    using payload_addr(2) [OF heap_butD(2) [OF cv(2)], of a] cv(3) r by auto
  moreover have "\<forall>b \<in> allocated s L. req_size (mem s3 b) = req_size (mem s b) \<and> real_size (mem s3 b) = real_size (mem s b)"
    using cv(5) r unfolding kept_def by auto
  ultimately have "malloc_post (a + of_nat TAG_SIZE) sz s L (liballoc_unlock s3) L3 R2 F3"
    using cv r assms(2) by (simp add: malloc_post_def liballoc_unlock_def kept_def)
  then show ?thesis using cv(1,5) by (auto simp: kept_def)
qed

section \<open>Giving a block back\<close>

lemma release_pages_whole:
  assumes "blocks_ok m L R" "a \<in> L" "whole (m a)"
  shows "R a = Some (unat (release_pages (real_size (m a))) * 4096)"
proof -
  let ?r = "real_size (m a)"
  have Ra: "R a = Some (unat ?r)" by (rule whole_region [OF assms])
  note D = regions_okD [OF blocks_okD(1) [OF assms(1)] Ra]
  obtain k where k: "unat ?r = k * 4096" using D(5) by (metis dvd_def mult.commute)
  have "unat (?r mod l_pageSize) = 0" using k by (simp add: unat_mod l_pageSize_def)
  then have m: "?r mod l_pageSize = 0" by (simp add: unat_0_iff)
  have q: "unat (?r div l_pageSize) = k" using k by (simp add: unat_div l_pageSize_def)
  have "16 \<le> k" using D(3) k by simp
  then have "\<not> ?r div l_pageSize < l_pageCount"
    using q by (simp add: word_less_nat_alt l_pageCount_def)
  then have "unat (release_pages ?r) = k" using m q by (simp add: release_pages_def Let_def)
  then show ?thesis using Ra k by simp
qed

text \<open>The block goes onto its list, unless five whole blocks of its class wait there already.\<close>

lemma give_back_list:
  assumes ok: "heap_but {a} s L R F" and a: "a \<in> L" "index (mem s a) = -1" and ln: "lonely (mem s) a"
    and i: "size_class (mem s a) = int i" "i < MAXEXP"
    and c: "whole (mem s a) \<longrightarrow> l_completePages s ! i \<noteq> MAXCOMPLETE"
  shows "\<exists>s'. give_back pfree a s = Some s' \<and> heap_ok s' L R (F(i := a # F i)) \<and>
     allocated s' L = allocated s L - {a} \<and> kept (allocated s L - {a}) L s s'"
proof -
  note H = heap_butD [OF ok]
  have an: "a \<noteq> NULL" by (rule blocks_facts(1) [OF H(2) a(1)])
  define s1 where "s1 = (if whole (mem s a)
     then s\<lparr>l_completePages := (l_completePages s)[i := l_completePages s ! i + 1]\<rparr> else s)"
  have m1: "mem s1 = mem s" "l_freePages s1 = l_freePages s" "bytes s1 = bytes s" "l_initialized s1 = l_initialized s"
    "alloc_lock s1 = alloc_lock s" "liballoc.more s1 = liballoc.more s" by (auto simp: s1_def)
  have lo: "lists_ok s1 L F" using H(1) m1 by (simp add: lists_ok_def)
  have cn: "counts_ok s1 (F(i := a # F i))"
    using H(4) c i by (auto simp: counts_ok_def s1_def nth_list_update)
  obtain s' where s': "insert_tag a (int i) s1 = Some s'" "heap_but ({a} - {a}) s' L R (F(i := a # F i))"
      "list_step L s1 s'" "\<And>b. index (mem s' b) = (if b = a then int i else index (mem s1 b))"
    using insert_tag_heap [of s1 L F R "{a}" a i] lo H(2,3,5,6) a i ln cn by (auto simp: m1)
  have "give_back pfree a s = Some s'"
  proof (cases "whole (mem s a)")
    case True
    then show ?thesis using an i c s'(1)
      by (simp add: give_back_def rd_def size_class_def [symmetric] get_completePages_def add_completePages_def
          whole_def [symmetric] s1_def Let_def)
  next
    case False
    then show ?thesis using an i s'(1)
      by (simp add: give_back_def rd_def size_class_def [symmetric] whole_def [symmetric] s1_def Let_def)
  qed
  moreover have "allocated s' L = allocated s L - {a}" using s'(4) m1 by (auto simp: allocated_def)
  moreover have "kept (allocated s L - {a}) L s s'"
    using list_step_kept [OF s'(3), of "allocated s L - {a}"] s'(4) m1 by (simp add: kept_def)
  ultimately show ?thesis using s'(2) by auto
qed

lemma give_back_indep:
  assumes "size_class (mem s a) = int i" "i < MAXEXP" "l_completePages s ! i \<noteq> MAXCOMPLETE"
  shows "give_back f a s = give_back g a s"
  using assms
  by (cases "a = NULL") (simp_all add: give_back_def rd_def size_class_def [symmetric] get_completePages_def Let_def)

lemma give_back_pages:
  assumes ok: "heap_but {a} s L R F" and a: "a \<in> L" and i: "size_class (mem s a) = int i" "i < MAXEXP"
    and w: "whole (mem s a)" and c: "l_completePages s ! i = MAXCOMPLETE"
  shows "give_back pfree a s = pfree a (release_pages (real_size (mem s a))) s"
  using blocks_facts(1) [OF heap_butD(2) [OF ok] a] i w c
  by (simp add: give_back_def rd_def size_class_def [symmetric] get_completePages_def whole_def [symmetric] Let_def)

lemma drop_region_heap:
  assumes ok: "heap_but {a} s L R F" and a: "a \<in> L" "index (mem s a) = -1" and w: "whole (mem s a)"
    and m: "mem s' = mem s" "l_freePages s' = l_freePages s" "l_completePages s' = l_completePages s"
  shows "heap_ok s' (L - {a}) (R(a := None)) F"
proof -
  note H = heap_butD [OF ok]
  have "coalesced (mem s) (L - {a})" using H(6) by (auto simp: coalesced_def)
  then have "heap_ok s (L - {a}) (R(a := None)) F"
    using lists_ok_shrink [OF H(1) a(2)] drop_region_ok [OF H(2) a(1) w] H(3-5) by (simp add: heap_but_def)
  then show ?thesis using heap_but_cong [of s' s] m by simp
qed

text \<open>Melting leaves the counters of whole blocks alone.\<close>

lemma upd_counters [frame_simps]: "upd a f s = Some s' \<Longrightarrow> l_completePages s' = l_completePages s"
  by (auto simp: upd_def split: if_splits)

lemma remove_tag_counters [frame_simps]:
  "remove_tag a s = Some s' \<Longrightarrow> l_completePages s' = l_completePages s"
  by (auto simp: remove_tag_def rd_def upd_def set_freePages_def get_freePages_def split: if_splits)

lemma melt_left_counters [frame_simps]:
  "melt_left a s = Some (b, s') \<Longrightarrow> l_completePages s' = l_completePages s"
  by (auto simp: melt_left_def Let_def split: if_splits dest!: upd_counters)

lemma absorb_right_counters [frame_simps]:
  "absorb_right a s = Some (b, s') \<Longrightarrow> l_completePages s' = l_completePages s"
  by (auto simp: absorb_right_def Let_def split: if_splits dest!: upd_counters remove_tag_counters)

lemma melt_left_loop_counters:
  assumes "melt_left_loop a s = Some r"
  shows "l_completePages (snd r) = l_completePages s"
proof (rule melt_left_loop.raw_induct [OF _ assms])
  fix loop :: "addr \<Rightarrow> 'a liballoc_scheme \<Rightarrow> (addr \<times> 'a liballoc_scheme) option" and a s r
  assume ih: "\<And>a s r. loop a s = Some r \<Longrightarrow> l_completePages (snd r) = l_completePages s"
    and run: "do { t \<leftarrow> rd a s;
     if split_left t = NULL then Some (a, s)
     else do { l \<leftarrow> rd (split_left t) s;
       if index l < 0 then Some (a, s)
       else do { r \<leftarrow> melt_left a s; s \<leftarrow> remove_tag (fst r) (snd r); loop (fst r) s } } } = Some r"
  have step: "l_completePages (snd r) = l_completePages s"
    if "melt_left a s = Some (b, s1)" "remove_tag b s1 = Some s2" "loop b s2 = Some r" for b s1 s2
    using ih [OF that(3)] that(1,2) by (simp add: frame_simps)
  show "l_completePages (snd r) = l_completePages s"
    using run by (auto simp: rd_def split: if_splits dest: step)
qed

lemma absorb_right_loop_counters:
  assumes "absorb_right_loop a s = Some r"
  shows "l_completePages (snd r) = l_completePages s"
proof (rule absorb_right_loop.raw_induct [OF _ assms])
  fix loop :: "addr \<Rightarrow> 'a liballoc_scheme \<Rightarrow> (addr \<times> 'a liballoc_scheme) option" and a s r
  assume ih: "\<And>a s r. loop a s = Some r \<Longrightarrow> l_completePages (snd r) = l_completePages s"
    and run: "do { t \<leftarrow> rd a s;
     if split_right t = NULL then Some (a, s)
     else do { r \<leftarrow> rd (split_right t) s;
       if index r < 0 then Some (a, s)
       else do { p \<leftarrow> absorb_right a s; loop (fst p) (snd p) } } } = Some r"
  have step: "l_completePages (snd r) = l_completePages s"
    if "absorb_right a s = Some (b, s1)" "loop b s1 = Some r" for b s1
    using ih [OF that(2)] that(1) by (simp add: frame_simps)
  show "l_completePages (snd r) = l_completePages s"
    using run by (auto simp: rd_def split: if_splits dest: step)
qed

text \<open>
  Both loops together, as \<open>kernel_free\<close> runs them on a block in use: the block and its free
  neighbours become one block \<open>l\<close>, and every other block in use is as before.
\<close>

lemma melt_ok:
  assumes ok: "heap_ok s L R F" and a: "a \<in> allocated s L"
  shows "\<exists>l s1 s' L' F'. melt_left_loop a s = Some (l, s1) \<and> absorb_right_loop l s1 = Some (l, s') \<and>
     heap_but {l} s' L' R F' \<and> l \<in> L' \<and> index (mem s' l) = -1 \<and> lonely (mem s') l \<and>
     allocated s' L' - {l} = allocated s L - {a} \<and> kept (allocated s L - {a}) L s s' \<and>
     l_completePages s' = l_completePages s"
proof -
  have a': "a \<in> L" "index (mem s a) = -1" using a by (auto simp: allocated_def)
  have "heap_but {a} s L R F" using ok by (auto simp: heap_but_def used_ok_def)
  from melt_left_loop_ok [OF this a'] obtain l s1 L1 F1 where
      m: "melt_left_loop a s = Some (l, s1)" "heap_but {l} s1 L1 R F1" "l \<in> L1" "L1 \<subseteq> L" "index (mem s1 l) = -1"
        "split_left (mem s1 l) \<noteq> NULL \<longrightarrow> index (mem s1 (split_left (mem s1 l))) = -1"
        "allocated s1 L1 - {l} = allocated s L - {a}" "kept (allocated s L - {a}) L s s1"
    by (elim exE conjE) (rule that)
  from absorb_right_loop_ok [OF m(2,3,5,6)] obtain s' L' F' where
      n: "absorb_right_loop l s1 = Some (l, s')" "heap_but {l} s' L' R F'" "l \<in> L'" "L' \<subseteq> L1"
        "index (mem s' l) = -1" "lonely (mem s') l" "allocated s' L' - {l} = allocated s1 L1 - {l}"
        "kept (allocated s1 L1 - {l}) L1 s1 s'"
    by (elim exE conjE) (rule that)
  have "kept (allocated s L - {a}) L s s'" using kept_trans [OF m(8) n(8) [unfolded m(7)] m(4)] .
  moreover have "l_completePages s' = l_completePages s"
    using melt_left_loop_counters [OF m(1)] absorb_right_loop_counters [OF n(1)] by simp
  ultimately show ?thesis using m(1,7) n(1-3,5-7) by blast
qed

text \<open>
  While no class has five whole blocks waiting, \<open>kernel_free\<close> of a block in use returns and
  never calls \<open>liballoc_free\<close>.
\<close>

lemma free_stays_in_heap:
  assumes ok: "heap_ok s L R F" and lk: "alloc_lock s = 0" and a: "p - of_nat TAG_SIZE \<in> allocated s L"
    and few: "\<And>i. i < MAXEXP \<Longrightarrow> l_completePages s ! i \<noteq> MAXCOMPLETE"
  shows "\<exists>s' L' F'. (\<forall>pfree. kernel_free pfree p s = Some s') \<and> free_post p s L s' L' R F' \<and>
     liballoc.more s' = liballoc.more s"
proof -
  let ?a = "p - of_nat TAG_SIZE" and ?s = "s\<lparr>alloc_lock := 1\<rparr>"
  have ok1: "heap_ok ?s L R F" using ok heap_but_cong [of ?s s] by simp
  have al: "allocated ?s L = allocated s L" by (simp add: allocated_def)
  have aL: "?a \<in> L" using a by (simp add: allocated_def)
  note B = blocks_facts [OF heap_butD(2) [OF ok] aL]
  have p: "p \<noteq> NULL" using payload_addr(2) [OF heap_butD(2) [OF ok] aL] by simp
  obtain l s1 s2 L2 F2 where m: "melt_left_loop ?a ?s = Some (l, s1)" "absorb_right_loop l s1 = Some (l, s2)"
     "heap_but {l} s2 L2 R F2" "l \<in> L2" "index (mem s2 l) = -1" "lonely (mem s2) l"
     "allocated s2 L2 - {l} = allocated s L - {?a}" "kept (allocated s L - {?a}) L ?s s2"
     "l_completePages s2 = l_completePages ?s"
    using melt_ok [OF ok1, of ?a] a al by auto
  obtain i where i: "size_class (mem s2 l) = int i" "i < MAXEXP" using size_class_nat by blast
  have "\<exists>s3 F3. (\<forall>pfree. give_back pfree l s2 = Some s3) \<and> heap_ok s3 L2 R F3 \<and>
     allocated s3 L2 = allocated s2 L2 - {l} \<and> kept (allocated s2 L2 - {l}) L2 s2 s3"
    using give_back_list [OF m(3-6) i] few [OF i(2)] m(9) give_back_indep [OF i] by simp metis
  then obtain s3 F3 where g: "\<And>pfree. give_back pfree l s2 = Some s3" "heap_ok s3 L2 R F3"
     "allocated s3 L2 = allocated s2 L2 - {l}" "kept (allocated s2 L2 - {l}) L2 s2 s3" by blast
  have "kernel_free pfree p s = Some (liballoc_unlock s3)" for pfree
    using p lk B(1,2) m(1,2) g(1) by (simp add: kernel_free_def liballoc_lock_def rd_def Let_def)
  moreover have "heap_ok (liballoc_unlock s3) L2 R F3"
    using g(2) heap_but_cong [of "liballoc_unlock s3" s3] by (simp add: liballoc_unlock_def)
  ultimately show ?thesis using g m(7,8)
    by (intro exI [of _ "liballoc_unlock s3"] exI [of _ L2] exI [of _ F3])
      (auto simp: free_post_def liballoc_unlock_def allocated_def kept_def)
qed

text \<open>Payloads of two blocks in use never share a byte, nor does a payload cover another tag.\<close>

definition payload :: "'a liballoc_scheme \<Rightarrow> addr \<Rightarrow> nat set" where
  "payload s a = {unat a + TAG_SIZE ..< unat a + TAG_SIZE + unat (req_size (mem s a))}"

definition tag_bytes :: "addr \<Rightarrow> nat set" where
  "tag_bytes a = {unat a ..< unat a + TAG_SIZE}"

lemma payload_apart:
  assumes ok: "heap_ok s L R F" and a: "a \<in> allocated s L" and b: "b \<in> allocated s L" "a \<noteq> b"
  shows "payload s a \<inter> payload s b = {}"
proof -
  note H = heap_butD [OF ok]
  have u: "48 + unat (req_size (mem s c)) \<le> unat (real_size (mem s c))" if "c \<in> allocated s L" for c
    using H(5) that by (auto simp: used_ok_def allocated_def TAG_SIZE_def)
  show ?thesis
    using blocks_facts(5) [OF H(2), of a b] u [OF a] u [OF b(1)] a b
    by (auto simp: payload_def allocated_def block_end_def TAG_SIZE_def)
qed

lemma payload_tags:
  assumes ok: "heap_ok s L R F" and a: "a \<in> allocated s L" and b: "b \<in> L"
  shows "payload s a \<inter> tag_bytes b = {}"
proof -
  note H = heap_butD [OF ok]
  have u: "48 + unat (req_size (mem s a)) \<le> unat (real_size (mem s a))" and aL: "a \<in> L"
    using H(5) a by (auto simp: used_ok_def allocated_def TAG_SIZE_def)
  show ?thesis
    using blocks_facts(5) [OF H(2) aL b] u blocks_facts(4) [OF H(2) b]
    by (cases "a = b") (auto simp: payload_def tag_bytes_def block_end_def TAG_SIZE_def)
qed

lemma payload_in_region:
  assumes ok: "heap_ok s L R F" and a: "a \<in> allocated s L"
  shows "\<exists>r n. R r = Some n \<and> payload s a \<subseteq> {unat r ..< unat r + n}"
proof -
  note H = heap_butD [OF ok]
  have u: "48 + unat (req_size (mem s a)) \<le> unat (real_size (mem s a))" and aL: "a \<in> L"
    using H(5) a by (auto simp: used_ok_def allocated_def TAG_SIZE_def)
  obtain r n where "R r = Some n" "unat r \<le> unat a" "block_end (mem s) a \<le> unat r + n"
    using blocks_okD(5) [OF H(2) aL] by (auto simp: in_region_def)
  then show ?thesis using u
    by (intro exI [of _ r] exI [of _ n]) (auto simp: payload_def block_end_def TAG_SIZE_def)
qed

section \<open>The contract of the page provider\<close>

text \<open>The heap's own globals, which the provider leaves alone.\<close>

definition same_heap :: "'a liballoc_scheme \<Rightarrow> 'a liballoc_scheme \<Rightarrow> bool" where
  "same_heap s s' \<longleftrightarrow> mem s' = mem s \<and> bytes s' = bytes s \<and> l_freePages s' = l_freePages s \<and>
     l_completePages s' = l_completePages s \<and> l_initialized s' = l_initialized s \<and> alloc_lock s' = alloc_lock s"

text \<open>The largest request whose pages the code's 32-bit arithmetic can count.\<close>

definition MAX_REQUEST :: nat where
  "MAX_REQUEST = 2 ^ 32 - 4096 - TAG_SIZE"

lemma pages_for_bounds:
  assumes "unat z \<le> MAX_REQUEST"
  shows "16 \<le> unat (pages_for z)" "unat (pages_for z) < 2 ^ 20"
    "unat (pages_for z * l_pageSize) = unat (pages_for z) * 4096"
    "48 + unat z \<le> unat (pages_for z) * 4096"
proof -
  let ?u = "z + of_nat TAG_SIZE"
  have u: "unat ?u = unat z + 48"
    using assms by (subst unat_add_no_wrap) (auto simp: TAG_SIZE_def MAX_REQUEST_def)
  have d: "unat (?u div l_pageSize) = (unat z + 48) div 4096" "unat (?u mod l_pageSize) = (unat z + 48) mod 4096"
    using u by (simp_all add: unat_div unat_mod l_pageSize_def)
  define p where "p = (if ?u mod l_pageSize \<noteq> 0 then ?u div l_pageSize + 1 else ?u div l_pageSize)"
  have z: "unat z + 48 \<le> 2 ^ 32 - 4096" using assms by (simp add: MAX_REQUEST_def TAG_SIZE_def)
  have m0: "?u mod l_pageSize \<noteq> 0 \<longleftrightarrow> (unat z + 48) mod 4096 \<noteq> 0" using d(2) by (metis unat_0_iff)
  have "unat (?u div l_pageSize + 1) = (unat z + 48) div 4096 + 1"
    using d(1) z by (subst unat_add_no_wrap) auto
  then have p: "unat p = pages_up (unat z + 48)"
    using d(1) by (simp add: p_def m0 pages_up_def del: unat_0_iff)
  have p1: "unat z + 48 \<le> unat p * 4096" "unat p < 2 ^ 20"
    using pages_up_bounds [of "unat z + 48"] z by (auto simp: p)
  have e: "pages_for z = (if p < l_pageCount then l_pageCount else p)" by (simp add: pages_for_def Let_def p_def)
  have l16: "unat l_pageCount = 16" by (simp add: l_pageCount_def)
  have "16 \<le> unat (pages_for z) \<and> unat (pages_for z) < 2 ^ 20 \<and> 48 + unat z \<le> unat (pages_for z) * 4096"
  proof (cases "p < l_pageCount")
    case True
    then have "unat p < 16" by (simp add: word_less_nat_alt l16)
    then have "48 + unat z \<le> 16 * 4096" using p1(1) by simp
    then show ?thesis using True by (simp add: e l16)
  next
    case False
    then show ?thesis using p1 by (simp add: e word_less_nat_alt l16)
  qed
  then show a: "16 \<le> unat (pages_for z)" "unat (pages_for z) < 2 ^ 20" "48 + unat z \<le> unat (pages_for z) * 4096"
    by auto
  have "unat l_pageSize = 4096" by (simp add: l_pageSize_def)
  then show "unat (pages_for z * l_pageSize) = unat (pages_for z) * 4096"
    using a(2) by (subst unat_mult_no_wrap) auto
qed

text \<open>
  The provider takes a region back. (The heap asks with its lock held, so the provider cannot
  call the heap.)
\<close>

locale page_sink =
  fixes pfree :: "addr \<Rightarrow> uint32 \<Rightarrow> 'a liballoc_scheme \<Rightarrow> 'a liballoc_scheme option"
    and pinv :: "'a liballoc_scheme \<Rightarrow> (addr \<rightharpoonup> nat) \<Rightarrow> bool"
  assumes pinv_local: "pinv s R \<Longrightarrow> liballoc.more s' = liballoc.more s \<Longrightarrow> pinv s' R"
    and pfree_same: "pinv s R \<Longrightarrow> regions_ok R \<Longrightarrow> bit (alloc_lock s) 0 \<Longrightarrow> R p = Some (unat n * 4096) \<Longrightarrow>
       pfree p n s = Some s' \<Longrightarrow> same_heap s s' \<and> pinv s' (R(p := None))"
begin

lemma give_back_ok:
  assumes pi: "pinv s R" and lk: "bit (alloc_lock s) 0" and ok: "heap_but {a} s L R F"
    and a: "a \<in> L" "index (mem s a) = -1" and ln: "lonely (mem s) a" and run: "give_back pfree a s = Some s'"
  shows "\<exists>L' R' F'. heap_ok s' L' R' F' \<and> pinv s' R' \<and> allocated s' L' = allocated s L - {a} \<and>
     (\<forall>b \<in> allocated s L - {a}. req_size (mem s' b) = req_size (mem s b) \<and> real_size (mem s' b) = real_size (mem s b)) \<and>
     bytes s' = bytes s \<and> l_initialized s' = l_initialized s \<and> alloc_lock s' = alloc_lock s"
proof -
  obtain i where i: "size_class (mem s a) = int i" "i < MAXEXP" using size_class_nat by blast
  show ?thesis
  proof (cases "whole (mem s a) \<and> l_completePages s ! i = MAXCOMPLETE")
    case True
    then have w: "whole (mem s a)" and c: "l_completePages s ! i = MAXCOMPLETE" by auto
    have pf: "pfree a (release_pages (real_size (mem s a))) s = Some s'"
      using run give_back_pages [OF ok a(1) i w c] by simp
    have Ra: "R a = Some (unat (release_pages (real_size (mem s a))) * 4096)"
      by (rule release_pages_whole [OF heap_butD(2) [OF ok] a(1) w])
    have s': "same_heap s s'" "pinv s' (R(a := None))" using pfree_same [OF pi blocks_okD(1) [OF heap_butD(2) [OF ok]] lk Ra pf] by auto
    have "heap_ok s' (L - {a}) (R(a := None)) F"
      by (rule drop_region_heap [OF ok a w]) (use s'(1) in \<open>auto simp: same_heap_def\<close>)
    then show ?thesis using s'
      by (intro exI [of _ "L - {a}"] exI [of _ "R(a := None)"] exI [of _ F]) (auto simp: same_heap_def allocated_def)
  next
    case False
    from give_back_list [OF ok a ln i, of pfree] False run obtain
      "heap_ok s' L R (F(i := a # F i))" "allocated s' L = allocated s L - {a}" "kept (allocated s L - {a}) L s s'"
      by auto
    moreover have "pinv s' R" by (rule pinv_local [OF pi]) (use calculation(3) in \<open>simp add: kept_def\<close>)
    ultimately show ?thesis unfolding kept_def by blast
  qed
qed

lemma free_ok:
  assumes pi: "pinv s R" and lk: "alloc_lock s = 0" and ok: "heap_ok s L R F"
    and a: "p - of_nat TAG_SIZE \<in> allocated s L" and run: "kernel_free pfree p s = Some s'"
  shows "\<exists>L' R' F'. pinv s' R' \<and> free_post p s L s' L' R' F'"
proof -
  let ?a = "p - of_nat TAG_SIZE"
  let ?s = "s\<lparr>alloc_lock := 1\<rparr>"
  have ok1: "heap_ok ?s L R F" using ok heap_but_cong [of ?s s] by simp
  have al: "allocated ?s L = allocated s L" by (simp add: allocated_def)
  note B = blocks_facts [OF heap_butD(2) [OF ok], of ?a]
  have aL: "?a \<in> L" using a by (simp add: allocated_def)
  have p: "p \<noteq> NULL" using payload_addr(2) [OF heap_butD(2) [OF ok] aL] by simp
  obtain l s1 s2 L2 F2 where m: "melt_left_loop ?a ?s = Some (l, s1)" "absorb_right_loop l s1 = Some (l, s2)"
     "heap_but {l} s2 L2 R F2" "l \<in> L2" "index (mem s2 l) = -1" "lonely (mem s2) l"
     "allocated s2 L2 - {l} = allocated s L - {?a}" "kept (allocated s L - {?a}) L ?s s2"
    using melt_ok [OF ok1, of ?a] a al by auto
  have "pinv s2 R" by (rule pinv_local [OF pi]) (use m(8) in \<open>simp add: kept_def\<close>)
  moreover have "bit (alloc_lock s2) 0" using m(8) by (simp add: kept_def)
  moreover obtain s3 where g: "give_back pfree l s2 = Some s3" "s' = liballoc_unlock s3"
    using run p lk B(1,2) aL m(1,2)
    by (auto simp: kernel_free_def liballoc_lock_def rd_def Let_def)
  ultimately obtain L' R' F' where r: "heap_ok s3 L' R' F'" "pinv s3 R'" "allocated s3 L' = allocated s2 L2 - {l}"
     "\<forall>b \<in> allocated s2 L2 - {l}. req_size (mem s3 b) = req_size (mem s2 b) \<and> real_size (mem s3 b) = real_size (mem s2 b)"
     "bytes s3 = bytes s2" "l_initialized s3 = l_initialized s2"
    using give_back_ok [OF _ _ m(3-6)] by blast
  have "heap_ok s' L' R' F'" using r(1) heap_but_cong [of s' s3] by (simp add: g liballoc_unlock_def)
  moreover have "pinv s' R'" by (rule pinv_local [OF r(2)]) (simp add: g liballoc_unlock_def)
  ultimately show ?thesis using r m(7,8)
    by (intro exI [of _ L'] exI [of _ R'] exI [of _ F'])
      (auto simp: free_post_def g liballoc_unlock_def allocated_def kept_def)
qed

end

text \<open>The provider that also gives the heap new regions: at least 16 pages, apart from the ones it has.\<close>

locale page_source = page_sink pfree pinv
  for pfree :: "addr \<Rightarrow> uint32 \<Rightarrow> 'a liballoc_scheme \<Rightarrow> 'a liballoc_scheme option"
    and pinv :: "'a liballoc_scheme \<Rightarrow> (addr \<rightharpoonup> nat) \<Rightarrow> bool" +
  fixes palloc :: "uint32 \<Rightarrow> 'a liballoc_scheme \<Rightarrow> (addr \<times> 'a liballoc_scheme) option"
  assumes palloc_law: "pinv s R \<Longrightarrow> regions_ok R \<Longrightarrow> bit (alloc_lock s) 0 \<Longrightarrow> 16 \<le> unat n \<Longrightarrow>
       unat n < 2 ^ 20 \<Longrightarrow> palloc n s = Some (p, s') \<Longrightarrow> same_heap s s' \<and>
       (if p = NULL then pinv s' R
        else R p = None \<and> regions_ok (R(p \<mapsto> unat n * 4096)) \<and> pinv s' (R(p \<mapsto> unat n * 4096)))"
begin

lemma allocate_new_tag_cases:
  assumes pi: "pinv s R" and lk: "bit (alloc_lock s) 0" and ok: "heap_ok s L R F" and z: "unat z \<le> MAX_REQUEST"
    and run: "allocate_new_tag palloc z s = Some (a, s')"
  shows "(a = NULL \<and> heap_ok s' L R F \<and> pinv s' R \<and> same_heap s s') \<or>
     (\<exists>R'. a \<noteq> NULL \<and> a \<notin> L \<and> heap_but {a} s' (insert a L) R' F \<and> pinv s' R' \<and> index (mem s' a) = -1 \<and>
        lonely (mem s') a \<and> 48 + unat z \<le> unat (real_size (mem s' a)) \<and>
        allocated s' (insert a L) = insert a (allocated s L) \<and>
        (\<forall>b. b \<noteq> a \<longrightarrow> mem s' b = mem s b) \<and> bytes s' = bytes s \<and> l_initialized s' = l_initialized s \<and>
        alloc_lock s' = alloc_lock s)"
proof -
  note H = heap_butD [OF ok] and P = pages_for_bounds [OF z]
  obtain p s1 where pa: "palloc (pages_for z) s = Some (p, s1)"
    using run by (auto simp: allocate_new_tag_def Let_def)
  note law = palloc_law [OF pi blocks_okD(1) [OF H(2)] lk P(1,2) pa]
  then have sh: "same_heap s s1" by blast
  show ?thesis
  proof (cases "p = NULL")
    case True
    then have "a = NULL" "s' = s1" using run pa by (auto simp: allocate_new_tag_def Let_def)
    moreover have "pinv s1 R" using law True by simp
    moreover have "heap_ok s1 L R F" using ok heap_but_cong [of s1 s] sh by (simp add: same_heap_def)
    ultimately show ?thesis using sh by simp
  next
    case False
    let ?t = "\<lparr>magic = LIBALLOC_MAGIC, req_size = z, real_size = pages_for z * l_pageSize, index = -1,
                split_left = NULL, split_right = NULL, next_tag = NULL, prev_tag = NULL\<rparr>"
    let ?R = "R(p \<mapsto> unat (pages_for z) * 4096)"
    have e: "a = p" "s' = s1\<lparr>mem := (mem s1)(p := ?t)\<rparr>"
      using run pa False by (auto simp: allocate_new_tag_def Let_def wr_def)
    have fr: "R p = None" "regions_ok ?R" "pinv s1 ?R"
      using law False by auto
    have m: "mem s' = (mem s)(p := ?t)" using e sh by (simp add: same_heap_def)
    have bo: "blocks_ok (mem s') (insert p L) ?R" and pL: "p \<notin> L"
      using fresh_block_ok [OF H(2) fr(2,1), of ?t] P(3) m by auto
    have pF: "p \<notin> set (F j)" if "j < MAXEXP" for j using lists_okD(2) [OF H(1) that] pL by auto
    have "lists_ok s' (insert p L) F"
    proof (rule lists_okI)
      fix j assume j: "j < MAXEXP"
      show "dll (mem s') NULL (F j) NULL" using lists_okD(3) [OF H(1) j] pF [OF j] m by simp
    next
      fix j d assume "j < MAXEXP" "d \<in> set (F j)"
      then show "index (mem s' d) = int j" using lists_okD(5) [OF H(1)] pF m by auto
    next
      fix d assume "d \<in> insert p L" "\<And>j. j < MAXEXP \<Longrightarrow> d \<notin> set (F j)"
      then show "index (mem s' d) = -1 \<and> next_tag (mem s' d) = NULL \<and> prev_tag (mem s' d) = NULL"
        using lists_ok_rest [OF H(1), of d] m by auto
    qed (use H(1) lists_okD [OF H(1)] False sh e in \<open>auto simp: lists_ok_def same_heap_def\<close>)
    moreover have "class_ok (mem s') F" using H(3) pF m by (auto simp: class_ok_def)
    moreover have "counts_ok s' F"
    proof -
      have "length (filter (\<lambda>d. whole (mem s' d)) (F i)) = length (filter (\<lambda>d. whole (mem s d)) (F i))" if "i < MAXEXP" for i
        using pF [OF that] m by (intro filter_length_cong) auto
      moreover have "l_completePages s' = l_completePages s" using sh e by (simp add: same_heap_def)
      ultimately show ?thesis using H(4) by (simp add: counts_ok_def)
    qed
    moreover have "used_ok (mem s') (insert p L - {p})" using H(5) pL m by (auto simp: used_ok_def)
    moreover have "coalesced (mem s') (insert p L)" using H(6) pL m by (auto simp: coalesced_def)
    ultimately have "heap_but {p} s' (insert p L) ?R F" using bo by (simp add: heap_but_def)
    moreover have "pinv s' ?R" by (rule pinv_local [OF fr(3)]) (simp add: e)
    moreover have "allocated s' (insert p L) = insert p (allocated s L)" using pL m by (auto simp: allocated_def)
    ultimately show ?thesis using False pL P(3,4) sh e(1) e(2) m
      by (intro disjI2 exI [of _ ?R]) (simp add: lonely_def same_heap_def)
  qed
qed

lemma take_tag_ok:
  assumes pi: "pinv s R" and lk: "bit (alloc_lock s) 0" and ok: "heap_ok s L R F"
    and sz: "unat sz \<le> MAX_REQUEST" and run: "take_tag palloc sz s = Some (a, s')"
  shows "(a = NULL \<and> heap_ok s' L R F \<and> pinv s' R \<and> same_heap s s') \<or>
     (\<exists>L' R' F'. a \<noteq> NULL \<and> ready a sz s L s' L' R' F' \<and> pinv s' R')"
proof -
  note H = heap_butD [OF ok]
  obtain i where i: "int i = min_index (getexp (ucast sz) + MODE)" "i < MAXEXP"
    using min_index_range [of "ucast sz"]
    by (auto simp: MODE_def MAXEXP_def intro!: that [of "nat (min_index (getexp (ucast sz)))"])
  note F = lists_okD [OF H(1) i(2)]
  have "NULL \<notin> set (F i)" using F(2) H(1) by (auto simp: lists_ok_def)
  from find_tag_ok [OF F(3) this, of sz] obtain b where b: "find_tag sz (l_freePages s ! i) s = Some b"
      "b \<noteq> NULL \<Longrightarrow> b \<in> set (F i) \<and> enough_space (mem s b) sz"
    unfolding F(4) by (auto split: if_splits)
  have tk: "take_tag palloc sz s =
     (if b = NULL then allocate_new_tag palloc (ucast sz) s
      else do { s \<leftarrow> remove_tag b s; t \<leftarrow> rd b s;
          s \<leftarrow> (if split_left t = NULL \<and> split_right t = NULL
               then add_completePages (min_index (getexp (ucast sz) + MODE)) (-1) s else Some s);
          Some (b, s) })"
  proof -
    have "get_freePages (min_index (getexp (ucast sz) + MODE)) s = Some (l_freePages s ! i)"
      using i(2) by (simp add: get_freePages_def i(1) [symmetric])
    then show ?thesis using b(1) by (simp add: take_tag_def)
  qed
  show ?thesis
  proof (cases "b = NULL")
    case True
    have z: "unat (ucast sz :: uint32) = unat sz"
      using sz by (intro unat_ucast_64_32_small) (simp add: MAX_REQUEST_def TAG_SIZE_def)
    have an: "allocate_new_tag palloc (ucast sz) s = Some (a, s')" using run tk True by simp
    have z': "unat (ucast sz :: uint32) \<le> MAX_REQUEST" using sz z by simp
    from allocate_new_tag_cases [OF pi lk ok z' an] show ?thesis
    proof (elim disjE exE conjE)
      fix R'
      assume n: "a \<noteq> NULL" "a \<notin> L" "heap_but {a} s' (insert a L) R' F" "pinv s' R'" "index (mem s' a) = -1"
        "lonely (mem s') a" "48 + unat (ucast sz :: uint32) \<le> unat (real_size (mem s' a))"
        "allocated s' (insert a L) = insert a (allocated s L)" "\<forall>b. b \<noteq> a \<longrightarrow> mem s' b = mem s b"
        "bytes s' = bytes s" "l_initialized s' = l_initialized s" "alloc_lock s' = alloc_lock s"
      have "ready a sz s L s' (insert a L) R' F"
        unfolding ready_def using n z by (auto simp: allocated_def)
      then show ?thesis using n(1,4) by blast
    qed simp_all
  next
    case False
    then have bF: "b \<in> set (F i)" and es: "enough_space (mem s b) sz" using b(2) by auto
    have bL: "b \<in> L" using F(2) bF by auto
    obtain s1 F' where t: "heap_but {b} s1 L R F'" "index (mem s1 b) = -1" "lonely (mem s1) b" "b \<notin> allocated s L"
        "allocated s1 L = insert b (allocated s L)" "kept (allocated s L) L s s1" "real_size (mem s1 b) = real_size (mem s b)"
        "take_tag palloc sz s = Some (b, s1)"
      using take_listed_tag [OF ok i bF] tk False by auto
    have ab: "a = b" "s' = s1" using t(8) run by auto
    have "unat sz < 2 ^ 64 - 48" using sz by (simp add: MAX_REQUEST_def TAG_SIZE_def)
    then have "48 + unat sz \<le> unat (real_size (mem s b))"
      using enough_space_unat [of "mem s b" sz] es blocks_facts(3) [OF H(2) bL] by simp
    then have "ready a sz s L s' L R F'"
      unfolding ready_def using t ab bL by (auto simp: kept_def)
    moreover have "pinv s' R" by (rule pinv_local [OF pi]) (use t(6) ab in \<open>simp add: kept_def\<close>)
    ultimately show ?thesis using False ab by blast
  qed
qed

text \<open>\<open>kernel_malloc\<close> returns whenever the one call it may make of the provider returns.\<close>

lemma malloc_returns:
  assumes pi: "pinv s R" and lk: "alloc_lock s = 0" and ok: "heap_ok (liballoc_init s) L R F"
    and sz: "unat sz \<le> MAX_REQUEST"
    and prov: "palloc (pages_for (ucast sz)) (liballoc_init (s\<lparr>alloc_lock := 1\<rparr>)) \<noteq> None"
  shows "\<exists>p s'. kernel_malloc palloc sz s = Some (p, s')"
proof -
  define s1 where "s1 = liballoc_init (s\<lparr>alloc_lock := 1\<rparr>)"
  have ok1: "heap_ok s1 L R F"
    using ok heap_but_cong [of s1 "liballoc_init s"] by (simp add: s1_def liballoc_init_def split: if_splits)
  have m1: "liballoc.more s1 = liballoc.more s" "alloc_lock s1 = 1" "l_initialized s1 \<noteq> 0"
    by (auto simp: s1_def liballoc_init_def)
  have pi1: "pinv s1 R" by (rule pinv_local [OF pi m1(1)])
  have "\<exists>a s2. take_tag palloc sz s1 = Some (a, s2)" by (rule take_tag_returns [OF ok1, of palloc, OF prov [folded s1_def]])
  then obtain a s2 where tk: "take_tag palloc sz s1 = Some (a, s2)" by blast
  have lk1: "bit (alloc_lock s1) 0" by (simp add: m1)
  have "\<exists>s3. carve_tag a sz s2 = Some s3" if an: "a \<noteq> NULL"
    using take_tag_ok [OF pi1 lk1 ok1 sz tk] an ready_carve [OF _ m1(3)] by metis
  then show ?thesis using tk lk
    by (cases "a = NULL") (auto simp: kernel_malloc_def liballoc_lock_def s1_def [symmetric] Let_def)
qed

lemma malloc_ok:
  assumes pi: "pinv s R" and lk: "alloc_lock s = 0" and ok: "heap_ok (liballoc_init s) L R F"
    and sz: "unat sz \<le> MAX_REQUEST" and run: "kernel_malloc palloc sz s = Some (p, s')"
  shows "\<exists>L' R' F'. pinv s' R' \<and> malloc_post p sz s L s' L' R' F'"
proof -
  define s1 where "s1 = liballoc_init (s\<lparr>alloc_lock := 1\<rparr>)"
  have m1: "mem s1 = mem s" "alloc_lock s1 = 1" "bytes s1 = bytes s" "liballoc.more s1 = liballoc.more s"
    "l_initialized s1 \<noteq> 0" by (auto simp: s1_def liballoc_init_def)
  have ok1: "heap_ok s1 L R F"
    using ok heap_but_cong [of s1 "liballoc_init s"] by (simp add: s1_def liballoc_init_def split: if_splits)
  have pi1: "pinv s1 R" by (rule pinv_local [OF pi m1(4)])
  have lk1: "bit (alloc_lock s1) 0" by (simp add: m1)
  have al1: "allocated s1 L = allocated s L" by (simp add: allocated_def m1)
  obtain a s2 where tk: "take_tag palloc sz s1 = Some (a, s2)"
    and rest: "(if a = NULL then Some (NULL, liballoc_unlock s2)
       else do { s \<leftarrow> carve_tag a sz s2; Some (a + of_nat TAG_SIZE, liballoc_unlock s) }) = Some (p, s')"
    using run lk unfolding kernel_malloc_def liballoc_lock_def s1_def by (auto simp: Let_def)
  from take_tag_ok [OF pi1 lk1 ok1 sz tk] show ?thesis
  proof (elim disjE exE conjE)
    assume n: "a = NULL" "heap_ok s2 L R F" "pinv s2 R" "same_heap s1 s2"
    then have e: "p = NULL" "s' = liballoc_unlock s2" using rest by auto
    have "heap_ok s' L R F" using n(2) heap_but_cong [of s' s2] by (simp add: e liballoc_unlock_def)
    moreover have "pinv s' R" by (rule pinv_local [OF n(3)]) (simp add: e liballoc_unlock_def)
    ultimately show ?thesis using n(4) m1 al1
      by (intro exI [of _ L] exI [of _ R] exI [of _ F])
        (simp add: malloc_post_def e liballoc_unlock_def same_heap_def allocated_def)
  next
    fix L2 R2 F2
    assume an: "a \<noteq> NULL" and rdy: "ready a sz s1 L s2 L2 R2 F2" and pi2: "pinv s2 R2"
    obtain s3 L3 F3 where f: "carve_tag a sz s2 = Some s3" "malloc_post (a + of_nat TAG_SIZE) sz s1 L (liballoc_unlock s3) L3 R2 F3"
       "liballoc.more s3 = liballoc.more s2"
      using ready_carve [OF rdy] m1 by auto
    have e: "p = a + of_nat TAG_SIZE" "s' = liballoc_unlock s3" using rest an f(1) by auto
    have "pinv s' R2" by (rule pinv_local [OF pi2]) (simp add: e f liballoc_unlock_def)
    moreover have "malloc_post p sz s L s' L3 R2 F3"
      using malloc_post_start [OF f(2)] m1 by (simp add: e(1) e(2))
    ultimately show ?thesis by blast
  qed
qed

text \<open>A provider that always has pages: \<open>kernel_malloc\<close> never returns \<open>NULL\<close>.\<close>

lemma allocate_new_tag_null:
  assumes "allocate_new_tag palloc z s = Some (NULL, s')"
  shows "palloc (pages_for z) s = Some (NULL, s')"
proof (cases "palloc (pages_for z) s")
  case (Some r)
  then show ?thesis using assms
    by (cases "fst r = NULL"; cases r) (auto simp: allocate_new_tag_def Let_def bind_eq_Some_conv)
qed (use assms in \<open>simp add: allocate_new_tag_def Let_def\<close>)

lemma take_tag_null:
  assumes "take_tag palloc sz s = Some (NULL, s')"
  shows "palloc (pages_for (ucast sz)) s = Some (NULL, s')"
proof -
  obtain tag where "(if tag = NULL then allocate_new_tag palloc (ucast sz) s
     else do {
       s \<leftarrow> remove_tag tag s;
       t \<leftarrow> rd tag s;
       s \<leftarrow> (if split_left t = NULL \<and> split_right t = NULL
            then add_completePages (min_index (getexp (ucast sz) + MODE)) (-1) s else Some s);
       Some (tag, s) }) = Some (NULL, s')"
    using assms unfolding take_tag_def Let_def bind_eq_Some_conv by blast
  then show ?thesis by (cases "tag = NULL") (auto simp: bind_eq_Some_conv allocate_new_tag_null)
qed

lemma malloc_not_null:
  assumes pi: "pinv s R" and lk: "alloc_lock s = 0" and ok: "heap_ok (liballoc_init s) L R F"
    and sz: "unat sz \<le> MAX_REQUEST" and run: "kernel_malloc palloc sz s = Some (p, s')"
    and always: "\<And>n t t'. pinv t R \<Longrightarrow> regions_ok R \<Longrightarrow> bit (alloc_lock t) 0 \<Longrightarrow> 16 \<le> unat n \<Longrightarrow> unat n < 2 ^ 20 \<Longrightarrow>
       palloc n t \<noteq> Some (NULL, t')"
  shows "p \<noteq> NULL"
proof -
  define s1 where "s1 = liballoc_init (s\<lparr>alloc_lock := 1\<rparr>)"
  have m1: "alloc_lock s1 = 1" "liballoc.more s1 = liballoc.more s" by (auto simp: s1_def liballoc_init_def)
  have ok1: "heap_ok s1 L R F"
    using ok heap_but_cong [of s1 "liballoc_init s"] by (simp add: s1_def liballoc_init_def split: if_splits)
  have lk1: "bit (alloc_lock s1) 0" by (simp add: m1)
  obtain a s2 where tk: "take_tag palloc sz s1 = Some (a, s2)"
    and rest: "(if a = NULL then Some (NULL, liballoc_unlock s2)
       else do { s \<leftarrow> carve_tag a sz s2; Some (a + of_nat TAG_SIZE, liballoc_unlock s) }) = Some (p, s')"
    using run lk unfolding kernel_malloc_def liballoc_lock_def s1_def by (auto simp: Let_def)
  have pi1: "pinv s1 R" by (rule pinv_local [OF pi m1(2)])
  have "unat (ucast sz :: uint32) = unat sz" using sz by (intro unat_ucast_64_32_small) (simp add: MAX_REQUEST_def TAG_SIZE_def)
  note P = pages_for_bounds(1,2) [of "ucast sz", unfolded this, OF sz]
  have a: "a \<noteq> NULL"
    using tk take_tag_null [of sz s1 s2] always [OF pi1 blocks_okD(1) [OF heap_butD(2) [OF ok1]] lk1 P] by auto
  from take_tag_ok [OF pi1 lk1 ok1 sz tk] a obtain L' R' F' where "ready a sz s1 L s2 L' R' F'" by blast
  then have "heap_but {a} s2 L' R' F'" "a \<in> L'" by (auto simp: ready_def)
  from payload_addr(2) [OF heap_butD(2) [OF this(1)] this(2)] show ?thesis using rest a by (auto split: bind_splits)
qed

end

section \<open>What the operations leave of the counts and of the rest of the state\<close>

lemma upd_counts: "upd p f s = Some t \<Longrightarrow> l_completePages t = l_completePages s \<and> liballoc.more t = liballoc.more s"
  by (auto simp: upd_def split: if_splits)

lemma set_counts: "set_freePages i p s = Some t \<Longrightarrow> l_completePages t = l_completePages s \<and> liballoc.more t = liballoc.more s"
  by (auto simp: set_freePages_def split: if_splits)

lemma remove_counts: "remove_tag tag s = Some t \<Longrightarrow> l_completePages t = l_completePages s \<and> liballoc.more t = liballoc.more s"
  unfolding remove_tag_def by (auto simp: bind_eq_Some_conv split: if_splits prod.splits dest!: upd_counts set_counts)

lemma insert_counts: "insert_tag tag i s = Some t \<Longrightarrow> l_completePages t = l_completePages s \<and> liballoc.more t = liballoc.more s"
  unfolding insert_tag_def Let_def by (auto simp: bind_eq_Some_conv split: if_splits prod.splits dest!: upd_counts set_counts)

lemma split_counts: "split_tag tag s = Some (a, t) \<Longrightarrow> l_completePages t = l_completePages s \<and> liballoc.more t = liballoc.more s"
  unfolding split_tag_def Let_def by (auto simp: bind_eq_Some_conv split: if_splits prod.splits dest!: upd_counts insert_counts)

lemma carve_counts: "carve_tag tag sz s = Some t \<Longrightarrow> l_completePages t = l_completePages s \<and> liballoc.more t = liballoc.more s"
  unfolding carve_tag_def Let_def by (auto simp: bind_eq_Some_conv split: if_splits prod.splits dest!: upd_counts split_counts)

lemma dec_le: "xs[n := xs ! n - 1] ! i \<le> (xs ! i :: int)"
  by (cases "n < length xs"; cases "i = n") (auto simp: list_update_beyond)

lemma take_counts:
  assumes run: "take_tag palloc sz s = Some (a, t)"
    and pal: "\<And>p u. palloc (pages_for (ucast sz)) s = Some (p, u) \<Longrightarrow> l_completePages u = l_completePages s"
  shows "l_completePages t ! i \<le> l_completePages s ! i"
proof -
  let ?idx = "min_index (getexp (ucast sz) + MODE)"
  obtain head tag where h: "get_freePages ?idx s = Some head" "find_tag sz head s = Some tag"
    using run by (auto simp: take_tag_def Let_def bind_eq_Some_conv)
  show ?thesis
  proof (cases "tag = NULL")
    case True
    then have "allocate_new_tag palloc (ucast sz) s = Some (a, t)" using run h by (simp add: take_tag_def Let_def)
    then show ?thesis using pal by (auto simp: allocate_new_tag_def Let_def wr_def bind_eq_Some_conv split: if_splits prod.splits)
  next
    case False
    then obtain u v where u: "remove_tag tag s = Some u" "rd tag u = Some v"
        "(if split_left v = NULL \<and> split_right v = NULL then add_completePages ?idx (-1) u else Some u) = Some t"
      using run h by (auto simp: take_tag_def Let_def bind_eq_Some_conv)
    have "l_completePages t ! i \<le> l_completePages u ! i"
      using u(3) by (auto simp: add_completePages_def intro: dec_le split: if_splits)
    then show ?thesis using remove_counts [OF u(1)] by simp
  qed
qed

lemma take_more:
  assumes run: "take_tag palloc sz s = Some (a, t)"
  shows "liballoc.more t = liballoc.more s \<or>
    (\<exists>q u. palloc (pages_for (ucast sz)) s = Some (q, u) \<and> liballoc.more t = liballoc.more u)"
proof -
  let ?idx = "min_index (getexp (ucast sz) + MODE)"
  obtain head tag where h: "get_freePages ?idx s = Some head" "find_tag sz head s = Some tag"
    using run by (auto simp: take_tag_def Let_def bind_eq_Some_conv)
  show ?thesis
  proof (cases "tag = NULL")
    case True
    then have "allocate_new_tag palloc (ucast sz) s = Some (a, t)" using run h by (simp add: take_tag_def Let_def)
    then show ?thesis by (auto simp: allocate_new_tag_def Let_def wr_def bind_eq_Some_conv split: if_splits prod.splits)
  next
    case False
    then obtain u v where "remove_tag tag s = Some u" "rd tag u = Some v"
        "(if split_left v = NULL \<and> split_right v = NULL then add_completePages ?idx (-1) u else Some u) = Some t"
      using run h by (auto simp: take_tag_def Let_def bind_eq_Some_conv)
    then show ?thesis using remove_counts by (auto simp: add_completePages_def split: if_splits)
  qed
qed

end
