(* ===== verification/Entry.thy ===== *)
theory Entry
  imports Prelude
begin

text \<open>
  One entry of a paging structure: the class \<open>PaginationEntryInterface\<close> of
  \<open>src/lib/kernel/memory/pagination/PageTable.hh\<close> and the constants of \<open>memory.h\<close>. An entry is
  its 64-bit value; a method that changes it is a function on that value. The enum
  \<open>PAGINATION_LEVEL\<close> and \<open>getEntryTable\<close> of the table classes are here too.
\<close>

section \<open>Constants\<close>

definition MAX_BUFFER_FRAMES :: nat where
  "MAX_BUFFER_FRAMES = 64"

definition PAGE_SIZE :: uint64 where
  "PAGE_SIZE = 0x1000"

definition PAGE_MASK :: uint64 where
  "PAGE_MASK = NOT (PAGE_SIZE - 1)"

definition PAGE_RW :: uint64 where
  "PAGE_RW = push_bit 1 1"

definition PAGE_PRESENT :: uint64 where
  "PAGE_PRESENT = push_bit 0 1"

definition PAGE_USER :: uint64 where
  "PAGE_USER = push_bit 2 1"

definition PAGE_WRITE_THROUGH :: uint64 where
  "PAGE_WRITE_THROUGH = push_bit 3 1"

definition PAGE_CACHE_DISABLED :: uint64 where
  "PAGE_CACHE_DISABLED = push_bit 4 1"

definition PAGE_ACCESSED :: uint64 where
  "PAGE_ACCESSED = push_bit 5 1"

definition PAGE_WRITTEN_IN :: uint64 where
  "PAGE_WRITTEN_IN = push_bit 5 1"

definition PAGE_4MB_SIZED :: uint64 where
  "PAGE_4MB_SIZED = push_bit 7 1"

definition PAGE_GLOBAL :: uint64 where
  "PAGE_GLOBAL = push_bit 8 1"

lemmas flag_defs = PAGE_RW_def PAGE_PRESENT_def PAGE_USER_def PAGE_WRITE_THROUGH_def
  PAGE_CACHE_DISABLED_def PAGE_ACCESSED_def PAGE_WRITTEN_IN_def PAGE_4MB_SIZED_def PAGE_GLOBAL_def

section \<open>Setters\<close>

definition setFlag :: "uint64 \<Rightarrow> bool \<Rightarrow> uint64 \<Rightarrow> uint64" where
  "setFlag flag seted entry =
     (if seted then entry OR flag
      else (let msk = NOT 0; msk = msk XOR flag in entry AND msk))"

definition getAddr :: "uint64 \<Rightarrow> uint64" where
  "getAddr entry = entry AND PAGE_MASK"

definition getValue :: "uint64 \<Rightarrow> uint64" where
  "getValue entry = entry"

definition setAddr :: "uint64 \<Rightarrow> uint64 \<Rightarrow> uint64" where
  "setAddr v entry =
     (let v = v AND PAGE_MASK; entry = entry AND NOT PAGE_MASK in entry OR v)"

definition copy :: "uint64 \<Rightarrow> uint64 \<Rightarrow> uint64" where
  "copy obj entry = obj"

definition copyFlags :: "uint64 \<Rightarrow> uint64 \<Rightarrow> uint64" where
  "copyFlags obj entry = (let ad = getAddr entry; entry = copy obj entry in setAddr ad entry)"

definition setFlags :: "uint16 \<Rightarrow> uint64 \<Rightarrow> uint64" where
  "setFlags flags entry =
     (let flags = flags AND ucast (NOT PAGE_MASK); entry = entry AND PAGE_MASK in entry OR ucast flags)"

definition clearActivityFlag :: "uint64 \<Rightarrow> uint64" where
  "clearActivityFlag entry = setFlag PAGE_WRITTEN_IN False (setFlag PAGE_ACCESSED False entry)"

definition set4MBSized :: "bool \<Rightarrow> uint64 \<Rightarrow> uint64" where
  "set4MBSized v = setFlag PAGE_4MB_SIZED v"

definition setWriteThrough :: "bool \<Rightarrow> uint64 \<Rightarrow> uint64" where
  "setWriteThrough v = setFlag PAGE_WRITE_THROUGH v"

definition setCache :: "bool \<Rightarrow> uint64 \<Rightarrow> uint64" where
  "setCache v = setFlag PAGE_CACHE_DISABLED (\<not> v)"

definition setUserSpace :: "bool \<Rightarrow> uint64 \<Rightarrow> uint64" where
  "setUserSpace v = setFlag PAGE_USER v"

definition setSuperuserSpace :: "bool \<Rightarrow> uint64 \<Rightarrow> uint64" where
  "setSuperuserSpace v = setUserSpace (\<not> v)"

definition setPresent :: "bool \<Rightarrow> uint64 \<Rightarrow> uint64" where
  "setPresent v = setFlag PAGE_PRESENT v"

definition setGlobal :: "bool \<Rightarrow> uint64 \<Rightarrow> uint64" where
  "setGlobal v = setFlag PAGE_GLOBAL v"

definition setWritable :: "bool \<Rightarrow> uint64 \<Rightarrow> uint64" where
  "setWritable v = setFlag PAGE_RW v"

definition clear :: "uint64 \<Rightarrow> uint64" where
  "clear entry = 0"

section \<open>Queries\<close>

definition is4MBSized :: "uint64 \<Rightarrow> bool" where
  "is4MBSized entry \<longleftrightarrow> entry AND PAGE_4MB_SIZED \<noteq> 0"

definition is4KBSized :: "uint64 \<Rightarrow> bool" where
  "is4KBSized entry \<longleftrightarrow> \<not> is4MBSized entry"

definition wasWrittenIn :: "uint64 \<Rightarrow> bool" where
  "wasWrittenIn entry \<longleftrightarrow> entry AND PAGE_WRITTEN_IN \<noteq> 0"

definition wasAccessed :: "uint64 \<Rightarrow> bool" where
  "wasAccessed entry \<longleftrightarrow> entry AND PAGE_ACCESSED \<noteq> 0"

definition isCacheDisabled :: "uint64 \<Rightarrow> bool" where
  "isCacheDisabled entry \<longleftrightarrow> entry AND PAGE_CACHE_DISABLED \<noteq> 0"

definition isCacheEnabled :: "uint64 \<Rightarrow> bool" where
  "isCacheEnabled entry \<longleftrightarrow> \<not> isCacheDisabled entry"

definition isWriteThrough :: "uint64 \<Rightarrow> bool" where
  "isWriteThrough entry \<longleftrightarrow> entry AND PAGE_WRITE_THROUGH \<noteq> 0"

definition isWriteBack :: "uint64 \<Rightarrow> bool" where
  "isWriteBack entry \<longleftrightarrow> \<not> isWriteThrough entry"

definition isUserSpace :: "uint64 \<Rightarrow> bool" where
  "isUserSpace entry \<longleftrightarrow> entry AND PAGE_USER \<noteq> 0"

definition isSupervisorSpace :: "uint64 \<Rightarrow> bool" where
  "isSupervisorSpace entry \<longleftrightarrow> \<not> isUserSpace entry"

definition isWritable :: "uint64 \<Rightarrow> bool" where
  "isWritable entry \<longleftrightarrow> entry AND PAGE_RW \<noteq> 0"

text \<open>The method calls itself, not \<open>isWritable\<close>.\<close>

partial_function (option) isReadOnly :: "uint64 \<Rightarrow> bool option" where
  "isReadOnly entry = do { b \<leftarrow> isReadOnly entry; Some (\<not> b) }"

definition isPresent :: "uint64 \<Rightarrow> bool" where
  "isPresent entry \<longleftrightarrow> entry AND PAGE_PRESENT \<noteq> 0"

lemmas set_defs = set4MBSized_def setWriteThrough_def setCache_def setUserSpace_def
  setSuperuserSpace_def setPresent_def setGlobal_def setWritable_def

lemmas query_defs = is4MBSized_def is4KBSized_def wasWrittenIn_def wasAccessed_def isCacheDisabled_def
  isCacheEnabled_def isWriteThrough_def isWriteBack_def isUserSpace_def isSupervisorSpace_def
  isWritable_def isPresent_def

section \<open>Table classes\<close>

datatype PAGINATION_LEVEL = PAGE | L1 | L2 | L3 | L1_TAB | L2_TAB | L3_TAB | L4_TAB

fun level_code :: "PAGINATION_LEVEL \<Rightarrow> nat" where
  "level_code PAGE = 0"
| "level_code L1 = 1"
| "level_code L2 = 2"
| "level_code L3 = 3"
| "level_code L1_TAB = 4"
| "level_code L2_TAB = 5"
| "level_code L3_TAB = 6"
| "level_code L4_TAB = 7"

text \<open>\<open>getEntryTable\<close> of \<open>L1Table\<close>, \<open>L2Directory\<close> and \<open>L3DirectoryTable\<close>: the address of entry \<open>pos\<close>.\<close>

definition getEntryTable_L1Table :: "uint64 \<Rightarrow> uint16 \<Rightarrow> addr" where
  "getEntryTable_L1Table entry pos = getAddr entry + ucast pos * 8"

definition getEntryTable_L2Directory :: "uint64 \<Rightarrow> uint16 \<Rightarrow> addr" where
  "getEntryTable_L2Directory entry pos = getAddr entry + ucast pos * 8"

definition getEntryTable_L3DirectoryTable :: "uint64 \<Rightarrow> uint16 \<Rightarrow> addr" where
  "getEntryTable_L3DirectoryTable entry pos = getAddr entry + ucast pos * 8"

section \<open>Bits\<close>

lemma PAGE_MASK_mask: "PAGE_MASK = NOT (mask 12)"
  by (simp add: PAGE_MASK_def PAGE_SIZE_def mask_eq_decr_exp)

lemma bit_PAGE_MASK [bit_simps]: "bit PAGE_MASK n \<longleftrightarrow> 12 \<le> n \<and> n < 64"
  by (auto simp: PAGE_MASK_mask bit_simps)

lemma bit_setFlag [bit_simps]:
  "bit (setFlag f v e) n \<longleftrightarrow> (if v then bit e n \<or> bit f n else bit e n \<and> \<not> bit f n)"
  by (auto simp: setFlag_def Let_def bit_simps dest: bit_imp_le_length)

lemma bit_setAddr [bit_simps]: "bit (setAddr v e) n \<longleftrightarrow> (if n < 12 then bit e n else bit v n)"
  by (auto simp: setAddr_def Let_def bit_simps dest: bit_imp_le_length)

lemma bit_getAddr [bit_simps]: "bit (getAddr e) n \<longleftrightarrow> 12 \<le> n \<and> bit e n"
  by (auto simp: getAddr_def bit_simps dest: bit_imp_le_length)

lemma bit_setFlags [bit_simps]: "bit (setFlags fl e) n \<longleftrightarrow> (if n < 12 then bit fl n else bit e n)"
  by (auto simp: setFlags_def Let_def bit_simps dest: bit_imp_le_length)

lemma bit_one_flag: "k < 64 \<Longrightarrow> bit (push_bit k 1 :: uint64) n \<longleftrightarrow> n = k"
  by (auto simp: bit_simps)

lemma bit_flags [bit_simps]:
  "bit PAGE_PRESENT n \<longleftrightarrow> n = 0" "bit PAGE_RW n \<longleftrightarrow> n = 1" "bit PAGE_USER n \<longleftrightarrow> n = 2"
  "bit PAGE_WRITE_THROUGH n \<longleftrightarrow> n = 3" "bit PAGE_CACHE_DISABLED n \<longleftrightarrow> n = 4" "bit PAGE_ACCESSED n \<longleftrightarrow> n = 5"
  "bit PAGE_WRITTEN_IN n \<longleftrightarrow> n = 5" "bit PAGE_4MB_SIZED n \<longleftrightarrow> n = 7" "bit PAGE_GLOBAL n \<longleftrightarrow> n = 8"
  unfolding flag_defs by (rule bit_one_flag, simp)+

lemma isPresent_bit: "isPresent e \<longleftrightarrow> bit e 0"
  using and_push_bit_1 [of 0 e] by (simp add: isPresent_def PAGE_PRESENT_def)

lemma setPresent_bit: "bit (setPresent v e) n \<longleftrightarrow> (if n = 0 then v else bit e n)"
  by (auto simp: setPresent_def bit_simps)

lemma bit_clearActivityFlag [bit_simps]: "bit (clearActivityFlag e) n \<longleftrightarrow> n \<noteq> 5 \<and> bit e n"
  by (auto simp: clearActivityFlag_def bit_simps)

lemma query_bits:
  "isWritable e \<longleftrightarrow> bit e 1" "isUserSpace e \<longleftrightarrow> bit e 2" "isWriteThrough e \<longleftrightarrow> bit e 3"
  "isCacheDisabled e \<longleftrightarrow> bit e 4" "wasAccessed e \<longleftrightarrow> bit e 5" "wasWrittenIn e \<longleftrightarrow> bit e 5" "is4MBSized e \<longleftrightarrow> bit e 7"
  using and_push_bit_1 [of 1 e] and_push_bit_1 [of 2 e] and_push_bit_1 [of 3 e] and_push_bit_1 [of 4 e]
    and_push_bit_1 [of 5 e] and_push_bit_1 [of 7 e]
  by (simp_all add: query_defs flag_defs)

lemma isReadOnly_None: "isReadOnly e = None"
proof -
  have "isReadOnly e = Some b \<Longrightarrow> False" for b
    by (rule isReadOnly.raw_induct [where P = "\<lambda>_ _. False"]) auto
  then show ?thesis by (cases "isReadOnly e") auto
qed

section \<open>The fields of an entry\<close>

lemma getAddr_eq [simp]:
  "getAddr (setAddr v e) = getAddr v" "getAddr (setFlags fl e) = getAddr e"
  "getAddr (getAddr e) = getAddr e" "setAddr v (getAddr e) = getAddr v"
  by (rule bit_word_eqI, simp add: bit_simps)+

lemma getAddr_setters [simp]:
  "getAddr (set4MBSized v e) = getAddr e" "getAddr (setWriteThrough v e) = getAddr e"
  "getAddr (setCache v e) = getAddr e" "getAddr (setUserSpace v e) = getAddr e"
  "getAddr (setSuperuserSpace v e) = getAddr e" "getAddr (setPresent v e) = getAddr e"
  "getAddr (setGlobal v e) = getAddr e" "getAddr (setWritable v e) = getAddr e"
  "getAddr (clearActivityFlag e) = getAddr e"
  unfolding set_defs clearActivityFlag_def
  by (rule bit_word_eqI, auto simp: bit_simps)+

text \<open>
  Address and flags are independent fields: \<open>setAddr\<close> stores the page part of its argument
  and keeps the low twelve bits, \<open>setFlags\<close> stores the low twelve bits of its argument and
  keeps the address, and \<open>copyFlags\<close> takes the flags of the other entry and keeps its own
  address.
\<close>

theorem entry_fields:
  "getAddr (setAddr v e) = v AND PAGE_MASK \<and> setAddr v e AND NOT PAGE_MASK = e AND NOT PAGE_MASK \<and>
   getAddr (setFlags fl e) = getAddr e \<and> setFlags fl e AND NOT PAGE_MASK = ucast fl AND mask 12 \<and>
   getAddr (copyFlags obj e) = getAddr e \<and> copyFlags obj e AND NOT PAGE_MASK = obj AND NOT PAGE_MASK \<and>
   setAddr (getAddr e) (setFlags (ucast e) e') = e"
  by (intro conjI; rule bit_word_eqI) (auto simp: bit_simps copyFlags_def copy_def Let_def)

text \<open>
  Every setter is read back by its own query, and the three that the page table uses leave
  the other queries alone: \<open>setPresent\<close>, \<open>setWritable\<close> and \<open>setUserSpace\<close> commute with each other
  and with every query but their own.
\<close>

theorem entry_setters:
  "isPresent (setPresent v e) = v \<and> isWritable (setWritable v e) = v \<and> isUserSpace (setUserSpace v e) = v \<and>
   isSupervisorSpace (setSuperuserSpace v e) = v \<and> isWriteThrough (setWriteThrough v e) = v \<and>
   isCacheEnabled (setCache v e) = v \<and> is4MBSized (set4MBSized v e) = v \<and>
   isWritable (setPresent v e) = isWritable e \<and> isUserSpace (setPresent v e) = isUserSpace e \<and>
   isPresent (setWritable v e) = isPresent e \<and> isUserSpace (setWritable v e) = isUserSpace e \<and>
   isPresent (setUserSpace v e) = isPresent e \<and> isWritable (setUserSpace v e) = isWritable e \<and>
   setPresent v (setWritable w e) = setWritable w (setPresent v e) \<and>
   getAddr (setPresent v (setWritable w (setUserSpace u e))) = getAddr e"
proof -
  have "setPresent v (setWritable w e) = setWritable w (setPresent v e)"
    by (rule bit_word_eqI) (auto simp: set_defs bit_simps)
  then show ?thesis
    by (simp add: isPresent_bit query_bits isSupervisorSpace_def isCacheEnabled_def set_defs bit_simps)
       (simp add: set_defs [symmetric])
qed

text \<open>
  The two activity flags are one bit (\<open>PAGE_WRITTEN_IN\<close> has the value of \<open>PAGE_ACCESSED\<close>), so
  an entry that was only read counts as written, and an entry the processor marked dirty (bit
  6) but whose accessed bit is clear does not; \<open>clearActivityFlag\<close> leaves the processor's dirty
  bit set.
\<close>

theorem dirty_is_accessed:
  "wasWrittenIn e = wasAccessed e \<and> \<not> wasWrittenIn 0x41 \<and> wasWrittenIn 0x21 \<and>
   bit (clearActivityFlag e) 6 = bit e 6"
  by (simp add: query_bits bit_simps bit_numeral_rec)

text \<open>\<open>isReadOnly\<close> calls itself without end: it returns for no entry.\<close>

theorem isReadOnly_never_returns:
  "isReadOnly e \<noteq> Some b"
  by (simp add: isReadOnly_None)

end
