(* ===== verification/Ports.thy ===== *)
theory Ports
  imports Prelude
begin

text \<open>
  The port instructions of \<open>src/asm/funcs/global/extra_utils.asm\<close>. What the kernel writes is
  recorded in order; what it reads comes from the device, a function of everything written so
  far. The devices themselves (the two 8259 interrupt controllers and the 8254 timer) are
  modelled as their data sheets document them, to say what a sequence of writes achieves.
\<close>

record ports =
  outs :: "(uint16 \<times> uint8) list"  \<comment> \<open>oldest first\<close>

definition outb :: "uint16 \<Rightarrow> uint8 \<Rightarrow> 'a ports_scheme \<Rightarrow> 'a ports_scheme" where
  "outb port v s = s\<lparr>outs := outs s @ [(port, v)]\<rparr>"

definition inb :: "((uint16 \<times> uint8) list \<Rightarrow> uint16 \<Rightarrow> uint8) \<Rightarrow> uint16 \<Rightarrow> 'a ports_scheme \<Rightarrow> uint8" where
  "inb dev port s = dev (outs s) port"

lemma outs_outb [simp]: "outs (outb p v s) = outs s @ [(p, v)]"
  by (simp add: outb_def)

lemma more_outb [simp]: "ports.more (outb p v s) = ports.more s"
  by (simp add: outb_def)

section \<open>The 8259 interrupt controller\<close>

datatype pic_phase = Ready | WaitICW2 | WaitICW3 | WaitICW4

record pic =
  phase :: pic_phase
  wants_icw4 :: bool
  vector_base :: uint8
  cascade :: uint8
  mode8086 :: bool
  irq_mask :: uint8

definition pic_command :: "uint8 \<Rightarrow> pic \<Rightarrow> pic" where
  "pic_command v c =
     (if bit v 4 then c\<lparr>phase := WaitICW2, wants_icw4 := bit v 0, irq_mask := 0\<rparr> else c)"

definition pic_data :: "uint8 \<Rightarrow> pic \<Rightarrow> pic" where
  "pic_data v c = (case phase c of
     Ready \<Rightarrow> c\<lparr>irq_mask := v\<rparr>
   | WaitICW2 \<Rightarrow> c\<lparr>vector_base := v AND 0xf8, phase := WaitICW3\<rparr>
   | WaitICW3 \<Rightarrow> c\<lparr>cascade := v, phase := (if wants_icw4 c then WaitICW4 else Ready)\<rparr>
   | WaitICW4 \<Rightarrow> c\<lparr>mode8086 := bit v 0, phase := Ready\<rparr>)"

definition pics_write :: "uint16 \<times> uint8 \<Rightarrow> pic \<times> pic \<Rightarrow> pic \<times> pic" where
  "pics_write w ms = (case w of (p, v) \<Rightarrow>
     (if p = 0x20 then (pic_command v (fst ms), snd ms)
      else if p = 0x21 then (pic_data v (fst ms), snd ms)
      else if p = 0xa0 then (fst ms, pic_command v (snd ms))
      else if p = 0xa1 then (fst ms, pic_data v (snd ms))
      else ms))"

text \<open>Vector of a request line of either controller.\<close>

definition irq_vector :: "pic \<times> pic \<Rightarrow> nat \<Rightarrow> nat" where
  "irq_vector ms i = (if i < 8 then unat (vector_base (fst ms)) + i else unat (vector_base (snd ms)) + (i - 8))"

section \<open>Channel 0 of the 8254 timer\<close>

record pit =
  lohi :: bool
  got_low :: "uint8 option"
  reload :: "uint16 option"

definition pit_write :: "uint16 \<times> uint8 \<Rightarrow> pit \<Rightarrow> pit" where
  "pit_write w t = (case w of (p, v) \<Rightarrow>
     (if p = 0x43 then (if drop_bit 6 v = 0 then t\<lparr>lohi := drop_bit 4 v AND 3 = 3, got_low := None\<rparr> else t)
      else if p = 0x40 \<and> lohi t then
        (case got_low t of None \<Rightarrow> t\<lparr>got_low := Some v\<rparr>
         | Some l \<Rightarrow> t\<lparr>got_low := None, reload := Some (ucast l + push_bit 8 (ucast v))\<rparr>)
      else t))"

end
