(* ===== verification/Gdt.thy ===== *)
theory Gdt
  imports Prelude
begin

text \<open>
  The global descriptor table: class \<open>GDT\<close> of \<open>src/lib/kernel/memory/gdt/\<close>. The table object is
  a record of its 16 entries, the count \<open>size\<close> and the two fields of the \<open>lgdt\<close> operand. Nothing
  checks that there is room: entry 16 lies over the byte \<open>size\<close>, which follows the array, and the
  seven bytes that pad the object, and the next ones lie behind the object, in the other members of the
  \<open>KernelController\<close> that holds it. Both writes are modelled; the bytes of padding are not.
\<close>

section \<open>The code\<close>

definition BIT_ESCRITA :: uint64 where "BIT_ESCRITA = push_bit 41 1"
definition BIT_EXECUTAVEL :: uint64 where "BIT_EXECUTAVEL = push_bit 43 1"
definition BIT_PRESENTE :: uint64 where "BIT_PRESENTE = push_bit 47 1"
definition BIT_GRANULARIDADE :: uint64 where "BIT_GRANULARIDADE = push_bit 55 1"
definition BIT_PRIVILEGIO_KERNEL :: uint64 where "BIT_PRIVILEGIO_KERNEL = 0"
definition BIT_PRIVILEGIO_USER :: uint64 where "BIT_PRIVILEGIO_USER = push_bit 45 3"

definition BIT_SEGMENTO_DADOS :: uint64 where
  "BIT_SEGMENTO_DADOS = push_bit 44 1 OR BIT_PRESENTE OR BIT_ESCRITA OR BIT_GRANULARIDADE"

definition BIT_SEGMENTO_CODIGO :: uint64 where
  "BIT_SEGMENTO_CODIGO = push_bit 44 1 OR BIT_PRESENTE OR BIT_EXECUTAVEL OR BIT_GRANULARIDADE"

definition FLAG_64_BITS :: uint64 where "FLAG_64_BITS = push_bit 53 1"

record GDT =
  gdt_size :: uint16       \<comment> \<open>\<open>gdt.size\<close>, the limit \<open>lgdt\<close> loads\<close>
  gdt_vector :: bool       \<comment> \<open>\<open>gdt.vector\<close> points to \<open>entries\<close>\<close>
  entries :: "uint64 list"
  num_entries :: uint8     \<comment> \<open>field \<open>size\<close>\<close>
  behind :: "nat \<Rightarrow> uint64"  \<comment> \<open>the memory from the end of the object on, by words\<close>

text \<open>
  The write \<open>gdt.vector[i].entry = entry\<close>. The count is an \<open>unsigned char\<close>, which may alias any object, and
  \<open>vector\<close> is a pointer: the code reads \<open>size\<close> again after it.
\<close>

definition put_entry :: "nat \<Rightarrow> uint64 \<Rightarrow> GDT \<Rightarrow> GDT" where
  "put_entry i e g =
     (if i < 16 then g\<lparr>entries := (entries g)[i := e]\<rparr>
      else if i = 16 then g\<lparr>num_entries := ucast e\<rparr>
      else g\<lparr>behind := (behind g)(i - 17 := e)\<rparr>)"

text \<open>Before \<open>setup\<close> has run, \<open>vector\<close> is a null pointer; the write through it is \<open>None\<close>.\<close>

definition addEntry :: "uint64 \<Rightarrow> GDT \<Rightarrow> (uint32 \<times> GDT) option" where
  "addEntry entry g =
     (if gdt_vector g
      then let g = put_entry (unat (num_entries g)) entry g;
               g = g\<lparr>gdt_size := (ucast (num_entries g) + 1) * 8 - 1\<rparr>
           in Some (ucast (num_entries g), g\<lparr>num_entries := num_entries g + 1\<rparr>)
      else None)"

definition setup_gdt :: "GDT \<Rightarrow> GDT option" where
  "setup_gdt g = do {
     let g = g\<lparr>gdt_vector := True, gdt_size := 0, num_entries := 0\<rparr>;
     (_, g) \<leftarrow> addEntry 0 g;
     Some g }"

text \<open>
  The first two terms of the sum are \<open>uint32\<close>: \<open>(base & 0x00ffffff) << 16\<close> is cut to 32 bits
  before the wider terms are added.
\<close>

definition gdt_descriptor :: "uint32 \<Rightarrow> uint32 \<Rightarrow> uint16 \<Rightarrow> uint8 \<Rightarrow> uint64" where
  "gdt_descriptor base limit acess flags =
     ucast ((limit AND 0x0ffff) + push_bit 16 (base AND 0x00ffffff)) +
     push_bit 40 (ucast acess) + push_bit 32 (ucast limit AND 0xf0000) +
     push_bit 52 (ucast flags AND 0x0f) + push_bit 32 (ucast base AND 0xff000000)"

definition addEntryGDT :: "uint32 \<Rightarrow> uint32 \<Rightarrow> uint16 \<Rightarrow> uint8 \<Rightarrow> GDT \<Rightarrow> (uint32 \<times> GDT) option" where
  "addEntryGDT base limit acess flags g = addEntry (gdt_descriptor base limit acess flags) g"

definition setupGDT :: "GDT \<Rightarrow> GDT option" where
  "setupGDT g = do {
     g \<leftarrow> setup_gdt g;
     (_, g) \<leftarrow> addEntry (BIT_SEGMENTO_CODIGO OR BIT_PRIVILEGIO_KERNEL OR FLAG_64_BITS) g;
     (_, g) \<leftarrow> addEntry (BIT_SEGMENTO_DADOS OR BIT_PRIVILEGIO_KERNEL) g;
     (_, g) \<leftarrow> addEntry (BIT_SEGMENTO_CODIGO OR BIT_PRIVILEGIO_USER OR FLAG_64_BITS) g;
     (_, g) \<leftarrow> addEntry (BIT_SEGMENTO_DADOS OR BIT_PRIVILEGIO_USER) g;
     Some g }"

section \<open>Reading a descriptor as the processor does\<close>

record segment =
  seg_base :: uint32
  seg_limit :: uint32
  seg_present :: bool
  seg_dpl :: nat
  seg_code_data :: bool
  seg_executable :: bool
  seg_writable :: bool
  seg_long :: bool
  seg_pages :: bool

definition decode_segment :: "uint64 \<Rightarrow> segment" where
  "decode_segment e = \<lparr>
     seg_base = ucast (drop_bit 16 e AND mask 24) OR push_bit 24 (ucast (drop_bit 56 e)),
     seg_limit = ucast (e AND mask 16) OR ucast (drop_bit 32 e AND 0xf0000),
     seg_present = bit e 47, seg_dpl = unat (drop_bit 45 e AND mask 2), seg_code_data = bit e 44,
     seg_executable = bit e 43, seg_writable = bit e 41, seg_long = bit e 53, seg_pages = bit e 55\<rparr>"

text \<open>The invariant of the table: room for 16, and the limit covers exactly the entries added.\<close>

definition gdt_ok :: "GDT \<Rightarrow> bool" where
  "gdt_ok g \<longleftrightarrow> length (entries g) = 16 \<and> gdt_vector g \<and> 0 < unat (num_entries g) \<and>
     unat (num_entries g) \<le> 16 \<and> unat (gdt_size g) + 1 = 8 * unat (num_entries g) \<and> entries g ! 0 = 0"

section \<open>Properties\<close>

lemma gdt_limit: "unat ((ucast n + 1) * 8 - 1 :: uint16) = 8 * unat (n :: uint8) + 7"
proof -
  have "unat n < 256" using unsigned_less [of n] by simp
  moreover have "unat ((ucast n + 1) * 8 - 1 :: uint16) = unat (of_nat (8 * unat n + 7) :: uint16)"
    by (rule arg_cong [of _ _ unat]) (simp add: algebra_simps)
  ultimately show ?thesis by (simp add: unat_of_nat del: of_nat_add of_nat_mult)
qed

text \<open>With room for it, an entry goes to the next index of the array.\<close>

lemma addEntry_room:
  assumes "gdt_vector g" "unat (num_entries g) < 16"
  shows "\<exists>i g'. addEntry e g = Some (i, g') \<and> unat i = unat (num_entries g) \<and> gdt_vector g' \<and> behind g' = behind g \<and>
    entries g' = (entries g)[unat (num_entries g) := e] \<and> unat (num_entries g') = unat (num_entries g) + 1 \<and>
    unat (gdt_size g') = 8 * unat (num_entries g) + 7"
proof -
  have "unat (num_entries g + 1) = unat (num_entries g) + 1" using assms(2) by (simp add: unat_add_no_wrap)
  then show ?thesis using assms gdt_limit [of "num_entries g"] by (simp add: addEntry_def put_entry_def Let_def unat_ucast_up)
qed

text \<open>
  The entry after the last one overwrites the count, and limit and index follow the overwritten count.
\<close>

lemma addEntry_full:
  assumes "gdt_vector g" "num_entries g = 16"
  shows "\<exists>i g'. addEntry e g = Some (i, g') \<and> unat i = unat e mod 256 \<and> gdt_vector g' \<and> behind g' = behind g \<and>
    entries g' = entries g \<and> unat (num_entries g') = (unat e + 1) mod 256 \<and> unat (gdt_size g') = 8 * (unat e mod 256) + 7"
proof -
  have u: "unat (ucast e :: uint8) = unat e mod 256" by (simp add: unsigned_ucast_eq take_bit_eq_mod)
  have "unat (ucast e + 1 :: uint8) = (unat (ucast e :: uint8) + 1) mod 256" by (simp add: unat_word_ariths)
  also have "\<dots> = (unat e + 1) mod 256" unfolding u by (simp add: mod_Suc_eq)
  finally have "unat (ucast e + 1 :: uint8) = (unat e + 1) mod 256" .
  moreover have "unat (ucast (ucast e :: uint8) :: uint32) = unat e mod 256" by (simp add: unat_ucast_up u)
  ultimately show ?thesis using assms gdt_limit [of "ucast e"] by (simp add: addEntry_def put_entry_def Let_def u)
qed

text \<open>
  C38. Adding an entry to a well-formed table, for every count. With room, it returns the selector index, stores
  the entry there, leaves the other entries and the null descriptor alone, moves the limit to the last
  byte of the new entry and keeps the table well-formed. Nothing refuses the entry of a full table: the array
  keeps its 16 entries, and the entry's low byte becomes the count, from which the index returned and
  the limit follow. The table stays well-formed only if that byte is below 16; a descriptor whose low byte is 0, as
  all that \<open>setupGDT\<close> adds have, leaves a table of the null descriptor alone.
\<close>

theorem addEntry_ok:
  assumes "gdt_ok g"
  shows "\<exists>i g'. addEntry e g = Some (i, g') \<and> unat (gdt_size g') = 8 * unat i + 7 \<and> behind g' = behind g \<and>
    (if num_entries g = 16
     then unat i = unat e mod 256 \<and> entries g' = entries g \<and> unat (num_entries g') = (unat e + 1) mod 256 \<and>
       (gdt_ok g' \<longleftrightarrow> unat e mod 256 < 16)
     else unat i = unat (num_entries g) \<and> gdt_ok g' \<and> entries g' ! unat i = e \<and>
       (\<forall>j < 16. j \<noteq> unat i \<longrightarrow> entries g' ! j = entries g ! j))"
proof (cases "num_entries g = 16")
  case True
  have v: "gdt_vector g" using assms by (simp add: gdt_ok_def)
  from addEntry_full [OF v True, of e] obtain i g' where
    A: "addEntry e g = Some (i, g')" "unat i = unat e mod 256" "gdt_vector g'" "behind g' = behind g" "entries g' = entries g"
      "unat (num_entries g') = (unat e + 1) mod 256" "unat (gdt_size g') = 8 * (unat e mod 256) + 7"
    by (elim exE conjE) (rule that)
  have "(unat e + 1) mod 256 = (if unat e mod 256 = 255 then 0 else unat e mod 256 + 1)" by (simp add: mod_Suc)
  then have "gdt_ok g' \<longleftrightarrow> unat e mod 256 < 16" using A(3,5,6,7) assms by (simp add: gdt_ok_def) linarith
  then show ?thesis using A True by simp
next
  case False
  then have "unat (num_entries g) \<noteq> 16" by (simp add: word_eq_unat)
  then have n: "gdt_vector g" "unat (num_entries g) < 16" using assms by (simp_all add: gdt_ok_def)
  from addEntry_room [OF this, of e] obtain i g' where
    A: "addEntry e g = Some (i, g')" "unat i = unat (num_entries g)" "gdt_vector g'" "behind g' = behind g"
      "entries g' = (entries g)[unat (num_entries g) := e]" "unat (num_entries g') = unat (num_entries g) + 1"
      "unat (gdt_size g') = 8 * unat (num_entries g) + 7" by (elim exE conjE) (rule that)
  then have "gdt_ok g'" using assms n(2) by (simp add: gdt_ok_def nth_list_update)
  then show ?thesis using A False n(2) assms by (simp add: gdt_ok_def nth_list_update)
qed

definition example_gdt :: GDT where
  "example_gdt = \<lparr>gdt_size = 7, gdt_vector = True, entries = replicate 16 0, num_entries = 1, behind = (\<lambda>_. 0)\<rparr>"

text \<open>An entry with room, and the seventeenth entry: after it, the table is the null descriptor alone.\<close>

lemma addEntry_ok_witness:
  "(\<exists>i g'. addEntry 5 example_gdt = Some (i, g') \<and> unat i = 1 \<and> entries g' ! 1 = 5) \<and>
   (\<exists>i g'. addEntry 0xA0980000000000 (example_gdt\<lparr>num_entries := 16, gdt_size := 127\<rparr>) = Some (i, g') \<and> unat i = 0 \<and>
     unat (num_entries g') = 1 \<and> unat (gdt_size g') = 7)"
proof
  show "\<exists>i g'. addEntry 5 example_gdt = Some (i, g') \<and> unat i = 1 \<and> entries g' ! 1 = 5"
    using addEntry_ok [of example_gdt 5] by (auto simp: gdt_ok_def example_gdt_def)
  show "\<exists>i g'. addEntry 0xA0980000000000 (example_gdt\<lparr>num_entries := 16, gdt_size := 127\<rparr>) = Some (i, g') \<and> unat i = 0 \<and>
     unat (num_entries g') = 1 \<and> unat (gdt_size g') = 7"
    using addEntry_ok [of "example_gdt\<lparr>num_entries := 16, gdt_size := 127\<rparr>" "0xA0980000000000"] by (auto simp: gdt_ok_def example_gdt_def)
qed

lemma setupGDT_builds:
  assumes "length (entries g) = 16"
  shows "\<exists>g'. setupGDT g = Some g' \<and> gdt_ok g' \<and> gdt_size g' = 39 \<and> num_entries g' = 5 \<and>
    decode_segment (entries g' ! 1) = \<lparr>seg_base = 0, seg_limit = 0, seg_present = True, seg_dpl = 0,
      seg_code_data = True, seg_executable = True, seg_writable = False, seg_long = True, seg_pages = True\<rparr> \<and>
    decode_segment (entries g' ! 2) = \<lparr>seg_base = 0, seg_limit = 0, seg_present = True, seg_dpl = 0,
      seg_code_data = True, seg_executable = False, seg_writable = True, seg_long = False, seg_pages = True\<rparr> \<and>
    decode_segment (entries g' ! 3) = \<lparr>seg_base = 0, seg_limit = 0, seg_present = True, seg_dpl = 3,
      seg_code_data = True, seg_executable = True, seg_writable = False, seg_long = True, seg_pages = True\<rparr> \<and>
    decode_segment (entries g' ! 4) = \<lparr>seg_base = 0, seg_limit = 0, seg_present = True, seg_dpl = 3,
      seg_code_data = True, seg_executable = False, seg_writable = True, seg_long = False, seg_pages = True\<rparr>"
proof -
  have c: "BIT_SEGMENTO_CODIGO OR BIT_PRIVILEGIO_KERNEL OR FLAG_64_BITS = 0xA0980000000000"
    "BIT_SEGMENTO_DADOS OR BIT_PRIVILEGIO_KERNEL = 0x80920000000000"
    "BIT_SEGMENTO_CODIGO OR BIT_PRIVILEGIO_USER OR FLAG_64_BITS = 0xA0F80000000000"
    "BIT_SEGMENTO_DADOS OR BIT_PRIVILEGIO_USER = 0x80F20000000000"
    by (simp_all add: BIT_SEGMENTO_CODIGO_def BIT_SEGMENTO_DADOS_def BIT_PRIVILEGIO_KERNEL_def
        BIT_PRIVILEGIO_USER_def FLAG_64_BITS_def BIT_PRESENTE_def BIT_ESCRITA_def BIT_EXECUTAVEL_def BIT_GRANULARIDADE_def)
  show ?thesis
    using assms unfolding setupGDT_def c
    by (simp add: setup_gdt_def addEntry_def put_entry_def gdt_ok_def decode_segment_def bit_numeral_rec mask_eq_exp_minus_1 Let_def)
qed

text \<open>
  C37. \<open>setupGDT\<close> leaves the null descriptor, then kernel code (selector 8, ring 0, 64-bit),
  kernel data (ring 0, writable), user code (ring 3, 64-bit) and user data (ring 3, writable),
  each present with base 0, and a limit of 39: the table \<open>lgdt\<close> loads is exactly these five.
\<close>

theorem setupGDT_segments:
  assumes "length (entries g) = 16"
  shows "\<exists>g'. setupGDT g = Some g' \<and> gdt_ok g' \<and> gdt_size g' = 39 \<and> num_entries g' = 5 \<and>
    decode_segment (entries g' ! 1) = \<lparr>seg_base = 0, seg_limit = 0, seg_present = True, seg_dpl = 0,
      seg_code_data = True, seg_executable = True, seg_writable = False, seg_long = True, seg_pages = True\<rparr> \<and>
    decode_segment (entries g' ! 2) = \<lparr>seg_base = 0, seg_limit = 0, seg_present = True, seg_dpl = 0,
      seg_code_data = True, seg_executable = False, seg_writable = True, seg_long = False, seg_pages = True\<rparr> \<and>
    decode_segment (entries g' ! 3) = \<lparr>seg_base = 0, seg_limit = 0, seg_present = True, seg_dpl = 3,
      seg_code_data = True, seg_executable = True, seg_writable = False, seg_long = True, seg_pages = True\<rparr> \<and>
    decode_segment (entries g' ! 4) = \<lparr>seg_base = 0, seg_limit = 0, seg_present = True, seg_dpl = 3,
      seg_code_data = True, seg_executable = False, seg_writable = True, seg_long = False, seg_pages = True\<rparr>"
  by (rule setupGDT_builds [OF assms])

lemma setupGDT_segments_witness:
  "\<exists>g'. setupGDT example_gdt = Some g' \<and> gdt_size g' = 39"
  using setupGDT_segments [of example_gdt] by (auto simp: example_gdt_def)

lemma plus_eq_or: "x AND y = 0 \<Longrightarrow> x + y = x OR (y :: 'a::len word)"
  by (metis word_plus_and_or add_0)

lemma field_masks:
  "(0xffff :: uint32) = mask 16" "(0xffffff :: uint32) = mask 24" "(0xf0000 :: uint64) = push_bit 16 (mask 4)"
  "(0xf :: uint64) = mask 4" "(0xff000000 :: uint64) = push_bit 24 (mask 8)" "(0xfffff :: uint32) = mask 20"
  "(0xff00ffff :: uint32) = push_bit 24 (mask 8) OR mask 16"
  by (simp_all add: mask_eq_exp_minus_1)

lemma gdt_descriptor_bits:
  "bit (gdt_descriptor base limit 0 flags) n \<longleftrightarrow>
     (n < 16 \<and> bit limit n) \<or> (16 \<le> n \<and> n < 32 \<and> bit base (n - 16)) \<or>
     (48 \<le> n \<and> n < 52 \<and> bit limit (n - 32)) \<or> (52 \<le> n \<and> n < 56 \<and> bit flags (n - 52)) \<or>
     (56 \<le> n \<and> n < 64 \<and> bit base (n - 32))"
proof -
  let ?a = "limit AND mask 16" and ?b = "push_bit 16 (base AND mask 24)"
  let ?l = "push_bit 32 (ucast limit AND push_bit 16 (mask 4)) :: uint64" and ?f = "push_bit 52 (ucast flags AND mask 4) :: uint64"
    and ?h = "push_bit 32 (ucast base AND push_bit 24 (mask 8)) :: uint64"
  have ab: "?a + ?b = ?a OR ?b"
    by (rule plus_eq_or, rule bit_word_eqI) (auto simp: bit_simps)
  have 1: "ucast (?a OR ?b) + ?l = ucast (?a OR ?b) OR ?l"
    by (rule plus_eq_or, rule bit_word_eqI) (auto simp: bit_simps)
  have 2: "(ucast (?a OR ?b) OR ?l) + ?f = (ucast (?a OR ?b) OR ?l) OR ?f"
    by (rule plus_eq_or, rule bit_word_eqI) (auto simp: bit_simps)
  have 3: "(ucast (?a OR ?b) OR ?l OR ?f) + ?h = (ucast (?a OR ?b) OR ?l OR ?f) OR ?h"
    by (rule plus_eq_or, rule bit_word_eqI) (auto simp: bit_simps)
  have e: "gdt_descriptor base limit 0 flags = ucast (?a OR ?b) OR ?l OR ?f OR ?h"
    using 1 2 3 unfolding gdt_descriptor_def field_masks ab by (simp add: or.assoc)
  consider "n < 16" | "16 \<le> n" "n < 32" | "32 \<le> n" "n < 48" | "48 \<le> n" "n < 52" | "52 \<le> n" "n < 56"
    | "56 \<le> n" "n < 64" | "64 \<le> n" by linarith
  then show ?thesis unfolding e by cases (simp_all add: bit_simps less_diff_conv2)
qed

text \<open>
  \<open>addEntryGDT\<close> packs the limit, but bits 16 to 23 of the base are shifted out of a
  32-bit product: the processor reads the base with those eight bits zero.
\<close>

theorem addEntryGDT_base_lost:
  "seg_base (decode_segment (gdt_descriptor base limit 0 flags)) = base AND 0xff00ffff \<and>
   seg_limit (decode_segment (gdt_descriptor base limit 0 flags)) = limit AND 0xfffff"
  unfolding decode_segment_def segment.simps field_masks
  by (intro conjI; rule bit_word_eqI) (auto simp: bit_simps gdt_descriptor_bits)

end
