(* ===== verification/Idt.thy ===== *)
theory Idt
  imports Ports
begin

text \<open>
  Interrupt descriptors and their set-up: \<open>src/lib/kernel/idt.cpp\<close>, with the registration code
  of \<open>src/asm/interruptions.asm\<close> and \<open>src/asm/funcs/macros.asm\<close>. The addresses \<open>isr\<close> of the
  handlers are fixed by the linker: a parameter. A \<open>uint8\<close> vector always lies in the table of
  256 entries, so the table is a function of it.
\<close>

section \<open>The code\<close>

definition IDT_INTERRUPT_GATE :: uint8 where "IDT_INTERRUPT_GATE = 0x8e"
definition IDT_TRAP_GATE :: uint8 where "IDT_TRAP_GATE = 0x8f"
definition IDT_TASK_GATE :: uint8 where "IDT_TASK_GATE = 0x85"

record idt_entry =
  offset_0_15 :: uint16
  segment_sel :: uint16     \<comment> \<open>field \<open>segment\<close>\<close>
  ist :: uint8
  gate_type :: uint8        \<comment> \<open>field \<open>type\<close>\<close>
  offset_16_31 :: uint16
  offset_32_63 :: uint32
  reserved :: uint32

record idt_state = ports +
  idt :: "uint8 \<Rightarrow> idt_entry"
  descriptor_limit :: uint16
  idt_loaded :: bool        \<comment> \<open>\<open>lidt\<close> has run on the descriptor, whose base is \<open>idt\<close>\<close>
  interrupts :: bool        \<comment> \<open>the interrupt flag\<close>

definition gate :: "uint8 \<Rightarrow> uint64 \<Rightarrow> idt_entry" where
  "gate t handler = \<lparr>offset_0_15 = ucast handler, segment_sel = 0x8, ist = 0, gate_type = t,
     offset_16_31 = ucast (drop_bit 16 handler), offset_32_63 = ucast (drop_bit 32 handler), reserved = 0\<rparr>"

definition idtSetInterruptGate :: "uint8 \<Rightarrow> uint64 \<Rightarrow> 'a idt_state_scheme \<Rightarrow> 'a idt_state_scheme" where
  "idtSetInterruptGate vector handler s = s\<lparr>idt := (idt s)(vector := gate IDT_INTERRUPT_GATE handler)\<rparr>"

definition idtSetTrapGate :: "uint8 \<Rightarrow> uint64 \<Rightarrow> 'a idt_state_scheme \<Rightarrow> 'a idt_state_scheme" where
  "idtSetTrapGate vector handler s = s\<lparr>idt := (idt s)(vector := gate IDT_TRAP_GATE handler)\<rparr>"

definition idtSetTaskGate :: "uint8 \<Rightarrow> uint64 \<Rightarrow> 'a idt_state_scheme \<Rightarrow> 'a idt_state_scheme" where
  "idtSetTaskGate vector handler s = s\<lparr>idt := (idt s)(vector := gate IDT_TASK_GATE handler)\<rparr>"

definition remap_irqs :: "'a ports_scheme \<Rightarrow> 'a ports_scheme" where
  "remap_irqs s = (let
     s = outb 0x20 0x11 s; s = outb 0xa0 0x11 s;
     s = outb 0x21 0x20 s; s = outb 0xa1 0x28 s;
     s = outb 0x21 0x04 s; s = outb 0xa1 0x02 s;
     s = outb 0x21 0x01 s; s = outb 0xa1 0x01 s;
     s = outb 0x21 0x00 s; s = outb 0xa1 0x00 s in s)"

text \<open>The quotient of two \<open>int\<close>s, stored in a \<open>uint16\<close>; dividing by zero raises exception 0,
  whose handler loops.\<close>

definition setTimer :: "uint16 \<Rightarrow> 'a ports_scheme \<Rightarrow> 'a ports_scheme option" where
  "setTimer freq s =
     (if freq = 0 then None
      else (let dv = (of_nat (1193180 div unat freq) :: uint16);
                l = (ucast (dv AND 0xff) :: uint8);
                h = (ucast (drop_bit 8 dv AND 0xff) :: uint8);
                s = outb 0x43 0x36 s; s = outb 0x40 l s; s = outb 0x40 h s in Some s))"

text \<open>The vectors \<open>idt_register_isrs\<close> registers, in its order.\<close>

definition isr_vectors :: "uint8 list" where
  "isr_vectors = [0, 1, 2, 3, 4, 5, 6, 7, 8, 10, 11, 12, 13, 14, 32, 33]"

definition idt_register_isrs :: "(uint8 \<Rightarrow> uint64) \<Rightarrow> 'a idt_state_scheme \<Rightarrow> 'a idt_state_scheme" where
  "idt_register_isrs isr s = fold (\<lambda>v s. idtSetInterruptGate v (isr v) s) isr_vectors s"

definition zero_entry :: idt_entry where
  "zero_entry = \<lparr>offset_0_15 = 0, segment_sel = 0, ist = 0, gate_type = 0, offset_16_31 = 0,
     offset_32_63 = 0, reserved = 0\<rparr>"

definition setupIDT :: "(uint8 \<Rightarrow> uint64) \<Rightarrow> 'a idt_state_scheme \<Rightarrow> 'a idt_state_scheme" where
  "setupIDT isr s = (let
     s = remap_irqs s;
     s = s\<lparr>idt := (\<lambda>_. zero_entry)\<rparr>;
     s = idt_register_isrs isr s;
     s = s\<lparr>descriptor_limit := 16 * 256 - 1\<rparr>;
     s = s\<lparr>idt_loaded := True\<rparr>;
     s = s\<lparr>interrupts := True\<rparr> in s)"

section \<open>Reading a gate as the processor does\<close>

definition gate_offset :: "idt_entry \<Rightarrow> uint64" where
  "gate_offset e = ucast (offset_0_15 e) OR push_bit 16 (ucast (offset_16_31 e)) OR
     push_bit 32 (ucast (offset_32_63 e))"

definition gate_present :: "idt_entry \<Rightarrow> bool" where
  "gate_present e = bit (gate_type e) 7"

definition gate_kind :: "idt_entry \<Rightarrow> uint8" where
  "gate_kind e = gate_type e AND 0xf"

section \<open>Properties\<close>

lemma gate_offset_gate: "gate_offset (gate t h) = h"
  unfolding gate_offset_def gate_def idt_entry.simps
proof (rule bit_word_eqI)
  fix n assume "n < LENGTH(64)"
  then consider "n < 16" | "16 \<le> n" "n < 32" | "32 \<le> n" "n < 64" by fastforce
  then show "bit (ucast (ucast h :: uint16) OR push_bit 16 (ucast (ucast (drop_bit 16 h) :: uint16)) OR
      push_bit 32 (ucast (ucast (drop_bit 32 h) :: uint32)) :: uint64) n = bit h n"
    by cases (simp_all add: bit_simps less_diff_conv2)
qed

text \<open>
  A gate written by any of the three setters leads to exactly the 64-bit handler given, in
  the kernel code segment, present and of the right type, and no other vector changes.
\<close>

theorem gates_roundtrip:
  "gate_offset (idt (idtSetInterruptGate v h s) v) = h \<and>
   gate_offset (idt (idtSetTrapGate v h s) v) = h \<and> gate_offset (idt (idtSetTaskGate v h s) v) = h \<and>
   gate_present (idt (idtSetInterruptGate v h s) v) \<and> gate_kind (idt (idtSetInterruptGate v h s) v) = 0xe \<and>
   gate_kind (idt (idtSetTrapGate v h s) v) = 0xf \<and> gate_kind (idt (idtSetTaskGate v h s) v) = 5 \<and>
   segment_sel (idt (idtSetInterruptGate v h s) v) = 8 \<and>
   (\<forall>w. w \<noteq> v \<longrightarrow> idt (idtSetInterruptGate v h s) w = idt s w)"
  by (simp add: gate_offset_gate idtSetInterruptGate_def idtSetTrapGate_def idtSetTaskGate_def gate_present_def gate_kind_def)
    (simp add: gate_def IDT_INTERRUPT_GATE_def IDT_TRAP_GATE_def IDT_TASK_GATE_def bit_numeral_rec)

lemma gates_roundtrip_witness:
  "\<exists>s :: idt_state. \<exists>w. w \<noteq> 3 \<and> idt (idtSetInterruptGate 3 0x123456789 s) w = idt s w"
  using gates_roundtrip [of 3 "0x123456789" "undefined :: idt_state"] by (intro exI [of _ undefined] exI [of _ 4]) simp

lemma idt_fold:
  "idt (fold (\<lambda>v s. idtSetInterruptGate v (isr v) s) vs s) w =
     (if w \<in> set vs then gate IDT_INTERRUPT_GATE (isr w) else idt s w)"
  by (induction vs arbitrary: s) (auto simp: idtSetInterruptGate_def)

lemma idt_fold_frame:
  "outs (fold (\<lambda>v s. idtSetInterruptGate v (isr v) s) vs s) = outs s"
  by (induction vs arbitrary: s) (auto simp: idtSetInterruptGate_def)

lemma setupIDT_gates:
  "(\<forall>v. if v \<in> set isr_vectors then idt (setupIDT isr s) v = gate IDT_INTERRUPT_GATE (isr v)
       else \<not> gate_present (idt (setupIDT isr s) v)) \<and>
   unat (descriptor_limit (setupIDT isr s)) + 1 = 256 * 16 \<and> idt_loaded (setupIDT isr s) \<and>
   interrupts (setupIDT isr s) \<and> outs (setupIDT isr s) = outs (remap_irqs s)"
  by (simp add: setupIDT_def idt_register_isrs_def idt_fold idt_fold_frame gate_present_def zero_entry_def Let_def)

text \<open>
  After \<open>setupIDT\<close> the sixteen registered vectors hold a present interrupt gate to their
  own handler, every other vector is not present, the limit covers the 256 entries, the table
  is loaded and only then interrupts are on.
\<close>

theorem setupIDT_table:
  "(\<forall>v. if v \<in> set isr_vectors then idt (setupIDT isr s) v = gate IDT_INTERRUPT_GATE (isr v)
       else \<not> gate_present (idt (setupIDT isr s) v)) \<and>
   unat (descriptor_limit (setupIDT isr s)) + 1 = 256 * 16 \<and> idt_loaded (setupIDT isr s) \<and>
   interrupts (setupIDT isr s) \<and> outs (setupIDT isr s) = outs (remap_irqs s)"
  by (rule setupIDT_gates)

lemma setupIDT_remaps:
  fixes s :: "'a idt_state_scheme"
  assumes "outs s = []" "ms = fold pics_write (outs (setupIDT isr s)) ms0"
  shows "phase (fst ms) = Ready \<and> phase (snd ms) = Ready \<and> mode8086 (fst ms) \<and> mode8086 (snd ms) \<and>
     cascade (fst ms) = 4 \<and> cascade (snd ms) = 2 \<and> irq_mask (fst ms) = 0 \<and> irq_mask (snd ms) = 0 \<and>
     irq_vector ms 0 = 32 \<and> irq_vector ms 1 = 33 \<and>
     (\<forall>i < 16. irq_vector ms i = 32 + i)"
proof -
  have o: "outs (setupIDT isr s) = [(0x20, 0x11), (0xa0, 0x11), (0x21, 0x20), (0xa1, 0x28), (0x21, 0x04),
      (0xa1, 0x02), (0x21, 0x01), (0xa1, 0x01), (0x21, 0x00), (0xa1, 0x00)]"
    using assms(1) by (simp add: setupIDT_def idt_register_isrs_def idt_fold_frame remap_irqs_def Let_def)
  show ?thesis
    unfolding assms(2) o
    by (simp add: pics_write_def pic_command_def pic_data_def irq_vector_def bit_numeral_rec)
qed

text \<open>The gates the hardware lines lead to: lines 0 and 1 have a handler, the others have none.\<close>

lemma setupIDT_lines:
  assumes "i < 16"
  shows "if i < 2 then gate_offset (idt (setupIDT isr s) (of_nat (32 + i))) = isr (of_nat (32 + i)) \<and>
      gate_present (idt (setupIDT isr s) (of_nat (32 + i))) \<and> gate_kind (idt (setupIDT isr s) (of_nat (32 + i))) = 0xe \<and>
      segment_sel (idt (setupIDT isr s) (of_nat (32 + i))) = 8
    else \<not> gate_present (idt (setupIDT isr s) (of_nat (32 + i)))"
proof -
  have "i \<in> set [0..<16]" using assms by simp
  then have "(of_nat (32 + i) :: uint8) \<in> set isr_vectors \<longleftrightarrow> i < 2"
    by (simp add: isr_vectors_def upt_rec) (elim disjE; simp)
  moreover have "gate_present (gate IDT_INTERRUPT_GATE h)" "gate_kind (gate IDT_INTERRUPT_GATE h) = 0xe"
    "segment_sel (gate IDT_INTERRUPT_GATE h) = 8" for h
    by (simp_all add: gate_present_def gate_kind_def gate_def IDT_INTERRUPT_GATE_def bit_numeral_rec)
  moreover have "if (of_nat (32 + i) :: uint8) \<in> set isr_vectors
      then idt (setupIDT isr s) (of_nat (32 + i)) = gate IDT_INTERRUPT_GATE (isr (of_nat (32 + i)))
      else \<not> gate_present (idt (setupIDT isr s) (of_nat (32 + i)))" using setupIDT_gates [of isr s] by blast
  ultimately show ?thesis by (auto simp: gate_offset_gate split: if_splits)
qed

text \<open>
  C39. Whatever state the two interrupt controllers are in, \<open>setupIDT\<close> leaves both
  initialised in 8086 mode and wired to each other, with all lines enabled, line \<open>i\<close> on vector \<open>32 + i\<close> and so
  none on an exception's vector; and it leaves a table, loaded and with interrupts on, in which the
  vectors that the timer and the keyboard raise are present interrupt gates to their
  handlers, in the kernel's code segment, while the vectors of the other fourteen lines, enabled as well, have none.
\<close>

theorem irqs_remapped:
  fixes s :: "'a idt_state_scheme"
  assumes "outs s = []" "ms = fold pics_write (outs (setupIDT isr s)) ms0"
  shows "phase (fst ms) = Ready \<and> phase (snd ms) = Ready \<and> mode8086 (fst ms) \<and> mode8086 (snd ms) \<and>
     cascade (fst ms) = 4 \<and> cascade (snd ms) = 2 \<and> irq_mask (fst ms) = 0 \<and> irq_mask (snd ms) = 0 \<and>
     idt_loaded (setupIDT isr s) \<and> unat (descriptor_limit (setupIDT isr s)) + 1 = 256 * 16 \<and> interrupts (setupIDT isr s) \<and>
     (\<forall>i < 16. irq_vector ms i = 32 + i \<and>
        (if i < 2 then gate_offset (idt (setupIDT isr s) (of_nat (32 + i))) = isr (of_nat (32 + i)) \<and>
           gate_present (idt (setupIDT isr s) (of_nat (32 + i))) \<and> gate_kind (idt (setupIDT isr s) (of_nat (32 + i))) = 0xe \<and>
           segment_sel (idt (setupIDT isr s) (of_nat (32 + i))) = 8
         else \<not> gate_present (idt (setupIDT isr s) (of_nat (32 + i)))))"
  using setupIDT_remaps [OF assms] setupIDT_gates [of isr s] setupIDT_lines [of _ isr s] by blast

definition example_idt :: idt_state where
  "example_idt = \<lparr>outs = [], idt = (\<lambda>_. zero_entry), descriptor_limit = 0, idt_loaded = False, interrupts = False\<rparr>"

definition example_pic :: pic where
  "example_pic = \<lparr>phase = WaitICW3, wants_icw4 = False, vector_base = 8, cascade = 0, mode8086 = False, irq_mask = 0xff\<rparr>"

lemma irqs_remapped_witness:
  "irq_vector (fold pics_write (outs (setupIDT (\<lambda>v. 0xFFFFFF8000008000 + 16 * ucast v) example_idt)) (example_pic, example_pic)) 9 = 41 \<and>
   gate_offset (idt (setupIDT (\<lambda>v. 0xFFFFFF8000008000 + 16 * ucast v) example_idt) 33) = 0xFFFFFF8000008210"
proof -
  let ?isr = "\<lambda>v :: uint8. 0xFFFFFF8000008000 + 16 * ucast v :: uint64"
  have "outs example_idt = []" by (simp add: example_idt_def)
  from irqs_remapped [OF this refl, of ?isr "(example_pic, example_pic)"]
  have I: "\<forall>i < 16. irq_vector (fold pics_write (outs (setupIDT ?isr example_idt)) (example_pic, example_pic)) i = 32 + i \<and>
      (if i < 2 then gate_offset (idt (setupIDT ?isr example_idt) (of_nat (32 + i))) = ?isr (of_nat (32 + i)) else True)" by presburger
  from I [rule_format, of 9] I [rule_format, of 1] show ?thesis by simp
qed

text \<open>
  From 19 Hz on, \<open>setTimer\<close> programs the timer with the divisor \<open>1193180 / freq\<close>. Below
  that the divisor does not fit in the 16 bits it is kept in and the timer runs at another
  rate; 0 raises the divide exception.
\<close>

theorem setTimer_divisor:
  assumes "s' = setTimer freq s" "outs s = []"
  shows "(freq = 0 \<longrightarrow> s' = None) \<and>
    (freq \<noteq> 0 \<longrightarrow> (\<exists>r. s' = Some r \<and>
       reload (fold pit_write (outs r) t) = Some (of_nat (1193180 div unat freq)))) \<and>
    (19 \<le> unat freq \<longrightarrow> unat (of_nat (1193180 div unat freq) :: uint16) = 1193180 div unat freq) \<and>
    unat (of_nat (1193180 div 18) :: uint16) = 751"
proof -
  define d where "d = (of_nat (1193180 div unat freq) :: uint16)"
  have e: "(ucast (ucast (d AND 0xff) :: uint8) :: uint16) + push_bit 8 (ucast (ucast (drop_bit 8 d AND 0xff) :: uint8)) = d"
    (is "?a + ?b = d")
  proof -
    have m: "(0xff :: uint16) = mask 8" by (simp add: mask_eq_exp_minus_1)
    have "?a AND ?b = 0" unfolding m by (rule bit_word_eqI) (auto simp: bit_simps)
    then have "?a + ?b = ?a OR ?b" by (metis word_plus_and_or add_0)
    also have "\<dots> = d"
      unfolding m
    proof (rule bit_word_eqI)
      fix n assume "n < LENGTH(16)"
      then consider "n < 8" | "8 \<le> n" "n < 16" by fastforce
      then show "bit (ucast (ucast (d AND mask 8) :: uint8) OR push_bit 8 (ucast (ucast (drop_bit 8 d AND mask 8) :: uint8)) :: uint16) n = bit d n"
        by cases (simp_all add: bit_simps less_diff_conv2)
    qed
    finally show ?thesis .
  qed
  have "1193180 div unat freq < 65536" if "19 \<le> unat freq"
  proof -
    have "1193180 div unat freq \<le> 1193180 div 19" using that by (intro div_le_mono2) auto
    then show ?thesis by simp
  qed
  then have "19 \<le> unat freq \<longrightarrow> unat (of_nat (1193180 div unat freq) :: uint16) = 1193180 div unat freq"
    by (simp add: unat_of_nat)
  moreover have "reload (fold pit_write (outs r) t) = Some d" if "setTimer freq s = Some r" for r
    using that assms(2) e
    by (auto simp: setTimer_def Let_def d_def [symmetric] pit_write_def split: if_splits)
  moreover have "freq \<noteq> 0 \<Longrightarrow> \<exists>r. setTimer freq s = Some r" by (simp add: setTimer_def Let_def)
  ultimately show ?thesis using assms(1) unfolding d_def by (auto simp: setTimer_def unat_of_nat)
qed

lemma setTimer_divisor_witness:
  "\<exists>r. setTimer 20 example_idt = Some r \<and>
     reload (fold pit_write (outs r) \<lparr>lohi = False, got_low = None, reload = None\<rparr>) = Some 59659"
  using setTimer_divisor [of "setTimer 20 example_idt" 20 example_idt] by (simp add: example_idt_def)

end
