(* ===== verification/Gfx.thy ===== *)
theory Gfx
  imports Ports
begin

text \<open>
  The text console: \<open>src/lib/kernel/gfx_text.cpp\<close> with the colours of \<open>include/kernel/gfx.h\<close>,
  the page-fault report of \<open>pagination.cpp\<close> and \<open>panic\<close>. The screen is the 64 K cells a
  \<open>uint16\<close> can index (80 x 25 of them visible), each a character and its colour. A C string
  is the list of its bytes before the terminator; \<open>sprintf\<close> is libc's: a parameter.
\<close>

section \<open>Colours\<close>

type_synonym color = uint8

definition CLEAR_TEXT_COLOR :: "color \<Rightarrow> color" where "CLEAR_TEXT_COLOR P = P AND 0xF0"
definition CLEAR_BACKGROUND_COLOR :: "color \<Rightarrow> color" where "CLEAR_BACKGROUND_COLOR P = P AND 0x0F"

datatype text_color = TEXT_BLACK | TEXT_BLUE | TEXT_GREEN | TEXT_CYAN | TEXT_RED | TEXT_MAGENTA | TEXT_BROW
  | TEXT_LIGHT_GRAY | TEXT_DARK_GRAY | TEXT_LIGHT_BLUE | TEXT_LIGHT_GREEN | TEXT_LIGHT_CYAN | TEXT_LIGHT_RED
  | TEXT_PINK | TEXT_YELLOW | TEXT_WHITE

fun text_code :: "text_color \<Rightarrow> color" where
  "text_code TEXT_BLACK = 0"
| "text_code TEXT_BLUE = 1"
| "text_code TEXT_GREEN = 2"
| "text_code TEXT_CYAN = 3"
| "text_code TEXT_RED = 4"
| "text_code TEXT_MAGENTA = 5"
| "text_code TEXT_BROW = 6"
| "text_code TEXT_LIGHT_GRAY = 7"
| "text_code TEXT_DARK_GRAY = 8"
| "text_code TEXT_LIGHT_BLUE = 9"
| "text_code TEXT_LIGHT_GREEN = 10"
| "text_code TEXT_LIGHT_CYAN = 11"
| "text_code TEXT_LIGHT_RED = 12"
| "text_code TEXT_PINK = 13"
| "text_code TEXT_YELLOW = 14"
| "text_code TEXT_WHITE = 15"

text \<open>The sixteen \<open>BACKGROUND_\<close> constants are the same codes in the high nibble.\<close>

definition background_code :: "text_color \<Rightarrow> color" where
  "background_code c = push_bit 4 (text_code c)"

section \<open>Screen and cursor\<close>

definition NUM_COLS :: nat where "NUM_COLS = 80"
definition NUM_ROWS :: nat where "NUM_ROWS = 25"

record vga = ports +
  vga_mem :: "uint16 \<Rightarrow> uint8 \<times> color"

definition disableCursor :: "'a ports_scheme \<Rightarrow> 'a ports_scheme" where
  "disableCursor s = outb 0x3D5 0x20 (outb 0x3D4 0x0A s)"

definition enableCursor :: "((uint16 \<times> uint8) list \<Rightarrow> uint16 \<Rightarrow> uint8) \<Rightarrow> uint8 \<Rightarrow> uint8 \<Rightarrow>
    'a ports_scheme \<Rightarrow> 'a ports_scheme" where
  "enableCursor dev cursor_start cursor_end s = (let
     s = outb 0x3D4 0x0A s;
     s = outb 0x3D5 ((inb dev 0x3D5 s AND 0xC0) OR cursor_start) s;
     s = outb 0x3D4 0x0B s;
     s = outb 0x3D5 ((inb dev 0x3D5 s AND 0xE0) OR cursor_end) s in s)"

definition setCursorPosition :: "uint16 \<Rightarrow> 'a ports_scheme \<Rightarrow> 'a ports_scheme" where
  "setCursorPosition position s = (let
     s = outb 0x3D4 0x0F s;
     s = outb 0x3D5 (ucast (position AND 0xff)) s;
     s = outb 0x3D4 0x0E s;
     s = outb 0x3D5 (ucast (drop_bit 8 position AND 0xff)) s in s)"

definition getCursorPosition :: "((uint16 \<times> uint8) list \<Rightarrow> uint16 \<Rightarrow> uint8) \<Rightarrow> 'a ports_scheme \<Rightarrow>
    uint16 \<times> 'a ports_scheme" where
  "getCursorPosition dev s = (let
     pos = (0 :: uint16);
     s = outb 0x3D4 0x0F s;
     pos = pos OR ucast (inb dev 0x3D5 s);
     s = outb 0x3D4 0x0E s;
     pos = pos OR push_bit 8 (ucast (inb dev 0x3D5 s)) in (pos, s))"

definition kprintChar :: "int \<Rightarrow> int \<Rightarrow> uint8 \<Rightarrow> color \<Rightarrow> 'a vga_scheme \<Rightarrow> 'a vga_scheme" where
  "kprintChar x y c col s = (let
     p = (word_of_int (int NUM_COLS * y + x) :: uint16);
     s = s\<lparr>vga_mem := (vga_mem s)(p := (c, col))\<rparr> in setCursorPosition (p + 1) s)"

definition clrscr :: "color \<Rightarrow> 'a vga_scheme \<Rightarrow> 'a vga_scheme" where
  "clrscr col s =
     fold (\<lambda>r s. fold (\<lambda>c s. kprintChar (int c) (int r) 32 col s) [0..<NUM_COLS] s) [0..<NUM_ROWS] s"

section \<open>Printing a string\<close>

text \<open>Reading byte \<open>i\<close> of a C string; past the terminator is out of bounds.\<close>

definition char_at :: "uint8 list \<Rightarrow> nat \<Rightarrow> uint8 option" where
  "char_at s i = (if i < length s then Some (s ! i) else if i = length s then Some 0 else None)"

text \<open>The inner \<open>switch\<close>: the colour of digit \<open>c\<close>.\<close>

definition ansi_color :: "uint8 \<Rightarrow> text_color option" where
  "ansi_color c =
     (if c = 48 then Some TEXT_BLACK else if c = 49 then Some TEXT_RED else if c = 50 then Some TEXT_GREEN
      else if c = 51 then Some TEXT_YELLOW else if c = 52 then Some TEXT_BLUE else if c = 53 then Some TEXT_PINK
      else if c = 54 then Some TEXT_CYAN else if c = 55 then Some TEXT_WHITE else None)"

text \<open>
  The case of the escape character at \<open>i\<close>: where \<open>s\<close> points when the case ends, the new
  colour, and whether the letter G was printed for an unknown digit.
\<close>

definition escape :: "uint8 list \<Rightarrow> nat \<Rightarrow> color \<Rightarrow> color \<Rightarrow> (nat \<times> color \<times> bool) option" where
  "escape s i originalColor col = do {
     c \<leftarrow> char_at s (i + 1);
     if c \<noteq> 91 then Some (i, col, False)
     else do {
       let i = i + 1;
       c \<leftarrow> char_at s (i + 1);
       if c \<noteq> 48 then Some (i, col, False)
       else do {
         let i = i + 1;
         c \<leftarrow> char_at s (i + 1);
         if c = 109 then Some (i + 1, originalColor, False)
         else if c \<noteq> 59 then Some (i, col, False)
         else do {
           let i = i + 1;
           c \<leftarrow> char_at s (i + 1);
           if c \<noteq> 51 then Some (i, col, False)
           else do {
             let i = i + 2;
             d \<leftarrow> char_at s i;
             let (i, col, g) = (case ansi_color d of
                 Some k \<Rightarrow> (i, CLEAR_TEXT_COLOR col OR text_code k, False)
               | None \<Rightarrow> (i - 1, col, True));
             c \<leftarrow> char_at s (i + 1);
             Some (if c = 109 then i + 1 else i, col, g) } } } } }"

lemma escape_ge: "escape s i oc col = Some (j, col', g) \<Longrightarrow> i \<le> j"
  by (auto simp: escape_def Let_def split: if_splits option.splits)

text \<open>The end of the loop body: wrapping at the right and at the bottom.\<close>

definition wrap :: "int \<Rightarrow> int \<Rightarrow> int \<times> int" where
  "wrap x y = (let
     (x, y) = (if int NUM_COLS \<le> x then (x mod int NUM_COLS, y + 1) else (x, y));
     (x, y) = (if int NUM_ROWS \<le> y then (0, y mod int NUM_ROWS) else (x, y)) in (x, y))"

function print_loop :: "uint8 list \<Rightarrow> color \<Rightarrow> nat \<Rightarrow> int \<Rightarrow> int \<Rightarrow> color \<Rightarrow> 'a vga_scheme \<Rightarrow> 'a vga_scheme option" where
  "print_loop s oc i x y col st =
     (case char_at s i of
        None \<Rightarrow> None
      | Some c \<Rightarrow>
          if c = 0 then Some st
          else if c = 10 then (let (x, y) = wrap 0 (y + 1) in print_loop s oc (i + 1) x y col st)
          else if c = 27 then
            (case escape s i oc col of
               None \<Rightarrow> None
             | Some (j, col, g) \<Rightarrow>
                 let (x, st) = (if g then (x + 1, kprintChar x y 71 (text_code TEXT_PINK OR background_code TEXT_BLACK) st)
                                else (x, st));
                     (x, y) = wrap x y
                 in print_loop s oc (j + 1) x y col st)
          else (let st = kprintChar x y c col st; (x, y) = wrap (x + 1) y
                in print_loop s oc (i + 1) x y col st))"
  by pat_completeness auto
termination
  by (relation "measure (\<lambda>(s, oc, i, x, y, col, st). Suc (length s) - i)")
    (auto simp: char_at_def split: if_splits dest!: escape_ge)

declare print_loop.simps [simp del]

text \<open>\<open>x %= NUM_COLS\<close> converts \<open>x\<close> to the 64-bit \<open>size_t\<close> first.\<close>

definition mod_size :: "int \<Rightarrow> nat \<Rightarrow> int" where
  "mod_size x n = int (unat (word_of_int x :: uint64) mod n)"

definition kprintStr :: "int \<Rightarrow> int \<Rightarrow> uint8 list \<Rightarrow> color \<Rightarrow> 'a vga_scheme \<Rightarrow> 'a vga_scheme option" where
  "kprintStr x y s col st = print_loop s col 0 (mod_size x NUM_COLS) (mod_size y NUM_ROWS) col st"

definition kprintnum :: "(int \<Rightarrow> uint8 list) \<Rightarrow> int \<Rightarrow> int \<Rightarrow> uint64 \<Rightarrow> 'a vga_scheme \<Rightarrow> 'a vga_scheme option" where
  "kprintnum fmt_ld a b x st = kprintStr a b (fmt_ld (sint x)) 0x0f st"

definition kprinthex :: "(uint64 \<Rightarrow> uint8 list) \<Rightarrow> int \<Rightarrow> int \<Rightarrow> uint64 \<Rightarrow> 'a vga_scheme \<Rightarrow> 'a vga_scheme option" where
  "kprinthex fmt_0xlx a b x st = kprintStr a b (fmt_0xlx x) 0x0f st"

definition kprintnum2 :: "(int \<Rightarrow> uint8 list) \<Rightarrow> uint64 \<Rightarrow> 'a vga_scheme \<Rightarrow> 'a vga_scheme option" where
  "kprintnum2 fmt_ld x st = kprintStr 70 0 (fmt_ld (sint x)) 0x0f st"

text \<open>\<open>val\<close> is a global \<open>uint8\<close>: the row to print on next.\<close>

definition kprintnum3 :: "(int \<Rightarrow> uint8 list) \<Rightarrow> uint8 \<Rightarrow> uint64 \<Rightarrow> 'a vga_scheme \<Rightarrow> (uint8 \<times> 'a vga_scheme) option" where
  "kprintnum3 fmt_ld v x st = do {
     st \<leftarrow> kprintStr 6 (7 + int (unat v)) (fmt_ld (sint x)) 0x0f st;
     Some (v + 1, st) }"

section \<open>Faults\<close>

definition ascii :: "string \<Rightarrow> uint8 list" where
  "ascii cs = map (\<lambda>c. of_nat (of_char c)) cs"

definition FAULT :: "nat \<Rightarrow> string" where
  "FAULT i = [''Supervisory process tried to read a non-present page entry'',
    ''Supervisory process tried to read a page and caused a protection fault'',
    ''Supervisory process tried to write to a non-present page entry'',
    ''Supervisory process tried to write a page and caused a protection fault'',
    ''User process tried to read a non-present page entry'',
    ''User process tried to read a page and caused a protection fault'',
    ''User process tried to write to a non-present page entry'',
    ''User process tried to write a page and caused a protection fault''] ! i"

text \<open>What the handler puts on the screen before its endless loop, and the handler itself.\<close>

definition fault_text :: "uint32 \<Rightarrow> string" where
  "fault_text error =
     (if error AND 8 \<noteq> 0 then ''Erro RSVD'' else if error AND 16 \<noteq> 0 then ''Erro I/D''
      else FAULT (unat (error AND 7)))"

definition fault_report :: "(int \<Rightarrow> uint8 list) \<Rightarrow> uint32 \<Rightarrow> uint64 \<Rightarrow> 'a vga_scheme \<Rightarrow> 'a vga_scheme option" where
  "fault_report fmt_ld error endereco st = do {
     st \<leftarrow> kprintStr 0 24 (ascii (fault_text error)) 0x4f st;
     kprintnum fmt_ld 0 23 endereco st }"

partial_function (option) spin :: "'s \<Rightarrow> 's option" where
  "spin s = spin s"

definition pageFaultHandler :: "(int \<Rightarrow> uint8 list) \<Rightarrow> uint32 \<Rightarrow> uint64 \<Rightarrow> 'a vga_scheme \<Rightarrow> 'a vga_scheme option" where
  "pageFaultHandler fmt_ld error endereco st = do { st \<leftarrow> fault_report fmt_ld error endereco st; spin st }"

definition panic :: "uint8 list \<Rightarrow> 'a vga_scheme \<Rightarrow> 'a vga_scheme option" where
  "panic str st = do {
     st \<leftarrow> kprintStr 0 24 str (background_code TEXT_WHITE OR text_code TEXT_RED) st;
     spin st }"

text \<open>A system call (the assembly entry loops before it would call this).\<close>

definition syscall_handler_global :: "'a vga_scheme \<Rightarrow> 'a vga_scheme option" where
  "syscall_handler_global st =
     kprintStr 0 0 (ascii ''Syscall executado!'') (text_code TEXT_GREEN OR background_code TEXT_BLUE) st"

text \<open>The two device interrupts of \<open>src/asm/interruptions.asm\<close>.\<close>

definition isr_32 :: "'a ports_scheme \<Rightarrow> 'a ports_scheme" where
  "isr_32 s = outb 0x20 0x20 (outb 0xa0 0x20 s)"

definition isr_33 :: "((uint16 \<times> uint8) list \<Rightarrow> uint16 \<Rightarrow> uint8) \<Rightarrow> 'a vga_scheme \<Rightarrow> 'a vga_scheme" where
  "isr_33 dev s = (let
     s = kprintChar 10 10 (inb dev 0x60 s) 0x1f s in outb 0x20 0x20 (outb 0xa0 0x20 s))"

end
