(* ===== verification/Gfx_Correct.thy ===== *)
theory Gfx_Correct
  imports Gfx
begin

text \<open>
  The console does what its callers expect: a specification of the escape-code language with a
  cursor that runs over the 2000 visible cells, the refinement of \<open>kprintStr\<close> to it, memory
  safety on every string, and the hardware cursor.
\<close>

section \<open>Cells\<close>

lemma setCursorPosition_mem [simp]: "vga_mem (setCursorPosition p s) = vga_mem s"
  by (simp add: setCursorPosition_def outb_def Let_def)

lemma kprintChar_mem:
  "vga_mem (kprintChar x y c col s) = (vga_mem s)(word_of_int (80 * y + x) := (c, col))"
  by (simp add: kprintChar_def NUM_COLS_def Let_def)

lemma cell_word:
  assumes "0 \<le> x" "x < 80" "0 \<le> y" "y < 25"
  shows "(word_of_int (80 * y + x) :: uint16) = of_nat (80 * nat y + nat x)" "80 * nat y + nat x < 2000"
proof -
  have e: "80 * y + x = int (80 * nat y + nat x)" using assms by simp
  show "(word_of_int (80 * y + x) :: uint16) = of_nat (80 * nat y + nat x)"
    unfolding e by (simp del: of_nat_add of_nat_mult)
  show "80 * nat y + nat x < 2000" using assms by linarith
qed

lemma wrap_range:
  assumes "0 \<le> x" "x \<le> 80" "0 \<le> y" "y \<le> 25" "wrap x y = (x', y')"
  shows "0 \<le> x'" "x' < 80" "0 \<le> y'" "y' < 25"
  using assms by (auto simp: wrap_def NUM_COLS_def NUM_ROWS_def split: if_splits)

lemma cell_unat:
  assumes "0 \<le> x" "x < 80" "0 \<le> y" "y < 25"
  shows "unat (word_of_int (80 * y + x) :: uint16) = 80 * nat y + nat x" "80 * nat y + nat x < 2000"
proof -
  show k: "80 * nat y + nat x < 2000" by (rule cell_word(2) [OF assms])
  then have "(80 * nat y + nat x) mod 65536 = 80 * nat y + nat x" by (intro mod_less) simp
  then show "unat (word_of_int (80 * y + x) :: uint16) = 80 * nat y + nat x"
    unfolding cell_word(1) [OF assms] by (simp add: unat_of_nat del: of_nat_add of_nat_mult)
qed

section \<open>Safety on every string\<close>

lemma escape_safe:
  assumes "i < length s"
  shows "\<exists>j col' g. escape s i oc col = Some (j, col', g) \<and> i \<le> j \<and> j < length s"
  using assms by (auto simp: escape_def char_at_def ansi_color_def Let_def split: if_splits)

lemma print_loop_safe:
  assumes "i \<le> length s" "0 \<le> x" "x < 80" "0 \<le> y" "y < 25"
  shows "\<exists>st'. print_loop s oc i x y col st = Some st' \<and> (\<forall>p. 2000 \<le> unat p \<longrightarrow> vga_mem st' p = vga_mem st p)"
  using assms
proof (induction s oc i x y col st rule: print_loop.induct)
  case (1 s oc i x y col st)
  note xy = "1.prems"(2-5)
  have cell: "word_of_int (80 * y + x) = p \<Longrightarrow> \<not> 2000 \<le> unat p" for p :: uint16
    using cell_unat [OF xy] by auto
  have keep: "2000 \<le> unat p \<Longrightarrow> vga_mem (kprintChar x y c k st) p = vga_mem st p" for p c k
    using cell [of p] by (auto simp: kprintChar_mem)
  consider "i = length s \<or> s ! i = 0" | "i < length s" "s ! i = 10" | "i < length s" "s ! i = 27"
    | "i < length s" "s ! i \<notin> {0, 10, 27}"
    using 1 by fastforce
  then show ?case
  proof cases
    case 1
    then show ?thesis using \<open>i \<le> length s\<close> by (subst print_loop.simps) (auto simp: char_at_def)
  next
    case 2
    obtain x' y' where w: "wrap 0 (y + 1) = (x', y')" by fastforce
    have "0 \<le> x' \<and> x' < 80 \<and> 0 \<le> y' \<and> y' < 25" using wrap_range [OF _ _ _ _ w] xy by auto
    then show ?thesis
      using 1(1) [of "s ! i" "(x', y')" x' y'] 2 w
      by (subst print_loop.simps) (simp add: char_at_def)
  next
    case 3
    obtain j col' g where e: "escape s i oc col = Some (j, col', g)" "j < length s"
      using escape_safe [OF 3(1)] by blast
    let ?st = "if g then kprintChar x y 71 (text_code TEXT_PINK OR background_code TEXT_BLACK) st else st"
    let ?x = "if g then x + 1 else x"
    obtain x' y' where w: "wrap ?x y = (x', y')" by fastforce
    have "0 \<le> x' \<and> x' < 80 \<and> 0 \<le> y' \<and> y' < 25" using wrap_range [OF _ _ _ _ w] xy by auto
    moreover have "\<forall>p. 2000 \<le> unat p \<longrightarrow> vga_mem ?st p = vga_mem st p" using keep by simp
    ultimately show ?thesis
      using 1(2) [of "s ! i" "(j, col', g)" j "(col', g)" col' g "(?x, ?st)" ?x ?st "(x', y')" x' y'] 3 w e
      by (subst print_loop.simps) (auto simp: char_at_def split: if_splits)
  next
    case 4
    obtain x' y' where w: "wrap (x + 1) y = (x', y')" by fastforce
    have "0 \<le> x' \<and> x' < 80 \<and> 0 \<le> y' \<and> y' < 25" using wrap_range [OF _ _ _ _ w] xy by auto
    then show ?thesis
      using 1(3) [of "s ! i" _ "(x', y')" x' y'] 4 w keep
      by (subst print_loop.simps) (auto simp: char_at_def Let_def)
  qed
qed

lemma mod_size_range: "0 < n \<Longrightarrow> 0 \<le> mod_size x n \<and> mod_size x n < int n"
  by (simp add: mod_size_def)

text \<open>
  C31. \<open>kprintStr\<close> is memory-safe on every string, position and colour, malformed escape codes
  included: it returns, reads no byte past the terminator (that would be \<open>None\<close>) and changes no
  cell outside the 80 x 25 visible ones.
\<close>

theorem kprintStr_safe:
  "\<exists>st'. kprintStr x y s col st = Some st' \<and> {p. vga_mem st' p \<noteq> vga_mem st p} \<subseteq> {p. unat p < 80 * 25}"
proof -
  obtain st' where "print_loop s col 0 (mod_size x NUM_COLS) (mod_size y NUM_ROWS) col st = Some st'"
     "\<forall>p. 2000 \<le> unat p \<longrightarrow> vga_mem st' p = vga_mem st p"
    using print_loop_safe [of 0 s "mod_size x NUM_COLS" "mod_size y NUM_ROWS" col col st]
      mod_size_range [of NUM_COLS x] mod_size_range [of NUM_ROWS y] by (auto simp: NUM_COLS_def NUM_ROWS_def)
  then show ?thesis by (auto simp: kprintStr_def not_le [symmetric])
qed

section \<open>The language of the console\<close>

datatype tok = Chr uint8 | Newline | Foreground nat | Reset

fun render :: "tok \<Rightarrow> uint8 list" where
  "render (Chr c) = [c]"
| "render Newline = [10]"
| "render (Foreground k) = [27, 91, 48, 59, 51, 48 + of_nat k, 109]"
| "render Reset = [27, 91, 48, 109]"

fun valid_tok :: "tok \<Rightarrow> bool" where
  "valid_tok (Chr c) \<longleftrightarrow> c \<notin> {0, 10, 27}"
| "valid_tok (Foreground k) \<longleftrightarrow> k < 8"
| "valid_tok _ \<longleftrightarrow> True"

definition palette :: "text_color list" where
  "palette = [TEXT_BLACK, TEXT_RED, TEXT_GREEN, TEXT_YELLOW, TEXT_BLUE, TEXT_PINK, TEXT_CYAN, TEXT_WHITE]"

text \<open>The specification: \<open>pos\<close> runs over the 2000 cells, row by row, and wraps to the first.\<close>

fun draw :: "color \<Rightarrow> nat \<Rightarrow> color \<Rightarrow> tok list \<Rightarrow> (uint16 \<Rightarrow> uint8 \<times> color) \<Rightarrow> (uint16 \<Rightarrow> uint8 \<times> color)" where
  "draw oc pos col [] m = m"
| "draw oc pos col (Chr c # ts) m = draw oc ((pos + 1) mod 2000) col ts (m(of_nat pos := (c, col)))"
| "draw oc pos col (Newline # ts) m = draw oc ((pos div 80 + 1) * 80 mod 2000) col ts m"
| "draw oc pos col (Foreground k # ts) m = draw oc pos ((col AND 0xF0) OR text_code (palette ! k)) ts m"
| "draw oc pos col (Reset # ts) m = draw oc pos oc ts m"

lemma char_at_append: "length pre \<le> n \<Longrightarrow> char_at (pre @ zs) n = char_at zs (n - length pre)"
  by (auto simp: char_at_def nth_append)

lemma char_at_Cons [simp]: "char_at (a # zs) 0 = Some a" "char_at (a # zs) (Suc k) = char_at zs k"
  "char_at [] 0 = Some 0"
  by (auto simp: char_at_def)

lemma escape_reset: "escape (pre @ render Reset @ zs) (length pre) oc col = Some (length pre + 3, oc, False)"
  by (simp add: escape_def char_at_append numeral_eq_Suc)

lemma escape_foreground:
  assumes "k < 8"
  shows "escape (pre @ render (Foreground k) @ zs) (length pre) oc col =
    Some (length pre + 6, (col AND 0xF0) OR text_code (palette ! k), False)"
proof -
  have "k \<in> {0, 1, 2, 3, 4, 5, 6, 7}" using assms by auto
  then have c: "ansi_color (48 + of_nat k) = Some (palette ! k)"
    by (elim insertE emptyE) (simp_all add: ansi_color_def palette_def)
  define s i where "s = pre @ render (Foreground k) @ zs" and "i = length pre"
  have at: "char_at s (Suc i) = Some 91" "char_at s (Suc (Suc i)) = Some 48" "char_at s (Suc (Suc (Suc i))) = Some 59"
    "char_at s (Suc (Suc (Suc (Suc i)))) = Some 51" "char_at s (Suc (Suc (Suc (Suc (Suc i))))) = Some (48 + of_nat k)"
    "char_at s (Suc (Suc (Suc (Suc (Suc (Suc i)))))) = Some 109"
    by (simp_all add: s_def i_def char_at_append Suc_diff_le)
  show ?thesis
    unfolding s_def [symmetric] i_def [symmetric] by (simp add: escape_def at c CLEAR_TEXT_COLOR_def)
qed

lemma print_loop_done: "print_loop s oc (length s) x y col st = Some st"
  by (subst print_loop.simps) (simp add: char_at_def)

text \<open>One token of a well-formed string, as the loop sees it.\<close>

lemma print_tok:
  assumes "valid_tok t"
  shows "print_loop (pre @ render t @ zs) oc (length pre) x y col st =
    (let s = pre @ render t @ zs; i = length (pre @ render t) in case t of
       Chr c \<Rightarrow> (let (x', y') = wrap (x + 1) y in print_loop s oc i x' y' col (kprintChar x y c col st))
     | Newline \<Rightarrow> (let (x', y') = wrap 0 (y + 1) in print_loop s oc i x' y' col st)
     | Foreground k \<Rightarrow> (let (x', y') = wrap x y in print_loop s oc i x' y' ((col AND 0xF0) OR text_code (palette ! k)) st)
     | Reset \<Rightarrow> (let (x', y') = wrap x y in print_loop s oc i x' y' oc st))"
proof (cases t)
  case (Chr c)
  then show ?thesis using assms
    by (subst print_loop.simps) (simp add: char_at_append Let_def)
next
  case Newline
  then show ?thesis by (subst print_loop.simps) (simp add: char_at_append Let_def)
next
  case (Foreground k)
  then have k: "k < 8" using assms by simp
  have "char_at (pre @ render t @ zs) (length pre) = Some 27" using Foreground by (simp add: char_at_append)
  moreover have "length (pre @ render (Foreground k)) = length pre + 6 + 1" by simp
  ultimately show ?thesis using escape_foreground [OF k, of pre zs oc col] unfolding Foreground
    by (subst print_loop.simps) (simp add: Let_def del: render.simps append_assoc length_append)
next
  case Reset
  have "char_at (pre @ render t @ zs) (length pre) = Some 27" using Reset by (simp add: char_at_append)
  moreover have "length (pre @ render Reset) = length pre + 3 + 1" by simp
  ultimately show ?thesis using escape_reset [of pre zs oc col] unfolding Reset
    by (subst print_loop.simps) (simp add: Let_def del: render.simps append_assoc length_append)
qed

lemma wrap_next:
  assumes "0 \<le> x" "x < 80" "0 \<le> y" "y < 25" "wrap (x + 1) y = (x', y')"
  shows "0 \<le> x'" "x' < 80" "0 \<le> y'" "y' < 25" "80 * nat y' + nat x' = (80 * nat y + nat x + 1) mod 2000"
proof -
  show "0 \<le> x'" "x' < 80" "0 \<le> y'" "y' < 25" by (rule wrap_range [OF _ _ _ _ assms(5)], use assms in auto)+
  obtain m n where m: "x = int m" "y = int n" using assms by (metis nonneg_int_cases)
  then have "m = 79 \<or> m < 79" "n = 24 \<or> n < 24" using assms by auto
  then show "80 * nat y' + nat x' = (80 * nat y + nat x + 1) mod 2000"
    using assms(5) m by (auto simp: wrap_def NUM_COLS_def NUM_ROWS_def nat_add_distrib split: if_splits)
qed

lemma wrap_newline:
  assumes "0 \<le> x" "x < 80" "0 \<le> y" "y < 25" "wrap 0 (y + 1) = (x', y')"
  shows "0 \<le> x'" "x' < 80" "0 \<le> y'" "y' < 25"
    "80 * nat y' + nat x' = ((80 * nat y + nat x) div 80 + 1) * 80 mod 2000"
proof -
  show "0 \<le> x'" "x' < 80" "0 \<le> y'" "y' < 25" by (rule wrap_range [OF _ _ _ _ assms(5)], use assms in auto)+
  obtain m n where m: "x = int m" "y = int n" using assms by (metis nonneg_int_cases)
  then have "m < 80" "n = 24 \<or> n < 24" using assms by auto
  then show "80 * nat y' + nat x' = ((80 * nat y + nat x) div 80 + 1) * 80 mod 2000"
    using assms(5) m by (auto simp: wrap_def NUM_COLS_def NUM_ROWS_def nat_add_distrib split: if_splits)
qed

lemma wrap_same: "0 \<le> x \<Longrightarrow> x < 80 \<Longrightarrow> 0 \<le> y \<Longrightarrow> y < 25 \<Longrightarrow> wrap x y = (x, y)"
  by (simp add: wrap_def NUM_COLS_def NUM_ROWS_def)

lemma print_loop_draw:
  assumes "list_all valid_tok ts" "0 \<le> x" "x < 80" "0 \<le> y" "y < 25"
  shows "\<exists>st'. print_loop (pre @ concat (map render ts)) oc (length pre) x y col st = Some st' \<and>
     vga_mem st' = draw oc (80 * nat y + nat x) col ts (vga_mem st)"
  using assms
proof (induction ts arbitrary: pre x y col st)
  case Nil
  then show ?case using print_loop_done [of pre oc x y col st] by (intro exI [of _ st]) simp
next
  case (Cons t ts)
  note xy = Cons.prems(2-5)
  have t: "valid_tok t" "list_all valid_tok ts" using Cons.prems(1) by auto
  let ?zs = "concat (map render ts)"
  note ih = Cons.IH [OF t(2), where pre = "pre @ render t", simplified append_assoc]
  note step = print_tok [OF t(1), of pre ?zs oc x y col st]
  show ?case
  proof (cases t)
    case (Chr c)
    obtain x' y' where w: "wrap (x + 1) y = (x', y')" by fastforce
    note W = wrap_next [OF xy w]
    show ?thesis using ih [OF W(1-4), of col "kprintChar x y c col st"] step Chr w W(5)
        cell_word(1) [OF xy] by (simp add: kprintChar_mem fun_upd_def)
  next
    case Newline
    obtain x' y' where w: "wrap 0 (y + 1) = (x', y')" by fastforce
    note W = wrap_newline [OF xy w]
    show ?thesis using ih [OF W(1-4), of col st] step Newline w W(5) by simp
  next
    case (Foreground k)
    show ?thesis using ih [OF xy, of "(col AND 0xF0) OR text_code (palette ! k)" st] step Foreground wrap_same [OF xy]
      by simp
  next
    case Reset
    show ?thesis using ih [OF xy, of oc st] step Reset wrap_same [OF xy] by simp
  qed
qed

lemma mod_size_nat:
  assumes "0 \<le> x" "x < int n" "n \<le> 80"
  shows "mod_size x n = x"
proof -
  obtain k where k: "x = int k" using assms(1) nonneg_int_cases by blast
  then have "k < n" using assms by simp
  then have "unat (of_nat k :: uint64) = k" using assms(3) by (simp add: unat_of_nat)
  then show ?thesis using k \<open>k < n\<close> by (simp add: mod_size_def)
qed

text \<open>
  C30. \<open>kprintStr\<close> implements its small language: on the text of any sequence of characters,
  newlines, foreground colours and resets it leaves on the screen exactly what the
  specification draws with a cursor that runs over the 2000 cells, wraps from the last to the
  first, keeps the background when the foreground changes and restores the caller's colour at a
  reset.
\<close>

theorem kprintStr_draws:
  assumes "list_all valid_tok ts" "0 \<le> x" "x < 80" "0 \<le> y" "y < 25"
  shows "\<exists>st'. kprintStr x y (concat (map render ts)) col st = Some st' \<and>
     vga_mem st' = draw col (80 * nat y + nat x) col ts (vga_mem st)"
  using print_loop_draw [OF assms, of "[]" col col st] assms
  by (simp add: kprintStr_def NUM_COLS_def NUM_ROWS_def mod_size_nat)

definition example_vga :: vga where
  "example_vga = \<lparr>outs = [], vga_mem = (\<lambda>_. (0, 0))\<rparr>"

text \<open>Red A in the last cell, then a default-coloured B in the first.\<close>

lemma kprintStr_draws_witness:
  "\<exists>st'. kprintStr 79 24 (concat (map render [Foreground 1, Chr 65, Reset, Chr 66])) 0x1f example_vga = Some st' \<and>
     vga_mem st' 1999 = (65, 0x14) \<and> vga_mem st' 0 = (66, 0x1f)"
  using kprintStr_draws [of "[Foreground 1, Chr 65, Reset, Chr 66]" 79 24 "0x1f" example_vga]
  by (auto simp: palette_def)

section \<open>Plain text\<close>

lemma draw_plain:
  assumes "pos + length cs \<le> 2000"
  shows "draw oc pos col (map Chr cs) m p = (if pos \<le> unat p \<and> unat p < pos + length cs then (cs ! (unat p - pos), col) else m p)"
  using assms
proof (induction cs arbitrary: pos m)
  case (Cons c cs)
  have u: "unat (of_nat pos :: uint16) = pos" by (rule unat_of_nat_small) (use Cons.prems in simp)
  then have e: "p = of_nat pos \<longleftrightarrow> unat p = pos" by (auto simp: word_unat_eq_iff)
  show ?case
  proof (cases "cs = []")
    case True
    then show ?thesis using e by auto
  next
    case False
    then have n: "(pos + 1) mod 2000 = pos + 1" using Cons.prems by (cases cs) simp_all
    let ?m = "m(of_nat pos := (c, col))"
    have "pos + 1 + length cs \<le> 2000" using Cons.prems by simp
    note IH = Cons.IH [OF this, of ?m]
    have "draw oc pos col (map Chr (c # cs)) m p = draw oc (pos + 1) col (map Chr cs) ?m p"
      using n by (simp only: list.map draw.simps)
    also have "\<dots> = (if pos \<le> unat p \<and> unat p < pos + length (c # cs) then ((c # cs) ! (unat p - pos), col) else m p)"
    proof (cases "unat p = pos")
      case True
      then show ?thesis unfolding IH using e by simp
    next
      case False
      then have "(c # cs) ! (unat p - pos) = cs ! (unat p - (pos + 1))" if "pos \<le> unat p"
        using False that by (simp add: nth_Cons')
      then show ?thesis unfolding IH using False e by auto
    qed
    finally show ?thesis .
  qed
qed auto

lemma kprintStr_plain:
  assumes "list_all (\<lambda>c. c \<notin> {0, 10, 27}) cs" "0 \<le> x" "x < 80" "0 \<le> y" "y < 25" "nat x + length cs \<le> 80"
  shows "\<exists>st'. kprintStr x y cs col st = Some st' \<and> (\<forall>p. vga_mem st' p =
    (if 80 * nat y + nat x \<le> unat p \<and> unat p < 80 * nat y + nat x + length cs then (cs ! (unat p - (80 * nat y + nat x)), col) else vga_mem st p))"
proof -
  have v: "list_all valid_tok (map Chr cs)" using assms(1) by (simp add: list_all_iff)
  have r: "concat (map render (map Chr cs)) = cs" by (induction cs) simp_all
  have "80 * nat y + nat x + length cs \<le> 2000" using assms(5,6) by linarith
  note D = draw_plain [OF this, of col col "vga_mem st"]
  obtain st' where "kprintStr x y cs col st = Some st'" "vga_mem st' = draw col (80 * nat y + nat x) col (map Chr cs) (vga_mem st)"
    using print_loop_draw [OF v assms(2-5), of "[]" col col st] assms r
    by (auto simp: kprintStr_def NUM_COLS_def NUM_ROWS_def mod_size_nat)
  then show ?thesis using D by (intro exI [of _ st']) simp
qed

section \<open>Clearing the screen\<close>

lemma clear_row:
  assumes "r < 25" "n \<le> 80"
  shows "vga_mem (fold (\<lambda>c s. kprintChar (int c) (int r) 32 col s) [0..<n] st) p =
     (if 80 * r \<le> unat p \<and> unat p < 80 * r + n then (32, col) else vga_mem st p)"
  using assms(2)
proof (induction n)
  case (Suc n)
  then have "n < 80" by simp
  have "unat (word_of_int (80 * int r + int n) :: uint16) = 80 * r + n"
    using cell_unat(1) [of "int n" "int r"] \<open>n < 80\<close> assms(1) by simp
  then have "p = word_of_int (80 * int r + int n) \<longleftrightarrow> unat p = 80 * r + n" by (auto simp: word_eq_unat)
  then show ?case using Suc by (auto simp: kprintChar_mem)
qed auto

lemma clear_rows:
  assumes "m \<le> 25"
  shows "vga_mem (fold (\<lambda>r s. fold (\<lambda>c s. kprintChar (int c) (int r) 32 col s) [0..<80] s) [0..<m] st) p =
     (if unat p < 80 * m then (32, col) else vga_mem st p)"
  using assms
proof (induction m)
  case (Suc m)
  then show ?case by (auto simp: clear_row)
qed simp

text \<open>\<open>clrscr\<close> blanks all 2000 visible cells in the given colour and no other cell.\<close>

theorem clrscr_blanks:
  "vga_mem (clrscr col st) p = (if unat p < 80 * 25 then (32, col) else vga_mem st p)"
  using clear_rows [of 25 col st p] by (simp add: clrscr_def NUM_COLS_def NUM_ROWS_def)

section \<open>The hardware cursor\<close>

text \<open>The CRT controller: an index register at 3D4h and the data register it selects at 3D5h.\<close>

definition crtc_write :: "uint16 \<times> uint8 \<Rightarrow> uint8 \<times> (uint8 \<Rightarrow> uint8) \<Rightarrow> uint8 \<times> (uint8 \<Rightarrow> uint8)" where
  "crtc_write w c = (if fst w = 0x3D4 then (snd w, snd c)
     else if fst w = 0x3D5 then (fst c, (snd c)(fst c := snd w)) else c)"

definition crtc_device :: "(uint8 \<Rightarrow> uint8) \<Rightarrow> (uint16 \<times> uint8) list \<Rightarrow> uint16 \<Rightarrow> uint8" where
  "crtc_device r0 os port = (let c = fold crtc_write os (0, r0) in if port = 0x3D5 then snd c (fst c) else 0)"

lemma byte_split: "(ucast (ucast (p AND 0xff :: uint16) :: uint8) :: uint16) OR
    push_bit 8 (ucast (ucast (drop_bit 8 p AND 0xff) :: uint8)) = p"
proof (rule bit_word_eqI)
  have m: "(0xff :: uint16) = mask 8" by (simp add: mask_eq_exp_minus_1)
  fix n assume "n < LENGTH(16)"
  then consider "n < 8" | "8 \<le> n" "n < 16" by fastforce
  then show "bit ((ucast (ucast (p AND 0xff :: uint16) :: uint8) :: uint16) OR
      push_bit 8 (ucast (ucast (drop_bit 8 p AND 0xff) :: uint8))) n = bit p n"
    unfolding m by cases (simp_all add: bit_simps less_diff_conv2)
qed

text \<open>
  The hardware cursor follows the text: with a CRT controller behind the ports,
  \<open>getCursorPosition\<close> returns what \<open>setCursorPosition\<close> stored, and after \<open>kprintChar\<close> it is the
  cell after the one written.
\<close>

theorem cursor_roundtrip:
  "fst (getCursorPosition (crtc_device r0) (setCursorPosition p s)) = p \<and>
   fst (getCursorPosition (crtc_device r0) (kprintChar x y c col v)) = word_of_int (80 * y + x) + 1"
proof -
  have *: "fst (getCursorPosition (crtc_device r0) (setCursorPosition q t)) = q" for q :: uint16 and t :: "'c ports_scheme"
    using byte_split [of q]
    by (simp add: getCursorPosition_def setCursorPosition_def inb_def crtc_device_def crtc_write_def Let_def)
  show ?thesis by (simp add: * kprintChar_def NUM_COLS_def Let_def)
qed

end
