(* ===== verification/Keyboard.thy ===== *)
theory Keyboard
  imports Prelude
begin

text \<open>
  The keyboard: \<open>src/lib/kernel/keyboard/keyboard.cpp\<close> and the key buffer of \<open>src/lib/stdio.cpp\<close>,
  which have the same table of 128 characters. Both index it with the scancode before they
  test its release bit, so a release code reads past the table: \<open>beyond\<close> is what the memory
  there holds. A reader that waits in \<open>getChar\<close> polls between interrupts: the model gives it
  the scancodes that arrive between two polls.
\<close>

section \<open>The code\<close>

definition keymap_br :: "uint8 list" where
  "keymap_br = [0, 0,
     49, 50, 51, 52, 53, 54, 55, 56, 57, 48, 45, 61, 8,
     9,
     113, 119, 101, 114, 116, 121, 117, 105, 111, 112, 0,
     91, 10, 0,
     97, 115, 100, 102, 103, 104, 106, 107, 108, 0, 0,
     39, 0,
     93, 122, 120, 99, 118, 98, 110, 109, 44, 46, 59, 0,
     0, 0, 32, 0,
     0, 0, 0, 0, 0, 0, 0, 0, 0, 0,
     0, 0, 0, 0, 0, 45, 0, 0, 0, 43, 0,
     0, 0, 0, 0, 0, 0, 0, 0, 0, 0] @ replicate 38 0"

definition keymap_at :: "(uint8 \<Rightarrow> uint8) \<Rightarrow> uint8 \<Rightarrow> uint8" where
  "keymap_at beyond k = (if unat k < 128 then keymap_br ! unat k else beyond k)"

definition keyboard_input :: "(uint8 \<Rightarrow> uint8) \<Rightarrow> uint8 \<Rightarrow> uint8 \<Rightarrow> uint8" where
  "keyboard_input beyond keycode lastkey =
     (if keymap_at beyond keycode = 0 then lastkey
      else if keycode AND push_bit 7 1 \<noteq> 0 then lastkey
      else keymap_at beyond keycode)"

record kbd =
  key_buffer :: "uint8 list"   \<comment> \<open>\<open>buffer\<close>, 8 entries, newest first\<close>
  keyboard_vez :: uint64       \<comment> \<open>keys so far\<close>

definition getCaracTime :: "uint64 \<Rightarrow> kbd \<Rightarrow> uint16" where
  "getCaracTime time s =
     (if time < keyboard_vez s
      then (let aux = keyboard_vez s - time in
        if 8 \<le> aux then push_bit 8 8 + ucast (key_buffer s ! 7)
        else ucast (push_bit 8 (aux + 1) + ucast (key_buffer s ! unat (aux - 1)) :: uint64))
      else 0)"

definition shift_key :: "nat \<Rightarrow> uint8 list \<Rightarrow> uint8 list" where
  "shift_key x b = b[x := b ! (x - 1)]"

definition keyboard :: "(uint8 \<Rightarrow> uint8) \<Rightarrow> uint8 \<Rightarrow> kbd \<Rightarrow> kbd" where
  "keyboard beyond keycode s =
     (if keymap_at beyond keycode = 0 then s
      else if keycode AND push_bit 7 1 \<noteq> 0 then s
      else (let
        s = s\<lparr>keyboard_vez := keyboard_vez s + 1\<rparr>;
        s = s\<lparr>key_buffer := fold shift_key [7, 6, 5, 4, 3, 2, 1] (key_buffer s)\<rparr>
        in s\<lparr>key_buffer := (key_buffer s)[0 := keymap_at beyond keycode]\<rparr>))"

text \<open>\<open>getChar\<close>: \<open>None\<close> while it still waits at the end of the given polls.\<close>

fun getChar_loop :: "(uint8 \<Rightarrow> uint8) \<Rightarrow> uint64 \<Rightarrow> uint8 list list \<Rightarrow> kbd \<Rightarrow> (uint8 \<times> kbd) option" where
  "getChar_loop beyond time [] s =
     (let carac = getCaracTime time s in if carac = 0 then None else Some (ucast carac, s))"
| "getChar_loop beyond time (ks # polls) s =
     (let carac = getCaracTime time s in
      if carac = 0 then getChar_loop beyond time polls (fold (keyboard beyond) ks s)
      else Some (ucast carac, s))"

definition getChar :: "(uint8 \<Rightarrow> uint8) \<Rightarrow> uint8 list list \<Rightarrow> kbd \<Rightarrow> (uint8 \<times> kbd) option" where
  "getChar beyond polls s = getChar_loop beyond (keyboard_vez s) polls s"

definition getch :: "(uint8 \<Rightarrow> uint8) \<Rightarrow> uint8 list list \<Rightarrow> kbd \<Rightarrow> (uint8 \<times> kbd) option" where
  "getch beyond polls s = getChar beyond polls s"

section \<open>What is typed\<close>

text \<open>The characters of a sequence of scancodes: key presses with a character, in order.\<close>

definition typed :: "uint8 list \<Rightarrow> uint8 list" where
  "typed ks = filter (\<lambda>c. c \<noteq> 0) (map (\<lambda>k. keymap_br ! unat k) (filter (\<lambda>k. unat k < 128) ks))"

text \<open>The buffer against the whole history \<open>h\<close>, oldest first.\<close>

definition kbd_ok :: "kbd \<Rightarrow> uint8 list \<Rightarrow> bool" where
  "kbd_ok s h \<longleftrightarrow> keyboard_vez s = of_nat (length h) \<and> length h < 2 ^ 63 \<and>
     key_buffer s = take 8 (rev h @ replicate 8 0)"

lemma keymap_length: "length keymap_br = 128"
  by (simp add: keymap_br_def)

lemma release_bit: "(k :: uint8) AND push_bit 7 1 \<noteq> 0 \<longleftrightarrow> 128 \<le> unat k"
proof -
  have "k AND push_bit 7 1 \<noteq> 0 \<longleftrightarrow> bit k 7" by (rule and_push_bit_1) simp
  also have "\<dots> \<longleftrightarrow> 128 \<le> unat k"
  proof -
    have "unat k < 256" using unsigned_less [of k] by simp
    have "bit k 7 \<longleftrightarrow> bit (unat k) 7" by (simp add: bit_unsigned_iff)
    then have "bit k 7 \<longleftrightarrow> odd (unat k div 128)" by (simp add: bit_iff_odd)
    also have "\<dots> \<longleftrightarrow> 128 \<le> unat k"
    proof
      assume "128 \<le> unat k"
      then have "unat k div 128 = 1" using \<open>unat k < 256\<close> by (intro div_nat_eqI) auto
      then show "odd (unat k div 128)" by simp
    next
      assume "odd (unat k div 128)"
      then show "128 \<le> unat k" by (metis div_less even_zero not_le)
    qed
    finally show ?thesis .
  qed
  finally show ?thesis .
qed

lemma keyboard_step:
  "keyboard beyond k s =
     (if unat k < 128 \<and> keymap_br ! unat k \<noteq> 0
      then s\<lparr>keyboard_vez := keyboard_vez s + 1,
             key_buffer := (fold shift_key [7, 6, 5, 4, 3, 2, 1] (key_buffer s))[0 := keymap_br ! unat k]\<rparr>
      else s)"
  unfolding keyboard_def release_bit by (simp add: keymap_at_def Let_def)

lemma shift_keys:
  assumes "length b = 8"
  shows "(fold shift_key [7, 6, 5, 4, 3, 2, 1] b)[0 := c] = c # take 7 b"
proof -
  obtain b0 b1 b2 b3 b4 b5 b6 b7 where "b = [b0, b1, b2, b3, b4, b5, b6, b7]"
    using assms by (auto simp: numeral_eq_Suc length_Suc_conv)
  then show ?thesis by (simp add: shift_key_def)
qed

lemma take_Suc_pad: "take 7 (take 8 (xs @ replicate 8 0)) = take 7 (xs @ replicate 8 0)"
  by simp

lemma keyboard_accept:
  assumes "unat k < 128" "keymap_br ! unat k \<noteq> 0" "length (key_buffer s) = 8"
  shows "keyboard beyond k s =
    s\<lparr>keyboard_vez := keyboard_vez s + 1, key_buffer := keymap_br ! unat k # take 7 (key_buffer s)\<rparr>"
  using assms(1,2) unfolding keyboard_step shift_keys [OF assms(3)] by simp

lemma keyboard_ok:
  assumes "kbd_ok s h" "length h < 2 ^ 63 - 1"
  shows "kbd_ok (keyboard beyond k s) (h @ typed [k])"
proof (cases "unat k < 128 \<and> keymap_br ! unat k \<noteq> 0")
  case True
  have "length (key_buffer s) = 8" using assms(1) by (simp add: kbd_ok_def)
  then have "keyboard beyond k s =
      s\<lparr>keyboard_vez := keyboard_vez s + 1, key_buffer := keymap_br ! unat k # take 7 (key_buffer s)\<rparr>"
    using True by (intro keyboard_accept) auto
  then show ?thesis using True assms
    by (simp add: kbd_ok_def typed_def take_Cons' add.commute)
next
  case False
  then show ?thesis using assms by (auto simp: keyboard_step typed_def)
qed

lemma typed_append: "typed (xs @ ys) = typed xs @ typed ys"
  by (simp add: typed_def)

lemma typed_Cons: "typed (k # ks) = typed [k] @ typed ks"
  by (metis append_Cons append_Nil typed_append)

lemma typed_length: "length (typed ks) \<le> length ks"
proof -
  have "length (typed ks) \<le> length (filter (\<lambda>k. unat k < 128) ks)"
    unfolding typed_def by (rule order_trans [OF length_filter_le]) simp
  also have "\<dots> \<le> length ks" by (rule length_filter_le)
  finally show ?thesis .
qed

lemma keyboard_fold_ok:
  assumes "kbd_ok s h" "length h + length ks < 2 ^ 63"
  shows "kbd_ok (fold (keyboard beyond) ks s) (h @ typed ks)"
  using assms
proof (induction ks arbitrary: s h)
  case (Cons k ks)
  have "kbd_ok (keyboard beyond k s) (h @ typed [k])" using Cons.prems by (intro keyboard_ok) auto
  then have "kbd_ok (fold (keyboard beyond) ks (keyboard beyond k s)) ((h @ typed [k]) @ typed ks)"
    using Cons.prems typed_length [of "[k]"] by (intro Cons.IH) auto
  then show ?case using typed_Cons [of k ks] by simp
qed (simp add: typed_def)

section \<open>Properties\<close>

text \<open>
  C32. The key buffer is the history: whatever scancodes arrive (releases and keys without a
  character included) and whatever lies past the table, after them the counter is the number
  of characters typed and the buffer holds the last eight, newest first. The same scancode
  sets \<open>lastkey\<close> in the other driver exactly when it types a character.
\<close>

theorem keyboard_history:
  assumes "length ks < 2 ^ 63"
  shows "keyboard_vez (fold (keyboard beyond) ks \<lparr>key_buffer = replicate 8 0, keyboard_vez = 0\<rparr>) =
       of_nat (length (typed ks)) \<and>
     key_buffer (fold (keyboard beyond) ks \<lparr>key_buffer = replicate 8 0, keyboard_vez = 0\<rparr>) =
       take 8 (rev (typed ks) @ replicate 8 0) \<and>
     keyboard_input beyond k lastkey = last (lastkey # typed [k])"
proof -
  have "kbd_ok \<lparr>key_buffer = replicate 8 0, keyboard_vez = 0\<rparr> []" by (simp add: kbd_ok_def)
  from keyboard_fold_ok [OF this] show ?thesis
    using assms release_bit [of k] by (auto simp: kbd_ok_def keyboard_input_def keymap_at_def typed_def)
qed

lemma keyboard_history_witness:
  "key_buffer (fold (keyboard (\<lambda>_. 7)) [30, 158, 48] \<lparr>key_buffer = replicate 8 0, keyboard_vez = 0\<rparr>) =
     98 # 97 # replicate 6 0"
proof -
  have "typed [30, 158, 48] = [97, 98]" by (simp add: typed_def keymap_br_def)
  then show ?thesis using keyboard_history [of "[30, 158, 48]" "\<lambda>_. 7"] by simp
qed

lemma count_char:
  "push_bit 8 (of_nat k + 1) + ucast (c :: uint8) = (of_nat ((k + 1) * 256 + unat c) :: uint64)"
  by (simp add: push_bit_eq_mult algebra_simps)

lemma getCaracTime_ok:
  assumes "kbd_ok s h" "t \<le> length h"
  shows "getCaracTime (of_nat t) s =
    (if t = length h then 0
     else if length h - t < 8 then of_nat ((length h - t + 1) * 256 + unat (h ! t))
     else of_nat (8 * 256 + unat (h ! (length h - 8))))"
proof -
  let ?n = "length h"
  have n: "?n < 2 ^ 63" and v: "keyboard_vez s = of_nat ?n" and b: "key_buffer s = take 8 (rev h @ replicate 8 0)"
    using assms(1) by (auto simp: kbd_ok_def)
  have u: "unat (of_nat k :: uint64) = k" if "k \<le> ?n + 1" for k
    using that n by (simp add: unat_of_nat)
  have lt: "(of_nat t :: uint64) < of_nat ?n \<longleftrightarrow> t < ?n"
    using assms(2) by (simp add: word_less_nat_alt u)
  show ?thesis
  proof (cases "t < ?n")
    case False
    then show ?thesis using assms(2) lt by (simp add: getCaracTime_def v)
  next
    case True
    let ?d = "?n - t"
    have d: "(of_nat ?n :: uint64) - of_nat t = of_nat ?d" using True by (simp add: of_nat_diff)
    have le: "(8 :: uint64) \<le> of_nat ?d \<longleftrightarrow> 8 \<le> ?d" using u [of ?d] by (simp add: word_le_nat_alt)
    show ?thesis
    proof (cases "8 \<le> ?d")
      case True
      have "key_buffer s ! 7 = h ! (?n - 8)"
        using True by (simp add: b nth_append rev_nth)
      moreover have "(push_bit 8 8 :: uint16) + ucast (h ! (?n - 8)) = of_nat (8 * 256 + unat (h ! (?n - 8)))"
        by simp
      moreover have "getCaracTime (of_nat t) s = push_bit 8 8 + ucast (key_buffer s ! 7)"
        using True \<open>t < ?n\<close> lt le d by (simp only: getCaracTime_def v Let_def simp_thms if_True)
      ultimately show ?thesis using True \<open>t < ?n\<close> by (simp del: of_nat_add of_nat_mult)
    next
      case False
      have one: "(of_nat ?d :: uint64) - 1 = of_nat (?d - 1)" using \<open>t < ?n\<close> by (simp add: of_nat_diff)
      have "?d - 1 < 8" "?d - 1 < length (rev h)" using False \<open>t < ?n\<close> by auto
      then have "key_buffer s ! (?d - 1) = rev h ! (?d - 1)" unfolding b by (simp only: nth_take nth_append if_True)
      also have "\<dots> = h ! t" using \<open>t < ?n\<close> by (simp add: rev_nth)
      finally have "key_buffer s ! (?d - 1) = h ! t" .
      moreover have "unat (of_nat (?d - 1) :: uint64) = ?d - 1" by (rule u) simp
      moreover have "ucast (push_bit 8 (of_nat ?d + 1) + ucast (h ! t) :: uint64) =
          (of_nat ((?d + 1) * 256 + unat (h ! t)) :: uint16)"
      proof -
        have "push_bit 8 (of_nat ?d + 1) + ucast (h ! t) = (of_nat ((?d + 1) * 256 + unat (h ! t)) :: uint64)"
          by (rule count_char)
        then show ?thesis
          using ucast_of_nat_down [where 'a = 64 and 'b = 16] by (simp del: of_nat_add of_nat_mult)
      qed
      moreover have "getCaracTime (of_nat t) s =
          ucast (push_bit 8 (of_nat ?d + 1) + ucast (key_buffer s ! unat (of_nat (?d - 1) :: uint64)) :: uint64)"
        using False \<open>t < ?n\<close> lt le d one by (simp only: getCaracTime_def v Let_def simp_thms if_True if_False)
      ultimately show ?thesis using False \<open>t < ?n\<close> by (simp del: of_nat_add of_nat_mult)
    qed
  qed
qed

lemma ucast_count_char: "(ucast (of_nat (m * 256 + unat (c :: uint8)) :: uint16) :: uint8) = c"
proof -
  have "(ucast (of_nat (m * 256 + unat c) :: uint16) :: uint8) = of_nat (m * 256 + unat c)"
    by (rule ucast_of_nat_down) simp
  also have "\<dots> = of_nat m * 256 + c" by simp
  also have "(256 :: uint8) = 0" by (simp add: word_eq_unat)
  finally show ?thesis by simp
qed

lemma count_char_nonzero:
  assumes "0 < m" "m < 256"
  shows "(of_nat (m * 256 + unat (c :: uint8)) :: uint16) \<noteq> 0"
proof -
  have "unat c < 256" using unsigned_less [of c] by simp
  then have "m * 256 + unat c < 65536" using assms by linarith
  then have "unat (of_nat (m * 256 + unat c) :: uint16) = m * 256 + unat c"
    by (simp add: unat_of_nat del: of_nat_add of_nat_mult)
  then show ?thesis using assms(1) by (metis add_is_0 mult_is_0 not_gr0 unat_0 zero_neq_numeral)
qed

text \<open>The oldest key after the first \<open>t\<close> that the buffer still holds.\<close>

definition next_key :: "uint8 list \<Rightarrow> nat \<Rightarrow> uint8" where
  "next_key h t = h ! max t (length h - 8)"

lemma getCaracTime_char:
  assumes "kbd_ok s h" "t < length h"
  shows "getCaracTime (of_nat t) s \<noteq> 0" "ucast (getCaracTime (of_nat t) s) = next_key h t"
proof -
  define m where "m = (if length h - t < 8 then length h - t + 1 else 8)"
  have m: "0 < m" "m < 256" by (auto simp: m_def)
  have "max t (length h - 8) = (if length h - t < 8 then t else length h - 8)" using assms(2) by auto
  then have "getCaracTime (of_nat t) s = of_nat (m * 256 + unat (next_key h t))"
    using getCaracTime_ok [OF assms(1), of t] assms(2)
    by (simp add: m_def next_key_def del: of_nat_add of_nat_mult split del: if_split cong: if_cong)
      (simp split: if_split)
  then show "getCaracTime (of_nat t) s \<noteq> 0" "ucast (getCaracTime (of_nat t) s) = next_key h t"
    using count_char_nonzero [OF m] ucast_count_char by simp_all
qed

lemma getChar_loop_ok:
  assumes "kbd_ok s h" "t = length h" "\<forall>ks \<in> set quiet. typed ks = []" "typed ks \<noteq> []"
    "length h + length (concat quiet) + length ks < 2 ^ 63"
  shows "\<exists>s'. getChar_loop beyond (of_nat t) (quiet @ ks # rest) s = Some (next_key (h @ typed ks) t, s') \<and>
    kbd_ok s' (h @ typed ks)"
  using assms
proof (induction quiet arbitrary: s)
  case Nil
  have z: "getCaracTime (of_nat t) s = 0" using getCaracTime_ok [OF Nil.prems(1), of t] Nil.prems(2) by simp
  let ?s = "fold (keyboard beyond) ks s"
  have ok: "kbd_ok ?s (h @ typed ks)" using Nil.prems by (intro keyboard_fold_ok) auto
  have "t < length (h @ typed ks)" using Nil.prems by simp
  note C = getCaracTime_char [OF ok this]
  have "getChar_loop beyond (of_nat t) rest ?s = Some (next_key (h @ typed ks) t, ?s)"
    using C by (cases rest) (simp_all add: Let_def)
  then show ?case using z ok by (simp add: Let_def)
next
  case (Cons q quiet)
  have z: "getCaracTime (of_nat t) s = 0" using getCaracTime_ok [OF Cons.prems(1), of t] Cons.prems(2) by simp
  have "kbd_ok (fold (keyboard beyond) q s) (h @ typed q)" using Cons.prems by (intro keyboard_fold_ok) auto
  then have "kbd_ok (fold (keyboard beyond) q s) h" using Cons.prems(3) by simp
  from Cons.IH [OF this] show ?case using Cons.prems z by (simp add: Let_def)
qed

text \<open>
  C33. \<open>getChar\<close> skips everything typed before the call, waits while no character arrives (for
  any number of polls that bring only releases or silent keys), and returns the first character
  typed after the call; a burst of more than eight between two polls loses all but the last
  eight, and it returns the oldest of those.
\<close>

theorem getChar_next:
  assumes "kbd_ok s h" "\<forall>ks \<in> set quiet. typed ks = []" "typed ks \<noteq> []"
    "length h + length (concat quiet) + length ks < 2 ^ 63"
  shows "\<exists>s'. getChar beyond (quiet @ ks # rest) s = Some (typed ks ! (length (typed ks) - 8), s') \<and>
    kbd_ok s' (h @ typed ks)"
proof -
  have "keyboard_vez s = of_nat (length h)" using assms(1) by (simp add: kbd_ok_def)
  moreover have "next_key (h @ typed ks) (length h) = typed ks ! (length (typed ks) - 8)"
  proof -
    have "length (h @ typed ks) - 8 \<le> length h \<or> 8 \<le> length (typed ks)" by auto
    then show ?thesis by (auto simp: next_key_def nth_append max_def)
  qed
  ultimately show ?thesis
    using getChar_loop_ok [OF assms(1) refl assms(2-4), of beyond rest] by (simp add: getChar_def)
qed

lemma getChar_next_witness:
  "\<exists>s'. getChar (\<lambda>_. 7) [[158], [29, 157], [30, 48]] \<lparr>key_buffer = replicate 8 0, keyboard_vez = 0\<rparr> = Some (97, s')"
proof -
  have "kbd_ok \<lparr>key_buffer = replicate 8 0, keyboard_vez = 0\<rparr> []" by (simp add: kbd_ok_def)
  moreover have "typed [158] = []" "typed [29, 157] = []" "typed [30, 48] = [97, 98]"
    by (simp_all add: typed_def keymap_br_def)
  ultimately show ?thesis
    using getChar_next [of _ "[]" "[[158], [29, 157]]" "[30, 48]" "\<lambda>_. 7" "[]"] by auto
qed

end
