(* ===== verification/Layout.thy ===== *)
theory Layout
  imports Prelude
begin

text \<open>
  How the compiler lays a C struct out in memory on x86-64: every field at the next multiple of
  its alignment, the whole rounded up to the largest alignment. The kernel's structs (whose
  \<open>sizeof\<close> the code uses) and those of the headers are descriptions in this language; values are
  stored as the bytes of each field, integers little-endian.
\<close>

section \<open>Types, sizes, offsets\<close>

datatype ctype =
    Sized nat                               \<comment> \<open>an integer or pointer of so many bytes\<close>
  | Arr nat ctype
  | Struct "(string \<times> ctype) list"
  | Packed "(string \<times> ctype) list"         \<comment> \<open>\<open>__attribute__((packed))\<close>\<close>

abbreviation U8 :: ctype where "U8 \<equiv> Sized 1"
abbreviation U16 :: ctype where "U16 \<equiv> Sized 2"
abbreviation U32 :: ctype where "U32 \<equiv> Sized 4"
abbreviation U64 :: ctype where "U64 \<equiv> Sized 8"
abbreviation Ptr :: ctype where "Ptr \<equiv> Sized 8"

definition round_up :: "nat \<Rightarrow> nat \<Rightarrow> nat" where
  "round_up n a = (if a = 0 then n else (n + a - 1) div a * a)"

fun align_of :: "ctype \<Rightarrow> nat" and align_fields :: "(string \<times> ctype) list \<Rightarrow> nat" where
  "align_of (Sized n) = n"
| "align_of (Arr k t) = align_of t"
| "align_of (Struct fs) = align_fields fs"
| "align_of (Packed fs) = 1"
| "align_fields [] = 1"
| "align_fields (f # fs) = max (align_of (snd f)) (align_fields fs)"

fun size_of :: "ctype \<Rightarrow> nat" and end_fields :: "nat \<Rightarrow> (string \<times> ctype) list \<Rightarrow> nat"
  and end_packed :: "nat \<Rightarrow> (string \<times> ctype) list \<Rightarrow> nat" where
  "size_of (Sized n) = n"
| "size_of (Arr k t) = k * size_of t"
| "size_of (Struct fs) = round_up (end_fields 0 fs) (align_fields fs)"
| "size_of (Packed fs) = end_packed 0 fs"
| "end_fields off [] = off"
| "end_fields off (f # fs) = end_fields (round_up off (align_of (snd f)) + size_of (snd f)) fs"
| "end_packed off [] = off"
| "end_packed off (f # fs) = end_packed (off + size_of (snd f)) fs"

fun offsets :: "nat \<Rightarrow> (string \<times> ctype) list \<Rightarrow> (string \<times> nat) list" where
  "offsets off [] = []"
| "offsets off (f # fs) = (let o1 = round_up off (align_of (snd f)) in (fst f, o1) # offsets (o1 + size_of (snd f)) fs)"

section \<open>Storing and reading\<close>

fun store_fields :: "nat \<Rightarrow> (string \<times> ctype) list \<Rightarrow> uint8 list list \<Rightarrow> uint8 list" where
  "store_fields off (f # fs) (v # vs) = (let o1 = round_up off (align_of (snd f)) in
     replicate (o1 - off) 0 @ v @ store_fields (o1 + size_of (snd f)) fs vs)"
| "store_fields off _ _ = []"

fun load_fields :: "nat \<Rightarrow> (string \<times> ctype) list \<Rightarrow> uint8 list \<Rightarrow> uint8 list list" where
  "load_fields off [] bs = []"
| "load_fields off (f # fs) bs = (let o1 = round_up off (align_of (snd f)); bs = drop (o1 - off) bs in
     take (size_of (snd f)) bs # load_fields (o1 + size_of (snd f)) fs (drop (size_of (snd f)) bs))"

definition fits :: "(string \<times> ctype) list \<Rightarrow> uint8 list list \<Rightarrow> bool" where
  "fits fs vs \<longleftrightarrow> list_all2 (\<lambda>f v. length v = size_of (snd f)) fs vs"

lemma load_store:
  "list_all2 (\<lambda>f v. length v = size_of (snd f)) fs vs \<Longrightarrow> load_fields off fs (store_fields off fs vs @ rest) = vs"
  by (induction off fs vs rule: store_fields.induct) (auto simp: Let_def)

lemma round_up_ge: "n \<le> round_up n a"
proof (cases "a = 0")
  case False
  define q r where "q = (n + a - 1) div a * a" and "r = (n + a - 1) mod a"
  have "n + a - 1 = q + r" "r < a" using False by (simp_all add: q_def r_def)
  moreover have "round_up n a = q" using False by (simp add: round_up_def q_def)
  ultimately show ?thesis by linarith
qed (simp add: round_up_def)

lemma store_length:
  "list_all2 (\<lambda>f v. length v = size_of (snd f)) fs vs \<Longrightarrow> off + length (store_fields off fs vs) = end_fields off fs"
proof (induction off fs vs rule: store_fields.induct)
  case (1 off f fs v vs)
  let ?o = "round_up off (align_of (snd f))"
  have "?o + size_of (snd f) + length (store_fields (?o + size_of (snd f)) fs vs) = end_fields (?o + size_of (snd f)) fs"
    using 1 by simp
  then show ?case using "1.prems" round_up_ge [of off "align_of (snd f)"] by (simp add: Let_def)
qed auto

text \<open>Integers, little-endian.\<close>

fun le_bytes :: "nat \<Rightarrow> nat \<Rightarrow> uint8 list" where
  "le_bytes 0 v = []"
| "le_bytes (Suc n) v = of_nat (v mod 256) # le_bytes n (v div 256)"

fun le_value :: "uint8 list \<Rightarrow> nat" where
  "le_value [] = 0"
| "le_value (b # bs) = unat b + 256 * le_value bs"

lemma le_bytes_length [simp]: "length (le_bytes n v) = n"
  by (induction n arbitrary: v) auto

lemma le_roundtrip: "v < 256 ^ n \<Longrightarrow> le_value (le_bytes n v) = v"
proof (induction n arbitrary: v)
  case (Suc n)
  have "v div 256 < 256 ^ n" using Suc.prems by (simp add: less_mult_imp_div_less mult.commute)
  moreover have "unat (of_nat (v mod 256) :: uint8) = v mod 256" by (simp add: unat_of_nat)
  ultimately show ?case using Suc.IH by simp
qed simp

section \<open>The kernel's structs\<close>

definition boundary_tag_layout :: ctype where
  "boundary_tag_layout = Struct [(''magic'', U32), (''size'', U32), (''real_size'', U32), (''index'', U32),
     (''split_left'', Ptr), (''split_right'', Ptr), (''next'', Ptr), (''prev'', Ptr)]"

definition memory_space_layout :: ctype where
  "memory_space_layout = Struct [(''base'', U64), (''size'', U64)]"

definition memory_map_layout :: ctype where
  "memory_map_layout = Packed [(''space'', memory_space_layout), (''type'', U32), (''extendedAtb'', U32)]"

definition list_frame_layout :: ctype where
  "list_frame_layout = Struct [(''data'', memory_space_layout), (''next'', Ptr)]"

definition idt_entry_layout :: ctype where
  "idt_entry_layout = Packed [(''offset_0_15'', U16), (''segment'', U16), (''ist'', U8), (''type'', U8),
     (''offset_16_31'', U16), (''offset_32_63'', U32), (''_reserved'', U32)]"

definition idtr_layout :: ctype where
  "idtr_layout = Packed [(''limit'', U16), (''base'', Ptr)]"

definition Gdt_pointer_layout :: ctype where
  "Gdt_pointer_layout = Packed [(''size'', U16), (''vector'', Ptr)]"

definition Char_layout :: ctype where
  "Char_layout = Struct [(''c'', U8), (''color'', U8)]"

definition cpu_state_layout :: ctype where
  "cpu_state_layout = Struct [(''rax'', U64), (''rbx'', U64), (''rcx'', U64), (''rdx'', U64),
     (''r8'', U64), (''r9'', U64), (''r10'', U64), (''r11'', U64), (''r12'', U64), (''r13'', U64), (''r14'', U64),
     (''r15'', U64), (''rsp'', U64), (''rbp'', U64), (''fs_base'', U64)]"

definition stack_layout :: ctype where
  "stack_layout = Struct [(''stack_start'', Ptr), (''size'', U64)]"

definition thread_layout :: ctype where
  "thread_layout = Struct [(''state'', cpu_state_layout), (''stack'', stack_layout)]"

lemmas kernel_layouts = boundary_tag_layout_def memory_space_layout_def memory_map_layout_def list_frame_layout_def
  idt_entry_layout_def idtr_layout_def Gdt_pointer_layout_def Char_layout_def cpu_state_layout_def stack_layout_def
  thread_layout_def

text \<open>The entries of the BIOS memory map are read at \<open>mem++\<close>: 24 bytes each.\<close>

text \<open>
  The sizes the code and the processor rely on: 48 bytes of boundary tag, 24 of frame-list
  node, 24 per BIOS memory-map entry, 16 per interrupt gate, 10 for the operands of \<open>lidt\<close> and
  \<open>lgdt\<close>, 2 per screen cell, 136 per thread.
\<close>

theorem kernel_struct_sizes:
  "size_of boundary_tag_layout = 48 \<and> size_of list_frame_layout = 24 \<and> size_of memory_map_layout = 24 \<and>
   size_of idt_entry_layout = 16 \<and> size_of idtr_layout = 10 \<and> size_of Gdt_pointer_layout = 10 \<and>
   size_of Char_layout = 2 \<and> size_of cpu_state_layout = 120 \<and> size_of thread_layout = 136"
  by (simp add: kernel_layouts round_up_def)

end
