(* ===== verification/Elf_Types.thy ===== *)
theory Elf_Types
  imports Layout
begin

text \<open>
  The ELF object format as \<open>src/include/libc/elf.h\<close> declares it: its structs as layouts, and the
  macros that pack and unpack a symbol's binding and type, a relocation's symbol and type, and
  a move entry's symbol and size.
\<close>

section \<open>Structs\<close>

definition Elf32_Ehdr :: ctype where
  "Elf32_Ehdr = Struct [(''e_ident'', Arr 16 U8), (''e_type'', U16), (''e_machine'', U16),
     (''e_version'', U32), (''e_entry'', U32), (''e_phoff'', U32), (''e_shoff'', U32), (''e_flags'', U32),
     (''e_ehsize'', U16), (''e_phentsize'', U16), (''e_phnum'', U16), (''e_shentsize'', U16),
     (''e_shnum'', U16), (''e_shstrndx'', U16)]"

definition Elf64_Ehdr :: ctype where
  "Elf64_Ehdr = Struct [(''e_ident'', Arr 16 U8), (''e_type'', U16), (''e_machine'', U16),
     (''e_version'', U32), (''e_entry'', U64), (''e_phoff'', U64), (''e_shoff'', U64), (''e_flags'', U32),
     (''e_ehsize'', U16), (''e_phentsize'', U16), (''e_phnum'', U16), (''e_shentsize'', U16),
     (''e_shnum'', U16), (''e_shstrndx'', U16)]"

definition Elf32_Shdr :: ctype where
  "Elf32_Shdr = Struct [(''sh_name'', U32), (''sh_type'', U32), (''sh_flags'', U32), (''sh_addr'', U32),
     (''sh_offset'', U32), (''sh_size'', U32), (''sh_link'', U32), (''sh_info'', U32), (''sh_addralign'', U32),
     (''sh_entsize'', U32)]"

definition Elf64_Shdr :: ctype where
  "Elf64_Shdr = Struct [(''sh_name'', U32), (''sh_type'', U32), (''sh_flags'', U64), (''sh_addr'', U64),
     (''sh_offset'', U64), (''sh_size'', U64), (''sh_link'', U32), (''sh_info'', U32), (''sh_addralign'', U64),
     (''sh_entsize'', U64)]"

definition Elf32_Chdr :: ctype where
  "Elf32_Chdr = Struct [(''ch_type'', U32), (''ch_size'', U32), (''ch_addralign'', U32)]"

definition Elf64_Chdr :: ctype where
  "Elf64_Chdr = Struct [(''ch_type'', U32), (''ch_reserved'', U32), (''ch_size'', U64),
     (''ch_addralign'', U64)]"

definition Elf32_Sym :: ctype where
  "Elf32_Sym = Struct [(''st_name'', U32), (''st_value'', U32), (''st_size'', U32), (''st_info'', U8),
     (''st_other'', U8), (''st_shndx'', U16)]"

definition Elf64_Sym :: ctype where
  "Elf64_Sym = Struct [(''st_name'', U32), (''st_info'', U8), (''st_other'', U8), (''st_shndx'', U16),
     (''st_value'', U64), (''st_size'', U64)]"

definition Elf32_Syminfo :: ctype where
  "Elf32_Syminfo = Struct [(''si_boundto'', U16), (''si_flags'', U16)]"

definition Elf64_Syminfo :: ctype where
  "Elf64_Syminfo = Struct [(''si_boundto'', U16), (''si_flags'', U16)]"

definition Elf32_Rel :: ctype where
  "Elf32_Rel = Struct [(''r_offset'', U32), (''r_info'', U32)]"

definition Elf64_Rel :: ctype where
  "Elf64_Rel = Struct [(''r_offset'', U64), (''r_info'', U64)]"

definition Elf32_Rela :: ctype where
  "Elf32_Rela = Struct [(''r_offset'', U32), (''r_info'', U32), (''r_addend'', U32)]"

definition Elf64_Rela :: ctype where
  "Elf64_Rela = Struct [(''r_offset'', U64), (''r_info'', U64), (''r_addend'', U64)]"

definition Elf32_Phdr :: ctype where
  "Elf32_Phdr = Struct [(''p_type'', U32), (''p_offset'', U32), (''p_vaddr'', U32), (''p_paddr'', U32),
     (''p_filesz'', U32), (''p_memsz'', U32), (''p_flags'', U32), (''p_align'', U32)]"

definition Elf64_Phdr :: ctype where
  "Elf64_Phdr = Struct [(''p_type'', U32), (''p_flags'', U32), (''p_offset'', U64), (''p_vaddr'', U64),
     (''p_paddr'', U64), (''p_filesz'', U64), (''p_memsz'', U64), (''p_align'', U64)]"

definition Elf32_Dyn :: ctype where
  "Elf32_Dyn = Struct [(''d_tag'', U32), (''d_un'', U32)]"

definition Elf64_Dyn :: ctype where
  "Elf64_Dyn = Struct [(''d_tag'', U64), (''d_un'', U64)]"

definition Elf32_Verdef :: ctype where
  "Elf32_Verdef = Struct [(''vd_version'', U16), (''vd_flags'', U16), (''vd_ndx'', U16), (''vd_cnt'', U16),
     (''vd_hash'', U32), (''vd_aux'', U32), (''vd_next'', U32)]"

definition Elf64_Verdef :: ctype where
  "Elf64_Verdef = Struct [(''vd_version'', U16), (''vd_flags'', U16), (''vd_ndx'', U16), (''vd_cnt'', U16),
     (''vd_hash'', U32), (''vd_aux'', U32), (''vd_next'', U32)]"

definition Elf32_Verdaux :: ctype where
  "Elf32_Verdaux = Struct [(''vda_name'', U32), (''vda_next'', U32)]"

definition Elf64_Verdaux :: ctype where
  "Elf64_Verdaux = Struct [(''vda_name'', U32), (''vda_next'', U32)]"

definition Elf32_Verneed :: ctype where
  "Elf32_Verneed = Struct [(''vn_version'', U16), (''vn_cnt'', U16), (''vn_file'', U32), (''vn_aux'', U32),
     (''vn_next'', U32)]"

definition Elf64_Verneed :: ctype where
  "Elf64_Verneed = Struct [(''vn_version'', U16), (''vn_cnt'', U16), (''vn_file'', U32), (''vn_aux'', U32),
     (''vn_next'', U32)]"

definition Elf32_Vernaux :: ctype where
  "Elf32_Vernaux = Struct [(''vna_hash'', U32), (''vna_flags'', U16), (''vna_other'', U16),
     (''vna_name'', U32), (''vna_next'', U32)]"

definition Elf64_Vernaux :: ctype where
  "Elf64_Vernaux = Struct [(''vna_hash'', U32), (''vna_flags'', U16), (''vna_other'', U16),
     (''vna_name'', U32), (''vna_next'', U32)]"

definition Elf32_auxv_t :: ctype where
  "Elf32_auxv_t = Struct [(''a_type'', U32), (''a_un'', U32)]"

definition Elf64_auxv_t :: ctype where
  "Elf64_auxv_t = Struct [(''a_type'', U64), (''a_un'', U64)]"

definition Elf32_Nhdr :: ctype where
  "Elf32_Nhdr = Struct [(''n_namesz'', U32), (''n_descsz'', U32), (''n_type'', U32)]"

definition Elf64_Nhdr :: ctype where
  "Elf64_Nhdr = Struct [(''n_namesz'', U32), (''n_descsz'', U32), (''n_type'', U32)]"

definition Elf32_Move :: ctype where
  "Elf32_Move = Struct [(''m_value'', U64), (''m_info'', U32), (''m_poffset'', U32), (''m_repeat'', U16),
     (''m_stride'', U16)]"

definition Elf64_Move :: ctype where
  "Elf64_Move = Struct [(''m_value'', U64), (''m_info'', U64), (''m_poffset'', U64), (''m_repeat'', U16),
     (''m_stride'', U16)]"

definition Elf32_gptab_header :: ctype where
  "Elf32_gptab_header = Struct [(''gt_current_g_value'', U32), (''gt_unused'', U32)]"

definition Elf32_gptab_entry :: ctype where
  "Elf32_gptab_entry = Struct [(''gt_g_value'', U32), (''gt_bytes'', U32)]"

definition Elf32_RegInfo :: ctype where
  "Elf32_RegInfo = Struct [(''ri_gprmask'', U32), (''ri_cprmask'', Arr 4 U32), (''ri_gp_value'', U32)]"

definition Elf_Options :: ctype where
  "Elf_Options = Struct [(''kind'', U8), (''size'', U8), (''section'', U16), (''info'', U32)]"

definition Elf_Options_Hw :: ctype where
  "Elf_Options_Hw = Struct [(''hwp_flags1'', U32), (''hwp_flags2'', U32)]"

definition Elf32_Lib :: ctype where
  "Elf32_Lib = Struct [(''l_name'', U32), (''l_time_stamp'', U32), (''l_checksum'', U32), (''l_version'', U32),
     (''l_flags'', U32)]"

definition Elf64_Lib :: ctype where
  "Elf64_Lib = Struct [(''l_name'', U32), (''l_time_stamp'', U32), (''l_checksum'', U32), (''l_version'', U32),
     (''l_flags'', U32)]"

definition Elf_MIPS_ABIFlags_v0 :: ctype where
  "Elf_MIPS_ABIFlags_v0 = Struct [(''version'', U16), (''isa_level'', U8), (''isa_rev'', U8),
     (''gpr_size'', U8), (''cpr1_size'', U8), (''cpr2_size'', U8), (''fp_abi'', U8), (''isa_ext'', U32),
     (''ases'', U32), (''flags1'', U32), (''flags2'', U32)]"
definition elf_structs :: "ctype list" where
  "elf_structs = [Elf32_Ehdr, Elf64_Ehdr, Elf32_Shdr, Elf64_Shdr, Elf32_Chdr, Elf64_Chdr, Elf32_Sym, Elf64_Sym,
     Elf32_Syminfo, Elf64_Syminfo, Elf32_Rel, Elf64_Rel, Elf32_Rela, Elf64_Rela, Elf32_Phdr, Elf64_Phdr,
     Elf32_Dyn, Elf64_Dyn, Elf32_Verdef, Elf64_Verdef, Elf32_Verdaux, Elf64_Verdaux, Elf32_Verneed,
     Elf64_Verneed, Elf32_Vernaux, Elf64_Vernaux, Elf32_auxv_t, Elf64_auxv_t, Elf32_Nhdr, Elf64_Nhdr,
     Elf32_Move, Elf64_Move, Elf32_gptab_header, Elf32_gptab_entry, Elf32_RegInfo, Elf_Options, Elf_Options_Hw,
     Elf32_Lib, Elf64_Lib, Elf_MIPS_ABIFlags_v0]"

lemmas elf_struct_defs =
  Elf32_Ehdr_def Elf64_Ehdr_def Elf32_Shdr_def Elf64_Shdr_def Elf32_Chdr_def Elf64_Chdr_def Elf32_Sym_def
  Elf64_Sym_def Elf32_Syminfo_def Elf64_Syminfo_def Elf32_Rel_def Elf64_Rel_def Elf32_Rela_def Elf64_Rela_def
  Elf32_Phdr_def Elf64_Phdr_def Elf32_Dyn_def Elf64_Dyn_def Elf32_Verdef_def Elf64_Verdef_def Elf32_Verdaux_def
  Elf64_Verdaux_def Elf32_Verneed_def Elf64_Verneed_def Elf32_Vernaux_def Elf64_Vernaux_def Elf32_auxv_t_def
  Elf64_auxv_t_def Elf32_Nhdr_def Elf64_Nhdr_def Elf32_Move_def Elf64_Move_def Elf32_gptab_header_def
  Elf32_gptab_entry_def Elf32_RegInfo_def Elf_Options_def Elf_Options_Hw_def Elf32_Lib_def Elf64_Lib_def
  Elf_MIPS_ABIFlags_v0_def

section \<open>Macros\<close>

definition ELF32_ST_BIND :: "uint8 \<Rightarrow> uint8" where
  "ELF32_ST_BIND v = drop_bit 4 v"

definition ELF32_ST_TYPE :: "uint8 \<Rightarrow> uint8" where
  "ELF32_ST_TYPE v = v AND 0xf"

definition ELF32_ST_INFO :: "uint8 \<Rightarrow> uint8 \<Rightarrow> uint8" where
  "ELF32_ST_INFO bnd type = push_bit 4 bnd + (type AND 0xf)"

definition ELF64_ST_BIND :: "uint8 \<Rightarrow> uint8" where
  "ELF64_ST_BIND v = ELF32_ST_BIND v"

definition ELF64_ST_TYPE :: "uint8 \<Rightarrow> uint8" where
  "ELF64_ST_TYPE v = ELF32_ST_TYPE v"

definition ELF64_ST_INFO :: "uint8 \<Rightarrow> uint8 \<Rightarrow> uint8" where
  "ELF64_ST_INFO bnd type = ELF32_ST_INFO bnd type"

definition ELF32_ST_VISIBILITY :: "uint8 \<Rightarrow> uint8" where
  "ELF32_ST_VISIBILITY v = v AND 0x03"

definition ELF64_ST_VISIBILITY :: "uint8 \<Rightarrow> uint8" where
  "ELF64_ST_VISIBILITY v = ELF32_ST_VISIBILITY v"

definition ELF32_R_SYM :: "uint32 \<Rightarrow> uint32" where
  "ELF32_R_SYM v = drop_bit 8 v"

definition ELF32_R_TYPE :: "uint32 \<Rightarrow> uint32" where
  "ELF32_R_TYPE v = v AND 0xff"

definition ELF32_R_INFO :: "uint32 \<Rightarrow> uint32 \<Rightarrow> uint32" where
  "ELF32_R_INFO sm type = push_bit 8 sm + (type AND 0xff)"

definition ELF64_R_SYM :: "uint64 \<Rightarrow> uint64" where
  "ELF64_R_SYM i = drop_bit 32 i"

definition ELF64_R_TYPE :: "uint64 \<Rightarrow> uint64" where
  "ELF64_R_TYPE i = i AND 0xffffffff"

definition ELF64_R_INFO :: "uint64 \<Rightarrow> uint64 \<Rightarrow> uint64" where
  "ELF64_R_INFO sm type = push_bit 32 sm + type"

definition ELF32_M_SYM :: "uint32 \<Rightarrow> uint32" where
  "ELF32_M_SYM info = drop_bit 8 info"

definition ELF32_M_SIZE :: "uint32 \<Rightarrow> uint8" where
  "ELF32_M_SIZE info = ucast info"

definition ELF32_M_INFO :: "uint32 \<Rightarrow> uint32 \<Rightarrow> uint32" where
  "ELF32_M_INFO sm sz = push_bit 8 sm + ucast (ucast sz :: uint8)"

definition ELF64_M_SYM :: "uint64 \<Rightarrow> uint64" where
  "ELF64_M_SYM info = drop_bit 8 info"

definition ELF64_M_SIZE :: "uint64 \<Rightarrow> uint8" where
  "ELF64_M_SIZE info = ucast info"

definition ELF64_M_INFO :: "uint64 \<Rightarrow> uint64 \<Rightarrow> uint64" where
  "ELF64_M_INFO sm sz = push_bit 8 sm + ucast (ucast sz :: uint8)"

definition DT_VALTAGIDX :: "int \<Rightarrow> int" where
  "DT_VALTAGIDX tag = 0x6ffffdff - tag"

definition DT_ADDRTAGIDX :: "int \<Rightarrow> int" where
  "DT_ADDRTAGIDX tag = 0x6ffffeff - tag"

definition DT_VERSIONTAGIDX :: "int \<Rightarrow> int" where
  "DT_VERSIONTAGIDX tag = 0x6fffffff - tag"

definition PPC64_LOCAL_ENTRY_OFFSET :: "uint32 \<Rightarrow> uint32" where
  "PPC64_LOCAL_ENTRY_OFFSET x = push_bit (unat (drop_bit 5 (x AND 0xe0))) 1 AND 0xfc"

definition EF_ARM_EABI_VERSION :: "uint32 \<Rightarrow> uint32" where
  "EF_ARM_EABI_VERSION flags = flags AND 0xFF000000"

section \<open>Properties\<close>

text \<open>
  Every struct has the size the ELF specification fixes for it (52 and 64 bytes of file
  header, 40 and 64 of section header, 32 and 56 of program header, 16 and 24 of symbol, and so
  on), and what is stored field by field is read back field by field.
\<close>

theorem elf_struct_layout:
  "map size_of elf_structs =
     [52, 64, 40, 64, 12, 24, 16, 24, 4, 4, 8, 16, 12, 24, 32, 56, 8, 16, 20, 20, 8, 8, 16, 16, 16, 16, 8, 16, 12,
      12, 24, 32, 8, 8, 24, 8, 8, 20, 20, 24] \<and>
   (list_all2 (\<lambda>f v. length v = size_of (snd f)) fs vs \<longrightarrow>
     load_fields 0 fs (store_fields 0 fs vs) = vs \<and> length (store_fields 0 fs vs) = end_fields 0 fs)"
proof -
  have "map size_of elf_structs = [52, 64, 40, 64, 12, 24, 16, 24, 4, 4, 8, 16, 12, 24, 32, 56, 8, 16, 20, 20, 8, 8, 16, 16, 16, 16, 8, 16, 12,
      12, 24, 32, 8, 8, 24, 8, 8, 20, 20, 24]"
    unfolding elf_structs_def elf_struct_defs by (simp add: round_up_def flip: numeral_2_eq_2)
  then show ?thesis using load_store [of fs vs 0 "[]"] store_length [of fs vs 0] by simp
qed

lemma elf_struct_layout_witness:
  "load_fields 0 [(''n_namesz'', U32), (''n_descsz'', U32), (''n_type'', U32)]
     (store_fields 0 [(''n_namesz'', U32), (''n_descsz'', U32), (''n_type'', U32)]
        [le_bytes 4 4, le_bytes 4 20, le_bytes 4 3]) = [le_bytes 4 4, le_bytes 4 20, le_bytes 4 3]"
  using elf_struct_layout [of "[(''n_namesz'', U32), (''n_descsz'', U32), (''n_type'', U32)]"
      "[le_bytes 4 4, le_bytes 4 20, le_bytes 4 3]"] by simp

lemma or_plus: "x AND y = 0 \<Longrightarrow> x + y = x OR (y :: 'a::len word)"
  by (metis word_plus_and_or add_0)

lemma small_masks: "(0xf :: uint8) = mask 4" "(0xff :: uint32) = mask 8" "(0xffffffff :: uint64) = mask 32"
  by (simp_all add: mask_eq_exp_minus_1)

lemma ST_INFO_or: "ELF32_ST_INFO b t = push_bit 4 b OR (t AND mask 4)"
  unfolding ELF32_ST_INFO_def small_masks by (rule or_plus, rule bit_word_eqI) (auto simp: bit_simps)

lemma R32_INFO_or: "ELF32_R_INFO s t = push_bit 8 s OR (t AND mask 8)"
  unfolding ELF32_R_INFO_def small_masks by (rule or_plus, rule bit_word_eqI) (auto simp: bit_simps)

text \<open>The type of a 64-bit relocation is not cut: what is over its 32 bits is added to the symbol.\<close>

lemma R64_INFO_or: "ELF64_R_INFO s t = push_bit 32 (s + drop_bit 32 t) OR (t AND mask 32)"
proof -
  have "push_bit 32 (drop_bit 32 t) + (t AND mask 32) = t" using bits_ident [of 32 t] by (simp only: take_bit_eq_mask)
  then have "ELF64_R_INFO s t = push_bit 32 (s + drop_bit 32 t) + (t AND mask 32)"
    unfolding ELF64_R_INFO_def push_bit_add by (simp only: add.assoc)
  also have "\<dots> = push_bit 32 (s + drop_bit 32 t) OR (t AND mask 32)"
    by (rule or_plus, rule bit_word_eqI) (auto simp: bit_simps)
  finally show ?thesis .
qed

lemma M32_INFO_or: "ELF32_M_INFO s t = push_bit 8 s OR ucast (ucast t :: uint8)"
  unfolding ELF32_M_INFO_def
  by (rule or_plus, rule bit_word_eqI) (auto simp: bit_simps)

lemma M64_INFO_or: "ELF64_M_INFO s t = push_bit 8 s OR ucast (ucast t :: uint8)"
  unfolding ELF64_M_INFO_def
  by (rule or_plus, rule bit_word_eqI) (auto simp: bit_simps)

text \<open>
  C40. Packing and unpacking are inverse, in both classes: every \<open>st_info\<close> byte, \<open>r_info\<close> word and
  \<open>m_info\<close> word is the packing of its own parts, and the parts of a packed word are the ones put in,
  cut to the width of their field. With one exception: \<open>ELF64_R_INFO\<close> does not cut the type, and what a type has over
  32 bits is added to the symbol; with a type of 32 bits it is as the others.
\<close>

theorem elf_info_roundtrip:
  "ELF32_ST_INFO (ELF32_ST_BIND i) (ELF32_ST_TYPE i) = i \<and> ELF64_ST_INFO (ELF64_ST_BIND i) (ELF64_ST_TYPE i) = i \<and>
   ELF32_ST_BIND (ELF32_ST_INFO b t) = b AND mask 4 \<and> ELF32_ST_TYPE (ELF32_ST_INFO b t) = t AND mask 4 \<and>
   ELF64_ST_BIND (ELF64_ST_INFO b t) = b AND mask 4 \<and> ELF64_ST_TYPE (ELF64_ST_INFO b t) = t AND mask 4 \<and>
   ELF32_R_INFO (ELF32_R_SYM r) (ELF32_R_TYPE r) = r \<and>
   ELF32_R_SYM (ELF32_R_INFO s u) = s AND mask 24 \<and> ELF32_R_TYPE (ELF32_R_INFO s u) = u AND mask 8 \<and>
   ELF64_R_INFO (ELF64_R_SYM q) (ELF64_R_TYPE q) = q \<and>
   ELF64_R_SYM (ELF64_R_INFO x y) = (x + drop_bit 32 y) AND mask 32 \<and> ELF64_R_TYPE (ELF64_R_INFO x y) = y AND mask 32 \<and>
   ELF64_R_SYM (ELF64_R_INFO x (ucast (w :: uint32))) = x AND mask 32 \<and> ELF64_R_TYPE (ELF64_R_INFO x (ucast w)) = ucast w \<and>
   ELF32_M_INFO (ELF32_M_SYM r) (ucast (ELF32_M_SIZE r)) = r \<and>
   ELF32_M_SYM (ELF32_M_INFO s u) = s AND mask 24 \<and> ELF32_M_SIZE (ELF32_M_INFO s u) = ucast u \<and>
   ELF64_M_INFO (ELF64_M_SYM q) (ucast (ELF64_M_SIZE q)) = q \<and>
   ELF64_M_SYM (ELF64_M_INFO x y) = x AND mask 56 \<and> ELF64_M_SIZE (ELF64_M_INFO x y) = ucast y"
proof -
  note st = ELF32_ST_BIND_def ELF32_ST_TYPE_def ELF64_ST_BIND_def ELF64_ST_TYPE_def ELF64_ST_INFO_def ST_INFO_or
  note r = R32_INFO_or ELF32_R_SYM_def ELF32_R_TYPE_def and rq = R64_INFO_or ELF64_R_SYM_def ELF64_R_TYPE_def
  note mv = M32_INFO_or M64_INFO_or ELF32_M_SYM_def ELF64_M_SYM_def ELF32_M_SIZE_def ELF64_M_SIZE_def
  have a: "ELF32_ST_INFO (ELF32_ST_BIND i) (ELF32_ST_TYPE i) = i" "ELF32_ST_BIND (ELF32_ST_INFO b t) = b AND mask 4"
    "ELF32_ST_TYPE (ELF32_ST_INFO b t) = t AND mask 4"
    unfolding st small_masks by (rule bit_word_eqI, auto simp: bit_simps)+
  have c: "ELF32_R_INFO (ELF32_R_SYM r) (ELF32_R_TYPE r) = r" "ELF32_R_SYM (ELF32_R_INFO s u) = s AND mask 24"
    "ELF32_R_TYPE (ELF32_R_INFO s u) = u AND mask 8"
    unfolding r small_masks by (rule bit_word_eqI, auto simp: bit_simps)+
  have low: "drop_bit 32 (v AND mask 32) = (0 :: uint64)" "drop_bit 32 (ucast w) = (0 :: uint64)" for v :: uint64
    by (rule bit_word_eqI, auto simp: bit_simps dest: bit_imp_le_length)+
  have d: "ELF64_R_SYM (ELF64_R_INFO x y) = (x + drop_bit 32 y) AND mask 32" "ELF64_R_TYPE (ELF64_R_INFO x y) = y AND mask 32" for x y
    unfolding rq small_masks by (rule bit_word_eqI, auto simp: bit_simps)+
  have e: "ELF64_R_INFO (ELF64_R_SYM q) (ELF64_R_TYPE q) = q"
    unfolding rq small_masks low add_0_right by (rule bit_word_eqI) (auto simp: bit_simps)
  have f: "ucast w AND mask 32 = (ucast w :: uint64)" by (rule bit_word_eqI) (auto simp: bit_simps dest: bit_imp_le_length)
  have m: "ELF32_M_INFO (ELF32_M_SYM r) (ucast (ELF32_M_SIZE r)) = r" "ELF32_M_SYM (ELF32_M_INFO s u) = s AND mask 24"
    "ELF32_M_SIZE (ELF32_M_INFO s u) = ucast u" "ELF64_M_INFO (ELF64_M_SYM q) (ucast (ELF64_M_SIZE q)) = q"
    "ELF64_M_SYM (ELF64_M_INFO x y) = x AND mask 56" "ELF64_M_SIZE (ELF64_M_INFO x y) = ucast y"
    unfolding mv by (rule bit_word_eqI, auto simp: bit_simps)+
  show ?thesis
    using a c d [of x y] d [of x "ucast w"] e m unfolding low(2) f ELF64_ST_BIND_def ELF64_ST_TYPE_def ELF64_ST_INFO_def by simp
qed

end
