(* ===== verification/Elf_Tables.thy ===== *)
theory Elf_Tables
  imports Elf_Types
begin

text \<open>
  The numbers of \<open>src/include/libc/elf.h\<close>: for each family of constants the table of its names
  and values, in the order of the header, and the relocation types of each machine.
\<close>

type_synonym table = "(string \<times> nat) list"

definition elf_EI :: table where \<comment> \<open>lines 35 to 35\<close>
  "elf_EI = [(''EI_NIDENT'', 16)]"

definition elf_EI_2 :: table where \<comment> \<open>lines 71 to 81\<close>
  "elf_EI_2 = [(''EI_MAG0'', 0), (''ELFMAG0'', 127), (''EI_MAG1'', 1), (''ELFMAG1'', 69), (''EI_MAG2'', 2),
     (''ELFMAG2'', 76), (''EI_MAG3'', 3), (''ELFMAG3'', 70)]"

definition elf_SELFMAG :: table where \<comment> \<open>lines 85 to 102\<close>
  "elf_SELFMAG = [(''SELFMAG'', 4), (''EI_CLASS'', 4), (''ELFCLASSNONE'', 0), (''ELFCLASS32'', 1),
     (''ELFCLASS64'', 2), (''ELFCLASSNUM'', 3), (''EI_DATA'', 5), (''ELFDATANONE'', 0), (''ELFDATA2LSB'', 1),
     (''ELFDATA2MSB'', 2), (''ELFDATANUM'', 3), (''EI_VERSION'', 6), (''EI_OSABI'', 7)]"

definition elf_ELFOSABI :: table where \<comment> \<open>lines 103 to 121\<close>
  "elf_ELFOSABI = [(''ELFOSABI_NONE'', 0), (''ELFOSABI_SYSV'', 0), (''ELFOSABI_HPUX'', 1),
     (''ELFOSABI_NETBSD'', 2), (''ELFOSABI_LINUX'', 3), (''ELFOSABI_GNU'', 3), (''ELFOSABI_SOLARIS'', 6),
     (''ELFOSABI_AIX'', 7), (''ELFOSABI_IRIX'', 8), (''ELFOSABI_FREEBSD'', 9), (''ELFOSABI_TRU64'', 10),
     (''ELFOSABI_MODESTO'', 11), (''ELFOSABI_OPENBSD'', 12), (''ELFOSABI_ARM'', 97),
     (''ELFOSABI_STANDALONE'', 255), (''EI_ABIVERSION'', 8), (''EI_PAD'', 9)]"

definition elf_ET :: table where \<comment> \<open>lines 125 to 134\<close>
  "elf_ET = [(''ET_NONE'', 0), (''ET_REL'', 1), (''ET_EXEC'', 2), (''ET_DYN'', 3), (''ET_CORE'', 4),
     (''ET_NUM'', 5), (''ET_LOOS'', 65024), (''ET_HIOS'', 65279), (''ET_LOPROC'', 65280), (''ET_HIPROC'', 65535)]"

definition elf_EM :: table where \<comment> \<open>lines 138 to 277\<close>
  "elf_EM = [(''EM_NONE'', 0), (''EM_M32'', 1), (''EM_SPARC'', 2), (''EM_386'', 3), (''EM_68K'', 4),
     (''EM_88K'', 5), (''EM_860'', 7), (''EM_MIPS'', 8), (''EM_S370'', 9), (''EM_MIPS_RS3_LE'', 10),
     (''EM_PARISC'', 15), (''EM_VPP500'', 17), (''EM_SPARC32PLUS'', 18), (''EM_960'', 19), (''EM_PPC'', 20),
     (''EM_PPC64'', 21), (''EM_S390'', 22), (''EM_V800'', 36), (''EM_FR20'', 37), (''EM_RH32'', 38),
     (''EM_RCE'', 39), (''EM_ARM'', 40), (''EM_FAKE_ALPHA'', 41), (''EM_SH'', 42), (''EM_SPARCV9'', 43),
     (''EM_TRICORE'', 44), (''EM_ARC'', 45), (''EM_H8_300'', 46), (''EM_H8_300H'', 47), (''EM_H8S'', 48),
     (''EM_H8_500'', 49), (''EM_IA_64'', 50), (''EM_MIPS_X'', 51), (''EM_COLDFIRE'', 52), (''EM_68HC12'', 53),
     (''EM_MMA'', 54), (''EM_PCP'', 55), (''EM_NCPU'', 56), (''EM_NDR1'', 57), (''EM_STARCORE'', 58),
     (''EM_ME16'', 59), (''EM_ST100'', 60), (''EM_TINYJ'', 61), (''EM_X86_64'', 62), (''EM_PDSP'', 63),
     (''EM_FX66'', 66), (''EM_ST9PLUS'', 67), (''EM_ST7'', 68), (''EM_68HC16'', 69), (''EM_68HC11'', 70),
     (''EM_68HC08'', 71), (''EM_68HC05'', 72), (''EM_SVX'', 73), (''EM_ST19'', 74), (''EM_VAX'', 75),
     (''EM_CRIS'', 76), (''EM_JAVELIN'', 77), (''EM_FIREPATH'', 78), (''EM_ZSP'', 79), (''EM_MMIX'', 80),
     (''EM_HUANY'', 81), (''EM_PRISM'', 82), (''EM_AVR'', 83), (''EM_FR30'', 84), (''EM_D10V'', 85),
     (''EM_D30V'', 86), (''EM_V850'', 87), (''EM_M32R'', 88), (''EM_MN10300'', 89), (''EM_MN10200'', 90),
     (''EM_PJ'', 91), (''EM_OR1K'', 92), (''EM_OPENRISC'', 92), (''EM_ARC_A5'', 93), (''EM_ARC_COMPACT'', 93),
     (''EM_XTENSA'', 94), (''EM_VIDEOCORE'', 95), (''EM_TMM_GPP'', 96), (''EM_NS32K'', 97), (''EM_TPC'', 98),
     (''EM_SNP1K'', 99), (''EM_ST200'', 100), (''EM_IP2K'', 101), (''EM_MAX'', 102), (''EM_CR'', 103),
     (''EM_F2MC16'', 104), (''EM_MSP430'', 105), (''EM_BLACKFIN'', 106), (''EM_SE_C33'', 107), (''EM_SEP'', 108),
     (''EM_ARCA'', 109), (''EM_UNICORE'', 110), (''EM_EXCESS'', 111), (''EM_DXP'', 112),
     (''EM_ALTERA_NIOS2'', 113), (''EM_CRX'', 114), (''EM_XGATE'', 115), (''EM_C166'', 116), (''EM_M16C'', 117),
     (''EM_DSPIC30F'', 118), (''EM_CE'', 119), (''EM_M32C'', 120), (''EM_TSK3000'', 131), (''EM_RS08'', 132),
     (''EM_SHARC'', 133), (''EM_ECOG2'', 134), (''EM_SCORE7'', 135), (''EM_DSP24'', 136), (''EM_VIDEOCORE3'', 137),
     (''EM_LATTICEMICO32'', 138), (''EM_SE_C17'', 139), (''EM_TI_C6000'', 140), (''EM_TI_C2000'', 141),
     (''EM_TI_C5500'', 142), (''EM_TI_ARP32'', 143), (''EM_TI_PRU'', 144), (''EM_MMDSP_PLUS'', 160),
     (''EM_CYPRESS_M8C'', 161), (''EM_R32C'', 162), (''EM_TRIMEDIA'', 163), (''EM_QDSP6'', 164),
     (''EM_8051'', 165), (''EM_STXP7X'', 166), (''EM_NDS32'', 167), (''EM_ECOG1X'', 168), (''EM_MAXQ30'', 169),
     (''EM_XIMO16'', 170), (''EM_MANIK'', 171), (''EM_CRAYNV2'', 172), (''EM_RX'', 173), (''EM_METAG'', 174),
     (''EM_MCST_ELBRUS'', 175), (''EM_ECOG16'', 176), (''EM_CR16'', 177), (''EM_ETPU'', 178), (''EM_SLE9X'', 179),
     (''EM_L10M'', 180)]"

definition elf_EM_2 :: table where \<comment> \<open>lines 278 to 324\<close>
  "elf_EM_2 = [(''EM_K10M'', 181), (''EM_AARCH64'', 183), (''EM_AVR32'', 185), (''EM_STM8'', 186),
     (''EM_TILE64'', 187), (''EM_TILEPRO'', 188), (''EM_MICROBLAZE'', 189), (''EM_CUDA'', 190),
     (''EM_TILEGX'', 191), (''EM_CLOUDSHIELD'', 192), (''EM_COREA_1ST'', 193), (''EM_COREA_2ND'', 194),
     (''EM_ARC_COMPACT2'', 195), (''EM_OPEN8'', 196), (''EM_RL78'', 197), (''EM_VIDEOCORE5'', 198),
     (''EM_78KOR'', 199), (''EM_56800EX'', 200), (''EM_BA1'', 201), (''EM_BA2'', 202), (''EM_XCORE'', 203),
     (''EM_MCHP_PIC'', 204), (''EM_KM32'', 210), (''EM_KMX32'', 211), (''EM_EMX16'', 212), (''EM_EMX8'', 213),
     (''EM_KVARC'', 214), (''EM_CDP'', 215), (''EM_COGE'', 216), (''EM_COOL'', 217), (''EM_NORC'', 218),
     (''EM_CSR_KALIMBA'', 219), (''EM_Z80'', 220), (''EM_VISIUM'', 221), (''EM_FT32'', 222), (''EM_MOXIE'', 223),
     (''EM_AMDGPU'', 224), (''EM_RISCV'', 243), (''EM_BPF'', 247), (''EM_CSKY'', 252), (''EM_NUM'', 253),
     (''EM_ALPHA'', 36902), (''EV_NONE'', 0), (''EV_CURRENT'', 1), (''EV_NUM'', 2)]"

definition elf_SHN :: table where \<comment> \<open>lines 354 to 367\<close>
  "elf_SHN = [(''SHN_UNDEF'', 0), (''SHN_LORESERVE'', 65280), (''SHN_LOPROC'', 65280), (''SHN_BEFORE'', 65280),
     (''SHN_AFTER'', 65281), (''SHN_HIPROC'', 65311), (''SHN_LOOS'', 65312), (''SHN_HIOS'', 65343),
     (''SHN_ABS'', 65521), (''SHN_COMMON'', 65522), (''SHN_XINDEX'', 65535), (''SHN_HIRESERVE'', 65535)]"

definition elf_SHT :: table where \<comment> \<open>lines 371 to 407\<close>
  "elf_SHT = [(''SHT_NULL'', 0), (''SHT_PROGBITS'', 1), (''SHT_SYMTAB'', 2), (''SHT_STRTAB'', 3),
     (''SHT_RELA'', 4), (''SHT_HASH'', 5), (''SHT_DYNAMIC'', 6), (''SHT_NOTE'', 7), (''SHT_NOBITS'', 8),
     (''SHT_REL'', 9), (''SHT_SHLIB'', 10), (''SHT_DYNSYM'', 11), (''SHT_INIT_ARRAY'', 14),
     (''SHT_FINI_ARRAY'', 15), (''SHT_PREINIT_ARRAY'', 16), (''SHT_GROUP'', 17), (''SHT_SYMTAB_SHNDX'', 18),
     (''SHT_RELR'', 19), (''SHT_NUM'', 20), (''SHT_LOOS'', 1610612736), (''SHT_GNU_ATTRIBUTES'', 1879048181),
     (''SHT_GNU_HASH'', 1879048182), (''SHT_GNU_LIBLIST'', 1879048183), (''SHT_CHECKSUM'', 1879048184),
     (''SHT_LOSUNW'', 1879048186), (''SHT_SUNW_move'', 1879048186), (''SHT_SUNW_COMDAT'', 1879048187),
     (''SHT_SUNW_syminfo'', 1879048188), (''SHT_GNU_verdef'', 1879048189), (''SHT_GNU_verneed'', 1879048190),
     (''SHT_GNU_versym'', 1879048191), (''SHT_HISUNW'', 1879048191), (''SHT_HIOS'', 1879048191),
     (''SHT_LOPROC'', 1879048192), (''SHT_HIPROC'', 2147483647), (''SHT_LOUSER'', 2147483648),
     (''SHT_HIUSER'', 2415919103)]"

definition elf_SHF :: table where \<comment> \<open>lines 409 to 424\<close>
  "elf_SHF = [(''SHF_WRITE'', 1), (''SHF_ALLOC'', 2), (''SHF_EXECINSTR'', 4), (''SHF_MERGE'', 16),
     (''SHF_STRINGS'', 32), (''SHF_INFO_LINK'', 64), (''SHF_LINK_ORDER'', 128), (''SHF_OS_NONCONFORMING'', 256),
     (''SHF_GROUP'', 512), (''SHF_TLS'', 1024), (''SHF_COMPRESSED'', 2048), (''SHF_MASKOS'', 267386880),
     (''SHF_MASKPROC'', 4026531840), (''SHF_ORDERED'', 1073741824), (''SHF_EXCLUDE'', 2147483648)]"

definition elf_ELFCOMPRESS :: table where \<comment> \<open>lines 439 to 447\<close>
  "elf_ELFCOMPRESS = [(''ELFCOMPRESS_ZLIB'', 1), (''ELFCOMPRESS_ZSTD'', 2), (''ELFCOMPRESS_LOOS'', 1610612736),
     (''ELFCOMPRESS_HIOS'', 1879048191), (''ELFCOMPRESS_LOPROC'', 1879048192),
     (''ELFCOMPRESS_HIPROC'', 2147483647), (''GRP_COMDAT'', 1)]"

definition elf_SYMINFO :: table where \<comment> \<open>lines 477 to 488\<close>
  "elf_SYMINFO = [(''SYMINFO_BT_SELF'', 65535), (''SYMINFO_BT_PARENT'', 65534), (''SYMINFO_BT_LOWRESERVE'', 65280),
     (''SYMINFO_FLG_DIRECT'', 1), (''SYMINFO_FLG_PASSTHRU'', 2), (''SYMINFO_FLG_COPY'', 4),
     (''SYMINFO_FLG_LAZYLOAD'', 8), (''SYMINFO_NONE'', 0), (''SYMINFO_CURRENT'', 1), (''SYMINFO_NUM'', 2)]"

definition elf_STB :: table where \<comment> \<open>lines 498 to 506\<close>
  "elf_STB = [(''STB_LOCAL'', 0), (''STB_GLOBAL'', 1), (''STB_WEAK'', 2), (''STB_NUM'', 3), (''STB_LOOS'', 10),
     (''STB_GNU_UNIQUE'', 10), (''STB_HIOS'', 12), (''STB_LOPROC'', 13), (''STB_HIPROC'', 15)]"

definition elf_STT :: table where \<comment> \<open>lines 508 to 522\<close>
  "elf_STT = [(''STT_NOTYPE'', 0), (''STT_OBJECT'', 1), (''STT_FUNC'', 2), (''STT_SECTION'', 3), (''STT_FILE'', 4),
     (''STT_COMMON'', 5), (''STT_TLS'', 6), (''STT_NUM'', 7), (''STT_LOOS'', 10), (''STT_GNU_IFUNC'', 10),
     (''STT_HIOS'', 12), (''STT_LOPROC'', 13), (''STT_HIPROC'', 15), (''STN_UNDEF'', 0)]"

definition elf_STV :: table where \<comment> \<open>lines 527 to 530\<close>
  "elf_STV = [(''STV_DEFAULT'', 0), (''STV_INTERNAL'', 1), (''STV_HIDDEN'', 2), (''STV_PROTECTED'', 3)]"

definition elf_PT :: table where \<comment> \<open>lines 595 to 625\<close>
  "elf_PT = [(''PT_NULL'', 0), (''PT_LOAD'', 1), (''PT_DYNAMIC'', 2), (''PT_INTERP'', 3), (''PT_NOTE'', 4),
     (''PT_SHLIB'', 5), (''PT_PHDR'', 6), (''PT_TLS'', 7), (''PT_NUM'', 8), (''PT_LOOS'', 1610612736),
     (''PT_GNU_EH_FRAME'', 1685382480), (''PT_GNU_STACK'', 1685382481), (''PT_GNU_RELRO'', 1685382482),
     (''PT_GNU_PROPERTY'', 1685382483), (''PT_LOSUNW'', 1879048186), (''PT_SUNWBSS'', 1879048186),
     (''PT_SUNWSTACK'', 1879048187), (''PT_HISUNW'', 1879048191), (''PT_HIOS'', 1879048191),
     (''PT_LOPROC'', 1879048192), (''PT_HIPROC'', 2147483647), (''PN_XNUM'', 65535), (''PF_X'', 1), (''PF_W'', 2),
     (''PF_R'', 4), (''PF_MASKOS'', 267386880), (''PF_MASKPROC'', 4026531840)]"

definition elf_NT :: table where \<comment> \<open>lines 629 to 701\<close>
  "elf_NT = [(''NT_PRSTATUS'', 1), (''NT_PRFPREG'', 2), (''NT_FPREGSET'', 2), (''NT_PRPSINFO'', 3),
     (''NT_PRXREG'', 4), (''NT_TASKSTRUCT'', 4), (''NT_PLATFORM'', 5), (''NT_AUXV'', 6), (''NT_GWINDOWS'', 7),
     (''NT_ASRS'', 8), (''NT_PSTATUS'', 10), (''NT_PSINFO'', 13), (''NT_PRCRED'', 14), (''NT_UTSNAME'', 15),
     (''NT_LWPSTATUS'', 16), (''NT_LWPSINFO'', 17), (''NT_PRFPXREG'', 20), (''NT_SIGINFO'', 1397311305),
     (''NT_FILE'', 1179208773), (''NT_PRXFPREG'', 1189489535), (''NT_PPC_VMX'', 256), (''NT_PPC_SPE'', 257),
     (''NT_PPC_VSX'', 258), (''NT_PPC_TAR'', 259), (''NT_PPC_PPR'', 260), (''NT_PPC_DSCR'', 261),
     (''NT_PPC_EBB'', 262), (''NT_PPC_PMU'', 263), (''NT_PPC_TM_CGPR'', 264), (''NT_PPC_TM_CFPR'', 265),
     (''NT_PPC_TM_CVMX'', 266), (''NT_PPC_TM_CVSX'', 267), (''NT_PPC_TM_SPR'', 268), (''NT_PPC_TM_CTAR'', 269),
     (''NT_PPC_TM_CPPR'', 270), (''NT_PPC_TM_CDSCR'', 271), (''NT_386_TLS'', 512), (''NT_386_IOPERM'', 513),
     (''NT_X86_XSTATE'', 514), (''NT_S390_HIGH_GPRS'', 768), (''NT_S390_TIMER'', 769), (''NT_S390_TODCMP'', 770),
     (''NT_S390_TODPREG'', 771), (''NT_S390_CTRS'', 772), (''NT_S390_PREFIX'', 773), (''NT_S390_LAST_BREAK'', 774),
     (''NT_S390_SYSTEM_CALL'', 775), (''NT_S390_TDB'', 776), (''NT_S390_VXRS_LOW'', 777),
     (''NT_S390_VXRS_HIGH'', 778), (''NT_S390_GS_CB'', 779), (''NT_S390_GS_BC'', 780), (''NT_S390_RI_CB'', 781),
     (''NT_ARM_VFP'', 1024), (''NT_ARM_TLS'', 1025), (''NT_ARM_HW_BREAK'', 1026), (''NT_ARM_HW_WATCH'', 1027),
     (''NT_ARM_SYSTEM_CALL'', 1028), (''NT_ARM_SVE'', 1029), (''NT_ARM_PAC_MASK'', 1030),
     (''NT_ARM_PACA_KEYS'', 1031), (''NT_ARM_PACG_KEYS'', 1032), (''NT_ARM_TAGGED_ADDR_CTRL'', 1033),
     (''NT_ARM_PAC_ENABLED_KEYS'', 1034), (''NT_METAG_CBUF'', 1280), (''NT_METAG_RPIPE'', 1281),
     (''NT_METAG_TLS'', 1282), (''NT_ARC_V2'', 1536), (''NT_VMCOREDD'', 1792), (''NT_MIPS_DSP'', 2048),
     (''NT_MIPS_FP_MODE'', 2049), (''NT_MIPS_MSA'', 2050), (''NT_VERSION'', 1)]"

definition elf_DT :: table where \<comment> \<open>lines 724 to 782\<close>
  "elf_DT = [(''DT_NULL'', 0), (''DT_NEEDED'', 1), (''DT_PLTRELSZ'', 2), (''DT_PLTGOT'', 3), (''DT_HASH'', 4),
     (''DT_STRTAB'', 5), (''DT_SYMTAB'', 6), (''DT_RELA'', 7), (''DT_RELASZ'', 8), (''DT_RELAENT'', 9),
     (''DT_STRSZ'', 10), (''DT_SYMENT'', 11), (''DT_INIT'', 12), (''DT_FINI'', 13), (''DT_SONAME'', 14),
     (''DT_RPATH'', 15), (''DT_SYMBOLIC'', 16), (''DT_REL'', 17), (''DT_RELSZ'', 18), (''DT_RELENT'', 19),
     (''DT_PLTREL'', 20), (''DT_DEBUG'', 21), (''DT_TEXTREL'', 22), (''DT_JMPREL'', 23), (''DT_BIND_NOW'', 24),
     (''DT_INIT_ARRAY'', 25), (''DT_FINI_ARRAY'', 26), (''DT_INIT_ARRAYSZ'', 27), (''DT_FINI_ARRAYSZ'', 28),
     (''DT_RUNPATH'', 29), (''DT_FLAGS'', 30), (''DT_ENCODING'', 32), (''DT_PREINIT_ARRAY'', 32),
     (''DT_PREINIT_ARRAYSZ'', 33), (''DT_SYMTAB_SHNDX'', 34), (''DT_RELRSZ'', 35), (''DT_RELR'', 36),
     (''DT_RELRENT'', 37), (''DT_NUM'', 38), (''DT_LOOS'', 1610612749), (''DT_HIOS'', 1879044096),
     (''DT_LOPROC'', 1879048192), (''DT_HIPROC'', 2147483647), (''DT_VALRNGLO'', 1879047424),
     (''DT_GNU_PRELINKED'', 1879047669), (''DT_GNU_CONFLICTSZ'', 1879047670), (''DT_GNU_LIBLISTSZ'', 1879047671),
     (''DT_CHECKSUM'', 1879047672), (''DT_PLTPADSZ'', 1879047673), (''DT_MOVEENT'', 1879047674),
     (''DT_MOVESZ'', 1879047675), (''DT_FEATURE_1'', 1879047676), (''DT_POSFLAG_1'', 1879047677),
     (''DT_SYMINSZ'', 1879047678), (''DT_SYMINENT'', 1879047679), (''DT_VALRNGHI'', 1879047679)]"

definition elf_DT_2 :: table where \<comment> \<open>lines 784 to 798\<close>
  "elf_DT_2 = [(''DT_VALNUM'', 12), (''DT_ADDRRNGLO'', 1879047680), (''DT_GNU_HASH'', 1879047925),
     (''DT_TLSDESC_PLT'', 1879047926), (''DT_TLSDESC_GOT'', 1879047927), (''DT_GNU_CONFLICT'', 1879047928),
     (''DT_GNU_LIBLIST'', 1879047929), (''DT_CONFIG'', 1879047930), (''DT_DEPAUDIT'', 1879047931),
     (''DT_AUDIT'', 1879047932), (''DT_PLTPAD'', 1879047933), (''DT_MOVETAB'', 1879047934),
     (''DT_SYMINFO'', 1879047935), (''DT_ADDRRNGHI'', 1879047935)]"

definition elf_DT_3 :: table where \<comment> \<open>lines 800 to 816\<close>
  "elf_DT_3 = [(''DT_ADDRNUM'', 11), (''DT_VERSYM'', 1879048176), (''DT_RELACOUNT'', 1879048185),
     (''DT_RELCOUNT'', 1879048186), (''DT_FLAGS_1'', 1879048187), (''DT_VERDEF'', 1879048188),
     (''DT_VERDEFNUM'', 1879048189), (''DT_VERNEED'', 1879048190), (''DT_VERNEEDNUM'', 1879048191)]"

definition elf_DT_4 :: table where \<comment> \<open>lines 818 to 823\<close>
  "elf_DT_4 = [(''DT_VERSIONTAGNUM'', 16), (''DT_AUXILIARY'', 2147483645), (''DT_FILTER'', 2147483647)]"

definition elf_DT_5 :: table where \<comment> \<open>lines 825 to 870\<close>
  "elf_DT_5 = [(''DT_EXTRANUM'', 3), (''DF_ORIGIN'', 1), (''DF_SYMBOLIC'', 2), (''DF_TEXTREL'', 4),
     (''DF_BIND_NOW'', 8), (''DF_STATIC_TLS'', 16), (''DF_1_NOW'', 1), (''DF_1_GLOBAL'', 2), (''DF_1_GROUP'', 4),
     (''DF_1_NODELETE'', 8), (''DF_1_LOADFLTR'', 16), (''DF_1_INITFIRST'', 32), (''DF_1_NOOPEN'', 64),
     (''DF_1_ORIGIN'', 128), (''DF_1_DIRECT'', 256), (''DF_1_TRANS'', 512), (''DF_1_INTERPOSE'', 1024),
     (''DF_1_NODEFLIB'', 2048), (''DF_1_NODUMP'', 4096), (''DF_1_CONFALT'', 8192), (''DF_1_ENDFILTEE'', 16384),
     (''DF_1_DISPRELDNE'', 32768), (''DF_1_DISPRELPND'', 65536), (''DF_1_NODIRECT'', 131072),
     (''DF_1_IGNMULDEF'', 262144), (''DF_1_NOKSYMS'', 524288), (''DF_1_NOHDR'', 1048576),
     (''DF_1_EDITED'', 2097152), (''DF_1_NORELOC'', 4194304), (''DF_1_SYMINTPOSE'', 8388608),
     (''DF_1_GLOBAUDIT'', 16777216), (''DF_1_SINGLETON'', 33554432), (''DF_1_STUB'', 67108864),
     (''DF_1_PIE'', 134217728), (''DTF_1_PARINIT'', 1), (''DTF_1_CONFEXP'', 2), (''DF_P1_LAZYLOAD'', 1),
     (''DF_P1_GROUPPERM'', 2)]"

definition elf_VER :: table where \<comment> \<open>lines 897 to 909\<close>
  "elf_VER = [(''VER_DEF_NONE'', 0), (''VER_DEF_CURRENT'', 1), (''VER_DEF_NUM'', 2), (''VER_FLG_BASE'', 1),
     (''VER_FLG_WEAK'', 2), (''VER_NDX_LOCAL'', 0), (''VER_NDX_GLOBAL'', 1), (''VER_NDX_LORESERVE'', 65280),
     (''VER_NDX_ELIMINATE'', 65281)]"

definition elf_VER_2 :: table where \<comment> \<open>lines 944 to 946\<close>
  "elf_VER_2 = [(''VER_NEED_NONE'', 0), (''VER_NEED_CURRENT'', 1), (''VER_NEED_NUM'', 2)]"

definition elf_VER_3 :: table where \<comment> \<open>lines 968 to 968\<close>
  "elf_VER_3 = [(''VER_FLG_WEAK'', 2)]"

definition elf_AT :: table where \<comment> \<open>lines 988 to 1054\<close>
  "elf_AT = [(''AT_NULL'', 0), (''AT_IGNORE'', 1), (''AT_EXECFD'', 2), (''AT_PHDR'', 3), (''AT_PHENT'', 4),
     (''AT_PHNUM'', 5), (''AT_PAGESZ'', 6), (''AT_BASE'', 7), (''AT_FLAGS'', 8), (''AT_ENTRY'', 9),
     (''AT_NOTELF'', 10), (''AT_UID'', 11), (''AT_EUID'', 12), (''AT_GID'', 13), (''AT_EGID'', 14),
     (''AT_CLKTCK'', 17), (''AT_PLATFORM'', 15), (''AT_HWCAP'', 16), (''AT_FPUCW'', 18), (''AT_DCACHEBSIZE'', 19),
     (''AT_ICACHEBSIZE'', 20), (''AT_UCACHEBSIZE'', 21), (''AT_IGNOREPPC'', 22), (''AT_SECURE'', 23),
     (''AT_BASE_PLATFORM'', 24), (''AT_RANDOM'', 25), (''AT_HWCAP2'', 26), (''AT_EXECFN'', 31),
     (''AT_SYSINFO'', 32), (''AT_SYSINFO_EHDR'', 33), (''AT_L1I_CACHESHAPE'', 34), (''AT_L1D_CACHESHAPE'', 35),
     (''AT_L2_CACHESHAPE'', 36), (''AT_L3_CACHESHAPE'', 37), (''AT_L1I_CACHESIZE'', 40),
     (''AT_L1I_CACHEGEOMETRY'', 41), (''AT_L1D_CACHESIZE'', 42), (''AT_L1D_CACHEGEOMETRY'', 43),
     (''AT_L2_CACHESIZE'', 44), (''AT_L2_CACHEGEOMETRY'', 45), (''AT_L3_CACHESIZE'', 46),
     (''AT_L3_CACHEGEOMETRY'', 47), (''AT_MINSIGSTKSZ'', 51)]"

definition elf_ELF :: table where \<comment> \<open>lines 1081 to 1096\<close>
  "elf_ELF = [(''ELF_NOTE_PAGESIZE_HINT'', 1), (''NT_GNU_ABI_TAG'', 1), (''ELF_NOTE_ABI'', 1),
     (''ELF_NOTE_OS_LINUX'', 0), (''ELF_NOTE_OS_GNU'', 1), (''ELF_NOTE_OS_SOLARIS2'', 2),
     (''ELF_NOTE_OS_FREEBSD'', 3), (''NT_GNU_BUILD_ID'', 3), (''NT_GNU_GOLD_VERSION'', 4),
     (''NT_GNU_PROPERTY_TYPE_0'', 5)]"

definition elf_EF :: table where \<comment> \<open>lines 1125 to 1125\<close>
  "elf_EF = [(''EF_CPU32'', 8454144)]"

definition elf_R_68K :: table where \<comment> \<open>lines 1127 to 1168\<close>
  "elf_R_68K = [(''R_68K_NONE'', 0), (''R_68K_32'', 1), (''R_68K_16'', 2), (''R_68K_8'', 3), (''R_68K_PC32'', 4),
     (''R_68K_PC16'', 5), (''R_68K_PC8'', 6), (''R_68K_GOT32'', 7), (''R_68K_GOT16'', 8), (''R_68K_GOT8'', 9),
     (''R_68K_GOT32O'', 10), (''R_68K_GOT16O'', 11), (''R_68K_GOT8O'', 12), (''R_68K_PLT32'', 13),
     (''R_68K_PLT16'', 14), (''R_68K_PLT8'', 15), (''R_68K_PLT32O'', 16), (''R_68K_PLT16O'', 17),
     (''R_68K_PLT8O'', 18), (''R_68K_COPY'', 19), (''R_68K_GLOB_DAT'', 20), (''R_68K_JMP_SLOT'', 21),
     (''R_68K_RELATIVE'', 22), (''R_68K_TLS_GD32'', 25), (''R_68K_TLS_GD16'', 26), (''R_68K_TLS_GD8'', 27),
     (''R_68K_TLS_LDM32'', 28), (''R_68K_TLS_LDM16'', 29), (''R_68K_TLS_LDM8'', 30), (''R_68K_TLS_LDO32'', 31),
     (''R_68K_TLS_LDO16'', 32), (''R_68K_TLS_LDO8'', 33), (''R_68K_TLS_IE32'', 34), (''R_68K_TLS_IE16'', 35),
     (''R_68K_TLS_IE8'', 36), (''R_68K_TLS_LE32'', 37), (''R_68K_TLS_LE16'', 38), (''R_68K_TLS_LE8'', 39),
     (''R_68K_TLS_DTPMOD32'', 40), (''R_68K_TLS_DTPREL32'', 41), (''R_68K_TLS_TPREL32'', 42), (''R_68K_NUM'', 43)]"

definition elf_R_386 :: table where \<comment> \<open>lines 1170 to 1212\<close>
  "elf_R_386 = [(''R_386_NONE'', 0), (''R_386_32'', 1), (''R_386_PC32'', 2), (''R_386_GOT32'', 3),
     (''R_386_PLT32'', 4), (''R_386_COPY'', 5), (''R_386_GLOB_DAT'', 6), (''R_386_JMP_SLOT'', 7),
     (''R_386_RELATIVE'', 8), (''R_386_GOTOFF'', 9), (''R_386_GOTPC'', 10), (''R_386_32PLT'', 11),
     (''R_386_TLS_TPOFF'', 14), (''R_386_TLS_IE'', 15), (''R_386_TLS_GOTIE'', 16), (''R_386_TLS_LE'', 17),
     (''R_386_TLS_GD'', 18), (''R_386_TLS_LDM'', 19), (''R_386_16'', 20), (''R_386_PC16'', 21), (''R_386_8'', 22),
     (''R_386_PC8'', 23), (''R_386_TLS_GD_32'', 24), (''R_386_TLS_GD_PUSH'', 25), (''R_386_TLS_GD_CALL'', 26),
     (''R_386_TLS_GD_POP'', 27), (''R_386_TLS_LDM_32'', 28), (''R_386_TLS_LDM_PUSH'', 29),
     (''R_386_TLS_LDM_CALL'', 30), (''R_386_TLS_LDM_POP'', 31), (''R_386_TLS_LDO_32'', 32),
     (''R_386_TLS_IE_32'', 33), (''R_386_TLS_LE_32'', 34), (''R_386_TLS_DTPMOD32'', 35),
     (''R_386_TLS_DTPOFF32'', 36), (''R_386_TLS_TPOFF32'', 37), (''R_386_SIZE32'', 38),
     (''R_386_TLS_GOTDESC'', 39), (''R_386_TLS_DESC_CALL'', 40), (''R_386_TLS_DESC'', 41),
     (''R_386_IRELATIVE'', 42), (''R_386_GOT32X'', 43), (''R_386_NUM'', 44)]"

definition elf_STT_2 :: table where \<comment> \<open>lines 1218 to 1231\<close>
  "elf_STT_2 = [(''STT_SPARC_REGISTER'', 13), (''EF_SPARCV9_MM'', 3), (''EF_SPARCV9_TSO'', 0),
     (''EF_SPARCV9_PSO'', 1), (''EF_SPARCV9_RMO'', 2), (''EF_SPARC_LEDATA'', 8388608),
     (''EF_SPARC_EXT_MASK'', 16776960), (''EF_SPARC_32PLUS'', 256), (''EF_SPARC_SUN_US1'', 512),
     (''EF_SPARC_HAL_R1'', 1024), (''EF_SPARC_SUN_US3'', 2048)]"

definition elf_R_SPARC :: table where \<comment> \<open>lines 1235 to 1330\<close>
  "elf_R_SPARC = [(''R_SPARC_NONE'', 0), (''R_SPARC_8'', 1), (''R_SPARC_16'', 2), (''R_SPARC_32'', 3),
     (''R_SPARC_DISP8'', 4), (''R_SPARC_DISP16'', 5), (''R_SPARC_DISP32'', 6), (''R_SPARC_WDISP30'', 7),
     (''R_SPARC_WDISP22'', 8), (''R_SPARC_HI22'', 9), (''R_SPARC_22'', 10), (''R_SPARC_13'', 11),
     (''R_SPARC_LO10'', 12), (''R_SPARC_GOT10'', 13), (''R_SPARC_GOT13'', 14), (''R_SPARC_GOT22'', 15),
     (''R_SPARC_PC10'', 16), (''R_SPARC_PC22'', 17), (''R_SPARC_WPLT30'', 18), (''R_SPARC_COPY'', 19),
     (''R_SPARC_GLOB_DAT'', 20), (''R_SPARC_JMP_SLOT'', 21), (''R_SPARC_RELATIVE'', 22), (''R_SPARC_UA32'', 23),
     (''R_SPARC_PLT32'', 24), (''R_SPARC_HIPLT22'', 25), (''R_SPARC_LOPLT10'', 26), (''R_SPARC_PCPLT32'', 27),
     (''R_SPARC_PCPLT22'', 28), (''R_SPARC_PCPLT10'', 29), (''R_SPARC_10'', 30), (''R_SPARC_11'', 31),
     (''R_SPARC_64'', 32), (''R_SPARC_OLO10'', 33), (''R_SPARC_HH22'', 34), (''R_SPARC_HM10'', 35),
     (''R_SPARC_LM22'', 36), (''R_SPARC_PC_HH22'', 37), (''R_SPARC_PC_HM10'', 38), (''R_SPARC_PC_LM22'', 39),
     (''R_SPARC_WDISP16'', 40), (''R_SPARC_WDISP19'', 41), (''R_SPARC_GLOB_JMP'', 42), (''R_SPARC_7'', 43),
     (''R_SPARC_5'', 44), (''R_SPARC_6'', 45), (''R_SPARC_DISP64'', 46), (''R_SPARC_PLT64'', 47),
     (''R_SPARC_HIX22'', 48), (''R_SPARC_LOX10'', 49), (''R_SPARC_H44'', 50), (''R_SPARC_M44'', 51),
     (''R_SPARC_L44'', 52), (''R_SPARC_REGISTER'', 53), (''R_SPARC_UA64'', 54), (''R_SPARC_UA16'', 55),
     (''R_SPARC_TLS_GD_HI22'', 56), (''R_SPARC_TLS_GD_LO10'', 57), (''R_SPARC_TLS_GD_ADD'', 58),
     (''R_SPARC_TLS_GD_CALL'', 59), (''R_SPARC_TLS_LDM_HI22'', 60), (''R_SPARC_TLS_LDM_LO10'', 61),
     (''R_SPARC_TLS_LDM_ADD'', 62), (''R_SPARC_TLS_LDM_CALL'', 63), (''R_SPARC_TLS_LDO_HIX22'', 64),
     (''R_SPARC_TLS_LDO_LOX10'', 65), (''R_SPARC_TLS_LDO_ADD'', 66), (''R_SPARC_TLS_IE_HI22'', 67),
     (''R_SPARC_TLS_IE_LO10'', 68), (''R_SPARC_TLS_IE_LD'', 69), (''R_SPARC_TLS_IE_LDX'', 70),
     (''R_SPARC_TLS_IE_ADD'', 71), (''R_SPARC_TLS_LE_HIX22'', 72), (''R_SPARC_TLS_LE_LOX10'', 73),
     (''R_SPARC_TLS_DTPMOD32'', 74), (''R_SPARC_TLS_DTPMOD64'', 75), (''R_SPARC_TLS_DTPOFF32'', 76),
     (''R_SPARC_TLS_DTPOFF64'', 77), (''R_SPARC_TLS_TPOFF32'', 78), (''R_SPARC_TLS_TPOFF64'', 79),
     (''R_SPARC_GOTDATA_HIX22'', 80), (''R_SPARC_GOTDATA_LOX10'', 81), (''R_SPARC_GOTDATA_OP_HIX22'', 82),
     (''R_SPARC_GOTDATA_OP_LOX10'', 83), (''R_SPARC_GOTDATA_OP'', 84), (''R_SPARC_H34'', 85),
     (''R_SPARC_SIZE32'', 86), (''R_SPARC_SIZE64'', 87), (''R_SPARC_GNU_VTINHERIT'', 250),
     (''R_SPARC_GNU_VTENTRY'', 251), (''R_SPARC_REV32'', 252), (''R_SPARC_NUM'', 253)]"

definition elf_DT_6 :: table where \<comment> \<open>lines 1334 to 1376\<close>
  "elf_DT_6 = [(''DT_SPARC_REGISTER'', 1879048193), (''DT_SPARC_NUM'', 2), (''EF_MIPS_NOREORDER'', 1),
     (''EF_MIPS_PIC'', 2), (''EF_MIPS_CPIC'', 4), (''EF_MIPS_XGOT'', 8), (''EF_MIPS_64BIT_WHIRL'', 16),
     (''EF_MIPS_ABI2'', 32), (''EF_MIPS_ABI_ON32'', 64), (''EF_MIPS_FP64'', 512), (''EF_MIPS_NAN2008'', 1024),
     (''EF_MIPS_ARCH'', 4026531840), (''EF_MIPS_ARCH_1'', 0), (''EF_MIPS_ARCH_2'', 268435456),
     (''EF_MIPS_ARCH_3'', 536870912), (''EF_MIPS_ARCH_4'', 805306368), (''EF_MIPS_ARCH_5'', 1073741824),
     (''EF_MIPS_ARCH_32'', 1342177280), (''EF_MIPS_ARCH_64'', 1610612736), (''EF_MIPS_ARCH_32R2'', 1879048192),
     (''EF_MIPS_ARCH_64R2'', 2147483648), (''E_MIPS_ARCH_1'', 0), (''E_MIPS_ARCH_2'', 268435456),
     (''E_MIPS_ARCH_3'', 536870912), (''E_MIPS_ARCH_4'', 805306368), (''E_MIPS_ARCH_5'', 1073741824),
     (''E_MIPS_ARCH_32'', 1342177280), (''E_MIPS_ARCH_64'', 1610612736), (''SHN_MIPS_ACOMMON'', 65280),
     (''SHN_MIPS_TEXT'', 65281), (''SHN_MIPS_DATA'', 65282), (''SHN_MIPS_SCOMMON'', 65283),
     (''SHN_MIPS_SUNDEFINED'', 65284)]"

definition elf_SHT_2 :: table where \<comment> \<open>lines 1380 to 1418\<close>
  "elf_SHT_2 = [(''SHT_MIPS_LIBLIST'', 1879048192), (''SHT_MIPS_MSYM'', 1879048193),
     (''SHT_MIPS_CONFLICT'', 1879048194), (''SHT_MIPS_GPTAB'', 1879048195), (''SHT_MIPS_UCODE'', 1879048196),
     (''SHT_MIPS_DEBUG'', 1879048197), (''SHT_MIPS_REGINFO'', 1879048198), (''SHT_MIPS_PACKAGE'', 1879048199),
     (''SHT_MIPS_PACKSYM'', 1879048200), (''SHT_MIPS_RELD'', 1879048201), (''SHT_MIPS_IFACE'', 1879048203),
     (''SHT_MIPS_CONTENT'', 1879048204), (''SHT_MIPS_OPTIONS'', 1879048205), (''SHT_MIPS_SHDR'', 1879048208),
     (''SHT_MIPS_FDESC'', 1879048209), (''SHT_MIPS_EXTSYM'', 1879048210), (''SHT_MIPS_DENSE'', 1879048211),
     (''SHT_MIPS_PDESC'', 1879048212), (''SHT_MIPS_LOCSYM'', 1879048213), (''SHT_MIPS_AUXSYM'', 1879048214),
     (''SHT_MIPS_OPTSYM'', 1879048215), (''SHT_MIPS_LOCSTR'', 1879048216), (''SHT_MIPS_LINE'', 1879048217),
     (''SHT_MIPS_RFDESC'', 1879048218), (''SHT_MIPS_DELTASYM'', 1879048219), (''SHT_MIPS_DELTAINST'', 1879048220),
     (''SHT_MIPS_DELTACLASS'', 1879048221), (''SHT_MIPS_DWARF'', 1879048222), (''SHT_MIPS_DELTADECL'', 1879048223),
     (''SHT_MIPS_SYMBOL_LIB'', 1879048224), (''SHT_MIPS_EVENTS'', 1879048225),
     (''SHT_MIPS_TRANSLATE'', 1879048226), (''SHT_MIPS_PIXIE'', 1879048227), (''SHT_MIPS_XLATE'', 1879048228),
     (''SHT_MIPS_XLATE_DEBUG'', 1879048229), (''SHT_MIPS_WHIRL'', 1879048230),
     (''SHT_MIPS_EH_REGION'', 1879048231), (''SHT_MIPS_XLATE_OLD'', 1879048232),
     (''SHT_MIPS_PDR_EXCEPTION'', 1879048233)]"

definition elf_SHF_2 :: table where \<comment> \<open>lines 1422 to 1443\<close>
  "elf_SHF_2 = [(''SHF_MIPS_GPREL'', 268435456), (''SHF_MIPS_MERGE'', 536870912), (''SHF_MIPS_ADDR'', 1073741824),
     (''SHF_MIPS_STRINGS'', 2147483648), (''SHF_MIPS_NOSTRIP'', 134217728), (''SHF_MIPS_LOCAL'', 67108864),
     (''SHF_MIPS_NAMES'', 33554432), (''SHF_MIPS_NODUPE'', 16777216), (''STO_MIPS_DEFAULT'', 0),
     (''STO_MIPS_INTERNAL'', 1), (''STO_MIPS_HIDDEN'', 2), (''STO_MIPS_PROTECTED'', 3), (''STO_MIPS_PLT'', 8),
     (''STO_MIPS_SC_ALIGN_UNUSED'', 255), (''STB_MIPS_SPLIT_COMMON'', 13)]"

definition elf_ODK :: table where \<comment> \<open>lines 1479 to 1487\<close>
  "elf_ODK = [(''ODK_NULL'', 0), (''ODK_REGINFO'', 1), (''ODK_EXCEPTIONS'', 2), (''ODK_PAD'', 3),
     (''ODK_HWPATCH'', 4), (''ODK_FILL'', 5), (''ODK_TAGS'', 6), (''ODK_HWAND'', 7), (''ODK_HWOR'', 8)]"

definition elf_OEX :: table where \<comment> \<open>lines 1491 to 1514\<close>
  "elf_OEX = [(''OEX_FPU_MIN'', 31), (''OEX_FPU_MAX'', 7936), (''OEX_PAGE0'', 65536), (''OEX_SMM'', 131072),
     (''OEX_FPDBUG'', 262144), (''OEX_PRECISEFP'', 262144), (''OEX_DISMISS'', 524288), (''OEX_FPU_INVAL'', 16),
     (''OEX_FPU_DIV0'', 8), (''OEX_FPU_OFLO'', 4), (''OEX_FPU_UFLO'', 2), (''OEX_FPU_INEX'', 1),
     (''OHW_R4KEOP'', 1), (''OHW_R8KPFETCH'', 2), (''OHW_R5KEOP'', 4), (''OHW_R5KCVTL'', 8), (''OPAD_PREFIX'', 1),
     (''OPAD_POSTFIX'', 2), (''OPAD_SYMBOL'', 4)]"

definition elf_OHWA0 :: table where \<comment> \<open>lines 1525 to 1526\<close>
  "elf_OHWA0 = [(''OHWA0_R4KEOP_CHECKED'', 1), (''OHWA1_R4KEOP_CLEAN'', 2)]"

definition elf_R_MIPS :: table where \<comment> \<open>lines 1530 to 1583\<close>
  "elf_R_MIPS = [(''R_MIPS_NONE'', 0), (''R_MIPS_16'', 1), (''R_MIPS_32'', 2), (''R_MIPS_REL32'', 3),
     (''R_MIPS_26'', 4), (''R_MIPS_HI16'', 5), (''R_MIPS_LO16'', 6), (''R_MIPS_GPREL16'', 7),
     (''R_MIPS_LITERAL'', 8), (''R_MIPS_GOT16'', 9), (''R_MIPS_PC16'', 10), (''R_MIPS_CALL16'', 11),
     (''R_MIPS_GPREL32'', 12), (''R_MIPS_SHIFT5'', 16), (''R_MIPS_SHIFT6'', 17), (''R_MIPS_64'', 18),
     (''R_MIPS_GOT_DISP'', 19), (''R_MIPS_GOT_PAGE'', 20), (''R_MIPS_GOT_OFST'', 21), (''R_MIPS_GOT_HI16'', 22),
     (''R_MIPS_GOT_LO16'', 23), (''R_MIPS_SUB'', 24), (''R_MIPS_INSERT_A'', 25), (''R_MIPS_INSERT_B'', 26),
     (''R_MIPS_DELETE'', 27), (''R_MIPS_HIGHER'', 28), (''R_MIPS_HIGHEST'', 29), (''R_MIPS_CALL_HI16'', 30),
     (''R_MIPS_CALL_LO16'', 31), (''R_MIPS_SCN_DISP'', 32), (''R_MIPS_REL16'', 33), (''R_MIPS_ADD_IMMEDIATE'', 34),
     (''R_MIPS_PJUMP'', 35), (''R_MIPS_RELGOT'', 36), (''R_MIPS_JALR'', 37), (''R_MIPS_TLS_DTPMOD32'', 38),
     (''R_MIPS_TLS_DTPREL32'', 39), (''R_MIPS_TLS_DTPMOD64'', 40), (''R_MIPS_TLS_DTPREL64'', 41),
     (''R_MIPS_TLS_GD'', 42), (''R_MIPS_TLS_LDM'', 43), (''R_MIPS_TLS_DTPREL_HI16'', 44),
     (''R_MIPS_TLS_DTPREL_LO16'', 45), (''R_MIPS_TLS_GOTTPREL'', 46), (''R_MIPS_TLS_TPREL32'', 47),
     (''R_MIPS_TLS_TPREL64'', 48), (''R_MIPS_TLS_TPREL_HI16'', 49), (''R_MIPS_TLS_TPREL_LO16'', 50),
     (''R_MIPS_GLOB_DAT'', 51), (''R_MIPS_COPY'', 126), (''R_MIPS_JUMP_SLOT'', 127), (''R_MIPS_NUM'', 128)]"

definition elf_PT_2 :: table where \<comment> \<open>lines 1587 to 1655\<close>
  "elf_PT_2 = [(''PT_MIPS_REGINFO'', 1879048192), (''PT_MIPS_RTPROC'', 1879048193),
     (''PT_MIPS_OPTIONS'', 1879048194), (''PT_MIPS_ABIFLAGS'', 1879048195), (''PF_MIPS_LOCAL'', 268435456),
     (''DT_MIPS_RLD_VERSION'', 1879048193), (''DT_MIPS_TIME_STAMP'', 1879048194),
     (''DT_MIPS_ICHECKSUM'', 1879048195), (''DT_MIPS_IVERSION'', 1879048196), (''DT_MIPS_FLAGS'', 1879048197),
     (''DT_MIPS_BASE_ADDRESS'', 1879048198), (''DT_MIPS_MSYM'', 1879048199), (''DT_MIPS_CONFLICT'', 1879048200),
     (''DT_MIPS_LIBLIST'', 1879048201), (''DT_MIPS_LOCAL_GOTNO'', 1879048202),
     (''DT_MIPS_CONFLICTNO'', 1879048203), (''DT_MIPS_LIBLISTNO'', 1879048208), (''DT_MIPS_SYMTABNO'', 1879048209),
     (''DT_MIPS_UNREFEXTNO'', 1879048210), (''DT_MIPS_GOTSYM'', 1879048211), (''DT_MIPS_HIPAGENO'', 1879048212),
     (''DT_MIPS_RLD_MAP'', 1879048214), (''DT_MIPS_DELTA_CLASS'', 1879048215),
     (''DT_MIPS_DELTA_CLASS_NO'', 1879048216), (''DT_MIPS_DELTA_INSTANCE'', 1879048217),
     (''DT_MIPS_DELTA_INSTANCE_NO'', 1879048218), (''DT_MIPS_DELTA_RELOC'', 1879048219),
     (''DT_MIPS_DELTA_RELOC_NO'', 1879048220), (''DT_MIPS_DELTA_SYM'', 1879048221),
     (''DT_MIPS_DELTA_SYM_NO'', 1879048222), (''DT_MIPS_DELTA_CLASSSYM'', 1879048224),
     (''DT_MIPS_DELTA_CLASSSYM_NO'', 1879048225), (''DT_MIPS_CXX_FLAGS'', 1879048226),
     (''DT_MIPS_PIXIE_INIT'', 1879048227), (''DT_MIPS_SYMBOL_LIB'', 1879048228),
     (''DT_MIPS_LOCALPAGE_GOTIDX'', 1879048229), (''DT_MIPS_LOCAL_GOTIDX'', 1879048230),
     (''DT_MIPS_HIDDEN_GOTIDX'', 1879048231), (''DT_MIPS_PROTECTED_GOTIDX'', 1879048232),
     (''DT_MIPS_OPTIONS'', 1879048233), (''DT_MIPS_INTERFACE'', 1879048234),
     (''DT_MIPS_DYNSTR_ALIGN'', 1879048235), (''DT_MIPS_INTERFACE_SIZE'', 1879048236),
     (''DT_MIPS_RLD_TEXT_RESOLVE_ADDR'', 1879048237), (''DT_MIPS_PERF_SUFFIX'', 1879048238),
     (''DT_MIPS_COMPACT_SIZE'', 1879048239), (''DT_MIPS_GP_VALUE'', 1879048240),
     (''DT_MIPS_AUX_DYNAMIC'', 1879048241), (''DT_MIPS_PLTGOT'', 1879048242), (''DT_MIPS_RWPLT'', 1879048244),
     (''DT_MIPS_RLD_MAP_REL'', 1879048245), (''DT_MIPS_NUM'', 54)]"

definition elf_RHF :: table where \<comment> \<open>lines 1659 to 1674\<close>
  "elf_RHF = [(''RHF_NONE'', 0), (''RHF_QUICKSTART'', 1), (''RHF_NOTPOT'', 2), (''RHF_NO_LIBRARY_REPLACEMENT'', 4),
     (''RHF_NO_MOVE'', 8), (''RHF_SGI_ONLY'', 16), (''RHF_GUARANTEE_INIT'', 32), (''RHF_DELTA_C_PLUS_PLUS'', 64),
     (''RHF_GUARANTEE_START_INIT'', 128), (''RHF_PIXIE'', 256), (''RHF_DEFAULT_DELAY_LOAD'', 512),
     (''RHF_REQUICKSTART'', 1024), (''RHF_REQUICKSTARTED'', 2048), (''RHF_CORD'', 4096),
     (''RHF_NO_UNRES_UNDEF'', 8192), (''RHF_RLD_ORDER_SAFE'', 16384)]"

definition elf_LL :: table where \<comment> \<open>lines 1697 to 1703\<close>
  "elf_LL = [(''LL_NONE'', 0), (''LL_EXACT_MATCH'', 1), (''LL_IGNORE_INT_VER'', 2), (''LL_REQUIRE_MINOR'', 4),
     (''LL_EXPORTS'', 8), (''LL_DELAY_LOAD'', 16), (''LL_DELTA'', 32)]"

definition elf_MIPS :: table where \<comment> \<open>lines 1723 to 1818\<close>
  "elf_MIPS = [(''MIPS_AFL_REG_NONE'', 0), (''MIPS_AFL_REG_32'', 1), (''MIPS_AFL_REG_64'', 2),
     (''MIPS_AFL_REG_128'', 3), (''MIPS_AFL_ASE_DSP'', 1), (''MIPS_AFL_ASE_DSPR2'', 2), (''MIPS_AFL_ASE_EVA'', 4),
     (''MIPS_AFL_ASE_MCU'', 8), (''MIPS_AFL_ASE_MDMX'', 16), (''MIPS_AFL_ASE_MIPS3D'', 32),
     (''MIPS_AFL_ASE_MT'', 64), (''MIPS_AFL_ASE_SMARTMIPS'', 128), (''MIPS_AFL_ASE_VIRT'', 256),
     (''MIPS_AFL_ASE_MSA'', 512), (''MIPS_AFL_ASE_MIPS16'', 1024), (''MIPS_AFL_ASE_MICROMIPS'', 2048),
     (''MIPS_AFL_ASE_XPA'', 4096), (''MIPS_AFL_ASE_MASK'', 8191), (''MIPS_AFL_EXT_XLR'', 1),
     (''MIPS_AFL_EXT_OCTEON2'', 2), (''MIPS_AFL_EXT_OCTEONP'', 3), (''MIPS_AFL_EXT_LOONGSON_3A'', 4),
     (''MIPS_AFL_EXT_OCTEON'', 5), (''MIPS_AFL_EXT_5900'', 6), (''MIPS_AFL_EXT_4650'', 7),
     (''MIPS_AFL_EXT_4010'', 8), (''MIPS_AFL_EXT_4100'', 9), (''MIPS_AFL_EXT_3900'', 10),
     (''MIPS_AFL_EXT_10000'', 11), (''MIPS_AFL_EXT_SB1'', 12), (''MIPS_AFL_EXT_4111'', 13),
     (''MIPS_AFL_EXT_4120'', 14), (''MIPS_AFL_EXT_5400'', 15), (''MIPS_AFL_EXT_5500'', 16),
     (''MIPS_AFL_EXT_LOONGSON_2E'', 17), (''MIPS_AFL_EXT_LOONGSON_2F'', 18), (''MIPS_AFL_FLAGS1_ODDSPREG'', 1),
     (''EF_PARISC_TRAPNIL'', 65536), (''EF_PARISC_EXT'', 131072), (''EF_PARISC_LSB'', 262144),
     (''EF_PARISC_WIDE'', 524288), (''EF_PARISC_NO_KABP'', 1048576), (''EF_PARISC_LAZYSWAP'', 4194304),
     (''EF_PARISC_ARCH'', 65535), (''EFA_PARISC_1_0'', 523), (''EFA_PARISC_1_1'', 528), (''EFA_PARISC_2_0'', 532),
     (''SHN_PARISC_ANSI_COMMON'', 65280), (''SHN_PARISC_HUGE_COMMON'', 65281), (''SHT_PARISC_EXT'', 1879048192),
     (''SHT_PARISC_UNWIND'', 1879048193), (''SHT_PARISC_DOC'', 1879048194), (''SHF_PARISC_SHORT'', 536870912),
     (''SHF_PARISC_HUGE'', 1073741824), (''SHF_PARISC_SBP'', 2147483648), (''STT_PARISC_MILLICODE'', 13),
     (''STT_HP_OPAQUE'', 11), (''STT_HP_STUB'', 12)]"

definition elf_R_PARISC :: table where \<comment> \<open>lines 1822 to 1931\<close>
  "elf_R_PARISC = [(''R_PARISC_NONE'', 0), (''R_PARISC_DIR32'', 1), (''R_PARISC_DIR21L'', 2),
     (''R_PARISC_DIR17R'', 3), (''R_PARISC_DIR17F'', 4), (''R_PARISC_DIR14R'', 6), (''R_PARISC_PCREL32'', 9),
     (''R_PARISC_PCREL21L'', 10), (''R_PARISC_PCREL17R'', 11), (''R_PARISC_PCREL17F'', 12),
     (''R_PARISC_PCREL14R'', 14), (''R_PARISC_DPREL21L'', 18), (''R_PARISC_DPREL14R'', 22),
     (''R_PARISC_GPREL21L'', 26), (''R_PARISC_GPREL14R'', 30), (''R_PARISC_LTOFF21L'', 34),
     (''R_PARISC_LTOFF14R'', 38), (''R_PARISC_SECREL32'', 41), (''R_PARISC_SEGBASE'', 48),
     (''R_PARISC_SEGREL32'', 49), (''R_PARISC_PLTOFF21L'', 50), (''R_PARISC_PLTOFF14R'', 54),
     (''R_PARISC_LTOFF_FPTR32'', 57), (''R_PARISC_LTOFF_FPTR21L'', 58), (''R_PARISC_LTOFF_FPTR14R'', 62),
     (''R_PARISC_FPTR64'', 64), (''R_PARISC_PLABEL32'', 65), (''R_PARISC_PLABEL21L'', 66),
     (''R_PARISC_PLABEL14R'', 70), (''R_PARISC_PCREL64'', 72), (''R_PARISC_PCREL22F'', 74),
     (''R_PARISC_PCREL14WR'', 75), (''R_PARISC_PCREL14DR'', 76), (''R_PARISC_PCREL16F'', 77),
     (''R_PARISC_PCREL16WF'', 78), (''R_PARISC_PCREL16DF'', 79), (''R_PARISC_DIR64'', 80),
     (''R_PARISC_DIR14WR'', 83), (''R_PARISC_DIR14DR'', 84), (''R_PARISC_DIR16F'', 85), (''R_PARISC_DIR16WF'', 86),
     (''R_PARISC_DIR16DF'', 87), (''R_PARISC_GPREL64'', 88), (''R_PARISC_GPREL14WR'', 91),
     (''R_PARISC_GPREL14DR'', 92), (''R_PARISC_GPREL16F'', 93), (''R_PARISC_GPREL16WF'', 94),
     (''R_PARISC_GPREL16DF'', 95), (''R_PARISC_LTOFF64'', 96), (''R_PARISC_LTOFF14WR'', 99),
     (''R_PARISC_LTOFF14DR'', 100), (''R_PARISC_LTOFF16F'', 101), (''R_PARISC_LTOFF16WF'', 102),
     (''R_PARISC_LTOFF16DF'', 103), (''R_PARISC_SECREL64'', 104), (''R_PARISC_SEGREL64'', 112),
     (''R_PARISC_PLTOFF14WR'', 115), (''R_PARISC_PLTOFF14DR'', 116), (''R_PARISC_PLTOFF16F'', 117),
     (''R_PARISC_PLTOFF16WF'', 118), (''R_PARISC_PLTOFF16DF'', 119), (''R_PARISC_LTOFF_FPTR64'', 120),
     (''R_PARISC_LTOFF_FPTR14WR'', 123), (''R_PARISC_LTOFF_FPTR14DR'', 124), (''R_PARISC_LTOFF_FPTR16F'', 125),
     (''R_PARISC_LTOFF_FPTR16WF'', 126), (''R_PARISC_LTOFF_FPTR16DF'', 127), (''R_PARISC_LORESERVE'', 128),
     (''R_PARISC_COPY'', 128), (''R_PARISC_IPLT'', 129), (''R_PARISC_EPLT'', 130), (''R_PARISC_TPREL32'', 153),
     (''R_PARISC_TPREL21L'', 154), (''R_PARISC_TPREL14R'', 158), (''R_PARISC_LTOFF_TP21L'', 162),
     (''R_PARISC_LTOFF_TP14R'', 166), (''R_PARISC_LTOFF_TP14F'', 167), (''R_PARISC_TPREL64'', 216),
     (''R_PARISC_TPREL14WR'', 219), (''R_PARISC_TPREL14DR'', 220), (''R_PARISC_TPREL16F'', 221),
     (''R_PARISC_TPREL16WF'', 222), (''R_PARISC_TPREL16DF'', 223), (''R_PARISC_LTOFF_TP64'', 224),
     (''R_PARISC_LTOFF_TP14WR'', 227), (''R_PARISC_LTOFF_TP14DR'', 228), (''R_PARISC_LTOFF_TP16F'', 229),
     (''R_PARISC_LTOFF_TP16WF'', 230), (''R_PARISC_LTOFF_TP16DF'', 231), (''R_PARISC_GNU_VTENTRY'', 232),
     (''R_PARISC_GNU_VTINHERIT'', 233), (''R_PARISC_TLS_GD21L'', 234), (''R_PARISC_TLS_GD14R'', 235),
     (''R_PARISC_TLS_GDCALL'', 236), (''R_PARISC_TLS_LDM21L'', 237), (''R_PARISC_TLS_LDM14R'', 238),
     (''R_PARISC_TLS_LDMCALL'', 239), (''R_PARISC_TLS_LDO21L'', 240), (''R_PARISC_TLS_LDO14R'', 241),
     (''R_PARISC_TLS_DTPMOD32'', 242), (''R_PARISC_TLS_DTPMOD64'', 243), (''R_PARISC_TLS_DTPOFF32'', 244),
     (''R_PARISC_TLS_DTPOFF64'', 245), (''R_PARISC_TLS_LE21L'', 154), (''R_PARISC_TLS_LE14R'', 158),
     (''R_PARISC_TLS_IE21L'', 162), (''R_PARISC_TLS_IE14R'', 166), (''R_PARISC_TLS_TPREL32'', 153),
     (''R_PARISC_TLS_TPREL64'', 216), (''R_PARISC_HIRESERVE'', 255)]"

definition elf_PT_3 :: table where \<comment> \<open>lines 1935 to 1952\<close>
  "elf_PT_3 = [(''PT_HP_TLS'', 1610612736), (''PT_HP_CORE_NONE'', 1610612737),
     (''PT_HP_CORE_VERSION'', 1610612738), (''PT_HP_CORE_KERNEL'', 1610612739), (''PT_HP_CORE_COMM'', 1610612740),
     (''PT_HP_CORE_PROC'', 1610612741), (''PT_HP_CORE_LOADABLE'', 1610612742), (''PT_HP_CORE_STACK'', 1610612743),
     (''PT_HP_CORE_SHM'', 1610612744), (''PT_HP_CORE_MMF'', 1610612745), (''PT_HP_PARALLEL'', 1610612752),
     (''PT_HP_FASTBIND'', 1610612753), (''PT_HP_OPT_ANNOT'', 1610612754), (''PT_HP_HSL_ANNOT'', 1610612755),
     (''PT_HP_STACK'', 1610612756), (''PT_PARISC_ARCHEXT'', 1879048192), (''PT_PARISC_UNWIND'', 1879048193)]"

definition elf_PF :: table where \<comment> \<open>lines 1956 to 1986\<close>
  "elf_PF = [(''PF_PARISC_SBP'', 134217728), (''PF_HP_PAGE_SIZE'', 1048576), (''PF_HP_FAR_SHARED'', 2097152),
     (''PF_HP_NEAR_SHARED'', 4194304), (''PF_HP_CODE'', 16777216), (''PF_HP_MODIFY'', 33554432),
     (''PF_HP_LAZYSWAP'', 67108864), (''PF_HP_SBP'', 134217728), (''EF_ALPHA_32BIT'', 1),
     (''EF_ALPHA_CANRELAX'', 2), (''SHT_ALPHA_DEBUG'', 1879048193), (''SHT_ALPHA_REGINFO'', 1879048194),
     (''SHF_ALPHA_GPREL'', 268435456), (''STO_ALPHA_NOPV'', 128), (''STO_ALPHA_STD_GPLOAD'', 136)]"

definition elf_R_ALPHA :: table where \<comment> \<open>lines 1990 to 2024\<close>
  "elf_R_ALPHA = [(''R_ALPHA_NONE'', 0), (''R_ALPHA_REFLONG'', 1), (''R_ALPHA_REFQUAD'', 2),
     (''R_ALPHA_GPREL32'', 3), (''R_ALPHA_LITERAL'', 4), (''R_ALPHA_LITUSE'', 5), (''R_ALPHA_GPDISP'', 6),
     (''R_ALPHA_BRADDR'', 7), (''R_ALPHA_HINT'', 8), (''R_ALPHA_SREL16'', 9), (''R_ALPHA_SREL32'', 10),
     (''R_ALPHA_SREL64'', 11), (''R_ALPHA_GPRELHIGH'', 17), (''R_ALPHA_GPRELLOW'', 18), (''R_ALPHA_GPREL16'', 19),
     (''R_ALPHA_COPY'', 24), (''R_ALPHA_GLOB_DAT'', 25), (''R_ALPHA_JMP_SLOT'', 26), (''R_ALPHA_RELATIVE'', 27),
     (''R_ALPHA_TLS_GD_HI'', 28), (''R_ALPHA_TLSGD'', 29), (''R_ALPHA_TLS_LDM'', 30), (''R_ALPHA_DTPMOD64'', 31),
     (''R_ALPHA_GOTDTPREL'', 32), (''R_ALPHA_DTPREL64'', 33), (''R_ALPHA_DTPRELHI'', 34),
     (''R_ALPHA_DTPRELLO'', 35), (''R_ALPHA_DTPREL16'', 36), (''R_ALPHA_GOTTPREL'', 37), (''R_ALPHA_TPREL64'', 38),
     (''R_ALPHA_TPRELHI'', 39), (''R_ALPHA_TPRELLO'', 40), (''R_ALPHA_TPREL16'', 41), (''R_ALPHA_NUM'', 46)]"

definition elf_LITUSE :: table where \<comment> \<open>lines 2027 to 2045\<close>
  "elf_LITUSE = [(''LITUSE_ALPHA_ADDR'', 0), (''LITUSE_ALPHA_BASE'', 1), (''LITUSE_ALPHA_BYTOFF'', 2),
     (''LITUSE_ALPHA_JSR'', 3), (''LITUSE_ALPHA_TLS_GD'', 4), (''LITUSE_ALPHA_TLS_LDM'', 5),
     (''DT_ALPHA_PLTRO'', 1879048192), (''DT_ALPHA_NUM'', 1), (''EF_PPC_EMB'', 2147483648),
     (''EF_PPC_RELOCATABLE'', 65536), (''EF_PPC_RELOCATABLE_LIB'', 32768)]"

definition elf_R_PPC :: table where \<comment> \<open>lines 2049 to 2156\<close>
  "elf_R_PPC = [(''R_PPC_NONE'', 0), (''R_PPC_ADDR32'', 1), (''R_PPC_ADDR24'', 2), (''R_PPC_ADDR16'', 3),
     (''R_PPC_ADDR16_LO'', 4), (''R_PPC_ADDR16_HI'', 5), (''R_PPC_ADDR16_HA'', 6), (''R_PPC_ADDR14'', 7),
     (''R_PPC_ADDR14_BRTAKEN'', 8), (''R_PPC_ADDR14_BRNTAKEN'', 9), (''R_PPC_REL24'', 10), (''R_PPC_REL14'', 11),
     (''R_PPC_REL14_BRTAKEN'', 12), (''R_PPC_REL14_BRNTAKEN'', 13), (''R_PPC_GOT16'', 14),
     (''R_PPC_GOT16_LO'', 15), (''R_PPC_GOT16_HI'', 16), (''R_PPC_GOT16_HA'', 17), (''R_PPC_PLTREL24'', 18),
     (''R_PPC_COPY'', 19), (''R_PPC_GLOB_DAT'', 20), (''R_PPC_JMP_SLOT'', 21), (''R_PPC_RELATIVE'', 22),
     (''R_PPC_LOCAL24PC'', 23), (''R_PPC_UADDR32'', 24), (''R_PPC_UADDR16'', 25), (''R_PPC_REL32'', 26),
     (''R_PPC_PLT32'', 27), (''R_PPC_PLTREL32'', 28), (''R_PPC_PLT16_LO'', 29), (''R_PPC_PLT16_HI'', 30),
     (''R_PPC_PLT16_HA'', 31), (''R_PPC_SDAREL16'', 32), (''R_PPC_SECTOFF'', 33), (''R_PPC_SECTOFF_LO'', 34),
     (''R_PPC_SECTOFF_HI'', 35), (''R_PPC_SECTOFF_HA'', 36), (''R_PPC_TLS'', 67), (''R_PPC_DTPMOD32'', 68),
     (''R_PPC_TPREL16'', 69), (''R_PPC_TPREL16_LO'', 70), (''R_PPC_TPREL16_HI'', 71), (''R_PPC_TPREL16_HA'', 72),
     (''R_PPC_TPREL32'', 73), (''R_PPC_DTPREL16'', 74), (''R_PPC_DTPREL16_LO'', 75), (''R_PPC_DTPREL16_HI'', 76),
     (''R_PPC_DTPREL16_HA'', 77), (''R_PPC_DTPREL32'', 78), (''R_PPC_GOT_TLSGD16'', 79),
     (''R_PPC_GOT_TLSGD16_LO'', 80), (''R_PPC_GOT_TLSGD16_HI'', 81), (''R_PPC_GOT_TLSGD16_HA'', 82),
     (''R_PPC_GOT_TLSLD16'', 83), (''R_PPC_GOT_TLSLD16_LO'', 84), (''R_PPC_GOT_TLSLD16_HI'', 85),
     (''R_PPC_GOT_TLSLD16_HA'', 86), (''R_PPC_GOT_TPREL16'', 87), (''R_PPC_GOT_TPREL16_LO'', 88),
     (''R_PPC_GOT_TPREL16_HI'', 89), (''R_PPC_GOT_TPREL16_HA'', 90), (''R_PPC_GOT_DTPREL16'', 91),
     (''R_PPC_GOT_DTPREL16_LO'', 92), (''R_PPC_GOT_DTPREL16_HI'', 93), (''R_PPC_GOT_DTPREL16_HA'', 94),
     (''R_PPC_TLSGD'', 95), (''R_PPC_TLSLD'', 96), (''R_PPC_EMB_NADDR32'', 101), (''R_PPC_EMB_NADDR16'', 102),
     (''R_PPC_EMB_NADDR16_LO'', 103), (''R_PPC_EMB_NADDR16_HI'', 104), (''R_PPC_EMB_NADDR16_HA'', 105),
     (''R_PPC_EMB_SDAI16'', 106), (''R_PPC_EMB_SDA2I16'', 107), (''R_PPC_EMB_SDA2REL'', 108),
     (''R_PPC_EMB_SDA21'', 109), (''R_PPC_EMB_MRKREF'', 110), (''R_PPC_EMB_RELSEC16'', 111),
     (''R_PPC_EMB_RELST_LO'', 112), (''R_PPC_EMB_RELST_HI'', 113), (''R_PPC_EMB_RELST_HA'', 114),
     (''R_PPC_EMB_BIT_FLD'', 115), (''R_PPC_EMB_RELSDA'', 116), (''R_PPC_DIAB_SDA21_LO'', 180),
     (''R_PPC_DIAB_SDA21_HI'', 181), (''R_PPC_DIAB_SDA21_HA'', 182), (''R_PPC_DIAB_RELSDA_LO'', 183),
     (''R_PPC_DIAB_RELSDA_HI'', 184), (''R_PPC_DIAB_RELSDA_HA'', 185), (''R_PPC_IRELATIVE'', 248),
     (''R_PPC_REL16'', 249), (''R_PPC_REL16_LO'', 250), (''R_PPC_REL16_HI'', 251), (''R_PPC_REL16_HA'', 252),
     (''R_PPC_TOC16'', 255)]"

definition elf_DT_7 :: table where \<comment> \<open>lines 2159 to 2163\<close>
  "elf_DT_7 = [(''DT_PPC_GOT'', 1879048192), (''DT_PPC_OPT'', 1879048193), (''DT_PPC_NUM'', 2),
     (''PPC_OPT_TLS'', 1)]"

definition elf_R_PPC64 :: table where \<comment> \<open>lines 2166 to 2292\<close>
  "elf_R_PPC64 = [(''R_PPC64_NONE'', 0), (''R_PPC64_ADDR32'', 1), (''R_PPC64_ADDR24'', 2), (''R_PPC64_ADDR16'', 3),
     (''R_PPC64_ADDR16_LO'', 4), (''R_PPC64_ADDR16_HI'', 5), (''R_PPC64_ADDR16_HA'', 6), (''R_PPC64_ADDR14'', 7),
     (''R_PPC64_ADDR14_BRTAKEN'', 8), (''R_PPC64_ADDR14_BRNTAKEN'', 9), (''R_PPC64_REL24'', 10),
     (''R_PPC64_REL14'', 11), (''R_PPC64_REL14_BRTAKEN'', 12), (''R_PPC64_REL14_BRNTAKEN'', 13),
     (''R_PPC64_GOT16'', 14), (''R_PPC64_GOT16_LO'', 15), (''R_PPC64_GOT16_HI'', 16), (''R_PPC64_GOT16_HA'', 17),
     (''R_PPC64_COPY'', 19), (''R_PPC64_GLOB_DAT'', 20), (''R_PPC64_JMP_SLOT'', 21), (''R_PPC64_RELATIVE'', 22),
     (''R_PPC64_UADDR32'', 24), (''R_PPC64_UADDR16'', 25), (''R_PPC64_REL32'', 26), (''R_PPC64_PLT32'', 27),
     (''R_PPC64_PLTREL32'', 28), (''R_PPC64_PLT16_LO'', 29), (''R_PPC64_PLT16_HI'', 30),
     (''R_PPC64_PLT16_HA'', 31), (''R_PPC64_SECTOFF'', 33), (''R_PPC64_SECTOFF_LO'', 34),
     (''R_PPC64_SECTOFF_HI'', 35), (''R_PPC64_SECTOFF_HA'', 36), (''R_PPC64_ADDR30'', 37),
     (''R_PPC64_ADDR64'', 38), (''R_PPC64_ADDR16_HIGHER'', 39), (''R_PPC64_ADDR16_HIGHERA'', 40),
     (''R_PPC64_ADDR16_HIGHEST'', 41), (''R_PPC64_ADDR16_HIGHESTA'', 42), (''R_PPC64_UADDR64'', 43),
     (''R_PPC64_REL64'', 44), (''R_PPC64_PLT64'', 45), (''R_PPC64_PLTREL64'', 46), (''R_PPC64_TOC16'', 47),
     (''R_PPC64_TOC16_LO'', 48), (''R_PPC64_TOC16_HI'', 49), (''R_PPC64_TOC16_HA'', 50), (''R_PPC64_TOC'', 51),
     (''R_PPC64_PLTGOT16'', 52), (''R_PPC64_PLTGOT16_LO'', 53), (''R_PPC64_PLTGOT16_HI'', 54),
     (''R_PPC64_PLTGOT16_HA'', 55), (''R_PPC64_ADDR16_DS'', 56), (''R_PPC64_ADDR16_LO_DS'', 57),
     (''R_PPC64_GOT16_DS'', 58), (''R_PPC64_GOT16_LO_DS'', 59), (''R_PPC64_PLT16_LO_DS'', 60),
     (''R_PPC64_SECTOFF_DS'', 61), (''R_PPC64_SECTOFF_LO_DS'', 62), (''R_PPC64_TOC16_DS'', 63),
     (''R_PPC64_TOC16_LO_DS'', 64), (''R_PPC64_PLTGOT16_DS'', 65), (''R_PPC64_PLTGOT16_LO_DS'', 66),
     (''R_PPC64_TLS'', 67), (''R_PPC64_DTPMOD64'', 68), (''R_PPC64_TPREL16'', 69), (''R_PPC64_TPREL16_LO'', 70),
     (''R_PPC64_TPREL16_HI'', 71), (''R_PPC64_TPREL16_HA'', 72), (''R_PPC64_TPREL64'', 73),
     (''R_PPC64_DTPREL16'', 74), (''R_PPC64_DTPREL16_LO'', 75), (''R_PPC64_DTPREL16_HI'', 76),
     (''R_PPC64_DTPREL16_HA'', 77), (''R_PPC64_DTPREL64'', 78), (''R_PPC64_GOT_TLSGD16'', 79),
     (''R_PPC64_GOT_TLSGD16_LO'', 80), (''R_PPC64_GOT_TLSGD16_HI'', 81), (''R_PPC64_GOT_TLSGD16_HA'', 82),
     (''R_PPC64_GOT_TLSLD16'', 83), (''R_PPC64_GOT_TLSLD16_LO'', 84), (''R_PPC64_GOT_TLSLD16_HI'', 85),
     (''R_PPC64_GOT_TLSLD16_HA'', 86), (''R_PPC64_GOT_TPREL16_DS'', 87), (''R_PPC64_GOT_TPREL16_LO_DS'', 88),
     (''R_PPC64_GOT_TPREL16_HI'', 89), (''R_PPC64_GOT_TPREL16_HA'', 90), (''R_PPC64_GOT_DTPREL16_DS'', 91),
     (''R_PPC64_GOT_DTPREL16_LO_DS'', 92), (''R_PPC64_GOT_DTPREL16_HI'', 93), (''R_PPC64_GOT_DTPREL16_HA'', 94),
     (''R_PPC64_TPREL16_DS'', 95), (''R_PPC64_TPREL16_LO_DS'', 96), (''R_PPC64_TPREL16_HIGHER'', 97),
     (''R_PPC64_TPREL16_HIGHERA'', 98), (''R_PPC64_TPREL16_HIGHEST'', 99), (''R_PPC64_TPREL16_HIGHESTA'', 100),
     (''R_PPC64_DTPREL16_DS'', 101), (''R_PPC64_DTPREL16_LO_DS'', 102), (''R_PPC64_DTPREL16_HIGHER'', 103),
     (''R_PPC64_DTPREL16_HIGHERA'', 104), (''R_PPC64_DTPREL16_HIGHEST'', 105),
     (''R_PPC64_DTPREL16_HIGHESTA'', 106), (''R_PPC64_TLSGD'', 107), (''R_PPC64_TLSLD'', 108),
     (''R_PPC64_TOCSAVE'', 109), (''R_PPC64_ADDR16_HIGH'', 110), (''R_PPC64_ADDR16_HIGHA'', 111),
     (''R_PPC64_TPREL16_HIGH'', 112), (''R_PPC64_TPREL16_HIGHA'', 113), (''R_PPC64_DTPREL16_HIGH'', 114),
     (''R_PPC64_DTPREL16_HIGHA'', 115), (''R_PPC64_JMP_IREL'', 247), (''R_PPC64_IRELATIVE'', 248),
     (''R_PPC64_REL16'', 249), (''R_PPC64_REL16_LO'', 250), (''R_PPC64_REL16_HI'', 251),
     (''R_PPC64_REL16_HA'', 252)]"

definition elf_EF_2 :: table where \<comment> \<open>lines 2294 to 2307\<close>
  "elf_EF_2 = [(''EF_PPC64_ABI'', 3), (''DT_PPC64_GLINK'', 1879048192), (''DT_PPC64_OPD'', 1879048193),
     (''DT_PPC64_OPDSZ'', 1879048194), (''DT_PPC64_OPT'', 1879048195), (''DT_PPC64_NUM'', 4),
     (''PPC64_OPT_TLS'', 1), (''PPC64_OPT_MULTI_TOC'', 2), (''PPC64_OPT_LOCALENTRY'', 4),
     (''STO_PPC64_LOCAL_BIT'', 5), (''STO_PPC64_LOCAL_MASK'', 224)]"

definition elf_EF_3 :: table where \<comment> \<open>lines 2311 to 2335\<close>
  "elf_EF_3 = [(''EF_ARM_RELEXEC'', 1), (''EF_ARM_HASENTRY'', 2), (''EF_ARM_INTERWORK'', 4),
     (''EF_ARM_APCS_26'', 8), (''EF_ARM_APCS_FLOAT'', 16), (''EF_ARM_PIC'', 32), (''EF_ARM_ALIGN8'', 64),
     (''EF_ARM_NEW_ABI'', 128), (''EF_ARM_OLD_ABI'', 256), (''EF_ARM_SOFT_FLOAT'', 512),
     (''EF_ARM_VFP_FLOAT'', 1024), (''EF_ARM_MAVERICK_FLOAT'', 2048), (''EF_ARM_ABI_FLOAT_SOFT'', 512),
     (''EF_ARM_ABI_FLOAT_HARD'', 1024), (''EF_ARM_SYMSARESORTED'', 4), (''EF_ARM_DYNSYMSUSESEGIDX'', 8),
     (''EF_ARM_MAPSYMSFIRST'', 16), (''EF_ARM_EABIMASK'', 4278190080), (''EF_ARM_BE8'', 8388608),
     (''EF_ARM_LE8'', 4194304)]"

definition elf_EF_4 :: table where \<comment> \<open>lines 2338 to 2366\<close>
  "elf_EF_4 = [(''EF_ARM_EABI_UNKNOWN'', 0), (''EF_ARM_EABI_VER1'', 16777216), (''EF_ARM_EABI_VER2'', 33554432),
     (''EF_ARM_EABI_VER3'', 50331648), (''EF_ARM_EABI_VER4'', 67108864), (''EF_ARM_EABI_VER5'', 83886080),
     (''STT_ARM_TFUNC'', 13), (''STT_ARM_16BIT'', 15), (''SHF_ARM_ENTRYSECT'', 268435456),
     (''SHF_ARM_COMDEF'', 2147483648), (''PF_ARM_SB'', 268435456), (''PF_ARM_PI'', 536870912),
     (''PF_ARM_ABS'', 1073741824), (''PT_ARM_EXIDX'', 1879048193), (''SHT_ARM_EXIDX'', 1879048193),
     (''SHT_ARM_PREEMPTMAP'', 1879048194), (''SHT_ARM_ATTRIBUTES'', 1879048195)]"

definition elf_R_AARCH64 :: table where \<comment> \<open>lines 2368 to 2502\<close>
  "elf_R_AARCH64 = [(''R_AARCH64_NONE'', 0), (''R_AARCH64_P32_ABS32'', 1), (''R_AARCH64_P32_COPY'', 180),
     (''R_AARCH64_P32_GLOB_DAT'', 181), (''R_AARCH64_P32_JUMP_SLOT'', 182), (''R_AARCH64_P32_RELATIVE'', 183),
     (''R_AARCH64_P32_TLS_DTPMOD'', 184), (''R_AARCH64_P32_TLS_DTPREL'', 185), (''R_AARCH64_P32_TLS_TPREL'', 186),
     (''R_AARCH64_P32_TLSDESC'', 187), (''R_AARCH64_P32_IRELATIVE'', 188), (''R_AARCH64_ABS64'', 257),
     (''R_AARCH64_ABS32'', 258), (''R_AARCH64_ABS16'', 259), (''R_AARCH64_PREL64'', 260),
     (''R_AARCH64_PREL32'', 261), (''R_AARCH64_PREL16'', 262), (''R_AARCH64_MOVW_UABS_G0'', 263),
     (''R_AARCH64_MOVW_UABS_G0_NC'', 264), (''R_AARCH64_MOVW_UABS_G1'', 265), (''R_AARCH64_MOVW_UABS_G1_NC'', 266),
     (''R_AARCH64_MOVW_UABS_G2'', 267), (''R_AARCH64_MOVW_UABS_G2_NC'', 268), (''R_AARCH64_MOVW_UABS_G3'', 269),
     (''R_AARCH64_MOVW_SABS_G0'', 270), (''R_AARCH64_MOVW_SABS_G1'', 271), (''R_AARCH64_MOVW_SABS_G2'', 272),
     (''R_AARCH64_LD_PREL_LO19'', 273), (''R_AARCH64_ADR_PREL_LO21'', 274), (''R_AARCH64_ADR_PREL_PG_HI21'', 275),
     (''R_AARCH64_ADR_PREL_PG_HI21_NC'', 276), (''R_AARCH64_ADD_ABS_LO12_NC'', 277),
     (''R_AARCH64_LDST8_ABS_LO12_NC'', 278), (''R_AARCH64_TSTBR14'', 279), (''R_AARCH64_CONDBR19'', 280),
     (''R_AARCH64_JUMP26'', 282), (''R_AARCH64_CALL26'', 283), (''R_AARCH64_LDST16_ABS_LO12_NC'', 284),
     (''R_AARCH64_LDST32_ABS_LO12_NC'', 285), (''R_AARCH64_LDST64_ABS_LO12_NC'', 286),
     (''R_AARCH64_MOVW_PREL_G0'', 287), (''R_AARCH64_MOVW_PREL_G0_NC'', 288), (''R_AARCH64_MOVW_PREL_G1'', 289),
     (''R_AARCH64_MOVW_PREL_G1_NC'', 290), (''R_AARCH64_MOVW_PREL_G2'', 291), (''R_AARCH64_MOVW_PREL_G2_NC'', 292),
     (''R_AARCH64_MOVW_PREL_G3'', 293), (''R_AARCH64_LDST128_ABS_LO12_NC'', 299),
     (''R_AARCH64_MOVW_GOTOFF_G0'', 300), (''R_AARCH64_MOVW_GOTOFF_G0_NC'', 301),
     (''R_AARCH64_MOVW_GOTOFF_G1'', 302), (''R_AARCH64_MOVW_GOTOFF_G1_NC'', 303),
     (''R_AARCH64_MOVW_GOTOFF_G2'', 304), (''R_AARCH64_MOVW_GOTOFF_G2_NC'', 305),
     (''R_AARCH64_MOVW_GOTOFF_G3'', 306), (''R_AARCH64_GOTREL64'', 307), (''R_AARCH64_GOTREL32'', 308),
     (''R_AARCH64_GOT_LD_PREL19'', 309), (''R_AARCH64_LD64_GOTOFF_LO15'', 310), (''R_AARCH64_ADR_GOT_PAGE'', 311),
     (''R_AARCH64_LD64_GOT_LO12_NC'', 312), (''R_AARCH64_LD64_GOTPAGE_LO15'', 313),
     (''R_AARCH64_TLSGD_ADR_PREL21'', 512), (''R_AARCH64_TLSGD_ADR_PAGE21'', 513),
     (''R_AARCH64_TLSGD_ADD_LO12_NC'', 514), (''R_AARCH64_TLSGD_MOVW_G1'', 515),
     (''R_AARCH64_TLSGD_MOVW_G0_NC'', 516), (''R_AARCH64_TLSLD_ADR_PREL21'', 517),
     (''R_AARCH64_TLSLD_ADR_PAGE21'', 518), (''R_AARCH64_TLSLD_ADD_LO12_NC'', 519),
     (''R_AARCH64_TLSLD_MOVW_G1'', 520), (''R_AARCH64_TLSLD_MOVW_G0_NC'', 521),
     (''R_AARCH64_TLSLD_LD_PREL19'', 522), (''R_AARCH64_TLSLD_MOVW_DTPREL_G2'', 523),
     (''R_AARCH64_TLSLD_MOVW_DTPREL_G1'', 524), (''R_AARCH64_TLSLD_MOVW_DTPREL_G1_NC'', 525),
     (''R_AARCH64_TLSLD_MOVW_DTPREL_G0'', 526), (''R_AARCH64_TLSLD_MOVW_DTPREL_G0_NC'', 527),
     (''R_AARCH64_TLSLD_ADD_DTPREL_HI12'', 528), (''R_AARCH64_TLSLD_ADD_DTPREL_LO12'', 529),
     (''R_AARCH64_TLSLD_ADD_DTPREL_LO12_NC'', 530), (''R_AARCH64_TLSLD_LDST8_DTPREL_LO12'', 531),
     (''R_AARCH64_TLSLD_LDST8_DTPREL_LO12_NC'', 532), (''R_AARCH64_TLSLD_LDST16_DTPREL_LO12'', 533),
     (''R_AARCH64_TLSLD_LDST16_DTPREL_LO12_NC'', 534), (''R_AARCH64_TLSLD_LDST32_DTPREL_LO12'', 535),
     (''R_AARCH64_TLSLD_LDST32_DTPREL_LO12_NC'', 536), (''R_AARCH64_TLSLD_LDST64_DTPREL_LO12'', 537),
     (''R_AARCH64_TLSLD_LDST64_DTPREL_LO12_NC'', 538), (''R_AARCH64_TLSIE_MOVW_GOTTPREL_G1'', 539),
     (''R_AARCH64_TLSIE_MOVW_GOTTPREL_G0_NC'', 540), (''R_AARCH64_TLSIE_ADR_GOTTPREL_PAGE21'', 541),
     (''R_AARCH64_TLSIE_LD64_GOTTPREL_LO12_NC'', 542), (''R_AARCH64_TLSIE_LD_GOTTPREL_PREL19'', 543),
     (''R_AARCH64_TLSLE_MOVW_TPREL_G2'', 544), (''R_AARCH64_TLSLE_MOVW_TPREL_G1'', 545),
     (''R_AARCH64_TLSLE_MOVW_TPREL_G1_NC'', 546), (''R_AARCH64_TLSLE_MOVW_TPREL_G0'', 547),
     (''R_AARCH64_TLSLE_MOVW_TPREL_G0_NC'', 548), (''R_AARCH64_TLSLE_ADD_TPREL_HI12'', 549),
     (''R_AARCH64_TLSLE_ADD_TPREL_LO12'', 550), (''R_AARCH64_TLSLE_ADD_TPREL_LO12_NC'', 551),
     (''R_AARCH64_TLSLE_LDST8_TPREL_LO12'', 552), (''R_AARCH64_TLSLE_LDST8_TPREL_LO12_NC'', 553),
     (''R_AARCH64_TLSLE_LDST16_TPREL_LO12'', 554), (''R_AARCH64_TLSLE_LDST16_TPREL_LO12_NC'', 555),
     (''R_AARCH64_TLSLE_LDST32_TPREL_LO12'', 556), (''R_AARCH64_TLSLE_LDST32_TPREL_LO12_NC'', 557),
     (''R_AARCH64_TLSLE_LDST64_TPREL_LO12'', 558), (''R_AARCH64_TLSLE_LDST64_TPREL_LO12_NC'', 559),
     (''R_AARCH64_TLSDESC_LD_PREL19'', 560), (''R_AARCH64_TLSDESC_ADR_PREL21'', 561),
     (''R_AARCH64_TLSDESC_ADR_PAGE21'', 562), (''R_AARCH64_TLSDESC_LD64_LO12'', 563),
     (''R_AARCH64_TLSDESC_ADD_LO12'', 564), (''R_AARCH64_TLSDESC_OFF_G1'', 565),
     (''R_AARCH64_TLSDESC_OFF_G0_NC'', 566), (''R_AARCH64_TLSDESC_LDR'', 567), (''R_AARCH64_TLSDESC_ADD'', 568),
     (''R_AARCH64_TLSDESC_CALL'', 569), (''R_AARCH64_TLSLE_LDST128_TPREL_LO12'', 570),
     (''R_AARCH64_TLSLE_LDST128_TPREL_LO12_NC'', 571), (''R_AARCH64_TLSLD_LDST128_DTPREL_LO12'', 572),
     (''R_AARCH64_TLSLD_LDST128_DTPREL_LO12_NC'', 573), (''R_AARCH64_COPY'', 1024), (''R_AARCH64_GLOB_DAT'', 1025),
     (''R_AARCH64_JUMP_SLOT'', 1026), (''R_AARCH64_RELATIVE'', 1027), (''R_AARCH64_TLS_DTPMOD'', 1028),
     (''R_AARCH64_TLS_DTPMOD64'', 1028), (''R_AARCH64_TLS_DTPREL'', 1029), (''R_AARCH64_TLS_DTPREL64'', 1029),
     (''R_AARCH64_TLS_TPREL'', 1030), (''R_AARCH64_TLS_TPREL64'', 1030), (''R_AARCH64_TLSDESC'', 1031)]"

definition elf_R_ARM :: table where \<comment> \<open>lines 2505 to 2635\<close>
  "elf_R_ARM = [(''R_ARM_NONE'', 0), (''R_ARM_PC24'', 1), (''R_ARM_ABS32'', 2), (''R_ARM_REL32'', 3),
     (''R_ARM_PC13'', 4), (''R_ARM_ABS16'', 5), (''R_ARM_ABS12'', 6), (''R_ARM_THM_ABS5'', 7), (''R_ARM_ABS8'', 8),
     (''R_ARM_SBREL32'', 9), (''R_ARM_THM_PC22'', 10), (''R_ARM_THM_PC8'', 11), (''R_ARM_AMP_VCALL9'', 12),
     (''R_ARM_TLS_DESC'', 13), (''R_ARM_THM_SWI8'', 14), (''R_ARM_XPC25'', 15), (''R_ARM_THM_XPC22'', 16),
     (''R_ARM_TLS_DTPMOD32'', 17), (''R_ARM_TLS_DTPOFF32'', 18), (''R_ARM_TLS_TPOFF32'', 19), (''R_ARM_COPY'', 20),
     (''R_ARM_GLOB_DAT'', 21), (''R_ARM_JUMP_SLOT'', 22), (''R_ARM_RELATIVE'', 23), (''R_ARM_GOTOFF'', 24),
     (''R_ARM_GOTPC'', 25), (''R_ARM_GOT32'', 26), (''R_ARM_PLT32'', 27), (''R_ARM_CALL'', 28),
     (''R_ARM_JUMP24'', 29), (''R_ARM_THM_JUMP24'', 30), (''R_ARM_BASE_ABS'', 31), (''R_ARM_ALU_PCREL_7_0'', 32),
     (''R_ARM_ALU_PCREL_15_8'', 33), (''R_ARM_ALU_PCREL_23_15'', 34), (''R_ARM_LDR_SBREL_11_0'', 35),
     (''R_ARM_ALU_SBREL_19_12'', 36), (''R_ARM_ALU_SBREL_27_20'', 37), (''R_ARM_TARGET1'', 38),
     (''R_ARM_SBREL31'', 39), (''R_ARM_V4BX'', 40), (''R_ARM_TARGET2'', 41), (''R_ARM_PREL31'', 42),
     (''R_ARM_MOVW_ABS_NC'', 43), (''R_ARM_MOVT_ABS'', 44), (''R_ARM_MOVW_PREL_NC'', 45),
     (''R_ARM_MOVT_PREL'', 46), (''R_ARM_THM_MOVW_ABS_NC'', 47), (''R_ARM_THM_MOVT_ABS'', 48),
     (''R_ARM_THM_MOVW_PREL_NC'', 49), (''R_ARM_THM_MOVT_PREL'', 50), (''R_ARM_THM_JUMP19'', 51),
     (''R_ARM_THM_JUMP6'', 52), (''R_ARM_THM_ALU_PREL_11_0'', 53), (''R_ARM_THM_PC12'', 54),
     (''R_ARM_ABS32_NOI'', 55), (''R_ARM_REL32_NOI'', 56), (''R_ARM_ALU_PC_G0_NC'', 57), (''R_ARM_ALU_PC_G0'', 58),
     (''R_ARM_ALU_PC_G1_NC'', 59), (''R_ARM_ALU_PC_G1'', 60), (''R_ARM_ALU_PC_G2'', 61), (''R_ARM_LDR_PC_G1'', 62),
     (''R_ARM_LDR_PC_G2'', 63), (''R_ARM_LDRS_PC_G0'', 64), (''R_ARM_LDRS_PC_G1'', 65), (''R_ARM_LDRS_PC_G2'', 66),
     (''R_ARM_LDC_PC_G0'', 67), (''R_ARM_LDC_PC_G1'', 68), (''R_ARM_LDC_PC_G2'', 69), (''R_ARM_ALU_SB_G0_NC'', 70),
     (''R_ARM_ALU_SB_G0'', 71), (''R_ARM_ALU_SB_G1_NC'', 72), (''R_ARM_ALU_SB_G1'', 73), (''R_ARM_ALU_SB_G2'', 74),
     (''R_ARM_LDR_SB_G0'', 75), (''R_ARM_LDR_SB_G1'', 76), (''R_ARM_LDR_SB_G2'', 77), (''R_ARM_LDRS_SB_G0'', 78),
     (''R_ARM_LDRS_SB_G1'', 79), (''R_ARM_LDRS_SB_G2'', 80), (''R_ARM_LDC_SB_G0'', 81), (''R_ARM_LDC_SB_G1'', 82),
     (''R_ARM_LDC_SB_G2'', 83), (''R_ARM_MOVW_BREL_NC'', 84), (''R_ARM_MOVT_BREL'', 85), (''R_ARM_MOVW_BREL'', 86),
     (''R_ARM_THM_MOVW_BREL_NC'', 87), (''R_ARM_THM_MOVT_BREL'', 88), (''R_ARM_THM_MOVW_BREL'', 89),
     (''R_ARM_TLS_GOTDESC'', 90), (''R_ARM_TLS_CALL'', 91), (''R_ARM_TLS_DESCSEQ'', 92),
     (''R_ARM_THM_TLS_CALL'', 93), (''R_ARM_PLT32_ABS'', 94), (''R_ARM_GOT_ABS'', 95), (''R_ARM_GOT_PREL'', 96),
     (''R_ARM_GOT_BREL12'', 97), (''R_ARM_GOTOFF12'', 98), (''R_ARM_GOTRELAX'', 99), (''R_ARM_GNU_VTENTRY'', 100),
     (''R_ARM_GNU_VTINHERIT'', 101), (''R_ARM_THM_PC11'', 102), (''R_ARM_THM_PC9'', 103),
     (''R_ARM_TLS_GD32'', 104), (''R_ARM_TLS_LDM32'', 105), (''R_ARM_TLS_LDO32'', 106), (''R_ARM_TLS_IE32'', 107),
     (''R_ARM_TLS_LE32'', 108), (''R_ARM_TLS_LDO12'', 109), (''R_ARM_TLS_LE12'', 110), (''R_ARM_TLS_IE12GP'', 111),
     (''R_ARM_ME_TOO'', 128), (''R_ARM_THM_TLS_DESCSEQ'', 129), (''R_ARM_THM_TLS_DESCSEQ16'', 129),
     (''R_ARM_THM_TLS_DESCSEQ32'', 130), (''R_ARM_THM_GOT_BREL12'', 131), (''R_ARM_IRELATIVE'', 160),
     (''R_ARM_RXPC25'', 249), (''R_ARM_RSBREL32'', 250), (''R_ARM_THM_RPC22'', 251), (''R_ARM_RREL32'', 252),
     (''R_ARM_RABS22'', 253), (''R_ARM_RPC24'', 254), (''R_ARM_RBASE'', 255), (''R_ARM_NUM'', 256)]"

definition elf_R_CKCORE :: table where \<comment> \<open>lines 2638 to 2692\<close>
  "elf_R_CKCORE = [(''R_CKCORE_NONE'', 0), (''R_CKCORE_ADDR32'', 1), (''R_CKCORE_PCRELIMM8BY4'', 2),
     (''R_CKCORE_PCRELIMM11BY2'', 3), (''R_CKCORE_PCREL32'', 5), (''R_CKCORE_PCRELJSR_IMM11BY2'', 6),
     (''R_CKCORE_RELATIVE'', 9), (''R_CKCORE_COPY'', 10), (''R_CKCORE_GLOB_DAT'', 11),
     (''R_CKCORE_JUMP_SLOT'', 12), (''R_CKCORE_GOTOFF'', 13), (''R_CKCORE_GOTPC'', 14), (''R_CKCORE_GOT32'', 15),
     (''R_CKCORE_PLT32'', 16), (''R_CKCORE_ADDRGOT'', 17), (''R_CKCORE_ADDRPLT'', 18),
     (''R_CKCORE_PCREL_IMM26BY2'', 19), (''R_CKCORE_PCREL_IMM16BY2'', 20), (''R_CKCORE_PCREL_IMM16BY4'', 21),
     (''R_CKCORE_PCREL_IMM10BY2'', 22), (''R_CKCORE_PCREL_IMM10BY4'', 23), (''R_CKCORE_ADDR_HI16'', 24),
     (''R_CKCORE_ADDR_LO16'', 25), (''R_CKCORE_GOTPC_HI16'', 26), (''R_CKCORE_GOTPC_LO16'', 27),
     (''R_CKCORE_GOTOFF_HI16'', 28), (''R_CKCORE_GOTOFF_LO16'', 29), (''R_CKCORE_GOT12'', 30),
     (''R_CKCORE_GOT_HI16'', 31), (''R_CKCORE_GOT_LO16'', 32), (''R_CKCORE_PLT12'', 33),
     (''R_CKCORE_PLT_HI16'', 34), (''R_CKCORE_PLT_LO16'', 35), (''R_CKCORE_ADDRGOT_HI16'', 36),
     (''R_CKCORE_ADDRGOT_LO16'', 37), (''R_CKCORE_ADDRPLT_HI16'', 38), (''R_CKCORE_ADDRPLT_LO16'', 39),
     (''R_CKCORE_PCREL_JSR_IMM26BY2'', 40), (''R_CKCORE_TOFFSET_LO16'', 41), (''R_CKCORE_DOFFSET_LO16'', 42),
     (''R_CKCORE_PCREL_IMM18BY2'', 43), (''R_CKCORE_DOFFSET_IMM18'', 44), (''R_CKCORE_DOFFSET_IMM18BY2'', 45),
     (''R_CKCORE_DOFFSET_IMM18BY4'', 46), (''R_CKCORE_GOT_IMM18BY4'', 48), (''R_CKCORE_PLT_IMM18BY4'', 49),
     (''R_CKCORE_PCREL_IMM7BY4'', 50), (''R_CKCORE_TLS_LE32'', 51), (''R_CKCORE_TLS_IE32'', 52),
     (''R_CKCORE_TLS_GD32'', 53), (''R_CKCORE_TLS_LDM32'', 54), (''R_CKCORE_TLS_LDO32'', 55),
     (''R_CKCORE_TLS_DTPMOD32'', 56), (''R_CKCORE_TLS_DTPOFF32'', 57), (''R_CKCORE_TLS_TPOFF32'', 58)]"

definition elf_EF_5 :: table where \<comment> \<open>lines 2695 to 2719\<close>
  "elf_EF_5 = [(''EF_IA_64_MASKOS'', 15), (''EF_IA_64_ABI64'', 16), (''EF_IA_64_ARCH'', 4278190080),
     (''PT_IA_64_ARCHEXT'', 1879048192), (''PT_IA_64_UNWIND'', 1879048193), (''PT_IA_64_HP_OPT_ANOT'', 1610612754),
     (''PT_IA_64_HP_HSL_ANOT'', 1610612755), (''PT_IA_64_HP_STACK'', 1610612756),
     (''PF_IA_64_NORECOV'', 2147483648), (''SHT_IA_64_EXT'', 1879048192), (''SHT_IA_64_UNWIND'', 1879048193),
     (''SHF_IA_64_SHORT'', 268435456), (''SHF_IA_64_NORECOV'', 536870912), (''DT_IA_64_PLT_RESERVE'', 1879048192),
     (''DT_IA_64_NUM'', 1)]"

definition elf_R_IA64 :: table where \<comment> \<open>lines 2722 to 2802\<close>
  "elf_R_IA64 = [(''R_IA64_NONE'', 0), (''R_IA64_IMM14'', 33), (''R_IA64_IMM22'', 34), (''R_IA64_IMM64'', 35),
     (''R_IA64_DIR32MSB'', 36), (''R_IA64_DIR32LSB'', 37), (''R_IA64_DIR64MSB'', 38), (''R_IA64_DIR64LSB'', 39),
     (''R_IA64_GPREL22'', 42), (''R_IA64_GPREL64I'', 43), (''R_IA64_GPREL32MSB'', 44), (''R_IA64_GPREL32LSB'', 45),
     (''R_IA64_GPREL64MSB'', 46), (''R_IA64_GPREL64LSB'', 47), (''R_IA64_LTOFF22'', 50), (''R_IA64_LTOFF64I'', 51),
     (''R_IA64_PLTOFF22'', 58), (''R_IA64_PLTOFF64I'', 59), (''R_IA64_PLTOFF64MSB'', 62),
     (''R_IA64_PLTOFF64LSB'', 63), (''R_IA64_FPTR64I'', 67), (''R_IA64_FPTR32MSB'', 68),
     (''R_IA64_FPTR32LSB'', 69), (''R_IA64_FPTR64MSB'', 70), (''R_IA64_FPTR64LSB'', 71), (''R_IA64_PCREL60B'', 72),
     (''R_IA64_PCREL21B'', 73), (''R_IA64_PCREL21M'', 74), (''R_IA64_PCREL21F'', 75), (''R_IA64_PCREL32MSB'', 76),
     (''R_IA64_PCREL32LSB'', 77), (''R_IA64_PCREL64MSB'', 78), (''R_IA64_PCREL64LSB'', 79),
     (''R_IA64_LTOFF_FPTR22'', 82), (''R_IA64_LTOFF_FPTR64I'', 83), (''R_IA64_LTOFF_FPTR32MSB'', 84),
     (''R_IA64_LTOFF_FPTR32LSB'', 85), (''R_IA64_LTOFF_FPTR64MSB'', 86), (''R_IA64_LTOFF_FPTR64LSB'', 87),
     (''R_IA64_SEGREL32MSB'', 92), (''R_IA64_SEGREL32LSB'', 93), (''R_IA64_SEGREL64MSB'', 94),
     (''R_IA64_SEGREL64LSB'', 95), (''R_IA64_SECREL32MSB'', 100), (''R_IA64_SECREL32LSB'', 101),
     (''R_IA64_SECREL64MSB'', 102), (''R_IA64_SECREL64LSB'', 103), (''R_IA64_REL32MSB'', 108),
     (''R_IA64_REL32LSB'', 109), (''R_IA64_REL64MSB'', 110), (''R_IA64_REL64LSB'', 111),
     (''R_IA64_LTV32MSB'', 116), (''R_IA64_LTV32LSB'', 117), (''R_IA64_LTV64MSB'', 118),
     (''R_IA64_LTV64LSB'', 119), (''R_IA64_PCREL21BI'', 121), (''R_IA64_PCREL22'', 122),
     (''R_IA64_PCREL64I'', 123), (''R_IA64_IPLTMSB'', 128), (''R_IA64_IPLTLSB'', 129), (''R_IA64_COPY'', 132),
     (''R_IA64_SUB'', 133), (''R_IA64_LTOFF22X'', 134), (''R_IA64_LDXMOV'', 135), (''R_IA64_TPREL14'', 145),
     (''R_IA64_TPREL22'', 146), (''R_IA64_TPREL64I'', 147), (''R_IA64_TPREL64MSB'', 150),
     (''R_IA64_TPREL64LSB'', 151), (''R_IA64_LTOFF_TPREL22'', 154), (''R_IA64_DTPMOD64MSB'', 166),
     (''R_IA64_DTPMOD64LSB'', 167), (''R_IA64_LTOFF_DTPMOD22'', 170), (''R_IA64_DTPREL14'', 177),
     (''R_IA64_DTPREL22'', 178), (''R_IA64_DTPREL64I'', 179), (''R_IA64_DTPREL32MSB'', 180),
     (''R_IA64_DTPREL32LSB'', 181), (''R_IA64_DTPREL64MSB'', 182), (''R_IA64_DTPREL64LSB'', 183),
     (''R_IA64_LTOFF_DTPREL22'', 186)]"

definition elf_EF_6 :: table where \<comment> \<open>lines 2805 to 2826\<close>
  "elf_EF_6 = [(''EF_SH_MACH_MASK'', 31), (''EF_SH_UNKNOWN'', 0), (''EF_SH1'', 1), (''EF_SH2'', 2),
     (''EF_SH3'', 3), (''EF_SH_DSP'', 4), (''EF_SH3_DSP'', 5), (''EF_SH4AL_DSP'', 6), (''EF_SH3E'', 8),
     (''EF_SH4'', 9), (''EF_SH2E'', 11), (''EF_SH4A'', 12), (''EF_SH2A'', 13), (''EF_SH4_NOFPU'', 16),
     (''EF_SH4A_NOFPU'', 17), (''EF_SH4_NOMMU_NOFPU'', 18), (''EF_SH2A_NOFPU'', 19), (''EF_SH3_NOMMU'', 20),
     (''EF_SH2A_SH4_NOFPU'', 21), (''EF_SH2A_SH3_NOFPU'', 22), (''EF_SH2A_SH4'', 23), (''EF_SH2A_SH3E'', 24)]"

definition elf_R_SH :: table where \<comment> \<open>lines 2828 to 2874\<close>
  "elf_R_SH = [(''R_SH_NONE'', 0), (''R_SH_DIR32'', 1), (''R_SH_REL32'', 2), (''R_SH_DIR8WPN'', 3),
     (''R_SH_IND12W'', 4), (''R_SH_DIR8WPL'', 5), (''R_SH_DIR8WPZ'', 6), (''R_SH_DIR8BP'', 7), (''R_SH_DIR8W'', 8),
     (''R_SH_DIR8L'', 9), (''R_SH_SWITCH16'', 25), (''R_SH_SWITCH32'', 26), (''R_SH_USES'', 27),
     (''R_SH_COUNT'', 28), (''R_SH_ALIGN'', 29), (''R_SH_CODE'', 30), (''R_SH_DATA'', 31), (''R_SH_LABEL'', 32),
     (''R_SH_SWITCH8'', 33), (''R_SH_GNU_VTINHERIT'', 34), (''R_SH_GNU_VTENTRY'', 35), (''R_SH_TLS_GD_32'', 144),
     (''R_SH_TLS_LD_32'', 145), (''R_SH_TLS_LDO_32'', 146), (''R_SH_TLS_IE_32'', 147), (''R_SH_TLS_LE_32'', 148),
     (''R_SH_TLS_DTPMOD32'', 149), (''R_SH_TLS_DTPOFF32'', 150), (''R_SH_TLS_TPOFF32'', 151),
     (''R_SH_GOT32'', 160), (''R_SH_PLT32'', 161), (''R_SH_COPY'', 162), (''R_SH_GLOB_DAT'', 163),
     (''R_SH_JMP_SLOT'', 164), (''R_SH_RELATIVE'', 165), (''R_SH_GOTOFF'', 166), (''R_SH_GOTPC'', 167),
     (''R_SH_GOT20'', 201), (''R_SH_GOTOFF20'', 202), (''R_SH_GOTFUNCDESC'', 203), (''R_SH_GOTFUNCDEST20'', 204),
     (''R_SH_GOTOFFFUNCDESC'', 205), (''R_SH_GOTOFFFUNCDEST20'', 206), (''R_SH_FUNCDESC'', 207),
     (''R_SH_FUNCDESC_VALUE'', 208), (''R_SH_NUM'', 256)]"

definition elf_R_390 :: table where \<comment> \<open>lines 2878 to 2958\<close>
  "elf_R_390 = [(''R_390_NONE'', 0), (''R_390_8'', 1), (''R_390_12'', 2), (''R_390_16'', 3), (''R_390_32'', 4),
     (''R_390_PC32'', 5), (''R_390_GOT12'', 6), (''R_390_GOT32'', 7), (''R_390_PLT32'', 8), (''R_390_COPY'', 9),
     (''R_390_GLOB_DAT'', 10), (''R_390_JMP_SLOT'', 11), (''R_390_RELATIVE'', 12), (''R_390_GOTOFF32'', 13),
     (''R_390_GOTPC'', 14), (''R_390_GOT16'', 15), (''R_390_PC16'', 16), (''R_390_PC16DBL'', 17),
     (''R_390_PLT16DBL'', 18), (''R_390_PC32DBL'', 19), (''R_390_PLT32DBL'', 20), (''R_390_GOTPCDBL'', 21),
     (''R_390_64'', 22), (''R_390_PC64'', 23), (''R_390_GOT64'', 24), (''R_390_PLT64'', 25),
     (''R_390_GOTENT'', 26), (''R_390_GOTOFF16'', 27), (''R_390_GOTOFF64'', 28), (''R_390_GOTPLT12'', 29),
     (''R_390_GOTPLT16'', 30), (''R_390_GOTPLT32'', 31), (''R_390_GOTPLT64'', 32), (''R_390_GOTPLTENT'', 33),
     (''R_390_PLTOFF16'', 34), (''R_390_PLTOFF32'', 35), (''R_390_PLTOFF64'', 36), (''R_390_TLS_LOAD'', 37),
     (''R_390_TLS_GDCALL'', 38), (''R_390_TLS_LDCALL'', 39), (''R_390_TLS_GD32'', 40), (''R_390_TLS_GD64'', 41),
     (''R_390_TLS_GOTIE12'', 42), (''R_390_TLS_GOTIE32'', 43), (''R_390_TLS_GOTIE64'', 44),
     (''R_390_TLS_LDM32'', 45), (''R_390_TLS_LDM64'', 46), (''R_390_TLS_IE32'', 47), (''R_390_TLS_IE64'', 48),
     (''R_390_TLS_IEENT'', 49), (''R_390_TLS_LE32'', 50), (''R_390_TLS_LE64'', 51), (''R_390_TLS_LDO32'', 52),
     (''R_390_TLS_LDO64'', 53), (''R_390_TLS_DTPMOD'', 54), (''R_390_TLS_DTPOFF'', 55), (''R_390_TLS_TPOFF'', 56),
     (''R_390_20'', 57), (''R_390_GOT20'', 58), (''R_390_GOTPLT20'', 59), (''R_390_TLS_GOTIE20'', 60),
     (''R_390_NUM'', 61)]"

definition elf_R_CRIS :: table where \<comment> \<open>lines 2962 to 2983\<close>
  "elf_R_CRIS = [(''R_CRIS_NONE'', 0), (''R_CRIS_8'', 1), (''R_CRIS_16'', 2), (''R_CRIS_32'', 3),
     (''R_CRIS_8_PCREL'', 4), (''R_CRIS_16_PCREL'', 5), (''R_CRIS_32_PCREL'', 6), (''R_CRIS_GNU_VTINHERIT'', 7),
     (''R_CRIS_GNU_VTENTRY'', 8), (''R_CRIS_COPY'', 9), (''R_CRIS_GLOB_DAT'', 10), (''R_CRIS_JUMP_SLOT'', 11),
     (''R_CRIS_RELATIVE'', 12), (''R_CRIS_16_GOT'', 13), (''R_CRIS_32_GOT'', 14), (''R_CRIS_16_GOTPLT'', 15),
     (''R_CRIS_32_GOTPLT'', 16), (''R_CRIS_32_GOTREL'', 17), (''R_CRIS_32_PLT_GOTREL'', 18),
     (''R_CRIS_32_PLT_PCREL'', 19), (''R_CRIS_NUM'', 20)]"

definition elf_R_X86 :: table where \<comment> \<open>lines 2987 to 3034\<close>
  "elf_R_X86 = [(''R_X86_64_NONE'', 0), (''R_X86_64_64'', 1), (''R_X86_64_PC32'', 2), (''R_X86_64_GOT32'', 3),
     (''R_X86_64_PLT32'', 4), (''R_X86_64_COPY'', 5), (''R_X86_64_GLOB_DAT'', 6), (''R_X86_64_JUMP_SLOT'', 7),
     (''R_X86_64_RELATIVE'', 8), (''R_X86_64_GOTPCREL'', 9), (''R_X86_64_32'', 10), (''R_X86_64_32S'', 11),
     (''R_X86_64_16'', 12), (''R_X86_64_PC16'', 13), (''R_X86_64_8'', 14), (''R_X86_64_PC8'', 15),
     (''R_X86_64_DTPMOD64'', 16), (''R_X86_64_DTPOFF64'', 17), (''R_X86_64_TPOFF64'', 18),
     (''R_X86_64_TLSGD'', 19), (''R_X86_64_TLSLD'', 20), (''R_X86_64_DTPOFF32'', 21), (''R_X86_64_GOTTPOFF'', 22),
     (''R_X86_64_TPOFF32'', 23), (''R_X86_64_PC64'', 24), (''R_X86_64_GOTOFF64'', 25), (''R_X86_64_GOTPC32'', 26),
     (''R_X86_64_GOT64'', 27), (''R_X86_64_GOTPCREL64'', 28), (''R_X86_64_GOTPC64'', 29),
     (''R_X86_64_GOTPLT64'', 30), (''R_X86_64_PLTOFF64'', 31), (''R_X86_64_SIZE32'', 32),
     (''R_X86_64_SIZE64'', 33), (''R_X86_64_GOTPC32_TLSDESC'', 34), (''R_X86_64_TLSDESC_CALL'', 35),
     (''R_X86_64_TLSDESC'', 36), (''R_X86_64_IRELATIVE'', 37), (''R_X86_64_RELATIVE64'', 38),
     (''R_X86_64_GOTPCRELX'', 41), (''R_X86_64_REX_GOTPCRELX'', 42), (''R_X86_64_NUM'', 43)]"

definition elf_R_MN10300 :: table where \<comment> \<open>lines 3038 to 3063\<close>
  "elf_R_MN10300 = [(''R_MN10300_NONE'', 0), (''R_MN10300_32'', 1), (''R_MN10300_16'', 2), (''R_MN10300_8'', 3),
     (''R_MN10300_PCREL32'', 4), (''R_MN10300_PCREL16'', 5), (''R_MN10300_PCREL8'', 6),
     (''R_MN10300_GNU_VTINHERIT'', 7), (''R_MN10300_GNU_VTENTRY'', 8), (''R_MN10300_24'', 9),
     (''R_MN10300_GOTPC32'', 10), (''R_MN10300_GOTPC16'', 11), (''R_MN10300_GOTOFF32'', 12),
     (''R_MN10300_GOTOFF24'', 13), (''R_MN10300_GOTOFF16'', 14), (''R_MN10300_PLT32'', 15),
     (''R_MN10300_PLT16'', 16), (''R_MN10300_GOT32'', 17), (''R_MN10300_GOT24'', 18), (''R_MN10300_GOT16'', 19),
     (''R_MN10300_COPY'', 20), (''R_MN10300_GLOB_DAT'', 21), (''R_MN10300_JMP_SLOT'', 22),
     (''R_MN10300_RELATIVE'', 23), (''R_MN10300_NUM'', 24)]"

definition elf_R_M32R :: table where \<comment> \<open>lines 3067 to 3119\<close>
  "elf_R_M32R = [(''R_M32R_NONE'', 0), (''R_M32R_16'', 1), (''R_M32R_32'', 2), (''R_M32R_24'', 3),
     (''R_M32R_10_PCREL'', 4), (''R_M32R_18_PCREL'', 5), (''R_M32R_26_PCREL'', 6), (''R_M32R_HI16_ULO'', 7),
     (''R_M32R_HI16_SLO'', 8), (''R_M32R_LO16'', 9), (''R_M32R_SDA16'', 10), (''R_M32R_GNU_VTINHERIT'', 11),
     (''R_M32R_GNU_VTENTRY'', 12), (''R_M32R_16_RELA'', 33), (''R_M32R_32_RELA'', 34), (''R_M32R_24_RELA'', 35),
     (''R_M32R_10_PCREL_RELA'', 36), (''R_M32R_18_PCREL_RELA'', 37), (''R_M32R_26_PCREL_RELA'', 38),
     (''R_M32R_HI16_ULO_RELA'', 39), (''R_M32R_HI16_SLO_RELA'', 40), (''R_M32R_LO16_RELA'', 41),
     (''R_M32R_SDA16_RELA'', 42), (''R_M32R_RELA_GNU_VTINHERIT'', 43), (''R_M32R_RELA_GNU_VTENTRY'', 44),
     (''R_M32R_REL32'', 45), (''R_M32R_GOT24'', 48), (''R_M32R_26_PLTREL'', 49), (''R_M32R_COPY'', 50),
     (''R_M32R_GLOB_DAT'', 51), (''R_M32R_JMP_SLOT'', 52), (''R_M32R_RELATIVE'', 53), (''R_M32R_GOTOFF'', 54),
     (''R_M32R_GOTPC24'', 55), (''R_M32R_GOT16_HI_ULO'', 56), (''R_M32R_GOT16_HI_SLO'', 57),
     (''R_M32R_GOT16_LO'', 58), (''R_M32R_GOTPC_HI_ULO'', 59), (''R_M32R_GOTPC_HI_SLO'', 60),
     (''R_M32R_GOTPC_LO'', 61), (''R_M32R_GOTOFF_HI_ULO'', 62), (''R_M32R_GOTOFF_HI_SLO'', 63),
     (''R_M32R_GOTOFF_LO'', 64), (''R_M32R_NUM'', 256)]"

definition elf_R_MICROBLAZE :: table where \<comment> \<open>lines 3121 to 3150\<close>
  "elf_R_MICROBLAZE = [(''R_MICROBLAZE_NONE'', 0), (''R_MICROBLAZE_32'', 1), (''R_MICROBLAZE_32_PCREL'', 2),
     (''R_MICROBLAZE_64_PCREL'', 3), (''R_MICROBLAZE_32_PCREL_LO'', 4), (''R_MICROBLAZE_64'', 5),
     (''R_MICROBLAZE_32_LO'', 6), (''R_MICROBLAZE_SRO32'', 7), (''R_MICROBLAZE_SRW32'', 8),
     (''R_MICROBLAZE_64_NONE'', 9), (''R_MICROBLAZE_32_SYM_OP_SYM'', 10), (''R_MICROBLAZE_GNU_VTINHERIT'', 11),
     (''R_MICROBLAZE_GNU_VTENTRY'', 12), (''R_MICROBLAZE_GOTPC_64'', 13), (''R_MICROBLAZE_GOT_64'', 14),
     (''R_MICROBLAZE_PLT_64'', 15), (''R_MICROBLAZE_REL'', 16), (''R_MICROBLAZE_JUMP_SLOT'', 17),
     (''R_MICROBLAZE_GLOB_DAT'', 18), (''R_MICROBLAZE_GOTOFF_64'', 19), (''R_MICROBLAZE_GOTOFF_32'', 20),
     (''R_MICROBLAZE_COPY'', 21), (''R_MICROBLAZE_TLS'', 22), (''R_MICROBLAZE_TLSGD'', 23),
     (''R_MICROBLAZE_TLSLD'', 24), (''R_MICROBLAZE_TLSDTPMOD32'', 25), (''R_MICROBLAZE_TLSDTPREL32'', 26),
     (''R_MICROBLAZE_TLSDTPREL64'', 27), (''R_MICROBLAZE_TLSGOTTPREL32'', 28), (''R_MICROBLAZE_TLSTPREL32'', 29)]"

definition elf_DT_8 :: table where \<comment> \<open>lines 3152 to 3152\<close>
  "elf_DT_8 = [(''DT_NIOS2_GP'', 1879048194)]"

definition elf_R_NIOS2 :: table where \<comment> \<open>lines 3154 to 3199\<close>
  "elf_R_NIOS2 = [(''R_NIOS2_NONE'', 0), (''R_NIOS2_S16'', 1), (''R_NIOS2_U16'', 2), (''R_NIOS2_PCREL16'', 3),
     (''R_NIOS2_CALL26'', 4), (''R_NIOS2_IMM5'', 5), (''R_NIOS2_CACHE_OPX'', 6), (''R_NIOS2_IMM6'', 7),
     (''R_NIOS2_IMM8'', 8), (''R_NIOS2_HI16'', 9), (''R_NIOS2_LO16'', 10), (''R_NIOS2_HIADJ16'', 11),
     (''R_NIOS2_BFD_RELOC_32'', 12), (''R_NIOS2_BFD_RELOC_16'', 13), (''R_NIOS2_BFD_RELOC_8'', 14),
     (''R_NIOS2_GPREL'', 15), (''R_NIOS2_GNU_VTINHERIT'', 16), (''R_NIOS2_GNU_VTENTRY'', 17),
     (''R_NIOS2_UJMP'', 18), (''R_NIOS2_CJMP'', 19), (''R_NIOS2_CALLR'', 20), (''R_NIOS2_ALIGN'', 21),
     (''R_NIOS2_GOT16'', 22), (''R_NIOS2_CALL16'', 23), (''R_NIOS2_GOTOFF_LO'', 24), (''R_NIOS2_GOTOFF_HA'', 25),
     (''R_NIOS2_PCREL_LO'', 26), (''R_NIOS2_PCREL_HA'', 27), (''R_NIOS2_TLS_GD16'', 28),
     (''R_NIOS2_TLS_LDM16'', 29), (''R_NIOS2_TLS_LDO16'', 30), (''R_NIOS2_TLS_IE16'', 31),
     (''R_NIOS2_TLS_LE16'', 32), (''R_NIOS2_TLS_DTPMOD'', 33), (''R_NIOS2_TLS_DTPREL'', 34),
     (''R_NIOS2_TLS_TPREL'', 35), (''R_NIOS2_COPY'', 36), (''R_NIOS2_GLOB_DAT'', 37), (''R_NIOS2_JUMP_SLOT'', 38),
     (''R_NIOS2_RELATIVE'', 39), (''R_NIOS2_GOTOFF'', 40), (''R_NIOS2_CALL26_NOAT'', 41), (''R_NIOS2_GOT_LO'', 42),
     (''R_NIOS2_GOT_HA'', 43), (''R_NIOS2_CALL_LO'', 44), (''R_NIOS2_CALL_HA'', 45)]"

definition elf_R_OR1K :: table where \<comment> \<open>lines 3201 to 3235\<close>
  "elf_R_OR1K = [(''R_OR1K_NONE'', 0), (''R_OR1K_32'', 1), (''R_OR1K_16'', 2), (''R_OR1K_8'', 3),
     (''R_OR1K_LO_16_IN_INSN'', 4), (''R_OR1K_HI_16_IN_INSN'', 5), (''R_OR1K_INSN_REL_26'', 6),
     (''R_OR1K_GNU_VTENTRY'', 7), (''R_OR1K_GNU_VTINHERIT'', 8), (''R_OR1K_32_PCREL'', 9),
     (''R_OR1K_16_PCREL'', 10), (''R_OR1K_8_PCREL'', 11), (''R_OR1K_GOTPC_HI16'', 12), (''R_OR1K_GOTPC_LO16'', 13),
     (''R_OR1K_GOT16'', 14), (''R_OR1K_PLT26'', 15), (''R_OR1K_GOTOFF_HI16'', 16), (''R_OR1K_GOTOFF_LO16'', 17),
     (''R_OR1K_COPY'', 18), (''R_OR1K_GLOB_DAT'', 19), (''R_OR1K_JMP_SLOT'', 20), (''R_OR1K_RELATIVE'', 21),
     (''R_OR1K_TLS_GD_HI16'', 22), (''R_OR1K_TLS_GD_LO16'', 23), (''R_OR1K_TLS_LDM_HI16'', 24),
     (''R_OR1K_TLS_LDM_LO16'', 25), (''R_OR1K_TLS_LDO_HI16'', 26), (''R_OR1K_TLS_LDO_LO16'', 27),
     (''R_OR1K_TLS_IE_HI16'', 28), (''R_OR1K_TLS_IE_LO16'', 29), (''R_OR1K_TLS_LE_HI16'', 30),
     (''R_OR1K_TLS_LE_LO16'', 31), (''R_OR1K_TLS_TPOFF'', 32), (''R_OR1K_TLS_DTPOFF'', 33),
     (''R_OR1K_TLS_DTPMOD'', 34)]"

definition elf_R_BPF :: table where \<comment> \<open>lines 3237 to 3238\<close>
  "elf_R_BPF = [(''R_BPF_NONE'', 0), (''R_BPF_MAP_FD'', 1)]"

definition elf_R_RISCV :: table where \<comment> \<open>lines 3240 to 3294\<close>
  "elf_R_RISCV = [(''R_RISCV_NONE'', 0), (''R_RISCV_32'', 1), (''R_RISCV_64'', 2), (''R_RISCV_RELATIVE'', 3),
     (''R_RISCV_COPY'', 4), (''R_RISCV_JUMP_SLOT'', 5), (''R_RISCV_TLS_DTPMOD32'', 6),
     (''R_RISCV_TLS_DTPMOD64'', 7), (''R_RISCV_TLS_DTPREL32'', 8), (''R_RISCV_TLS_DTPREL64'', 9),
     (''R_RISCV_TLS_TPREL32'', 10), (''R_RISCV_TLS_TPREL64'', 11), (''R_RISCV_BRANCH'', 16), (''R_RISCV_JAL'', 17),
     (''R_RISCV_CALL'', 18), (''R_RISCV_CALL_PLT'', 19), (''R_RISCV_GOT_HI20'', 20),
     (''R_RISCV_TLS_GOT_HI20'', 21), (''R_RISCV_TLS_GD_HI20'', 22), (''R_RISCV_PCREL_HI20'', 23),
     (''R_RISCV_PCREL_LO12_I'', 24), (''R_RISCV_PCREL_LO12_S'', 25), (''R_RISCV_HI20'', 26),
     (''R_RISCV_LO12_I'', 27), (''R_RISCV_LO12_S'', 28), (''R_RISCV_TPREL_HI20'', 29),
     (''R_RISCV_TPREL_LO12_I'', 30), (''R_RISCV_TPREL_LO12_S'', 31), (''R_RISCV_TPREL_ADD'', 32),
     (''R_RISCV_ADD8'', 33), (''R_RISCV_ADD16'', 34), (''R_RISCV_ADD32'', 35), (''R_RISCV_ADD64'', 36),
     (''R_RISCV_SUB8'', 37), (''R_RISCV_SUB16'', 38), (''R_RISCV_SUB32'', 39), (''R_RISCV_SUB64'', 40),
     (''R_RISCV_GNU_VTINHERIT'', 41), (''R_RISCV_GNU_VTENTRY'', 42), (''R_RISCV_ALIGN'', 43),
     (''R_RISCV_RVC_BRANCH'', 44), (''R_RISCV_RVC_JUMP'', 45), (''R_RISCV_RVC_LUI'', 46),
     (''R_RISCV_GPREL_I'', 47), (''R_RISCV_GPREL_S'', 48), (''R_RISCV_TPREL_I'', 49), (''R_RISCV_TPREL_S'', 50),
     (''R_RISCV_RELAX'', 51), (''R_RISCV_SUB6'', 52), (''R_RISCV_SET6'', 53), (''R_RISCV_SET8'', 54),
     (''R_RISCV_SET16'', 55), (''R_RISCV_SET32'', 56), (''R_RISCV_32_PCREL'', 57)]"

section \<open>Relocation types\<close>

text \<open>The tables of the machines without aliases; the last entry \<open>R_X_NUM\<close> of some is a bound.\<close>

definition relocation_tables :: "table list" where
  "relocation_tables = [elf_R_68K, elf_R_386, elf_R_SPARC, elf_R_MIPS, elf_R_ALPHA, elf_R_PPC, elf_R_PPC64,
     elf_R_CKCORE, elf_R_IA64, elf_R_SH, elf_R_390, elf_R_CRIS, elf_R_X86, elf_R_MN10300, elf_R_M32R,
     elf_R_MICROBLAZE, elf_R_NIOS2, elf_R_OR1K, elf_R_BPF, elf_R_RISCV]"

text \<open>The name of a type, looked up in a machine's table.\<close>

definition relocation_name :: "table \<Rightarrow> nat \<Rightarrow> string option" where
  "relocation_name T c = map_of (map (\<lambda>(n, v). (v, n)) T) c"

fun increasing :: "nat list \<Rightarrow> bool" where
  "increasing (a # b # xs) \<longleftrightarrow> a < b \<and> increasing (b # xs)"
| "increasing _ \<longleftrightarrow> True"

lemma increasing_sorted: "increasing xs \<Longrightarrow> sorted_wrt (<) xs"
proof (induction xs rule: increasing.induct)
  case (1 a b xs)
  then show ?case by auto
qed auto

lemma increasing_lookup:
  assumes "increasing (map snd T)" "(n, c) \<in> set T"
  shows "relocation_name T c = Some n"
proof -
  have "distinct (map snd T)" using increasing_sorted [OF assms(1)] by (simp add: strict_sorted_iff)
  then have "distinct (map fst (map (\<lambda>(n, v). (v, n)) T))" by (simp add: comp_def case_prod_unfold)
  then show ?thesis using assms(2) unfolding relocation_name_def by (intro map_of_is_SomeI) force+
qed

lemma elf_R_68K_codes: "increasing (map snd elf_R_68K)" "last (map snd elf_R_68K) \<le> 256"
  by (simp_all add: elf_R_68K_def)

lemma elf_R_386_codes: "increasing (map snd elf_R_386)" "last (map snd elf_R_386) \<le> 256"
  by (simp_all add: elf_R_386_def)

lemma elf_R_SPARC_codes: "increasing (map snd elf_R_SPARC)" "last (map snd elf_R_SPARC) \<le> 256"
  by (simp_all add: elf_R_SPARC_def)

lemma elf_R_MIPS_codes: "increasing (map snd elf_R_MIPS)" "last (map snd elf_R_MIPS) \<le> 256"
  by (simp_all add: elf_R_MIPS_def)

lemma elf_R_ALPHA_codes: "increasing (map snd elf_R_ALPHA)" "last (map snd elf_R_ALPHA) \<le> 256"
  by (simp_all add: elf_R_ALPHA_def)

lemma elf_R_PPC_codes: "increasing (map snd elf_R_PPC)" "last (map snd elf_R_PPC) \<le> 256"
  by (simp_all add: elf_R_PPC_def)

lemma elf_R_PPC64_codes: "increasing (map snd elf_R_PPC64)" "last (map snd elf_R_PPC64) \<le> 256"
  by (simp_all add: elf_R_PPC64_def)

lemma elf_R_CKCORE_codes: "increasing (map snd elf_R_CKCORE)" "last (map snd elf_R_CKCORE) \<le> 256"
  by (simp_all add: elf_R_CKCORE_def)

lemma elf_R_IA64_codes: "increasing (map snd elf_R_IA64)" "last (map snd elf_R_IA64) \<le> 256"
  by (simp_all add: elf_R_IA64_def)

lemma elf_R_SH_codes: "increasing (map snd elf_R_SH)" "last (map snd elf_R_SH) \<le> 256"
  by (simp_all add: elf_R_SH_def)

lemma elf_R_390_codes: "increasing (map snd elf_R_390)" "last (map snd elf_R_390) \<le> 256"
  by (simp_all add: elf_R_390_def)

lemma elf_R_CRIS_codes: "increasing (map snd elf_R_CRIS)" "last (map snd elf_R_CRIS) \<le> 256"
  by (simp_all add: elf_R_CRIS_def)

lemma elf_R_X86_codes: "increasing (map snd elf_R_X86)" "last (map snd elf_R_X86) \<le> 256"
  by (simp_all add: elf_R_X86_def)

lemma elf_R_MN10300_codes: "increasing (map snd elf_R_MN10300)" "last (map snd elf_R_MN10300) \<le> 256"
  by (simp_all add: elf_R_MN10300_def)

lemma elf_R_M32R_codes: "increasing (map snd elf_R_M32R)" "last (map snd elf_R_M32R) \<le> 256"
  by (simp_all add: elf_R_M32R_def)

lemma elf_R_MICROBLAZE_codes: "increasing (map snd elf_R_MICROBLAZE)" "last (map snd elf_R_MICROBLAZE) \<le> 256"
  by (simp_all add: elf_R_MICROBLAZE_def)

lemma elf_R_NIOS2_codes: "increasing (map snd elf_R_NIOS2)" "last (map snd elf_R_NIOS2) \<le> 256"
  by (simp_all add: elf_R_NIOS2_def)

lemma elf_R_OR1K_codes: "increasing (map snd elf_R_OR1K)" "last (map snd elf_R_OR1K) \<le> 256"
  by (simp_all add: elf_R_OR1K_def)

lemma elf_R_BPF_codes: "increasing (map snd elf_R_BPF)" "last (map snd elf_R_BPF) \<le> 256"
  by (simp_all add: elf_R_BPF_def)

lemma elf_R_RISCV_codes: "increasing (map snd elf_R_RISCV)" "last (map snd elf_R_RISCV) \<le> 256"
  by (simp_all add: elf_R_RISCV_def)

lemma last_bound:
  "increasing xs \<Longrightarrow> x \<in> set xs \<Longrightarrow> x \<le> last xs"
proof (induction xs arbitrary: x rule: increasing.induct)
  case (1 a b xs)
  have "b \<le> last (b # xs)" using "1.IH" [of b] "1.prems"(1) by simp
  then show ?case using "1.IH" [of x] "1.prems" by auto
qed auto

lemma relocation_codes:
  assumes "T \<in> set relocation_tables"
  shows "increasing (map snd T) \<and> last (map snd T) \<le> 256"
  using assms unfolding relocation_tables_def
  by (auto simp: elf_R_68K_codes
      elf_R_386_codes
      elf_R_SPARC_codes
      elf_R_MIPS_codes
      elf_R_ALPHA_codes
      elf_R_PPC_codes
      elf_R_PPC64_codes
      elf_R_CKCORE_codes
      elf_R_IA64_codes
      elf_R_SH_codes
      elf_R_390_codes
      elf_R_CRIS_codes
      elf_R_X86_codes
      elf_R_MN10300_codes
      elf_R_M32R_codes
      elf_R_MICROBLAZE_codes
      elf_R_NIOS2_codes
      elf_R_OR1K_codes
      elf_R_BPF_codes
      elf_R_RISCV_codes)

text \<open>
  In each of these tables every relocation type but the bound 256 of a full table fits the
  eight-bit type field of a 32-bit object and is found back by name: packing it with any symbol
  by \<open>ELF32_R_INFO\<close> and looking the \<open>ELF32_R_TYPE\<close> of the word up gives the same relocation.
\<close>

theorem relocation_roundtrip:
  assumes "T \<in> set relocation_tables" "(n, c) \<in> set T" "c \<noteq> 256"
  shows "relocation_name T (unat (ELF32_R_TYPE (ELF32_R_INFO sm (of_nat c)))) = Some n"
proof -
  have "c \<le> 256" using relocation_codes [OF assms(1)] last_bound [of "map snd T" c] assms(2) by force
  then have c: "c < 256" using assms(3) by simp
  have "ELF32_R_TYPE (ELF32_R_INFO sm (of_nat c)) = of_nat c AND mask 8"
    unfolding R32_INFO_or ELF32_R_TYPE_def small_masks by (rule bit_word_eqI) (auto simp: bit_simps)
  also have "\<dots> = take_bit 8 (of_nat c)" by (simp add: take_bit_eq_mask and.commute)
  finally have "unat (ELF32_R_TYPE (ELF32_R_INFO sm (of_nat c))) = c"
    using c by (simp add: unsigned_take_bit_eq unsigned_of_nat take_bit_nat_eq_self_iff)
  then show ?thesis using increasing_lookup [of T n c] relocation_codes [OF assms(1)] assms(2) by simp
qed

lemma relocation_roundtrip_witness:
  "relocation_name elf_R_386 (unat (ELF32_R_TYPE (ELF32_R_INFO 77 2))) = Some ''R_386_PC32''"
  using relocation_roundtrip [of elf_R_386 "''R_386_PC32''" 2 77]
  by (simp add: relocation_tables_def elf_R_386_def)

end
