(* ===== verification/FrameAlloc.thy ===== *)
theory FrameAlloc
  imports Liballoc_Correct Entry
begin

text \<open>
  The physical frame allocator: class \<open>FrameAllocator\<close> of
  \<open>src/lib/kernel/memory/pagination/FrameAllocator.cpp\<close>. It keeps up to 64 frames in a buffer
  and the rest as a sorted list of ranges whose nodes live in the kernel heap. The record
  extends the heap's state; \<open>kernel_malloc\<close> and \<open>kernel_free\<close> are arguments (\<open>mf\<close>, \<open>ff\<close>), because
  the heap itself gets its pages through this allocator: the system theory ties the knot.
\<close>

section \<open>State\<close>

record memory_space =
  sp_base :: uint64
  sp_size :: uint64

record list_frame =
  fdata :: memory_space     \<comment> \<open>field \<open>data\<close>\<close>
  next_frame :: addr        \<comment> \<open>field \<open>next\<close>\<close>

record frames = liballoc +
  frame_lock0 :: uint16
  frame_lock1 :: uint16
  qtd_buffer :: uint8
  avaliableMemory :: addr
  frame_buffer :: "uint64 list"         \<comment> \<open>\<open>MAX_BUFFER_FRAMES + 16\<close> entries\<close>
  nodes :: "addr \<Rightarrow> list_frame"          \<comment> \<open>memory, read as list nodes\<close>

text \<open>The two allocation functions, as the code calls them.\<close>

type_synonym 'a malloc_fun = "uint64 \<Rightarrow> 'a frames_scheme \<Rightarrow> (addr \<times> 'a frames_scheme) option"
type_synonym 'a free_fun = "addr \<Rightarrow> 'a frames_scheme \<Rightarrow> 'a frames_scheme option"

definition rdn :: "addr \<Rightarrow> 'a frames_scheme \<Rightarrow> list_frame option" where
  "rdn p s = (if p = NULL then None else Some (nodes s p))"

definition updn :: "addr \<Rightarrow> (list_frame \<Rightarrow> list_frame) \<Rightarrow> 'a frames_scheme \<Rightarrow> 'a frames_scheme option" where
  "updn p f s = (if p = NULL then None else Some (s\<lparr>nodes := (nodes s)(p := f (nodes s p))\<rparr>))"

definition lock0 :: "'a frames_scheme \<Rightarrow> 'a frames_scheme option" where
  "lock0 s = do { l \<leftarrow> acquireLock (frame_lock0 s); Some (s\<lparr>frame_lock0 := l\<rparr>) }"

definition unlock0 :: "'a frames_scheme \<Rightarrow> 'a frames_scheme" where
  "unlock0 s = s\<lparr>frame_lock0 := releaseLock (frame_lock0 s)\<rparr>"

definition lock1 :: "'a frames_scheme \<Rightarrow> 'a frames_scheme option" where
  "lock1 s = do { l \<leftarrow> acquireLock (frame_lock1 s); Some (s\<lparr>frame_lock1 := l\<rparr>) }"

definition unlock1 :: "'a frames_scheme \<Rightarrow> 'a frames_scheme" where
  "unlock1 s = s\<lparr>frame_lock1 := releaseLock (frame_lock1 s)\<rparr>"

definition BUFFER_ENTRIES :: nat where
  "BUFFER_ENTRIES = MAX_BUFFER_FRAMES + 16"

section \<open>Operations\<close>

text \<open>The \<open>while\<close> loop of \<open>list_push\<close>: a node takes in the followers it reaches.\<close>

partial_function (option) merge_next :: "'a free_fun \<Rightarrow> addr \<Rightarrow> 'a frames_scheme \<Rightarrow> 'a frames_scheme option" where
  "merge_next ff list s = do {
     l \<leftarrow> rdn list s;
     if next_frame l = NULL then Some s
     else do {
       n \<leftarrow> rdn (next_frame l) s;
       if sp_base (fdata n) \<le> sp_base (fdata l) + sp_size (fdata l)
       then do {
         s \<leftarrow> updn list (\<lambda>l. l\<lparr>fdata := (fdata l)\<lparr>sp_size := (sp_base (fdata n) + sp_size (fdata n)) - sp_base (fdata l)\<rparr>\<rparr>) s;
         let tmp = next_frame l;
         s \<leftarrow> updn list (\<lambda>l. l\<lparr>next_frame := next_frame n\<rparr>) s;
         let s = unlock1 s;
         s \<leftarrow> ff tmp s;
         s \<leftarrow> lock1 s;
         merge_next ff list s }
       else Some s } }"

partial_function (option) list_push ::
    "'a free_fun \<Rightarrow> addr \<Rightarrow> addr \<Rightarrow> 'a frames_scheme \<Rightarrow> (addr \<times> 'a frames_scheme) option" where
  "list_push ff list newItem s =
     (if list = NULL then do {
        s \<leftarrow> updn newItem (\<lambda>n. n\<lparr>next_frame := list\<rparr>) s;
        Some (newItem, s) }
      else do {
        l \<leftarrow> rdn list s;
        n \<leftarrow> rdn newItem s;
        if sp_base (fdata n) < sp_base (fdata l) then do {
          s \<leftarrow> updn newItem (\<lambda>n. n\<lparr>next_frame := list\<rparr>) s;
          Some (newItem, s) }
        else do {
          r \<leftarrow> list_push ff (next_frame l) newItem s;
          s \<leftarrow> updn list (\<lambda>l. l\<lparr>next_frame := fst r\<rparr>) (snd r);
          s \<leftarrow> merge_next ff list s;
          Some (list, s) } })"

partial_function (option) freeMemory_loop :: "uint64 \<Rightarrow> addr \<Rightarrow> 'a frames_scheme \<Rightarrow> uint64 option" where
  "freeMemory_loop acc ptr s =
     (if ptr = NULL then Some acc
      else do { n \<leftarrow> rdn ptr s; freeMemory_loop (acc + sp_size (fdata n)) (next_frame n) s })"

definition freeMemory :: "'a frames_scheme \<Rightarrow> uint64 option" where
  "freeMemory s = freeMemory_loop 0 (avaliableMemory s) s"

text \<open>A write past the 80 entries would overwrite what follows the object: \<open>None\<close>.\<close>

definition addFrameInBuffer :: "uint64 \<Rightarrow> 'a frames_scheme \<Rightarrow> 'a frames_scheme option" where
  "addFrameInBuffer frame s = do {
     s \<leftarrow> lock0 s;
     s \<leftarrow> (if unat (qtd_buffer s) < BUFFER_ENTRIES
          then Some (s\<lparr>frame_buffer := (frame_buffer s)[unat (qtd_buffer s) := frame AND PAGE_MASK],
                      qtd_buffer := qtd_buffer s + 1\<rparr>)
          else None);
     Some (unlock0 s) }"

partial_function (option) loadBuffer_loop :: "'a free_fun \<Rightarrow> 'a frames_scheme \<Rightarrow> 'a frames_scheme option" where
  "loadBuffer_loop ff s =
     (if unat (qtd_buffer s) < MAX_BUFFER_FRAMES \<and> avaliableMemory s \<noteq> NULL
      then do {
        n \<leftarrow> rdn (avaliableMemory s) s;
        let space = fdata n;
        if sp_size space < PAGE_SIZE
        then do {
          let nxt = next_frame n;
          s \<leftarrow> ff (avaliableMemory s) s;
          loadBuffer_loop ff (s\<lparr>avaliableMemory := nxt\<rparr>) }
        else do {
          s \<leftarrow> addFrameInBuffer (sp_base space) s;
          s \<leftarrow> updn (avaliableMemory s) (\<lambda>n. n\<lparr>fdata := (fdata n)\<lparr>sp_base := sp_base (fdata n) + PAGE_SIZE\<rparr>\<rparr>) s;
          s \<leftarrow> updn (avaliableMemory s) (\<lambda>n. n\<lparr>fdata := (fdata n)\<lparr>sp_size := sp_size (fdata n) - PAGE_SIZE\<rparr>\<rparr>) s;
          loadBuffer_loop ff s } }
      else Some s)"

definition loadBuffer :: "'a free_fun \<Rightarrow> 'a frames_scheme \<Rightarrow> (bool \<times> 'a frames_scheme) option" where
  "loadBuffer ff s = do {
     s \<leftarrow> lock1 s;
     s \<leftarrow> loadBuffer_loop ff s;
     let s = unlock1 s;
     Some (0 < qtd_buffer s, s) }"

text \<open>The first loop of \<open>addMemorySpace\<close>: all but the last page, while the buffer has room.\<close>

partial_function (option) fill_buffer ::
    "memory_space \<Rightarrow> 'a frames_scheme \<Rightarrow> (memory_space \<times> 'a frames_scheme) option" where
  "fill_buffer m s =
     (if PAGE_SIZE < sp_size m \<and> unat (qtd_buffer s) < MAX_BUFFER_FRAMES
      then do {
        s \<leftarrow> addFrameInBuffer (sp_base m) s;
        fill_buffer (m\<lparr>sp_base := sp_base m + PAGE_SIZE, sp_size := sp_size m - PAGE_SIZE\<rparr>) s }
      else Some (m, s))"

definition round_space :: "memory_space \<Rightarrow> memory_space" where
  "round_space m = \<lparr>sp_base = sp_base m AND PAGE_MASK,
     sp_size = (sp_size m - (sp_base m AND NOT PAGE_MASK)) AND PAGE_MASK\<rparr>"

text \<open>\<open>panic\<close> loops for ever: \<open>None\<close>.\<close>

definition addMemorySpace :: "'a malloc_fun \<Rightarrow> 'a free_fun \<Rightarrow> memory_space \<Rightarrow> 'a frames_scheme \<Rightarrow>
    'a frames_scheme option" where
  "addMemorySpace mf ff m s = do {
     (m, s) \<leftarrow> fill_buffer (round_space m) s;
     if sp_size m < PAGE_SIZE then Some s
     else do {
       (newObj, s) \<leftarrow> mf 24 s;
       if newObj = NULL then None
       else do {
         s \<leftarrow> updn newObj (\<lambda>n. n\<lparr>fdata := m\<rparr>) s;
         s \<leftarrow> lock1 s;
         (l, s) \<leftarrow> list_push ff (avaliableMemory s) newObj s;
         Some (unlock1 (s\<lparr>avaliableMemory := l\<rparr>)) } } }"

definition allocate :: "'a free_fun \<Rightarrow> 'a frames_scheme \<Rightarrow> (uint64 \<times> 'a frames_scheme) option" where
  "allocate ff s = do {
     (ok, s) \<leftarrow> (if unat (qtd_buffer s) \<le> MAX_BUFFER_FRAMES div 2 then loadBuffer ff s else Some (True, s));
     if \<not> ok then None
     else do {
       s \<leftarrow> lock0 s;
       let s = s\<lparr>qtd_buffer := qtd_buffer s - 1\<rparr>;
       let frame = frame_buffer s ! unat (qtd_buffer s);
       Some (frame, unlock0 s) } }"

section \<open>The free frames\<close>

text \<open>\<open>ns\<close> lists the nodes from \<open>p\<close> on.\<close>

fun chain :: "(addr \<Rightarrow> list_frame) \<Rightarrow> addr \<Rightarrow> addr list \<Rightarrow> bool" where
  "chain m p [] \<longleftrightarrow> p = NULL"
| "chain m p (a # as) \<longleftrightarrow> p = a \<and> a \<noteq> NULL \<and> chain m (next_frame (m a)) as"

definition space_end :: "memory_space \<Rightarrow> nat" where
  "space_end m = unat (sp_base m) + unat (sp_size m)"

definition space_ok :: "memory_space \<Rightarrow> bool" where
  "space_ok m \<longleftrightarrow> 4096 dvd unat (sp_base m) \<and> 4096 dvd unat (sp_size m) \<and> space_end m < 2 ^ 64"

text \<open>The page addresses of a range, lowest first.\<close>

definition pages_of :: "memory_space \<Rightarrow> nat list" where
  "pages_of m = map (\<lambda>k. unat (sp_base m) + 4096 * k) [0..<unat (sp_size m) div 4096]"

text \<open>Ranges in order, none reaching past the start of the next.\<close>

definition in_order :: "(addr \<Rightarrow> list_frame) \<Rightarrow> addr list \<Rightarrow> bool" where
  "in_order m ns \<longleftrightarrow> sorted_wrt (\<lambda>a b. space_end (fdata (m a)) \<le> unat (sp_base (fdata (m b)))) ns"

definition buffered :: "'a frames_scheme \<Rightarrow> nat list" where
  "buffered s = map unat (take (unat (qtd_buffer s)) (frame_buffer s))"

definition listed :: "(addr \<Rightarrow> list_frame) \<Rightarrow> addr list \<Rightarrow> nat list" where
  "listed m ns = concat (map (\<lambda>a. pages_of (fdata (m a))) ns)"

definition free_frames :: "'a frames_scheme \<Rightarrow> addr list \<Rightarrow> nat set" where
  "free_frames s ns = set (buffered s) \<union> set (listed (nodes s) ns)"

text \<open>The invariant: the list is well formed and no frame is free twice.\<close>

definition frames_inv :: "'a frames_scheme \<Rightarrow> addr list \<Rightarrow> bool" where
  "frames_inv s ns \<longleftrightarrow> chain (nodes s) (avaliableMemory s) ns \<and> distinct ns \<and>
     (\<forall>a \<in> set ns. space_ok (fdata (nodes s a))) \<and> in_order (nodes s) ns \<and>
     unat (qtd_buffer s) \<le> MAX_BUFFER_FRAMES \<and> length (frame_buffer s) = BUFFER_ENTRIES \<and>
     (\<forall>f \<in> set (buffered s). 4096 dvd f) \<and>
     distinct (buffered s) \<and> set (buffered s) \<inter> set (listed (nodes s) ns) = {}"

end
