(* ===== verification/PageTable.thy ===== *)
theory PageTable
  imports FrameAlloc
begin

text \<open>
  The paging structures: class \<open>PaginationTable\<close> of
  \<open>src/lib/kernel/memory/pagination/PageTable.cpp\<close>. The record adds the processor's table base
  and the physical memory that holds the tables to the frame allocator's state. The code reaches
  the tables through slot 510 of the top table, which points to the top table itself; every
  access goes through the processor's walk (\<open>mmu\<close>), and an access to an address that is not
  mapped is a page fault, whose handler never returns: \<open>None\<close>.
\<close>

section \<open>The processor's walk\<close>

record paging = frames +
  cr3 :: addr
  phys :: "addr \<Rightarrow> uint64"        \<comment> \<open>physical memory, read as entries\<close>

definition idx :: "nat \<Rightarrow> addr \<Rightarrow> nat" where
  "idx n v = unat (drop_bit n v AND 0x1FF)"

text \<open>Entry \<open>i\<close> of the table at \<open>t\<close>.\<close>

definition entry_at :: "addr \<Rightarrow> nat \<Rightarrow> addr" where
  "entry_at t i = t + of_nat (8 * i)"

fun walk :: "(addr \<Rightarrow> uint64) \<Rightarrow> addr \<Rightarrow> nat list \<Rightarrow> addr option" where
  "walk m t [] = Some t"
| "walk m t (i # is) = (let e = m (entry_at t i) in if isPresent e then walk m (getAddr e) is else None)"

text \<open>Bits 48 to 63 repeat bit 47.\<close>

definition canonical :: "addr \<Rightarrow> bool" where
  "canonical v \<longleftrightarrow> drop_bit 47 v = 0 \<or> drop_bit 47 v = 0x1FFFF"

definition mmu :: "'a paging_scheme \<Rightarrow> addr \<Rightarrow> addr option" where
  "mmu s v = (if canonical v
     then do { t \<leftarrow> walk (phys s) (getAddr (cr3 s)) [idx 39 v, idx 30 v, idx 21 v, idx 12 v]; Some (t + (v AND 0xFFF)) }
     else None)"

definition rd64 :: "addr \<Rightarrow> 'a paging_scheme \<Rightarrow> uint64 option" where
  "rd64 v s = do { p \<leftarrow> mmu s v; Some (phys s p) }"

definition upd64 :: "addr \<Rightarrow> (uint64 \<Rightarrow> uint64) \<Rightarrow> 'a paging_scheme \<Rightarrow> 'a paging_scheme option" where
  "upd64 v f s = do { p \<leftarrow> mmu s v; Some (s\<lparr>phys := (phys s)(p := f (phys s p))\<rparr>) }"

section \<open>Entry addresses\<close>

definition CONVERT_PAGE_IDX_TO_ADDR :: "uint16 \<Rightarrow> uint16 \<Rightarrow> uint16 \<Rightarrow> uint16 \<Rightarrow> addr" where
  "CONVERT_PAGE_IDX_TO_ADDR l4 l3 l2 l1 =
     (let a = (if 256 \<le> l4 then NOT 0 AND NOT (push_bit 9 1 - 1) else 0) OR ucast l4;
          a = push_bit 9 a OR ucast l3;
          a = push_bit 9 a OR ucast l2;
          a = push_bit 9 a OR ucast l1
      in push_bit 12 a)"

definition virtualAddrArr :: "uint16 \<Rightarrow> uint16 \<Rightarrow> uint16 \<Rightarrow> uint16 \<Rightarrow> addr list" where
  "virtualAddrArr l4 l3 l2 l1 =
     [CONVERT_PAGE_IDX_TO_ADDR 510 l4 l3 l2 + ucast l1 * 8,
      CONVERT_PAGE_IDX_TO_ADDR 510 510 l4 l3 + ucast l2 * 8,
      CONVERT_PAGE_IDX_TO_ADDR 510 510 510 l4 + ucast l3 * 8,
      CONVERT_PAGE_IDX_TO_ADDR 510 510 510 510 + ucast l4 * 8]"

definition l_idx :: "nat \<Rightarrow> uint64 \<Rightarrow> uint16" where
  "l_idx n virt = ucast (drop_bit n virt AND 0x1FF)"

section \<open>Looking an entry up\<close>

text \<open>The loop from level 3 down; \<open>k\<close> is one more than \<open>loop_level\<close>.\<close>

fun get_loop :: "addr list \<Rightarrow> bool \<Rightarrow> nat \<Rightarrow> nat \<Rightarrow> addr \<Rightarrow> 'a paging_scheme \<Rightarrow> addr option" where
  "get_loop arr pos level 0 resp s = Some resp"
| "get_loop arr pos level (Suc k) resp s =
     (if level \<le> k then do {
        e \<leftarrow> rd64 (arr ! k) s;
        if \<not> isPresent e \<and> (\<not> pos \<or> k \<noteq> level) then Some NULL
        else get_loop arr pos level k (arr ! k) s }
      else Some resp)"

definition getEntryLevel_idx ::
    "uint16 \<Rightarrow> uint16 \<Rightarrow> uint16 \<Rightarrow> uint16 \<Rightarrow> PAGINATION_LEVEL \<Rightarrow> 'a paging_scheme \<Rightarrow> addr option" where
  \<comment> \<open>\<open>_getEntryLevel\<close>\<close>
  "getEntryLevel_idx l4 l3 l2 l1 level s =
     (let arr = virtualAddrArr l4 l3 l2 l1; lv = level_code level in
      if 3 < lv then get_loop (arr[lv - 4 := 0]) True (lv - 4) 4 NULL s
      else get_loop arr False lv 4 NULL s)"

definition getEntryLevel :: "uint64 \<Rightarrow> PAGINATION_LEVEL \<Rightarrow> 'a paging_scheme \<Rightarrow> addr option" where
  "getEntryLevel virt level s =
     getEntryLevel_idx (l_idx 39 virt) (l_idx 30 virt) (l_idx 21 virt) (l_idx 12 virt) level s"

definition getEntryTable :: "uint16 \<Rightarrow> 'a paging_scheme \<Rightarrow> addr option" where
  "getEntryTable pos s = getEntryLevel (push_bit 39 (ucast pos)) L3 s"

definition getRealAddr :: "uint64 \<Rightarrow> 'a paging_scheme \<Rightarrow> uint64 option" where
  "getRealAddr virt s = do {
     let comp = virt AND NOT PAGE_MASK;
     entry \<leftarrow> getEntryLevel virt PAGE s;
     e \<leftarrow> rd64 entry s;
     Some (if isPresent e then getAddr e OR comp else NULL) }"

section \<open>Creating entries\<close>

definition create_entry ::
    "'a paging_ext free_fun \<Rightarrow> uint16 \<Rightarrow> addr \<Rightarrow> 'a paging_scheme \<Rightarrow> 'a paging_scheme option" where
  "create_entry ff flags resp s = do {
     (f, s) \<leftarrow> allocate ff s;
     s \<leftarrow> upd64 resp (setAddr f) s;
     s \<leftarrow> upd64 resp (setFlags flags) s;
     upd64 resp (setPresent True) s }"

fun create_loop :: "'a paging_ext free_fun \<Rightarrow> uint16 \<Rightarrow> addr list \<Rightarrow> nat \<Rightarrow> nat \<Rightarrow> bool \<Rightarrow> addr \<Rightarrow>
    'a paging_scheme \<Rightarrow> (addr \<times> 'a paging_scheme) option" where
  "create_loop ff flags arr level 0 present resp s = Some (resp, s)"
| "create_loop ff flags arr level (Suc k) present resp s =
     (if level \<le> k then do {
        let resp = arr ! k;
        e \<leftarrow> rd64 resp s;
        if \<not> isPresent e \<or> \<not> present
        then do { s \<leftarrow> create_entry ff flags resp s; create_loop ff flags arr level k False resp s }
        else create_loop ff flags arr level k present resp s }
      else Some (resp, s))"

definition getOrCreateEntryLevel ::
    "'a paging_ext free_fun \<Rightarrow> uint64 \<Rightarrow> PAGINATION_LEVEL \<Rightarrow> uint16 \<Rightarrow> 'a paging_scheme \<Rightarrow>
     (addr \<times> 'a paging_scheme) option" where
  "getOrCreateEntryLevel ff virt level flags s =
     create_loop ff flags (virtualAddrArr (l_idx 39 virt) (l_idx 30 virt) (l_idx 21 virt) (l_idx 12 virt))
       (level_code level) 4 True NULL s"

fun map_loop :: "'a paging_ext free_fun \<Rightarrow> uint16 \<Rightarrow> nat \<Rightarrow> uint64 \<Rightarrow> 'a paging_scheme \<Rightarrow> 'a paging_scheme option" where
  "map_loop ff flags 0 ad s = Some s"
| "map_loop ff flags (Suc n) ad s = do {
     (e, s) \<leftarrow> getOrCreateEntryLevel ff ad PAGE flags s;
     map_loop ff flags n (ad + PAGE_SIZE) s }"

definition map_pages :: "'a paging_ext free_fun \<Rightarrow> addr \<Rightarrow> uint32 \<Rightarrow> uint16 \<Rightarrow> 'a paging_scheme \<Rightarrow> 'a paging_scheme option" where
  \<comment> \<open>\<open>map\<close>\<close>
  "map_pages ff virtualAddr pages flags s = map_loop ff flags (unat pages) virtualAddr s"

section \<open>Allocating virtual pages\<close>

text \<open>The run of absent entries after \<open>(z, y, x)\<close>: its length and the entry that ends it.\<close>

partial_function (option) scan_run ::
    "uint16 \<Rightarrow> uint32 \<Rightarrow> uint16 \<Rightarrow> uint16 \<Rightarrow> uint16 \<Rightarrow> uint32 \<Rightarrow> addr \<Rightarrow> 'a paging_scheme \<Rightarrow> (uint32 \<times> addr) option" where
  "scan_run base_l3 pages z y x i entry s =
     (if entry = NULL \<and> i < pages then do {
        let xi = ucast x + i;
        let yy = ucast y + xi div 512;
        entry \<leftarrow> getEntryLevel_idx base_l3 (ucast (ucast z + yy div 512)) (ucast (yy mod 512)) (ucast (xi mod 512)) PAGE s;
        scan_run base_l3 pages z y x (i + 1) entry s }
      else Some (i, entry))"

definition next_place :: "uint16 \<Rightarrow> uint16 \<Rightarrow> uint16 \<Rightarrow> uint32 \<Rightarrow> uint16 \<times> uint16 \<times> uint16" where
  "next_place z y x i =
     (let x = ucast (ucast x + i) in
      if 512 < x then
        let y = y + x div 512; x = x mod 512 in
        if 512 < y then (z + y div 512, y mod 512, x) else (z, y, x)
      else (z, y, x))"

partial_function (option) alloc_vm_loop ::
    "'a paging_ext free_fun \<Rightarrow> uint16 \<Rightarrow> uint32 \<Rightarrow> uint16 \<Rightarrow> uint16 \<times> uint16 \<times> uint16 \<Rightarrow> 'a paging_scheme \<Rightarrow>
     (addr \<times> 'a paging_scheme) option" where
  "alloc_vm_loop ff base_l3 pages flags zyx s =
     (case zyx of (z, y, x) \<Rightarrow>
      if z < 512 \<or> z = 512 \<and> y < 512 then do {
        entry \<leftarrow> getEntryLevel_idx base_l3 z y x PAGE s;
        r \<leftarrow> scan_run base_l3 pages z y x 1 entry s;
        if snd r = NULL then do {
          let ad = CONVERT_PAGE_IDX_TO_ADDR base_l3 z y x;
          s \<leftarrow> map_pages ff ad pages flags s;
          Some (ad, s) }
        else alloc_vm_loop ff base_l3 pages flags (next_place z y x (fst r)) s }
      else Some (NULL, s))"

definition alloc_vm :: "'a paging_ext free_fun \<Rightarrow> uint16 \<Rightarrow> uint32 \<Rightarrow> uint16 \<Rightarrow> 'a paging_scheme \<Rightarrow>
    (addr \<times> 'a paging_scheme) option" where
  "alloc_vm ff base_l3 pages flags s = alloc_vm_loop ff base_l3 pages flags (0, 0, 0) s"

section \<open>Removing entries\<close>

partial_function (option) any_present :: "addr \<Rightarrow> nat \<Rightarrow> 'a paging_scheme \<Rightarrow> bool option" where
  "any_present p y s =
     (if y < 512 then do {
        e \<leftarrow> rd64 (entry_at p y) s;
        if isPresent e then Some True else any_present p (y + 1) s }
      else Some False)"

definition drop_entry :: "'a paging_ext malloc_fun \<Rightarrow> 'a paging_ext free_fun \<Rightarrow> addr \<Rightarrow> 'a paging_scheme \<Rightarrow> 'a paging_scheme option" where
  "drop_entry mf ff p s = do {
     e \<leftarrow> rd64 p s;
     s \<leftarrow> upd64 p (setPresent False) s;
     addMemorySpace mf ff \<lparr>sp_base = getAddr e, sp_size = PAGE_SIZE\<rparr> s }"

text \<open>
  The loops of \<open>unmap\<close>, innermost first. \<open>x\<close> counts the pages seen, \<open>erased\<close> says that a page
  went away and no table looked at since has an entry left.
\<close>

partial_function (option) unmap_l1 ::
    "'a paging_ext malloc_fun \<Rightarrow> 'a paging_ext free_fun \<Rightarrow> uint32 \<Rightarrow> uint16 \<Rightarrow> uint16 \<Rightarrow> uint16 \<Rightarrow> uint16 \<Rightarrow> uint32 \<Rightarrow> bool \<Rightarrow>
     'a paging_scheme \<Rightarrow> (uint32 \<times> bool \<times> 'a paging_scheme) option" where
  "unmap_l1 mf ff pages l4 l3 l2 l1 x erased s =
     (if l1 < 512 \<and> x < pages then do {
        page \<leftarrow> getEntryLevel_idx l4 l3 l2 l1 PAGE s;
        if page = NULL then unmap_l1 mf ff pages l4 l3 l2 (l1 + 1) (x + 1) erased s
        else do {
          s \<leftarrow> drop_entry mf ff page s;
          unmap_l1 mf ff pages l4 l3 l2 (l1 + 1) (x + 1) True s } }
      else Some (x, erased, s))"

text \<open>After a loop: when something was erased, see whether the table is empty and drop it.\<close>

definition drop_table ::
    "'a paging_ext malloc_fun \<Rightarrow> 'a paging_ext free_fun \<Rightarrow> uint16 \<Rightarrow> uint16 \<Rightarrow> uint16 \<Rightarrow> PAGINATION_LEVEL \<Rightarrow> PAGINATION_LEVEL \<Rightarrow>
     bool \<Rightarrow> 'a paging_scheme \<Rightarrow> (bool \<times> 'a paging_scheme) option" where
  "drop_table mf ff l4 l3 l2 entries table erased s =
     (if erased then do {
        p \<leftarrow> getEntryLevel_idx l4 l3 l2 0 entries s;
        some \<leftarrow> any_present p 0 s;
        if some then Some (False, s)
        else do {
          t \<leftarrow> getEntryLevel_idx l4 l3 l2 0 table s;
          s \<leftarrow> drop_entry mf ff t s;
          Some (True, s) } }
      else Some (False, s))"

partial_function (option) unmap_l2 ::
    "'a paging_ext malloc_fun \<Rightarrow> 'a paging_ext free_fun \<Rightarrow> uint32 \<Rightarrow> uint64 \<Rightarrow> uint16 \<Rightarrow> uint16 \<Rightarrow> uint16 \<Rightarrow> uint32 \<Rightarrow> bool \<Rightarrow>
     'a paging_scheme \<Rightarrow> (uint32 \<times> bool \<times> 'a paging_scheme) option" where
  "unmap_l2 mf ff pages virt l4 l3 l2 x erased s =
     (if l2 < 512 \<and> x < pages then do {
        r \<leftarrow> unmap_l1 mf ff pages l4 l3 l2 (l_idx 12 virt) x erased s;
        d \<leftarrow> drop_table mf ff l4 l3 l2 PAGE L1 (fst (snd r)) (snd (snd r));
        unmap_l2 mf ff pages virt l4 l3 (l2 + 1) (fst r) (fst d) (snd d) }
      else Some (x, erased, s))"

partial_function (option) unmap_l3 ::
    "'a paging_ext malloc_fun \<Rightarrow> 'a paging_ext free_fun \<Rightarrow> uint32 \<Rightarrow> uint64 \<Rightarrow> uint16 \<Rightarrow> uint16 \<Rightarrow> uint32 \<Rightarrow> bool \<Rightarrow>
     'a paging_scheme \<Rightarrow> (uint32 \<times> bool \<times> 'a paging_scheme) option" where
  "unmap_l3 mf ff pages virt l4 l3 x erased s =
     (if l3 < 512 \<and> x < pages then do {
        r \<leftarrow> unmap_l2 mf ff pages virt l4 l3 (l_idx 21 virt) x erased s;
        d \<leftarrow> drop_table mf ff l4 l3 0 L1 L2 (fst (snd r)) (snd (snd r));
        unmap_l3 mf ff pages virt l4 (l3 + 1) (fst r) (fst d) (snd d) }
      else Some (x, erased, s))"

partial_function (option) unmap_l4 ::
    "'a paging_ext malloc_fun \<Rightarrow> 'a paging_ext free_fun \<Rightarrow> uint32 \<Rightarrow> uint64 \<Rightarrow> uint16 \<Rightarrow> uint32 \<Rightarrow> bool \<Rightarrow>
     'a paging_scheme \<Rightarrow> 'a paging_scheme option" where
  "unmap_l4 mf ff pages virt l4 x erased s =
     (if l4 < 512 \<and> x < pages then do {
        r \<leftarrow> unmap_l3 mf ff pages virt l4 (l_idx 30 virt) x erased s;
        d \<leftarrow> drop_table mf ff l4 0 0 L2 L3 (fst (snd r)) (snd (snd r));
        unmap_l4 mf ff pages virt (l4 + 1) (fst r) (fst d) (snd d) }
      else Some s)"

definition unmap :: "'a paging_ext malloc_fun \<Rightarrow> 'a paging_ext free_fun \<Rightarrow> addr \<Rightarrow> uint32 \<Rightarrow> 'a paging_scheme \<Rightarrow> 'a paging_scheme option" where
  "unmap mf ff virtualAddr pages s = unmap_l4 mf ff pages virtualAddr (l_idx 39 virtualAddr) 0 False s"

definition free_vm :: "'a paging_ext malloc_fun \<Rightarrow> 'a paging_ext free_fun \<Rightarrow> addr \<Rightarrow> uint32 \<Rightarrow> 'a paging_scheme \<Rightarrow> 'a paging_scheme option" where
  "free_vm mf ff virtualAddr pages s = unmap mf ff virtualAddr pages s"

end
