(* ===== verification/PageTable_Walk.thy ===== *)
theory PageTable_Walk
  imports PageTable
begin

text \<open>
  What the processor finds at the addresses the code computes: the four indices of an address
  built by \<open>CONVERT_PAGE_IDX_TO_ADDR\<close>, and the entries reached through slot 510.
\<close>

section \<open>Indices\<close>

lemma bit_small:
  fixes a :: uint16
  assumes "a < 512" "9 \<le> n"
  shows "\<not> bit a n"
proof -
  have "unat a < 2 ^ 9" using assms(1) by (simp add: word_less_nat_alt)
  then have "take_bit 9 (unat a) = unat a" by (rule take_bit_nat_eq_self)
  then have "take_bit 9 a = a" by (simp add: word_unat_eq_iff unsigned_take_bit_eq)
  then show ?thesis using assms(2) by (metis bit_take_bit_iff not_less)
qed

lemma bit_511: "bit (511 :: int) n \<longleftrightarrow> n < 9" "bit (511 :: uint64) n \<longleftrightarrow> n < 9"
proof -
  have "(511 :: int) = mask 9" "(511 :: uint64) = mask 9" by (simp_all add: mask_eq_exp_minus_1 mask_eq_decr_exp)
  then show "bit (511 :: int) n \<longleftrightarrow> n < 9" "bit (511 :: uint64) n \<longleftrightarrow> n < 9"
    by (simp_all only: bit_mask_iff, auto)
qed

lemma bit_CONVERT:
  assumes "a < 512" "b < 512" "c < 512" "d < 512"
  shows "bit (CONVERT_PAGE_IDX_TO_ADDR a b c d) n \<longleftrightarrow>
    (if n < 12 then False else if n < 21 then bit d (n - 12) else if n < 30 then bit c (n - 21)
     else if n < 39 then bit b (n - 30) else if n < 48 then bit a (n - 39) else n < 64 \<and> 256 \<le> a)"
  using assms
  by (auto simp: CONVERT_PAGE_IDX_TO_ADDR_def Let_def bit_simps bit_511 bit_small)

lemma bit_offset:
  fixes w :: uint64
  assumes "w < 4096" "12 \<le> n"
  shows "\<not> bit w n"
proof -
  have "unat w < 2 ^ 12" using assms(1) by (simp add: word_less_nat_alt)
  then have "take_bit 12 (unat w) = unat w" by (rule take_bit_nat_eq_self)
  then have "take_bit 12 w = w" by (simp add: word_unat_eq_iff unsigned_take_bit_eq)
  then show ?thesis using assms(2) by (metis bit_take_bit_iff not_less)
qed

lemma CONVERT_plus:
  assumes "a < 512" "b < 512" "c < 512" "d < 512" "w < 4096"
  shows "CONVERT_PAGE_IDX_TO_ADDR a b c d + w = CONVERT_PAGE_IDX_TO_ADDR a b c d OR w"
  by (rule disjunctive_add_eq_or) (auto simp: bit_eq_iff bit_and_iff bit_CONVERT assms(1-4) bit_offset assms(5))

lemma bit_CONVERT_plus:
  assumes "a < 512" "b < 512" "c < 512" "d < 512" "w < 4096"
  shows "bit (CONVERT_PAGE_IDX_TO_ADDR a b c d + w) n \<longleftrightarrow>
    (if n < 12 then bit w n else if n < 21 then bit d (n - 12) else if n < 30 then bit c (n - 21)
     else if n < 39 then bit b (n - 30) else if n < 48 then bit a (n - 39) else n < 64 \<and> 256 \<le> a)"
  unfolding CONVERT_plus [OF assms] by (auto simp: bit_or_iff bit_CONVERT assms(1-4) bit_offset assms(5))

lemma idx_eqI:
  assumes "a < 512" "\<And>k. k < 9 \<Longrightarrow> bit v (n + k) = bit (a :: uint16) k"
  shows "idx n v = unat a"
proof -
  have "drop_bit n v AND 0x1FF = (ucast a :: uint64)"
  proof (rule bit_eqI)
    fix k
    show "bit (drop_bit n v AND 0x1FF) k \<longleftrightarrow> bit (ucast a :: uint64) k"
      using assms(2) [of k] bit_small [OF assms(1), of k] 
      by (cases "k < 9") (auto simp: bit_simps bit_511)
  qed
  then show ?thesis by (simp add: idx_def unat_ucast_up)
qed

lemma high_bit:
  assumes "a < (512 :: uint16)"
  shows "256 \<le> a \<longleftrightarrow> bit a 8"
proof -
  have q: "unat a div 256 < 2" using assms by (simp add: word_less_nat_alt)
  have "256 \<le> a \<longleftrightarrow> 256 \<le> unat a" by (simp add: word_le_nat_alt)
  also have "\<dots> \<longleftrightarrow> unat a div 256 = 1" using q by (cases "256 \<le> unat a") (auto simp: le_div_geq)
  also have "\<dots> \<longleftrightarrow> odd (unat a div 2 ^ 8)" using q by (cases "unat a div 256") auto
  also have "\<dots> \<longleftrightarrow> bit (unat a) 8" by (simp add: bit_iff_odd)
  finally show ?thesis by (simp add: bit_unsigned_iff)
qed

lemma idx_CONVERT:
  assumes "a < 512" "b < 512" "c < 512" "d < 512" "w < 4096"
  defines "v \<equiv> CONVERT_PAGE_IDX_TO_ADDR a b c d + w"
  shows "idx 39 v = unat a" "idx 30 v = unat b" "idx 21 v = unat c" "idx 12 v = unat d"
    "v AND 0xFFF = w" "canonical v"
proof -
  note B = bit_CONVERT_plus [OF assms(1-5), folded v_def]
  show "idx 39 v = unat a" by (rule idx_eqI [OF assms(1)]) (simp add: B)
  show "idx 30 v = unat b" by (rule idx_eqI [OF assms(2)]) (simp add: B)
  show "idx 21 v = unat c" by (rule idx_eqI [OF assms(3)]) (simp add: B)
  show "idx 12 v = unat d" by (rule idx_eqI [OF assms(4)]) (simp add: B)
  have m: "(0xFFF :: uint64) = mask 12" by (simp add: mask_eq_decr_exp)
  show "v AND 0xFFF = w"
    unfolding m by (rule bit_eqI) (auto simp: bit_and_iff bit_mask_iff B bit_offset assms(5))
  have "drop_bit 47 v = (if 256 \<le> a then mask 17 else 0)"
    using high_bit [OF assms(1)] by (intro bit_eqI) (auto simp: bit_drop_bit_eq B bit_mask_iff le_less)
  then show "canonical v" by (simp add: canonical_def mask_eq_decr_exp)
qed

section \<open>The recursive mapping\<close>

definition pml4 :: "'a paging_scheme \<Rightarrow> addr" where
  "pml4 s = getAddr (cr3 s)"

definition self_map :: "'a paging_scheme \<Rightarrow> bool" where
  "self_map s \<longleftrightarrow> (let e = phys s (entry_at (pml4 s) 510) in isPresent e \<and> getAddr e = pml4 s)"

lemma walk_self: "self_map s \<Longrightarrow> walk (phys s) (pml4 s) (510 # is) = walk (phys s) (pml4 s) is"
  by (simp add: self_map_def Let_def)

lemma walk_Cons_Some:
  "walk m t (i # is) = Some p \<longleftrightarrow> isPresent (m (entry_at t i)) \<and> walk m (getAddr (m (entry_at t i))) is = Some p"
  by (simp add: Let_def)

lemma walk_append: "walk m t (is @ js) = do { p \<leftarrow> walk m t is; walk m p js }"
  by (induction "is" arbitrary: t) (auto simp: Let_def)

lemma mmu_CONVERT:
  assumes "a < 512" "b < 512" "c < 512" "d < 512" "w < 4096"
  shows "mmu s (CONVERT_PAGE_IDX_TO_ADDR a b c d + w) =
     do { t \<leftarrow> walk (phys s) (pml4 s) [unat a, unat b, unat c, unat d]; Some (t + w) }"
  using idx_CONVERT [OF assms] by (simp add: mmu_def pml4_def)

lemma unat_offset: "i < 512 \<Longrightarrow> unat (of_nat (8 * i) :: uint64) = 8 * i"
  by (simp add: unsigned_of_nat take_bit_nat_eq_self del: of_nat_mult)

lemma offset_8:
  assumes "(l :: uint16) < 512"
  shows "t + ucast l * 8 = entry_at t (unat l)" "(of_nat (8 * unat l) :: uint64) < 4096"
proof -
  have l: "unat l < 512" using assms by (simp add: word_less_nat_alt)
  show "t + ucast l * 8 = entry_at t (unat l)" by (simp add: entry_at_def mult.commute)
  show "(of_nat (8 * unat l) :: uint64) < 4096"
    using l by (simp only: word_less_nat_alt unat_offset) simp
qed

text \<open>The four entry addresses lead to the entries on the path, each in the table the ones above give.\<close>

lemma mmu_arr:
  assumes s: "self_map s" and l: "l4 < 512" "l3 < 512" "l2 < 512" "l1 < 512"
  shows "mmu s (virtualAddrArr l4 l3 l2 l1 ! 3) = Some (entry_at (pml4 s) (unat l4))"
    "mmu s (virtualAddrArr l4 l3 l2 l1 ! 2) =
      do { t \<leftarrow> walk (phys s) (pml4 s) [unat l4]; Some (entry_at t (unat l3)) }"
    "mmu s (virtualAddrArr l4 l3 l2 l1 ! Suc 0) =
      do { t \<leftarrow> walk (phys s) (pml4 s) [unat l4, unat l3]; Some (entry_at t (unat l2)) }"
    "mmu s (virtualAddrArr l4 l3 l2 l1 ! 0) =
      do { t \<leftarrow> walk (phys s) (pml4 s) [unat l4, unat l3, unat l2]; Some (entry_at t (unat l1)) }"
proof -
  have n: "(510 :: uint16) < 512" "unat (510 :: uint16) = 510" by simp_all
  note C = mmu_CONVERT [OF _ _ _ _ offset_8(2), folded entry_at_def] and W = walk_self [OF s]
  note simps = virtualAddrArr_def offset_8 W n l
  show "mmu s (virtualAddrArr l4 l3 l2 l1 ! 3) = Some (entry_at (pml4 s) (unat l4))"
    using C [of 510 510 510 510 l4 s] by (simp add: simps del: walk.simps) simp
  show "mmu s (virtualAddrArr l4 l3 l2 l1 ! 2) =
      do { t \<leftarrow> walk (phys s) (pml4 s) [unat l4]; Some (entry_at t (unat l3)) }"
    using C [of 510 510 510 l4 l3 s] by (simp add: simps del: walk.simps)
  show "mmu s (virtualAddrArr l4 l3 l2 l1 ! Suc 0) =
      do { t \<leftarrow> walk (phys s) (pml4 s) [unat l4, unat l3]; Some (entry_at t (unat l2)) }"
    using C [of 510 510 l4 l3 l2 s] by (simp add: simps del: walk.simps)
  show "mmu s (virtualAddrArr l4 l3 l2 l1 ! 0) =
      do { t \<leftarrow> walk (phys s) (pml4 s) [unat l4, unat l3, unat l2]; Some (entry_at t (unat l1)) }"
    using C [of 510 l4 l3 l2 l1 s] by (simp add: simps del: walk.simps)
qed

lemma CONVERT_high:
  assumes "a < 512" "b < 512" "c < 512" "d < 512" "w < 4096" "256 \<le> a"
  shows "CONVERT_PAGE_IDX_TO_ADDR a b c d + w \<noteq> NULL"
proof
  assume "CONVERT_PAGE_IDX_TO_ADDR a b c d + w = NULL"
  then have "\<not> bit (CONVERT_PAGE_IDX_TO_ADDR a b c d + w) 63" by simp
  then show False using bit_CONVERT_plus [OF assms(1-5), of 63] assms(6) by simp
qed

text \<open>
  \<open>_getEntryLevel\<close> for a page: the entry's address when the page is mapped, \<open>NULL\<close> otherwise; it
  never faults.
\<close>

lemma get_loop_page:
  "get_loop arr False 0 4 NULL s =
     do { e \<leftarrow> rd64 (arr ! 3) s;
       if \<not> isPresent e then Some NULL
       else do { e \<leftarrow> rd64 (arr ! 2) s;
         if \<not> isPresent e then Some NULL
         else do { e \<leftarrow> rd64 (arr ! Suc 0) s;
           if \<not> isPresent e then Some NULL
           else do { e \<leftarrow> rd64 (arr ! 0) s; Some (if isPresent e then arr ! 0 else NULL) } } } }"
proof -
  have n: "(4 :: nat) = Suc (Suc (Suc (Suc 0)))" "(3 :: nat) = Suc (Suc (Suc 0))" "(2 :: nat) = Suc (Suc 0)" by simp_all
  show ?thesis unfolding n by (auto intro!: Option.bind_cong)
qed

lemma lookup_page:
  assumes s: "self_map s" and l: "l4 < 512" "l3 < 512" "l2 < 512" "l1 < 512"
  shows "getEntryLevel_idx l4 l3 l2 l1 PAGE s =
     Some (if walk (phys s) (pml4 s) [unat l4, unat l3, unat l2, unat l1] = None then NULL
           else virtualAddrArr l4 l3 l2 l1 ! 0)"
  by (simp add: getEntryLevel_idx_def get_loop_page rd64_def mmu_arr [OF s l] Let_def)

lemma arr_not_null:
  assumes l: "l4 < 512" "l3 < 512" "l2 < 512" "l1 < 512"
  shows "virtualAddrArr l4 l3 l2 l1 ! 0 \<noteq> NULL"
  using CONVERT_high [of 510 l4 l3 l2 "of_nat (8 * unat l1)", folded entry_at_def] l offset_8 [OF l(4)]
  by (simp add: virtualAddrArr_def)

text \<open>Index 512 of a table is index 0 of the next, when that table is mapped; else a page fault.\<close>

lemma CONVERT_linear:
  assumes "a < 512" "b < 512" "c < 512" "d < 512"
  shows "CONVERT_PAGE_IDX_TO_ADDR a b c d = CONVERT_PAGE_IDX_TO_ADDR a b 0 0 + (ucast c * 512 + ucast d) * 4096"
proof -
  let ?C = "CONVERT_PAGE_IDX_TO_ADDR a b"
  have d: "?C c d = ?C c 0 + push_bit 12 (ucast d)"
  proof -
    have "\<not> bit (?C c 0) n \<or> \<not> bit (push_bit 12 (ucast d) :: uint64) n" for n
      using bit_CONVERT [OF assms(1-3), of 0 n] bit_small [OF assms(4), of "n - 12"]
      by (cases "n < 21") (auto simp: bit_simps)
    then have "?C c 0 + push_bit 12 (ucast d) = ?C c 0 OR push_bit 12 (ucast d)"
      by (intro disjunctive_add_eq_or bit_eqI) (simp only: bit_and_iff bit_0_eq bot_apply bot_bool_def, blast)
    also have "\<dots> = ?C c d"
      by (rule bit_eqI) (auto simp: bit_simps bit_CONVERT assms bit_small)
    finally show ?thesis by simp
  qed
  have "\<not> bit (?C 0 0) n \<or> \<not> bit (push_bit 21 (ucast c) :: uint64) n" for n
    using bit_CONVERT [OF assms(1,2), of 0 0 n] bit_small [OF assms(3), of "n - 21"]
    by (cases "n < 30") (auto simp: bit_simps)
  then have "?C 0 0 + push_bit 21 (ucast c) = ?C 0 0 OR push_bit 21 (ucast c)"
    by (intro disjunctive_add_eq_or bit_eqI) (simp only: bit_and_iff bit_0_eq bot_apply bot_bool_def, blast)
  also have "\<dots> = ?C c 0"
    by (rule bit_eqI) (auto simp: bit_simps bit_CONVERT assms bit_small)
  finally show ?thesis unfolding d by (simp add: push_bit_eq_mult algebra_simps)
qed

lemma ucast_Suc: "(d :: uint16) < 511 \<Longrightarrow> (ucast (d + 1) :: uint64) = ucast d + 1"
  by (rule word_unat_eq_iff [THEN iffD2])
    (simp add: unat_ucast_up unat_add_no_wrap word_less_nat_alt)

lemma CONVERT_next:
  assumes "a < 512" "b < 512" "c < 512" "d < 511"
  shows "CONVERT_PAGE_IDX_TO_ADDR a b c d + 4096 = CONVERT_PAGE_IDX_TO_ADDR a b c (d + 1)"
proof -
  have d: "d < 512" "d + 1 < 512" using assms(4) by (auto simp: word_less_nat_alt unat_add_no_wrap)
  show ?thesis
    unfolding CONVERT_linear [OF assms(1-3) d(1)] CONVERT_linear [OF assms(1-3) d(2)] ucast_Suc [OF assms(4)]
    by (simp add: algebra_simps)
qed

lemma lookup_512:
  assumes s: "self_map s" and l: "l4 < 512" "l3 < 512" "l2 < 511"
    and t: "walk (phys s) (pml4 s) [unat l4, unat l3, unat l2] \<noteq> None"
  shows "getEntryLevel_idx l4 l3 l2 512 PAGE s =
     (if walk (phys s) (pml4 s) [unat l4, unat l3, unat (l2 + 1)] = None then None
      else Some (if walk (phys s) (pml4 s) [unat l4, unat l3, unat (l2 + 1), 0] = None then NULL
           else virtualAddrArr l4 l3 (l2 + 1) 0 ! 0))"
proof -
  have l2: "l2 < 512" "l2 + 1 < 512" using l(3) by (auto simp: word_less_nat_alt unat_add_no_wrap)
  let ?a = "virtualAddrArr l4 l3 l2 512"
  have e: "?a ! 3 = virtualAddrArr l4 l3 l2 0 ! 3" "?a ! 2 = virtualAddrArr l4 l3 l2 0 ! 2"
     "?a ! Suc 0 = virtualAddrArr l4 l3 l2 0 ! Suc 0" "?a ! 0 = virtualAddrArr l4 l3 (l2 + 1) 0 ! 0"
    using CONVERT_next [of 510 l4 l3 l2] l by (simp_all add: virtualAddrArr_def)
  show ?thesis
    using t by (auto simp: getEntryLevel_idx_def get_loop_page rd64_def e mmu_arr [OF s l(1,2) l2(1)]
      mmu_arr [OF s l(1,2) l2(2)] Let_def split: if_splits)
qed

end
