(* ===== verification/FrameAlloc_Lists.thy ===== *)
theory FrameAlloc_Lists
  imports FrameAlloc
begin

text \<open>
  Lemmas on the frame allocator's data: ranges of pages and how they touch, the linked list of
  ranges and what a change of one node leaves alone, the buffer of 64 frames.
\<close>

section \<open>Ranges\<close>

lemma unat_PAGE_SIZE [simp]: "unat PAGE_SIZE = 4096"
  by (simp add: PAGE_SIZE_def)

lemma space_okD:
  assumes "space_ok m"
  shows "4096 dvd unat (sp_base m)" "4096 dvd unat (sp_size m)" "unat (sp_base m) + unat (sp_size m) < 2 ^ 64"
  using assms by (auto simp: space_ok_def space_end_def)

lemma set_pages_of:
  assumes "space_ok m"
  shows "set (pages_of m) = {p. unat (sp_base m) \<le> p \<and> p < space_end m \<and> 4096 dvd p}"
proof -
  obtain b n where b: "unat (sp_base m) = 4096 * b" "unat (sp_size m) = 4096 * n"
    using space_okD(1,2) [OF assms] by (auto elim!: dvdE)
  have "(\<exists>k<n. p = 4096 * b + 4096 * k) \<longleftrightarrow> 4096 * b \<le> p \<and> p < 4096 * b + 4096 * n \<and> 4096 dvd p" for p
  proof
    assume r: "4096 * b \<le> p \<and> p < 4096 * b + 4096 * n \<and> 4096 dvd p"
    then obtain q where "p = 4096 * q" by (auto elim!: dvdE)
    then show "\<exists>k<n. p = 4096 * b + 4096 * k" using r by (intro exI [of _ "q - b"]) auto
  qed auto
  then show ?thesis unfolding pages_of_def space_end_def by (auto simp: b image_iff Bex_def)
qed

lemma distinct_pages_of: "distinct (pages_of m)"
  by (simp add: pages_of_def distinct_map inj_on_def)

lemma pages_of_empty: "space_ok m \<Longrightarrow> unat (sp_size m) < 4096 \<Longrightarrow> set (pages_of m) = {}"
  by (simp add: pages_of_def)

text \<open>Two ranges that touch are one range.\<close>

lemma join_spaces:
  assumes "space_ok a" "space_ok b" "space_end a = unat (sp_base b)"
    and "c = a\<lparr>sp_size := (sp_base b + sp_size b) - sp_base a\<rparr>"
  shows "space_ok c" "space_end c = space_end b" "set (pages_of c) = set (pages_of a) \<union> set (pages_of b)"
proof -
  note A = space_okD [OF assms(1)] and B = space_okD [OF assms(2)]
  have e: "unat (sp_base b + sp_size b) = space_end b"
    using B(3) by (subst unat_add_no_wrap) (auto simp: space_end_def)
  have le: "unat (sp_base a) \<le> space_end b" using assms(3) by (simp add: space_end_def)
  have "unat (sp_size c) = space_end b - unat (sp_base a)"
    unfolding assms(4) using e le by (simp add: unat_sub_le)
  moreover have ba: "sp_base c = sp_base a" unfolding assms(4) by simp
  ultimately show ec: "space_end c = space_end b" using le by (simp add: space_end_def)
  show c: "space_ok c"
    using A B ec \<open>unat (sp_size c) = _\<close> ba le by (auto simp: space_ok_def space_end_def intro!: dvd_diff_nat)
  have "unat (sp_base b) \<le> space_end b" "unat (sp_base a) \<le> space_end a" by (simp_all add: space_end_def)
  then show "set (pages_of c) = set (pages_of a) \<union> set (pages_of b)"
    unfolding set_pages_of [OF c] set_pages_of [OF assms(1)] set_pages_of [OF assms(2)] ec ba
    using assms(3) by auto
qed

text \<open>Taking the first page of a range.\<close>

definition drop_page :: "memory_space \<Rightarrow> memory_space" where
  "drop_page m = m\<lparr>sp_base := sp_base m + PAGE_SIZE, sp_size := sp_size m - PAGE_SIZE\<rparr>"

lemma drop_page_ok:
  assumes "space_ok m" "4096 \<le> unat (sp_size m)"
  shows "space_ok (drop_page m)" "space_end (drop_page m) = space_end m"
    "unat (sp_base (drop_page m)) = unat (sp_base m) + 4096" "unat (sp_size (drop_page m)) = unat (sp_size m) - 4096"
    "set (pages_of m) = insert (unat (sp_base m)) (set (pages_of (drop_page m)))"
    "unat (sp_base m) \<notin> set (pages_of (drop_page m))"
proof -
  note O = space_okD [OF assms(1)]
  show b: "unat (sp_base (drop_page m)) = unat (sp_base m) + 4096"
    using O(3) assms(2) unfolding drop_page_def by (simp, subst unat_add_no_wrap) simp_all
  show z: "unat (sp_size (drop_page m)) = unat (sp_size m) - 4096"
    using assms(2) by (simp add: drop_page_def unat_sub_le)
  show e: "space_end (drop_page m) = space_end m" using b z assms(2) by (simp add: space_end_def)
  show k: "space_ok (drop_page m)" using assms O b z e by (auto simp: space_ok_def space_end_def)
  have step: "p = unat (sp_base m) \<or> unat (sp_base m) + 4096 \<le> p" if p: "4096 dvd p" "unat (sp_base m) \<le> p" for p
  proof -
    obtain i j where "p = 4096 * i" "unat (sp_base m) = 4096 * j" using p(1) O(1) by (auto elim!: dvdE)
    then show ?thesis using p(2) by (cases "i = j") auto
  qed
  have less: "unat (sp_base m) < space_end m" using assms(2) by (simp add: space_end_def)
  have "p \<in> set (pages_of m) \<longleftrightarrow> p \<in> insert (unat (sp_base m)) (set (pages_of (drop_page m)))" for p
    unfolding set_pages_of [OF assms(1)] set_pages_of [OF k] e b insert_iff mem_Collect_eq
    using O(1) less step [of p] by (cases "p = unat (sp_base m)") (simp_all, linarith)
  then show "set (pages_of m) = insert (unat (sp_base m)) (set (pages_of (drop_page m)))" by blast
  show "unat (sp_base m) \<notin> set (pages_of (drop_page m))" unfolding set_pages_of [OF k] b by simp
qed

section \<open>Frames of a state\<close>

lemma more_frames:
  assumes "liballoc.more s' = liballoc.more (s :: 'a frames_scheme)"
  shows "nodes s' = nodes s" "qtd_buffer s' = qtd_buffer s" "frame_buffer s' = frame_buffer s"
    "avaliableMemory s' = avaliableMemory s" "frame_lock0 s' = frame_lock0 s" "frame_lock1 s' = frame_lock1 s"
    "frames.more s' = frames.more s"
  using assms by (cases s; cases s'; simp)+

text \<open>Everything of the allocator but the nodes.\<close>

definition same_frames :: "'a frames_scheme \<Rightarrow> 'a frames_scheme \<Rightarrow> bool" where
  "same_frames s s' \<longleftrightarrow> qtd_buffer s' = qtd_buffer s \<and> frame_buffer s' = frame_buffer s \<and>
     avaliableMemory s' = avaliableMemory s \<and> frame_lock0 s' = frame_lock0 s \<and> frame_lock1 s' = frame_lock1 s \<and>
     frames.more s' = frames.more s"

lemma same_frames_trans: "same_frames s t \<Longrightarrow> same_frames t u \<Longrightarrow> same_frames s u"
  by (simp add: same_frames_def)

lemma same_frames_buffered: "same_frames s s' \<Longrightarrow> buffered s' = buffered s"
  by (simp add: same_frames_def buffered_def)

lemma chain_cong:
  assumes "\<And>a. a \<in> set ns \<Longrightarrow> next_frame (m' a) = next_frame (m a)"
  shows "chain m' p ns = chain m p ns"
  using assms by (induction ns arbitrary: p) auto

lemma chain_unique: "chain m p xs \<Longrightarrow> chain m p ys \<Longrightarrow> xs = ys"
proof (induction xs arbitrary: p ys)
  case Nil
  then show ?case by (cases ys) auto
next
  case (Cons a xs)
  then show ?case by (cases ys) auto
qed

lemma chain_NULL: "chain m p ns \<Longrightarrow> NULL \<notin> set ns"
  by (induction ns arbitrary: p) auto

lemma chain_head: "chain m p ns \<Longrightarrow> ns \<noteq> [] \<Longrightarrow> p = hd ns"
  by (cases ns) auto

lemma in_order_Cons:
  "in_order m (a # ns) \<longleftrightarrow> (\<forall>b \<in> set ns. space_end (fdata (m a)) \<le> unat (sp_base (fdata (m b)))) \<and> in_order m ns"
  by (simp add: in_order_def)

lemma in_order_cong:
  "(\<And>a. a \<in> set ns \<Longrightarrow> fdata (m' a) = fdata (m a)) \<Longrightarrow> in_order m' ns = in_order m ns"
  by (induction ns) (simp_all add: in_order_def)

lemma set_listed: "set (listed m ns) = (\<Union>a \<in> set ns. set (pages_of (fdata (m a))))"
  by (simp add: listed_def)

lemma set_listed_Cons: "set (listed m (a # ns)) = set (pages_of (fdata (m a))) \<union> set (listed m ns)"
  by (simp add: listed_def)

lemma listed_cong:
  "(\<And>a. a \<in> set ns \<Longrightarrow> fdata (m' a) = fdata (m a)) \<Longrightarrow> set (listed m' ns) = set (listed m ns)"
  by (simp add: set_listed)

lemma listed_upd:
  assumes "l \<notin> set ns"
  shows "set (listed (m(l := x)) ns) = set (listed m ns)"
proof (rule listed_cong)
  fix a assume "a \<in> set ns"
  then have "a \<noteq> l" using assms by auto
  then show "fdata ((m(l := x)) a) = fdata (m a)" by simp
qed

text \<open>A part of the list: linked, apart, in order, every range well formed.\<close>

definition part_ok :: "(addr \<Rightarrow> list_frame) \<Rightarrow> addr \<Rightarrow> addr list \<Rightarrow> bool" where
  "part_ok m p ns \<longleftrightarrow> chain m p ns \<and> distinct ns \<and> in_order m ns \<and> (\<forall>a \<in> set ns. space_ok (fdata (m a)))"

lemma part_ok_Cons:
  "part_ok m p (a # ns) \<longleftrightarrow> p = a \<and> a \<noteq> NULL \<and> a \<notin> set ns \<and> space_ok (fdata (m a)) \<and>
     (\<forall>b \<in> set ns. space_end (fdata (m a)) \<le> unat (sp_base (fdata (m b)))) \<and> part_ok m (next_frame (m a)) ns"
  by (auto simp: part_ok_def in_order_Cons)

lemma part_ok_cong:
  "(\<And>a. a \<in> set ns \<Longrightarrow> m' a = m a) \<Longrightarrow> part_ok m' p ns = part_ok m p ns"
  using chain_cong [of ns m' m p] in_order_cong [of ns m' m] by (simp add: part_ok_def)

lemma part_ok_upd: "l \<notin> set ns \<Longrightarrow> part_ok (m(l := x)) p ns = part_ok m p ns"
  by (rule part_ok_cong) auto

lemma frames_inv_part:
  "frames_inv s ns \<longleftrightarrow> part_ok (nodes s) (avaliableMemory s) ns \<and> unat (qtd_buffer s) \<le> MAX_BUFFER_FRAMES \<and>
     length (frame_buffer s) = BUFFER_ENTRIES \<and> (\<forall>f \<in> set (buffered s). 4096 dvd f) \<and> distinct (buffered s) \<and>
     set (buffered s) \<inter> set (listed (nodes s) ns) = {}"
  by (auto simp: frames_inv_def part_ok_def)

text \<open>One turn of the merging loop.\<close>

lemma merge_next_step:
  assumes "l \<noteq> NULL" "next_frame (nodes s l) = b" "b \<noteq> NULL"
    and "sp_base (fdata (nodes s b)) \<le> sp_base (fdata (nodes s l)) + sp_size (fdata (nodes s l))"
  shows "merge_next ff l s = do {
     s \<leftarrow> ff b (unlock1 (s\<lparr>nodes := (nodes s)(l := \<lparr>fdata = (fdata (nodes s l))\<lparr>sp_size :=
            (sp_base (fdata (nodes s b)) + sp_size (fdata (nodes s b))) - sp_base (fdata (nodes s l))\<rparr>,
          next_frame = next_frame (nodes s b)\<rparr>)\<rparr>));
     s \<leftarrow> lock1 s; merge_next ff l s }"
proof -
  have "(nodes s)(l := (nodes s l)\<lparr>fdata := c\<rparr>, l := (nodes s l)\<lparr>fdata := c, next_frame := d\<rparr>) =
     (nodes s)(l := \<lparr>fdata = c, next_frame = d\<rparr>)" for c d
    by (auto simp: fun_eq_iff)
  then show ?thesis using assms by (subst merge_next.simps) (simp add: rdn_def updn_def Let_def)
qed

section \<open>The buffer\<close>

lemma buffered_push:
  assumes "unat (qtd_buffer s) < BUFFER_ENTRIES" "length (frame_buffer s) = BUFFER_ENTRIES"
  shows "buffered (s\<lparr>frame_buffer := (frame_buffer s)[unat (qtd_buffer s) := f], qtd_buffer := qtd_buffer s + 1\<rparr>) =
    buffered s @ [unat f]"
proof -
  have "unat (qtd_buffer s + 1) = unat (qtd_buffer s) + 1"
    using assms(1) by (subst unat_add_no_wrap) (auto simp: BUFFER_ENTRIES_def MAX_BUFFER_FRAMES_def)
  then show ?thesis using assms by (simp add: buffered_def take_Suc_conv_app_nth)
qed

lemma page_mask_id:
  assumes "4096 dvd unat (f :: uint64)"
  shows "f AND PAGE_MASK = f"
proof -
  have "unat (take_bit 12 f) = take_bit 12 (unat f)" by (rule unsigned_take_bit_eq)
  then have "take_bit 12 f = 0" using assms by (simp add: take_bit_eq_mod unat_eq_0 [symmetric])
  then have "\<not> bit f n" if "n < 12" for n
    using that by (metis bit_take_bit_iff bit_0_eq bot_apply bot_bool_def)
  then show ?thesis by (intro bit_eqI) (auto simp: bit_and_iff bit_PAGE_MASK not_less [symmetric])
qed

definition push_frame :: "uint64 \<Rightarrow> 'a frames_scheme \<Rightarrow> 'a frames_scheme" where
  "push_frame f s = s\<lparr>frame_buffer := (frame_buffer s)[unat (qtd_buffer s) := f], qtd_buffer := qtd_buffer s + 1\<rparr>"

lemma push_frame_simps [simp]:
  "nodes (push_frame f s) = nodes s" "avaliableMemory (push_frame f s) = avaliableMemory s"
  "frame_lock0 (push_frame f s) = frame_lock0 s" "frame_lock1 (push_frame f s) = frame_lock1 s"
  "frames.more (push_frame f s) = frames.more s" "same_heap s (push_frame f s)"
  by (auto simp: push_frame_def same_heap_def)

lemma addFrameInBuffer_eq:
  assumes "unat (qtd_buffer s) < BUFFER_ENTRIES" "frame_lock0 s = 0" "4096 dvd unat f"
  shows "addFrameInBuffer f s = Some (push_frame f s)"
  using assms by (simp add: addFrameInBuffer_def lock0_def unlock0_def page_mask_id push_frame_def)

lemma push_frame_ok:
  assumes inv: "frames_inv s ns" and q: "unat (qtd_buffer s) < MAX_BUFFER_FRAMES"
    and f: "4096 dvd unat f" "unat f \<notin> free_frames s ns"
  shows "frames_inv (push_frame f s) ns" "free_frames (push_frame f s) ns = insert (unat f) (free_frames s ns)"
    "unat (qtd_buffer (push_frame f s)) = unat (qtd_buffer s) + 1"
proof -
  have "unat (qtd_buffer s) < BUFFER_ENTRIES" using q by (simp add: BUFFER_ENTRIES_def)
  then have b: "buffered (push_frame f s) = buffered s @ [unat f]"
    unfolding push_frame_def by (rule buffered_push) (use inv in \<open>simp add: frames_inv_def\<close>)
  show u: "unat (qtd_buffer (push_frame f s)) = unat (qtd_buffer s) + 1"
    using q by (simp add: push_frame_def) (subst unat_add_no_wrap, auto simp: MAX_BUFFER_FRAMES_def)
  have "length (frame_buffer (push_frame f s)) = length (frame_buffer s)" by (simp add: push_frame_def)
  then show "frames_inv (push_frame f s) ns"
    using inv q f b u unfolding frames_inv_def free_frames_def by auto
  show "free_frames (push_frame f s) ns = insert (unat f) (free_frames s ns)"
    using b by (simp add: free_frames_def)
qed

end
