(* ===== verification/FrameAlloc_Correct.thy ===== *)
theory FrameAlloc_Correct
  imports FrameAlloc_Lists
begin

text \<open>
  Correctness of the frame allocator for every heap that keeps its nodes (the locale
  \<open>node_heap\<close>): \<open>allocate\<close> hands out a frame that was free and no other change happens to the set
  of free frames, \<open>addMemorySpace\<close> adds exactly the pages of its argument.
\<close>

section \<open>The heap the nodes live in\<close>

text \<open>What moved when frames were taken: ranges only lose pages at their start.\<close>

definition narrower :: "'a frames_scheme \<Rightarrow> 'a frames_scheme \<Rightarrow> addr list \<Rightarrow> bool" where
  "narrower s s' ns \<longleftrightarrow> (\<forall>a \<in> set ns. unat (sp_base (fdata (nodes s a))) \<le> unat (sp_base (fdata (nodes s' a))) \<and>
     space_end (fdata (nodes s' a)) = space_end (fdata (nodes s a)))"

lemma narrower_trans:
  assumes "narrower s t ns" "narrower t u ns'" "set ns' \<subseteq> set ns"
  shows "narrower s u ns'"
  using assms unfolding narrower_def by (auto dest!: bspec intro: le_trans)

text \<open>Moving the first page of the first range to the buffer.\<close>

lemma take_head:
  assumes inv: "frames_inv s (a # ns)" and q: "unat (qtd_buffer s) < MAX_BUFFER_FRAMES" and l: "frame_lock0 s = 0"
    and z: "4096 \<le> unat (sp_size (fdata (nodes s a)))"
  shows "\<exists>s'. (do { s \<leftarrow> addFrameInBuffer (sp_base (fdata (nodes s a))) s;
        s \<leftarrow> updn (avaliableMemory s) (\<lambda>n. n\<lparr>fdata := (fdata n)\<lparr>sp_base := sp_base (fdata n) + PAGE_SIZE\<rparr>\<rparr>) s;
        updn (avaliableMemory s) (\<lambda>n. n\<lparr>fdata := (fdata n)\<lparr>sp_size := sp_size (fdata n) - PAGE_SIZE\<rparr>\<rparr>) s }) = Some s' \<and>
     frames_inv s' (a # ns) \<and> free_frames s' (a # ns) = free_frames s (a # ns) \<and> narrower s s' (a # ns) \<and>
     unat (qtd_buffer s') = unat (qtd_buffer s) + 1 \<and>
     s' = s\<lparr>qtd_buffer := qtd_buffer s', frame_buffer := frame_buffer s', nodes := nodes s'\<rparr> \<and>
     unat (sp_size (fdata (nodes s' a))) = unat (sp_size (fdata (nodes s a))) - 4096"
proof -
  let ?m = "fdata (nodes s a)"
  have I: "part_ok (nodes s) (avaliableMemory s) (a # ns)"
     "set (buffered s) \<inter> set (listed (nodes s) (a # ns)) = {}" "distinct (buffered s)"
    using inv frames_inv_part [of s "a # ns"] by blast+
  have P: "avaliableMemory s = a" "a \<noteq> NULL" "a \<notin> set ns" "space_ok ?m"
     "\<forall>b \<in> set ns. space_end ?m \<le> unat (sp_base (fdata (nodes s b)))" "part_ok (nodes s) (next_frame (nodes s a)) ns"
    using I(1) by (auto simp: part_ok_Cons)
  note D = drop_page_ok [OF P(4) z]
  let ?f = "sp_base ?m"
  let ?s0 = "s\<lparr>nodes := (nodes s)(a := (nodes s a)\<lparr>fdata := drop_page ?m\<rparr>)\<rparr>"
  have f: "4096 dvd unat ?f" using space_okD(1) [OF P(4)] .
  have "unat (sp_base ?m) \<notin> set (listed (nodes s) ns)"
    using P(5) z by (force simp: set_listed space_end_def pages_of_def)
  moreover have l0: "set (listed (nodes ?s0) (a # ns)) = set (pages_of (drop_page ?m)) \<union> set (listed (nodes s) ns)"
    using listed_upd [OF P(3)] by (simp add: set_listed_Cons)
  moreover have lf: "set (listed (nodes s) (a # ns)) = insert (unat ?f) (set (listed (nodes ?s0) (a # ns)))"
    unfolding l0 by (simp add: set_listed_Cons D(5))
  moreover have b0: "buffered ?s0 = buffered s" by (simp add: buffered_def)
  ultimately have nf: "unat ?f \<notin> free_frames ?s0 (a # ns)"
    using I(2) D(6) unfolding free_frames_def by auto
  have "part_ok (nodes ?s0) a (a # ns)"
    using P part_ok_upd [OF P(3)] D(1,2) by (auto simp: part_ok_Cons)
  then have inv0: "frames_inv ?s0 (a # ns)"
    using inv I(2) b0 lf P(1) unfolding frames_inv_part by auto
  have q0: "unat (qtd_buffer ?s0) < MAX_BUFFER_FRAMES" using q by simp
  note push = push_frame_ok [OF inv0 q0 f nf]
  have "unat (qtd_buffer s) < BUFFER_ENTRIES" using q by (simp add: BUFFER_ENTRIES_def)
  note add = addFrameInBuffer_eq [OF this l f]
  show ?thesis
  proof (intro exI [of _ "push_frame ?f ?s0"] conjI)
    show "(do { s \<leftarrow> addFrameInBuffer ?f s;
        s \<leftarrow> updn (avaliableMemory s) (\<lambda>n. n\<lparr>fdata := (fdata n)\<lparr>sp_base := sp_base (fdata n) + PAGE_SIZE\<rparr>\<rparr>) s;
        updn (avaliableMemory s) (\<lambda>n. n\<lparr>fdata := (fdata n)\<lparr>sp_size := sp_size (fdata n) - PAGE_SIZE\<rparr>\<rparr>) s }) =
        Some (push_frame ?f ?s0)"
      using P(1,2) by (simp add: add updn_def push_frame_def drop_page_def fun_upd_def [symmetric])
    show "free_frames (push_frame ?f ?s0) (a # ns) = free_frames s (a # ns)"
      using push(2) lf b0 by (auto simp: free_frames_def)
    show "narrower s (push_frame ?f ?s0) (a # ns)" using D(2,3) by (simp add: narrower_def)
    show "unat (qtd_buffer (push_frame ?f ?s0)) = unat (qtd_buffer s) + 1" using push(3) by simp
    show "unat (sp_size (fdata (nodes (push_frame ?f ?s0) a))) = unat (sp_size ?m) - 4096"
      using z by (simp add: push_frame_def drop_page_def unat_sub_le)
  qed (use push(1) in \<open>simp_all add: push_frame_def\<close>)
qed

text \<open>
  While the first range has the pages, loading the buffer takes them all from there: it ends with the
  buffer full, and no node is freed.
\<close>

definition head_pages :: "'a frames_scheme \<Rightarrow> nat" where
  "head_pages s = (if avaliableMemory s = NULL then 0 else unat (sp_size (fdata (nodes s (avaliableMemory s)))) div 4096)"

lemma load_from_head:
  assumes "frames_inv s ns" "frame_lock0 s = 0" "unat (qtd_buffer s) + k = MAX_BUFFER_FRAMES" "k \<le> head_pages s"
  shows "\<exists>s'. loadBuffer_loop ff s = Some s' \<and> frames_inv s' ns \<and> unat (qtd_buffer s') = MAX_BUFFER_FRAMES \<and>
    head_pages s' = head_pages s - k \<and> frame_lock0 s' = 0"
  using assms
proof (induction k arbitrary: s)
  case 0
  then have "loadBuffer_loop ff s = Some s" by (subst loadBuffer_loop.simps) simp
  then show ?case using 0 by simp
next
  case (Suc k)
  have q: "unat (qtd_buffer s) < MAX_BUFFER_FRAMES" using Suc.prems(3) by simp
  have n: "avaliableMemory s \<noteq> NULL" "Suc k \<le> unat (sp_size (fdata (nodes s (avaliableMemory s)))) div 4096"
    using Suc.prems(4) by (auto simp: head_pages_def split: if_splits)
  have "1 \<le> unat (sp_size (fdata (nodes s (avaliableMemory s)))) div 4096" using n(2) by simp
  then have z: "4096 \<le> unat (sp_size (fdata (nodes s (avaliableMemory s))))" by (simp add: less_eq_div_iff_mult_less_eq)
  obtain ms where ns: "ns = avaliableMemory s # ms" using Suc.prems(1) n(1) by (cases ns) (auto simp: frames_inv_def)
  let ?a = "avaliableMemory s"
  from take_head [OF Suc.prems(1) [unfolded ns] q Suc.prems(2) z] obtain s1 where
    T: "(do { s \<leftarrow> addFrameInBuffer (sp_base (fdata (nodes s ?a))) s;
        s \<leftarrow> updn (avaliableMemory s) (\<lambda>n. n\<lparr>fdata := (fdata n)\<lparr>sp_base := sp_base (fdata n) + PAGE_SIZE\<rparr>\<rparr>) s;
        updn (avaliableMemory s) (\<lambda>n. n\<lparr>fdata := (fdata n)\<lparr>sp_size := sp_size (fdata n) - PAGE_SIZE\<rparr>\<rparr>) s }) = Some s1"
      "frames_inv s1 ns" "unat (qtd_buffer s1) = unat (qtd_buffer s) + 1"
      "s1 = s\<lparr>qtd_buffer := qtd_buffer s1, frame_buffer := frame_buffer s1, nodes := nodes s1\<rparr>"
      "unat (sp_size (fdata (nodes s1 ?a))) = unat (sp_size (fdata (nodes s ?a))) - 4096"
    unfolding ns by blast
  have e: "avaliableMemory s1 = ?a" "frame_lock0 s1 = 0" by (subst T(4), simp add: Suc.prems(2))+
  have "(unat (sp_size (fdata (nodes s ?a))) - 4096) div 4096 = unat (sp_size (fdata (nodes s ?a))) div 4096 - 1"
  proof -
    obtain r where "unat (sp_size (fdata (nodes s ?a))) = 4096 + r" using z le_Suc_ex by blast
    then show ?thesis by simp
  qed
  then have h: "head_pages s1 = head_pages s - 1" using n(1) T(5) e(1) by (simp add: head_pages_def)
  have "\<not> sp_size (fdata (nodes s ?a)) < PAGE_SIZE" using z by (simp add: word_less_nat_alt)
  then have step: "loadBuffer_loop ff s = loadBuffer_loop ff s1"
    using q n(1) T(1) by (subst loadBuffer_loop.simps) (auto simp: rdn_def Let_def bind_eq_Some_conv)
  have "unat (qtd_buffer s1) + k = MAX_BUFFER_FRAMES" "k \<le> head_pages s1" using T(3) h Suc.prems(3,4) by simp_all
  from Suc.IH [OF T(2) e(2) this] show ?case unfolding step h by simp
qed

text \<open>Handing out the last frame of the buffer.\<close>

lemma pop_frame:
  assumes inv: "frames_inv s ns" and q: "0 < unat (qtd_buffer s)"
    and f: "f = frame_buffer s ! unat (qtd_buffer s - 1)" "s' = s\<lparr>qtd_buffer := qtd_buffer s - 1\<rparr>"
  shows "frames_inv s' ns" "unat f \<in> free_frames s ns" "free_frames s' ns = free_frames s ns - {unat f}"
proof -
  obtain k where k: "unat (qtd_buffer s) = Suc k" using q by (cases "unat (qtd_buffer s)") auto
  then have k': "unat (qtd_buffer s - 1) = k" by (simp add: unat_sub_le)
  have "k < length (frame_buffer s)"
    using inv k by (simp add: frames_inv_def BUFFER_ENTRIES_def)
  then have b: "buffered s = buffered s' @ [unat f]"
    by (simp add: buffered_def f k k' take_Suc_conv_app_nth)
  show "unat f \<in> free_frames s ns" using b by (simp add: free_frames_def)
  show "frames_inv s' ns"
    using inv b k k' unfolding frames_inv_part f(2) by auto
  show "free_frames s' ns = free_frames s ns - {unat f}"
    using inv b unfolding frames_inv_part free_frames_def f(2) by auto
qed

text \<open>The first loop of \<open>addMemorySpace\<close> always ends; it moves pages of the range to the buffer.\<close>

lemma fill_buffer_ok:
  assumes "frames_inv s ns" "frame_lock0 s = 0" "space_ok m" "set (pages_of m) \<inter> free_frames s ns = {}"
  shows "\<exists>m' s'. fill_buffer m s = Some (m', s') \<and> frames_inv s' ns \<and> space_ok m' \<and> space_end m' = space_end m \<and>
     unat (sp_base m) \<le> unat (sp_base m') \<and> free_frames s' ns \<union> set (pages_of m') = free_frames s ns \<union> set (pages_of m) \<and>
     set (pages_of m') \<inter> free_frames s' ns = {} \<and>
     s' = s\<lparr>qtd_buffer := qtd_buffer s', frame_buffer := frame_buffer s'\<rparr>"
  using assms
proof (induction "MAX_BUFFER_FRAMES - unat (qtd_buffer s)" arbitrary: s m rule: less_induct)
  case less
  show ?case
  proof (cases "PAGE_SIZE < sp_size m \<and> unat (qtd_buffer s) < MAX_BUFFER_FRAMES")
    case False
    then have "fill_buffer m s = Some (m, s)" by (subst fill_buffer.simps) (simp only: if_False)
    then show ?thesis using less.prems by auto
  next
    case True
    then have z: "4096 \<le> unat (sp_size m)" and q: "unat (qtd_buffer s) < MAX_BUFFER_FRAMES"
      by (simp_all add: word_less_nat_alt)
    note D = drop_page_ok [OF less.prems(3) z]
    have f: "4096 dvd unat (sp_base m)" "unat (sp_base m) \<notin> free_frames s ns"
      using space_okD(1) [OF less.prems(3)] less.prems(4) D(5) by auto
    note P = push_frame_ok [OF less.prems(1) q f]
    have "unat (qtd_buffer s) < BUFFER_ENTRIES" using q by (simp add: BUFFER_ENTRIES_def)
    from addFrameInBuffer_eq [OF this less.prems(2) f(1)]
    have step: "fill_buffer m s = fill_buffer (drop_page m) (push_frame (sp_base m) s)"
      using True by (subst fill_buffer.simps) (simp add: drop_page_def)
    have lt: "MAX_BUFFER_FRAMES - unat (qtd_buffer (push_frame (sp_base m) s)) < MAX_BUFFER_FRAMES - unat (qtd_buffer s)"
      using q P(3) by linarith
    have l: "frame_lock0 (push_frame (sp_base m) s) = 0" using less.prems(2) by simp
    have "set (pages_of (drop_page m)) \<inter> free_frames (push_frame (sp_base m) s) ns = {}"
      using less.prems(4) D(5,6) P(2) by auto
    from less.hyps [OF lt P(1) l D(1) this] obtain m' s' where
      R: "fill_buffer (drop_page m) (push_frame (sp_base m) s) = Some (m', s')" "frames_inv s' ns" "space_ok m'"
        "space_end m' = space_end m" "unat (sp_base (drop_page m)) \<le> unat (sp_base m')"
        "free_frames s' ns \<union> set (pages_of m') = free_frames s ns \<union> set (pages_of m)"
        "set (pages_of m') \<inter> free_frames s' ns = {}"
        "s' = (push_frame (sp_base m) s)\<lparr>qtd_buffer := qtd_buffer s', frame_buffer := frame_buffer s'\<rparr>"
      using D(2,5) P(2) by auto
    have "s' = s\<lparr>qtd_buffer := qtd_buffer s', frame_buffer := frame_buffer s'\<rparr>"
      by (subst R(8)) (simp add: push_frame_def)
    moreover have "unat (sp_base m) \<le> unat (sp_base m')" using R(5) D(3) by linarith
    ultimately show ?thesis using R(1-7) unfolding step by blast
  qed
qed

text \<open>
  \<open>ninv s A fr\<close>: the heap holds the blocks \<open>A\<close> for the allocator, and the frames \<open>fr\<close> are not in
  use elsewhere. Freeing a node touches nothing of the allocator; allocating one may take
  frames (for the page tables and pages of a growing heap): \<open>took_for s s' U\<close> says that \<open>U\<close> are the frames
  the heap has grown by between two states, none where the state past the allocator is the same.
\<close>

locale node_heap =
  fixes mf :: "'a malloc_fun" and ff :: "'a free_fun"
    and ninv :: "'a frames_scheme \<Rightarrow> addr set \<Rightarrow> nat set \<Rightarrow> bool"
    and took_for :: "'a frames_scheme \<Rightarrow> 'a frames_scheme \<Rightarrow> nat set \<Rightarrow> bool"
  assumes ninv_local: "ninv s A fr \<Longrightarrow> same_heap s s' \<Longrightarrow> frames.more s' = frames.more s \<Longrightarrow> ninv s' A fr"
    and took_none: "ninv s A fr \<Longrightarrow> frames.more s' = frames.more s \<Longrightarrow> took_for s s' {}"
    and took_cong: "took_for s s' U \<Longrightarrow> frames.more t = frames.more s \<Longrightarrow> frames.more t' = frames.more s' \<Longrightarrow> took_for t t' U"
    and ff_law: "ninv s A fr \<Longrightarrow> p \<in> A \<Longrightarrow> ff p s = Some s' \<Longrightarrow>
       liballoc.more s' = liballoc.more s \<and> ninv s' (A - {p}) fr"
    and mf_law: "ninv s A fr \<Longrightarrow> frames_inv s ns \<Longrightarrow> set ns \<subseteq> A \<Longrightarrow> free_frames s ns \<subseteq> fr \<Longrightarrow>
       frame_lock0 s = 0 \<Longrightarrow> frame_lock1 s = 0 \<Longrightarrow> mf 24 s = Some (p, s') \<Longrightarrow>
       \<exists>used ns'. frames_inv s' ns' \<and> set ns' \<subseteq> set ns \<and> narrower s s' ns' \<and> used \<subseteq> free_frames s ns \<and>
         free_frames s' ns' = free_frames s ns - used \<and> frame_lock0 s' = 0 \<and> frame_lock1 s' = 0 \<and>
         (p \<noteq> NULL \<longrightarrow> p \<notin> A) \<and> took_for s s' used \<and> ninv s' (if p = NULL then A else insert p A) (fr - used)"
begin

lemma ninv_nodes: "ninv s A fr \<Longrightarrow> ninv (s\<lparr>nodes := m\<rparr>) A fr"
  by (erule ninv_local) (auto simp: same_heap_def)

lemma free_step:
  assumes n: "ninv s A fr" and p: "p \<in> A" and l: "frame_lock1 s = 1"
    and run: "ff p (unlock1 s) = Some s1" "lock1 s1 = Some s2"
  shows "same_frames s s2 \<and> nodes s2 = nodes s \<and> ninv s2 (A - {p}) fr"
proof -
  have "ninv (unlock1 s) A fr" by (rule ninv_local [OF n]) (auto simp: same_heap_def unlock1_def)
  from ff_law [OF this p run(1)] have m: "liballoc.more s1 = liballoc.more (unlock1 s)" and n1: "ninv s1 (A - {p}) fr"
    by auto
  note M = more_frames [OF m]
  have s2: "s2 = s1\<lparr>frame_lock1 := 1\<rparr>" using run(2) M by (simp add: lock1_def unlock1_def)
  have "ninv s2 (A - {p}) fr" by (rule ninv_local [OF n1]) (auto simp: s2 same_heap_def)
  then show ?thesis using M l by (simp add: same_frames_def s2 unlock1_def)
qed

lemma merge_next_ok:
  assumes "part_ok (nodes s) l (l # ns)" "set (l # ns) \<subseteq> A" "ninv s A fr" "frame_lock1 s = 1"
    and "merge_next ff l s = Some s'"
  shows "\<exists>gone ns'. ns = gone @ ns' \<and> part_ok (nodes s') l (l # ns') \<and>
     set (listed (nodes s') (l # ns')) = set (listed (nodes s) (l # ns)) \<and>
     sp_base (fdata (nodes s' l)) = sp_base (fdata (nodes s l)) \<and> (\<forall>a. a \<noteq> l \<longrightarrow> nodes s' a = nodes s a) \<and>
     same_frames s s' \<and> ninv s' (A - set gone) fr"
  using assms
proof (induction ns arbitrary: s A)
  case Nil
  have "next_frame (nodes s l) = NULL" "l \<noteq> NULL" using Nil.prems(1) by (auto simp: part_ok_def)
  then have "s' = s" using Nil.prems(5) by (subst (asm) merge_next.simps) (simp add: rdn_def)
  then show ?case using Nil.prems by (auto simp: same_frames_def)
next
  case (Cons b ns)
  let ?m = "nodes s"
  have P: "l \<noteq> NULL" "l \<noteq> b" "l \<notin> set ns" "b \<notin> set ns" "next_frame (?m l) = b" "b \<noteq> NULL" "space_ok (fdata (?m l))" "space_ok (fdata (?m b))"
     "space_end (fdata (?m l)) \<le> unat (sp_base (fdata (?m b)))" "part_ok ?m (next_frame (?m b)) ns"
     "\<forall>c \<in> set ns. space_end (fdata (?m b)) \<le> unat (sp_base (fdata (?m c)))"
    using Cons.prems(1) by (auto simp: part_ok_Cons)
  have e: "unat (sp_base (fdata (?m l)) + sp_size (fdata (?m l))) = space_end (fdata (?m l))"
    using space_okD(3) [OF P(7)] by (subst unat_add_no_wrap) (auto simp: space_end_def)
  show ?case
  proof (cases "sp_base (fdata (?m b)) \<le> sp_base (fdata (?m l)) + sp_size (fdata (?m l))")
    case False
    then have "s' = s" using Cons.prems(5) P(1,5,6) by (subst (asm) merge_next.simps) (simp add: rdn_def)
    then show ?thesis using Cons.prems by (intro exI [of _ "[]"] exI [of _ "b # ns"]) (auto simp: same_frames_def)
  next
    case True
    then have touch: "space_end (fdata (?m l)) = unat (sp_base (fdata (?m b)))"
      using P(9) e by (simp add: word_le_nat_alt)
    let ?c = "(fdata (?m l))\<lparr>sp_size := (sp_base (fdata (?m b)) + sp_size (fdata (?m b))) - sp_base (fdata (?m l))\<rparr>"
    let ?m1 = "?m(l := \<lparr>fdata = ?c, next_frame = next_frame (?m b)\<rparr>)"
    let ?s1 = "s\<lparr>nodes := ?m1\<rparr>"
    note J = join_spaces [OF P(7,8) touch refl]
    obtain s2 s3 where r: "ff b (unlock1 ?s1) = Some s2" "lock1 s2 = Some s3" "merge_next ff l s3 = Some s'"
      using Cons.prems(5) merge_next_step [of l s b ff, OF P(1,5,6) True] by auto
    have "b \<in> A" using Cons.prems(2) by simp
    have n1: "ninv ?s1 A fr" by (rule ninv_nodes [OF Cons.prems(3)])
    have F: "same_frames ?s1 s3" "nodes s3 = ?m1" "ninv s3 (A - {b}) fr"
      using free_step [OF n1 \<open>b \<in> A\<close> _ r(1,2)] Cons.prems(4) by auto
    have "part_ok ?m1 (next_frame (?m b)) ns" using part_ok_upd [OF P(3)] P(10) by blast
    then have "part_ok (nodes s3) l (l # ns)"
      using P J F(2) by (auto simp: part_ok_Cons)
    moreover have "frame_lock1 s3 = 1" using F(1) Cons.prems(4) by (simp add: same_frames_def)
    moreover have "set (l # ns) \<subseteq> A - {b}" using Cons.prems(2) P(2,4) by auto
    ultimately obtain gone ns' where I: "ns = gone @ ns'" "part_ok (nodes s') l (l # ns')"
       "set (listed (nodes s') (l # ns')) = set (listed (nodes s3) (l # ns))"
       "sp_base (fdata (nodes s' l)) = sp_base (fdata (nodes s3 l))" "\<forall>a. a \<noteq> l \<longrightarrow> nodes s' a = nodes s3 a"
       "same_frames s3 s'" "ninv s' (A - {b} - set gone) fr"
      using Cons.IH [OF _ _ F(3) _ r(3)] by blast
    have "set (listed (nodes s3) (l # ns)) = set (listed ?m (l # b # ns))"
      using J(3) listed_upd [OF P(3)] P(2) F(2) by (simp add: set_listed_Cons Un_assoc)
    moreover have "same_frames s s'"
      using same_frames_trans [OF F(1) I(6)] by (simp add: same_frames_def)
    moreover have "A - {b} - set gone = A - set (b # gone)" by auto
    ultimately show ?thesis using I F(2) by (intro exI [of _ "b # gone"] exI [of _ ns']) auto
  qed
qed

lemma list_push_ok:
  assumes "part_ok (nodes s) p ns" "new \<notin> set ns" "new \<noteq> NULL" "space_ok (fdata (nodes s new))"
    and "4096 \<le> unat (sp_size (fdata (nodes s new)))"
    and "\<forall>a \<in> set ns. space_end (fdata (nodes s a)) \<le> unat (sp_base (fdata (nodes s new))) \<or>
       space_end (fdata (nodes s new)) \<le> unat (sp_base (fdata (nodes s a)))"
    and "set (new # ns) \<subseteq> A" "ninv s A fr" "frame_lock1 s = 1"
    and "list_push ff p new s = Some (q, s')"
  shows "\<exists>ns'. part_ok (nodes s') q ns' \<and> set ns' \<subseteq> set (new # ns) \<and>
     set (listed (nodes s') ns') = set (listed (nodes s) ns) \<union> set (pages_of (fdata (nodes s new))) \<and>
     (\<forall>x. x \<le> unat (sp_base (fdata (nodes s new))) \<and> (\<forall>a \<in> set ns. x \<le> unat (sp_base (fdata (nodes s a)))) \<longrightarrow>
        (\<forall>b \<in> set ns'. x \<le> unat (sp_base (fdata (nodes s' b))))) \<and>
     (\<forall>a. a \<notin> set (new # ns) \<longrightarrow> nodes s' a = nodes s a) \<and> same_frames s s' \<and>
     ninv s' (A - (set (new # ns) - set ns')) fr"
  using assms
proof (induction ns arbitrary: p q s s' A)
  case Nil
  then have "p = NULL" by (simp add: part_ok_def)
  then have "q = new" "s' = s\<lparr>nodes := (nodes s)(new := (nodes s new)\<lparr>next_frame := NULL\<rparr>)\<rparr>"
    using Nil.prems(3,10) by (subst (asm) list_push.simps, simp add: updn_def)+
  then show ?case using Nil.prems ninv_nodes [OF Nil.prems(8)]
    by (intro exI [of _ "[new]"]) (auto simp: part_ok_def in_order_def same_frames_def set_listed)
next
  case (Cons a ns)
  let ?m = "nodes s"
  have P: "p = a" "a \<noteq> NULL" "a \<notin> set ns" "space_ok (fdata (?m a))" "part_ok ?m (next_frame (?m a)) ns" "a \<noteq> new"
     "\<forall>b \<in> set ns. space_end (fdata (?m a)) \<le> unat (sp_base (fdata (?m b)))"
    using Cons.prems(1,2) by (auto simp: part_ok_Cons)
  show ?case
  proof (cases "sp_base (fdata (?m new)) < sp_base (fdata (?m a))")
    case True
    let ?s = "s\<lparr>nodes := ?m(new := (?m new)\<lparr>next_frame := a\<rparr>)\<rparr>"
    have e: "q = new" "s' = ?s"
      using Cons.prems(3,10) True P(1,2) by (subst (asm) list_push.simps, simp add: updn_def rdn_def)+
    have "unat (sp_base (fdata (?m a))) \<le> space_end (fdata (?m a))" by (simp add: space_end_def)
    then have "space_end (fdata (?m new)) \<le> unat (sp_base (fdata (?m a)))"
      using Cons.prems(6) True by (fastforce simp: word_less_nat_alt)
    moreover have "part_ok (nodes ?s) a (a # ns)" using part_ok_upd [OF Cons.prems(2)] Cons.prems(1) P(1) by simp
    ultimately have "part_ok (nodes ?s) new (new # a # ns)"
      using Cons.prems(2-4) P(6,7) \<open>unat (sp_base (fdata (?m a))) \<le> _\<close>
      unfolding part_ok_Cons [of _ _ new] by auto
    moreover have "set (listed (nodes ?s) (new # a # ns)) = set (listed ?m (a # ns)) \<union> set (pages_of (fdata (?m new)))"
      using listed_upd [OF Cons.prems(2)] by (simp add: set_listed_Cons Un_commute)
    moreover have "\<forall>b \<in> set (new # a # ns). fdata (nodes ?s b) = fdata (?m b)" by simp
    moreover have "\<forall>b. b \<notin> set (new # a # ns) \<longrightarrow> nodes ?s b = ?m b" by simp
    moreover have "same_frames s ?s" by (simp add: same_frames_def)
    moreover have "ninv ?s (A - (set (new # a # ns) - set (new # a # ns))) fr"
      unfolding Diff_cancel Diff_empty by (rule ninv_nodes [OF Cons.prems(8)])
    ultimately show ?thesis unfolding e
      by (intro exI [of _ "new # a # ns"] conjI) (simp_all del: frames.select_convs frames.simps fun_upd_apply)
  next
    case False
    obtain r s1 s2 where r: "list_push ff (next_frame (?m a)) new s = Some (r, s1)"
        "updn a (\<lambda>l. l\<lparr>next_frame := r\<rparr>) s1 = Some s2" "merge_next ff a s2 = Some s'" "q = a"
      using Cons.prems(10) False P(1,2) Cons.prems(3)
      by (subst (asm) list_push.simps) (auto simp: rdn_def)
    have ap: "space_end (fdata (?m a)) \<le> unat (sp_base (fdata (?m new)))"
      using Cons.prems(5,6) False by (auto simp: word_less_nat_alt space_end_def)
    from Cons.IH [OF P(5) _ Cons.prems(3-5) _ _ Cons.prems(8,9) r(1)] Cons.prems(2,6,7) obtain ns1 where
      I: "part_ok (nodes s1) r ns1" "set ns1 \<subseteq> set (new # ns)"
        "set (listed (nodes s1) ns1) = set (listed ?m ns) \<union> set (pages_of (fdata (?m new)))"
        "\<forall>x. x \<le> unat (sp_base (fdata (?m new))) \<and> (\<forall>a \<in> set ns. x \<le> unat (sp_base (fdata (?m a)))) \<longrightarrow>
           (\<forall>b \<in> set ns1. x \<le> unat (sp_base (fdata (nodes s1 b))))"
        "\<forall>a. a \<notin> set (new # ns) \<longrightarrow> nodes s1 a = ?m a" "same_frames s s1"
        "ninv s1 (A - (set (new # ns) - set ns1)) fr"
      by (elim meta_impE) auto
    let ?A = "A - (set (new # ns) - set ns1)"
    have a1: "nodes s1 a = ?m a" "a \<notin> set ns1" using I(2,5) P(3,6) by auto
    have s2: "s2 = s1\<lparr>nodes := (nodes s1)(a := (?m a)\<lparr>next_frame := r\<rparr>)\<rparr>" using r(2) P(2) a1 by (simp add: updn_def)
    have "\<forall>b \<in> set ns1. space_end (fdata (?m a)) \<le> unat (sp_base (fdata (nodes s1 b)))"
      using I(4) ap P(7) by blast
    then have p2: "part_ok (nodes s2) a (a # ns1)"
      using P(2,4) a1(2) part_ok_upd [OF a1(2)] I(1) by (auto simp: part_ok_Cons s2)
    have n2: "ninv s2 ?A fr" unfolding s2 by (rule ninv_nodes [OF I(7)])
    have l2: "frame_lock1 s2 = 1" using I(6) Cons.prems(9) by (simp add: s2 same_frames_def)
    have A2: "set (a # ns1) \<subseteq> ?A" using Cons.prems(7) I(2) P(3,6) by auto
    from merge_next_ok [OF p2 A2 n2 l2 r(3)] obtain gone ns' where
      M: "ns1 = gone @ ns'" "part_ok (nodes s') a (a # ns')"
        "set (listed (nodes s') (a # ns')) = set (listed (nodes s2) (a # ns1))"
        "sp_base (fdata (nodes s' a)) = sp_base (fdata (nodes s2 a))" "\<forall>b. b \<noteq> a \<longrightarrow> nodes s' b = nodes s2 b"
        "same_frames s2 s'" "ninv s' (?A - set gone) fr" by blast
    have "set (listed (nodes s2) (a # ns1)) = set (listed ?m (a # ns)) \<union> set (pages_of (fdata (?m new)))"
    proof -
      have "set (listed (nodes s2) ns1) = set (listed (nodes s1) ns1)"
        by (rule listed_cong) (use a1(2) in \<open>auto simp: s2\<close>)
      then show ?thesis using I(3) by (auto simp: set_listed s2)
    qed
    moreover have "same_frames s s'" using I(6) M(6) by (simp add: same_frames_def s2)
    moreover have "?A - set gone = A - (set (new # a # ns) - set (a # ns'))"
      using M(1,2) I(2) P(3,6) I(1) by (auto simp: part_ok_def)
    moreover have "\<forall>x. x \<le> unat (sp_base (fdata (?m new))) \<and> (\<forall>b \<in> set (a # ns). x \<le> unat (sp_base (fdata (?m b)))) \<longrightarrow>
        (\<forall>b \<in> set (a # ns'). x \<le> unat (sp_base (fdata (nodes s' b))))"
      using I(4) M(1,4,5) a1(2) by (auto simp: s2)
    moreover have "\<forall>b. b \<notin> set (new # a # ns) \<longrightarrow> nodes s' b = ?m b" using I(5) M(5) by (auto simp: s2)
    moreover have "set (a # ns') \<subseteq> set (new # a # ns)" using M(1) I(2) by auto
    ultimately show ?thesis using M(2,3,7) r(4) by (intro exI [of _ "a # ns'"]) simp
  qed
qed

text \<open>Dropping a range used up.\<close>

lemma drop_head:
  assumes inv: "frames_inv s (a # ns)" and z: "unat (sp_size (fdata (nodes s a))) < 4096"
    and n: "ninv s A fr" and a: "a \<in> A" and run: "ff a s = Some s1"
  defines "s2 \<equiv> s1\<lparr>avaliableMemory := next_frame (nodes s a)\<rparr>"
  shows "frames_inv s2 ns \<and> free_frames s2 ns = free_frames s (a # ns) \<and> narrower s s2 ns \<and>
    ninv s2 (A - {a}) fr \<and> qtd_buffer s2 = qtd_buffer s \<and> frame_lock0 s2 = frame_lock0 s \<and>
    frame_lock1 s2 = frame_lock1 s \<and> frames.more s2 = frames.more s"
proof -
  from ff_law [OF n a run] have m: "liballoc.more s1 = liballoc.more s" and n1: "ninv s1 (A - {a}) fr" by auto
  note M = more_frames [OF m]
  have "ninv s2 (A - {a}) fr" by (rule ninv_local [OF n1]) (auto simp: s2_def same_heap_def)
  moreover have b: "buffered s2 = buffered s" using M by (simp add: s2_def buffered_def)
  moreover have p: "set (listed (nodes s) (a # ns)) = set (listed (nodes s2) ns)" "nodes s2 = nodes s"
    using M z inv pages_of_empty [of "fdata (nodes s a)"] by (auto simp: s2_def set_listed_Cons frames_inv_def)
  moreover have "frames_inv s2 ns"
    using inv b p M unfolding frames_inv_part by (auto simp: part_ok_Cons s2_def)
  ultimately show ?thesis using M by (simp add: free_frames_def narrower_def s2_def)
qed

lemma loadBuffer_loop_ok:
  assumes "frames_inv s ns" "set ns \<subseteq> A" "ninv s A fr" "frame_lock0 s = 0" "loadBuffer_loop ff s = Some s'"
  shows "\<exists>ns'. frames_inv s' ns' \<and> set ns' \<subseteq> set ns \<and> narrower s s' ns' \<and> free_frames s' ns' = free_frames s ns \<and>
     ninv s' (A - (set ns - set ns')) fr \<and> frame_lock0 s' = 0 \<and> frame_lock1 s' = frame_lock1 s \<and>
     frames.more s' = frames.more s \<and> (unat (qtd_buffer s') < MAX_BUFFER_FRAMES \<longrightarrow> ns' = [])"
  using assms
proof (induction "length ns + (MAX_BUFFER_FRAMES - unat (qtd_buffer s))" arbitrary: s ns A rule: less_induct)
  case less
  let ?q = "unat (qtd_buffer s) < MAX_BUFFER_FRAMES"
  have hd: "avaliableMemory s = (if ns = [] then NULL else hd ns)" "NULL \<notin> set ns"
    using less.prems(1) chain_NULL by (cases ns; fastforce simp: frames_inv_def)+
  show ?case
  proof (cases "?q \<and> ns \<noteq> []")
    case False
    then have "\<not> (?q \<and> avaliableMemory s \<noteq> NULL)" using hd by auto
    then have "s' = s" using less.prems(5) by (subst (asm) loadBuffer_loop.simps) auto
    then show ?thesis using less.prems False by (intro exI [of _ ns]) (auto simp: narrower_def)
  next
    case True
    then obtain a ms where ns: "ns = a # ms" by (cases ns) auto
    have a: "avaliableMemory s = a" "a \<noteq> NULL" "a \<in> A" using hd ns less.prems(2) by auto
    show ?thesis
    proof (cases "sp_size (fdata (nodes s a)) < PAGE_SIZE")
      case small: True
      obtain s1 where r: "ff a s = Some s1" "loadBuffer_loop ff (s1\<lparr>avaliableMemory := next_frame (nodes s a)\<rparr>) = Some s'"
        using less.prems(5) True small a by (subst (asm) loadBuffer_loop.simps) (auto simp: rdn_def Let_def)
      let ?s2 = "s1\<lparr>avaliableMemory := next_frame (nodes s a)\<rparr>"
      have z: "unat (sp_size (fdata (nodes s a))) < 4096" using small by (simp add: word_less_nat_alt)
      have D: "frames_inv ?s2 ms" "free_frames ?s2 ms = free_frames s ns" "narrower s ?s2 ms"
        "ninv ?s2 (A - {a}) fr" "qtd_buffer ?s2 = qtd_buffer s" "frame_lock0 ?s2 = frame_lock0 s"
        "frame_lock1 ?s2 = frame_lock1 s" "frames.more ?s2 = frames.more s"
        using drop_head [OF less.prems(1) [unfolded ns] z less.prems(3) a(3) r(1)] by (simp_all only: ns)
      have A: "set ms \<subseteq> A - {a}" using less.prems(1,2) ns by (auto simp: frames_inv_def)
      have "frame_lock0 ?s2 = 0" using D(6) less.prems(4) by simp
      from less.hyps [OF _ D(1) A D(4) this r(2)] obtain ns' where
        I: "frames_inv s' ns'" "set ns' \<subseteq> set ms" "narrower ?s2 s' ns'" "free_frames s' ns' = free_frames ?s2 ms"
          "ninv s' (A - {a} - (set ms - set ns')) fr" "frame_lock0 s' = 0" "frame_lock1 s' = frame_lock1 ?s2"
          "frames.more s' = frames.more ?s2" "unat (qtd_buffer s') < MAX_BUFFER_FRAMES \<longrightarrow> ns' = []"
        using D(5) ns by auto
      have "A - {a} - (set ms - set ns') = A - (set ns - set ns')"
        using I(2) less.prems(1) ns by (auto simp: frames_inv_def)
      moreover have "narrower s s' ns'" by (rule narrower_trans [OF D(3) I(3,2)])
      ultimately show ?thesis using I D ns by (intro exI [of _ ns']) auto
    next
      case large: False
      then have z: "4096 \<le> unat (sp_size (fdata (nodes s a)))" by (simp add: word_less_nat_alt)
      from take_head [OF less.prems(1) [unfolded ns] _ less.prems(4) z] True obtain s1 where
        T: "(do { s \<leftarrow> addFrameInBuffer (sp_base (fdata (nodes s a))) s;
          s \<leftarrow> updn (avaliableMemory s) (\<lambda>n. n\<lparr>fdata := (fdata n)\<lparr>sp_base := sp_base (fdata n) + PAGE_SIZE\<rparr>\<rparr>) s;
          updn (avaliableMemory s) (\<lambda>n. n\<lparr>fdata := (fdata n)\<lparr>sp_size := sp_size (fdata n) - PAGE_SIZE\<rparr>\<rparr>) s }) = Some s1"
        "frames_inv s1 ns" "free_frames s1 ns = free_frames s ns" "narrower s s1 ns"
        "unat (qtd_buffer s1) = unat (qtd_buffer s) + 1"
        "s1 = s\<lparr>qtd_buffer := qtd_buffer s1, frame_buffer := frame_buffer s1, nodes := nodes s1\<rparr>"
        unfolding ns by blast
      have r: "loadBuffer_loop ff s1 = Some s'"
        using less.prems(5) True large a T(1)
        by (subst (asm) loadBuffer_loop.simps) (auto simp: rdn_def Let_def split: bind_splits)
      have e: "same_heap s s1" "frames.more s1 = frames.more s" "frame_lock0 s1 = frame_lock0 s" "frame_lock1 s1 = frame_lock1 s"
        by (subst T(6), simp add: same_heap_def)+
      have n1: "ninv s1 A fr" by (rule ninv_local [OF less.prems(3) e(1,2)])
      have "frame_lock0 s1 = 0" using e less.prems(4) by simp
      have "length ns + (MAX_BUFFER_FRAMES - unat (qtd_buffer s1)) < length ns + (MAX_BUFFER_FRAMES - unat (qtd_buffer s))"
        using T(5) True by linarith
      from less.hyps [OF this T(2) less.prems(2) n1 \<open>frame_lock0 s1 = 0\<close> r] obtain ns' where
        I: "frames_inv s' ns'" "set ns' \<subseteq> set ns" "narrower s1 s' ns'" "free_frames s' ns' = free_frames s1 ns"
          "ninv s' (A - (set ns - set ns')) fr" "frame_lock0 s' = 0" "frame_lock1 s' = frame_lock1 s1"
          "frames.more s' = frames.more s1" "unat (qtd_buffer s') < MAX_BUFFER_FRAMES \<longrightarrow> ns' = []"
        by blast
      have "narrower s s' ns'" by (rule narrower_trans [OF T(4) I(3,2)])
      then show ?thesis using I T(3) e by (intro exI [of _ ns']) auto
    qed
  qed
qed

lemma loadBuffer_ok:
  assumes "frames_inv s ns" "set ns \<subseteq> A" "ninv s A fr" "frame_lock0 s = 0" "frame_lock1 s = 0" "loadBuffer ff s = Some (ok, s')"
  shows "\<exists>ns'. frames_inv s' ns' \<and> set ns' \<subseteq> set ns \<and> narrower s s' ns' \<and> free_frames s' ns' = free_frames s ns \<and>
     ninv s' (A - (set ns - set ns')) fr \<and> frame_lock0 s' = 0 \<and> frame_lock1 s' = frame_lock1 s \<and>
     frames.more s' = frames.more s \<and> (ok \<longrightarrow> 0 < unat (qtd_buffer s'))"
proof -
  obtain s1 s2 where r: "lock1 s = Some s1" "loadBuffer_loop ff s1 = Some s2" "s' = unlock1 s2" "ok = (0 < qtd_buffer s2)"
    using assms(6) by (auto simp: loadBuffer_def Let_def unlock1_def split: bind_splits)
  then have s1: "s1 = s\<lparr>frame_lock1 := 1\<rparr>" "frame_lock1 s = 0"
    using assms(5) by (auto simp: lock1_def)
  have b: "buffered s1 = buffered s" by (simp add: s1 buffered_def)
  have i1: "frames_inv s1 ns" using assms(1) by (simp add: frames_inv_def b) (simp add: s1)
  have n1: "ninv s1 A fr" by (rule ninv_local [OF assms(3)]) (auto simp: s1 same_heap_def)
  have l1: "frame_lock0 s1 = 0" using assms(4) by (simp add: s1)
  from loadBuffer_loop_ok [OF i1 assms(2) n1 l1 r(2)] obtain ns' where
    I: "frames_inv s2 ns'" "set ns' \<subseteq> set ns" "narrower s1 s2 ns'" "free_frames s2 ns' = free_frames s1 ns"
       "ninv s2 (A - (set ns - set ns')) fr" "frame_lock0 s2 = 0" "frame_lock1 s2 = 1" "frames.more s2 = frames.more s1"
    by (auto simp: s1)
  have b2: "buffered s' = buffered s2" by (simp add: r(3) unlock1_def buffered_def)
  have i2: "frames_inv s' ns'" using I(1) by (simp add: frames_inv_def b2) (simp add: r(3) unlock1_def)
  have n2: "ninv s' (A - (set ns - set ns')) fr"
    by (rule ninv_local [OF I(5)]) (auto simp: r(3) unlock1_def same_heap_def)
  have "free_frames s' ns' = free_frames s ns"
    using I(4) b b2 by (simp add: free_frames_def r(3) unlock1_def s1)
  moreover have "narrower s s' ns'" using I(3) by (simp add: narrower_def r(3) unlock1_def s1)
  moreover have "ok \<longrightarrow> 0 < unat (qtd_buffer s')" using r(3,4) by (simp add: unlock1_def word_less_nat_alt)
  ultimately show ?thesis using I i2 n2 s1(2)
    by (intro exI [of _ ns']) (simp add: r(3) unlock1_def s1(1))
qed

lemma allocate_ok:
  assumes "frames_inv s ns" "set ns \<subseteq> A" "ninv s A fr" "frame_lock0 s = 0" "frame_lock1 s = 0" "allocate ff s = Some (f, s')"
  shows "\<exists>ns'. frames_inv s' ns' \<and> set ns' \<subseteq> set ns \<and> narrower s s' ns' \<and>
     unat f \<in> free_frames s ns \<and> free_frames s' ns' = free_frames s ns - {unat f} \<and>
     ninv s' (A - (set ns - set ns')) fr \<and> frame_lock0 s' = 0 \<and> frame_lock1 s' = frame_lock1 s \<and>
     frames.more s' = frames.more s"
proof -
  let ?low = "unat (qtd_buffer s) \<le> MAX_BUFFER_FRAMES div 2"
  obtain ok s1 where r: "(if ?low then loadBuffer ff s else Some (True, s)) = Some (ok, s1)" "ok" and
    r2: "do { s \<leftarrow> lock0 s1; let s = s\<lparr>qtd_buffer := qtd_buffer s - 1\<rparr>;
       Some (frame_buffer s ! unat (qtd_buffer s), unlock0 s) } = Some (f, s')"
    using assms(6) unfolding allocate_def Let_def by (cases "if ?low then loadBuffer ff s else Some (True, s)") (auto split: if_splits prod.splits)
  have "\<exists>ns'. frames_inv s1 ns' \<and> set ns' \<subseteq> set ns \<and> narrower s s1 ns' \<and> free_frames s1 ns' = free_frames s ns \<and>
     ninv s1 (A - (set ns - set ns')) fr \<and> frame_lock0 s1 = 0 \<and> frame_lock1 s1 = frame_lock1 s \<and>
     frames.more s1 = frames.more s \<and> 0 < unat (qtd_buffer s1)"
  proof (cases ?low)
    case True
    then show ?thesis using loadBuffer_ok [OF assms(1-5), of ok s1] r by auto
  next
    case False
    then show ?thesis using assms r by (intro exI [of _ ns]) (auto simp: narrower_def)
  qed
  then obtain ns' where I: "frames_inv s1 ns'" "set ns' \<subseteq> set ns" "narrower s s1 ns'" "free_frames s1 ns' = free_frames s ns"
     "ninv s1 (A - (set ns - set ns')) fr" "frame_lock0 s1 = 0" "frame_lock1 s1 = frame_lock1 s"
     "frames.more s1 = frames.more s" "0 < unat (qtd_buffer s1)" by blast
  have f: "f = frame_buffer s1 ! unat (qtd_buffer s1 - 1)" "s' = s1\<lparr>qtd_buffer := qtd_buffer s1 - 1\<rparr>"
    using r2 I(6) by (auto simp: lock0_def unlock0_def Let_def)
  note P = pop_frame [OF I(1,9) f]
  have "ninv s' (A - (set ns - set ns')) fr"
    by (rule ninv_local [OF I(5)]) (auto simp: f(2) same_heap_def)
  moreover have "narrower s s' ns'" using I(3) by (simp add: narrower_def f(2))
  ultimately show ?thesis using I P by (intro exI [of _ ns']) (simp add: f(2))
qed

text \<open>
  \<open>addMemorySpace\<close> adds the whole pages of its argument and nothing else, less the frames \<open>used\<close> that the
  heap has grown by meanwhile, for the node.
\<close>

lemma addMemorySpace_ok:
  assumes "frames_inv s ns" "set ns \<subseteq> A" "ninv s A fr" "frame_lock0 s = 0" "frame_lock1 s = 0"
    and m: "space_ok (round_space m)" "set (pages_of (round_space m)) \<inter> free_frames s ns = {}"
    and fr: "free_frames s ns \<union> set (pages_of (round_space m)) \<subseteq> fr"
    and apart: "\<forall>a \<in> set ns. space_end (fdata (nodes s a)) \<le> unat (sp_base (round_space m)) \<or>
       space_end (round_space m) \<le> unat (sp_base (fdata (nodes s a)))"
    and run: "addMemorySpace mf ff m s = Some s'"
  shows "\<exists>ns' used A'. frames_inv s' ns' \<and> set ns' \<subseteq> A' \<and> ninv s' A' (fr - used) \<and>
     used \<subseteq> free_frames s ns \<union> set (pages_of (round_space m)) \<and>
     free_frames s' ns' = free_frames s ns \<union> set (pages_of (round_space m)) - used \<and>
     took_for s s' used \<and> frame_lock0 s' = 0 \<and> frame_lock1 s' = 0"
proof -
  let ?r = "round_space m"
  obtain m1 s1 where F: "fill_buffer ?r s = Some (m1, s1)" "frames_inv s1 ns" "space_ok m1" "space_end m1 = space_end ?r"
     "unat (sp_base ?r) \<le> unat (sp_base m1)" "free_frames s1 ns \<union> set (pages_of m1) = free_frames s ns \<union> set (pages_of ?r)"
     "set (pages_of m1) \<inter> free_frames s1 ns = {}"
     and e: "s1 = s\<lparr>qtd_buffer := qtd_buffer s1, frame_buffer := frame_buffer s1\<rparr>"
    using fill_buffer_ok [OF assms(1,4) m] by blast
  have E: "nodes s1 = nodes s" "frame_lock0 s1 = 0" "frame_lock1 s1 = 0" "same_heap s s1" "frames.more s1 = frames.more s"
    by (subst e, simp add: assms(4,5) same_heap_def)+
  have n1: "ninv s1 A fr" by (rule ninv_local [OF assms(3) E(4,5)])
  show ?thesis
  proof (cases "sp_size m1 < PAGE_SIZE")
    case True
    then have "s' = s1" using run F(1) by (simp add: addMemorySpace_def)
    moreover have "set (pages_of m1) = {}"
      using pages_of_empty [OF F(3)] True by (simp add: word_less_nat_alt)
    ultimately show ?thesis using F E n1 assms(2) took_none [OF assms(3) E(5)] by (intro exI [of _ ns] exI [of _ "{}"] exI [of _ A]) auto
  next
    case False
    then have z: "4096 \<le> unat (sp_size m1)" by (simp add: word_less_nat_alt)
    obtain new s2 where A: "mf 24 s1 = Some (new, s2)" "new \<noteq> NULL"
      using run F(1) False by (cases "mf 24 s1") (auto simp: addMemorySpace_def split: if_splits)
    have fr1: "free_frames s1 ns \<subseteq> fr" using F(6) fr by blast
    from mf_law [OF n1 F(2) assms(2) fr1 E(2,3) A(1)] A(2) obtain used ns2 where
      M: "frames_inv s2 ns2" "set ns2 \<subseteq> set ns" "narrower s1 s2 ns2" "used \<subseteq> free_frames s1 ns"
        "free_frames s2 ns2 = free_frames s1 ns - used" "frame_lock0 s2 = 0" "frame_lock1 s2 = 0"
        "new \<notin> A" "took_for s1 s2 used" "ninv s2 (insert new A) (fr - used)" by auto
    have new: "new \<notin> set ns2" using M(2,8) assms(2) by blast
    let ?s3 = "s2\<lparr>nodes := (nodes s2)(new := (nodes s2 new)\<lparr>fdata := m1\<rparr>), frame_lock1 := 1\<rparr>"
    obtain l s4 where P: "list_push ff (avaliableMemory s2) new ?s3 = Some (l, s4)" "s' = unlock1 (s4\<lparr>avaliableMemory := l\<rparr>)"
      using run F(1) False A M(7)
      by (cases "list_push ff (avaliableMemory s2) new ?s3") (auto simp: addMemorySpace_def updn_def lock1_def)
    have n3: "ninv ?s3 (insert new A) (fr - used)" by (rule ninv_local [OF M(10)]) (auto simp: same_heap_def)
    have I2: "part_ok (nodes s2) (avaliableMemory s2) ns2" "set (buffered s2) \<inter> set (listed (nodes s2) ns2) = {}"
      using M(1) unfolding frames_inv_part by blast+
    have p3: "part_ok (nodes ?s3) (avaliableMemory s2) ns2" using I2(1) part_ok_upd [OF new] by simp
    have ap: "space_end (fdata (nodes s2 a)) \<le> unat (sp_base m1) \<or> space_end m1 \<le> unat (sp_base (fdata (nodes s2 a)))"
      if a: "a \<in> set ns2" for a
    proof -
      have "a \<in> set ns" using a M(2) by blast
      then show ?thesis using bspec [OF apart, of a] M(3) a F(4,5) E(1) unfolding narrower_def by fastforce
    qed
    have "set (new # ns2) \<subseteq> insert new A" using M(2) assms(2) by auto
    moreover have "\<forall>a \<in> set ns2. space_end (fdata (nodes ?s3 a)) \<le> unat (sp_base (fdata (nodes ?s3 new))) \<or>
       space_end (fdata (nodes ?s3 new)) \<le> unat (sp_base (fdata (nodes ?s3 a)))"
      using ap new by auto
    moreover have "space_ok (fdata (nodes ?s3 new))" "4096 \<le> unat (sp_size (fdata (nodes ?s3 new)))"
      using F(3) z by simp_all
    ultimately obtain ns' where L: "part_ok (nodes s4) l ns'" "set ns' \<subseteq> set (new # ns2)"
       "set (listed (nodes s4) ns') = set (listed (nodes ?s3) ns2) \<union> set (pages_of (fdata (nodes ?s3 new)))"
       "same_frames ?s3 s4" "ninv s4 (insert new A - (set (new # ns2) - set ns')) (fr - used)"
      using list_push_ok [OF p3 new A(2) _ _ _ _ n3 _ P(1)] by auto
    have l4: "set (listed (nodes s4) ns') = set (listed (nodes s2) ns2) \<union> set (pages_of m1)"
      using L(3) listed_upd [OF new] by simp
    have b: "buffered s' = buffered s2" using L(4) by (simp add: P(2) unlock1_def buffered_def same_frames_def)
    have free: "free_frames s' ns' = free_frames s2 ns2 \<union> set (pages_of m1)"
      using l4 b by (simp add: free_frames_def P(2) unlock1_def Un_assoc)
    have dis: "set (buffered s2) \<inter> set (pages_of m1) = {}"
      using F(7) M(5) by (auto simp: free_frames_def)
    have "frames_inv s' ns'"
      using M(1) L(1,4) l4 I2(2) dis unfolding frames_inv_part b
      by (auto simp: P(2) unlock1_def same_frames_def)
    moreover have "ninv s' (insert new A - (set (new # ns2) - set ns')) (fr - used)"
      by (rule ninv_local [OF L(5)]) (auto simp: P(2) unlock1_def same_heap_def)
    moreover have "free_frames s' ns' = free_frames s ns \<union> set (pages_of ?r) - used"
      using free M(4,5) F(6,7) by auto
    moreover have "set ns' \<subseteq> insert new A - (set (new # ns2) - set ns')" using L(2) M(2) assms(2) by auto
    moreover have "used \<subseteq> free_frames s ns \<union> set (pages_of ?r)" using M(4) F(6) by blast
    moreover have "frame_lock0 s' = 0" "frame_lock1 s' = 0" using L(4) M(6) by (simp_all add: P(2) unlock1_def same_frames_def)
    moreover have "took_for s s' used"
      by (rule took_cong [OF M(9)]) (use E(5) L(4) in \<open>simp_all add: P(2) unlock1_def same_frames_def\<close>)
    ultimately show ?thesis by blast
  qed
qed

end

end
