(* ===== verification/PageTable_Slot.thy ===== *)
theory PageTable_Slot
  imports PageTable_Walk FrameAlloc_Correct
begin

text \<open>
  The part of the address space the heap grows in: slot 509. Its pages are mapped from the
  bottom, so its tables are described by the number \<open>N\<close> of pages mapped: the lookup of a page, the
  extension by one page, the scan of \<open>alloc_vm\<close>.
\<close>

section \<open>Entries of tables\<close>

abbreviation aligned :: "addr \<Rightarrow> bool" where
  "aligned t \<equiv> 4096 dvd unat t"

lemma aligned_getAddr [simp]: "aligned (getAddr e)"
proof -
  have "take_bit 12 (getAddr e) = 0" by (rule bit_eqI) (simp add: bit_simps)
  then have "take_bit 12 (unat (getAddr e)) = 0" by (simp flip: unsigned_take_bit_eq)
  then show ?thesis by (simp add: take_bit_eq_mod dvd_eq_mod_eq_0)
qed

lemma getAddr_aligned: "aligned f \<Longrightarrow> getAddr f = f"
  by (simp add: getAddr_def page_mask_id)

lemma unat_entry_at:
  assumes "aligned t" "i < 512"
  shows "unat (entry_at t i) = unat t + 8 * i"
proof -
  obtain k where k: "unat t = 4096 * k" using assms(1) by (auto elim!: dvdE)
  have "4096 * k < 4096 * 2 ^ 52" using k unat_lt64 [of t] by simp
  then have "4096 * k + 4096 \<le> 2 ^ 64" by simp
  then show ?thesis using assms(2) k unat_offset [OF assms(2)]
    unfolding entry_at_def by (subst unat_add_no_wrap) simp_all
qed

lemma entry_at_eq:
  assumes "aligned t" "aligned u" "i < 512" "j < 512"
  shows "entry_at t i = entry_at u j \<longleftrightarrow> t = u \<and> i = j"
proof
  assume "entry_at t i = entry_at u j"
  then have e: "unat t + 8 * i = unat u + 8 * j" using unat_entry_at assms by metis
  obtain k l where kl: "unat t = 4096 * k" "unat u = 4096 * l" using assms(1,2) by (auto elim!: dvdE)
  then have "k = l" using e assms(3,4) by linarith
  then show "t = u \<and> i = j" using e kl by (simp add: word_unat_eq_iff)
qed simp

text \<open>The entry \<open>create_entry\<close> leaves.\<close>

definition new_entry :: "uint64 \<Rightarrow> uint16 \<Rightarrow> uint64 \<Rightarrow> uint64" where
  "new_entry f fl e = setPresent True (setFlags fl (setAddr f e))"

lemma new_entry_simps [simp]:
  "isPresent (new_entry f fl e)" "aligned f \<Longrightarrow> getAddr (new_entry f fl e) = f"
proof -
  show "isPresent (new_entry f fl e)"
    by (simp add: isPresent_bit new_entry_def setPresent_def bit_simps PAGE_PRESENT_def)
  have "getAddr (new_entry f fl e) = f AND PAGE_MASK"
    by (rule bit_eqI) (auto simp: new_entry_def setPresent_def bit_simps PAGE_PRESENT_def)
  then show "aligned f \<Longrightarrow> getAddr (new_entry f fl e) = f" by (simp add: page_mask_id)
qed

section \<open>The tables of the slot\<close>

definition points :: "'a paging_scheme \<Rightarrow> addr \<Rightarrow> nat \<Rightarrow> addr \<Rightarrow> bool" where
  "points s t i u \<longleftrightarrow> isPresent (phys s (entry_at t i)) \<and> getAddr (phys s (entry_at t i)) = u"

definition empty_table :: "'a paging_scheme \<Rightarrow> addr \<Rightarrow> bool" where
  "empty_table s t \<longleftrightarrow> (\<forall>i < 512. \<not> isPresent (phys s (entry_at t i)))"

text \<open>Page \<open>n\<close> of the slot has the indices \<open>[509, 0, n div 512, n mod 512]\<close>.\<close>

definition page_tables :: "'a paging_scheme \<Rightarrow> nat \<Rightarrow> addr \<Rightarrow> addr \<Rightarrow> (nat \<Rightarrow> addr) \<Rightarrow> addr list" where
  "page_tables s N t3 t2 t1 = pml4 s # (if N = 0 then [] else t3 # t2 # map t1 [0..<(N + 511) div 512])"

definition slot_ok :: "'a paging_scheme \<Rightarrow> nat \<Rightarrow> addr \<Rightarrow> addr \<Rightarrow> (nat \<Rightarrow> addr) \<Rightarrow> bool" where
  "slot_ok s N t3 t2 t1 \<longleftrightarrow> self_map s \<and> distinct (page_tables s N t3 t2 t1) \<and>
     (if N = 0 then \<not> isPresent (phys s (entry_at (pml4 s) 509))
      else points s (pml4 s) 509 t3 \<and> points s t3 0 t2 \<and> (\<forall>z. 0 < z \<and> z < 512 \<longrightarrow> \<not> isPresent (phys s (entry_at t3 z))) \<and>
        (\<forall>y < 512. if 512 * y < N then points s t2 y (t1 y) else \<not> isPresent (phys s (entry_at t2 y))) \<and>
        (\<forall>y < 512. \<forall>x < 512. 512 * y < N \<longrightarrow> (isPresent (phys s (entry_at (t1 y) x)) \<longleftrightarrow> 512 * y + x < N)))"

lemma slot_self: "slot_ok s N t3 t2 t1 \<Longrightarrow> self_map s"
  by (simp add: slot_ok_def)

lemma walk_slot:
  assumes ok: "slot_ok s N t3 t2 t1" and i: "z < 512" "y < 512" "x < 512"
  shows "walk (phys s) (pml4 s) [509, z, y] = (if z = 0 \<and> 512 * y < N then Some (t1 y) else None)"
    "walk (phys s) (pml4 s) [509, z, y, x] = None \<longleftrightarrow> \<not> (z = 0 \<and> 512 * y + x < N)"
proof -
  show w: "walk (phys s) (pml4 s) [509, z, y] = (if z = 0 \<and> 512 * y < N then Some (t1 y) else None)"
    using ok i by (cases "N = 0"; cases "z = 0"; cases "512 * y < N") (auto simp: slot_ok_def points_def Let_def)
  have "walk (phys s) (pml4 s) [509, z, y, x] = do { t \<leftarrow> walk (phys s) (pml4 s) [509, z, y]; walk (phys s) t [x] }"
    using walk_append [of "phys s" "pml4 s" "[509, z, y]" "[x]"] by simp
  then show "walk (phys s) (pml4 s) [509, z, y, x] = None \<longleftrightarrow> \<not> (z = 0 \<and> 512 * y + x < N)"
    using ok i w by (auto simp: slot_ok_def Let_def)
qed

text \<open>The lookup of page \<open>n\<close>, for indices as \<open>alloc_vm\<close> passes them.\<close>

lemma lookup_slot:
  assumes ok: "slot_ok s N t3 t2 t1" and i: "z < 512" "y < 512" "x < 512"
  shows "\<exists>e. getEntryLevel_idx 509 z y x PAGE s = Some e \<and> (e = NULL \<longleftrightarrow> \<not> (z = 0 \<and> 512 * unat y + unat x < N))"
proof -
  have u: "unat z < 512" "unat y < 512" "unat x < 512" "unat (509 :: uint16) = 509" "(509 :: uint16) < 512"
    using i by (auto simp: word_less_nat_alt)
  have "unat z = 0 \<longleftrightarrow> z = 0" by (simp add: unat_eq_0)
  then show ?thesis
    using lookup_page [OF slot_self [OF ok] u(5) i] walk_slot(2) [OF ok u(1-3)] arr_not_null [OF u(5) i] u(4)
    by auto
qed

lemma lookup_slot_512:
  assumes ok: "slot_ok s N t3 t2 t1" and y: "unat y < 511" "512 * unat y < N"
  shows "if 512 * (unat y + 1) < N then \<exists>e. getEntryLevel_idx 509 0 y 512 PAGE s = Some e \<and> e \<noteq> NULL
    else getEntryLevel_idx 509 0 y 512 PAGE s = None"
proof -
  have u: "(509 :: uint16) < 512" "(0 :: uint16) < 512" "y < 511" "y < 512" "y + 1 < 512" "unat (509 :: uint16) = 509" "unat (y + 1) = unat y + 1"
    using y by (auto simp: word_less_nat_alt unat_add_no_wrap)
  have w: "walk (phys s) (pml4 s) [unat (509 :: uint16), unat (0 :: uint16), unat y] \<noteq> None"
    using walk_slot(1) [OF ok, of 0 "unat y" 0] y u by simp
  show ?thesis
    using lookup_512 [OF slot_self [OF ok] u(1-3) w] walk_slot [OF ok, of 0 "unat y + 1" 0] y u arr_not_null [OF u(1,2,5,2)]
    by auto
qed

section \<open>The scan of \<open>alloc_vm\<close>\<close>

lemma unat_ucast_small: "unat (x :: 'a::len word) < 2 ^ LENGTH('b::len) \<Longrightarrow> unat (ucast x :: 'b word) = unat x"
  by (simp add: unsigned_ucast_eq take_bit_nat_eq_self)

text \<open>The position at page \<open>k\<close>: \<open>x\<close> runs to 512 before \<open>y\<close> moves on.\<close>

definition y_at :: "nat \<Rightarrow> nat" where
  "y_at k = (k - 1) div 512"

definition x_at :: "nat \<Rightarrow> nat" where
  "x_at k = (if k = 0 then 0 else (k - 1) mod 512 + 1)"

definition place :: "nat \<Rightarrow> uint16 \<times> uint16 \<times> uint16" where
  "place k = (0, of_nat (y_at k), of_nat (x_at k))"

lemma at_sum: "512 * y_at k + x_at k = k"
  by (cases k) (auto simp: y_at_def x_at_def)

lemma x_at_le: "x_at k \<le> 512"
proof -
  have "(k - 1) mod 512 < 512" by (rule mod_less_divisor) simp
  then show ?thesis unfolding x_at_def by (split if_split) linarith
qed

lemma at_Suc:
  "x_at (Suc k) = (if x_at k = 512 then 1 else x_at k + 1)" "y_at (Suc k) = (if x_at k = 512 then y_at k + 1 else y_at k)"
proof -
  have "x_at (Suc k) = (if x_at k = 512 then 1 else x_at k + 1) \<and> y_at (Suc k) = (if x_at k = 512 then y_at k + 1 else y_at k)"
  proof (cases k)
    case (Suc j)
    then show ?thesis by (simp add: x_at_def y_at_def mod_Suc div_Suc)
  qed (simp add: x_at_def y_at_def)
  then show "x_at (Suc k) = (if x_at k = 512 then 1 else x_at k + 1)" "y_at (Suc k) = (if x_at k = 512 then y_at k + 1 else y_at k)"
    by simp_all
qed

lemma y_at_less: "k < 2 ^ 18 \<Longrightarrow> y_at k < 512"
  by (simp add: y_at_def)

lemma next_place_nat:
  assumes "x \<le> 512" "y < 512"
  shows "next_place 0 (of_nat y) (of_nat x) 1 =
    (0, of_nat (if x = 512 then y + 1 else y), of_nat (if x = 512 then 1 else x + 1))"
proof -
  have u: "unat (of_nat x :: uint16) = x" "unat (of_nat y :: uint16) = y" "unat (of_nat (x + 1) :: uint16) = x + 1"
    using assms by (simp_all add: unat_of_nat_small del: of_nat_add of_nat_Suc)
  have "unat (ucast (of_nat x :: uint16) :: uint32) = x" using u(1) by (simp add: unat_ucast_up)
  then have "unat (ucast (of_nat x :: uint16) + (1 :: uint32)) = x + 1"
    using assms(1) by (subst unat_add_no_wrap) auto
  then have e: "(ucast (ucast (of_nat x :: uint16) + (1 :: uint32)) :: uint16) = of_nat (x + 1)"
    using assms(1) u(3) by (subst word_unat_eq_iff) (simp add: unat_ucast_small del: of_nat_add of_nat_Suc)
  show ?thesis
  proof (cases "x = 512")
    case True
    have "unat (of_nat y + 1 :: uint16) = y + 1" using assms(2) u(2) by (subst unat_add_no_wrap) auto
    moreover have "unat (512 :: uint16) = 512" by simp
    ultimately have "\<not> 512 < (of_nat y + 1 :: uint16)" using assms(2) unfolding word_less_nat_alt by linarith
    moreover have "(ucast (ucast (of_nat x :: uint16) + (1 :: uint32)) :: uint16) = 513"
      using e unfolding True by simp
    moreover have "(512 :: uint16) < 513" "(513 :: uint16) div 512 = 1" "(513 :: uint16) mod 512 = 1"
      by (simp_all add: word_less_nat_alt word_unat_eq_iff unat_div unat_mod)
    moreover have "of_nat (y + 1) = (of_nat y + 1 :: uint16)" by simp
    ultimately show ?thesis
      unfolding next_place_def Let_def by (simp only: if_True if_False simp_thms True of_nat_1)
  next
    case False
    then have "\<not> 512 < (of_nat (x + 1) :: uint16)" using assms(1) u(3) by (simp only: word_less_nat_alt) simp
    then show ?thesis using e False by (simp add: next_place_def Let_def del: of_nat_add of_nat_Suc)
  qed
qed

lemma next_place_at: "k < 2 ^ 18 \<Longrightarrow> next_place 0 (of_nat (y_at k)) (of_nat (x_at k)) 1 = place (Suc k)"
  using next_place_nat [OF x_at_le y_at_less, of k] by (simp add: place_def at_Suc)

text \<open>Below \<open>N\<close> the scan moves on by one page.\<close>

lemma scan_mapped:
  assumes ok: "slot_ok s N t3 t2 t1" and k: "k < N" "N \<le> 2 ^ 18"
  shows "alloc_vm_loop ff 509 pages fl (place k) s = alloc_vm_loop ff 509 pages fl (place (Suc k)) s"
proof -
  have b: "y_at k < 512" "x_at k \<le> 512" using k y_at_less x_at_le by auto
  have u: "unat (of_nat (y_at k) :: uint16) = y_at k" "unat (of_nat (x_at k) :: uint16) = x_at k"
    using b by (simp_all add: unat_of_nat_small)
  have "\<exists>e. getEntryLevel_idx 509 0 (of_nat (y_at k)) (of_nat (x_at k)) PAGE s = Some e \<and> e \<noteq> NULL"
  proof (cases "x_at k = 512")
    case True
    then have "512 * (y_at k + 1) < N" using at_sum [of k] k by simp
    moreover from this have "y_at k < 511" using k(2) by simp
    ultimately show ?thesis using lookup_slot_512 [OF ok, of "of_nat (y_at k)"] u True by simp
  next
    case False
    then show ?thesis
      using lookup_slot [OF ok, of 0 "of_nat (y_at k)" "of_nat (x_at k)"] b u at_sum [of k] k
      by (auto simp: word_less_nat_alt)
  qed
  then obtain e where e: "getEntryLevel_idx 509 0 (of_nat (y_at k)) (of_nat (x_at k)) PAGE s = Some e" "e \<noteq> NULL"
    by blast
  have "scan_run 509 pages 0 (of_nat (y_at k)) (of_nat (x_at k)) 1 e s = Some (1, e)"
    using e(2) by (subst scan_run.simps) simp
  then show ?thesis using e next_place_at [of k] k
    by (subst alloc_vm_loop.simps) (simp add: place_def)
qed

lemma scan_to_end:
  assumes "slot_ok s N t3 t2 t1" "N \<le> 2 ^ 18"
  shows "alloc_vm ff 509 pages fl s = alloc_vm_loop ff 509 pages fl (place N) s"
proof -
  have "k \<le> N \<Longrightarrow> alloc_vm ff 509 pages fl s = alloc_vm_loop ff 509 pages fl (place k) s" for k
  proof (induction k)
    case 0
    then show ?case by (simp add: alloc_vm_def place_def y_at_def x_at_def)
  next
    case (Suc k)
    then show ?case using scan_mapped [OF assms(1) _ assms(2), of k] by simp
  qed
  then show ?thesis by simp
qed

text \<open>From \<open>N\<close> on every page is free.\<close>

lemma scan_free:
  assumes ok: "slot_ok s N t3 t2 t1" and N: "N = 512 * unat y + unat x" "unat y < 512" "unat x < 512"
    and p: "unat pages < 2 ^ 20"
  shows "unat i \<le> unat pages \<or> i = 1 \<Longrightarrow> \<exists>r. scan_run 509 pages 0 y x i NULL s = Some (r, NULL)"
proof (induction "unat pages - unat i" arbitrary: i rule: less_induct)
  case less
  show ?case
  proof (cases "i < pages")
    case False
    then show ?thesis by (subst scan_run.simps) simp
  next
    case True
    then have i: "unat i < unat pages" by (simp add: word_less_nat_alt)
    let ?xi = "ucast x + i" and ?yy = "(ucast y :: uint32) + (ucast x + i) div 512"
    have xi: "unat ?xi = unat x + unat i"
      using N(3) i p by (subst unat_add_no_wrap) (auto simp: unat_ucast_up)
    have yy: "unat ?yy = unat y + (unat x + unat i) div 512"
      using N i p xi by (subst unat_add_no_wrap) (auto simp: unat_ucast_up unat_div)
    let ?n = "(unat x + unat i) div 512"
    have nb: "?n < 2 ^ 12" using N(3) i p by simp
    have z: "unat (ucast (ucast (0 :: uint16) + ?yy div 512) :: uint16) = (unat y + ?n) div 512"
      using yy nb N(2) by (simp add: unat_div unat_ucast_small)
    have y: "unat (ucast (?yy mod 512) :: uint16) = (unat y + ?n) mod 512"
      using yy by (simp add: unat_mod unat_ucast_small)
    have x: "unat (ucast (?xi mod 512) :: uint16) = (unat x + unat i) mod 512"
      using xi by (simp add: unat_mod unat_ucast_small)
    have nx: "\<not> ((unat y + ?n) div 512 = 0 \<and> 512 * ((unat y + ?n) mod 512) + (unat x + unat i) mod 512 < N)"
    proof
      assume a: "(unat y + ?n) div 512 = 0 \<and> 512 * ((unat y + ?n) mod 512) + (unat x + unat i) mod 512 < N"
      then have "(unat y + ?n) mod 512 = unat y + ?n" by (metis div_eq_0_iff mod_less zero_neq_numeral)
      then have "512 * unat y + (512 * ?n + (unat x + unat i) mod 512) < N" using a by simp
      then show False unfolding mult_div_mod_eq using N(1) by simp
    qed
    have "\<exists>e. getEntryLevel_idx 509 (ucast (ucast (0 :: uint16) + ?yy div 512)) (ucast (?yy mod 512)) (ucast (?xi mod 512)) PAGE s = Some e \<and> e = NULL"
      using lookup_slot [OF ok, of "ucast (ucast (0 :: uint16) + ?yy div 512)" "ucast (?yy mod 512)" "ucast (?xi mod 512)"]
        nx z y x nb N(2) by (auto simp: word_less_nat_alt unat_eq_0 [symmetric] simp del: unat_eq_0)
    moreover have "unat (i + 1) = unat i + 1" using i p by (subst unat_add_no_wrap) auto
    moreover have "\<exists>r. scan_run 509 pages 0 y x (i + 1) NULL s = Some (r, NULL)"
      by (rule less.hyps) (use i calculation(2) in auto)
    ultimately show ?thesis using True by (subst scan_run.simps) (auto simp: Let_def)
  qed
qed

text \<open>
  So \<open>alloc_vm\<close> takes the pages after the last one mapped. When the last table is exactly full, the
  scan looks for entry 512 of it, in a table that is not there: a page fault.
\<close>

definition slot_addr :: "nat \<Rightarrow> addr" where
  "slot_addr n = CONVERT_PAGE_IDX_TO_ADDR 509 0 (of_nat (n div 512)) (of_nat (n mod 512))"

lemma alloc_vm_slot:
  assumes ok: "slot_ok s N t3 t2 t1" and N: "N < 2 ^ 18" and p: "unat pages < 2 ^ 20"
  shows "alloc_vm ff 509 pages fl s =
    (if 0 < N \<and> N mod 512 = 0 then None
     else do { s \<leftarrow> map_pages ff (slot_addr N) pages fl s; Some (slot_addr N, s) })"
proof (cases "0 < N \<and> N mod 512 = 0")
  case True
  then have "512 dvd N" by (simp add: dvd_eq_mod_eq_0)
  then obtain q where q: "N = 512 * q" by (rule dvdE)
  obtain j where "q = Suc j" using True q by (cases q) auto
  then have j: "N = 512 * (j + 1)" using q by simp
  then have a: "y_at N = j" "x_at N = 512" by (simp_all add: y_at_def x_at_def)
  have jb: "j < 511" using j N by simp
  have "getEntryLevel_idx 509 0 (of_nat j) 512 PAGE s = None"
    using lookup_slot_512 [OF ok, of "of_nat j"] j jb by (simp add: unat_of_nat_small)
  then have "alloc_vm_loop ff 509 pages fl (place N) s = None"
    by (subst alloc_vm_loop.simps) (simp add: place_def a)
  then show ?thesis using scan_to_end [OF ok] N True by simp
next
  case False
  have a: "y_at N = N div 512" "x_at N = N mod 512"
  proof -
    have "x_at N \<noteq> 512"
    proof
      assume "x_at N = 512"
      then have "N = 512 * (y_at N + 1)" using at_sum [of N] by simp
      then show False using False by (metis mod_mult_self1_is_0 mult_pos_pos zero_less_numeral add_gr_0 zero_less_one)
    qed
    then have x: "x_at N < 512" using x_at_le [of N] by simp
    have "(512 * y_at N + x_at N) div 512 = y_at N" "(512 * y_at N + x_at N) mod 512 = x_at N" using x by simp_all
    then show "y_at N = N div 512" "x_at N = N mod 512" unfolding at_sum by simp_all
  qed
  let ?y = "of_nat (N div 512) :: uint16" and ?x = "of_nat (N mod 512) :: uint16"
  have u: "unat ?y = N div 512" "unat ?x = N mod 512" using N by (simp_all add: unat_of_nat_small)
  have b: "?y < 512" "?x < 512" using N u by (simp_all add: word_less_nat_alt)
  obtain e where e: "getEntryLevel_idx 509 0 ?y ?x PAGE s = Some e" "e = NULL"
    using lookup_slot [OF ok _ b, of 0] u by auto
  have "N div 512 < 512" using N by simp
  then obtain r where r: "scan_run 509 pages 0 ?y ?x 1 NULL s = Some (r, NULL)"
    using scan_free [OF ok, of ?y ?x pages 1] p u by auto
  have "alloc_vm_loop ff 509 pages fl (place N) s =
     do { s \<leftarrow> map_pages ff (slot_addr N) pages fl s; Some (slot_addr N, s) }"
    using e r by (subst alloc_vm_loop.simps) (simp add: place_def a slot_addr_def Let_def)
  then show ?thesis using scan_to_end [OF ok, of ff pages fl] N False by auto
qed

lemma slot_addr_0: "slot_addr 0 = 0xFFFFFE8000000000"
  by (simp add: slot_addr_def CONVERT_PAGE_IDX_TO_ADDR_def Let_def)

lemma slot_addr_plus:
  assumes "n < 2 ^ 18"
  shows "slot_addr n = slot_addr 0 + of_nat (4096 * n)"
proof -
  have u: "unat (of_nat (n div 512) :: uint16) = n div 512" "unat (of_nat (n mod 512) :: uint16) = n mod 512"
    using assms by (simp_all add: unat_of_nat_small)
  then have l: "(of_nat (n div 512) :: uint16) < 512" "(of_nat (n mod 512) :: uint16) < 512"
    using assms by (simp_all add: word_less_nat_alt)
  have e: "(ucast (of_nat (n div 512) :: uint16) :: uint64) = of_nat (n div 512)"
     "(ucast (of_nat (n mod 512) :: uint16) :: uint64) = of_nat (n mod 512)"
    using assms u by (simp_all add: word_unat_eq_iff unat_ucast_up unat_of_nat_small)
  have "slot_addr n = slot_addr 0 + (of_nat (n div 512) * 512 + of_nat (n mod 512)) * 4096"
    using CONVERT_linear [of 509 0 "of_nat (n div 512)" "of_nat (n mod 512)"] l by (simp add: slot_addr_def e)
  also have "(of_nat (n div 512) * 512 + of_nat (n mod 512) :: uint64) = of_nat (n div 512 * 512 + n mod 512)"
    by (simp only: of_nat_add of_nat_mult of_nat_numeral)
  also have "n div 512 * 512 + n mod 512 = n" by simp
  finally show ?thesis by (simp add: mult.commute)
qed

lemma unat_slot_addr:
  assumes "n < 2 ^ 18"
  shows "unat (slot_addr n) = 0xFFFFFE8000000000 + 4096 * n"
proof -
  have "unat (of_nat (4096 * n) :: uint64) = 4096 * n"
    using assms by (intro unat_of_nat_small) simp
  then show ?thesis
    unfolding slot_addr_plus [OF assms] slot_addr_0 using assms
    by (subst unat_add_no_wrap) simp_all
qed

lemma slot_addr_Suc:
  assumes "Suc n < 2 ^ 18"
  shows "slot_addr n + PAGE_SIZE = slot_addr (Suc n)"
proof -
  have n: "n < 2 ^ 18" using assms by simp
  show ?thesis unfolding slot_addr_plus [OF n] slot_addr_plus [OF assms] by (simp add: PAGE_SIZE_def algebra_simps)
qed

end
