(* ===== verification/PageTable_Grow.thy ===== *)
theory PageTable_Grow
  imports PageTable_Slot
begin

text \<open>
  Extending slot 509 by the next page: what \<open>getOrCreateEntryLevel\<close> writes when the table of the
  page exists, when it starts a new table, and for the first page of all.
\<close>

section \<open>What a write to an entry changes\<close>

lemma phys_upd:
  assumes "aligned t" "aligned u" "i < 512" "j < 512"
  shows "(m(entry_at u j := e)) (entry_at t i) = (if t = u \<and> i = j then e else m (entry_at t i))"
  using entry_at_eq [OF assms] by simp

lemma aligned_pml4 [simp]: "aligned (pml4 s)"
  by (simp add: pml4_def)

lemma points_aligned: "points s t i u \<Longrightarrow> aligned u"
  by (auto simp: points_def)

text \<open>The entries a walk reads.\<close>

fun path :: "(addr \<Rightarrow> uint64) \<Rightarrow> addr \<Rightarrow> nat list \<Rightarrow> addr list" where
  "path m t [] = []"
| "path m t (i # is) = entry_at t i # (if isPresent (m (entry_at t i)) then path m (getAddr (m (entry_at t i))) is else [])"

lemma walk_upd: "p \<notin> set (path m t is) \<Longrightarrow> walk (m(p := e)) t is = walk m t is"
  by (induction "is" arbitrary: t) (auto simp: Let_def)

lemma mmu_cong: "phys s' = phys s \<Longrightarrow> cr3 s' = cr3 s \<Longrightarrow> mmu s' v = mmu s v"
  by (simp add: mmu_def)

lemma create_entry_eq:
  assumes "allocate ff s = Some (f, s1)" "phys s1 = phys s" "cr3 s1 = cr3 s"
    and "mmu s v = Some p" "\<And>e. mmu (s\<lparr>phys := (phys s)(p := e)\<rparr>) v = Some p"
  shows "create_entry ff fl v s = Some (s1\<lparr>phys := (phys s)(p := new_entry f fl (phys s p))\<rparr>)"
proof -
  have m: "mmu s1 v = Some p" "\<And>e. mmu (s1\<lparr>phys := (phys s)(p := e)\<rparr>) v = Some p"
    using assms mmu_cong [of s1 s] mmu_cong [of "s1\<lparr>phys := (phys s)(p := _)\<rparr>" "s\<lparr>phys := (phys s)(p := _)\<rparr>"] by simp_all
  show ?thesis
    using assms(1,2) m by (simp add: create_entry_def upd64_def new_entry_def)
qed

section \<open>The tables after the extension\<close>

lemma slot_tables:
  assumes "slot_ok s N t3 t2 t1" "0 < N"
  shows "points s (pml4 s) 509 t3" "points s t3 0 t2" "\<And>y. y < 512 \<Longrightarrow> 512 * y < N \<Longrightarrow> points s t2 y (t1 y)"
    "\<And>y. y < 512 \<Longrightarrow> N \<le> 512 * y \<Longrightarrow> \<not> isPresent (phys s (entry_at t2 y))"
    "\<And>z. 0 < z \<Longrightarrow> z < 512 \<Longrightarrow> \<not> isPresent (phys s (entry_at t3 z))"
    "\<And>y x. y < 512 \<Longrightarrow> x < 512 \<Longrightarrow> 512 * y < N \<Longrightarrow> isPresent (phys s (entry_at (t1 y) x)) \<longleftrightarrow> 512 * y + x < N"
    "distinct (pml4 s # t3 # t2 # map t1 [0..<(N + 511) div 512])"
  using assms by (auto simp: slot_ok_def page_tables_def)

lemma table_count: "512 * y < N \<longleftrightarrow> y < (N + 511) div (512 :: nat)"
proof -
  have "y < (N + 511) div 512 \<longleftrightarrow> (y + 1) * 512 \<le> N + 511"
    using less_eq_div_iff_mult_less_eq [of 512 "y + 1" "N + 511"] by (simp add: Suc_le_eq)
  then show ?thesis by auto
qed

lemma t1_apart:
  assumes "slot_ok s N t3 t2 t1" "512 * y < N"
  shows "t1 y \<noteq> pml4 s" "t1 y \<noteq> t3" "t1 y \<noteq> t2" "\<And>j. 512 * j < N \<Longrightarrow> t1 j = t1 y \<longleftrightarrow> j = y"
proof -
  have N: "0 < N" using assms(2) by simp
  note D = slot_tables(7) [OF assms(1) N]
  have y: "y \<in> set [0..<(N + 511) div 512]" using assms(2) by (simp add: table_count)
  then have "t1 y \<in> set (map t1 [0..<(N + 511) div 512])" unfolding set_map by (rule imageI)
  then show "t1 y \<noteq> pml4 s" "t1 y \<noteq> t3" "t1 y \<noteq> t2" using D by auto
  show "t1 j = t1 y \<longleftrightarrow> j = y" if "512 * j < N" for j
    using D y that by (auto simp: distinct_map table_count dest: inj_onD)
qed

lemma extend_page:
  assumes ok: "slot_ok s N t3 t2 t1" and N: "N = 512 * y + x" "0 < x" "x < 512" "y < 512"
    and e: "isPresent e" and s': "phys s' = (phys s)(entry_at (t1 y) x := e)" "cr3 s' = cr3 s"
  shows "slot_ok s' (N + 1) t3 t2 t1"
proof -
  have N0: "0 < N" and y: "512 * y < N" using N by auto
  note T = slot_tables [OF ok N0] and A = t1_apart [OF ok y]
  have al: "aligned t3" "aligned t2" "\<And>j. j < 512 \<Longrightarrow> 512 * j < N \<Longrightarrow> aligned (t1 j)"
    using T(1-3) points_aligned by blast+
  have t: "pml4 s' = pml4 s" using s'(2) by (simp add: pml4_def)
  have c: "(N + 1 + 511) div 512 = (N + 511) div 512"
  proof -
    have "(N + 1 + 511) div 512 = y + 1" "(N + 511) div 512 = y + 1" using N by (intro div_nat_eqI; simp)+
    then show ?thesis by simp
  qed
  have j: "512 * j < N + 1 \<longleftrightarrow> 512 * j < N" for j
  proof -
    have "N mod 512 = x" using N(1,3) by simp
    then have "512 * j \<noteq> N" using N(2) by auto
    then show ?thesis by auto
  qed
  have P: "phys s' (entry_at u i) = (if u = t1 y \<and> i = x then e else phys s (entry_at u i))"
    if "aligned u" "i < 512" for u i
    unfolding s'(1) by (rule phys_upd [OF that(1) al(3) [OF N(4) y] that(2) N(3)])
  have D: "distinct (page_tables s' (N + 1) t3 t2 t1)" unfolding page_tables_def t c using T(7) N0 by simp
  have S: "self_map s'" using slot_self [OF ok] A(1) by (simp add: self_map_def t P Let_def)
  have p1: "points s' (pml4 s) 509 t3" "points s' t3 0 t2" using T(1,2) A by (auto simp: points_def P al)
  have p2: "\<not> isPresent (phys s' (entry_at t3 i))" if "0 < i" "i < 512" for i
    using T(5) [OF that] A(2) that by (simp add: P al)
  have p3: "if 512 * i < N + 1 then points s' t2 i (t1 i) else \<not> isPresent (phys s' (entry_at t2 i))"
    if i: "i < 512" for i
    using T(3) [OF i] T(4) [OF i] A(3) i unfolding j by (cases "512 * i < N") (simp_all add: points_def P al)
  have p4: "isPresent (phys s' (entry_at (t1 k) i)) \<longleftrightarrow> 512 * k + i < N + 1"
    if k: "k < 512" "i < 512" "512 * k < N + 1" for i k
  proof -
    have kN: "512 * k < N" using k(3) j by simp
    show ?thesis
    proof (cases "k = y \<and> i = x")
      case True
      then show ?thesis using e N(1) al(3) [OF N(4) y] N(3) by (simp add: P)
    next
      case False
      then have "512 * k + i \<noteq> N"
        using N(1,3) k(2) by (metis add_left_imp_eq div_mult_self4 div_less mod_less mod_mult_self4 add_0_right zero_neq_numeral)
      then show ?thesis using T(6) [OF k(1,2) kN] A(4) [OF kN] False al(3) [OF k(1) kN] k(2) by (simp add: P) auto
    qed
  qed
  show ?thesis unfolding slot_ok_def t using D S p1 p2 p3 p4 by (simp del: fun_upd_apply)
qed

lemma extend_table:
  assumes ok: "slot_ok s N t3 t2 t1" and N: "N = 512 * y" "0 < y" "y < 512"
    and a: "aligned a" "a \<notin> set (page_tables s N t3 t2 t1)" "empty_table s a"
    and e: "isPresent e1" "getAddr e1 = a" "isPresent e0"
    and s': "phys s' = (phys s)(entry_at t2 y := e1, entry_at a 0 := e0)" "cr3 s' = cr3 s"
  shows "slot_ok s' (N + 1) t3 t2 (t1(y := a))"
proof -
  have N0: "0 < N" using N by auto
  note T = slot_tables [OF ok N0]
  have al: "aligned t3" "aligned t2" "\<And>j. j < 512 \<Longrightarrow> 512 * j < N \<Longrightarrow> aligned (t1 j)"
    using T(1-3) points_aligned by blast+
  have t: "pml4 s' = pml4 s" using s'(2) by (simp add: pml4_def)
  have c: "(N + 1 + 511) div 512 = y + 1" "(N + 511) div 512 = y" using N by (intro div_nat_eqI; simp)+
  have j: "512 * j < N + 1 \<longleftrightarrow> j = y \<or> 512 * j < N" "512 * j < N \<longleftrightarrow> j < y" for j using N by auto
  have ap: "a \<noteq> pml4 s" "a \<noteq> t3" "a \<noteq> t2" "\<And>j. j < y \<Longrightarrow> t1 j \<noteq> a" "\<And>j. j < y \<Longrightarrow> t1 j \<noteq> t2"
    using a(2) T(7) N0 c by (auto simp: page_tables_def)
  have P: "phys s' (entry_at u i) = (if u = a \<and> i = 0 then e0 else if u = t2 \<and> i = y then e1 else phys s (entry_at u i))"
    if "aligned u" "i < 512" for u i
    unfolding s'(1) fun_upd_apply using entry_at_eq [OF that(1) a(1) that(2), of 0] entry_at_eq [OF that(1) al(2) that(2) N(3)] by simp
  have "page_tables s' (N + 1) t3 t2 (t1(y := a)) = page_tables s N t3 t2 t1 @ [a]"
    using N0 c by (simp add: page_tables_def t)
  then have D: "distinct (page_tables s' (N + 1) t3 t2 (t1(y := a)))"
    using a(2) ok by (simp add: slot_ok_def)
  have S: "self_map s'" using slot_self [OF ok] ap(1) T(7) by (simp add: self_map_def t P Let_def)
  have z: "\<not> isPresent (phys s (entry_at a i))" if "i < 512" for i using a(3) that by (simp add: empty_table_def)
  have p1: "points s' (pml4 s) 509 t3" "points s' t3 0 t2" using T(1,2,7) ap by (auto simp: points_def P al)
  have p2: "\<not> isPresent (phys s' (entry_at t3 i))" if "0 < i" "i < 512" for i
    using T(5) [OF that] T(7) ap that by (simp add: P al)
  have p3: "if 512 * j < N + 1 then points s' t2 j ((t1(y := a)) j) else \<not> isPresent (phys s' (entry_at t2 j))"
    if "j < 512" for j
  proof (cases "512 * j < N + 1")
    case True
    then show ?thesis using T(3) [OF that] ap e that j by (auto simp: points_def P al)
  next
    case False
    then show ?thesis using T(4) [OF that] ap that j [of j] by (simp add: P al)
  qed
  have p4: "isPresent (phys s' (entry_at ((t1(y := a)) j) i)) \<longleftrightarrow> 512 * j + i < N + 1"
    if "j < 512" "i < 512" "512 * j < N + 1" for i j
  proof (cases "j = y")
    case True
    then show ?thesis using ap(3) e(3) z [OF that(2)] that(2) N(1) by (simp add: P a(1))
  next
    case False
    then have jl: "512 * j < N" "j < y" using that(3) j by blast+
    then show ?thesis using ap T(6) [OF that(1,2) jl(1)] al(3) [OF that(1) jl(1)] that N(1) False by (simp add: P)
  qed
  show ?thesis unfolding slot_ok_def t using D S p1 p2 p3 p4 by (simp del: fun_upd_apply)
qed

lemma extend_first:
  assumes ok: "slot_ok s 0 t3 t2 t1"
    and a: "aligned a" "aligned b" "aligned c" "distinct [pml4 s, a, b, c]" "empty_table s a" "empty_table s b" "empty_table s c"
    and e: "isPresent e3" "getAddr e3 = a" "isPresent e2" "getAddr e2 = b" "isPresent e1" "getAddr e1 = c" "isPresent e0"
    and s': "phys s' = (phys s)(entry_at (pml4 s) 509 := e3, entry_at a 0 := e2, entry_at b 0 := e1, entry_at c 0 := e0)" "cr3 s' = cr3 s"
  shows "slot_ok s' 1 a b (\<lambda>_. c)"
proof -
  have t: "pml4 s' = pml4 s" using s'(2) by (simp add: pml4_def)
  have P: "phys s' (entry_at u i) = (if u = c \<and> i = 0 then e0 else if u = b \<and> i = 0 then e1 else
      if u = a \<and> i = 0 then e2 else if u = pml4 s \<and> i = 509 then e3 else phys s (entry_at u i))"
    if "aligned u" "i < 512" for u i
  proof -
    have q: "entry_at u i = entry_at a 0 \<longleftrightarrow> u = a \<and> i = 0" "entry_at u i = entry_at b 0 \<longleftrightarrow> u = b \<and> i = 0"
      "entry_at u i = entry_at c 0 \<longleftrightarrow> u = c \<and> i = 0" "entry_at u i = entry_at (pml4 s) 509 \<longleftrightarrow> u = pml4 s \<and> i = 509"
      using that a(1-3) by (simp_all add: entry_at_eq)
    show ?thesis unfolding s'(1) fun_upd_apply q by (rule refl)
  qed
  have z: "\<not> isPresent (phys s (entry_at a i))" "\<not> isPresent (phys s (entry_at b i))" "\<not> isPresent (phys s (entry_at c i))"
    if "i < 512" for i using a(5-7) that by (simp_all add: empty_table_def)
  have S: "self_map s'" using slot_self [OF ok] a(4) by (auto simp add: self_map_def t P Let_def)
  have D: "distinct (page_tables s' 1 a b (\<lambda>_. c))" using a(4) by (auto simp: page_tables_def t)
  have p1: "points s' (pml4 s) 509 a" "points s' a 0 b" using a e by (auto simp: points_def P)
  have p2: "\<not> isPresent (phys s' (entry_at a i))" if "0 < i" "i < 512" for i using a that z by (auto simp: P)
  have p3: "if 512 * j < 1 then points s' b j c else \<not> isPresent (phys s' (entry_at b j))" if "j < 512" for j
    using a e z that by (auto simp: points_def P)
  have p4: "isPresent (phys s' (entry_at c i)) \<longleftrightarrow> 512 * j + i < 1" if "j < 512" "i < 512" "512 * j < 1" for i j
    using a e z that by (auto simp: P)
  show ?thesis unfolding slot_ok_def t using D S p1 p2 p3 p4 by (simp del: fun_upd_apply)
qed

section \<open>The loop of \<open>getOrCreateEntryLevel\<close>\<close>

text \<open>Address \<open>v\<close> leads to the entry at \<open>p\<close>, and still does after any write there.\<close>

definition leads :: "'a paging_scheme \<Rightarrow> addr \<Rightarrow> addr \<Rightarrow> bool" where
  "leads s v p \<longleftrightarrow> mmu s v = Some p \<and> (\<forall>e. mmu (s\<lparr>phys := (phys s)(p := e)\<rparr>) v = Some p)"

lemma arr_leads:
  assumes s: "self_map s" and l: "l4 < 512" "l3 < 512" "l2 < 512" "l1 < 512"
    and p: "p \<notin> set (path (phys s) (pml4 s) (510 # js))" and w: "walk (phys s) (pml4 s) js = Some t"
  shows "js = [] \<Longrightarrow> p = entry_at t (unat l4) \<Longrightarrow> leads s (virtualAddrArr l4 l3 l2 l1 ! 3) p"
    "js = [unat l4] \<Longrightarrow> p = entry_at t (unat l3) \<Longrightarrow> leads s (virtualAddrArr l4 l3 l2 l1 ! 2) p"
    "js = [unat l4, unat l3] \<Longrightarrow> p = entry_at t (unat l2) \<Longrightarrow> leads s (virtualAddrArr l4 l3 l2 l1 ! Suc 0) p"
    "js = [unat l4, unat l3, unat l2] \<Longrightarrow> p = entry_at t (unat l1) \<Longrightarrow> leads s (virtualAddrArr l4 l3 l2 l1 ! 0) p"
proof -
  let ?s = "\<lambda>e. s\<lparr>phys := (phys s)(p := e)\<rparr>"
  have t: "pml4 (?s e) = pml4 s" for e by (simp add: pml4_def)
  have p': "p \<noteq> entry_at (pml4 s) 510" "p \<notin> set (path (phys s) (pml4 s) js)"
    using p s by (auto simp: self_map_def Let_def)
  have s': "self_map (?s e)" for e using s p'(1) by (simp add: self_map_def t Let_def)
  have w': "walk (phys (?s e)) (pml4 s) js = Some t" for e
    using walk_upd [OF p'(2)] w by simp
  note A = mmu_arr [OF s l] and B = mmu_arr [OF s' l, unfolded t]
  show "js = [] \<Longrightarrow> p = entry_at t (unat l4) \<Longrightarrow> leads s (virtualAddrArr l4 l3 l2 l1 ! 3) p"
    using A(1) B(1) w by (simp add: leads_def)
  show "js = [unat l4] \<Longrightarrow> p = entry_at t (unat l3) \<Longrightarrow> leads s (virtualAddrArr l4 l3 l2 l1 ! 2) p"
    using A(2) B(2) w w' by (simp add: leads_def del: walk.simps)
  show "js = [unat l4, unat l3] \<Longrightarrow> p = entry_at t (unat l2) \<Longrightarrow> leads s (virtualAddrArr l4 l3 l2 l1 ! Suc 0) p"
    using A(3) B(3) w w' by (simp add: leads_def del: walk.simps)
  show "js = [unat l4, unat l3, unat l2] \<Longrightarrow> p = entry_at t (unat l1) \<Longrightarrow> leads s (virtualAddrArr l4 l3 l2 l1 ! 0) p"
    using A(4) B(4) w w' by (simp add: leads_def del: walk.simps)
qed

lemma more_paging:
  assumes "frames.more s' = frames.more (s :: 'a paging_scheme)"
  shows "phys s' = phys s" "cr3 s' = cr3 s"
  using assms by (cases s; cases s'; simp)+

lemma more_rest: "frames.more s' = frames.more (s :: 'a paging_scheme) \<Longrightarrow> paging.more s' = paging.more s"
  by (cases s; cases s'; simp)

lemma level_skip:
  assumes "leads s (arr ! k) p" "isPresent (phys s p)"
  shows "create_loop ff fl arr 0 (Suc k) True r s = create_loop ff fl arr 0 k True (arr ! k) s"
  using assms by (simp add: leads_def rd64_def Let_def)

lemma level_step:
  assumes "leads s (arr ! k) p" "\<not> isPresent (phys s p) \<or> \<not> present"
  shows "create_loop ff fl arr 0 (Suc k) present r s = do {
     (f, s1) \<leftarrow> allocate ff s;
     s2 \<leftarrow> (if frames.more s1 = frames.more s then Some (s1\<lparr>phys := (phys s)(p := new_entry f fl (phys s p))\<rparr>)
           else create_entry ff fl (arr ! k) s);
     create_loop ff fl arr 0 k False (arr ! k) s2 }"
proof -
  have "create_loop ff fl arr 0 (Suc k) present r s =
     do { s \<leftarrow> create_entry ff fl (arr ! k) s; create_loop ff fl arr 0 k False (arr ! k) s }"
    using assms by (simp add: leads_def rd64_def Let_def)
  moreover have "create_entry ff fl (arr ! k) s = Some (s1\<lparr>phys := (phys s)(p := new_entry f fl (phys s p))\<rparr>)"
    if "allocate ff s = Some (f, s1)" "frames.more s1 = frames.more s" for f s1
    by (rule create_entry_eq [OF that(1) more_paging [OF that(2)]]) (use assms(1) in \<open>auto simp: leads_def\<close>)
  moreover have "create_entry ff fl (arr ! k) s = None" if "allocate ff s = None"
    using that by (simp add: create_entry_def)
  ultimately show ?thesis by (cases "allocate ff s") auto
qed

end
