(* ===== verification/PageTable_Alloc.thy ===== *)
theory PageTable_Alloc
  imports PageTable_Grow
begin

text \<open>
  \<open>alloc_vm\<close> on slot 509: it maps the pages after the last one mapped, on frames that were free,
  and touches nothing else. The frames come from the frame allocator (the locale
  \<open>frame_source\<close>).
\<close>

section \<open>Frames taken\<close>

definition took :: "'a frames_scheme \<Rightarrow> addr list \<Rightarrow> nat set \<Rightarrow> 'a frames_scheme \<Rightarrow> addr list \<Rightarrow> bool" where
  "took s ns U s' ns' \<longleftrightarrow> frames_inv s' ns' \<and> set ns' \<subseteq> set ns \<and> narrower s s' ns' \<and> U \<subseteq> free_frames s ns \<and>
     free_frames s' ns' = free_frames s ns - U \<and> frame_lock0 s' = 0 \<and> frame_lock1 s' = 0 \<and> same_heap s s'"

lemma took_phys: "took s ns U s' ns' \<Longrightarrow> took s ns U (s'\<lparr>phys := m\<rparr>) ns'"
  by (simp add: took_def frames_inv_def free_frames_def buffered_def narrower_def same_heap_def)

lemma took_refl: "frames_inv s ns \<Longrightarrow> frame_lock0 s = 0 \<Longrightarrow> frame_lock1 s = 0 \<Longrightarrow> took s ns {} s ns"
  by (simp add: took_def narrower_def same_heap_def)

lemma took_trans:
  assumes "took s ns U t ms" "took t ms V u ns'"
  shows "took s ns (U \<union> V) u ns'" "U \<inter> V = {}"
proof -
  have "narrower s u ns'" by (rule narrower_trans) (use assms in \<open>auto simp: took_def\<close>)
  then show "took s ns (U \<union> V) u ns'" using assms by (auto simp: took_def same_heap_def)
  show "U \<inter> V = {}" using assms by (auto simp: took_def)
qed

lemma free_aligned: "frames_inv s ns \<Longrightarrow> f \<in> free_frames s ns \<Longrightarrow> 4096 dvd f"
  by (auto simp: frames_inv_def free_frames_def set_listed set_pages_of)

text \<open>Present entries do not change, so what was mapped stays mapped.\<close>

definition keeps :: "'a paging_scheme \<Rightarrow> 'a paging_scheme \<Rightarrow> bool" where
  "keeps s t \<longleftrightarrow> (\<forall>q. isPresent (phys s q) \<longrightarrow> phys t q = phys s q)"

lemma keeps_refl [simp]: "keeps s s"
  by (simp add: keeps_def)

lemma keeps_trans: "keeps s t \<Longrightarrow> keeps t u \<Longrightarrow> keeps s u"
  by (simp add: keeps_def)

lemma walk_keeps: "keeps s t \<Longrightarrow> walk (phys s) u is = Some v \<Longrightarrow> walk (phys t) u is = Some v"
  by (induction "is" arbitrary: u) (auto simp: keeps_def Let_def split: if_splits)

lemma mmu_keeps: "keeps s t \<Longrightarrow> cr3 t = cr3 s \<Longrightarrow> mmu s v = Some p \<Longrightarrow> mmu t v = Some p"
  unfolding mmu_def by (auto simp del: walk.simps split: if_splits bind_splits dest: walk_keeps)

text \<open>The frame behind page \<open>n\<close> of the slot.\<close>

definition page_frame :: "'a paging_scheme \<Rightarrow> nat \<Rightarrow> addr option" where
  "page_frame s n = walk (phys s) (pml4 s) [509, 0, n div 512, n mod 512]"

lemma page_frame_slot:
  assumes ok: "slot_ok s N t3 t2 t1" and n: "n < N" "n < 2 ^ 18"
  shows "page_frame s n = Some (getAddr (phys s (entry_at (t1 (n div 512)) (n mod 512))))"
proof -
  have i: "(0 :: nat) < 512" "n div 512 < 512" "n mod 512 < 512" using n(2) by simp_all
  have "512 * (n div 512) \<le> n" by simp
  then have "512 * (n div 512) < N" using n(1) by linarith
  then have w: "walk (phys s) (pml4 s) [509, 0, n div 512] = Some (t1 (n div 512))"
    using walk_slot(1) [OF ok i] by simp
  have "page_frame s n = walk (phys s) (t1 (n div 512)) [n mod 512]"
    unfolding page_frame_def using walk_append [of "phys s" "pml4 s" "[509, 0, n div 512]" "[n mod 512]"] w by simp
  moreover have "page_frame s n \<noteq> None" unfolding page_frame_def using walk_slot(2) [OF ok i] n(1) by simp
  ultimately show ?thesis by (simp add: Let_def split: if_splits)
qed

lemma page_frame_keeps:
  assumes "keeps s t" "pml4 t = pml4 s" "page_frame s n = Some f"
  shows "page_frame t n = Some f"
  using walk_keeps [OF assms(1)] assms(3) unfolding page_frame_def assms(2) by (simp del: walk.simps)

text \<open>
  The tables are not among the frames \<open>fr\<close>, and every frame of \<open>fr\<close> is an empty table. No two pages
  of the slot share a frame, and none uses a frame of \<open>fr\<close>.
\<close>

definition vm_ok :: "'a paging_scheme \<Rightarrow> nat \<Rightarrow> nat set \<Rightarrow> bool" where
  "vm_ok s N fr \<longleftrightarrow> (\<exists>t3 t2 t1. slot_ok s N t3 t2 t1 \<and> (\<forall>t \<in> set (page_tables s N t3 t2 t1). unat t \<notin> fr)) \<and>
     (\<forall>f. unat f \<in> fr \<longrightarrow> aligned f \<and> empty_table s f) \<and>
     (\<forall>n < N. \<exists>f. page_frame s n = Some f \<and> unat f \<notin> fr) \<and> inj_on (page_frame s) {..<N}"

lemma vm_ok_less: "vm_ok s N fr \<Longrightarrow> fr' \<subseteq> fr \<Longrightarrow> vm_ok s N fr'"
  unfolding vm_ok_def by (elim conjE exE) (intro conjI exI; assumption | blast)

lemma vm_ok_cong:
  assumes "phys s' = phys s" "cr3 s' = cr3 s"
  shows "vm_ok s' N fr = vm_ok s N fr"
proof -
  have p: "pml4 s' = pml4 s" using assms by (simp add: pml4_def)
  then have "page_frame s' = page_frame s" using assms by (intro ext) (simp only: page_frame_def)
  with p show ?thesis
    using assms by (simp add: vm_ok_def slot_ok_def self_map_def points_def page_tables_def empty_table_def)
qed

text \<open>The frames that stay free are still empty tables after writes to the slot's tables.\<close>

lemma vm_okI:
  assumes v: "vm_ok s N fr" and fr: "fr' \<subseteq> fr" and k: "keeps s s'" "pml4 s' = pml4 s" and N: "N < 2 ^ 18"
    and ok: "slot_ok s' (N + 1) t3 t2 t1" and nt: "\<forall>t \<in> set (page_tables s' (N + 1) t3 t2 t1). unat t \<notin> fr'"
    and f: "getAddr (phys s' (entry_at (t1 (N div 512)) (N mod 512))) = f" "unat f \<in> fr" "unat f \<notin> fr'"
    and w: "\<And>p. phys s' p \<noteq> phys s p \<Longrightarrow> p \<in> (\<lambda>(t, i). entry_at t i) ` W"
    and W: "\<And>t i. (t, i) \<in> W \<Longrightarrow> aligned t \<and> i < 512 \<and> unat t \<notin> fr'"
  shows "vm_ok s' (N + 1) fr'"
proof -
  note V = v [unfolded vm_ok_def]
  have e: "aligned f \<and> empty_table s' f" if f: "unat f \<in> fr'" for f
  proof -
    have e: "aligned f" "empty_table s f" using V fr f by blast+
    have "phys s' (entry_at f i) = phys s (entry_at f i)" if "i < 512" for i
    proof (rule ccontr)
      assume "phys s' (entry_at f i) \<noteq> phys s (entry_at f i)"
      from w [OF this] obtain t j where "entry_at f i = entry_at t j" "aligned t" "j < 512" "unat t \<notin> fr'" using W by fast
      then show False using entry_at_eq [OF e(1) _ that, of t j] f by auto
    qed
    then show ?thesis using e by (simp add: empty_table_def)
  qed
  have old: "page_frame s' n = page_frame s n" if n: "n < N" for n
  proof -
    obtain g where "page_frame s n = Some g" using V n by blast
    then show ?thesis using page_frame_keeps [OF k] by simp
  qed
  have new: "page_frame s' N = Some f" using page_frame_slot [OF ok, of N] N f(1) by simp
  have pf: "\<exists>g. page_frame s' n = Some g \<and> unat g \<notin> fr'" if "n < N + 1" for n
  proof (cases "n = N")
    case True
    then show ?thesis using new f(3) by simp
  next
    case False
    then have "n < N" using that by simp
    then show ?thesis using V fr old by fastforce
  qed
  have "page_frame s n \<noteq> Some f" if "n < N" for n using V f(2) that by fastforce
  then have "Some f \<notin> page_frame s ` {..<N}" by force
  moreover have "inj_on (page_frame s') {..<N} = inj_on (page_frame s) {..<N}" by (rule inj_on_cong) (use old in simp)
  moreover have "page_frame s' ` {..<N} = page_frame s ` {..<N}" by (rule image_cong) (use old in simp_all)
  moreover have "{..<N + 1} = insert N {..<N}" by auto
  ultimately have "inj_on (page_frame s') {..<N + 1}" using V new by simp
  moreover have "\<exists>t3 t2 t1. slot_ok s' (N + 1) t3 t2 t1 \<and> (\<forall>t \<in> set (page_tables s' (N + 1) t3 t2 t1). unat t \<notin> fr')"
    using ok nt by blast
  ultimately show ?thesis using e pf unfolding vm_ok_def by blast
qed

lemma vm_frame: "vm_ok s N fr \<Longrightarrow> unat f \<in> fr \<Longrightarrow> aligned f \<and> empty_table s f"
  by (simp add: vm_ok_def)

lemma points_upd:
  assumes "phys t' = (phys t)(entry_at u i := e)" "aligned u" "i < 512" "aligned v" "j < 512" "v \<noteq> u \<or> j \<noteq> i"
  shows "points t' v j w = points t v j w"
  using entry_at_eq [OF assms(4,2,5,3)] assms(1,6) by (auto simp: points_def)

lemma points_new:
  assumes "phys t' = (phys t)(entry_at u i := new_entry f fl e)" "aligned f"
  shows "points t' u i f"
  using assms by (simp add: points_def)

lemma self_map_upd:
  assumes "self_map t" "phys t' = (phys t)(entry_at u i := e)" "pml4 t' = pml4 t" "aligned u" "i < 512" "u \<noteq> pml4 t \<or> i \<noteq> 510"
  shows "self_map t'"
  using assms entry_at_eq [OF aligned_pml4 [of t] assms(4) _ assms(5), of 510] by (auto simp: self_map_def Let_def)

section \<open>Addresses of the slot\<close>

lemma slot_idx:
  assumes "y < 512" "x < 512"
  shows "unat (of_nat y :: uint16) = y" "unat (of_nat x :: uint16) = x" "(of_nat y :: uint16) < 512" "(of_nat x :: uint16) < 512"
  using assms by (simp_all add: unat_of_nat_small word_less_nat_alt)

lemma leads_slot:
  assumes s: "self_map s" and yx: "y < 512" "x < 512"
  defines "arr \<equiv> virtualAddrArr 509 0 (of_nat y) (of_nat x)"
  shows "leads s (arr ! 3) (entry_at (pml4 s) 509)"
    "points s (pml4 s) 509 t3 \<Longrightarrow> distinct [pml4 s, t3] \<Longrightarrow> leads s (arr ! 2) (entry_at t3 0)"
    "points s (pml4 s) 509 t3 \<Longrightarrow> points s t3 0 t2 \<Longrightarrow> distinct [pml4 s, t3, t2] \<Longrightarrow>
      leads s (arr ! Suc 0) (entry_at t2 y)"
    "points s (pml4 s) 509 t3 \<Longrightarrow> points s t3 0 t2 \<Longrightarrow> points s t2 y t1 \<Longrightarrow> distinct [pml4 s, t3, t2, t1] \<Longrightarrow>
      leads s (arr ! 0) (entry_at t1 x)"
proof -
  note I = slot_idx [OF yx]
  have i: "(509 :: uint16) < 512" "(0 :: uint16) < 512" "unat (509 :: uint16) = 509" "unat (0 :: uint16) = 0" by simp_all
  note A = arr_leads [OF s i(1,2) I(3,4), folded arr_def, unfolded I(1,2) i(3,4)]
  have S: "isPresent (phys s (entry_at (pml4 s) 510))" "getAddr (phys s (entry_at (pml4 s) 510)) = pml4 s"
    using s by (auto simp: self_map_def Let_def)
  show "leads s (arr ! 3) (entry_at (pml4 s) 509)"
    by (rule A(1)) (simp_all add: S entry_at_eq)
  show "leads s (arr ! 2) (entry_at t3 0)" if p: "points s (pml4 s) 509 t3" "distinct [pml4 s, t3]"
    by (rule A(2)) (use p in \<open>simp_all add: S entry_at_eq points_def points_aligned [OF p(1)]\<close>)
  show "leads s (arr ! Suc 0) (entry_at t2 y)"
    if p: "points s (pml4 s) 509 t3" "points s t3 0 t2" "distinct [pml4 s, t3, t2]"
    by (rule A(3)) (use p yx in \<open>auto simp: S entry_at_eq points_def points_aligned [OF p(1)] points_aligned [OF p(2)]\<close>)
  show "leads s (arr ! 0) (entry_at t1 x)"
    if p: "points s (pml4 s) 509 t3" "points s t3 0 t2" "points s t2 y t1" "distinct [pml4 s, t3, t2, t1]"
    by (rule A(4)) (use p yx in \<open>auto simp: S entry_at_eq points_def points_aligned [OF p(1)] points_aligned [OF p(2)]
      points_aligned [OF p(3)]\<close>)
qed

text \<open>\<open>getOrCreateEntryLevel\<close> on page \<open>n\<close> of the slot runs its loop on these four entries.\<close>

lemma slot_levels:
  assumes "n < 2 ^ 18"
  shows "l_idx 39 (slot_addr n) = 509" "l_idx 30 (slot_addr n) = 0"
    "l_idx 21 (slot_addr n) = of_nat (n div 512)" "l_idx 12 (slot_addr n) = of_nat (n mod 512)"
proof -
  have b: "n div 512 < 512" "n mod 512 < 512" using assms by simp_all
  note I = slot_idx [OF b]
  have i: "(509 :: uint16) < 512" "(0 :: uint16) < 512" "(0 :: uint64) < 4096" by simp_all
  have l: "unat (l_idx k v) = idx k v" for k v
  proof -
    have "drop_bit k v AND 0x1FF \<le> (0x1FF :: uint64)" by (rule word_and_le1)
    then have "unat (drop_bit k v AND 0x1FF) \<le> 0x1FF" by (simp add: word_le_nat_alt)
    then show ?thesis by (simp add: l_idx_def idx_def unat_ucast_small)
  qed
  note C = idx_CONVERT [OF i(1,2) I(3,4) i(3), unfolded add_0_right, folded slot_addr_def]
  show "l_idx 39 (slot_addr n) = 509" "l_idx 30 (slot_addr n) = 0"
    "l_idx 21 (slot_addr n) = of_nat (n div 512)" "l_idx 12 (slot_addr n) = of_nat (n mod 512)"
    by (simp_all add: word_unat_eq_iff l C)
qed

lemma slot_create:
  assumes "n < 2 ^ 18"
  shows "getOrCreateEntryLevel ff (slot_addr n) PAGE fl s =
     create_loop ff fl (virtualAddrArr 509 0 (of_nat (n div 512)) (of_nat (n mod 512))) 0 (Suc (Suc (Suc (Suc 0)))) True NULL s"
proof -
  have "(4 :: nat) = Suc (Suc (Suc (Suc 0)))" by simp
  then show ?thesis by (simp only: getOrCreateEntryLevel_def level_code.simps slot_levels [OF assms])
qed
text \<open>The scan faults when the last table is full.\<close>

lemma alloc_vm_full:
  assumes v: "vm_ok s N fr" and N: "0 < N" "N mod 512 = 0" "N < 2 ^ 18" and n: "unat n < 2 ^ 20"
  shows "alloc_vm ff 509 n fl s = None"
proof -
  obtain t3 t2 t1 where ok: "slot_ok s N t3 t2 t1" using v by (auto simp: vm_ok_def)
  show ?thesis using alloc_vm_slot [OF ok N(3) n, of ff fl] N by simp
qed

section \<open>One more page\<close>

text \<open>The frames page \<open>n\<close> costs: its own, and those of the tables it is the first page of.\<close>

definition cost :: "nat \<Rightarrow> nat" where
  "cost n = (if n = 0 then 4 else if n mod 512 = 0 then 2 else 1)"

fun run_cost :: "nat \<Rightarrow> nat \<Rightarrow> nat" where
  "run_cost N 0 = 0"
| "run_cost N (Suc n) = cost N + run_cost (N + 1) n"

lemma run_cost_ge: "n \<le> run_cost N n"
proof (induction n arbitrary: N)
  case (Suc n)
  have "0 < cost N" by (simp add: cost_def)
  then show ?case using Suc [of "N + 1"] by simp
qed simp

text \<open>
  \<open>allocate\<close> can hand out \<open>k\<close> frames: the buffer holds them above the level it is loaded at, or it can be
  loaded from the first range of the list, which frees no node.
\<close>

definition rich :: "nat \<Rightarrow> 'a frames_scheme \<Rightarrow> bool" where
  "rich k s \<longleftrightarrow> MAX_BUFFER_FRAMES div 2 + k \<le> unat (qtd_buffer s) \<or> MAX_BUFFER_FRAMES + k \<le> unat (qtd_buffer s) + head_pages s"

lemma rich_less: "rich j s \<Longrightarrow> k \<le> j \<Longrightarrow> rich k s"
  by (auto simp: rich_def)

lemma rich_cong: "qtd_buffer t = qtd_buffer s \<Longrightarrow> avaliableMemory t = avaliableMemory s \<Longrightarrow> nodes t = nodes s \<Longrightarrow> rich k t = rich k s"
  by (simp add: rich_def head_pages_def)

lemma rich_more: "liballoc.more t = liballoc.more s \<Longrightarrow> rich k t = rich k s"
proof -
  assume "liballoc.more t = liballoc.more s"
  note M = more_frames [OF this]
  show ?thesis by (rule rich_cong [OF M(2,4,1)])
qed

lemma allocate_rich:
  assumes "frames_inv s ns" "frame_lock0 s = 0" "frame_lock1 s = 0" "rich (Suc k) s"
  shows "\<exists>f s'. allocate ff s = Some (f, s') \<and> rich k s'"
proof -
  have take: "\<exists>f s'. (do {
       s \<leftarrow> lock0 t;
       let s = s\<lparr>qtd_buffer := qtd_buffer s - 1\<rparr>;
       let frame = frame_buffer s ! unat (qtd_buffer s);
       Some (frame, unlock0 s) }) = Some (f, s') \<and> rich k s'"
    if "frame_lock0 t = 0" "rich (Suc k) t" "0 < unat (qtd_buffer t)" for t :: "'a frames_scheme"
  proof -
    have "unat (qtd_buffer t - 1) = unat (qtd_buffer t) - 1" using that(3) by (simp add: unat_sub_le)
    then show ?thesis using that by (auto simp: lock0_def unlock0_def Let_def rich_def head_pages_def)
  qed
  show ?thesis
  proof (cases "unat (qtd_buffer s) \<le> MAX_BUFFER_FRAMES div 2")
    case False
    then have "0 < unat (qtd_buffer s)" by linarith
    from take [OF assms(2,4) this] show ?thesis using False by (simp add: allocate_def)
  next
    case True
    then have r: "MAX_BUFFER_FRAMES + Suc k \<le> unat (qtd_buffer s) + head_pages s" using assms(4) by (simp add: rich_def)
    let ?s = "s\<lparr>frame_lock1 := 1\<rparr>" and ?k = "MAX_BUFFER_FRAMES - unat (qtd_buffer s)"
    have h: "head_pages ?s = head_pages s" by (simp add: head_pages_def)
    have "frames_inv ?s ns" using assms(1) by (simp add: frames_inv_def buffered_def)
    moreover have "unat (qtd_buffer ?s) + ?k = MAX_BUFFER_FRAMES" "?k \<le> head_pages ?s" using True r h by simp_all
    ultimately obtain t where t: "loadBuffer_loop ff ?s = Some t" "unat (qtd_buffer t) = MAX_BUFFER_FRAMES"
      "head_pages t = head_pages s - ?k" "frame_lock0 t = 0" using load_from_head [of ?s ns ?k ff] assms(2) h by auto
    let ?t = "unlock1 t"
    have "0 < qtd_buffer t" using t(2) by (simp add: word_less_nat_alt MAX_BUFFER_FRAMES_def)
    then have ld: "loadBuffer ff s = Some (True, ?t)"
      using t(1) assms(3) by (simp add: loadBuffer_def lock1_def Let_def unlock1_def)
    have "head_pages ?t = head_pages t" "qtd_buffer ?t = qtd_buffer t" by (simp_all add: head_pages_def unlock1_def)
    then have "rich (Suc k) ?t" using t(2,3) r True by (simp add: rich_def)
    moreover have "frame_lock0 ?t = 0" "0 < unat (qtd_buffer ?t)" using t(2,4) by (simp_all add: unlock1_def MAX_BUFFER_FRAMES_def)
    ultimately show ?thesis using take [of ?t] True ld by (simp add: allocate_def)
  qed
qed

text \<open>The state between two frames: the frames \<open>U\<close> have been taken since \<open>s\<close>.\<close>

definition mid :: "'a paging_scheme \<Rightarrow> addr list \<Rightarrow> nat set \<Rightarrow> 'a paging_scheme \<Rightarrow> bool" where
  "mid s ns U t \<longleftrightarrow> bit (alloc_lock s) 0 \<and> cr3 t = cr3 s \<and> paging.more t = paging.more s \<and> keeps s t \<and> (\<exists>ms. took s ns U t ms)"

lemma mid_start:
  assumes "bit (alloc_lock s) 0" "frames_inv s ns" "frame_lock0 s = 0" "frame_lock1 s = 0"
  shows "mid s ns {} s"
  using took_refl [OF assms(2-4)] assms(1) by (auto simp: mid_def)

lemma mid_pml4: "mid s ns U t \<Longrightarrow> pml4 t = pml4 s"
  by (simp add: mid_def pml4_def)

text \<open>
  What the page table asks of the frame allocator while the heap's lock is held: a frame that
  was free, and nothing else changes but the allocator's own lists.
\<close>

locale frame_source =
  fixes ff :: "'a paging_ext free_fun"
  assumes alloc_law: "bit (alloc_lock s) 0 \<Longrightarrow> frames_inv s ns \<Longrightarrow> frame_lock0 s = 0 \<Longrightarrow> frame_lock1 s = 0 \<Longrightarrow>
     allocate ff s = Some (f, s') \<Longrightarrow> frames.more s' = frames.more s \<and> (\<exists>ns'. took s ns {unat f} s' ns')"
begin

text \<open>
  One turn of the loop that creates an entry. It is taken when the call returns, and also when the
  buffer is \<open>rich\<close>: then \<open>allocate\<close> need not load it again.
\<close>

lemma mid_create:
  assumes m: "mid s ns U t" and l: "leads t (arr ! k) p" and np: "\<not> isPresent (phys t p) \<or> \<not> present"
    and old: "\<not> isPresent (phys s p)"
    and go: "create_loop ff fl arr 0 (Suc k) present r t \<noteq> None \<or> rich (Suc j) t"
  shows "\<exists>f t'. unat f \<in> free_frames s ns - U \<and> mid s ns (insert (unat f) U) t' \<and>
     phys t' = (phys t)(p := new_entry f fl (phys t p)) \<and>
     create_loop ff fl arr 0 (Suc k) present r t = create_loop ff fl arr 0 k False (arr ! k) t' \<and>
     (\<forall>i. rich (Suc i) t \<longrightarrow> rich i t')"
proof -
  obtain ms where tk: "took s ns U t ms" using m by (auto simp: mid_def)
  have h: "bit (alloc_lock t) 0" "frames_inv t ms" "frame_lock0 t = 0" "frame_lock1 t = 0"
    using m tk by (auto simp: mid_def took_def same_heap_def)
  note step = level_step [OF l np, of ff fl r]
  have "allocate ff t \<noteq> None" using go allocate_rich [OF h(2-4), of j ff] unfolding step by (auto split: bind_splits)
  then obtain f t1 where f: "allocate ff t = Some (f, t1)" by auto
  from alloc_law [OF h f] obtain ms' where a: "frames.more t1 = frames.more t" "took t ms {unat f} t1 ms'" by blast
  let ?t' = "t1\<lparr>phys := (phys t)(p := new_entry f fl (phys t p))\<rparr>"
  have "took s ns (U \<union> {unat f}) ?t' ms'" by (rule took_phys [OF took_trans(1) [OF tk a(2)]])
  then have "mid s ns (insert (unat f) U) ?t'" using m old more_paging [OF a(1)] more_rest [OF a(1)] by (auto simp: mid_def keeps_def)
  moreover have "unat f \<in> free_frames s ns - U" using tk a(2) by (auto simp: took_def)
  moreover have "rich i ?t'" if "rich (Suc i) t" for i
    using allocate_rich [OF h(2-4) that, of ff] f rich_cong [of ?t' t1] by auto
  moreover have "create_loop ff fl arr 0 (Suc k) present r t = create_loop ff fl arr 0 k False (arr ! k) ?t'"
    using step f a(1) by simp
  ultimately show ?thesis by (intro exI [of _ f] exI [of _ ?t']) simp
qed

text \<open>A page in a table that exists: one frame.\<close>

lemma grow_same_table:
  assumes m: "mid s ns {} s" and v: "vm_ok s N fr" and fr: "free_frames s ns \<subseteq> fr"
    and N: "N = 512 * y + x" "0 < x" "x < 512" "y < 512"
    and go: "getOrCreateEntryLevel ff (slot_addr N) PAGE fl s \<noteq> None \<or> rich (cost N) s"
  shows "\<exists>U r s'. getOrCreateEntryLevel ff (slot_addr N) PAGE fl s = Some (r, s') \<and> card U = cost N \<and> (\<exists>f. page_frame s' N = Some f \<and> unat f \<in> U) \<and> mid s ns U s' \<and>
    vm_ok s' (N + 1) (fr - U) \<and> (\<forall>i. rich (cost N + i) s \<longrightarrow> rich i s')"
proof -
  obtain t3 t2 t1 where ok: "slot_ok s N t3 t2 t1" and nt: "\<forall>t \<in> set (page_tables s N t3 t2 t1). unat t \<notin> fr"
    using v by (auto simp: vm_ok_def)
  have y: "512 * y < N" "0 < N" using N by auto
  note T = slot_tables [OF ok y(2)] and A = t1_apart [OF ok y(1)]
  note P = T(3) [OF N(4) y(1)]
  have D: "distinct [pml4 s, t3]" "distinct [pml4 s, t3, t2]" "distinct [pml4 s, t3, t2, t1 y]" using T(7) A by auto
  have dm: "N div 512 = y" "N mod 512 = x" "N < 2 ^ 18" using N by simp_all
  note L = leads_slot [OF slot_self [OF ok] N(4,3)]
  have l: "leads s (virtualAddrArr 509 0 (of_nat y) (of_nat x) ! 3) (entry_at (pml4 s) 509)"
    "leads s (virtualAddrArr 509 0 (of_nat y) (of_nat x) ! 2) (entry_at t3 0)"
    "leads s (virtualAddrArr 509 0 (of_nat y) (of_nat x) ! Suc 0) (entry_at t2 y)"
    "leads s (virtualAddrArr 509 0 (of_nat y) (of_nat x) ! 0) (entry_at (t1 y) x)"
    using L(1) L(2) [OF T(1) D(1)] L(3) [OF T(1,2) D(2)] L(4) [OF T(1,2) P D(3)] by blast+
  let ?arr = "virtualAddrArr 509 0 (of_nat y) (of_nat x)"
  have "create_loop ff fl ?arr 0 (Suc (Suc (Suc (Suc 0)))) True NULL s = create_loop ff fl ?arr 0 (Suc (Suc (Suc 0))) True (?arr ! 3) s"
    using level_skip [of s ?arr "Suc (Suc (Suc 0))"] l(1) T(1) by (simp add: numeral_eq_Suc points_def del: create_loop.simps)
  also have "\<dots> = create_loop ff fl ?arr 0 (Suc (Suc 0)) True (?arr ! 2) s"
    using level_skip [of s ?arr "Suc (Suc 0)"] l(2) T(2) by (simp add: numeral_eq_Suc points_def del: create_loop.simps)
  also have "\<dots> = create_loop ff fl ?arr 0 (Suc 0) True (?arr ! Suc 0) s"
    using level_skip [of s ?arr "Suc 0"] l(3) P by (simp add: points_def del: create_loop.simps)
  finally have run1: "getOrCreateEntryLevel ff (slot_addr N) PAGE fl s = create_loop ff fl ?arr 0 (Suc 0) True (?arr ! Suc 0) s"
    using slot_create [OF dm(3), of ff fl s] dm by simp
  have "cost N = Suc 0" using dm(2) N by (simp add: cost_def)
  with go have go1: "create_loop ff fl ?arr 0 (Suc 0) True (?arr ! Suc 0) s \<noteq> None \<or> rich (Suc 0) s" by (simp only: run1)
  have np: "\<not> isPresent (phys s (entry_at (t1 y) x))" using T(6) [OF N(4,3) y(1)] N(1) by simp
  from mid_create [OF m l(4) _ np go1] np obtain f s' where
    f: "unat f \<in> free_frames s ns" "mid s ns {unat f} s'"
      "phys s' = (phys s)(entry_at (t1 y) x := new_entry f fl (phys s (entry_at (t1 y) x)))"
      "getOrCreateEntryLevel ff (slot_addr N) PAGE fl s = Some (?arr ! 0, s')" "\<And>i. rich (Suc i) s \<Longrightarrow> rich i s'"
    unfolding run1 by auto
  have sl: "slot_ok s' (N + 1) t3 t2 t1"
    by (rule extend_page [OF ok N _ f(3)]) (use f(2) in \<open>simp_all add: mid_def\<close>)
  have "set (page_tables s' (N + 1) t3 t2 t1) = set (page_tables s N t3 t2 t1)"
  proof -
    have "(N + 1 + 511) div 512 = y + 1" "(N + 511) div 512 = y + 1" using N by (intro div_nat_eqI; simp)+
    then show ?thesis using f(2) y(2) by (simp add: page_tables_def mid_def pml4_def)
  qed
  then have nt': "\<forall>t \<in> set (page_tables s' (N + 1) t3 t2 t1). unat t \<notin> fr - {unat f}" using nt by blast
  have "t1 y \<in> set (page_tables s N t3 t2 t1)" using y by (auto simp: page_tables_def table_count)
  then have W: "aligned t' \<and> i < 512 \<and> unat t' \<notin> fr - {unat f}" if "(t', i) \<in> {(t1 y, x)}" for t' and i :: nat
    using that nt N(3) points_aligned [OF P] by auto
  have C: "p \<in> (\<lambda>(t, i). entry_at t i) ` {(t1 y, x)}" if "phys s' p \<noteq> phys s p" for p
    using that unfolding f(3) fun_upd_apply by (simp split: if_split_asm)
  have fr_f: "unat f \<in> fr" using f(1) fr by blast
  have g: "getAddr (phys s' (entry_at (t1 (N div 512)) (N mod 512))) = f"
    using vm_frame [OF v fr_f] by (simp add: dm f(3))
  have k: "keeps s s'" using f(2) by (simp add: mid_def)
  have "vm_ok s' (N + 1) (fr - {unat f})"
    by (rule vm_okI [OF v Diff_subset k mid_pml4 [OF f(2)] dm(3) sl nt' g fr_f _ C W]) simp
  moreover have "page_frame s' N = Some f" using page_frame_slot [OF sl _ dm(3)] g by simp
  ultimately show ?thesis using f(2,4,5) \<open>cost N = Suc 0\<close> by (intro exI [of _ "{unat f}"] exI [of _ "?arr ! 0"] exI [of _ s']) simp
qed

text \<open>The first page of a table: a frame for the table, then one for the page.\<close>

lemma grow_new_table:
  assumes m: "mid s ns {} s" and v: "vm_ok s N fr" and fr: "free_frames s ns \<subseteq> fr"
    and N: "N = 512 * y" "0 < y" "y < 512"
    and go: "getOrCreateEntryLevel ff (slot_addr N) PAGE fl s \<noteq> None \<or> rich (cost N) s"
  shows "\<exists>U r s'. getOrCreateEntryLevel ff (slot_addr N) PAGE fl s = Some (r, s') \<and> card U = cost N \<and> (\<exists>f. page_frame s' N = Some f \<and> unat f \<in> U) \<and> mid s ns U s' \<and>
    vm_ok s' (N + 1) (fr - U) \<and> (\<forall>i. rich (cost N + i) s \<longrightarrow> rich i s')"
proof -
  obtain t3 t2 t1 where ok: "slot_ok s N t3 t2 t1" and nt: "\<forall>t \<in> set (page_tables s N t3 t2 t1). unat t \<notin> fr"
    using v by (auto simp: vm_ok_def)
  have N0: "0 < N" using N by auto
  note T = slot_tables [OF ok N0]
  have al: "aligned t3" "aligned t2" using T(1,2) points_aligned by blast+
  have D: "distinct [pml4 s, t3]" "distinct [pml4 s, t3, t2]" using T(7) by auto
  have dm: "N div 512 = y" "N mod 512 = 0" "N < 2 ^ 18" using N by simp_all
  have z: "(0 :: nat) < 512" by simp
  let ?arr = "virtualAddrArr 509 0 (of_nat y) (of_nat 0)"
  note L = leads_slot [OF slot_self [OF ok] N(3) z]
  have l: "leads s (?arr ! 3) (entry_at (pml4 s) 509)" "leads s (?arr ! 2) (entry_at t3 0)" "leads s (?arr ! Suc 0) (entry_at t2 y)"
    using L(1) L(2) [OF T(1) D(1)] L(3) [OF T(1,2) D(2)] by blast+
  have "create_loop ff fl ?arr 0 (Suc (Suc (Suc (Suc 0)))) True NULL s = create_loop ff fl ?arr 0 (Suc (Suc (Suc 0))) True (?arr ! 3) s"
    using level_skip [of s ?arr "Suc (Suc (Suc 0))"] l(1) T(1) by (simp add: numeral_eq_Suc points_def del: create_loop.simps)
  also have "\<dots> = create_loop ff fl ?arr 0 (Suc (Suc 0)) True (?arr ! 2) s"
    using level_skip [of s ?arr "Suc (Suc 0)"] l(2) T(2) by (simp add: numeral_eq_Suc points_def del: create_loop.simps)
  finally have run1: "getOrCreateEntryLevel ff (slot_addr N) PAGE fl s = create_loop ff fl ?arr 0 (Suc (Suc 0)) True (?arr ! 2) s"
    using slot_create [OF dm(3), of ff fl s] dm by simp
  have c: "cost N = Suc (Suc 0)" using dm(2) N0 by (simp add: cost_def)
  with go have go1: "create_loop ff fl ?arr 0 (Suc (Suc 0)) True (?arr ! 2) s \<noteq> None \<or> rich (Suc (Suc 0)) s" by (simp only: run1)
  have np: "\<not> isPresent (phys s (entry_at t2 y))" using T(4) [OF N(3)] N(1) by simp
  from mid_create [OF m l(3) _ np go1] np obtain a t where
    a: "unat a \<in> free_frames s ns" "mid s ns {unat a} t" "phys t = (phys s)(entry_at t2 y := new_entry a fl (phys s (entry_at t2 y)))"
      "getOrCreateEntryLevel ff (slot_addr N) PAGE fl s = create_loop ff fl ?arr 0 (Suc 0) False (?arr ! Suc 0) t"
      "\<And>i. rich (Suc i) s \<Longrightarrow> rich i t" unfolding run1 by auto
  have go2: "create_loop ff fl ?arr 0 (Suc 0) False (?arr ! Suc 0) t \<noteq> None \<or> rich (Suc 0) t" using go a(4,5) c by auto
  have af: "aligned a" "empty_table s a" "unat a \<in> fr" using vm_frame [OF v] a(1) fr by auto
  then have ap: "a \<notin> set (page_tables s N t3 t2 t1)" using nt by blast
  then have a4: "a \<noteq> pml4 s" "a \<noteq> t3" "a \<noteq> t2" using N0 by (auto simp: page_tables_def)
  note tp = mid_pml4 [OF a(2)]
  have P: "phys t (entry_at u i) = (if u = t2 \<and> i = y then new_entry a fl (phys s (entry_at t2 y)) else phys s (entry_at u i))"
    if "aligned u" "i < 512" for u i
    unfolding a(3) by (rule phys_upd [OF that(1) al(2) that(2) N(3)])
  have S: "self_map t" using slot_self [OF ok] D by (simp add: self_map_def tp P Let_def)
  have pt: "points t (pml4 t) 509 t3" "points t t3 0 t2" "points t t2 y a"
    using T(1,2) D af(1) N(3) by (simp_all add: points_def tp P al)
  have D4: "distinct [pml4 t, t3, t2, a]" using D a4 by (simp add: tp)
  from leads_slot(4) [OF S N(3) z pt D4] have l0: "leads t (?arr ! 0) (entry_at a 0)" by simp
  have np0: "\<not> isPresent (phys s (entry_at a 0))" using af(2) by (simp add: empty_table_def)
  from mid_create [OF a(2) l0 _ np0 go2] a(4) obtain f s' where
    f: "mid s ns {unat f, unat a} s'" "phys s' = (phys t)(entry_at a 0 := new_entry f fl (phys t (entry_at a 0)))"
      "getOrCreateEntryLevel ff (slot_addr N) PAGE fl s = Some (?arr ! 0, s')" "\<And>i. rich (Suc i) t \<Longrightarrow> rich i s'"
      "unat f \<in> free_frames s ns" "unat f \<noteq> unat a" by auto
  have sl: "slot_ok s' (N + 1) t3 t2 (t1(y := a))"
    by (rule extend_table [OF ok N af(1) ap af(2), of "new_entry a fl (phys s (entry_at t2 y))" "new_entry f fl (phys t (entry_at a 0))"])
      (use f af(1) in \<open>simp_all add: a(3) mid_def\<close>)
  have "(N + 1 + 511) div 512 = y + 1" "(N + 511) div 512 = y" using N by (intro div_nat_eqI; simp)+
  then have "set (page_tables s' (N + 1) t3 t2 (t1(y := a))) \<subseteq> insert a (set (page_tables s N t3 t2 t1))"
    using mid_pml4 [OF f(1)] N0 by (auto simp: page_tables_def)
  then have nt': "\<forall>t \<in> set (page_tables s' (N + 1) t3 t2 (t1(y := a))). unat t \<notin> fr - {unat f, unat a}"
    using nt by blast
  have "unat t2 \<notin> fr" using N0 nt by (simp add: page_tables_def)
  then have W: "aligned t' \<and> i < 512 \<and> unat t' \<notin> fr - {unat f, unat a}" if "(t', i) \<in> {(t2, y), (a, 0)}" for t' and i :: nat
    using that N(3) al af(1) by auto
  have C: "p \<in> (\<lambda>(t, i). entry_at t i) ` {(t2, y), (a, 0)}" if "phys s' p \<noteq> phys s p" for p
    using that unfolding f(2) a(3) fun_upd_apply by (simp split: if_split_asm)
  have fr_f: "unat f \<in> fr" using f(5) fr by blast
  have g: "getAddr (phys s' (entry_at ((t1(y := a)) (N div 512)) (N mod 512))) = f"
    using vm_frame [OF v fr_f] by (simp add: dm f(2))
  have k: "keeps s s'" using f(1) by (simp add: mid_def)
  have "vm_ok s' (N + 1) (fr - {unat f, unat a})"
    by (rule vm_okI [OF v Diff_subset k mid_pml4 [OF f(1)] dm(3) sl nt' g fr_f _ C W]) simp
  moreover have "page_frame s' N = Some f" using page_frame_slot [OF sl _ dm(3)] g by simp
  moreover have "card {unat f, unat a} = cost N" using f(6) c by simp
  ultimately show ?thesis using f(1,3,4) a(5) c
    by (intro exI [of _ "{unat f, unat a}"] exI [of _ "?arr ! 0"] exI [of _ s']) simp
qed

text \<open>The first page of the slot: frames for three tables, then one for the page.\<close>

lemma grow_first:
  assumes m: "mid s ns {} s" and v: "vm_ok s 0 fr" and fr: "free_frames s ns \<subseteq> fr"
    and go: "getOrCreateEntryLevel ff (slot_addr 0) PAGE fl s \<noteq> None \<or> rich (cost 0) s"
  shows "\<exists>U r s'. getOrCreateEntryLevel ff (slot_addr 0) PAGE fl s = Some (r, s') \<and> card U = cost 0 \<and> (\<exists>f. page_frame s' 0 = Some f \<and> unat f \<in> U) \<and> mid s ns U s' \<and>
    vm_ok s' 1 (fr - U) \<and> (\<forall>i. rich (cost 0 + i) s \<longrightarrow> rich i s')"
proof -
  obtain t3 t2 t1 where ok: "slot_ok s 0 t3 t2 t1" and nt: "unat (pml4 s) \<notin> fr"
    using v by (auto simp: vm_ok_def page_tables_def)
  have z: "(0 :: nat) < 512" "(509 :: nat) < 512" "(510 :: nat) < 512" by simp_all
  let ?arr = "virtualAddrArr 509 0 (of_nat 0) (of_nat 0)"
  let ?p = "pml4 s"
  have S: "self_map s" using slot_self [OF ok] .
  have al: "aligned ?p" by simp
  note fresh = vm_frame [OF v]
  have run4: "getOrCreateEntryLevel ff (slot_addr 0) PAGE fl s = create_loop ff fl ?arr 0 (Suc (Suc (Suc (Suc 0)))) True NULL s"
    using slot_create [of 0 ff fl s] by simp
  have c4: "cost 0 = Suc (Suc (Suc (Suc 0)))" by (simp add: cost_def)
  note go4 = go [unfolded c4 run4]
  have l3: "leads s (?arr ! Suc (Suc (Suc 0))) (entry_at ?p 509)"
    using leads_slot(1) [OF S z(1,1)] by (simp add: numeral_eq_Suc)
  have np: "\<not> isPresent (phys s (entry_at ?p 509))" using ok by (simp add: slot_ok_def)
  have np0: "\<not> isPresent (phys s (entry_at a 0))" if "empty_table s a" for a using that by (simp add: empty_table_def)
  from mid_create [OF m l3 _ np go4] np obtain a u where
    a: "unat a \<in> free_frames s ns" "mid s ns {unat a} u" "phys u = (phys s)(entry_at ?p 509 := new_entry a fl (phys s (entry_at ?p 509)))"
      "getOrCreateEntryLevel ff (slot_addr 0) PAGE fl s = create_loop ff fl ?arr 0 (Suc (Suc (Suc 0))) False (?arr ! Suc (Suc (Suc 0))) u"
      "\<And>i. rich (Suc i) s \<Longrightarrow> rich i u" unfolding run4 by auto
  have go3: "create_loop ff fl ?arr 0 (Suc (Suc (Suc 0))) False (?arr ! Suc (Suc (Suc 0))) u \<noteq> None \<or> rich (Suc (Suc (Suc 0))) u"
    using go a(4,5) c4 by auto
  have af: "aligned a" "empty_table s a" "unat a \<in> fr" "a \<noteq> ?p" using fresh a(1) fr nt by auto
  note up = mid_pml4 [OF a(2)]
  have Su: "self_map u" by (rule self_map_upd [OF S a(3) up al z(2)]) simp
  have pu: "points u (pml4 u) 509 a" unfolding up by (rule points_new [OF a(3) af(1)])
  have l2: "leads u (?arr ! Suc (Suc 0)) (entry_at a 0)"
    using leads_slot(2) [OF Su z(1,1) pu] af(4) up by (simp add: numeral_eq_Suc)
  from mid_create [OF a(2) l2 _ np0 [OF af(2)] go3] a(4) obtain b w where
    b: "unat b \<in> free_frames s ns - {unat a}" "mid s ns {unat b, unat a} w" "phys w = (phys u)(entry_at a 0 := new_entry b fl (phys u (entry_at a 0)))"
      "getOrCreateEntryLevel ff (slot_addr 0) PAGE fl s = create_loop ff fl ?arr 0 (Suc (Suc 0)) False (?arr ! Suc (Suc 0)) w"
      "\<And>i. rich (Suc i) u \<Longrightarrow> rich i w" by auto
  have go2: "create_loop ff fl ?arr 0 (Suc (Suc 0)) False (?arr ! Suc (Suc 0)) w \<noteq> None \<or> rich (Suc (Suc 0)) w"
    using go3 a(4) b(4,5) by auto
  have bf: "aligned b" "empty_table s b" "unat b \<in> fr" "b \<noteq> ?p" "b \<noteq> a" using fresh b(1) fr nt by auto
  note wp = mid_pml4 [OF b(2)]
  have wu: "pml4 w = pml4 u" using wp up by simp
  have Sw: "self_map w" by (rule self_map_upd [OF Su b(3) wu af(1) z(1)]) simp
  have pw: "points w (pml4 w) 509 a" "points w a 0 b"
    using points_upd [OF b(3) af(1) z(1) al z(2)] pu af(4) points_new [OF b(3) bf(1)] wp up by auto
  have l1: "leads w (?arr ! Suc 0) (entry_at b 0)"
    using leads_slot(3) [OF Sw z(1,1) pw] af(4) bf(4,5) wp by simp
  from mid_create [OF b(2) l1 _ np0 [OF bf(2)] go2] b(4) obtain c x where
    c: "unat c \<in> free_frames s ns - {unat b, unat a}" "mid s ns {unat c, unat b, unat a} x"
      "phys x = (phys w)(entry_at b 0 := new_entry c fl (phys w (entry_at b 0)))"
      "getOrCreateEntryLevel ff (slot_addr 0) PAGE fl s = create_loop ff fl ?arr 0 (Suc 0) False (?arr ! Suc 0) x"
      "\<And>i. rich (Suc i) w \<Longrightarrow> rich i x" by auto
  have go1: "create_loop ff fl ?arr 0 (Suc 0) False (?arr ! Suc 0) x \<noteq> None \<or> rich (Suc 0) x"
    using go2 b(4) c(4,5) by auto
  have cf: "aligned c" "empty_table s c" "unat c \<in> fr" "c \<noteq> ?p" "c \<noteq> a" "c \<noteq> b" using fresh c(1) fr nt by auto
  note xp = mid_pml4 [OF c(2)]
  have xw: "pml4 x = pml4 w" using xp wp by simp
  have Sx: "self_map x" by (rule self_map_upd [OF Sw c(3) xw bf(1) z(1)]) simp
  have px: "points x (pml4 x) 509 a" "points x a 0 b" "points x b 0 c"
    using points_upd [OF c(3) bf(1) z(1) al z(2)] points_upd [OF c(3) bf(1) z(1) af(1) z(1)] pw bf(4,5)
      points_new [OF c(3) cf(1)] xp wp by auto
  have D: "distinct [?p, a, b, c]" using af(4) bf(4,5) cf(4-6) by auto
  have l0: "leads x (?arr ! 0) (entry_at c 0)"
    using leads_slot(4) [OF Sx z(1,1) px] D xp by simp
  from mid_create [OF c(2) l0 _ np0 [OF cf(2)] go1] c(4) obtain f s' where
    f: "mid s ns {unat f, unat c, unat b, unat a} s'" "phys s' = (phys x)(entry_at c 0 := new_entry f fl (phys x (entry_at c 0)))"
      "getOrCreateEntryLevel ff (slot_addr 0) PAGE fl s = Some (?arr ! 0, s')" "\<And>i. rich (Suc i) x \<Longrightarrow> rich i s'"
      "unat f \<in> free_frames s ns - {unat c, unat b, unat a}" by auto
  let ?U = "{unat f, unat c, unat b, unat a}"
  note ph = f(2) [unfolded c(3) b(3) a(3)]
  have sl: "slot_ok s' 1 a b (\<lambda>_. c)"
    by (rule extend_first [OF ok af(1) bf(1) cf(1) D af(2) bf(2) cf(2) _ _ _ _ _ _ _ ph]) (use f(1) af(1) bf(1) cf(1) in \<open>simp_all add: mid_def\<close>)
  have nt': "\<forall>t \<in> set (page_tables s' 1 a b (\<lambda>_. c)). unat t \<notin> fr - ?U"
    using mid_pml4 [OF f(1)] nt by (auto simp: page_tables_def)
  have W: "aligned t' \<and> i < 512 \<and> unat t' \<notin> fr - ?U" if "(t', i) \<in> {(?p, 509), (a, 0), (b, 0), (c, 0)}" for t' and i :: nat
    using that nt af(1) bf(1) cf(1) al by auto
  have C: "p \<in> (\<lambda>(t, i). entry_at t i) ` {(?p, 509), (a, 0), (b, 0), (c, 0)}" if "phys s' p \<noteq> phys s p" for p
    using that unfolding ph fun_upd_apply by (simp split: if_split_asm)
  have fr_f: "unat f \<in> fr" using f(5) fr by blast
  have g: "getAddr (phys s' (entry_at ((\<lambda>_. c) (0 div 512)) (0 mod 512))) = f"
    using vm_frame [OF v fr_f] by (simp add: f(2))
  have k: "keeps s s'" using f(1) by (simp add: mid_def)
  have "page_frame s' 0 = Some f" using page_frame_slot [OF sl, of 0] g by simp
  moreover have "card ?U = cost 0" using f(5) c(1) b(1) c4 by simp
  moreover have "vm_ok s' (0 + 1) (fr - ?U)"
    by (rule vm_okI [OF v Diff_subset k mid_pml4 [OF f(1)] _ _ _ g fr_f _ C W]) (use sl nt' in simp_all)
  ultimately show ?thesis using f(1,3,4) c(5) b(5) a(5) c4
    by (intro exI [of _ "?U"] exI [of _ "?arr ! 0"] exI [of _ s']) simp
qed

lemma grow_page:
  assumes m: "mid s ns {} s" and v: "vm_ok s N fr" and fr: "free_frames s ns \<subseteq> fr" and N: "N < 2 ^ 18"
    and go: "getOrCreateEntryLevel ff (slot_addr N) PAGE fl s \<noteq> None \<or> rich (cost N) s"
  shows "\<exists>U r s'. getOrCreateEntryLevel ff (slot_addr N) PAGE fl s = Some (r, s') \<and> card U = cost N \<and> (\<exists>f. page_frame s' N = Some f \<and> unat f \<in> U) \<and> mid s ns U s' \<and>
    vm_ok s' (N + 1) (fr - U) \<and> (\<forall>i. rich (cost N + i) s \<longrightarrow> rich i s')"
proof -
  define y x where yx: "y = N div 512" "x = N mod 512"
  have e: "N = 512 * y + x" "x < 512" "y < 512" using N by (simp_all add: yx)
  consider "0 < x" | "x = 0" "0 < y" | "N = 0" using e by auto
  then show ?thesis
  proof cases
    case 1
    show ?thesis by (rule grow_same_table [OF m v fr e(1) 1 e(2,3) go])
  next
    case 2
    show ?thesis by (rule grow_new_table [OF m v fr _ 2(2) e(3) go]) (use e(1) 2(1) in simp)
  next
    case 3
    show ?thesis using grow_first [OF m _ fr, of fl] v go 3 by simp
  qed
qed

section \<open>A run of pages\<close>

text \<open>The first page of a run, then the others: all on frames of \<open>U\<close> and \<open>V\<close>.\<close>

lemma run_frames:
  assumes "keeps t s'" "pml4 s' = pml4 t" "\<exists>f. page_frame t N = Some f \<and> unat f \<in> U"
    "\<forall>k. N + 1 \<le> k \<and> k < N + 1 + n \<longrightarrow> (\<exists>f. page_frame s' k = Some f \<and> unat f \<in> V)"
  shows "\<forall>k. N \<le> k \<and> k < N + Suc n \<longrightarrow> (\<exists>f. page_frame s' k = Some f \<and> unat f \<in> U \<union> V)"
proof (intro allI impI)
  fix k assume k: "N \<le> k \<and> k < N + Suc n"
  show "\<exists>f. page_frame s' k = Some f \<and> unat f \<in> U \<union> V"
  proof (cases "k = N")
    case True
    then show ?thesis using assms(3) page_frame_keeps [OF assms(1,2), of N] by blast
  next
    case False
    then have "N + 1 \<le> k \<and> k < N + 1 + n" using k by simp
    then show ?thesis using assms(4) by blast
  qed
qed

text \<open>The run costs exactly the frames of its pages and of the tables that are new; there are finitely many.\<close>

lemma map_run:
  assumes "mid s ns {} s" "vm_ok s N fr" "free_frames s ns \<subseteq> fr" "finite fr" "N + card fr < 2 ^ 18"
    and "map_loop ff fl n (slot_addr N) s \<noteq> None \<or> rich (run_cost N n) s"
  shows "\<exists>U s'. map_loop ff fl n (slot_addr N) s = Some s' \<and> mid s ns U s' \<and> vm_ok s' (N + n) (fr - U) \<and> card U = run_cost N n \<and>
    (\<forall>k. N \<le> k \<and> k < N + n \<longrightarrow> (\<exists>f. page_frame s' k = Some f \<and> unat f \<in> U)) \<and>
    (\<forall>i. rich (run_cost N n + i) s \<longrightarrow> rich i s')"
  using assms
proof (induction n arbitrary: s ns N fr)
  case 0
  then show ?case by (intro exI [of _ "{}"] exI [of _ s]) simp
next
  case (Suc n)
  have N: "N < 2 ^ 18" using Suc.prems(5) by simp
  have "getOrCreateEntryLevel ff (slot_addr N) PAGE fl s \<noteq> None \<or> rich (cost N) s"
    using Suc.prems(6) rich_less [of "run_cost N (Suc n)" s "cost N"] by auto
  from grow_page [OF Suc.prems(1-3) N this] obtain U r t where
    r: "getOrCreateEntryLevel ff (slot_addr N) PAGE fl s = Some (r, t)" and
    U: "card U = cost N" "mid s ns U t" "vm_ok t (N + 1) (fr - U)" "\<And>i. rich (cost N + i) s \<Longrightarrow> rich i t" and
    p: "\<exists>f. page_frame t N = Some f \<and> unat f \<in> U" by blast
  then obtain ms where ms: "took s ns U t ms" by (auto simp: mid_def)
  have lk: "bit (alloc_lock t) 0" "cr3 t = cr3 s" using U(2) ms by (auto simp: mid_def took_def same_heap_def)
  have sub: "free_frames t ms \<subseteq> fr - U" "U \<subseteq> fr" using ms Suc.prems(3) by (auto simp: took_def)
  have fin: "finite (fr - U)" "finite U" using Suc.prems(4) sub(2) finite_subset by auto
  have "card (fr - U) + card U = card fr"
    using sub(2) fin(2) card_mono [OF Suc.prems(4) sub(2)] by (simp add: card_Diff_subset)
  moreover have "0 < card U" using U(1) by (simp add: cost_def)
  ultimately have c: "N + 1 + card (fr - U) < 2 ^ 18" using Suc.prems(5) by linarith
  have m: "mid t ms {} t" by (rule mid_start) (use ms lk in \<open>auto simp: took_def\<close>)
  have "slot_addr N + PAGE_SIZE = slot_addr (N + 1)" using slot_addr_Suc [of N] c by simp
  then have step: "map_loop ff fl (Suc n) (slot_addr N) s = map_loop ff fl n (slot_addr (N + 1)) t" using r by simp
  then have "map_loop ff fl n (slot_addr (N + 1)) t \<noteq> None \<or> rich (run_cost (N + 1) n) t"
    using Suc.prems(6) U(4) by auto
  from Suc.IH [OF m U(3) sub(1) fin(1) c this] obtain V s' where
    V: "mid t ms V s'" "vm_ok s' (N + 1 + n) (fr - U - V)" "card V = run_cost (N + 1) n" "map_loop ff fl n (slot_addr (N + 1)) t = Some s'"
      "\<And>i. rich (run_cost (N + 1) n + i) t \<Longrightarrow> rich i s'" and
    q: "\<forall>k. N + 1 \<le> k \<and> k < N + 1 + n \<longrightarrow> (\<exists>f. page_frame s' k = Some f \<and> unat f \<in> V)" by blast
  then obtain ms' where ms': "took t ms V s' ms'" by (auto simp: mid_def)
  note tt = took_trans [OF ms ms']
  have "finite V" using ms' sub(1) fin(1) finite_subset by (auto simp: took_def intro: finite_subset)
  then have "card (U \<union> V) = card U + card V" using fin(2) tt(2) by (simp add: card_Un_disjoint)
  moreover have "mid s ns (U \<union> V) s'" using tt(1) V(1) U(2) keeps_trans by (auto simp: mid_def)
  moreover have "fr - U - V = fr - (U \<union> V)" by blast
  moreover have "\<forall>i. rich (run_cost N (Suc n) + i) s \<longrightarrow> rich i s'" using U(4) V(5) by (simp add: add.assoc)
  moreover have "\<forall>k. N \<le> k \<and> k < N + Suc n \<longrightarrow> (\<exists>f. page_frame s' k = Some f \<and> unat f \<in> U \<union> V)"
    using run_frames [OF _ _ p q] V(1) mid_pml4 [OF V(1)] by (simp add: mid_def)
  ultimately show ?case using V(1-4) step U(1) by (intro exI [of _ "U \<union> V"] exI [of _ s']) simp
qed

lemma alloc_vm_ok:
  assumes "bit (alloc_lock s) 0" "frames_inv s ns" "frame_lock0 s = 0" "frame_lock1 s = 0"
    and v: "vm_ok s N fr" and fr: "free_frames s ns \<subseteq> fr" "finite fr" and N: "N + card fr < 2 ^ 18" and n: "unat n < 2 ^ 20"
    and go: "alloc_vm ff 509 n fl s \<noteq> None \<or> \<not> (0 < N \<and> N mod 512 = 0) \<and> rich (run_cost N (unat n)) s"
  shows "\<exists>U s' ns'. alloc_vm ff 509 n fl s = Some (slot_addr N, s') \<and> took s ns U s' ns' \<and>
    vm_ok s' (N + unat n) (fr - U) \<and> card U = run_cost N (unat n) \<and>
    (\<forall>k. N \<le> k \<and> k < N + unat n \<longrightarrow> (\<exists>f. page_frame s' k = Some f \<and> unat f \<in> U)) \<and> keeps s s' \<and> cr3 s' = cr3 s \<and> paging.more s' = paging.more s \<and>
    (\<forall>i. rich (run_cost N (unat n) + i) s \<longrightarrow> rich i s')"
proof -
  obtain t3 t2 t1 where ok: "slot_ok s N t3 t2 t1" using v by (auto simp: vm_ok_def)
  have N': "N < 2 ^ 18" using N by simp
  note e = alloc_vm_slot [OF ok N' n, of ff fl, unfolded map_pages_def]
  have nf: "\<not> (0 < N \<and> N mod 512 = 0)" using go e by (auto split: if_splits)
  then have go': "map_loop ff fl (unat n) (slot_addr N) s \<noteq> None \<or> rich (run_cost N (unat n)) s"
    using go e by (auto split: if_splits)
  from map_run [OF mid_start [OF assms(1-4)] v fr N go'] obtain U s' where
    "map_loop ff fl (unat n) (slot_addr N) s = Some s'" "mid s ns U s'" "vm_ok s' (N + unat n) (fr - U)" "card U = run_cost N (unat n)"
    "\<forall>k. N \<le> k \<and> k < N + unat n \<longrightarrow> (\<exists>f. page_frame s' k = Some f \<and> unat f \<in> U)"
    "\<forall>i. rich (run_cost N (unat n) + i) s \<longrightarrow> rich i s'" by blast
  then show ?thesis using e nf by (auto simp: mid_def)
qed

end

end
