(* ===== verification/Boot.thy ===== *)
theory Boot
  imports PageTable_Alloc
begin

text \<open>
  The page tables the kernel starts with: \<open>SwitchToLongMode\<close> of \<open>src/boot/kernel_64.asm\<close> builds them
  in real mode, with 16-bit addresses and 32-bit writes, and \<open>prepareKernelPaginationTable\<close> of
  \<open>pagination.cpp\<close> adds the recursive entry and removes the low half.
\<close>

section \<open>Building the tables\<close>

text \<open>A 32-bit write, on memory read as 64-bit entries.\<close>

definition wr32 :: "addr \<Rightarrow> uint32 \<Rightarrow> (addr \<Rightarrow> uint64) \<Rightarrow> addr \<Rightarrow> uint64" where
  "wr32 a v m = (let e = a AND NOT 7 in
     m(e := if bit a 2 then take_bit 32 (m e) OR push_bit 32 (ucast v)
            else push_bit 32 (drop_bit 32 (m e)) OR ucast v))"

fun rep_stosd :: "nat \<Rightarrow> uint16 \<Rightarrow> uint32 \<Rightarrow> (addr \<Rightarrow> uint64) \<Rightarrow> addr \<Rightarrow> uint64" where
  "rep_stosd 0 di eax m = m"
| "rep_stosd (Suc cx) di eax m = rep_stosd cx (di + 4) eax (wr32 (ucast di) eax m)"

text \<open>\<open>.LoopPageTable\<close>\<close>

function LoopPageTable :: "uint32 \<Rightarrow> uint16 \<Rightarrow> (addr \<Rightarrow> uint64) \<Rightarrow> addr \<Rightarrow> uint64" where
  "LoopPageTable eax di m =
     (let m = wr32 (ucast di) eax m; eax = eax + 0x1000; di = di + 8 in
      if eax < 0x200000 then LoopPageTable eax di m else m)"
  by pat_completeness auto
termination
proof (relation "measure (\<lambda>(eax, di, m). if eax < 0x200000 then 0x200000 - unat eax else 2 ^ 33)")
  fix eax eax' :: uint32 and di :: uint16 and m m' :: "addr \<Rightarrow> uint64" and di'
  assume "eax' = eax + 0x1000" "eax' < 0x200000"
  moreover have "unat (eax + 0x1000) = unat eax + 0x1000" if "eax < 0x200000"
    using that by (subst unat_add_no_wrap) (auto simp: word_less_nat_alt)
  ultimately show "((eax', di', m'), eax, di, m) \<in> measure (\<lambda>(eax, di, m). if eax < 0x200000 then 0x200000 - unat eax else 2 ^ 33)"
    by (auto simp: word_less_nat_alt)
qed simp

declare LoopPageTable.simps [simp del]

definition INI_PAGIN :: uint16 where
  "INI_PAGIN = 0x1000"

definition L4_PAGE_HIGH_KERNEL :: uint16 where
  "L4_PAGE_HIGH_KERNEL = 511"

definition PAGE_FLAGS :: uint32 where \<comment> \<open>\<open>PAGE\<close>\<close>
  "PAGE_FLAGS = push_bit 1 1 OR push_bit 0 1"

text \<open>\<open>di\<close> holds \<open>INI_PAGIN\<close> and \<open>es\<close> is 0.\<close>

definition SwitchToLongMode :: "'a paging_scheme \<Rightarrow> 'a paging_scheme" where
  "SwitchToLongMode s =
     (let di = INI_PAGIN;
          m = rep_stosd 0x1000 di 0 (phys s);
          eax = ucast (di + 0x1000) OR PAGE_FLAGS;
          m = wr32 (ucast di) eax m;
          m = wr32 (ucast (di + L4_PAGE_HIGH_KERNEL * 8)) eax m;
          eax = ucast (di + 0x2000) OR PAGE_FLAGS;
          m = wr32 (ucast (di + 0x1000)) eax m;
          eax = ucast (di + 0x3000) OR PAGE_FLAGS;
          m = wr32 (ucast (di + 0x2000)) eax m;
          m = LoopPageTable (0 OR PAGE_FLAGS) (di + 0x3000) m
      in s\<lparr>phys := m, cr3 := ucast di\<rparr>)"

section \<open>Preparing them for the kernel\<close>

definition L4_ADDR :: addr where
  "L4_ADDR = 0x1000"

definition KERNEL_OFFSET :: addr where
  "KERNEL_OFFSET = 0xFFFFFF8000000000"

definition prepareKernelPaginationTable :: "'a paging_scheme \<Rightarrow> 'a paging_scheme option" where
  "prepareKernelPaginationTable s = do {
     let l3 = L4_ADDR + 510 * 8;
     s \<leftarrow> upd64 l3 (setAddr L4_ADDR) s;
     s \<leftarrow> upd64 l3 (setSuperuserSpace True) s;
     s \<leftarrow> upd64 l3 (setCache True) s;
     s \<leftarrow> upd64 l3 (setWritable True) s;
     s \<leftarrow> upd64 l3 (setPresent True) s;
     s \<leftarrow> upd64 l3 (setWriteThrough True) s;
     let l3 = L4_ADDR + 511 * 8;
     s \<leftarrow> upd64 l3 (setGlobal True) s;
     s \<leftarrow> upd64 l3 (setSuperuserSpace True) s;
     s \<leftarrow> upd64 l3 (setCache True) s;
     s \<leftarrow> upd64 l3 (setWriteThrough True) s;
     l3 \<leftarrow> getEntryTable 0 s;
     upd64 l3 (setPresent False) s }"

section \<open>What the real-mode code writes\<close>

lemma low_bits:
  assumes "8 dvd unat di" "n < 3"
  shows "\<not> bit (di :: uint16) n"
proof -
  have "take_bit 3 (unat di) = 0" using assms(1) by (simp add: take_bit_eq_mod dvd_eq_mod_eq_0)
  then have "take_bit 3 di = 0" by (simp add: unsigned_take_bit_eq word_unat_eq_iff)
  moreover have "bit (take_bit 3 di) n \<longleftrightarrow> bit di n" using assms(2) by (simp add: bit_take_bit_iff)
  ultimately show ?thesis by simp
qed

lemma bit_7: "bit (7 :: uint64) n \<longleftrightarrow> n < 3"
proof -
  have "(7 :: uint64) = mask 3" by (simp add: mask_eq_decr_exp)
  then show ?thesis by (simp only: bit_mask_iff, auto)
qed

lemma bit_4: "bit (4 :: uint16) n \<longleftrightarrow> n = 2"
proof -
  have "(4 :: uint16) = push_bit 2 1" by simp
  then show ?thesis by (simp only: bit_push_bit_iff bit_1_iff) auto
qed

lemma entry_of:
  assumes "8 dvd unat di"
  shows "(ucast (di :: uint16) :: addr) AND NOT 7 = ucast di" "\<not> bit (ucast di :: addr) 2"
    "(ucast (di + 4) :: addr) AND NOT 7 = ucast di" "bit (ucast (di + 4) :: addr) 2"
proof -
  have "di + 4 = di OR 4"
  proof (rule disjunctive_add_eq_or)
    have "\<not> (bit di n \<and> n = 2)" for n using low_bits [OF assms, of n] by auto
    then show "di AND 4 = 0" by (intro bit_eqI) (simp only: bit_and_iff bit_4 bit_0_eq bot_apply bot_bool_def)
  qed
  then have b: "bit (di + 4) n \<longleftrightarrow> bit di n \<or> n = 2" for n by (simp only: bit_or_iff bit_4)
  have u: "bit (ucast w :: addr) n \<longleftrightarrow> bit w n" for w :: uint16 and n
    by (auto simp: bit_ucast_iff dest: bit_imp_le_length)
  have c: "bit w n \<Longrightarrow> n < 64" for w :: uint16 and n by (auto dest: bit_imp_le_length)
  show "(ucast di :: addr) AND NOT 7 = ucast di"
    by (rule bit_eqI, unfold bit_and_iff bit_not_iff bit_7 u) (use low_bits [OF assms] in auto)
  show "(ucast (di + 4) :: addr) AND NOT 7 = ucast di"
    by (rule bit_eqI, unfold bit_and_iff bit_not_iff bit_7 u b) (use low_bits [OF assms] in auto)
  show "\<not> bit (ucast di :: addr) 2" "bit (ucast (di + 4) :: addr) 2"
    unfolding u b using low_bits [OF assms, of 2] by simp_all
qed

lemma wr32_low:
  assumes "8 dvd unat di" "m (ucast di) = 0"
  shows "wr32 (ucast (di :: uint16)) v m = m(ucast di := ucast v)"
  using assms(2) entry_of(1,2) [OF assms(1)] by (simp add: wr32_def Let_def)

lemma wr32_both:
  assumes "8 dvd unat di"
  shows "wr32 (ucast (di + 4 :: uint16)) 0 (wr32 (ucast di) 0 m) = m(ucast di := 0)"
proof -
  have "take_bit 32 (push_bit 32 x) = (0 :: uint64)" for x by (rule bit_eqI) (simp add: bit_simps)
  then show ?thesis using entry_of [OF assms] by (simp add: wr32_def Let_def)
qed

lemma of_nat_di: "(of_nat (unat di) :: addr) = ucast (di :: uint16)"
  by (simp add: word_unat_eq_iff unat_ucast_up)

text \<open>Zeroing \<open>2 * k\<close> double words clears \<open>k\<close> entries.\<close>

lemma rep_stosd_zero:
  "8 dvd unat di \<Longrightarrow> unat di + 8 * k \<le> 2 ^ 16 - 8 \<Longrightarrow>
   rep_stosd (2 * k) di 0 m = (\<lambda>p. if \<exists>i < k. p = of_nat (unat di + 8 * i) then 0 else m p)"
proof (induction k arbitrary: di m)
  case (Suc k)
  have u: "unat (di + 8) = unat di + 8" using Suc.prems(2) by (subst unat_add_no_wrap) auto
  have e: "di + 4 + 4 = di + 8" by simp
  have "rep_stosd (2 * Suc k) di 0 m = rep_stosd (2 * k) (di + 8) 0 (m(ucast di := 0))"
    using wr32_both [OF Suc.prems(1)] by (simp add: e)
  also have "\<dots> = (\<lambda>p. if \<exists>i < k. p = of_nat (unat (di + 8) + 8 * i) then 0 else (m(ucast di := 0)) p)"
    by (rule Suc.IH) (use Suc.prems u in auto)
  also have "\<dots> = (\<lambda>p. if \<exists>i < Suc k. p = of_nat (unat di + 8 * i) then 0 else m p)"
  proof
    fix p :: addr
    have "(\<exists>i < Suc k. p = of_nat (unat di + 8 * i)) \<longleftrightarrow> p = ucast di \<or> (\<exists>i < k. p = of_nat (unat (di + 8) + 8 * i))"
      unfolding Ex_less_Suc2 u by (simp add: algebra_simps of_nat_di)
    then show "(if \<exists>i < k. p = of_nat (unat (di + 8) + 8 * i) then 0 else (m(ucast di := 0)) p) =
        (if \<exists>i < Suc k. p = of_nat (unat di + 8 * i) then 0 else m p)" by auto
  qed
  finally show ?case .
qed simp

text \<open>The page-table loop writes entry \<open>i\<close> at \<open>0x4000 + 8 * i\<close>.\<close>

definition pt_at :: "nat \<Rightarrow> addr" where
  "pt_at i = of_nat (0x4000 + 8 * i)"

lemma pt_at_eq: "i < 512 \<Longrightarrow> j < 512 \<Longrightarrow> pt_at i = pt_at j \<longleftrightarrow> i = j"
  unfolding pt_at_def word_unat_eq_iff by (subst (1 2) unat_of_nat_small) simp_all

lemma loop_step:
  assumes i: "i < 512" and z: "m (pt_at i) = 0"
  defines "m1 \<equiv> m(pt_at i := of_nat (4096 * i + 3))"
  shows "LoopPageTable (of_nat (4096 * i + 3)) (of_nat (0x4000 + 8 * i)) m =
    (if Suc i < 512 then LoopPageTable (of_nat (4096 * Suc i + 3)) (of_nat (0x4000 + 8 * Suc i)) m1 else m1)"
proof -
  let ?di = "of_nat (0x4000 + 8 * i) :: uint16" and ?e = "of_nat (4096 * i + 3) :: uint32"
  have ud: "unat ?di = 0x4000 + 8 * i" by (rule unat_of_nat_small) (use i in simp)
  have ue: "unat (of_nat (4096 * k + 3) :: uint32) = 4096 * k + 3" if "k \<le> 512" for k
    by (rule unat_of_nat_small) (use that in simp)
  have d: "(ucast ?di :: addr) = pt_at i" by (rule of_nat_di [of ?di, unfolded ud, folded pt_at_def, symmetric])
  have e: "(ucast ?e :: uint64) = of_nat (4096 * i + 3)"
    using ue [of i] i by (simp add: word_unat_eq_iff unat_ucast_up unat_of_nat_small del: of_nat_add of_nat_mult)
  have al: "8 dvd unat ?di" unfolding ud by simp
  have w: "wr32 (ucast ?di) ?e m = m1"
    using wr32_low [OF al, of m ?e] z unfolding d e m1_def by simp
  have n: "?e + 0x1000 = of_nat (4096 * Suc i + 3)" "?di + 8 = of_nat (0x4000 + 8 * Suc i)" by (simp_all add: algebra_simps)
  have l: "(of_nat (4096 * Suc i + 3) :: uint32) < 0x200000 \<longleftrightarrow> Suc i < 512"
    unfolding word_less_nat_alt using ue [of "Suc i"] i by (simp del: of_nat_add of_nat_mult) linarith
  show ?thesis by (subst LoopPageTable.simps) (simp only: Let_def w n l)
qed

lemma LoopPageTable_fill:
  assumes "i < 512" "\<And>j. i \<le> j \<Longrightarrow> j < 512 \<Longrightarrow> m (pt_at j) = 0"
  shows "LoopPageTable (of_nat (4096 * i + 3)) (of_nat (0x4000 + 8 * i)) m p =
    (if \<exists>j. i \<le> j \<and> j < 512 \<and> p = pt_at j then of_nat (4096 * ((unat p - 0x4000) div 8) + 3) else m p)"
  using assms
proof (induction "512 - i" arbitrary: i m)
  case (Suc k)
  let ?m = "m(pt_at i := of_nat (4096 * i + 3))"
  have u: "unat (pt_at j) = 0x4000 + 8 * j" if "j < 512" for j
    unfolding pt_at_def by (rule unat_of_nat_small) (use that in simp)
  have v: "(unat (pt_at i) - 0x4000) div 8 = i" using u [OF Suc.prems(1)] by simp
  have z: "m (pt_at i) = 0" using Suc.prems by simp
  note step = loop_step [of i m, OF Suc.prems(1) z]
  show ?case
  proof (cases "Suc i < 512")
    case True
    have z': "?m (pt_at j) = 0" if "Suc i \<le> j" "j < 512" for j
      using Suc.prems that pt_at_eq [of j i] by simp
    have "k = 512 - Suc i" using Suc.hyps(2) by simp
    from Suc.hyps(1) [of "Suc i" ?m, OF this True z'] have L:
      "LoopPageTable (of_nat (4096 * i + 3)) (of_nat (0x4000 + 8 * i)) m p =
        (if \<exists>j. Suc i \<le> j \<and> j < 512 \<and> p = pt_at j then of_nat (4096 * ((unat p - 0x4000) div 8) + 3) else ?m p)"
      unfolding step using True by simp
    have E: "(\<exists>j. i \<le> j \<and> j < 512 \<and> p = pt_at j) \<longleftrightarrow> p = pt_at i \<or> (\<exists>j. Suc i \<le> j \<and> j < 512 \<and> p = pt_at j)"
    proof
      assume "\<exists>j. i \<le> j \<and> j < 512 \<and> p = pt_at j"
      then obtain j where j: "i \<le> j" "j < 512" "p = pt_at j" by blast
      then have "j = i \<or> Suc i \<le> j" by auto
      then show "p = pt_at i \<or> (\<exists>j. Suc i \<le> j \<and> j < 512 \<and> p = pt_at j)" using j by blast
    next
      assume "p = pt_at i \<or> (\<exists>j. Suc i \<le> j \<and> j < 512 \<and> p = pt_at j)"
      then show "\<exists>j. i \<le> j \<and> j < 512 \<and> p = pt_at j" using Suc.prems(1) Suc_leD by blast
    qed
    show ?thesis
    proof (cases "\<exists>j. Suc i \<le> j \<and> j < 512 \<and> p = pt_at j")
      case True
      show ?thesis unfolding L E if_P [OF True] if_P [OF disjI2 [OF True]] ..
    next
      case False
      then have F: "(\<exists>j\<ge>Suc i. j < 512 \<and> p = pt_at j) = False" by simp
      show ?thesis unfolding L E F using v by (cases "p = pt_at i") simp_all
    qed
  next
    case False
    then have i: "i = 511" using Suc.prems(1) by simp
    have "(\<exists>j. i \<le> j \<and> j < 512 \<and> p = pt_at j) \<longleftrightarrow> p = pt_at i"
    proof
      assume "\<exists>j. i \<le> j \<and> j < 512 \<and> p = pt_at j"
      then obtain j where "i \<le> j" "j < 512" "p = pt_at j" by blast
      moreover from this have "j = i" using i by simp
      ultimately show "p = pt_at i" by simp
    qed (use Suc.prems(1) in blast)
    then show ?thesis unfolding step using False v by simp
  qed
qed simp

text \<open>All of memory after \<open>SwitchToLongMode\<close>.\<close>

definition zeroed :: "addr \<Rightarrow> bool" where
  "zeroed p \<longleftrightarrow> (\<exists>i < 0x800. p = of_nat (0x1000 + 8 * i))"

lemma zeroedI: "i < 0x800 \<Longrightarrow> p = of_nat (0x1000 + 8 * i) \<Longrightarrow> zeroed p"
  by (auto simp: zeroed_def)

definition boot_mem :: "(addr \<Rightarrow> uint64) \<Rightarrow> addr \<Rightarrow> uint64" where
  "boot_mem m p =
    (if \<exists>j. 0 \<le> j \<and> j < 512 \<and> p = pt_at j then of_nat (4096 * ((unat p - 0x4000) div 8) + 3)
     else if p = 0x3000 then 0x4003
     else if p = 0x2000 then 0x3003
     else if p = 0x1FF8 \<or> p = 0x1000 then 0x2003
     else if zeroed p then 0 else m p)"

lemma SwitchToLongMode_mem: "SwitchToLongMode s = s\<lparr>cr3 := 0x1000, phys := boot_mem (phys s)\<rparr>"
proof -
  define m0 where "m0 = (\<lambda>p. if zeroed p then 0 else phys s p)"
  have w: "wr32 a v m = m(a := ucast v)" if "8 dvd unat di" "ucast di = a" "m a = 0"
    for di :: uint16 and a v and m :: "addr \<Rightarrow> uint64"
    using wr32_low [OF that(1), of m v] that(2,3) by simp
  have d8: "8 dvd unat (0x1000 :: uint16)" "8 dvd unat (0x1FF8 :: uint16)" "8 dvd unat (0x2000 :: uint16)" "8 dvd unat (0x3000 :: uint16)"
    by simp_all
  have z: "zeroed 0x1000" "zeroed 0x1FF8" "zeroed 0x2000" "zeroed 0x3000"
    using zeroedI [where i = 0 and p = "0x1000"] zeroedI [where i = 511 and p = "0x1FF8"]
      zeroedI [where i = 512 and p = "0x2000"] zeroedI [where i = 1024 and p = "0x3000"] by simp_all
  then have zz: "m0 0x1000 = 0" "m0 0x1FF8 = 0" "m0 0x2000 = 0" "m0 0x3000 = 0" unfolding m0_def by simp_all
  have zp: "m0 (pt_at j) = 0" if "j < 512" for j
    using zeroedI [where i = "1536 + j" and p = "pt_at j"] that by (simp add: m0_def pt_at_def algebra_simps)
  have r0: "rep_stosd 0x1000 0x1000 0 (phys s) = m0"
    using rep_stosd_zero [where di = "0x1000" and k = "0x800" and m = "phys s"] d8(1) by (simp add: m0_def zeroed_def)
  let ?m1 = "m0(0x1000 := 0x2003)" and ?m2 = "m0(0x1000 := 0x2003, 0x1FF8 := 0x2003)"
  let ?m3 = "m0(0x1000 := 0x2003, 0x1FF8 := 0x2003, 0x2000 := 0x3003)"
  let ?m4 = "m0(0x1000 := 0x2003, 0x1FF8 := 0x2003, 0x2000 := 0x3003, 0x3000 := 0x4003)"
  have w1: "wr32 0x1000 0x2003 m0 = ?m1" by (rule w [OF d8(1), THEN trans]) (simp_all add: zz)
  have w2: "wr32 0x1FF8 0x2003 ?m1 = ?m2" by (rule w [OF d8(2), THEN trans]) (simp_all add: zz)
  have w3: "wr32 0x2000 0x3003 ?m2 = ?m3" by (rule w [OF d8(3), THEN trans]) (simp_all add: zz)
  have w4: "wr32 0x3000 0x4003 ?m3 = ?m4" by (rule w [OF d8(4), THEN trans]) (simp_all add: zz)
  have u: "unat (pt_at j) = 0x4000 + 8 * j" if "j < 512" for j
    unfolding pt_at_def by (rule unat_of_nat_small) (use that in simp)
  have ne: "pt_at j \<noteq> 0x1000 \<and> pt_at j \<noteq> 0x1FF8 \<and> pt_at j \<noteq> 0x2000 \<and> pt_at j \<noteq> 0x3000" if "j < 512" for j
    using u [OF that] by (auto simp: word_unat_eq_iff)
  have z4: "?m4 (pt_at j) = 0" if "j < 512" for j using zp [OF that] ne [OF that] by simp
  have l: "LoopPageTable 3 0x4000 ?m4 = boot_mem (phys s)"
  proof
    fix p
    have "LoopPageTable 3 0x4000 ?m4 p =
        (if \<exists>j. 0 \<le> j \<and> j < 512 \<and> p = pt_at j then of_nat (4096 * ((unat p - 0x4000) div 8) + 3) else ?m4 p)"
      using LoopPageTable_fill [of 0 ?m4 p] z4 by simp
    also have "?m4 p = (if p = 0x3000 then 0x4003 else if p = 0x2000 then 0x3003
        else if p = 0x1FF8 \<or> p = 0x1000 then 0x2003 else if zeroed p then 0 else phys s p)"
      by (simp add: m0_def)
    finally show "LoopPageTable 3 0x4000 ?m4 p = boot_mem (phys s) p" unfolding boot_mem_def .
  qed
  have c: "(0x1000 :: uint16) + 0x1000 = 0x2000" "(0x1000 :: uint16) + 0x2000 = 0x3000" "(0x1000 :: uint16) + 0x3000 = 0x4000"
    "(0x1000 :: uint16) + 511 * 8 = 0x1FF8" "(ucast (0x2000 :: uint16) :: uint32) OR PAGE_FLAGS = 0x2003"
    "(ucast (0x3000 :: uint16) :: uint32) OR PAGE_FLAGS = 0x3003" "(ucast (0x4000 :: uint16) :: uint32) OR PAGE_FLAGS = 0x4003"
    "(0 :: uint32) OR PAGE_FLAGS = 3" "(ucast (0x1000 :: uint16) :: addr) = 0x1000"
    "(ucast (0x1FF8 :: uint16) :: addr) = 0x1FF8" "(ucast (0x2000 :: uint16) :: addr) = 0x2000" "(ucast (0x3000 :: uint16) :: addr) = 0x3000"
    by (simp_all add: PAGE_FLAGS_def)
  show ?thesis
    unfolding SwitchToLongMode_def Let_def INI_PAGIN_def L4_PAGE_HIGH_KERNEL_def r0 c w1 w2 w3 w4 l by simp
qed

section \<open>The addresses it maps\<close>

lemma unat_entry: "t \<in> {1, 2, 3, 4} \<Longrightarrow> i < 512 \<Longrightarrow> unat (entry_at (of_nat (4096 * t)) i) = 4096 * t + 8 * i"
  unfolding entry_at_def of_nat_add [symmetric] by (rule unat_of_nat_small) auto

lemma zeroed_entry: "t \<in> {1, 2, 3, 4} \<Longrightarrow> i < 512 \<Longrightarrow> zeroed (entry_at (of_nat (4096 * t)) i)"
  by (rule zeroedI [where i = "512 * (t - 1) + i"]) (auto simp: entry_at_def)

lemma pt_at_entry: "pt_at i = entry_at 0x4000 i"
  by (simp add: pt_at_def entry_at_def)

lemma boot_low:
  assumes "unat a < 0x4000" "zeroed a"
  shows "boot_mem m a = (if unat a = 0x3000 then 0x4003 else if unat a = 0x2000 then 0x3003
    else if unat a = 0x1FF8 \<or> unat a = 0x1000 then 0x2003 else 0)"
proof -
  have p: "unat (pt_at j) = 0x4000 + 8 * j" if "j < 512" for j
    using unat_entry [of 4 j] that by (simp add: pt_at_entry)
  have n: "(\<exists>j. 0 \<le> j \<and> j < 512 \<and> a = pt_at j) = False" using p assms(1) by fastforce
  have w: "a = 0x3000 \<longleftrightarrow> unat a = 0x3000" "a = 0x2000 \<longleftrightarrow> unat a = 0x2000" "a = 0x1FF8 \<longleftrightarrow> unat a = 0x1FF8"
    "a = 0x1000 \<longleftrightarrow> unat a = 0x1000" by (simp_all add: word_unat_eq_iff)
  show ?thesis unfolding boot_mem_def n w using assms(2) by simp
qed

text \<open>Every entry of the four tables.\<close>

lemma boot_entry:
  assumes "i < 512"
  shows "boot_mem m (entry_at 0x1000 i) = (if i = 0 \<or> i = 511 then 0x2003 else 0)"
    "boot_mem m (entry_at 0x2000 i) = (if i = 0 then 0x3003 else 0)"
    "boot_mem m (entry_at 0x3000 i) = (if i = 0 then 0x4003 else 0)"
    "boot_mem m (entry_at 0x4000 i) = of_nat (4096 * i + 3)"
proof -
  note u = unat_entry [OF _ assms] and z = zeroed_entry [OF _ assms]
  have t: "of_nat (4096 * 1) = (0x1000 :: addr)" "of_nat (4096 * 2) = (0x2000 :: addr)"
    "of_nat (4096 * 3) = (0x3000 :: addr)" "of_nat (4096 * 4) = (0x4000 :: addr)" by simp_all
  have a: "unat (entry_at 0x1000 i) = 0x1000 + 8 * i" "zeroed (entry_at 0x1000 i)"
    "unat (entry_at 0x2000 i) = 0x2000 + 8 * i" "zeroed (entry_at 0x2000 i)"
    "unat (entry_at 0x3000 i) = 0x3000 + 8 * i" "zeroed (entry_at 0x3000 i)"
    "unat (entry_at 0x4000 i) = 0x4000 + 8 * i"
    using u [of 1] z [of 1] u [of 2] z [of 2] u [of 3] z [of 3] u [of 4] unfolding t by simp_all
  have "i = 511 \<longleftrightarrow> 8 * i = 0xFF8" by simp
  then show "boot_mem m (entry_at 0x1000 i) = (if i = 0 \<or> i = 511 then 0x2003 else 0)"
    using boot_low [of "entry_at 0x1000 i" m] a(1,2) assms by simp
  show "boot_mem m (entry_at 0x2000 i) = (if i = 0 then 0x3003 else 0)"
    using boot_low [of "entry_at 0x2000 i" m] a(3,4) assms by simp
  show "boot_mem m (entry_at 0x3000 i) = (if i = 0 then 0x4003 else 0)"
    using boot_low [of "entry_at 0x3000 i" m] a(5,6) assms by simp
  have "\<exists>j. 0 \<le> j \<and> j < 512 \<and> entry_at 0x4000 i = pt_at j" using assms pt_at_entry by auto
  then show "boot_mem m (entry_at 0x4000 i) = of_nat (4096 * i + 3)"
    unfolding boot_mem_def by (simp only: if_True) (simp add: a(7))
qed

lemma boot_flags: "isPresent 0x2003" "isPresent 0x3003" "isPresent 0x4003" "\<not> isPresent 0"
  "getAddr 0x2003 = 0x2000" "getAddr 0x3003 = 0x3000" "getAddr 0x4003 = 0x4000" "getAddr 0x1000 = 0x1000"
  by code_simp+

lemma page_entry:
  assumes "d < 512"
  shows "isPresent (of_nat (4096 * d + 3))" "getAddr (of_nat (4096 * d + 3)) = of_nat (4096 * d)"
proof -
  have p: "(of_nat (4096 * d) :: uint64) = push_bit 12 (of_nat d)" by (simp add: push_bit_eq_mult)
  have b3: "bit (3 :: uint64) n \<longleftrightarrow> n < 2" for n
  proof -
    have "(3 :: uint64) = mask 2" by (simp add: mask_eq_decr_exp)
    then show ?thesis by (simp only: bit_mask_iff, auto)
  qed
  have "(of_nat (4096 * d + 3) :: uint64) = push_bit 12 (of_nat d) + 3" using p by simp
  also have "\<dots> = push_bit 12 (of_nat d) OR 3"
    by (rule disjunctive_add_eq_or, rule bit_eqI, simp only: bit_and_iff b3 bit_push_bit_iff bit_0_eq bot_apply bot_bool_def) auto
  finally have b: "bit (of_nat (4096 * d + 3) :: uint64) n \<longleftrightarrow> n < 2 \<or> bit (of_nat (4096 * d) :: uint64) n" for n
    by (simp only: p bit_or_iff b3) auto
  have l: "\<not> bit (of_nat (4096 * d) :: uint64) n" if "n < 12" for n
    unfolding p using that by (simp add: bit_push_bit_iff)
  show "isPresent (of_nat (4096 * d + 3))" unfolding isPresent_bit b by simp
  have "12 \<le> n \<and> (n < 2 \<or> bit (of_nat (4096 * d) :: uint64) n) \<longleftrightarrow> bit (of_nat (4096 * d) :: uint64) n" for n
    using l [of n] by (cases "n < 12") auto
  then show "getAddr (of_nat (4096 * d + 3)) = of_nat (4096 * d)"
    by (intro bit_eqI) (simp only: bit_getAddr b)
qed

lemma walk_boot:
  assumes "a < 512" "b < 512" "c < 512" "d < 512"
  shows "walk (boot_mem m) 0x1000 [a, b, c, d] = (if (a = 0 \<or> a = 511) \<and> b = 0 \<and> c = 0 then Some (of_nat (4096 * d)) else None)"
  by (simp add: boot_entry assms page_entry boot_flags Let_def del: of_nat_add of_nat_mult)

lemma idx_nat: "idx n v = unat v div 2 ^ n mod 512"
proof -
  have "(0x1FF :: uint64) = mask 9" by (simp add: mask_eq_decr_exp)
  then have e: "drop_bit n v AND 0x1FF = take_bit 9 (drop_bit n v)" by (simp only: take_bit_eq_mask)
  show ?thesis unfolding idx_def e unsigned_take_bit_eq unsigned_drop_bit_eq
    using unat_lt64 [of v] by (simp add: take_bit_eq_mod drop_bit_eq_div)
qed

text \<open>The indices of the addresses of the first two megabytes and of their copy at the top.\<close>

lemma nat_indices:
  fixes n :: nat
  assumes "n < 2 ^ 64"
  shows "(n div 2 ^ 47 = 0 \<or> n div 2 ^ 47 = 0x1FFFF) \<and> (n div 2 ^ 39 mod 512 = 0 \<or> n div 2 ^ 39 mod 512 = 511) \<and>
      n div 2 ^ 30 mod 512 = 0 \<and> n div 2 ^ 21 mod 512 = 0 \<longleftrightarrow>
    n < 0x200000 \<or> 0xFFFFFF8000000000 \<le> n \<and> n < 0xFFFFFF8000200000"
proof -
  have d: "n div 2 ^ 30 = n div 2 ^ 21 div 512" "n div 2 ^ 39 = n div 2 ^ 21 div 512 div 512"
    "n div 2 ^ 47 = n div 2 ^ 21 div 512 div 512 div 256" by (simp_all flip: div_mult2_eq)
  define q where "q = n div 2 ^ 21"
  have "n < 0x200000 \<longleftrightarrow> q = 0" unfolding q_def by (simp add: div_eq_0_iff)
  moreover have "0xFFFFFF8000000000 \<le> n \<and> n < 0xFFFFFF8000200000 \<longleftrightarrow> q = 0x7FFFFFC0000" unfolding q_def by auto
  moreover have "q div 512 div 512 div 256 = 0 \<or> q div 512 div 512 div 256 = 0x1FFFF \<Longrightarrow>
     q div 512 div 512 mod 512 = 0 \<or> q div 512 div 512 mod 512 = 511 \<Longrightarrow> q div 512 mod 512 = 0 \<Longrightarrow> q mod 512 = 0 \<Longrightarrow>
     q = 0 \<or> q = 0x7FFFFFC0000"
  proof -
    assume h: "q div 512 div 512 div 256 = 0 \<or> q div 512 div 512 div 256 = 0x1FFFF"
      "q div 512 div 512 mod 512 = 0 \<or> q div 512 div 512 mod 512 = 511" "q div 512 mod 512 = 0" "q mod 512 = 0"
    define a where "a = q div 512 div 512"
    have e: "q = 512 * (512 * a)" unfolding a_def using h(3,4) by (metis add.right_neutral mult_div_mod_eq)
    have "a div 256 div 2 = a div 512" by (simp flip: div_mult2_eq)
    then have "a div 512 = 0 \<or> a div 512 = 0xFFFF" using h(1) unfolding a_def [symmetric] by auto
    moreover have "a mod 512 = 0 \<or> a mod 512 = 511" using h(2) unfolding a_def [symmetric] .
    moreover have "512 * (a div 512) + a mod 512 = a" by simp
    ultimately have "a = 0 \<or> a = 511 \<or> a = 512 * 0xFFFF \<or> a = 512 * 0xFFFF + 511"
      by (elim disjE) (simp_all only:, simp_all)
    then have "a = 0 \<or> a = 512 * 0xFFFF + 511" using h(1) unfolding a_def [symmetric] by auto
    then show ?thesis using e by auto
  qed
  ultimately show ?thesis unfolding d q_def [symmetric] by auto
qed

lemma canonical_nat: "canonical v \<longleftrightarrow> unat v div 2 ^ 47 = 0 \<or> unat v div 2 ^ 47 = 0x1FFFF"
  using unat_lt64 [of v] unfolding canonical_def word_unat_eq_iff unsigned_drop_bit_eq
  by (simp add: take_bit_eq_mod drop_bit_eq_div)

lemma low_12: "unat (v AND 0xFFF :: addr) = unat v mod 4096"
proof -
  have m: "(0xFFF :: addr) = mask 12" by (simp add: mask_eq_decr_exp)
  show ?thesis unfolding m take_bit_eq_mask [symmetric] unsigned_take_bit_eq by (simp add: take_bit_eq_mod)
qed

lemma SwitchToLongMode_mmu:
  "mmu (SwitchToLongMode s) v =
    (if v < 0x200000 then Some v
     else if KERNEL_OFFSET \<le> v \<and> v - KERNEL_OFFSET < 0x200000 then Some (v - KERNEL_OFFSET) else None)"
proof -
  define n where "n = unat v"
  have n: "n < 2 ^ 64" using unat_lt64 [of v] by (simp add: n_def)
  have ko: "unat KERNEL_OFFSET = 0xFFFFFF8000000000" by (simp add: KERNEL_OFFSET_def)
  have lo: "v < 0x200000 \<longleftrightarrow> n < 0x200000" by (simp add: word_less_nat_alt n_def)
  have hi: "KERNEL_OFFSET \<le> v \<and> v - KERNEL_OFFSET < 0x200000 \<longleftrightarrow> 0xFFFFFF8000000000 \<le> n \<and> n < 0xFFFFFF8000200000"
    by (auto simp: word_less_nat_alt word_le_nat_alt n_def ko unat_sub)
  let ?a = "idx 39 v" and ?b = "idx 30 v" and ?c = "idx 21 v" and ?d = "idx 12 v"
  have i: "?a < 512" "?b < 512" "?c < 512" "?d < 512" by (simp_all add: idx_nat)
  have d: "unat (of_nat (4096 * ?d) + (v AND 0xFFF)) = 4096 * ?d + n mod 4096"
  proof -
    have "unat (of_nat (4096 * ?d) :: addr) = 4096 * ?d" by (rule unat_of_nat_small) (use i(4) in simp)
    then show ?thesis using i(4) by (subst unat_add_no_wrap) (simp_all add: low_12 n_def)
  qed
  have w: "mmu (SwitchToLongMode s) v = (if canonical v \<and> (?a = 0 \<or> ?a = 511) \<and> ?b = 0 \<and> ?c = 0
      then Some (of_nat (4096 * ?d) + (v AND 0xFFF)) else None)"
  proof -
    have "cr3 (SwitchToLongMode s) = 0x1000" "phys (SwitchToLongMode s) = boot_mem (phys s)" by (simp_all add: SwitchToLongMode_mem)
    then show ?thesis unfolding mmu_def boot_flags(8) walk_boot [OF i] by (simp only: boot_flags(8) walk_boot [OF i]) auto
  qed
  have cond: "canonical v \<and> (?a = 0 \<or> ?a = 511) \<and> ?b = 0 \<and> ?c = 0 \<longleftrightarrow>
      n < 0x200000 \<or> 0xFFFFFF8000000000 \<le> n \<and> n < 0xFFFFFF8000200000"
    using nat_indices [OF n] by (simp only: canonical_nat idx_nat n_def)
  have D: "?d = n div 4096 mod 512" by (simp add: idx_nat n_def)
  show ?thesis
  proof (cases "n < 0x200000")
    case True
    then have "4096 * ?d + n mod 4096 = n" unfolding D by simp
    then have "of_nat (4096 * ?d) + (v AND 0xFFF) = v" using d by (simp only: word_unat_eq_iff n_def)
    then show ?thesis unfolding w cond lo using True by simp
  next
    case False
    show ?thesis
    proof (cases "0xFFFFFF8000000000 \<le> n \<and> n < 0xFFFFFF8000200000")
      case True
      then obtain k where k: "n = 0xFFFFFF8000000000 + k" "k < 0x200000" by (auto simp: le_iff_add)
      have "n div 4096 = k div 4096 + 512 * 0x7FFFFFC0000" "n mod 4096 = k mod 4096"
        using div_mult_self1 [of 4096 k "512 * 0x7FFFFFC0000"] mod_mult_self1 [of k "512 * 0x7FFFFFC0000" 4096]
        unfolding k(1) by (simp_all add: add.commute)
      then have "?d = k div 4096 mod 512" "n mod 4096 = k mod 4096" unfolding D by (simp_all only: mod_mult_self2)
      then have "4096 * ?d + n mod 4096 = k" using k(2) by simp
      then have "unat (of_nat (4096 * ?d) + (v AND 0xFFF)) = unat (v - KERNEL_OFFSET)"
        using d k True by (simp add: unat_sub word_le_nat_alt ko n_def)
      then show ?thesis unfolding w cond lo hi using True False by (simp add: word_unat_eq_iff)
    next
      case F: False
      show ?thesis unfolding w cond lo hi using False F by (simp only: if_False simp_thms)
    qed
  qed
qed

section \<open>What the preparation leaves\<close>

text \<open>The first table's page is mapped to itself.\<close>

definition table_mapped :: "'a paging_scheme \<Rightarrow> bool" where
  "table_mapped s \<longleftrightarrow> cr3 s = 0x1000 \<and> phys s (entry_at 0x1000 0) = 0x2003 \<and> phys s (entry_at 0x2000 0) = 0x3003 \<and>
     phys s (entry_at 0x3000 0) = 0x4003 \<and> phys s (entry_at 0x4000 1) = 0x1003"

lemma table_indices:
  "canonical 0x1FF0" "idx 39 0x1FF0 = 0" "idx 30 0x1FF0 = 0" "idx 21 0x1FF0 = 0" "idx 12 0x1FF0 = 1" "(0x1FF0 :: addr) AND 0xFFF = 0xFF0"
  "canonical 0x1FF8" "idx 39 0x1FF8 = 0" "idx 30 0x1FF8 = 0" "idx 21 0x1FF8 = 0" "idx 12 0x1FF8 = 1" "(0x1FF8 :: addr) AND 0xFFF = 0xFF8"
  "isPresent 0x1003" "getAddr 0x1003 = 0x1000"
  by code_simp+

lemma table_mmu: "table_mapped s \<Longrightarrow> mmu s 0x1FF0 = Some 0x1FF0" "table_mapped s \<Longrightarrow> mmu s 0x1FF8 = Some 0x1FF8"
  by (simp_all add: mmu_def table_mapped_def table_indices boot_flags)

lemma table_upd:
  assumes "table_mapped s" "v = 0x1FF0 \<or> v = 0x1FF8"
  shows "upd64 v f s = Some (s\<lparr>phys := (phys s)(v := f (phys s v))\<rparr>)" "table_mapped (s\<lparr>phys := (phys s)(v := e)\<rparr>)"
proof -
  have "mmu s v = Some v" using assms table_mmu by auto
  then show "upd64 v f s = Some (s\<lparr>phys := (phys s)(v := f (phys s v))\<rparr>)" by (simp add: upd64_def)
  show "table_mapped (s\<lparr>phys := (phys s)(v := e)\<rparr>)"
    using assms by (auto simp: table_mapped_def entry_at_def)
qed

text \<open>Writes to one entry combine.\<close>

fun entry_upds :: "addr \<Rightarrow> (uint64 \<Rightarrow> uint64) list \<Rightarrow> 'a paging_scheme \<Rightarrow> 'a paging_scheme option" where
  "entry_upds v [] s = Some s"
| "entry_upds v (f # fs) s = do { s \<leftarrow> upd64 v f s; entry_upds v fs s }"

lemma table_upds:
  "table_mapped s \<Longrightarrow> v = 0x1FF0 \<or> v = 0x1FF8 \<Longrightarrow>
   entry_upds v fs s = Some (s\<lparr>phys := (phys s)(v := fold (\<lambda>f. f) fs (phys s v))\<rparr>)"
proof (induction fs arbitrary: s)
  case (Cons f fs)
  let ?t = "s\<lparr>phys := (phys s)(v := f (phys s v))\<rparr>"
  have "entry_upds v fs ?t = Some (?t\<lparr>phys := (phys ?t)(v := fold (\<lambda>f. f) fs (phys ?t v))\<rparr>)"
    by (rule Cons.IH [OF table_upd(2) [OF Cons.prems] Cons.prems(2)])
  then show ?case by (simp add: table_upd(1) [OF Cons.prems]) (simp only: fun_upd_def)
qed simp

definition self_entry :: uint64 where
  "self_entry = fold (\<lambda>f. f) [setAddr L4_ADDR, setSuperuserSpace True, setCache True, setWritable True, setPresent True, setWriteThrough True] 0"

definition kernel_entry :: uint64 where
  "kernel_entry = fold (\<lambda>f. f) [setGlobal True, setSuperuserSpace True, setCache True, setWriteThrough True] 0x2003"

definition low_entry :: uint64 where
  "low_entry = setPresent False 0x2003"

lemma prepared_flags: "isPresent self_entry" "getAddr self_entry = 0x1000" "isPresent kernel_entry" "getAddr kernel_entry = 0x2000"
  "\<not> isPresent low_entry"
  by code_simp+

definition prepared_mem :: "(addr \<Rightarrow> uint64) \<Rightarrow> addr \<Rightarrow> uint64" where
  "prepared_mem m = (boot_mem m)(0x1FF0 := self_entry, 0x1FF8 := kernel_entry, 0x1000 := low_entry)"

lemma prepare_steps:
  "prepareKernelPaginationTable s = do {
     s \<leftarrow> entry_upds 0x1FF0 [setAddr L4_ADDR, setSuperuserSpace True, setCache True, setWritable True, setPresent True, setWriteThrough True] s;
     s \<leftarrow> entry_upds 0x1FF8 [setGlobal True, setSuperuserSpace True, setCache True, setWriteThrough True] s;
     l3 \<leftarrow> getEntryTable 0 s;
     upd64 l3 (setPresent False) s }"
  by (simp add: prepareKernelPaginationTable_def L4_ADDR_def Let_def)

lemma get_loop_top:
  "get_loop arr False 3 4 NULL s = do { e \<leftarrow> rd64 (arr ! 3) s; Some (if isPresent e then arr ! 3 else NULL) }"
proof -
  have n: "(4 :: nat) = Suc (Suc (Suc (Suc 0)))" "(3 :: nat) = Suc (Suc (Suc 0))" by simp_all
  show ?thesis unfolding n by (auto intro!: Option.bind_cong)
qed

lemma getEntryTable_0:
  assumes s: "self_map s" and e: "isPresent (phys s (entry_at (pml4 s) 0))"
  shows "\<exists>l3. getEntryTable 0 s = Some l3 \<and> mmu s l3 = Some (entry_at (pml4 s) 0)"
proof -
  have i: "l_idx n 0 = 0" for n by (simp add: l_idx_def)
  have m: "mmu s (virtualAddrArr 0 0 0 0 ! 3) = Some (entry_at (pml4 s) 0)" using mmu_arr(1) [OF s, of 0 0 0 0] by simp
  have "getEntryTable 0 s = Some (virtualAddrArr 0 0 0 0 ! 3)"
    using e m by (simp add: getEntryTable_def getEntryLevel_def i getEntryLevel_idx_def Let_def get_loop_top rd64_def)
  then show ?thesis using m by blast
qed

lemma boot_points:
  "boot_mem m (entry_at 0x1000 0) = 0x2003" "boot_mem m (entry_at 0x2000 0) = 0x3003" "boot_mem m (entry_at 0x3000 0) = 0x4003"
  "boot_mem m (entry_at 0x4000 1) = 0x1003" "boot_mem m 0x1FF0 = 0" "boot_mem m 0x1FF8 = 0x2003"
proof -
  have "boot_mem m (entry_at 0x1000 510) = 0" "boot_mem m (entry_at 0x1000 511) = 0x2003" by (subst boot_entry(1); simp)+
  then show "boot_mem m 0x1FF0 = 0" "boot_mem m 0x1FF8 = 0x2003" by (simp_all add: entry_at_def)
qed (simp_all add: boot_entry)

lemma prepare_runs:
  "prepareKernelPaginationTable (SwitchToLongMode s) = Some (s\<lparr>cr3 := 0x1000, phys := prepared_mem (phys s)\<rparr>)"
proof -
  let ?m = "boot_mem (phys s)"
  let ?s0 = "s\<lparr>cr3 := 0x1000, phys := ?m\<rparr>"
  let ?m1 = "?m(0x1FF0 := self_entry)"
  let ?m2 = "?m(0x1FF0 := self_entry, 0x1FF8 := kernel_entry)"
  let ?s1 = "s\<lparr>cr3 := 0x1000, phys := ?m1\<rparr>" and ?s2 = "s\<lparr>cr3 := 0x1000, phys := ?m2\<rparr>"
  note b = boot_points [of "phys s"]
  have t0: "table_mapped ?s0" using b by (simp add: table_mapped_def)
  have t1: "table_mapped ?s1" using table_upd(2) [OF t0, of "0x1FF0" self_entry] by simp
  have u1: "entry_upds 0x1FF0 [setAddr L4_ADDR, setSuperuserSpace True, setCache True, setWritable True, setPresent True, setWriteThrough True] ?s0 = Some ?s1"
    by (subst table_upds [OF t0]) (simp_all add: b self_entry_def)
  have u2: "entry_upds 0x1FF8 [setGlobal True, setSuperuserSpace True, setCache True, setWriteThrough True] ?s1 = Some ?s2"
    by (subst table_upds [OF t1]) (simp_all add: b kernel_entry_def)
  have p: "pml4 ?s2 = 0x1000" by (simp add: pml4_def boot_flags)
  have e: "entry_at 0x1000 510 = 0x1FF0" "entry_at 0x1000 0 = 0x1000" by (simp_all add: entry_at_def)
  have "self_map ?s2" unfolding self_map_def Let_def p e by (simp add: prepared_flags)
  moreover have "isPresent (phys ?s2 (entry_at (pml4 ?s2) 0))" unfolding p e using b(1) by (simp add: e boot_flags)
  ultimately obtain l3 where l3: "getEntryTable 0 ?s2 = Some l3" "mmu ?s2 l3 = Some 0x1000"
    using getEntryTable_0 [of ?s2] unfolding p e by blast
  have "upd64 l3 (setPresent False) ?s2 = Some (s\<lparr>cr3 := 0x1000, phys := prepared_mem (phys s)\<rparr>)"
    unfolding upd64_def l3(2) using b(1) by (simp add: e prepared_mem_def low_entry_def)
  then show ?thesis unfolding prepare_steps SwitchToLongMode_mem by (simp add: u1 u2 l3(1) del: entry_upds.simps)
qed

lemma prepared_entry:
  assumes "i < 512"
  shows "prepared_mem m (entry_at 0x1000 i) =
      (if i = 0 then low_entry else if i = 510 then self_entry else if i = 511 then kernel_entry else 0)"
    "prepared_mem m (entry_at 0x2000 i) = (if i = 0 then 0x3003 else 0)"
    "prepared_mem m (entry_at 0x3000 i) = (if i = 0 then 0x4003 else 0)"
    "prepared_mem m (entry_at 0x4000 i) = of_nat (4096 * i + 3)"
proof -
  have k: "0x1FF0 = entry_at 0x1000 510" "0x1FF8 = entry_at 0x1000 511" "prepared_mem m = (boot_mem m)(entry_at 0x1000 510 := self_entry,
      entry_at 0x1000 511 := kernel_entry, entry_at 0x1000 0 := low_entry)"
    by (simp_all add: entry_at_def prepared_mem_def)
  have a: "aligned 0x1000" "aligned 0x2000" "aligned 0x3000" "aligned 0x4000" by simp_all
  note n = entry_at_eq [OF a(1) a(1) assms] entry_at_eq [OF a(2) a(1) assms] entry_at_eq [OF a(3) a(1) assms]
    entry_at_eq [OF a(4) a(1) assms]
  show "prepared_mem m (entry_at 0x1000 i) =
      (if i = 0 then low_entry else if i = 510 then self_entry else if i = 511 then kernel_entry else 0)"
    "prepared_mem m (entry_at 0x2000 i) = (if i = 0 then 0x3003 else 0)"
    "prepared_mem m (entry_at 0x3000 i) = (if i = 0 then 0x4003 else 0)"
    "prepared_mem m (entry_at 0x4000 i) = of_nat (4096 * i + 3)"
    unfolding k(3) using boot_entry [OF assms] by (simp_all add: n)
qed

lemma prepared_high: "0x5000 \<le> unat a \<Longrightarrow> prepared_mem m a = m a"
proof -
  assume a: "0x5000 \<le> unat a"
  have "unat (pt_at j) = 0x4000 + 8 * j" if "j < 512" for j
    using unat_entry [of 4 j] that by (simp add: pt_at_entry)
  then have 1: "(\<exists>j. 0 \<le> j \<and> j < 512 \<and> a = pt_at j) = False" using a by fastforce
  have "unat (of_nat (0x1000 + 8 * i) :: addr) = 0x1000 + 8 * i" if "i < 0x800" for i
    by (rule unat_of_nat_small) (use that in simp)
  then have 2: "\<not> zeroed a" using a unfolding zeroed_def by fastforce
  have "a \<noteq> 0x1000" "a \<noteq> 0x1FF0" "a \<noteq> 0x1FF8" "a \<noteq> 0x2000" "a \<noteq> 0x3000" using a by auto
  then show ?thesis unfolding prepared_mem_def boot_mem_def fun_upd_apply 1 using 2 by simp
qed

lemma walk_prepared:
  assumes "a < 512" "b < 512" "c < 512" "d < 512" "a \<noteq> 510"
  shows "walk (prepared_mem m) 0x1000 [a, b, c, d] = (if a = 511 \<and> b = 0 \<and> c = 0 then Some (of_nat (4096 * d)) else None)"
  using assms(5)
  by (simp add: prepared_entry assms(1-4) page_entry boot_flags prepared_flags Let_def del: of_nat_add of_nat_mult)

lemma prepared_mmu:
  assumes "idx 39 v \<noteq> 510"
  shows "mmu (s\<lparr>cr3 := 0x1000, phys := prepared_mem (phys s)\<rparr>) v =
    (if KERNEL_OFFSET \<le> v \<and> v - KERNEL_OFFSET < 0x200000 then Some (v - KERNEL_OFFSET) else None)"
proof -
  have i: "idx 39 v < 512" "idx 30 v < 512" "idx 21 v < 512" "idx 12 v < 512" by (simp_all add: idx_nat)
  have eq: "mmu (s\<lparr>cr3 := 0x1000, phys := prepared_mem (phys s)\<rparr>) v = (if idx 39 v = 0 then None else mmu (SwitchToLongMode s) v)"
  proof -
    have "cr3 (SwitchToLongMode s) = 0x1000" "phys (SwitchToLongMode s) = boot_mem (phys s)"
      "cr3 (s\<lparr>cr3 := 0x1000, phys := prepared_mem (phys s)\<rparr>) = 0x1000"
      "phys (s\<lparr>cr3 := 0x1000, phys := prepared_mem (phys s)\<rparr>) = prepared_mem (phys s)" by (simp_all add: SwitchToLongMode_mem)
    then show ?thesis unfolding mmu_def by (simp only: boot_flags(8) walk_boot [OF i] walk_prepared [OF i assms]) auto
  qed
  have lo: "idx 39 v = 0" if "v < 0x200000"
    using that by (simp add: idx_nat word_less_nat_alt)
  have hi: "idx 39 v \<noteq> 0" if "KERNEL_OFFSET \<le> v"
  proof -
    have "unat KERNEL_OFFSET \<le> unat v" using that by (simp add: word_le_nat_alt)
    moreover have "unat v < 2 ^ 64" using unat_lt64 [of v] by simp
    ultimately have "unat v div 2 ^ 39 = 0x1FFFFFF" by (simp add: KERNEL_OFFSET_def)
    then show ?thesis unfolding idx_nat by simp
  qed
  show ?thesis unfolding eq SwitchToLongMode_mmu using lo hi by auto
qed

lemma prepared_vm_ok:
  assumes "\<And>f. unat (f :: addr) \<in> fr \<Longrightarrow> aligned f \<and> 0x5000 \<le> unat f \<and> empty_table s f"
  shows "vm_ok (s\<lparr>cr3 := 0x1000, phys := prepared_mem (phys s)\<rparr>) 0 fr" (is "vm_ok ?s 0 fr")
proof -
  have p: "pml4 ?s = 0x1000" by (simp add: pml4_def boot_flags)
  have e: "phys ?s (entry_at 0x1000 510) = self_entry" "phys ?s (entry_at 0x1000 509) = 0" by (simp_all add: prepared_entry)
  have "slot_ok ?s 0 t3 t2 t1" for t3 t2 t1
    unfolding slot_ok_def self_map_def p e by (simp add: prepared_flags boot_flags page_tables_def)
  moreover have "\<forall>t \<in> set (page_tables ?s 0 t3 t2 t1). unat t \<notin> fr" for t3 t2 t1
    using assms [of "0x1000"] by (auto simp: page_tables_def p)
  moreover have "aligned f \<and> empty_table ?s f" if "unat f \<in> fr" for f
  proof -
    have f: "aligned f" "0x5000 \<le> unat f" "empty_table s f" using assms [OF that] by auto
    have "phys ?s (entry_at f i) = phys s (entry_at f i)" if "i < 512" for i
      using unat_entry_at [OF f(1) that] f(2) by (simp add: prepared_high)
    then show ?thesis using f(1,3) by (simp add: empty_table_def)
  qed
  ultimately show ?thesis unfolding vm_ok_def by simp
qed

text \<open>
  C25. The loader's tables: after \<open>SwitchToLongMode\<close> the processor maps the first two megabytes to
  themselves and the two megabytes from \<open>KERNEL_OFFSET\<close> to the same memory; every other address
  faults. This holds whatever memory held before, since the loader clears the four tables first.
\<close>

theorem boot_tables_map:
  "mmu (SwitchToLongMode s) v =
    (if v < 0x200000 then Some v
     else if KERNEL_OFFSET \<le> v \<and> v - KERNEL_OFFSET < 0x200000 then Some (v - KERNEL_OFFSET) else None)"
  by (rule SwitchToLongMode_mmu)

text \<open>
  C26. Preparing the kernel's tables: on the loader's tables \<open>prepareKernelPaginationTable\<close> returns
  without a page fault, and leaves the invariant the page tables are proved under, with no page of
  the heap's slot mapped. The kernel's copy of the first two megabytes stays mapped, and outside
  the recursive slot nothing else does: the low half, which the loader mapped, now faults. The free
  frames must hold empty tables, as \<open>create_entry\<close> does not clear them.
\<close>

theorem kernel_tables_prepared:
  assumes "\<And>f. unat (f :: addr) \<in> fr \<Longrightarrow> aligned f \<and> 0x5000 \<le> unat f \<and> empty_table s f"
  shows "\<exists>s'. prepareKernelPaginationTable (SwitchToLongMode s) = Some s' \<and> vm_ok s' 0 fr \<and>
    (\<forall>v. idx 39 v \<noteq> 510 \<longrightarrow>
      mmu s' v = (if KERNEL_OFFSET \<le> v \<and> v - KERNEL_OFFSET < 0x200000 then Some (v - KERNEL_OFFSET) else None))"
  unfolding prepare_runs using prepared_vm_ok [OF assms] prepared_mmu by blast

definition example_paging :: paging where
  "example_paging = \<lparr>mem = (\<lambda>_. \<lparr>magic = 0, req_size = 0, real_size = 0, index = 0, split_left = 0, split_right = 0,
       next_tag = 0, prev_tag = 0\<rparr>),
     bytes = (\<lambda>_. 7), l_freePages = [], l_completePages = [], l_initialized = 0, alloc_lock = 0,
     frame_lock0 = 0, frame_lock1 = 0, qtd_buffer = 0, avaliableMemory = NULL,
     frame_buffer = [], nodes = (\<lambda>_. \<lparr>fdata = \<lparr>sp_base = 0, sp_size = 0\<rparr>, next_frame = 0\<rparr>),
     cr3 = 0, phys = (\<lambda>p. if p < 0x8000 then 7 else 0)\<rparr>"

theorem kernel_tables_prepared_witness:
  "\<exists>s'. prepareKernelPaginationTable (SwitchToLongMode example_paging) = Some s' \<and> vm_ok s' 0 {0x8000, 0x100000} \<and>
     mmu s' (KERNEL_OFFSET + 0x7E00) = Some 0x7E00 \<and> mmu s' 0x7E00 = None"
proof -
  have f: "aligned f \<and> 0x5000 \<le> unat f \<and> empty_table example_paging f" if "unat f \<in> {0x8000, 0x100000}" for f :: addr
  proof -
    have u: "unat f = 0x8000 \<or> unat f = 0x100000" using that by simp
    then have a: "aligned f" by auto
    have "\<not> entry_at f i < 0x8000" if "i < 512" for i
      using unat_entry_at [OF a that] u by (auto simp: word_less_nat_alt)
    then show ?thesis using a u by (auto simp: empty_table_def example_paging_def isPresent_bit)
  qed
  from kernel_tables_prepared [where fr = "{0x8000, 0x100000}", OF f] obtain s' where
    s: "prepareKernelPaginationTable (SwitchToLongMode example_paging) = Some s'" "vm_ok s' 0 {0x8000, 0x100000}"
    "\<And>v. idx 39 v \<noteq> 510 \<Longrightarrow>
      mmu s' v = (if KERNEL_OFFSET \<le> v \<and> v - KERNEL_OFFSET < 0x200000 then Some (v - KERNEL_OFFSET) else None)" by blast
  have "idx 39 (KERNEL_OFFSET + 0x7E00) \<noteq> 510" "idx 39 0x7E00 \<noteq> 510" by (code_simp, code_simp)
  then show ?thesis using s by (simp add: KERNEL_OFFSET_def)
qed

end
