(* ===== verification/System.thy ===== *)
theory System
  imports PageTable_Alloc
begin

text \<open>
  The memory system put together: \<open>kernel_malloc\<close> and \<open>kernel_free\<close> get their pages from the page
  table (\<open>liballoc_alloc\<close>, \<open>liballoc_free\<close> of \<open>liballoc_interface.cpp\<close>), the page table gets its
  frames from the frame allocator, and the frame allocator keeps its list nodes in the heap. The
  calls go round in a circle; a nested call finds the heap's lock held and never returns. The
  interpretations here discharge the contracts of the three components on this system, and \<open>grew\<close> accounts for the
  frames a call of the heap uses up.
\<close>

section \<open>The knot\<close>

definition liballoc_alloc :: "'a paging_ext free_fun \<Rightarrow> uint32 \<Rightarrow> 'a paging_scheme \<Rightarrow> (addr \<times> 'a paging_scheme) option" where
  "liballoc_alloc ff pages s = alloc_vm ff 509 pages (ucast (PAGE_PRESENT OR PAGE_RW)) s"

definition liballoc_free :: "'a paging_ext malloc_fun \<Rightarrow> 'a paging_ext free_fun \<Rightarrow> addr \<Rightarrow> uint32 \<Rightarrow>
    'a paging_scheme \<Rightarrow> 'a paging_scheme option" where
  "liballoc_free mf ff ptr pages s = free_vm mf ff ptr pages s"

text \<open>\<open>d\<close> bounds the depth of nested calls.\<close>

fun sys_malloc :: "nat \<Rightarrow> 'a paging_ext malloc_fun" and sys_free :: "nat \<Rightarrow> 'a paging_ext free_fun" where
  "sys_malloc 0 = (\<lambda>_ _. None)"
| "sys_free 0 = (\<lambda>_ _. None)"
| "sys_malloc (Suc d) = kernel_malloc (liballoc_alloc (sys_free d))"
| "sys_free (Suc d) = kernel_free (liballoc_free (sys_malloc d) (sys_free d))"

section \<open>Calls made while the heap's lock is held\<close>

lemma locked_None: "bit (alloc_lock s) 0 \<Longrightarrow> liballoc_lock s = None"
  by (simp only: liballoc_lock_def acquireLock_held bind.bind_lzero)

lemma sys_malloc_locked: "bit (alloc_lock s) 0 \<Longrightarrow> sys_malloc d n s = None"
  by (cases d) (simp_all add: kernel_malloc_def locked_None)

lemma sys_free_locked: "bit (alloc_lock s) 0 \<Longrightarrow> p \<noteq> NULL \<Longrightarrow> sys_free d p s = None"
  by (cases d) (simp_all add: kernel_free_def locked_None)

text \<open>So during a call of the page table, \<open>allocate\<close> deletes no node of its list.\<close>

interpretation held: node_heap "sys_malloc d" "sys_free d" "\<lambda>s A fr. bit (alloc_lock s) 0 \<and> NULL \<notin> A \<and> same_heap u s"
    "\<lambda>_ _ _. True"
  for d and u :: "'a paging_scheme"
proof
  fix s s' :: "'a paging_scheme" and A fr p
  assume n: "bit (alloc_lock s) 0 \<and> NULL \<notin> A \<and> same_heap u s" and p: "p \<in> A" "sys_free d p s = Some s'"
  then have "sys_free d p s = None" by (intro sys_free_locked) auto
  then show "liballoc.more s' = liballoc.more s \<and> bit (alloc_lock s') 0 \<and> NULL \<notin> A - {p} \<and> same_heap u s'" using p by simp
qed (auto simp: sys_malloc_locked same_heap_def)

interpretation frames_held: frame_source "sys_free d :: 'a paging_ext free_fun" for d
proof
  fix s s' :: "'a paging_scheme" and ns f
  assume a: "bit (alloc_lock s) 0" "frames_inv s ns" "frame_lock0 s = 0" "frame_lock1 s = 0" "allocate (sys_free d) s = Some (f, s')"
  have "NULL \<notin> set ns" using a(2) chain_NULL by (auto simp: frames_inv_def)
  then show "frames.more s' = frames.more s \<and> (\<exists>ns'. took s ns {unat f} s' ns')"
    using held.allocate_ok [OF a(2) subset_refl, where u = s, OF _ a(3,4,5)] a(1,4) unfolding took_def by (auto simp: same_heap_def)
qed

text \<open>
  A page that goes back to the frame allocator needs a list node, because a space of one page
  never goes to the buffer: the call never returns.
\<close>

lemma one_page_locked:
  assumes "bit (alloc_lock s) 0"
  shows "addMemorySpace (sys_malloc d) ff \<lparr>sp_base = getAddr e, sp_size = PAGE_SIZE\<rparr> s = None"
proof -
  have b: "getAddr e AND NOT PAGE_MASK = 0" by (rule bit_eqI) (simp add: bit_simps)
  have z: "(PAGE_SIZE :: uint64) AND PAGE_MASK = PAGE_SIZE" by (intro page_mask_id) (simp add: PAGE_SIZE_def)
  have "sp_size (round_space \<lparr>sp_base = getAddr e, sp_size = PAGE_SIZE\<rparr>) = PAGE_SIZE"
    unfolding round_space_def memory_space.simps b diff_0_right z ..
  then show ?thesis
    by (simp add: addMemorySpace_def fill_buffer.simps sys_malloc_locked [OF assms])
qed

lemma drop_entry_locked:
  assumes "bit (alloc_lock s) 0"
  shows "drop_entry (sys_malloc d) ff p s = None"
  using one_page_locked [of "s\<lparr>phys := m\<rparr>" for m] assms by (simp add: drop_entry_def upd64_def split: bind_splits)

section \<open>Regions in the slot\<close>

definition in_slot :: "(addr \<rightharpoonup> nat) \<Rightarrow> nat \<Rightarrow> bool" where
  "in_slot R N \<longleftrightarrow> (\<forall>p sz. R p = Some sz \<longrightarrow> (\<exists>k n. p = slot_addr k \<and> sz = n * 4096 \<and> 0 < n \<and> k + n \<le> N))"

lemma in_slot_less: "in_slot R N \<Longrightarrow> N \<le> N' \<Longrightarrow> in_slot R N'"
  unfolding in_slot_def by (meson le_trans)

lemma in_slot_new:
  assumes R: "in_slot R N" "regions_ok R" and n: "16 \<le> n" "n < 2 ^ 20" "N + n < 2 ^ 18"
  shows "R (slot_addr N) = None" "regions_ok (R(slot_addr N \<mapsto> n * 4096))" "in_slot (R(slot_addr N \<mapsto> n * 4096)) (N + n)"
proof -
  let ?p = "slot_addr N"
  have N: "N < 2 ^ 18" using n by simp
  have up: "unat ?p = 0xFFFFFE8000000000 + 4096 * N" by (rule unat_slot_addr [OF N])
  have below: "unat r + sz \<le> unat ?p" "0 < sz" if b: "R r = Some sz" for r sz
  proof -
    obtain k i where k: "r = slot_addr k" "sz = i * 4096" "0 < i" "k + i \<le> N" using R(1) b unfolding in_slot_def by blast
    then have "k < 2 ^ 18" using N by simp
    then show "unat r + sz \<le> unat ?p" "0 < sz" using k unat_slot_addr [of k] up by simp_all
  qed
  show "R ?p = None" using below(1,2) [of ?p] by (cases "R ?p") fastforce+
  have "?p \<noteq> NULL"
  proof
    assume "?p = NULL"
    then have "unat ?p = 0" by simp
    then show False using up by simp
  qed
  then show "regions_ok (R(?p \<mapsto> n * 4096))"
    using R(2) below(1) n up unfolding regions_ok_def by auto
  show "in_slot (R(?p \<mapsto> n * 4096)) (N + n)"
    unfolding in_slot_def
  proof (intro allI impI)
    fix r sz
    assume "(R(?p \<mapsto> n * 4096)) r = Some sz"
    then consider "r = ?p" "sz = n * 4096" | "R r = Some sz" by (cases "r = ?p") simp_all
    then show "\<exists>k i. r = slot_addr k \<and> sz = i * 4096 \<and> 0 < i \<and> k + i \<le> N + n"
    proof cases
      case 1
      then show ?thesis using n(1) by (intro exI [of _ N] exI [of _ n]) simp
    next
      case 2
      then show ?thesis using in_slot_less [OF R(1), of "N + n"] by (auto simp: in_slot_def)
    qed
  qed
qed

text \<open>A region of the heap never goes back: the first page of it is mapped.\<close>

lemma free_pages_locked:
  assumes v: "vm_ok s N fr" and N: "N < 2 ^ 18" and k: "p = slot_addr k" "0 < unat n" "k < N" and l: "bit (alloc_lock s) 0"
  shows "free_vm (sys_malloc d) ff p n s = None"
proof -
  obtain t3 t2 t1 where ok: "slot_ok s N t3 t2 t1" using v by (auto simp: vm_ok_def)
  have k18: "k < 2 ^ 18" using k N by simp
  have b: "k div 512 < 512" "k mod 512 < 512" using k18 by simp_all
  note I = slot_idx [OF b] and L = slot_levels [OF k18]
  obtain e where e: "getEntryLevel_idx 509 0 (of_nat (k div 512)) (of_nat (k mod 512)) PAGE s = Some e" "e \<noteq> NULL"
    using lookup_slot [OF ok _ I(3,4), of 0] k(3) I(1,2) by auto
  have n: "(0 :: uint32) < n" using k(2) by (simp add: word_less_nat_alt)
  have u: "unmap_l1 (sys_malloc d) ff n 509 0 (of_nat (k div 512)) (of_nat (k mod 512)) 0 er s = None" for er
    by (subst unmap_l1.simps) (simp add: n I(4) e drop_entry_locked [OF l])
  show ?thesis
    unfolding free_vm_def unmap_def k(1) L
    by (subst unmap_l4.simps, simp add: n L, subst unmap_l3.simps, simp add: n L, subst unmap_l2.simps, simp add: n L I(3) u)
qed

lemma free_vm_locked:
  assumes v: "vm_ok s N fr" and N: "N < 2 ^ 18" and R: "in_slot R N" "R p = Some (unat n * 4096)" and l: "bit (alloc_lock s) 0"
  shows "free_vm (sys_malloc d) ff p n s = None"
proof -
  obtain k where "p = slot_addr k" "0 < unat n" "k < N" using R by (fastforce simp: in_slot_def)
  from free_pages_locked [OF v N this l] show ?thesis .
qed

section \<open>The page table as the heap's provider\<close>

text \<open>Every translation of \<open>s\<close> is one of \<open>t\<close>.\<close>

definition maps_kept :: "'a paging_scheme \<Rightarrow> 'a paging_scheme \<Rightarrow> bool" where
  "maps_kept s t \<longleftrightarrow> keeps s t \<and> cr3 t = cr3 s \<and> paging.more t = paging.more s"

lemma maps_kept_refl [simp]: "maps_kept s s"
  by (simp add: maps_kept_def)

lemma maps_kept_trans: "maps_kept s t \<Longrightarrow> maps_kept t u \<Longrightarrow> maps_kept s u"
  unfolding maps_kept_def using keeps_trans by metis

lemma maps_kept_mmu: "maps_kept s t \<Longrightarrow> mmu s v = Some q \<Longrightarrow> mmu t v = Some q"
  unfolding maps_kept_def using mmu_keeps by blast

lemma maps_kept_more: "frames.more t' = frames.more t \<Longrightarrow> maps_kept s t' = maps_kept s t"
  using more_paging [of t' t] more_rest [of t' t] by (simp add: maps_kept_def keeps_def)

section \<open>How the slot grows\<close>

text \<open>The number of mapped pages is fixed by the tables.\<close>

lemma vm_pages:
  assumes "vm_ok s N fr" "k < 2 ^ 18"
  shows "page_frame s k = None \<longleftrightarrow> N \<le> k"
proof -
  obtain t3 t2 t1 where ok: "slot_ok s N t3 t2 t1" using assms(1) by (auto simp: vm_ok_def)
  have b: "(0 :: nat) < 512" "k div 512 < 512" "k mod 512 < 512" using assms(2) by simp_all
  show ?thesis unfolding page_frame_def using walk_slot(2) [OF ok b] by (auto simp del: walk.simps)
qed

lemma vm_unique:
  assumes "vm_ok s N fr" "vm_ok s M fr'" "N < 2 ^ 18" "M < 2 ^ 18"
  shows "N = M"
proof (rule antisym)
  show "N \<le> M" using vm_pages [OF assms(1), of M] vm_pages [OF assms(2), of M] assms(4) by simp
  show "M \<le> N" using vm_pages [OF assms(1), of N] vm_pages [OF assms(2), of N] assms(3) by simp
qed

text \<open>
  From \<open>s\<close> to \<open>s'\<close> the slot has grown by a run of \<open>n\<close> pages or not at all, and \<open>U\<close> are as many frames as
  that takes: one for every page, and one for every page table that is new.
\<close>

definition grew :: "nat \<Rightarrow> 'a paging_scheme \<Rightarrow> 'a paging_scheme \<Rightarrow> nat set \<Rightarrow> bool" where
  "grew n s s' U \<longleftrightarrow> finite U \<and> (\<exists>N N'. N < 2 ^ 18 \<and> N' < 2 ^ 18 \<and> vm_ok s N {} \<and> vm_ok s' N' {} \<and>
     (N' = N \<or> N' = N + n) \<and> card U = run_cost N (N' - N))"

lemma grew_same: "vm_ok s N fr \<Longrightarrow> N < 2 ^ 18 \<Longrightarrow> frames.more s' = frames.more s \<Longrightarrow> grew n s s' {}"
  unfolding grew_def using vm_ok_less [of s N fr "{}"] vm_ok_cong [OF more_paging, of s' s]
  by (intro conjI exI [of _ N]) auto

lemma grew_cong:
  assumes "frames.more t = frames.more s" "frames.more t' = frames.more s'"
  shows "grew n t t' U = grew n s s' U"
  by (simp only: grew_def vm_ok_cong [OF more_paging [OF assms(1)]] vm_ok_cong [OF more_paging [OF assms(2)]])

lemma grew_cost:
  assumes "grew n s s' U" "vm_ok s N fr" "vm_ok s' N' fr'" "N < 2 ^ 18" "N' < 2 ^ 18"
  shows "finite U \<and> (N' = N \<or> N' = N + n) \<and> card U = run_cost N (N' - N)"
proof -
  obtain M M' where g: "finite U" "M < 2 ^ 18" "M' < 2 ^ 18" "vm_ok s M {}" "vm_ok s' M' {}" "M' = M \<or> M' = M + n"
    "card U = run_cost M (M' - M)" using assms(1) unfolding grew_def by blast
  show ?thesis using g vm_unique [OF g(4) assms(2) g(2) assms(4)] vm_unique [OF g(5) assms(3) g(3) assms(5)] by blast
qed

text \<open>
  Where the provider stands, seen from a state \<open>s0\<close> whose list nodes are \<open>ns0\<close>: some of the frames
  free then are used, the slot's first \<open>N\<close> pages are mapped, the heap's regions are among them.
  \<open>fr\<close> bounds the frames the tables may be made of.
\<close>

definition pages_inv :: "'a paging_scheme \<Rightarrow> addr list \<Rightarrow> nat set \<Rightarrow> 'a paging_scheme \<Rightarrow> (addr \<rightharpoonup> nat) \<Rightarrow> bool" where
  "pages_inv s0 ns0 fr s R \<longleftrightarrow> maps_kept s0 s \<and> (\<exists>N ns used. frames_inv s ns \<and> set ns \<subseteq> set ns0 \<and> narrower s0 s ns \<and>
     used \<subseteq> free_frames s0 ns0 \<and> free_frames s ns = free_frames s0 ns0 - used \<and> frame_lock0 s = 0 \<and> frame_lock1 s = 0 \<and>
     vm_ok s N (fr - used) \<and> free_frames s0 ns0 \<subseteq> fr \<and> finite fr \<and> N + card (fr - used) < 2 ^ 18 \<and> in_slot R N)"

lemma pages_inv_more:
  assumes "pages_inv s0 ns0 fr s R" "liballoc.more s' = liballoc.more s"
  shows "pages_inv s0 ns0 fr s' R"
proof -
  note M = more_frames [OF assms(2)]
  note P = more_paging [OF M(7)]
  have "frames_inv s' ns = frames_inv s ns" "free_frames s' ns = free_frames s ns" for ns
    by (simp_all add: frames_inv_def free_frames_def buffered_def M)
  moreover have "narrower s0 s' ns = narrower s0 s ns" for ns by (simp add: narrower_def M)
  ultimately show ?thesis using assms(1) by (simp add: pages_inv_def vm_ok_cong [OF P] maps_kept_more [OF M(7)] M)
qed

lemma pages_inv_start:
  assumes "frames_inv s ns" "frame_lock0 s = 0" "frame_lock1 s = 0" "vm_ok s N fr" "free_frames s ns \<subseteq> fr" "finite fr"
    "N + card fr < 2 ^ 18" "in_slot R N"
  shows "pages_inv s ns fr s R"
  unfolding pages_inv_def using assms by (intro conjI [OF maps_kept_refl] exI [of _ N] exI [of _ ns] exI [of _ "{}"]) (simp add: narrower_def)

lemma liballoc_alloc_ok:
  assumes pi: "pages_inv s0 ns0 fr s R" and R: "regions_ok R" and l: "bit (alloc_lock s) 0"
    and n: "16 \<le> unat n" "unat n < 2 ^ 20" and run: "liballoc_alloc (sys_free d) n s = Some (p, s')"
  shows "same_heap s s' \<and> p \<noteq> NULL \<and> R p = None \<and> regions_ok (R(p \<mapsto> unat n * 4096)) \<and>
     pages_inv s0 ns0 fr s' (R(p \<mapsto> unat n * 4096))"
proof -
  obtain N ns used where I: "frames_inv s ns" "set ns \<subseteq> set ns0" "narrower s0 s ns" "used \<subseteq> free_frames s0 ns0"
      "free_frames s ns = free_frames s0 ns0 - used" "frame_lock0 s = 0" "frame_lock1 s = 0" "vm_ok s N (fr - used)"
      "free_frames s0 ns0 \<subseteq> fr" "finite fr" "N + card (fr - used) < 2 ^ 18" "in_slot R N"
    using pi unfolding pages_inv_def by blast
  have k0: "maps_kept s0 s" using pi by (simp add: pages_inv_def)
  have sub: "free_frames s ns \<subseteq> fr - used" using I(5,9) by blast
  have fin: "finite (fr - used)" using I(10) by simp
  note run' = run [unfolded liballoc_alloc_def]
  then have go: "alloc_vm (sys_free d) 509 n (ucast (PAGE_PRESENT OR PAGE_RW)) s \<noteq> None \<or>
      \<not> (0 < N \<and> N mod 512 = 0) \<and> rich (run_cost N (unat n)) s" by simp
  from frames_held.alloc_vm_ok [OF l I(1,6,7,8) sub fin I(11) n(2) go] obtain U t ns' where
    U0: "alloc_vm (sys_free d) 509 n (ucast (PAGE_PRESENT OR PAGE_RW)) s = Some (slot_addr N, t)" "took s ns U t ns'"
      "vm_ok t (N + unat n) (fr - used - U)" "card U = run_cost N (unat n)" "keeps s t" "cr3 t = cr3 s" "paging.more t = paging.more s" by blast
  have "p = slot_addr N" "t = s'" using U0(1) unfolding run' by simp_all
  note U = this(1) U0(2-7) [unfolded this(2)]
  have "maps_kept s s'" using U(5-7) by (simp add: maps_kept_def)
  note k = maps_kept_trans [OF k0 this]
  note T = U(2) [unfolded took_def]
  have e: "fr - used - U = fr - (used \<union> U)" by blast
  have Us: "U \<subseteq> fr - used" using T sub by blast
  have c: "card (fr - used - U) = card (fr - used) - card U" "card U \<le> card (fr - used)"
    using Us fin by (simp_all add: card_Diff_subset finite_subset card_mono)
  have N': "N + unat n < 2 ^ 18" "N + unat n + card (fr - used - U) < 2 ^ 18" using c U(4) run_cost_ge [of "unat n" N] I(11) by linarith+
  note S = in_slot_new [OF I(12) R n N'(1), folded U(1)]
  have "narrower s0 s' ns'" by (rule narrower_trans [OF I(3)]) (use T in blast)+
  moreover have "set ns' \<subseteq> set ns0" "used \<union> U \<subseteq> free_frames s0 ns0"
    "free_frames s' ns' = free_frames s0 ns0 - (used \<union> U)" using I(2,4,5) T by blast+
  ultimately have "pages_inv s0 ns0 fr s' (R(p \<mapsto> unat n * 4096))"
    unfolding pages_inv_def using T U(3) N'(2) I(9,10) S(3) unfolding e
    by (intro conjI [OF k] exI [of _ "N + unat n"] exI [of _ ns'] exI [of _ "used \<union> U"]) (simp del: Un_subset_iff)
  moreover have "p \<noteq> NULL" using regions_okD(1) [OF S(2), of p] by simp
  ultimately show ?thesis using S T by blast
qed

interpretation provider: page_source "liballoc_free (sys_malloc d) (sys_free d)" "pages_inv s0 ns0 fr" "liballoc_alloc (sys_free d)"
  for d s0 ns0 fr
proof
  fix s s' :: "'a paging_scheme" and R p n
  show "pages_inv s0 ns0 fr s' R" if "pages_inv s0 ns0 fr s R" "liballoc.more s' = liballoc.more s"
    by (rule pages_inv_more [OF that])
  show "same_heap s s' \<and> pages_inv s0 ns0 fr s' (R(p := None))"
    if a: "pages_inv s0 ns0 fr s R" "bit (alloc_lock s) 0" "R p = Some (unat n * 4096)"
      "liballoc_free (sys_malloc d) (sys_free d) p n s = Some s'"
  proof -
    obtain N used where "vm_ok s N (fr - used)" "N < 2 ^ 18" "in_slot R N" using a(1) unfolding pages_inv_def by fastforce
    from free_vm_locked [OF this a(3,2)] show ?thesis using a(4) by (simp add: liballoc_free_def)
  qed
  show "same_heap s s' \<and> (if p = NULL then pages_inv s0 ns0 fr s' R else R p = None \<and>
      regions_ok (R(p \<mapsto> unat n * 4096)) \<and> pages_inv s0 ns0 fr s' (R(p \<mapsto> unat n * 4096)))"
    if "pages_inv s0 ns0 fr s R" "regions_ok R" "bit (alloc_lock s) 0" "16 \<le> unat n" "unat n < 2 ^ 20"
      "liballoc_alloc (sys_free d) n s = Some (p, s')"
    using liballoc_alloc_ok [OF that] by simp
qed

text \<open>While \<open>kernel_free\<close> runs, nothing outside the heap changes.\<close>

interpretation frozen: page_sink "liballoc_free (sys_malloc d) (sys_free d)"
    "\<lambda>s R. liballoc.more s = m \<and> vm_ok s N fr \<and> N < 2 ^ 18 \<and> in_slot R N"
  for d m N fr
proof
  fix s s' :: "'a paging_scheme" and R p n
  show "liballoc.more s' = m \<and> vm_ok s' N fr \<and> N < 2 ^ 18 \<and> in_slot R N"
    if "liballoc.more s = m \<and> vm_ok s N fr \<and> N < 2 ^ 18 \<and> in_slot R N" "liballoc.more s' = liballoc.more s"
    using that vm_ok_cong [OF more_paging [OF more_frames(7) [OF that(2)]]] by simp
  show "same_heap s s' \<and> liballoc.more s' = m \<and> vm_ok s' N fr \<and> N < 2 ^ 18 \<and> in_slot (R(p := None)) N"
    if a: "liballoc.more s = m \<and> vm_ok s N fr \<and> N < 2 ^ 18 \<and> in_slot R N" "bit (alloc_lock s) 0" "R p = Some (unat n * 4096)"
      "liballoc_free (sys_malloc d) (sys_free d) p n s = Some s'"
  proof -
    have "vm_ok s N fr" "N < 2 ^ 18" "in_slot R N" using a(1) by blast+
    from free_vm_locked [OF this a(3,2)] show ?thesis using a(4) by (simp add: liballoc_free_def)
  qed
qed

section \<open>The heap as the frame allocator's node store\<close>

text \<open>The heap's invariant on the real provider; \<open>fr\<close> bounds the frames that are or may become free.\<close>

definition heap_in_slot :: "'a paging_scheme \<Rightarrow> addr set \<Rightarrow> (addr \<rightharpoonup> nat) \<Rightarrow> (nat \<Rightarrow> addr list) \<Rightarrow> nat \<Rightarrow> nat set \<Rightarrow> bool" where
  "heap_in_slot s L R F N fr \<longleftrightarrow> alloc_lock s = 0 \<and> heap_ok (liballoc_init s) L R F \<and> vm_ok s N fr \<and> finite fr \<and>
     N + card fr < 2 ^ 18 \<and> in_slot R N \<and> (l_initialized s = 0 \<longrightarrow> L = {})"

text \<open>Every address of \<open>A\<close> is a block the heap has given out.\<close>

definition given :: "'a paging_scheme \<Rightarrow> addr set \<Rightarrow> addr set \<Rightarrow> bool" where
  "given s L A \<longleftrightarrow> (\<forall>p \<in> A. p - of_nat TAG_SIZE \<in> allocated s L)"

text \<open>Nothing that \<open>u\<close> maps is unmapped in \<open>s\<close>.\<close>

definition node_inv :: "'a paging_scheme \<Rightarrow> 'a paging_scheme \<Rightarrow> addr set \<Rightarrow> nat set \<Rightarrow> bool" where
  "node_inv u s A fr \<longleftrightarrow> maps_kept u s \<and> (\<exists>L R F N. heap_in_slot s L R F N fr \<and> given s L A)"

lemma liballoc_init_done: "l_initialized s \<noteq> 0 \<Longrightarrow> liballoc_init s = s"
  by (simp add: liballoc_init_def)

lemma heap_in_slot_cong:
  assumes "same_heap s s'" "frames.more s' = frames.more s"
  shows "heap_in_slot s' L R F N fr = heap_in_slot s L R F N fr" "given s' L A = given s L A"
proof -
  have "heap_ok (liballoc_init s') L R F = heap_ok (liballoc_init s) L R F"
    by (rule heap_but_cong) (use assms(1) in \<open>simp_all add: same_heap_def liballoc_init_def\<close>)
  then show "heap_in_slot s' L R F N fr = heap_in_slot s L R F N fr"
    using assms(1) by (simp add: heap_in_slot_def vm_ok_cong [OF more_paging [OF assms(2)]] same_heap_def)
  show "given s' L A = given s L A" using assms(1) by (simp add: given_def same_heap_def allocated_def)
qed

lemma heap_in_slot_less: "heap_in_slot s L R F N fr \<Longrightarrow> fr' \<subseteq> fr \<Longrightarrow> heap_in_slot s L R F N fr'"
proof -
  assume a: "heap_in_slot s L R F N fr" "fr' \<subseteq> fr"
  then have "card fr' \<le> card fr" "finite fr'" by (auto simp: heap_in_slot_def card_mono finite_subset)
  then show ?thesis using a vm_ok_less [of s N fr fr'] by (simp add: heap_in_slot_def)
qed

lemma sys_free_heap:
  assumes h: "heap_in_slot s L R F N fr" and a: "p - of_nat TAG_SIZE \<in> allocated s L"
    and run: "sys_free d p s = Some s'"
  shows "\<exists>L' R' F'. heap_in_slot s' L' R' F' N fr \<and> free_post p s L s' L' R' F' \<and> liballoc.more s' = liballoc.more s"
proof -
  obtain d' where d: "d = Suc d'" using run by (cases d) auto
  have i: "l_initialized s \<noteq> 0" using h a by (auto simp: heap_in_slot_def allocated_def)
  note H = h [unfolded heap_in_slot_def liballoc_init_done [OF i]]
  have pi: "liballoc.more s = liballoc.more s \<and> vm_ok s N fr \<and> N < 2 ^ 18 \<and> in_slot R N" using H by auto
  have "alloc_lock s = 0" "heap_ok s L R F" using H by blast+
  from frozen.free_ok [OF pi this a run [unfolded d sys_free.simps]] obtain L' R' F' where
    f: "liballoc.more s' = liballoc.more s" "vm_ok s' N fr" "in_slot R' N" "free_post p s L s' L' R' F'" by blast
  then have "heap_in_slot s' L' R' F' N fr"
    using H i liballoc_init_done [of s'] by (simp add: heap_in_slot_def free_post_def)
  then show ?thesis using f by blast
qed

lemma malloc_more:
  assumes run: "sys_malloc (Suc d) sz s = Some (p, t)" and l: "alloc_lock s = 0"
  shows "liballoc.more t = liballoc.more s \<or>
    (\<exists>q u. liballoc_alloc (sys_free d) (pages_for (ucast sz)) (liballoc_init (s\<lparr>alloc_lock := 1\<rparr>)) = Some (q, u) \<and>
      liballoc.more t = liballoc.more u)"
proof -
  let ?s1 = "liballoc_init (s\<lparr>alloc_lock := 1\<rparr>)" and ?pal = "liballoc_alloc (sys_free d)"
  have m: "liballoc.more ?s1 = liballoc.more s" by (simp add: liballoc_init_def)
  obtain tag u where u: "take_tag ?pal sz ?s1 = Some (tag, u)"
      "tag = NULL \<and> t = liballoc_unlock u \<or> (\<exists>v. carve_tag tag sz u = Some v \<and> t = liballoc_unlock v)"
    using run l by (auto simp: kernel_malloc_def liballoc_lock_def Let_def bind_eq_Some_conv split: if_splits prod.splits)
  have "liballoc.more t = liballoc.more u" using u(2) by (auto simp: liballoc_unlock_def dest: carve_counts)
  then show ?thesis using take_more [OF u(1)] unfolding m by metis
qed

text \<open>The frames a call has used up are those the slot has grown by.\<close>

lemma malloc_growth:
  assumes h: "heap_in_slot s L R F N fr" and f: "frames_inv s ns" "free_frames s ns \<subseteq> fr" "frame_lock0 s = 0" "frame_lock1 s = 0"
    and sz: "unat sz \<le> MAX_REQUEST" and run: "sys_malloc (Suc d) sz s = Some (p, t)"
  shows "\<exists>ns' U. frames_inv t ns' \<and> U \<subseteq> free_frames s ns \<and> free_frames t ns' = free_frames s ns - U \<and>
    grew (unat (pages_for (ucast sz))) s t U"
proof -
  let ?s1 = "liballoc_init (s\<lparr>alloc_lock := 1\<rparr>)" and ?n = "pages_for (ucast sz) :: uint32"
  note H = h [unfolded heap_in_slot_def]
  have l: "alloc_lock s = 0" and v: "vm_ok s N fr" "finite fr" "N + card fr < 2 ^ 18" using H by blast+
  have N: "N < 2 ^ 18" using v(3) by simp
  from malloc_more [OF run l] show ?thesis
  proof (elim disjE exE conjE)
    assume "liballoc.more t = liballoc.more s"
    note M = more_frames [OF this]
    have "frames_inv t ns" "free_frames t ns = free_frames s ns"
      using f(1) by (simp_all add: frames_inv_def free_frames_def buffered_def M)
    then show ?thesis using grew_same [OF v(1) N M(7)] by (intro exI [of _ ns] exI [of _ "{}"]) simp
  next
    fix q u
    assume a: "liballoc_alloc (sys_free d) ?n ?s1 = Some (q, u)" and m: "liballoc.more t = liballoc.more u"
    have m1: "liballoc.more ?s1 = liballoc.more s" "bit (alloc_lock ?s1) 0" by (simp_all add: liballoc_init_def)
    note M1 = more_frames [OF m1(1)] and M = more_frames [OF m]
    have "unat (ucast sz :: uint32) = unat sz" using sz by (intro unat_ucast_small) (simp add: MAX_REQUEST_def)
    then have "unat ?n < 2 ^ 20" using pages_for_bounds(2) [of "ucast sz"] sz by simp
    moreover have s1: "frames_inv ?s1 ns" "free_frames ?s1 ns = free_frames s ns"
      using f(1) by (simp_all add: frames_inv_def free_frames_def buffered_def M1)
    moreover have "frame_lock0 ?s1 = 0" "frame_lock1 ?s1 = 0" "vm_ok ?s1 N fr"
      using f(3,4) v(1) by (simp_all add: M1 vm_ok_cong [OF more_paging [OF M1(7)]])
    ultimately obtain U ns' where U: "vm_ok u (N + unat ?n) (fr - U)" "card U = run_cost N (unat ?n)" "took ?s1 ns U u ns'"
      using frames_held.alloc_vm_ok [OF m1(2), of ns N fr ?n d "ucast (PAGE_PRESENT OR PAGE_RW)"] a v(2,3) f(2)
      by (auto simp: liballoc_alloc_def)
    have T: "frames_inv u ns'" "U \<subseteq> free_frames s ns" "free_frames u ns' = free_frames s ns - U" using U(3) s1(2) by (simp_all add: took_def)
    have Us: "U \<subseteq> fr" by (rule subset_trans [OF T(2) f(2)])
    note Uf = Us finite_subset [OF Us v(2)]
    have "card U \<le> card fr" by (rule card_mono [OF v(2) Uf(1)])
    then have "N + unat ?n < 2 ^ 18" using U(2) run_cost_ge [of "unat ?n" N] v(3) by linarith
    moreover have "vm_ok t (N + unat ?n) {}" "vm_ok s N {}"
      using vm_ok_less [OF U(1), of "{}"] vm_ok_less [OF v(1), of "{}"] vm_ok_cong [OF more_paging [OF M(7)]] by simp_all
    ultimately have "grew (unat ?n) s t U" unfolding grew_def using N Uf(2) U(2) by (intro conjI exI [of _ N] exI [of _ "N + unat ?n"]) simp_all
    moreover have "frames_inv t ns'" "free_frames t ns' = free_frames u ns'"
      using T(1) by (simp_all add: frames_inv_def free_frames_def buffered_def M)
    ultimately show ?thesis using T(2,3) by blast
  qed
qed

lemma sys_malloc_heap:
  assumes h: "heap_in_slot s L R F N fr" and f: "frames_inv s ns" "free_frames s ns \<subseteq> fr" "frame_lock0 s = 0" "frame_lock1 s = 0"
    and sz: "unat sz \<le> MAX_REQUEST" and run: "sys_malloc d sz s = Some (p, s')"
  shows "\<exists>L' R' F' N' ns' used. heap_in_slot s' L' R' F' N' (fr - used) \<and> malloc_post p sz s L s' L' R' F' \<and>
    frames_inv s' ns' \<and> set ns' \<subseteq> set ns \<and> narrower s s' ns' \<and> used \<subseteq> free_frames s ns \<and>
    free_frames s' ns' = free_frames s ns - used \<and> frame_lock0 s' = 0 \<and> frame_lock1 s' = 0 \<and> maps_kept s s' \<and>
    grew (unat (pages_for (ucast sz))) s s' used"
proof -
  obtain d' where d: "d = Suc d'" using run by (cases d) auto
  note H = h [unfolded heap_in_slot_def]
  have pi: "pages_inv s ns fr s R" by (rule pages_inv_start [OF f(1,3,4)]) (use H f(2) in auto)
  have "alloc_lock s = 0" "heap_ok (liballoc_init s) L R F" using H by blast+
  from provider.malloc_ok [OF pi this sz run [unfolded d sys_malloc.simps]] obtain L' R' F' where
    m: "pages_inv s ns fr s' R'" "malloc_post p sz s L s' L' R' F'" by blast
  have e: "alloc_lock s' = 0" "heap_ok s' L' R' F'" "liballoc_init s' = s'" "l_initialized s' \<noteq> 0"
    using m(2) liballoc_init_done [of s'] by (auto simp: malloc_post_def)
  obtain N' ns' used where q: "frames_inv s' ns'" "set ns' \<subseteq> set ns" "narrower s s' ns'"
     "used \<subseteq> free_frames s ns" "free_frames s' ns' = free_frames s ns - used" "frame_lock0 s' = 0" "frame_lock1 s' = 0"
     "vm_ok s' N' (fr - used)" "finite fr" "N' + card (fr - used) < 2 ^ 18" "in_slot R' N'" and k: "maps_kept s s'"
    using m(1) unfolding pages_inv_def by blast
  have "heap_in_slot s' L' R' F' N' (fr - used)" using e q by (simp add: heap_in_slot_def)
  moreover have "grew (unat (pages_for (ucast sz))) s s' used"
  proof -
    from malloc_growth [OF h f sz run [unfolded d]] obtain ms U where
      g: "frames_inv s' ms" "U \<subseteq> free_frames s ns" "free_frames s' ms = free_frames s ns - U"
        "grew (unat (pages_for (ucast sz))) s s' U" by blast
    have "ms = ns'" using g(1) q(1) unfolding frames_inv_def by (blast intro: chain_unique)
    then have "free_frames s ns - U = free_frames s ns - used" using g(3) q(5) by simp
    then have "U = used" using g(2) q(4) by blast
    then show ?thesis using g(4) by simp
  qed
  ultimately show ?thesis using m(2) q(1-7) k by blast
qed

lemma given_malloc:
  assumes "given s L A" "malloc_post p sz s L s' L' R' F'"
  shows "given s' L' (if p = NULL then A else insert p A)" "p \<noteq> NULL \<longrightarrow> p \<notin> A"
  using assms by (auto simp: given_def malloc_post_def)

interpretation idle: node_heap "sys_malloc d" "sys_free d" "node_inv u" "grew 16" for d u
proof
  fix s s' :: "'a paging_scheme" and A fr fr' p ns
  show "node_inv u s' A fr" if "node_inv u s A fr" "same_heap s s'" "frames.more s' = frames.more s"
    using that(1) unfolding node_inv_def heap_in_slot_cong [OF that(2,3)] maps_kept_more [OF that(3)] .
  show "grew 16 s s' {}" if n: "node_inv u s A fr" "frames.more s' = frames.more s"
  proof -
    obtain L R F N where h: "heap_in_slot s L R F N fr" using n(1) by (auto simp: node_inv_def)
    then have "vm_ok s N fr" "N < 2 ^ 18" by (auto simp: heap_in_slot_def)
    from grew_same [OF this n(2)] show ?thesis .
  qed
  show "grew 16 t t' U" if "grew 16 s s' U" "frames.more t = frames.more s" "frames.more t' = frames.more s'" for t t' U
    using that(1) grew_cong [OF that(2,3)] by blast
  show "liballoc.more s' = liballoc.more s \<and> node_inv u s' (A - {p}) fr"
    if n: "node_inv u s A fr" "p \<in> A" "sys_free d p s = Some s'"
  proof -
    obtain L R F N where h: "heap_in_slot s L R F N fr" "given s L A" using n(1) by (auto simp: node_inv_def)
    have g: "p - of_nat TAG_SIZE \<in> allocated s L" using h(2) n(2) by (auto simp: given_def)
    from sys_free_heap [OF h(1) g n(3)] obtain L' R' F' where
      f: "heap_in_slot s' L' R' F' N fr" "free_post p s L s' L' R' F'" "liballoc.more s' = liballoc.more s" by blast
    have "given s' L' (A - {p})" using f(2) h(2) by (auto simp: given_def free_post_def)
    moreover have "maps_kept u s'" using n(1) maps_kept_more [OF more_frames(7) [OF f(3)], of u] by (simp add: node_inv_def)
    ultimately show ?thesis using f unfolding node_inv_def by blast
  qed
  show "\<exists>used ns'. frames_inv s' ns' \<and> set ns' \<subseteq> set ns \<and> narrower s s' ns' \<and> used \<subseteq> free_frames s ns \<and>
      free_frames s' ns' = free_frames s ns - used \<and> frame_lock0 s' = 0 \<and> frame_lock1 s' = 0 \<and>
      (p \<noteq> NULL \<longrightarrow> p \<notin> A) \<and> grew 16 s s' used \<and> node_inv u s' (if p = NULL then A else insert p A) (fr - used)"
    if n: "node_inv u s A fr" "frames_inv s ns" "set ns \<subseteq> A" "free_frames s ns \<subseteq> fr" "frame_lock0 s = 0" "frame_lock1 s = 0"
      "sys_malloc d 24 s = Some (p, s')"
  proof -
    obtain L R F N where h: "heap_in_slot s L R F N fr" "given s L A" using n(1) by (auto simp: node_inv_def)
    have k: "maps_kept u s" using n(1) by (simp add: node_inv_def)
    have "unat (24 :: uint64) \<le> MAX_REQUEST" by (simp add: MAX_REQUEST_def TAG_SIZE_def)
    from sys_malloc_heap [OF h(1) n(2,4,5,6) this n(7)] obtain L' R' F' N' ns' used where
      m: "heap_in_slot s' L' R' F' N' (fr - used)" "malloc_post p 24 s L s' L' R' F'"
        "frames_inv s' ns' \<and> set ns' \<subseteq> set ns \<and> narrower s s' ns' \<and> used \<subseteq> free_frames s ns \<and>
         free_frames s' ns' = free_frames s ns - used \<and> frame_lock0 s' = 0 \<and> frame_lock1 s' = 0" "maps_kept s s'"
        "grew (unat (pages_for (ucast (24 :: uint64)))) s s' used" by blast
    have "unat (pages_for (ucast (24 :: uint64))) = 16"
      by (simp add: pages_for_def Let_def l_pageSize_def l_pageCount_def TAG_SIZE_def)
    then have "grew 16 s s' used" using m(5) by simp
    moreover have "node_inv u s' (if p = NULL then A else insert p A) (fr - used)"
      unfolding node_inv_def using maps_kept_trans [OF k m(4)] m(1) given_malloc(1) [OF h(2) m(2)] by blast
    ultimately show ?thesis using m(3) given_malloc(2) [OF h(2) m(2)] by (intro exI [of _ used] exI [of _ ns']) simp
  qed
qed

end
