(* ===== verification/System_Start.thy ===== *)
theory System_Start
  imports System
begin

text \<open>
  The invariant of the memory system as a whole, and two concrete states that satisfy it: the
  one the kernel starts in, and one where the first table of the heap's slot is full.
\<close>

section \<open>The invariant of the system\<close>

definition system_ok :: "'a paging_scheme \<Rightarrow> addr list \<Rightarrow> addr set \<Rightarrow> (addr \<rightharpoonup> nat) \<Rightarrow> (nat \<Rightarrow> addr list) \<Rightarrow> nat \<Rightarrow>
    nat set \<Rightarrow> bool" where
  "system_ok s ns L R F N fr \<longleftrightarrow> heap_in_slot s L R F N fr \<and> given s L (set ns) \<and> frames_inv s ns \<and>
     free_frames s ns \<subseteq> fr \<and> frame_lock0 s = 0 \<and> frame_lock1 s = 0"

text \<open>The block of payload \<open>p\<close>: \<open>n\<close> bytes of mapped pages that no other block in use touches.\<close>

definition own_block :: "'a paging_scheme \<Rightarrow> addr set \<Rightarrow> nat \<Rightarrow> addr \<Rightarrow> nat \<Rightarrow> bool" where
  "own_block s L N p n \<longleftrightarrow> payload s (p - of_nat TAG_SIZE) = {unat p ..< unat p + n} \<and>
     {unat p ..< unat p + n} \<subseteq> {unat (slot_addr 0) ..< unat (slot_addr 0) + 4096 * N} \<and>
     (\<forall>b \<in> allocated s L - {p - of_nat TAG_SIZE}. payload s b \<inter> {unat p ..< unat p + n} = {}) \<and>
     (\<forall>b \<in> L. tag_bytes b \<inter> {unat p ..< unat p + n} = {})"

lemma own_blockI:
  assumes ok: "heap_ok s L R F" and R: "in_slot R N" "N < 2 ^ 18"
    and p: "p - of_nat TAG_SIZE \<in> allocated s L" "unat (req_size (mem s (p - of_nat TAG_SIZE))) = n"
  shows "own_block s L N p n"
proof -
  let ?a = "p - of_nat TAG_SIZE"
  have aL: "?a \<in> L" using p(1) by (simp add: allocated_def)
  have u: "unat p = unat ?a + 48" using payload_addr(1) [OF heap_butD(2) [OF ok] aL] by simp
  then have e: "payload s ?a = {unat p ..< unat p + n}" using p(2) by (simp add: payload_def TAG_SIZE_def)
  obtain r sz where r: "R r = Some sz" "payload s ?a \<subseteq> {unat r ..< unat r + sz}" using payload_in_region [OF ok p(1)] by blast
  obtain k i where k: "r = slot_addr k" "sz = i * 4096" "0 < i" "k + i \<le> N" using R(1) r(1) unfolding in_slot_def by blast
  have "unat (slot_addr 0) \<le> unat r" "unat r + sz \<le> unat (slot_addr 0) + 4096 * N"
    using unat_slot_addr [of k] unat_slot_addr [of 0] k R(2) by simp_all
  then have "payload s ?a \<subseteq> {unat (slot_addr 0) ..< unat (slot_addr 0) + 4096 * N}" using r(2) by fastforce
  moreover have "payload s b \<inter> payload s ?a = {}" if "b \<in> allocated s L - {?a}" for b
    using payload_apart [OF ok _ p(1), of b] that by blast
  moreover have "tag_bytes b \<inter> payload s ?a = {}" if "b \<in> L" for b using payload_tags [OF ok p(1) that] by blast
  ultimately show ?thesis unfolding own_block_def e by blast
qed

lemma given_less: "given s L A \<Longrightarrow> B \<subseteq> A \<Longrightarrow> given s L B"
  by (auto simp: given_def)

section \<open>The state at start\<close>

text \<open>A top table at \<open>0x1000\<close> that maps itself, 64 free frames from 1 MB on, a heap not yet initialised.\<close>

definition boot_state :: paging where
  "boot_state = \<lparr>mem = (\<lambda>_. \<lparr>magic = 0, req_size = 0, real_size = 0, index = 0, split_left = 0, split_right = 0,
       next_tag = 0, prev_tag = 0\<rparr>),
     bytes = (\<lambda>_. 0), l_freePages = [], l_completePages = [], l_initialized = 0, alloc_lock = 0,
     frame_lock0 = 0, frame_lock1 = 0, qtd_buffer = 64, avaliableMemory = NULL,
     frame_buffer = map (\<lambda>i. of_nat (0x100000 + 4096 * i)) [0..<80], nodes = (\<lambda>_. \<lparr>fdata = \<lparr>sp_base = 0, sp_size = 0\<rparr>, next_frame = 0\<rparr>),
     cr3 = 0x1000, phys = (\<lambda>_. 0)(entry_at 0x1000 510 := new_entry 0x1000 2 0)\<rparr>"

definition boot_frames :: "nat set" where
  "boot_frames = (\<lambda>i. 0x100000 + 4096 * i) ` {..<64}"

lemma boot_frames: "finite boot_frames" "card boot_frames = 64" "f \<in> boot_frames \<Longrightarrow> 4096 dvd f \<and> 0x100000 \<le> f \<and> f < 0x140000"
proof -
  have "inj_on (\<lambda>i. 0x100000 + 4096 * i) {..<64 :: nat}" by (auto simp: inj_on_def)
  then show "card boot_frames = 64" by (simp add: boot_frames_def card_image)
  show "f \<in> boot_frames \<Longrightarrow> 4096 dvd f \<and> 0x100000 \<le> f \<and> f < 0x140000" by (auto simp: boot_frames_def)
qed (simp add: boot_frames_def)

lemma boot_buffered: "buffered boot_state = map (\<lambda>i. 0x100000 + 4096 * i) [0..<64]"
proof -
  have "map unat (take 64 (map (\<lambda>i. of_nat (0x100000 + 4096 * i) :: uint64) [0..<80])) = map (\<lambda>i. 0x100000 + 4096 * i) [0..<64]"
    unfolding take_map take_upt map_map by (simp add: take_upt unat_of_nat_small del: of_nat_add of_nat_mult)
  then show ?thesis by (simp add: buffered_def boot_state_def)
qed

lemma boot_frames_inv: "frames_inv boot_state []" "free_frames boot_state [] = boot_frames"
proof -
  show "free_frames boot_state [] = boot_frames"
    by (auto simp: free_frames_def boot_buffered listed_def boot_frames_def)
  show "frames_inv boot_state []"
    unfolding frames_inv_def boot_buffered
    by (auto simp: boot_state_def listed_def in_order_def MAX_BUFFER_FRAMES_def BUFFER_ENTRIES_def distinct_map inj_on_def)
qed

lemma getAddr_1000: "getAddr 0x1000 = 0x1000"
  by (rule getAddr_aligned) simp

lemma boot_phys: "aligned t \<Longrightarrow> i < 512 \<Longrightarrow> phys boot_state (entry_at t i) = (if t = 0x1000 \<and> i = 510 then new_entry 0x1000 2 0 else 0)"
  using entry_at_eq [of t "0x1000" i 510] by (simp add: boot_state_def)

lemma boot_pml4: "pml4 boot_state = 0x1000"
  by (simp add: pml4_def boot_state_def getAddr_1000)

lemma not_present_0 [simp]: "\<not> isPresent 0"
  by (simp add: isPresent_bit)

lemma boot_vm_ok:
  assumes "\<And>f. f \<in> fr \<Longrightarrow> 4096 dvd f \<and> 0x100000 \<le> f"
  shows "vm_ok boot_state 0 fr"
proof -
  have "slot_ok boot_state 0 t3 t2 t1" for t3 t2 t1
    by (simp add: slot_ok_def self_map_def Let_def boot_pml4 boot_phys page_tables_def)
  moreover have "\<forall>t \<in> set (page_tables boot_state 0 t3 t2 t1). unat t \<notin> fr" for t3 t2 t1
    using assms [of "unat (0x1000 :: addr)"] by (auto simp: page_tables_def boot_pml4)
  moreover have "aligned f \<and> empty_table boot_state f" if "unat f \<in> fr" for f
  proof -
    have f: "aligned f" "0x100000 \<le> unat f" using assms [OF that] by auto
    then have "f \<noteq> 0x1000" by auto
    then show ?thesis using f(1) by (simp add: empty_table_def boot_phys)
  qed
  ultimately show ?thesis unfolding vm_ok_def by simp
qed

lemma boot_system_ok_frames:
  assumes "\<And>f. f \<in> fr \<Longrightarrow> 4096 dvd f \<and> 0x100000 \<le> f" "boot_frames \<subseteq> fr" "finite fr" "card fr < 2 ^ 18"
  shows "system_ok boot_state [] {} Map.empty (\<lambda>_. []) 0 fr"
proof -
  have "heap_ok (liballoc_init boot_state) {} Map.empty (\<lambda>_. [])"
    by (rule heap_empty) (simp_all add: liballoc_init_def boot_state_def)
  then have "heap_in_slot boot_state {} Map.empty (\<lambda>_. []) 0 fr"
    using boot_vm_ok [OF assms(1)] assms(3,4) by (simp add: heap_in_slot_def in_slot_def boot_state_def)
  then show ?thesis
    using boot_frames_inv assms(2) by (simp add: system_ok_def given_def) (simp add: boot_state_def)
qed

lemma boot_system_ok: "system_ok boot_state [] {} Map.empty (\<lambda>_. []) 0 boot_frames"
  by (rule boot_system_ok_frames) (simp_all add: boot_frames)

text \<open>The same with the first \<open>n\<close> pages of the slot mapped, to the frames from 2 MB on.\<close>

definition paged_mem :: "nat \<Rightarrow> addr \<Rightarrow> uint64" where
  "paged_mem n p =
     (if p = entry_at 0x1000 510 then new_entry 0x1000 2 0
     else if p = entry_at 0x1000 509 then new_entry 0x2000 2 0
     else if p = entry_at 0x2000 0 then new_entry 0x3000 2 0
     else if p = entry_at 0x3000 0 then new_entry 0x4000 2 0
     else if 0x4000 \<le> unat p \<and> unat p < 0x4000 + 8 * n then new_entry (of_nat (0x200000 + 512 * (unat p - 0x4000))) 2 0
     else 0)"

definition paged_state :: "nat \<Rightarrow> paging" where
  "paged_state n = boot_state\<lparr>phys := paged_mem n\<rparr>"

lemma paged_phys:
  assumes "n \<le> 512" "aligned t" "i < 512"
  shows "phys (paged_state n) (entry_at t i) =
    (if t = 0x1000 \<and> i = 510 then new_entry 0x1000 2 0
     else if t = 0x1000 \<and> i = 509 then new_entry 0x2000 2 0
     else if t = 0x2000 \<and> i = 0 then new_entry 0x3000 2 0
     else if t = 0x3000 \<and> i = 0 then new_entry 0x4000 2 0
     else if t = 0x4000 \<and> i < n then new_entry (of_nat (0x200000 + 4096 * i)) 2 0
     else 0)"
proof -
  have a: "aligned 0x1000" "aligned 0x2000" "aligned 0x3000" by simp_all
  have u: "unat (entry_at t i) = unat t + 8 * i" by (rule unat_entry_at [OF assms(2,3)])
  obtain k where k: "unat t = 4096 * k" using assms(2) by (auto elim!: dvdE)
  have t4: "t = 0x4000 \<longleftrightarrow> unat t = 0x4000" by (simp add: word_unat_eq_iff)
  have c: "0x4000 \<le> unat (entry_at t i) \<and> unat (entry_at t i) < 0x4000 + 8 * n \<longleftrightarrow> t = 0x4000 \<and> i < n"
  proof (cases "k < 4")
    case True
    then have "4096 * k + 8 * i < 0x4000" using assms(3) by linarith
    then show ?thesis unfolding u t4 k using True by linarith
  next
    case False
    then show ?thesis unfolding u t4 k using assms(1,3) by (cases "k = 4") linarith+
  qed
  have l: "(510 :: nat) < 512" "(509 :: nat) < 512" "(0 :: nat) < 512" by simp_all
  have v: "0x200000 + 512 * (unat (entry_at t i) - 0x4000) = 0x200000 + 4096 * i" if "t = 0x4000"
    unfolding u using that by simp
  note e = entry_at_eq [OF assms(2) a(1) assms(3) l(1)] entry_at_eq [OF assms(2) a(1) assms(3) l(2)]
    entry_at_eq [OF assms(2) a(2) assms(3) l(3)] entry_at_eq [OF assms(2) a(3) assms(3) l(3)]
  have m: "phys (paged_state n) = paged_mem n" by (simp add: paged_state_def)
  show ?thesis
    unfolding m paged_mem_def e c using v by (cases "t = 0x4000") (simp_all del: of_nat_add of_nat_mult)
qed

lemma paged_pml4: "pml4 (paged_state n) = 0x1000"
  by (simp add: pml4_def paged_state_def boot_state_def getAddr_1000)

lemma paged_frame: "i < 512 \<Longrightarrow> unat (of_nat (0x200000 + 4096 * i) :: addr) = 0x200000 + 4096 * i"
  by (rule unat_of_nat_small) simp

lemma paged_tables:
  assumes "0 < n" "n \<le> 512"
  shows "page_tables (paged_state n) n 0x2000 0x3000 (\<lambda>_. 0x4000) = [0x1000, 0x2000, 0x3000, 0x4000]"
proof -
  have "(n + 511) div 512 = 1" using assms by simp
  then show ?thesis using assms(1) by (simp add: page_tables_def paged_pml4)
qed

lemma paged_slot:
  assumes n: "0 < n" "n \<le> 512"
  shows "slot_ok (paged_state n) n 0x2000 0x3000 (\<lambda>_. 0x4000)"
proof -
  note ph = paged_phys [OF n(2)]
  have p: "points (paged_state n) 0x1000 509 0x2000" "points (paged_state n) 0x2000 0 0x3000" "points (paged_state n) 0x3000 0 0x4000"
    by (simp_all add: points_def ph)
  have z: "\<not> isPresent (phys (paged_state n) (entry_at 0x2000 i))" "\<not> isPresent (phys (paged_state n) (entry_at 0x3000 i))"
    if "0 < i" "i < 512" for i using that by (simp_all add: ph)
  have l: "isPresent (phys (paged_state n) (entry_at 0x4000 i)) \<longleftrightarrow> i < n" if "i < 512" for i using that by (simp add: ph)
  have s: "self_map (paged_state n)" by (simp add: self_map_def Let_def paged_pml4 ph)
  have t: "if 512 * y < n then points (paged_state n) 0x3000 y 0x4000 else \<not> isPresent (phys (paged_state n) (entry_at 0x3000 y))"
    if "y < 512" for y using p(3) z(2) [OF _ that] n by (cases "y = 0") simp_all
  have x: "isPresent (phys (paged_state n) (entry_at 0x4000 x)) \<longleftrightarrow> 512 * y + x < n" if "x < 512" "512 * y < n" for x y
    using l [OF that(1)] that(2) n(2) by (cases "y = 0") simp_all
  show ?thesis unfolding slot_ok_def paged_tables [OF n] paged_pml4 using s p(1,2) z(1) t x n(1) by simp
qed

lemma paged_vm_ok:
  assumes n: "0 < n" "n \<le> 512"
  shows "vm_ok (paged_state n) n boot_frames"
proof -
  have pf: "page_frame (paged_state n) i = Some (of_nat (0x200000 + 4096 * i))" if i: "i < n" for i
  proof -
    have i2: "i < 512" using i n(2) by simp
    have "aligned (of_nat (0x200000 + 4096 * i))" unfolding paged_frame [OF i2] by (intro dvd_add) simp_all
    moreover have "page_frame (paged_state n) i = Some (getAddr (phys (paged_state n) (entry_at 0x4000 i)))"
      using page_frame_slot [OF paged_slot [OF n], of i] i i2 by simp
    ultimately show ?thesis using i i2 by (simp add: paged_phys [OF n(2)] del: of_nat_add of_nat_mult)
  qed
  have "inj_on (page_frame (paged_state n)) {..<n}"
  proof (rule inj_onI)
    fix i j assume ij: "i \<in> {..<n}" "j \<in> {..<n}" "page_frame (paged_state n) i = page_frame (paged_state n) j"
    then have b: "i < n" "j < n" "i < 512" "j < 512" using n(2) by simp_all
    have "unat (of_nat (0x200000 + 4096 * i) :: addr) = unat (of_nat (0x200000 + 4096 * j) :: addr)"
      using ij(3) unfolding pf [OF b(1)] pf [OF b(2)] by (rule option.inject [THEN iffD1, THEN arg_cong])
    then show "i = j" unfolding paged_frame [OF b(3)] paged_frame [OF b(4)] by simp
  qed
  moreover have "\<exists>f. page_frame (paged_state n) i = Some f \<and> unat f \<notin> boot_frames" if i: "i < n" for i
  proof -
    have "0x200000 + 4096 * i \<notin> boot_frames" using boot_frames(3) by force
    then show ?thesis using pf [OF i] paged_frame [of i] i n(2) by (simp del: of_nat_add of_nat_mult)
  qed
  moreover have "\<forall>t \<in> set (page_tables (paged_state n) n 0x2000 0x3000 (\<lambda>_. 0x4000)). unat t \<notin> boot_frames"
    using boot_frames(3) by (force simp: paged_tables [OF n])
  moreover have "aligned f \<and> empty_table (paged_state n) f" if "unat f \<in> boot_frames" for f
  proof -
    have f: "aligned f" "0x100000 \<le> unat f" using boot_frames(3) [OF that] by auto
    then have "f \<noteq> 0x1000" "f \<noteq> 0x2000" "f \<noteq> 0x3000" "f \<noteq> 0x4000" by auto
    then show ?thesis using f(1) by (simp add: empty_table_def paged_phys [OF n(2)])
  qed
  ultimately show ?thesis unfolding vm_ok_def using paged_slot [OF n] by blast
qed

text \<open>With a heap of one region of 16 pages, all of it one block of 136 bytes (a thread).\<close>

definition used_tag :: boundary_tag where
  "used_tag = \<lparr>magic = LIBALLOC_MAGIC, req_size = 136, real_size = 65536, index = -1, split_left = NULL,
     split_right = NULL, next_tag = NULL, prev_tag = NULL\<rparr>"

definition block_state :: "nat \<Rightarrow> paging" where
  "block_state n = (paged_state n)\<lparr>mem := (mem (paged_state n))(slot_addr 0 := used_tag), l_freePages := replicate MAXEXP NULL,
     l_completePages := replicate MAXEXP 0, l_initialized := 1\<rparr>"

abbreviation used_regions :: "addr \<rightharpoonup> nat" where
  "used_regions \<equiv> Map.empty(slot_addr 0 \<mapsto> 16 * 4096)"

lemma block_heap_ok: "heap_ok (block_state n) {slot_addr 0} used_regions (\<lambda>_. [])"
proof -
  let ?a = "slot_addr 0"
  have t: "mem (block_state n) ?a = used_tag" by (simp add: block_state_def)
  have a0: "?a \<noteq> NULL" by (simp add: slot_addr_0)
  have R: "regions_ok used_regions" by (simp add: regions_ok_def slot_addr_0)
  have "blocks_ok (mem (paged_state n)) {} Map.empty"
    by (simp add: blocks_ok_def regions_ok_def tags_ok_def links_ok_def disjoint_ok_def)
  then have "blocks_ok ((mem (paged_state n))(?a := used_tag)) (insert ?a {}) used_regions \<and> ?a \<notin> ({} :: addr set)"
    by (intro conjI fresh_block_ok(1) [OF _ R]) (simp_all add: used_tag_def)
  then have b: "blocks_ok (mem (block_state n)) {?a} used_regions" by (simp add: block_state_def)
  have "lists_ok (block_state n) {?a} (\<lambda>_. [])"
    using a0 t by (simp add: lists_ok_def block_state_def used_tag_def)
  then show ?thesis
    using b t by (simp add: heap_but_def class_ok_def counts_ok_def used_ok_def coalesced_def used_tag_def TAG_SIZE_def)
      (simp add: block_state_def MAXCOMPLETE_def)
qed

lemma block_system_ok:
  assumes n: "16 \<le> n" "n \<le> 512"
  shows "system_ok (block_state n) [] {slot_addr 0} used_regions (\<lambda>_. []) n boot_frames"
proof -
  have n0: "0 < n" using n(1) by simp
  have m: "liballoc.more (block_state n) = liballoc.more (paged_state n)" by (simp add: block_state_def)
  note M = more_frames [OF m]
  have b: "frames_inv (paged_state n) [] = frames_inv boot_state []" "free_frames (paged_state n) [] = free_frames boot_state []"
    by (simp_all add: frames_inv_def free_frames_def buffered_def paged_state_def)
  have "frames_inv (block_state n) []" "free_frames (block_state n) [] = boot_frames"
    using boot_frames_inv unfolding b [symmetric] by (simp_all add: frames_inv_def free_frames_def buffered_def M)
  moreover have "heap_in_slot (block_state n) {slot_addr 0} used_regions (\<lambda>_. []) n boot_frames"
  proof -
    have "l_initialized (block_state n) \<noteq> 0" "alloc_lock (block_state n) = 0" by (simp_all add: block_state_def paged_state_def boot_state_def)
    moreover have "vm_ok (block_state n) n boot_frames" using paged_vm_ok [OF n0 n(2)] vm_ok_cong [OF more_paging [OF M(7)]] by simp
    moreover have "in_slot used_regions n"
      unfolding in_slot_def
    proof (intro allI impI)
      fix p sz assume "used_regions p = Some sz"
      then have "p = slot_addr 0 \<and> sz = 16 * 4096 \<and> 0 < (16 :: nat) \<and> 0 + 16 \<le> n" using n(1) by (auto split: if_splits)
      then show "\<exists>k m. p = slot_addr k \<and> sz = m * 4096 \<and> 0 < m \<and> k + m \<le> n" by blast
    qed
    moreover note liballoc_init_done [OF calculation(1)]
    ultimately show ?thesis using block_heap_ok n(2) boot_frames(1,2) by (simp add: heap_in_slot_def)
  qed
  ultimately show ?thesis
    by (simp add: system_ok_def given_def M) (simp add: paged_state_def boot_state_def)
qed

lemma paged_system_ok:
  assumes n: "0 < n" "n \<le> 512"
  shows "system_ok (paged_state n) [] {} Map.empty (\<lambda>_. []) n boot_frames"
proof -
  have "heap_ok (liballoc_init (paged_state n)) {} Map.empty (\<lambda>_. [])"
    by (rule heap_empty) (simp_all add: liballoc_init_def paged_state_def boot_state_def)
  then have "heap_in_slot (paged_state n) {} Map.empty (\<lambda>_. []) n boot_frames"
    using paged_vm_ok [OF n] n(2) boot_frames(1,2) by (simp add: heap_in_slot_def in_slot_def) (simp add: paged_state_def boot_state_def)
  moreover have "frames_inv (paged_state n) []" "free_frames (paged_state n) [] = boot_frames"
    using boot_frames_inv by (simp_all add: frames_inv_def free_frames_def buffered_def paged_state_def)
  ultimately show ?thesis by (simp add: system_ok_def given_def) (simp add: paged_state_def boot_state_def)
qed

text \<open>The two with the first table of the slot full.\<close>

abbreviation full_state :: paging where
  "full_state \<equiv> paged_state 512"

abbreviation used_state :: paging where
  "used_state \<equiv> block_state 512"

lemma full_vm_ok: "vm_ok full_state 512 boot_frames"
  by (rule paged_vm_ok) simp_all

lemma full_system_ok: "system_ok full_state [] {} Map.empty (\<lambda>_. []) 512 boot_frames"
  by (rule paged_system_ok) simp_all

lemma used_system_ok: "system_ok used_state [] {slot_addr 0} used_regions (\<lambda>_. []) 512 boot_frames"
  by (rule block_system_ok) simp_all

end
