(* ===== verification/System_Correct.thy ===== *)
theory System_Correct
  imports System_Start
begin

text \<open>
  What the memory system guarantees as a whole: which calls keep the invariant and what they
  return, when they return, and which calls never do.
\<close>

section \<open>Calls of the heap\<close>

lemma system_heap:
  assumes "system_ok s ns L R F N fr"
  shows "heap_in_slot s L R F N fr" "given s L (set ns)" "frames_inv s ns" "free_frames s ns \<subseteq> fr" "frame_lock0 s = 0"
    "frame_lock1 s = 0" "alloc_lock s = 0" "heap_ok (liballoc_init s) L R F" "vm_ok s N fr" "finite fr" "N + card fr < 2 ^ 18"
    "in_slot R N"
  using assms by (simp_all add: system_ok_def heap_in_slot_def)

lemma malloc_runs:
  assumes ok: "system_ok s ns L R F N fr" and sz: "unat sz \<le> MAX_REQUEST" and N: "\<not> (0 < N \<and> N mod 512 = 0)"
    and r: "rich (run_cost N (unat (pages_for (ucast sz)))) s"
  shows "\<exists>p s'. sys_malloc (Suc d) sz s = Some (p, s')"
proof -
  note S = system_heap [OF ok]
  let ?t = "liballoc_init (s\<lparr>alloc_lock := 1\<rparr>)" and ?n = "pages_for (ucast sz)"
  have m: "liballoc.more ?t = liballoc.more s" "bit (alloc_lock ?t) 0" by (auto simp: liballoc_init_def)
  note M = more_frames [OF m(1)]
  note P = more_paging [OF M(7)]
  have z: "unat (ucast sz :: uint32) = unat sz" using sz by (intro unat_ucast_small) (simp add: MAX_REQUEST_def)
  have "frames_inv ?t ns" "free_frames ?t ns \<subseteq> fr"
    using S(3,4) by (simp_all add: frames_inv_def free_frames_def buffered_def M)
  moreover have "frame_lock0 ?t = 0" "frame_lock1 ?t = 0" "vm_ok ?t N fr" "rich (run_cost N (unat ?n)) ?t"
    using S(5,6,9) r rich_more [OF m(1)] by (simp_all add: M vm_ok_cong [OF P])
  moreover have "unat ?n < 2 ^ 20" using pages_for_bounds(2) [of "ucast sz"] sz z by simp
  ultimately have "liballoc_alloc (sys_free d) ?n ?t \<noteq> None"
    unfolding liballoc_alloc_def using frames_held.alloc_vm_ok [OF m(2), of ns N fr ?n] S(10,11) N by fastforce
  moreover have "pages_inv s ns fr s R" by (rule pages_inv_start) (use S in auto)
  ultimately show ?thesis using provider.malloc_returns [OF _ S(7,8) sz] by simp
qed

text \<open>The provider always has an address to give, so \<open>kernel_malloc\<close> never returns \<open>NULL\<close>.\<close>

lemma malloc_real:
  assumes ok: "system_ok s ns L R F N fr" and sz: "unat sz \<le> MAX_REQUEST" and run: "sys_malloc d sz s = Some (p, s')"
  shows "p \<noteq> NULL"
proof -
  note S = system_heap [OF ok]
  obtain d' where d: "d = Suc d'" using run by (cases d) auto
  have "pages_inv s ns fr s R" by (rule pages_inv_start) (use S in auto)
  then show ?thesis
  proof (rule provider.malloc_not_null [OF _ S(7,8) sz])
    show "kernel_malloc (liballoc_alloc (sys_free d')) sz s = Some (p, s')" using run d by simp
    show "liballoc_alloc (sys_free d') n t \<noteq> Some (NULL, t')"
      if "pages_inv s ns fr t R" "regions_ok R" "bit (alloc_lock t) 0" "16 \<le> unat n" "unat n < 2 ^ 20" for n t t'
      using liballoc_alloc_ok [OF that] by blast
  qed
qed

lemma boot_rich_19: "rich (run_cost 0 16) boot_state"
proof -
  have "run_cost 0 16 = 19" by code_simp
  then show ?thesis by (simp add: rich_def boot_state_def MAX_BUFFER_FRAMES_def)
qed

lemma boot_rich: "rich (run_cost 0 (unat (pages_for (ucast (100 :: uint64))))) boot_state"
proof -
  have "unat (pages_for (ucast (100 :: uint64))) = 16"
    by (simp add: pages_for_def Let_def l_pageSize_def l_pageCount_def TAG_SIZE_def)
  then show ?thesis using boot_rich_19 by simp
qed

lemma malloc_system:
  assumes "system_ok s ns L R F N fr" "unat sz \<le> MAX_REQUEST" "sys_malloc d sz s = Some (p, s')"
  shows "p \<noteq> NULL \<and> p - of_nat TAG_SIZE \<notin> allocated s L \<and> bytes s' = bytes s \<and>
    (\<forall>b \<in> allocated s L. req_size (mem s' b) = req_size (mem s b)) \<and> (\<forall>v q. mmu s v = Some q \<longrightarrow> mmu s' v = Some q) \<and> paging.more s' = paging.more s \<and>
    (\<exists>ns' L' R' F' N' fr'. system_ok s' ns' L' R' F' N' fr' \<and> own_block s' L' N' p (unat sz) \<and>
       allocated s' L' = insert (p - of_nat TAG_SIZE) (allocated s L) \<and>
       set ns' \<subseteq> set ns \<and> free_frames s' ns' \<subseteq> free_frames s ns)"
proof -
  note S = system_heap [OF assms(1)]
  have p: "p \<noteq> NULL" by (rule malloc_real [OF assms])
  from sys_malloc_heap [OF S(1,3,4,5,6) assms(2,3)] obtain L' R' F' N' ns' used where
    m: "heap_in_slot s' L' R' F' N' (fr - used)" "malloc_post p sz s L s' L' R' F'" and
    f: "frames_inv s' ns'" "set ns' \<subseteq> set ns" "used \<subseteq> free_frames s ns" "free_frames s' ns' = free_frames s ns - used"
      "frame_lock0 s' = 0" "frame_lock1 s' = 0" and k: "maps_kept s s'" by blast
  note M = m(2) [unfolded malloc_post_def] and H = m(1) [unfolded heap_in_slot_def]
  have "given s' L' (set ns)" by (rule given_less [OF given_malloc(1) [OF S(2) m(2)]]) auto
  then have "system_ok s' ns' L' R' F' N' (fr - used)"
    unfolding system_ok_def using m(1) f S(4) given_less [OF _ f(2)] by blast
  moreover have "own_block s' L' N' p (unat sz)"
    by (rule own_blockI) (use M H p in auto)
  moreover have "allocated s' L' = insert (p - of_nat TAG_SIZE) (allocated s L)" "free_frames s' ns' \<subseteq> free_frames s ns"
    using M p f(4) by auto
  ultimately have "\<exists>ns' L' R' F' N' fr'. system_ok s' ns' L' R' F' N' fr' \<and> own_block s' L' N' p (unat sz) \<and>
      allocated s' L' = insert (p - of_nat TAG_SIZE) (allocated s L) \<and> set ns' \<subseteq> set ns \<and> free_frames s' ns' \<subseteq> free_frames s ns"
    using f(2) by blast
  moreover have "\<forall>v q. mmu s v = Some q \<longrightarrow> mmu s' v = Some q" using maps_kept_mmu [OF k] by blast
  moreover have "paging.more s' = paging.more s" using k by (simp add: maps_kept_def)
  ultimately show ?thesis using M p by simp
qed

text \<open>
  C2. \<open>kernel_malloc\<close> on the real page table and frame allocator: whatever it returns is a new
  block in mapped pages of the heap's slot, of the size asked for and apart from every other block
  and tag; all other blocks, the bytes of memory, every address translation and the invariant of heap,
  page table and frame allocator are kept.
\<close>

theorem malloc_gives_block:
  assumes "system_ok s ns L R F N fr" "unat sz \<le> MAX_REQUEST" "sys_malloc d sz s = Some (p, s')"
  shows "p \<noteq> NULL \<and> p - of_nat TAG_SIZE \<notin> allocated s L \<and> bytes s' = bytes s \<and>
    (\<forall>b \<in> allocated s L. req_size (mem s' b) = req_size (mem s b)) \<and> (\<forall>v q. mmu s v = Some q \<longrightarrow> mmu s' v = Some q) \<and>
    (\<exists>ns' L' R' F' N' fr'. system_ok s' ns' L' R' F' N' fr' \<and> own_block s' L' N' p (unat sz) \<and>
       allocated s' L' = insert (p - of_nat TAG_SIZE) (allocated s L) \<and>
       set ns' \<subseteq> set ns \<and> free_frames s' ns' \<subseteq> free_frames s ns)"
  using malloc_system [OF assms] by (elim conjE) (intro conjI; assumption)

theorem malloc_gives_block_witness:
  "\<exists>p s'. sys_malloc 1 100 boot_state = Some (p, s') \<and> p \<noteq> NULL \<and>
    (\<exists>ns' L' R' F' N' fr'. system_ok s' ns' L' R' F' N' fr' \<and> own_block s' L' N' p 100)"
proof -
  have sz: "unat (100 :: uint64) \<le> MAX_REQUEST" by (simp add: MAX_REQUEST_def TAG_SIZE_def)
  obtain p s' where r: "sys_malloc (Suc 0) 100 boot_state = Some (p, s')"
    using malloc_runs [OF boot_system_ok sz _ boot_rich, of 0] by blast
  from malloc_gives_block [OF boot_system_ok sz r]
  have "p \<noteq> NULL \<and> (\<exists>ns' L' R' F' N' fr'. system_ok s' ns' L' R' F' N' fr' \<and> own_block s' L' N' p (unat (100 :: uint64)))"
    by blast
  then show ?thesis using r by (intro exI [of _ p] exI [of _ s']) simp
qed

text \<open>
  C12. While there are frames for the pages and tables of a new region, in the buffer (beyond the 32 below
  which it is loaded again) or in the first range of the list it is loaded from, and the last table of the slot
  is not exactly full, \<open>kernel_malloc\<close> returns, and not with \<open>NULL\<close>.
\<close>

theorem malloc_returns_block:
  assumes "system_ok s ns L R F N fr" "unat sz \<le> MAX_REQUEST" "N = 0 \<or> N mod 512 \<noteq> 0"
    "rich (run_cost N (unat (pages_for (ucast sz)))) s"
  shows "\<exists>p s'. sys_malloc (Suc d) sz s = Some (p, s') \<and> p \<noteq> NULL"
  using malloc_runs [OF assms(1,2) _ assms(4), of d] assms(3) malloc_real [OF assms(1,2)] by (metis less_irrefl)

theorem malloc_returns_block_witness: "\<exists>p s'. sys_malloc 1 100 boot_state = Some (p, s') \<and> p \<noteq> NULL"
  using malloc_returns_block [OF boot_system_ok _ _ boot_rich, of 0] by (simp add: MAX_REQUEST_def TAG_SIZE_def)

lemma free_system:
  assumes "system_ok s ns L R F N fr" "p - of_nat TAG_SIZE \<in> allocated s L" "p \<notin> set ns"
    "\<And>i. i < MAXEXP \<Longrightarrow> l_completePages s ! i \<noteq> MAXCOMPLETE"
  shows "\<exists>s' L' F'. sys_free (Suc d) p s = Some s' \<and> system_ok s' ns L' R F' N fr \<and>
    allocated s' L' = allocated s L - {p - of_nat TAG_SIZE} \<and>
    (\<forall>b \<in> allocated s' L'. req_size (mem s' b) = req_size (mem s b) \<and> real_size (mem s' b) = real_size (mem s b)) \<and>
    bytes s' = bytes s \<and> liballoc.more s' = liballoc.more s"
proof -
  note S = system_heap [OF assms(1)]
  have i: "l_initialized s \<noteq> 0" using S(1) assms(2) by (auto simp: heap_in_slot_def allocated_def)
  have ok: "heap_ok s L R F" using S(8) liballoc_init_done [OF i] by simp
  from free_stays_in_heap [OF ok S(7) assms(2,4)] obtain s' L' F' where
    f: "\<And>pfree. kernel_free pfree p s = Some s'" "free_post p s L s' L' R F'" "liballoc.more s' = liballoc.more s" by blast
  note M = more_frames [OF f(3)] and P = f(2) [unfolded free_post_def]
  have "heap_in_slot s' L' R F' N fr"
    using S(1) P i liballoc_init_done [of s'] vm_ok_cong [OF more_paging [OF M(7)]] by (simp add: heap_in_slot_def)
  moreover have "given s' L' (set ns)"
  proof -
    have "q - of_nat TAG_SIZE \<noteq> p - of_nat TAG_SIZE" if "q \<in> set ns" for q using that assms(3) by auto
    then show ?thesis using S(2) P by (auto simp: given_def)
  qed
  moreover have "frames_inv s' ns" "free_frames s' ns \<subseteq> fr"
    using S(3,4) by (simp_all add: frames_inv_def free_frames_def buffered_def M)
  ultimately have "system_ok s' ns L' R F' N fr" using S(5,6) by (simp add: system_ok_def M)
  then show ?thesis using f P by (intro exI [of _ s'] exI [of _ L'] exI [of _ F']) simp
qed

text \<open>
  C3. \<open>kernel_free\<close> of a block in use, while no size class has its five whole blocks waiting:
  it returns, exactly that block is free again, every other block keeps its size, the bytes of
  memory, the page tables and the frame allocator do not change.
\<close>

theorem free_releases_block:
  assumes "system_ok s ns L R F N fr" "p - of_nat TAG_SIZE \<in> allocated s L" "p \<notin> set ns"
    "\<And>i. i < MAXEXP \<Longrightarrow> l_completePages s ! i \<noteq> MAXCOMPLETE"
  shows "\<exists>s' L' F'. sys_free (Suc d) p s = Some s' \<and> system_ok s' ns L' R F' N fr \<and>
    allocated s' L' = allocated s L - {p - of_nat TAG_SIZE} \<and>
    (\<forall>b \<in> allocated s' L'. req_size (mem s' b) = req_size (mem s b) \<and> real_size (mem s' b) = real_size (mem s b)) \<and>
    bytes s' = bytes s \<and> liballoc.more s' = liballoc.more s"
  by (rule free_system [OF assms])

theorem free_releases_block_witness:
  "\<exists>s' L' F'. sys_free 1 (slot_addr 0 + of_nat TAG_SIZE) used_state = Some s' \<and>
     system_ok s' [] L' used_regions F' 512 boot_frames \<and> allocated s' L' = {}"
proof -
  have a: "allocated used_state {slot_addr 0} = {slot_addr 0}" by (auto simp: allocated_def block_state_def used_tag_def)
  have "l_completePages used_state ! i \<noteq> MAXCOMPLETE" if "i < MAXEXP" for i
    using that by (simp add: block_state_def MAXCOMPLETE_def)
  then show ?thesis
    using free_releases_block [OF used_system_ok, of "slot_addr 0 + of_nat TAG_SIZE" 0] a by auto
qed

section \<open>Frames and pages\<close>

lemma allocate_system:
  assumes "system_ok s ns L R F N fr" "allocate (sys_free d) s = Some (f, s')"
  shows "unat f \<in> free_frames s ns \<and> 4096 dvd unat f \<and>
    (\<exists>ns' L' R' F' N'. system_ok s' ns' L' R' F' N' (fr - {unat f}) \<and> free_frames s' ns' = free_frames s ns - {unat f} \<and>
       set ns' \<subseteq> set ns \<and>
       (\<forall>b \<in> allocated s L. b + of_nat TAG_SIZE \<notin> set ns - set ns' \<longrightarrow> b \<in> allocated s' L'))"
proof -
  note S = system_heap [OF assms(1)]
  let ?A = "(\<lambda>b. b + of_nat TAG_SIZE) ` allocated s L"
  have n: "node_inv s s ?A fr" unfolding node_inv_def using S(1) by (auto simp: given_def)
  have "set ns \<subseteq> ?A"
  proof
    fix q assume "q \<in> set ns"
    then have "q - of_nat TAG_SIZE \<in> allocated s L" using S(2) by (simp add: given_def)
    then show "q \<in> ?A" by (rule rev_image_eqI) simp
  qed
  from idle.allocate_ok [OF S(3) this n S(5,6) assms(2)] obtain ns' where
    I: "frames_inv s' ns'" "set ns' \<subseteq> set ns" "unat f \<in> free_frames s ns" "free_frames s' ns' = free_frames s ns - {unat f}"
      "node_inv s s' (?A - (set ns - set ns')) fr" "frame_lock0 s' = 0" "frame_lock1 s' = 0" using S(6) by auto
  from I(5) obtain L' R' F' N' where
    H: "heap_in_slot s' L' R' F' N' fr" "given s' L' (?A - (set ns - set ns'))" unfolding node_inv_def by blast
  have "system_ok s' ns' L' R' F' N' (fr - {unat f})"
    unfolding system_ok_def
  proof (intro conjI)
    show "heap_in_slot s' L' R' F' N' (fr - {unat f})" by (rule heap_in_slot_less [OF H(1)]) blast
    show "given s' L' (set ns')" by (rule given_less [OF H(2)]) (use \<open>set ns \<subseteq> ?A\<close> I(2) in blast)
    show "free_frames s' ns' \<subseteq> fr - {unat f}" using I(4) S(4) by blast
  qed (use I in blast)+
  moreover have "b \<in> allocated s' L'" if b: "b \<in> allocated s L" "b + of_nat TAG_SIZE \<notin> set ns - set ns'" for b
  proof -
    have "b + of_nat TAG_SIZE \<in> ?A - (set ns - set ns')" using b by blast
    then have "b + of_nat TAG_SIZE - of_nat TAG_SIZE \<in> allocated s' L'" using H(2) unfolding given_def by blast
    then show ?thesis by simp
  qed
  ultimately show ?thesis using I(2-4) free_aligned [OF S(3) I(3)] by blast
qed

lemma addMemorySpace_system:
  assumes "system_ok s ns L R F N fr" "space_ok (round_space m)"
    "set (pages_of (round_space m)) \<inter> free_frames s ns = {}" "set (pages_of (round_space m)) \<subseteq> fr"
    "\<forall>a \<in> set ns. space_end (fdata (nodes s a)) \<le> unat (sp_base (round_space m)) \<or>
       space_end (round_space m) \<le> unat (sp_base (fdata (nodes s a)))"
    "addMemorySpace (sys_malloc d) (sys_free d) m s = Some s'"
  shows "\<exists>ns' L' R' F' N' used. system_ok s' ns' L' R' F' N' (fr - used) \<and>
    free_frames s' ns' = free_frames s ns \<union> set (pages_of (round_space m)) - used \<and>
    used \<subseteq> free_frames s ns \<union> set (pages_of (round_space m)) \<and> maps_kept s s' \<and>
    (N' = N \<or> N' = N + 16) \<and> card used = run_cost N (N' - N)"
proof -
  note S = system_heap [OF assms(1)]
  have n: "node_inv s s (set ns) fr" unfolding node_inv_def using S(1,2) maps_kept_refl by blast
  have "free_frames s ns \<union> set (pages_of (round_space m)) \<subseteq> fr" using S(4) assms(4) by blast
  from idle.addMemorySpace_ok [OF S(3) subset_refl n S(5,6) assms(2,3) this assms(5,6)] obtain ns' used A' where
    I: "frames_inv s' ns'" "set ns' \<subseteq> A'" "node_inv s s' A' (fr - used)" "used \<subseteq> free_frames s ns \<union> set (pages_of (round_space m))"
      "free_frames s' ns' = free_frames s ns \<union> set (pages_of (round_space m)) - used" "frame_lock0 s' = 0" "frame_lock1 s' = 0"
      "grew 16 s s' used" by blast
  from I(3) obtain L' R' F' N' where H: "heap_in_slot s' L' R' F' N' (fr - used)" "given s' L' A'" and k: "maps_kept s s'" unfolding node_inv_def by blast
  have "free_frames s' ns' \<subseteq> fr - used" using I(5) \<open>free_frames s ns \<union> set (pages_of (round_space m)) \<subseteq> fr\<close> by blast
  then have "system_ok s' ns' L' R' F' N' (fr - used)"
    unfolding system_ok_def using H given_less [OF H(2) I(2)] I by blast
  moreover from system_heap(9,11) [OF this] have "vm_ok s' N' (fr - used)" "N' < 2 ^ 18" by simp_all
  note grew_cost [OF I(8) S(9) this(1) _ this(2)]
  moreover have "N < 2 ^ 18" using S(11) by simp
  ultimately show ?thesis using I(4,5) k by blast
qed

text \<open>The example state with the heap's lock held, as the page provider finds it.\<close>

lemma locked_boot:
  "bit (alloc_lock (boot_state\<lparr>alloc_lock := 1\<rparr>)) 0" "frames_inv (boot_state\<lparr>alloc_lock := 1\<rparr>) []"
  "frame_lock0 (boot_state\<lparr>alloc_lock := 1\<rparr>) = 0" "frame_lock1 (boot_state\<lparr>alloc_lock := 1\<rparr>) = 0"
  "vm_ok (boot_state\<lparr>alloc_lock := 1\<rparr>) 0 boot_frames" "free_frames (boot_state\<lparr>alloc_lock := 1\<rparr>) [] \<subseteq> boot_frames"
  "finite boot_frames" "0 + card boot_frames < 2 ^ 18" "unat (16 :: uint32) < 2 ^ 20"
  "\<not> (0 < (0 :: nat) \<and> (0 :: nat) mod 512 = 0) \<and> rich (run_cost 0 (unat (16 :: uint32))) (boot_state\<lparr>alloc_lock := 1\<rparr>)"
proof -
  let ?s = "boot_state\<lparr>alloc_lock := 1\<rparr>"
  note S = system_heap [OF boot_system_ok]
  show "bit (alloc_lock ?s) 0" by simp
  show "frames_inv ?s []" "free_frames ?s [] \<subseteq> boot_frames" "frame_lock0 ?s = 0" "frame_lock1 ?s = 0"
    using S(3-6) by (simp_all add: frames_inv_def free_frames_def buffered_def)
  show "vm_ok ?s 0 boot_frames" using S(9) vm_ok_cong [of ?s boot_state] by simp
  show "finite boot_frames" "0 + card boot_frames < 2 ^ 18" "unat (16 :: uint32) < 2 ^ 20" using boot_frames(1,2) by simp_all
  show "\<not> (0 < (0 :: nat) \<and> (0 :: nat) mod 512 = 0) \<and> rich (run_cost 0 (unat (16 :: uint32))) ?s"
    using boot_rich_19 rich_more [of ?s boot_state] by simp
qed

lemma locked_boot_runs:
  "\<exists>s'. alloc_vm (sys_free d) 509 16 (ucast (PAGE_PRESENT OR PAGE_RW)) (boot_state\<lparr>alloc_lock := 1\<rparr>) = Some (slot_addr 0, s')"
  using frames_held.alloc_vm_ok [OF locked_boot(1-9) disjI2 [OF locked_boot(10)]] by blast

text \<open>
  C7. The page provider of the heap, with the heap's lock held: it maps the \<open>n\<close> pages after the last
  one mapped, at that address, on frames that were free; every translation that existed before it
  still exists, and every other free frame stays free.
\<close>

theorem liballoc_alloc_maps_next_pages:
  assumes "bit (alloc_lock s) 0" "frames_inv s ns" "frame_lock0 s = 0" "frame_lock1 s = 0" "vm_ok s N fr"
    "free_frames s ns \<subseteq> fr" "finite fr" "N + card fr < 2 ^ 18" "unat n < 2 ^ 20"
    "liballoc_alloc (sys_free d) n s = Some (p, s')"
  shows "p = slot_addr N \<and> (\<forall>v q. mmu s v = Some q \<longrightarrow> mmu s' v = Some q) \<and>
    (\<exists>U ns'. vm_ok s' (N + unat n) (fr - U) \<and> unat n \<le> card U \<and> U \<subseteq> free_frames s ns \<and> frames_inv s' ns' \<and>
       free_frames s' ns' = free_frames s ns - U)"
proof -
  have go: "alloc_vm (sys_free d) 509 n (ucast (PAGE_PRESENT OR PAGE_RW)) s \<noteq> None \<or>
      \<not> (0 < N \<and> N mod 512 = 0) \<and> rich (run_cost N (unat n)) s" using assms(10) by (simp add: liballoc_alloc_def)
  from frames_held.alloc_vm_ok [OF assms(1-9) go] assms(10) obtain U ns' where
    U: "p = slot_addr N" "took s ns U s' ns'" "vm_ok s' (N + unat n) (fr - U)" "card U = run_cost N (unat n)" "keeps s s'" "cr3 s' = cr3 s"
    by (auto simp: liballoc_alloc_def)
  have "unat n \<le> card U" unfolding U(4) by (rule run_cost_ge)
  then show ?thesis using U mmu_keeps [OF U(5,6)] unfolding took_def by blast
qed

theorem liballoc_alloc_maps_next_pages_witness:
  "\<exists>s'. liballoc_alloc (sys_free 1) 16 (boot_state\<lparr>alloc_lock := 1\<rparr>) = Some (slot_addr 0, s') \<and>
     (\<exists>U. vm_ok s' 16 (boot_frames - U) \<and> 16 \<le> card U)"
proof -
  obtain s' where r: "liballoc_alloc (sys_free 1) 16 (boot_state\<lparr>alloc_lock := 1\<rparr>) = Some (slot_addr 0, s')"
    unfolding liballoc_alloc_def using locked_boot_runs by blast
  show ?thesis using liballoc_alloc_maps_next_pages [OF locked_boot(1-9) r] r by auto
qed

text \<open>An address of the slot is translated through the page it lies in.\<close>

lemma mmu_slot:
  assumes "k < 2 ^ 18" "w < 4096"
  shows "mmu s (slot_addr k + w) = do { t \<leftarrow> page_frame s k; Some (t + w) }"
proof -
  have b: "k div 512 < 512" "k mod 512 < 512" using assms(1) by simp_all
  note I = slot_idx [OF b]
  show ?thesis
    unfolding slot_addr_def page_frame_def using mmu_CONVERT [OF _ _ I(3,4) assms(2), of 509 0 s] I(1,2) by (simp del: walk.simps)
qed

text \<open>
  C14. What a run of the page provider makes of the heap's slot, as an equation of the processor's
  translation over the whole slot: the pages mapped before stay where they were, the next \<open>n\<close> pages are
  mapped, each to a frame of its own that was free before, and no page after them is. It costs exactly
  one frame for every page and one for every page table that is new, and no other frame.
\<close>

theorem alloc_vm_maps_slot:
  assumes "bit (alloc_lock s) 0" "frames_inv s ns" "frame_lock0 s = 0" "frame_lock1 s = 0" "vm_ok s N fr"
    "free_frames s ns \<subseteq> fr" "finite fr" "N + card fr < 2 ^ 18" "unat n < 2 ^ 20"
    "alloc_vm (sys_free d) 509 n (ucast (PAGE_PRESENT OR PAGE_RW)) s = Some (p, s')"
  shows "\<exists>U ns' frame. frames_inv s' ns' \<and> U \<subseteq> free_frames s ns \<and> free_frames s' ns' = free_frames s ns - U \<and>
    card U = run_cost N (unat n) \<and> inj_on frame {N ..< N + unat n} \<and> (\<forall>k. N \<le> k \<and> k < N + unat n \<longrightarrow> unat (frame k) \<in> U) \<and>
    (\<forall>k w. k < 2 ^ 18 \<and> w < 4096 \<longrightarrow> mmu s' (slot_addr k + w) =
       (if k < N then mmu s (slot_addr k + w) else if k < N + unat n then Some (frame k + w) else None))"
proof -
  from frames_held.alloc_vm_ok [OF assms(1-9) disjI1, of d "ucast (PAGE_PRESENT OR PAGE_RW)"] assms(10) obtain U ns' where
    U: "took s ns U s' ns'" "vm_ok s' (N + unat n) (fr - U)" "card U = run_cost N (unat n)" "keeps s s'" "cr3 s' = cr3 s" and
    F: "\<forall>k. N \<le> k \<and> k < N + unat n \<longrightarrow> (\<exists>f. page_frame s' k = Some f \<and> unat f \<in> U)" by auto
  let ?f = "\<lambda>k. the (page_frame s' k)"
  have new: "page_frame s' k = Some (?f k) \<and> unat (?f k) \<in> U" if "N \<le> k" "k < N + unat n" for k using F that by force
  have "inj_on (page_frame s') {..<N + unat n}" using U(2) by (simp add: vm_ok_def)
  then have "inj_on (page_frame s') {N ..< N + unat n}" by (rule inj_on_subset) auto
  then have "inj_on ?f {N ..< N + unat n}" using new unfolding inj_on_def by (metis atLeastLessThan_iff)
  moreover have "mmu s' (slot_addr k + w) =
      (if k < N then mmu s (slot_addr k + w) else if k < N + unat n then Some (?f k + w) else None)" if k: "k < 2 ^ 18" "w < 4096" for k w
  proof (cases "k < N")
    case True
    then obtain f where f: "page_frame s k = Some f" using vm_pages [OF assms(5) k(1)] by (cases "page_frame s k") auto
    have "page_frame s' k = Some f" by (rule page_frame_keeps [OF U(4) _ f]) (simp add: pml4_def U(5))
    then show ?thesis using f True by (simp add: mmu_slot [OF k])
  next
    case False
    then show ?thesis using new [of k] vm_pages [OF U(2) k(1)]
      by (cases "k < N + unat n") (simp_all add: mmu_slot [OF k])
  qed
  ultimately show ?thesis using U(1,3) new unfolding took_def by (intro exI [of _ U] exI [of _ ns'] exI [of _ ?f]) simp
qed

theorem alloc_vm_maps_slot_witness:
  "\<exists>s' frame. alloc_vm (sys_free 1) 509 16 (ucast (PAGE_PRESENT OR PAGE_RW)) (boot_state\<lparr>alloc_lock := 1\<rparr>) = Some (slot_addr 0, s') \<and>
     (\<forall>k < 16. mmu s' (slot_addr k + 5) = Some (frame k + 5) \<and> unat (frame k) \<in> boot_frames) \<and> mmu s' (slot_addr 16 + 5) = None"
proof -
  let ?s = "boot_state\<lparr>alloc_lock := 1\<rparr>"
  note L = locked_boot
  obtain s' where r: "alloc_vm (sys_free 1) 509 16 (ucast (PAGE_PRESENT OR PAGE_RW)) ?s = Some (slot_addr 0, s')"
    using locked_boot_runs by blast
  from alloc_vm_maps_slot [OF L(1-9) r] obtain U frame where
    U: "U \<subseteq> free_frames ?s []" "\<forall>k. 0 \<le> k \<and> k < 0 + unat (16 :: uint32) \<longrightarrow> unat (frame k) \<in> U" and
    M: "\<forall>k w. k < 2 ^ 18 \<and> w < 4096 \<longrightarrow> mmu s' (slot_addr k + w) =
      (if k < 0 then mmu ?s (slot_addr k + w) else if k < 0 + unat (16 :: uint32) then Some (frame k + w) else None)"
    by (elim exE conjE) (rule that)
  have "U \<subseteq> boot_frames" using U(1) L(6) by (rule subset_trans)
  then have "mmu s' (slot_addr k + 5) = Some (frame k + 5) \<and> unat (frame k) \<in> boot_frames" if "k < 16" for k
    using M [rule_format, of k 5] U(2) that by auto
  moreover have "mmu s' (slot_addr 16 + 5) = None" using M [rule_format, of 16 5] by simp
  ultimately show ?thesis using r by blast
qed

section \<open>Calls that never return\<close>

lemma slot_tag_not_null:
  assumes "k < 2 ^ 18"
  shows "slot_addr k + of_nat TAG_SIZE \<noteq> NULL" "slot_addr k \<noteq> NULL"
proof -
  have "unat (slot_addr k + of_nat TAG_SIZE) = unat (slot_addr k) + 48"
    using unat_slot_addr [OF assms] assms by (subst unat_add_no_wrap) (simp_all add: TAG_SIZE_def)
  then show "slot_addr k + of_nat TAG_SIZE \<noteq> NULL" by auto
  show "slot_addr k \<noteq> NULL" using unat_slot_addr [OF assms] by auto
qed

lemma release_pages_positive: "0 < unat (release_pages rs)"
proof (cases "rs div l_pageSize + (if rs mod l_pageSize \<noteq> 0 then 1 else 0) < l_pageCount")
  case True
  then show ?thesis by (simp add: release_pages_def Let_def l_pageCount_def split: if_splits)
next
  case False
  then have "l_pageCount \<le> release_pages rs" by (auto simp: release_pages_def Let_def split: if_splits)
  then show ?thesis by (simp add: word_le_nat_alt l_pageCount_def)
qed

text \<open>
  C29. When the pages mapped fill their last table exactly (the 33rd region of 16 pages) and the heap
  has no free block, \<open>kernel_malloc\<close> ends in a page fault: the scan of \<open>alloc_vm\<close> asks for entry 512
  of that table.
\<close>

theorem malloc_faults_on_full_table:
  assumes "system_ok s ns L R (\<lambda>_. []) N fr" "unat sz \<le> MAX_REQUEST" "0 < N" "N mod 512 = 0"
  shows "sys_malloc d sz s = None"
proof (cases d)
  case (Suc d')
  note S = system_heap [OF assms(1)]
  let ?t = "liballoc_init (s\<lparr>alloc_lock := 1\<rparr>)"
  have m: "liballoc.more ?t = liballoc.more s" "mem ?t = mem s" by (auto simp: liballoc_init_def)
  have z: "unat (ucast sz :: uint32) = unat sz" using assms(2) by (intro unat_ucast_small) (simp add: MAX_REQUEST_def)
  have n: "unat (pages_for (ucast sz)) < 2 ^ 20" using pages_for_bounds(2) [of "ucast sz"] assms(2) z by simp
  have N: "N < 2 ^ 18" using S(11) by simp
  have "vm_ok ?t N fr" using S(9) vm_ok_cong [OF more_paging [OF more_frames(7) [OF m(1)]]] by simp
  from alloc_vm_full [OF this assms(3,4) N n] have f: "liballoc_alloc (sys_free d') (pages_for (ucast sz)) ?t = None"
    by (simp add: liballoc_alloc_def)
  have l: "l_freePages ?t ! i = NULL" "length (l_freePages ?t) = MAXEXP" if "i < MAXEXP" for i
    using heap_butD(1) [OF S(8)] that by (auto simp: lists_ok_def liballoc_init_def split: if_splits)
  obtain i where i: "min_index (getexp (ucast sz) + MODE) = int i" "i < MAXEXP"
    using min_index_range [of "ucast sz"]
    by (auto simp: MODE_def MAXEXP_def intro!: that [of "nat (min_index (getexp (ucast sz)))"])
  have "take_tag (liballoc_alloc (sys_free d')) sz ?t = None"
    using l [OF i(2)] i(2) f by (simp add: take_tag_def i(1) get_freePages_def find_tag.simps allocate_new_tag_def)
  then show ?thesis using S(7) by (simp add: Suc kernel_malloc_def liballoc_lock_def Let_def)
qed simp

theorem malloc_faults_on_full_table_witness: "sys_malloc 2 100 full_state = None"
  by (rule malloc_faults_on_full_table [OF full_system_ok]) (simp_all add: MAX_REQUEST_def TAG_SIZE_def)

text \<open>
  C27. Giving a whole region back never returns: once five whole blocks of a size class wait, freeing
  a sixth hands its pages to \<open>free_vm\<close> while the heap's lock is held, and returning the first frame
  needs a list node from the heap.
\<close>

theorem free_of_sixth_whole_block_deadlocks:
  assumes "vm_ok s N fr" "N < 2 ^ 18" "k < N"
    "magic (mem s (slot_addr k)) = LIBALLOC_MAGIC" "whole (mem s (slot_addr k))"
    "size_class (mem s (slot_addr k)) = int i" "i < MAXEXP" "l_completePages s ! i = MAXCOMPLETE"
  shows "sys_free d (slot_addr k + of_nat TAG_SIZE) s = None"
proof (cases "d = 0 \<or> bit (alloc_lock s) 0")
  case True
  have "slot_addr k + of_nat TAG_SIZE \<noteq> NULL" by (rule slot_tag_not_null) (use assms(2,3) in simp)
  then show ?thesis using True sys_free_locked by auto
next
  case False
  then obtain d' where d: "d = Suc d'" by (cases d) auto
  let ?a = "slot_addr k" and ?s = "s\<lparr>alloc_lock := set_bit 0 (alloc_lock s)\<rparr>"
  have a: "?a + of_nat TAG_SIZE \<noteq> NULL" "?a \<noteq> NULL" using slot_tag_not_null [of k] assms(2,3) by auto
  have w: "split_left (mem s ?a) = NULL" "split_right (mem s ?a) = NULL" using assms(5) by (auto simp: whole_def)
  have m: "melt_left_loop ?a ?s = Some (?a, ?s)" "absorb_right_loop ?a ?s = Some (?a, ?s)"
    using a(2) w by (simp_all add: melt_left_loop.simps absorb_right_loop.simps rd_def)
  let ?n = "release_pages (real_size (mem s ?a))"
  have "0 < unat ?n" by (rule release_pages_positive)
  moreover have "vm_ok ?s N fr" using assms(1) vm_ok_cong [of ?s s] by simp
  moreover have "bit (alloc_lock ?s) 0" by (simp add: bit_set_bit_iff)
  ultimately have "liballoc_free (sys_malloc d') (sys_free d') ?a ?n ?s = None"
    unfolding liballoc_free_def using free_pages_locked [OF _ assms(2) refl _ assms(3)] by blast
  then have "give_back (liballoc_free (sys_malloc d') (sys_free d')) ?a ?s = None"
    using a(2) w assms(6-8) by (simp add: give_back_def rd_def size_class_def [symmetric] get_completePages_def Let_def)
  then show ?thesis
    using False a m assms(4) by (simp add: d kernel_free_def liballoc_lock_def acquireLock_def rd_def Let_def)
qed

theorem free_of_sixth_whole_block_deadlocks_witness:
  "sys_free 2 (slot_addr 0 + of_nat TAG_SIZE) (used_state\<lparr>l_completePages := replicate MAXEXP MAXCOMPLETE\<rparr>) = None"
proof -
  let ?s = "used_state\<lparr>l_completePages := replicate MAXEXP MAXCOMPLETE\<rparr>"
  have "vm_ok ?s 512 boot_frames" using system_heap(9) [OF used_system_ok] vm_ok_cong [of ?s used_state] by simp
  moreover have t: "mem used_state (slot_addr 0) = used_tag" by (simp add: block_state_def)
  obtain i where "size_class used_tag = int i" "i < MAXEXP" using size_class_nat by blast
  ultimately show ?thesis
    by (intro free_of_sixth_whole_block_deadlocks [where N = 512 and fr = boot_frames and i = i])
      (simp_all add: t whole_def used_tag_def)
qed

text \<open>
  C28. While the heap's lock is held, \<open>allocate\<close> with a low buffer never returns when the first range
  of the list is used up: \<open>loadBuffer\<close> frees its node.
\<close>

theorem allocate_deadlocks_on_used_range:
  assumes "bit (alloc_lock s) 0" "unat (qtd_buffer s) \<le> MAX_BUFFER_FRAMES div 2" "avaliableMemory s \<noteq> NULL"
    "sp_size (fdata (nodes s (avaliableMemory s))) < PAGE_SIZE"
  shows "allocate (sys_free d) s = None"
proof -
  have "loadBuffer_loop (sys_free d) (s\<lparr>frame_lock1 := l\<rparr>) = None" for l
    using assms by (subst loadBuffer_loop.simps) (simp add: rdn_def sys_free_locked Let_def MAX_BUFFER_FRAMES_def)
  then have "loadBuffer (sys_free d) s = None" by (simp add: loadBuffer_def lock1_def split: bind_splits)
  then show ?thesis using assms(2) by (simp add: allocate_def)
qed

theorem allocate_deadlocks_on_used_range_witness:
  "allocate (sys_free 2) (boot_state\<lparr>alloc_lock := 1, qtd_buffer := 0, avaliableMemory := 8\<rparr>) = None"
  by (rule allocate_deadlocks_on_used_range) (simp_all add: boot_state_def PAGE_SIZE_def)

end
