(* ===== verification/System_Realloc.thy ===== *)
theory System_Realloc
  imports System_Correct
begin

text \<open>
  \<open>kernel_calloc\<close> and \<open>kernel_realloc\<close> on the real page table and frame allocator: what their byte
  loops write, and what the caller finds in the new block.
\<close>

section \<open>The byte loops\<close>

text \<open>\<open>n\<close> bytes from \<open>p\<close> on, none of them at address 0.\<close>

definition in_memory :: "addr \<Rightarrow> nat \<Rightarrow> bool" where
  "in_memory p n \<longleftrightarrow> p \<noteq> NULL \<and> unat p + n \<le> 2 ^ 64"

lemma in_memory_at: "in_memory p n \<Longrightarrow> k < n \<Longrightarrow> unat (p + of_nat k) = unat p + k \<and> p + of_nat k \<noteq> NULL"
proof -
  assume a: "in_memory p n" "k < n"
  then have k: "unat (of_nat k :: addr) = k" by (intro unat_of_nat_small) (simp add: in_memory_def)
  have u: "unat (p + of_nat k) = unat p + k" using a k by (subst unat_add_no_wrap) (auto simp: in_memory_def)
  moreover have "0 < unat p" using a by (simp add: in_memory_def unat_gt_0)
  ultimately show ?thesis by (metis add_gr_0 less_irrefl unat_0)
qed

lemma in_memory_diff: "in_memory p n \<Longrightarrow> unat (a - p) < n \<longleftrightarrow> unat a \<in> {unat p ..< unat p + n}"
proof -
  assume a: "in_memory p n"
  show ?thesis
  proof (cases "p \<le> a")
    case True
    then show ?thesis by (auto simp: unat_sub word_le_nat_alt)
  next
    case False
    then have l: "unat a < unat p" by (simp add: word_less_nat_alt not_le)
    have "unat (a - p) = unat a + 2 ^ 64 - unat p" using l unat_sub_if' [of a p] by (simp add: word_less_nat_alt)
    then show ?thesis using a l by (auto simp: in_memory_def)
  qed
qed

lemma memset_loop_eq:
  "in_memory p (i + n) \<Longrightarrow> memset_loop p c i n s =
     Some (s\<lparr>bytes := (\<lambda>a. if unat a \<in> {unat p + i ..< unat p + i + n} then c else bytes s a)\<rparr>)"
proof (induction n arbitrary: i s)
  case (Suc n)
  have at: "unat (p + of_nat i) = unat p + i" "p + of_nat i \<noteq> NULL" using in_memory_at [OF Suc.prems, of i] by simp_all
  let ?t = "s\<lparr>bytes := (bytes s)(p + of_nat i := c)\<rparr>"
  have "memset_loop p c i (Suc n) s = memset_loop p c (i + 1) n ?t" using at(2) by (simp add: wr_byte_def)
  also have "\<dots> = Some (?t\<lparr>bytes := (\<lambda>a. if unat a \<in> {unat p + (i + 1) ..< unat p + (i + 1) + n} then c else bytes ?t a)\<rparr>)"
    by (rule Suc.IH) (use Suc.prems in simp)
  also have "(\<lambda>a. if unat a \<in> {unat p + (i + 1) ..< unat p + (i + 1) + n} then c else bytes ?t a) =
      (\<lambda>a. if unat a \<in> {unat p + i ..< unat p + i + Suc n} then c else bytes s a)"
  proof
    fix a
    have "a = p + of_nat i \<longleftrightarrow> unat a = unat p + i" using at(1) by (simp add: word_unat_eq_iff)
    then show "(if unat a \<in> {unat p + (i + 1) ..< unat p + (i + 1) + n} then c else bytes ?t a) =
        (if unat a \<in> {unat p + i ..< unat p + i + Suc n} then c else bytes s a)" by auto
  qed
  finally show ?case by simp
qed simp

text \<open>Memory after \<open>n\<close> bytes have been copied from \<open>sr\<close> to \<open>d\<close>.\<close>

definition copied :: "addr \<Rightarrow> addr \<Rightarrow> nat \<Rightarrow> (addr \<Rightarrow> uint8) \<Rightarrow> addr \<Rightarrow> uint8" where
  "copied d sr n m = (\<lambda>a. if unat (a - d) < n then m (sr + (a - d)) else m a)"

definition apart :: "addr \<Rightarrow> addr \<Rightarrow> nat \<Rightarrow> bool" where
  "apart d sr n \<longleftrightarrow> {unat d ..< unat d + n} \<inter> {unat sr ..< unat sr + n} = {}"

lemma copied_append:
  assumes "in_memory d (j + k)" "in_memory sr (j + k)" "apart d sr (j + k)"
  shows "copied (d + of_nat j) (sr + of_nat j) k (copied d sr j m) = copied d sr (j + k) m"
proof
  fix a
  show "copied (d + of_nat j) (sr + of_nat j) k (copied d sr j m) a = copied d sr (j + k) m a"
  proof (cases "k = 0")
    case True
    then show ?thesis by (simp add: copied_def)
  next
    case False
    have dj: "unat (d + of_nat j) = unat d + j" "d + of_nat j \<noteq> NULL" using in_memory_at [OF assms(1), of j] False by auto
    have m': "in_memory (d + of_nat j) k" using assms(1) dj by (simp add: in_memory_def)
    have m0: "in_memory d j" using assms(1) by (simp add: in_memory_def)
    note D = in_memory_diff [OF m', of a, unfolded dj(1)] in_memory_diff [OF m0] in_memory_diff [OF assms(1), of a]
    have src: "sr + of_nat j + (a - (d + of_nat j)) = sr + (a - d)" by simp
    have clear: "\<not> unat (sr + (a - d) - d) < j" if "unat (a - d) < j + k"
    proof -
      have "unat (sr + (a - d)) = unat sr + unat (a - d)" using in_memory_at [OF assms(2) that] by simp
      then have "unat (sr + (a - d)) \<in> {unat sr ..< unat sr + (j + k)}" using that by simp
      then have "unat (sr + (a - d)) \<notin> {unat d ..< unat d + j}" using assms(3) by (auto simp: apart_def)
      then show ?thesis using D(2) by blast
    qed
    have "unat (a - d) < j + k \<longleftrightarrow> unat (a - (d + of_nat j)) < k \<or> unat (a - d) < j"
      unfolding D(1) D(2) [of a] D(3) by auto
    then show ?thesis using clear unfolding copied_def src by presburger
  qed
qed

lemma copied_none: "copied d sr 0 m = m"
  by (simp add: copied_def)

lemma copy_bytes_eq:
  "in_memory d n \<Longrightarrow> in_memory sr n \<Longrightarrow> apart d sr n \<Longrightarrow> copy_bytes n d sr s = Some (s\<lparr>bytes := copied d sr n (bytes s)\<rparr>)"
proof (induction n arbitrary: d sr s)
  case 0
  then show ?case by (simp add: copied_none)
next
  case (Suc n)
  let ?t = "s\<lparr>bytes := (bytes s)(d := bytes s sr)\<rparr>"
  have one: "(bytes s)(d := bytes s sr) = copied d sr 1 (bytes s)"
  proof
    fix a
    have "unat (a - d) < 1 \<longleftrightarrow> a = d" by (simp add: unat_eq_zero)
    then show "((bytes s)(d := bytes s sr)) a = copied d sr 1 (bytes s) a" by (simp add: copied_def)
  qed
  show ?case
  proof (cases "n = 0")
    case True
    then show ?thesis using Suc.prems one by (simp add: rd_byte_def wr_byte_def in_memory_def)
  next
    case False
    have u: "unat (d + 1) = unat d + 1" "d + 1 \<noteq> NULL" "unat (sr + 1) = unat sr + 1" "sr + 1 \<noteq> NULL"
      using in_memory_at [OF Suc.prems(1), of 1] in_memory_at [OF Suc.prems(2), of 1] False by simp_all
    have "copy_bytes n (d + 1) (sr + 1) ?t = Some (?t\<lparr>bytes := copied (d + 1) (sr + 1) n (bytes ?t)\<rparr>)"
      by (rule Suc.IH) (use Suc.prems u in \<open>auto simp: in_memory_def apart_def\<close>)
    moreover have "copied (d + 1) (sr + 1) n (copied d sr 1 (bytes s)) = copied d sr (Suc n) (bytes s)"
      using copied_append [of d 1 n sr "bytes s"] Suc.prems by simp
    ultimately show ?thesis using Suc.prems(1,2) by (simp add: rd_byte_def wr_byte_def in_memory_def one)
  qed
qed

text \<open>The eight-byte loop reads the words of the source as they were: the blocks do not overlap.\<close>

lemma copy_words_eq:
  "in_memory d n \<Longrightarrow> in_memory sr n \<Longrightarrow> apart d sr n \<Longrightarrow> \<exists>k. 8 * k \<le> n \<and> n < 8 * k + 8 \<and>
    copy_words d sr n s = Some (d + of_nat (8 * k), sr + of_nat (8 * k), n - 8 * k, s\<lparr>bytes := copied d sr (8 * k) (bytes s)\<rparr>)"
proof (induction d sr n s rule: copy_words.induct)
  case (1 d sr n s)
  show ?case
  proof (cases "n < 8")
    case True
    then show ?thesis by (intro exI [of _ 0]) (simp add: copy_words.simps [of d sr n] copied_none)
  next
    case False
    let ?t = "s\<lparr>bytes := (\<lambda>a. if a - d < 8 then bytes s (sr + (a - d)) else bytes s a)\<rparr>"
    have t: "bytes ?t = copied d sr 8 (bytes s)" by (simp add: copied_def word_less_nat_alt)
    have nn: "\<not> (d = NULL \<or> sr = NULL)" using 1(2,3) by (simp add: in_memory_def)
    have step: "copy_words d sr n s = copy_words (d + 8) (sr + 8) (n - 8) ?t"
      using False nn by (subst copy_words.simps) simp
    show ?thesis
    proof (cases "n = 8")
      case True
      then show ?thesis unfolding step
        by (intro exI [of _ 1]) (simp add: copy_words.simps [of "d + 8"] copied_def word_less_nat_alt)
    next
      case n8: False
      have u: "unat (d + 8) = unat d + 8" "d + 8 \<noteq> NULL" "unat (sr + 8) = unat sr + 8" "sr + 8 \<noteq> NULL"
        using in_memory_at [OF 1(2), of 8] in_memory_at [OF 1(3), of 8] False n8 by simp_all
      have "\<exists>k. 8 * k \<le> n - 8 \<and> n - 8 < 8 * k + 8 \<and> copy_words (d + 8) (sr + 8) (n - 8) ?t =
          Some (d + 8 + of_nat (8 * k), sr + 8 + of_nat (8 * k), n - 8 - 8 * k, ?t\<lparr>bytes := copied (d + 8) (sr + 8) (8 * k) (bytes ?t)\<rparr>)"
        by (rule 1(1) [OF False nn]) (use 1(2-4) u False in \<open>auto simp: in_memory_def apart_def\<close>)
      then obtain k where k: "8 * k \<le> n - 8" "n - 8 < 8 * k + 8" "copy_words (d + 8) (sr + 8) (n - 8) ?t =
          Some (d + 8 + of_nat (8 * k), sr + 8 + of_nat (8 * k), n - 8 - 8 * k, ?t\<lparr>bytes := copied (d + 8) (sr + 8) (8 * k) (bytes ?t)\<rparr>)"
        by blast
      have "in_memory d (8 + 8 * k)" "in_memory sr (8 + 8 * k)" "apart d sr (8 + 8 * k)"
        using 1(2-4) k(1) False by (auto simp: in_memory_def apart_def)
      from copied_append [OF this, of "bytes s"] have "copied (d + 8) (sr + 8) (8 * k) (copied d sr 8 (bytes s)) = copied d sr (8 * Suc k) (bytes s)"
        by simp
      moreover have "8 * Suc k \<le> n" "n < 8 * Suc k + 8" using k(1,2) False unfolding mult_Suc_right by linarith+
      ultimately show ?thesis unfolding step k(3) t
        by (intro exI [of _ "Suc k"]) (simp add: algebra_simps)
    qed
  qed
qed

lemma memcpy_eq:
  assumes "in_memory d (unat n)" "in_memory sr (unat n)" "apart d sr (unat n)"
  shows "liballoc_memcpy d sr n s = Some (s\<lparr>bytes := copied d sr (unat n) (bytes s)\<rparr>)"
proof -
  obtain k where k: "8 * k \<le> unat n" "unat n < 8 * k + 8" "copy_words d sr (unat n) s =
      Some (d + of_nat (8 * k), sr + of_nat (8 * k), unat n - 8 * k, s\<lparr>bytes := copied d sr (8 * k) (bytes s)\<rparr>)"
    using copy_words_eq [OF assms] by blast
  have r: "unat n = 8 * k + (unat n - 8 * k)" using k(1) by simp
  show ?thesis
  proof (cases "unat n - 8 * k = 0")
    case True
    then show ?thesis using k(3) r by (simp add: liballoc_memcpy_def)
  next
    case False
    then have l: "8 * k < unat n" by simp
    note u = in_memory_at [OF assms(1) l] in_memory_at [OF assms(2) l]
    have "copy_bytes (unat n - 8 * k) (d + of_nat (8 * k)) (sr + of_nat (8 * k)) t =
        Some (t\<lparr>bytes := copied (d + of_nat (8 * k)) (sr + of_nat (8 * k)) (unat n - 8 * k) (bytes t)\<rparr>)" for t :: "'a liballoc_scheme"
      by (rule copy_bytes_eq) (use assms u l in \<open>auto simp: in_memory_def apart_def\<close>)
    moreover have "copied (d + of_nat (8 * k)) (sr + of_nat (8 * k)) (unat n - 8 * k) (copied d sr (8 * k) m) = copied d sr (unat n) m" for m
      using copied_append [of d "8 * k" "unat n - 8 * k" sr m] assms r by simp
    ultimately show ?thesis using k(3) by (simp add: liballoc_memcpy_def del: of_nat_mult)
  qed
qed

section \<open>What \<open>kernel_malloc\<close> leaves of the counts\<close>

lemma malloc_counts:
  assumes ok: "system_ok s ns L R F N fr" and sz: "unat sz \<le> MAX_REQUEST"
    and run: "sys_malloc (Suc d) sz s = Some (q, t)"
  shows "l_completePages t ! j \<le> l_completePages (liballoc_init s) ! j"
proof -
  note S = system_heap [OF ok]
  let ?s1 = "liballoc_init (s\<lparr>alloc_lock := 1\<rparr>)" and ?pal = "liballoc_alloc (sys_free d)"
  have s1: "l_completePages ?s1 = l_completePages (liballoc_init s)" by (simp add: liballoc_init_def)
  have "pages_inv s ns fr s R" by (rule pages_inv_start) (use S in auto)
  then have pi: "pages_inv s ns fr ?s1 R" by (rule pages_inv_more) (simp add: liballoc_init_def)
  have z: "unat (ucast sz :: uint32) = unat sz" using sz by (intro unat_ucast_small) (simp add: MAX_REQUEST_def)
  have pb: "16 \<le> unat (pages_for (ucast sz))" "unat (pages_for (ucast sz)) < 2 ^ 20"
    using pages_for_bounds [of "ucast sz"] sz z by simp_all
  have R: "regions_ok R" using blocks_okD(1) [OF heap_butD(2) [OF S(8)]] .
  have bt: "bit (alloc_lock ?s1) 0" by (simp add: liballoc_init_def)
  have pal: "l_completePages u = l_completePages ?s1" if "?pal (pages_for (ucast sz)) ?s1 = Some (p, u)" for p u
    using liballoc_alloc_ok [OF pi R bt pb that] by (simp add: same_heap_def)
  obtain tag u where u: "take_tag ?pal sz ?s1 = Some (tag, u)"
      "tag = NULL \<and> t = liballoc_unlock u \<or> (\<exists>v. carve_tag tag sz u = Some v \<and> t = liballoc_unlock v)"
    using run S(7) by (auto simp: kernel_malloc_def liballoc_lock_def Let_def bind_eq_Some_conv split: if_splits prod.splits)
  have "l_completePages t = l_completePages u"
    using u(2) by (auto simp: liballoc_unlock_def dest: carve_counts)
  then show ?thesis using take_counts [OF u(1) pal, where i = j] s1 by simp
qed

section \<open>\<open>calloc\<close> and \<open>realloc\<close>\<close>

text \<open>The bytes of memory are no part of the invariant.\<close>

lemma system_ok_bytes:
  "system_ok (s\<lparr>bytes := m\<rparr>) ns L R F N fr = system_ok s ns L R F N fr"
  "allocated (s\<lparr>bytes := m\<rparr>) L = allocated s L" "own_block (s\<lparr>bytes := m\<rparr>) L N p n = own_block s L N p n"
proof -
  have "heap_ok (liballoc_init (s\<lparr>bytes := m\<rparr>)) L R F = heap_ok (liballoc_init s) L R F"
    by (rule heap_but_cong) (simp_all add: liballoc_init_def)
  moreover have "vm_ok (s\<lparr>bytes := m\<rparr>) N fr = vm_ok s N fr" by (rule vm_ok_cong) simp_all
  ultimately show "system_ok (s\<lparr>bytes := m\<rparr>) ns L R F N fr = system_ok s ns L R F N fr"
    by (simp add: system_ok_def heap_in_slot_def given_def allocated_def frames_inv_def free_frames_def buffered_def)
  show "allocated (s\<lparr>bytes := m\<rparr>) L = allocated s L" "own_block (s\<lparr>bytes := m\<rparr>) L N p n = own_block s L N p n"
    by (simp_all add: allocated_def own_block_def payload_def)
qed

lemma own_block_memory:
  assumes "own_block s L N p n" "N < 2 ^ 18" "p \<noteq> NULL"
  shows "in_memory p n"
proof -
  have "unat (slot_addr 0) + 4096 * N \<le> 2 ^ 64" using assms(2) by (simp add: unat_slot_addr)
  moreover have "n = 0 \<or> unat p + n \<le> unat (slot_addr 0) + 4096 * N"
    using assms(1) unfolding own_block_def by (cases "n = 0") (auto dest!: subsetD [where c = "unat p + n - 1"])
  ultimately show ?thesis using assms(3) unat_lt64 [of p] by (auto simp: in_memory_def)
qed

lemma block_memory:
  assumes ok: "system_ok s ns L R F N fr" and p: "p - of_nat TAG_SIZE \<in> allocated s L"
  shows "own_block s L N p (unat (req_size (mem s (p - of_nat TAG_SIZE))))" "p \<noteq> NULL" "p - of_nat TAG_SIZE \<noteq> NULL"
    "l_initialized s \<noteq> 0"
proof -
  note S = system_heap [OF ok]
  show i: "l_initialized s \<noteq> 0" using S(1) p by (auto simp: heap_in_slot_def allocated_def)
  have h: "heap_ok s L R F" using S(8) liballoc_init_done [OF i] by simp
  have N: "N < 2 ^ 18" using S(11) by simp
  show "own_block s L N p (unat (req_size (mem s (p - of_nat TAG_SIZE))))" by (rule own_blockI [OF h S(12) N p refl])
  have a: "p - of_nat TAG_SIZE \<in> L" using p by (simp add: allocated_def)
  have "unat (p - of_nat TAG_SIZE + of_nat TAG_SIZE) = unat (p - of_nat TAG_SIZE) + 48"
    using payload_addr(1) [OF heap_butD(2) [OF h] a] .
  then show "p \<noteq> NULL" by auto
  show "p - of_nat TAG_SIZE \<noteq> NULL" using blocks_okD(2) [OF heap_butD(2) [OF h]] a by (auto simp: tags_ok_def)
qed

lemma scast_ucast_small:
  fixes w :: uint64
  assumes "unat w < 2 ^ 31"
  shows "scast (ucast w :: uint32) = w"
proof -
  have "unat (ucast w :: uint32) = unat w" by (rule unat_ucast_small) (use assms in simp)
  then have u: "uint (ucast w :: uint32) = uint w" by (simp only: unat_eq_nat_uint eq_nat_nat_iff uint_ge_0)
  have "nat (uint w) < 2 ^ 31" using assms by (simp only: unat_eq_nat_uint)
  then have "uint w < int (2 ^ 31)" by (simp only: nat_less_iff [OF uint_ge_0])
  then have "uint w < 2 ^ 31" by simp
  moreover have "- (2 ^ 31) \<le> uint w" by (rule order_trans [OF _ uint_ge_0]) simp
  ultimately have "signed_take_bit 31 (uint w) = uint w" by (intro signed_take_bit_int_eq_self)
  then have "sint (ucast w :: uint32) = uint w" unfolding sint_uint u by simp
  then show ?thesis by (simp add: scast_eq)
qed

text \<open>
  C23. \<open>kernel_calloc\<close> returns whenever \<open>kernel_malloc\<close> does for the product, as long as that fits in the
  \<open>int\<close> the code keeps it in: the new block has the size of the product and holds zeroes, and no byte
  outside it changes.
\<close>

theorem calloc_gives_zeroes:
  assumes "system_ok s ns L R F N fr" "unat nobj * unat sz < 2 ^ 31" "sys_malloc (Suc d) (nobj * sz) s = Some (p, s1)"
  shows "\<exists>s' ns' L' R' F' N' fr'. kernel_calloc (liballoc_alloc (sys_free d)) nobj sz s = Some (p, s') \<and>
    system_ok s' ns' L' R' F' N' fr' \<and> own_block s' L' N' p (unat nobj * unat sz) \<and>
    allocated s' L' = insert (p - of_nat TAG_SIZE) (allocated s L) \<and>
    bytes s' = (\<lambda>a. if unat a \<in> {unat p ..< unat p + unat nobj * unat sz} then 0 else bytes s a)"
proof -
  have n: "unat (nobj * sz) = unat nobj * unat sz" by (rule unat_mult_lem [THEN iffD1]) (use assms(2) in simp)
  have z: "unat (nobj * sz) \<le> MAX_REQUEST" using assms(2) n by (simp add: MAX_REQUEST_def TAG_SIZE_def)
  have c: "(scast (ucast (nobj * sz) :: uint32) :: uint64) = nobj * sz"
    by (rule scast_ucast_small) (use assms(2) n in simp)
  from malloc_system [OF assms(1) z assms(3)] obtain ns' L' R' F' N' fr' where
    m: "p \<noteq> NULL" "bytes s1 = bytes s" "system_ok s1 ns' L' R' F' N' fr'" "own_block s1 L' N' p (unat (nobj * sz))"
      "allocated s1 L' = insert (p - of_nat TAG_SIZE) (allocated s L)" by blast
  have N: "N' < 2 ^ 18" using system_heap(11) [OF m(3)] by simp
  let ?f = "\<lambda>a. if unat a \<in> {unat p ..< unat p + unat (nobj * sz)} then 0 else bytes s a"
  have "liballoc_memset p 0 (nobj * sz) s1 = Some (s1\<lparr>bytes := ?f\<rparr>)"
    using memset_loop_eq [where i = 0 and p = p and n = "unat (nobj * sz)" and c = 0 and s = s1]
      own_block_memory [OF m(4) N m(1)] unfolding m(2) by (simp add: liballoc_memset_def)
  then have "kernel_calloc (liballoc_alloc (sys_free d)) nobj sz s = Some (p, s1\<lparr>bytes := ?f\<rparr>)"
    using assms(3) by (simp add: kernel_calloc_def c)
  then show ?thesis using m(3-5) unfolding n
    by (intro exI [of _ "s1\<lparr>bytes := _\<rparr>"] exI conjI) (assumption | simp add: system_ok_bytes)+
qed

theorem calloc_gives_zeroes_witness:
  "\<exists>p s'. kernel_calloc (liballoc_alloc (sys_free 0)) 5 20 boot_state = Some (p, s') \<and>
     bytes s' = (\<lambda>a. if unat a \<in> {unat p ..< unat p + 100} then 0 else bytes boot_state a)"
proof -
  have sz: "unat (100 :: uint64) \<le> MAX_REQUEST" by (simp add: MAX_REQUEST_def TAG_SIZE_def)
  obtain p s1 where "sys_malloc (Suc 0) 100 boot_state = Some (p, s1)"
    using malloc_runs [OF boot_system_ok sz _ boot_rich, of 0] by blast
  then have r: "sys_malloc (Suc 0) (5 * 20) boot_state = Some (p, s1)" by simp
  from calloc_gives_zeroes [OF boot_system_ok _ r] show ?thesis by (simp del: sys_malloc.simps sys_free.simps) blast
qed

lemma min_size:
  assumes "unat (sz :: uint64) \<le> MAX_REQUEST"
  shows "unat (ucast (if sz < ucast (r :: uint32) then ucast sz else r) :: uint64) = min (unat sz) (unat r)"
proof -
  have z: "unat (ucast sz :: uint32) = unat sz" using assms by (intro unat_ucast_small) (simp add: MAX_REQUEST_def)
  show ?thesis using z by (auto simp: word_less_nat_alt unat_ucast_up)
qed

lemma realloc_steps:
  assumes "sz \<noteq> 0" "p \<noteq> NULL" "p - of_nat TAG_SIZE \<noteq> NULL" "alloc_lock s = 0"
    and m: "sys_malloc (Suc d) sz s = Some (q, s1)"
    and c: "liballoc_memcpy q p (ucast (if sz < ucast (req_size (mem s (p - of_nat TAG_SIZE))) then ucast sz
          else req_size (mem s (p - of_nat TAG_SIZE)))) s1 = Some s2"
    and f: "sys_free (Suc d) p s2 = Some s'"
  shows "kernel_realloc (liballoc_alloc (sys_free d)) (liballoc_free (sys_malloc d) (sys_free d)) p sz s = Some (q, s')"
proof -
  have "liballoc_lock s = Some (s\<lparr>alloc_lock := 1\<rparr>)" "liballoc_unlock (s\<lparr>alloc_lock := 1\<rparr>) = s"
    using assms(4) by (simp_all add: liballoc_lock_def liballoc_unlock_def)
  then show ?thesis using assms(1-3) m c f by (simp add: kernel_realloc_def rd_def)
qed

text \<open>The old and the new block after \<open>kernel_malloc\<close>.\<close>

lemma realloc_target:
  assumes ok: "system_ok s ns L R F N fr" and p: "p - of_nat TAG_SIZE \<in> allocated s L" and sz: "sz \<noteq> 0" "unat sz \<le> MAX_REQUEST"
    and run: "sys_malloc (Suc d) sz s = Some (q, s1)"
    and n: "n = min (unat sz) (unat (req_size (mem s (p - of_nat TAG_SIZE))))"
  shows "\<exists>ns1 L1 R1 F1 N1 fr1. system_ok s1 ns1 L1 R1 F1 N1 fr1 \<and> set ns1 \<subseteq> set ns \<and> bytes s1 = bytes s \<and>
    p - of_nat TAG_SIZE \<in> allocated s1 L1 \<and> p - of_nat TAG_SIZE \<noteq> q - of_nat TAG_SIZE \<and>
    allocated s1 L1 = insert (q - of_nat TAG_SIZE) (allocated s L) \<and> unat (req_size (mem s1 (q - of_nat TAG_SIZE))) = unat sz \<and>
    paging.more s1 = paging.more s \<and> q - of_nat TAG_SIZE \<notin> allocated s L \<and>
    (\<forall>b \<in> allocated s L. req_size (mem s1 b) = req_size (mem s b)) \<and>
    in_memory q n \<and> in_memory p n \<and> apart q p n"
proof -
  let ?P = "p - of_nat TAG_SIZE" and ?Q = "q - of_nat TAG_SIZE"
  let ?old = "unat (req_size (mem s ?P))"
  from malloc_system [OF ok sz(2) run] obtain ns1 L1 R1 F1 N1 fr1 where
    m: "q \<noteq> NULL" "?Q \<notin> allocated s L" "bytes s1 = bytes s" "\<forall>b \<in> allocated s L. req_size (mem s1 b) = req_size (mem s b)"
      "system_ok s1 ns1 L1 R1 F1 N1 fr1" "own_block s1 L1 N1 q (unat sz)" "allocated s1 L1 = insert ?Q (allocated s L)"
      "set ns1 \<subseteq> set ns" "paging.more s1 = paging.more s" by blast
  have N1: "N1 < 2 ^ 18" using system_heap(11) [OF m(5)] by simp
  have P1: "?P \<in> allocated s1 L1" "?P \<noteq> ?Q" using m(2,7) p by auto
  have own: "own_block s1 L1 N1 p ?old" using block_memory(1) [OF m(5) P1(1)] m(4) p by simp
  have a: "{unat p ..< unat p + ?old} \<inter> {unat q ..< unat q + unat sz} = {}"
    using own m(6) P1 unfolding own_block_def by (metis Diff_iff singletonD)
  have "in_memory p ?old" "in_memory q (unat sz)"
    using own_block_memory [OF own N1 block_memory(2) [OF ok p]] own_block_memory [OF m(6) N1 m(1)] by blast+
  then have "in_memory q n" "in_memory p n" "apart q p n" using a by (auto simp: n in_memory_def apart_def)
  moreover have "unat (req_size (mem s1 ?Q)) = unat sz"
  proof -
    have "0 < unat sz" using sz(1) by (simp add: unat_gt_0)
    moreover have "payload s1 ?Q = {unat q ..< unat q + unat sz}" using m(6) unfolding own_block_def by blast
    ultimately show ?thesis unfolding payload_def Ico_eq_Ico by linarith
  qed
  ultimately show ?thesis using m(2-5,7-9) P1 by blast
qed

lemma realloc_block:
  assumes "system_ok s ns L R F N fr" "p - of_nat TAG_SIZE \<in> allocated s L" "p \<notin> set ns" "sz \<noteq> 0" "unat sz \<le> MAX_REQUEST"
    "\<forall>i < MAXEXP. l_completePages s ! i < MAXCOMPLETE" "sys_malloc (Suc d) sz s = Some (q, s1)"
  shows "\<exists>s' ns' L' R' F' N' fr'.
    kernel_realloc (liballoc_alloc (sys_free d)) (liballoc_free (sys_malloc d) (sys_free d)) p sz s = Some (q, s') \<and>
    system_ok s' ns' L' R' F' N' fr' \<and> own_block s' L' N' q (unat sz) \<and>
    allocated s' L' = insert (q - of_nat TAG_SIZE) (allocated s L) - {p - of_nat TAG_SIZE} \<and>
    (\<forall>k < min (unat sz) (unat (req_size (mem s (p - of_nat TAG_SIZE)))). bytes s' (q + of_nat k) = bytes s (p + of_nat k)) \<and>
    (\<forall>a. unat a \<notin> {unat q ..< unat q + unat sz} \<longrightarrow> bytes s' a = bytes s a) \<and>
    set ns' \<subseteq> set ns \<and> q \<notin> set ns \<and> unat (req_size (mem s' (q - of_nat TAG_SIZE))) = unat sz \<and> paging.more s' = paging.more s \<and>
    (\<forall>b \<in> allocated s L - {p - of_nat TAG_SIZE}. req_size (mem s' b) = req_size (mem s b))"
proof -
  let ?P = "p - of_nat TAG_SIZE" and ?Q = "q - of_nat TAG_SIZE"
  define n where "n = min (unat sz) (unat (req_size (mem s ?P)))"
  note B = block_memory [OF assms(1,2)]
  from realloc_target [OF assms(1,2,4,5,7) n_def] obtain ns1 L1 R1 F1 N1 fr1 where
    m: "system_ok s1 ns1 L1 R1 F1 N1 fr1" "set ns1 \<subseteq> set ns" "bytes s1 = bytes s" "?P \<in> allocated s1 L1" "?P \<noteq> ?Q"
      "allocated s1 L1 = insert ?Q (allocated s L)" "unat (req_size (mem s1 ?Q)) = unat sz"
      "paging.more s1 = paging.more s" "?Q \<notin> allocated s L" "\<forall>b \<in> allocated s L. req_size (mem s1 b) = req_size (mem s b)"
    and cp: "in_memory q n" "in_memory p n" "apart q p n" by blast
  let ?m = "copied q p n (bytes s)"
  let ?s2 = "s1\<lparr>bytes := ?m\<rparr>"
  let ?r = "if sz < ucast (req_size (mem s ?P)) then ucast sz else req_size (mem s ?P)"
  have "unat (ucast ?r :: uint64) = n" unfolding n_def by (rule min_size [OF assms(5)])
  then have c2: "liballoc_memcpy q p (ucast ?r) s1 = Some ?s2" using memcpy_eq [of q "ucast ?r" p s1] cp m(3) by simp
  have ok2: "system_ok ?s2 ns1 L1 R1 F1 N1 fr1" using m(1) system_ok_bytes(1) by blast
  have a2: "?P \<in> allocated ?s2 L1" using m(4) by (simp add: allocated_def)
  have cnt: "l_completePages ?s2 ! i \<noteq> MAXCOMPLETE" if "i < MAXEXP" for i
    using malloc_counts [OF assms(1,5,7), of i] assms(6) that liballoc_init_done [OF B(4)] by fastforce
  have "p \<notin> set ns1" using assms(3) m(2) by blast
  from ok2 a2 this have "\<exists>s' L' F'. sys_free (Suc d) p ?s2 = Some s' \<and> system_ok s' ns1 L' R1 F' N1 fr1 \<and>
      allocated s' L' = allocated ?s2 L1 - {?P} \<and>
      (\<forall>b \<in> allocated s' L'. req_size (mem s' b) = req_size (mem ?s2 b) \<and> real_size (mem s' b) = real_size (mem ?s2 b)) \<and>
      bytes s' = bytes ?s2 \<and> liballoc.more s' = liballoc.more ?s2" by (rule free_system) (rule cnt)
  then obtain s' L' F' where f: "sys_free (Suc d) p ?s2 = Some s'"
      "system_ok s' ns1 L' R1 F' N1 fr1" "allocated s' L' = allocated ?s2 L1 - {?P}"
      "\<forall>b \<in> allocated s' L'. req_size (mem s' b) = req_size (mem ?s2 b) \<and> real_size (mem s' b) = real_size (mem ?s2 b)"
      "bytes s' = bytes ?s2" "liballoc.more s' = liballoc.more ?s2"
    by (elim exE conjE) (rule that)
  have al: "allocated s' L' = insert ?Q (allocated s L) - {?P}" using f(3) m(6) by (simp add: allocated_def)
  have Q: "?Q \<in> allocated s' L'" unfolding al using m(5) by simp
  have ownq: "own_block s' L' N1 q (unat sz)" using block_memory(1) [OF f(2) Q] f(4) Q m(7) by simp
  have run: "kernel_realloc (liballoc_alloc (sys_free d)) (liballoc_free (sys_malloc d) (sys_free d)) p sz s = Some (q, s')"
    by (rule realloc_steps [OF assms(4) B(2,3) system_heap(7) [OF assms(1)] assms(7) c2 f(1)])
  have new: "?m (q + of_nat k) = bytes s (p + of_nat k)" if "k < n" for k
  proof -
    have "unat (of_nat k :: addr) = k" using that cp(1) by (intro unat_of_nat_small) (simp add: in_memory_def)
    then show ?thesis using that by (simp add: copied_def)
  qed
  have old: "?m a = bytes s a" if "unat a \<notin> {unat q ..< unat q + unat sz}" for a
  proof -
    have "\<not> unat (a - q) < n" using that unfolding in_memory_diff [OF cp(1)] by (auto simp: n_def)
    then show ?thesis by (simp add: copied_def)
  qed
  have bs: "bytes s' = ?m" using f(5) by simp
  have c: "\<forall>k < n. bytes s' (q + of_nat k) = bytes s (p + of_nat k)" unfolding bs using new by blast
  have k: "\<forall>a. unat a \<notin> {unat q ..< unat q + unat sz} \<longrightarrow> bytes s' a = bytes s a" unfolding bs using old by blast
  have qn: "q \<notin> set ns" using system_heap(2) [OF assms(1)] m(9) by (auto simp: given_def)
  have sz: "unat (req_size (mem s' ?Q)) = unat sz" using f(4) Q m(7) by simp
  have mo: "paging.more s' = paging.more s" using more_rest [OF more_frames(7) [OF f(6)]] m(8) by simp
  have ot: "\<forall>b \<in> allocated s L - {?P}. req_size (mem s' b) = req_size (mem s b)" using f(4) m(10) unfolding al by simp
  show ?thesis
    by (rule exI [of _ s'], rule exI [of _ ns1], rule exI [of _ L'], rule exI [of _ R1], rule exI [of _ F'], rule exI [of _ N1],
      rule exI [of _ fr1]) (intro conjI run f(2) ownq al c [unfolded n_def] k m(2) qn sz mo ot)
qed

text \<open>
  C19. \<open>kernel_realloc\<close> of a block in use to a size other than 0, while fewer than five whole blocks of
  each size class wait: it returns whenever \<open>kernel_malloc\<close> does for the new size. The result is a new
  block of that size; the old one is free; as many bytes as both hold are copied, and no byte
  outside the new block changes.
\<close>

theorem realloc_moves_block:
  assumes "system_ok s ns L R F N fr" "p - of_nat TAG_SIZE \<in> allocated s L" "p \<notin> set ns" "sz \<noteq> 0" "unat sz \<le> MAX_REQUEST"
    "\<And>i. i < MAXEXP \<Longrightarrow> l_completePages s ! i < MAXCOMPLETE" "sys_malloc (Suc d) sz s = Some (q, s1)"
  shows "\<exists>s' ns' L' R' F' N' fr'.
    kernel_realloc (liballoc_alloc (sys_free d)) (liballoc_free (sys_malloc d) (sys_free d)) p sz s = Some (q, s') \<and>
    system_ok s' ns' L' R' F' N' fr' \<and> own_block s' L' N' q (unat sz) \<and>
    allocated s' L' = insert (q - of_nat TAG_SIZE) (allocated s L) - {p - of_nat TAG_SIZE} \<and>
    (\<forall>k < min (unat sz) (unat (req_size (mem s (p - of_nat TAG_SIZE)))). bytes s' (q + of_nat k) = bytes s (p + of_nat k)) \<and>
    (\<forall>a. unat a \<notin> {unat q ..< unat q + unat sz} \<longrightarrow> bytes s' a = bytes s a)"
proof -
  have "\<forall>i < MAXEXP. l_completePages s ! i < MAXCOMPLETE" using assms(6) by blast
  from realloc_block [OF assms(1-5) this assms(7)] obtain s' ns' L' R' F' N' fr' where
    "kernel_realloc (liballoc_alloc (sys_free d)) (liballoc_free (sys_malloc d) (sys_free d)) p sz s = Some (q, s')"
    "system_ok s' ns' L' R' F' N' fr'" "own_block s' L' N' q (unat sz)"
    "allocated s' L' = insert (q - of_nat TAG_SIZE) (allocated s L) - {p - of_nat TAG_SIZE}"
    "\<forall>k < min (unat sz) (unat (req_size (mem s (p - of_nat TAG_SIZE)))). bytes s' (q + of_nat k) = bytes s (p + of_nat k)"
    "\<forall>a. unat a \<notin> {unat q ..< unat q + unat sz} \<longrightarrow> bytes s' a = bytes s a"
    by (elim exE conjE) (rule that)
  then show ?thesis by (intro exI conjI)
qed

text \<open>A block of 136 bytes grows to 200: 16 pages are mapped, and 16 more are taken.\<close>

theorem realloc_moves_block_witness:
  "\<exists>q s'. kernel_realloc (liballoc_alloc (sys_free 0)) (liballoc_free (sys_malloc 0) (sys_free 0)) (slot_addr 0 + of_nat TAG_SIZE) 200
      (block_state 16) = Some (q, s') \<and> (\<forall>k < 136. bytes s' (q + of_nat k) = bytes (block_state 16) (slot_addr 0 + of_nat TAG_SIZE + of_nat k))"
proof -
  let ?p = "slot_addr 0 + of_nat TAG_SIZE" and ?s = "block_state 16"
  have ok: "system_ok ?s [] {slot_addr 0} used_regions (\<lambda>_. []) 16 boot_frames" by (rule block_system_ok) simp_all
  have a: "?p - of_nat TAG_SIZE \<in> allocated ?s {slot_addr 0}" by (simp add: allocated_def block_state_def used_tag_def)
  have sz: "unat (200 :: uint64) \<le> MAX_REQUEST" by (simp add: MAX_REQUEST_def TAG_SIZE_def)
  have c: "l_completePages ?s ! i < MAXCOMPLETE" if "i < MAXEXP" for i
    using that by (simp add: block_state_def MAXCOMPLETE_def)
  have rs: "req_size (mem ?s (?p - of_nat TAG_SIZE)) = 136" by (simp add: block_state_def used_tag_def)
  have "unat (pages_for (ucast (200 :: uint64))) = 16"
    by (simp add: pages_for_def Let_def l_pageSize_def l_pageCount_def TAG_SIZE_def)
  moreover have "run_cost 16 16 = 16" by code_simp
  ultimately have ri: "rich (run_cost 16 (unat (pages_for (ucast (200 :: uint64))))) ?s"
    by (simp add: rich_def block_state_def paged_state_def boot_state_def MAX_BUFFER_FRAMES_def)
  obtain q s1 where run: "sys_malloc (Suc 0) 200 ?s = Some (q, s1)" using malloc_runs [OF ok sz _ ri, of 0] by auto
  have nin: "?p \<notin> set []" and nz: "(200 :: uint64) \<noteq> 0" by simp_all
  from realloc_moves_block [OF ok a nin nz sz c run] obtain s' where
    "kernel_realloc (liballoc_alloc (sys_free 0)) (liballoc_free (sys_malloc 0) (sys_free 0)) ?p 200 ?s = Some (q, s')"
    "\<forall>k < min (unat (200 :: uint64)) (unat (req_size (mem ?s (?p - of_nat TAG_SIZE)))). bytes s' (q + of_nat k) = bytes ?s (?p + of_nat k)"
    by blast
  moreover have "min (unat (200 :: uint64)) (unat (136 :: uint32)) = 136" by simp
  ultimately show ?thesis unfolding rs by (intro exI conjI) (assumption, simp only:)
qed

end
