(* ===== verification/System_Client.thy ===== *)
theory System_Client
  imports System_Realloc
begin

text \<open>
  What a caller of the heap needs when it makes several calls in a row: how many pages and frames one
  call of \<open>kernel_malloc\<close> can use up, so that the next one is known to return, and that a call leaves
  the state outside the memory system alone.
\<close>

section \<open>What one call uses up\<close>

lemma malloc_pages:
  assumes ok: "system_ok s ns L R F N fr" and sz: "unat sz \<le> MAX_REQUEST" and run: "sys_malloc (Suc d) sz s = Some (p, t)"
    and ok': "system_ok t ns' L' R' F' N' fr'" and n: "n = unat (pages_for (ucast sz))"
  shows "paging.more t = paging.more s \<and> (N' = N \<and> (\<forall>i. rich i t = rich i s) \<or>
    N' = N + n \<and> (\<forall>i. rich (run_cost N n + i) s \<longrightarrow> rich i t))"
proof -
  note S = system_heap [OF ok] and T = system_heap [OF ok']
  have N: "N < 2 ^ 18" "N' < 2 ^ 18" using S(11) T(11) by simp_all
  from malloc_more [OF run S(7)] show ?thesis
  proof (elim disjE exE conjE)
    assume m: "liballoc.more t = liballoc.more s"
    note M = more_frames [OF m]
    have "vm_ok t N fr" using S(9) vm_ok_cong [OF more_paging [OF M(7)]] by simp
    then show ?thesis using vm_unique [OF _ T(9) N] rich_more [OF m] more_rest [OF M(7)] by simp
  next
    fix q u
    let ?s1 = "liballoc_init (s\<lparr>alloc_lock := 1\<rparr>)"
    assume a: "liballoc_alloc (sys_free d) (pages_for (ucast sz)) ?s1 = Some (q, u)" and m: "liballoc.more t = liballoc.more u"
    have m1: "liballoc.more ?s1 = liballoc.more s" "bit (alloc_lock ?s1) 0" by (simp_all add: liballoc_init_def)
    note M1 = more_frames [OF m1(1)] and M = more_frames [OF m]
    have z: "unat (ucast sz :: uint32) = unat sz" using sz by (intro unat_ucast_small) (simp add: MAX_REQUEST_def)
    have "unat (pages_for (ucast sz)) < 2 ^ 20" using pages_for_bounds(2) [of "ucast sz"] sz z by simp
    moreover have "frames_inv ?s1 ns" "free_frames ?s1 ns \<subseteq> fr"
      using S(3,4) by (simp_all add: frames_inv_def free_frames_def buffered_def M1)
    moreover have "frame_lock0 ?s1 = 0" "frame_lock1 ?s1 = 0" "vm_ok ?s1 N fr"
      using S(5,6,9) by (simp_all add: M1 vm_ok_cong [OF more_paging [OF M1(7)]])
    ultimately obtain U where "vm_ok u (N + n) (fr - U)" "card U = run_cost N n" "U \<subseteq> free_frames ?s1 ns"
        "paging.more u = paging.more ?s1" "\<forall>i. rich (run_cost N n + i) ?s1 \<longrightarrow> rich i u" "free_frames ?s1 ns \<subseteq> fr"
      using frames_held.alloc_vm_ok [OF m1(2), of ns N fr "pages_for (ucast sz)" d "ucast (PAGE_PRESENT OR PAGE_RW)"] a S(10,11)
      by (auto simp: liballoc_alloc_def n took_def)
    then have u: "vm_ok u (N + n) (fr - U)" "card U = run_cost N n" "U \<subseteq> fr" "paging.more u = paging.more s"
        "\<forall>i. rich (run_cost N n + i) s \<longrightarrow> rich i u" using more_rest [OF M1(7)] rich_more [OF m1(1)] by (auto simp: n)
    have "card U \<le> card fr" using u(3) S(10) by (rule card_mono [rotated])
    then have "N + n < 2 ^ 18" using u(2) run_cost_ge [of n N] S(11) by linarith
    moreover have "vm_ok t (N + n) (fr - U)" using u(1) vm_ok_cong [OF more_paging [OF M(7)]] by simp
    ultimately have "N + n = N'" using vm_unique [OF _ T(9) _ N(2)] by blast
    then show ?thesis using u(4,5) more_rest [OF M(7)] rich_more [OF m] by simp
  qed
qed

section \<open>Calls that return\<close>

abbreviation sys_realloc :: "nat \<Rightarrow> addr \<Rightarrow> uint64 \<Rightarrow> 'a paging_scheme \<Rightarrow> (addr \<times> 'a paging_scheme) option" where
  "sys_realloc d \<equiv> kernel_realloc (liballoc_alloc (sys_free d)) (liballoc_free (sys_malloc d) (sys_free d))"

text \<open>
  A request for \<open>n\<close> pages, after \<open>N\<close> pages of the slot have been mapped: there are frames for it, and the
  last table is not exactly full. \<open>j\<close> more frames are there for later.
\<close>

definition ample :: "nat \<Rightarrow> nat \<Rightarrow> nat \<Rightarrow> 'a frames_scheme \<Rightarrow> bool" where
  "ample N n j s \<longleftrightarrow> (N = 0 \<or> N mod 512 \<noteq> 0) \<and> rich (run_cost N n + j) s"

lemma ample_runs:
  assumes "system_ok s ns L R F N fr" "unat sz \<le> MAX_REQUEST" "ample N (unat (pages_for (ucast sz))) j s"
  obtains p t where "sys_malloc (Suc d) sz s = Some (p, t)"
proof -
  have "\<not> (0 < N \<and> N mod 512 = 0)" "rich (run_cost N (unat (pages_for (ucast sz)))) s"
    using assms(3) rich_less [of "run_cost N (unat (pages_for (ucast sz))) + j" s] by (auto simp: ample_def)
  from malloc_runs [OF assms(1,2) this] show ?thesis using that by blast
qed

lemma own_block_size:
  assumes "own_block s L N p n"
  shows "unat (req_size (mem s (p - of_nat TAG_SIZE))) = n"
proof -
  have "payload s (p - of_nat TAG_SIZE) = {unat p ..< unat p + n}" using assms by (simp only: own_block_def)
  then have "card (payload s (p - of_nat TAG_SIZE)) = n" by simp
  then show ?thesis by (simp add: payload_def)
qed

lemma malloc_client:
  assumes ok: "system_ok s ns L R F N fr" and sz: "unat sz \<le> MAX_REQUEST"
    and n: "n = unat (pages_for (ucast sz))" and a: "ample N n j s"
  obtains p t ns' L' R' F' N' fr' where "sys_malloc (Suc d) sz s = Some (p, t)" "p \<noteq> NULL"
    "p - of_nat TAG_SIZE \<notin> allocated s L" "bytes t = bytes s" "\<forall>b \<in> allocated s L. req_size (mem t b) = req_size (mem s b)"
    "paging.more t = paging.more s" "system_ok t ns' L' R' F' N' fr'" "own_block t L' N' p (unat sz)"
    "allocated t L' = insert (p - of_nat TAG_SIZE) (allocated s L)" "set ns' \<subseteq> set ns" "p \<notin> set ns"
    "unat (req_size (mem t (p - of_nat TAG_SIZE))) = unat sz" "N' = N \<and> rich (run_cost N n + j) t \<or> N' = N + n \<and> rich j t"
proof -
  obtain p t where run: "sys_malloc (Suc d) sz s = Some (p, t)" using ample_runs [OF ok sz a [unfolded n]] .
  from malloc_system [OF ok sz run] obtain ns' L' R' F' N' fr' where
    m: "p \<noteq> NULL" "p - of_nat TAG_SIZE \<notin> allocated s L" "bytes t = bytes s"
      "\<forall>b \<in> allocated s L. req_size (mem t b) = req_size (mem s b)" "paging.more t = paging.more s"
      "system_ok t ns' L' R' F' N' fr'" "own_block t L' N' p (unat sz)"
      "allocated t L' = insert (p - of_nat TAG_SIZE) (allocated s L)" "set ns' \<subseteq> set ns"
    by (elim exE conjE) (rule that)
  have q: "p \<notin> set ns" using system_heap(2) [OF ok] m(2) by (auto simp: given_def)
  have "N' = N \<and> (\<forall>i. rich i t = rich i s) \<or> N' = N + n \<and> (\<forall>i. rich (run_cost N n + i) s \<longrightarrow> rich i t)"
    using malloc_pages [OF ok sz run m(6) n] by blast
  moreover have "rich (run_cost N n + j) s" using a by (simp add: ample_def)
  ultimately have "N' = N \<and> rich (run_cost N n + j) t \<or> N' = N + n \<and> rich j t" by auto
  moreover have "unat (req_size (mem t (p - of_nat TAG_SIZE))) = unat sz" by (rule own_block_size [OF m(7)])
  ultimately show ?thesis using that [OF run m q] by blast
qed

section \<open>The memory system inside a larger state\<close>

text \<open>The invariant looks at the fields of heap, frame allocator and page tables only.\<close>

lemma system_ok_fields:
  fixes s :: "'a paging_scheme" and t :: "'b paging_scheme"
  assumes "mem s = mem t" "l_freePages s = l_freePages t" "l_completePages s = l_completePages t" "l_initialized s = l_initialized t"
    "alloc_lock s = alloc_lock t" "frame_lock0 s = frame_lock0 t" "frame_lock1 s = frame_lock1 t" "qtd_buffer s = qtd_buffer t"
    "avaliableMemory s = avaliableMemory t" "frame_buffer s = frame_buffer t" "nodes s = nodes t" "cr3 s = cr3 t" "phys s = phys t"
  shows "system_ok s ns L R F N fr = system_ok t ns L R F N fr"
proof -
  have p: "pml4 s = pml4 t" "self_map s = self_map t" "points s = points t" "page_frame s = page_frame t" "empty_table s = empty_table t"
    "page_tables s = page_tables t"
    by (rule ext | simp add: assms(12,13) pml4_def self_map_def points_def page_frame_def empty_table_def page_tables_def del: walk.simps)+
  then have v: "vm_ok s N fr = vm_ok t N fr" unfolding vm_ok_def slot_ok_def using assms(13) by simp
  have "heap_ok (liballoc_init s) L R F = heap_ok (liballoc_init t) L R F"
    using assms(1-4) by (simp add: heap_but_def lists_ok_def counts_ok_def liballoc_init_def)
  moreover have "frames_inv s ns = frames_inv t ns" "free_frames s ns = free_frames t ns"
    using assms by (simp_all add: frames_inv_def free_frames_def buffered_def)
  moreover have "given s L A = given t L A" for A using assms(1) by (simp add: given_def allocated_def)
  ultimately show ?thesis using assms v by (simp add: system_ok_def heap_in_slot_def)
qed

end
