(* ===== verification/Setup.thy ===== *)
theory Setup
  imports Boot System_Client Gfx_Correct
begin

text \<open>
  Setting the memory up: \<open>loadMemoryInformation\<close> and \<open>setupPagination\<close> of \<open>pagination.cpp\<close> and the
  state of \<open>KernelController\<close>. The BIOS memory map is a table the loader left in low memory; reading
  it, the console and the memory system are separate views of the machine. \<open>sprintf\<close> is libc's: a
  parameter for each call.
\<close>

section \<open>The kernel's state\<close>

record kernel = paging +
  lock_var :: uint16
  maxMemory :: uint64
  currentProcess :: addr

definition kernel_lock :: "'a kernel_scheme \<Rightarrow> 'a kernel_scheme option" where
  "kernel_lock s = do { l \<leftarrow> acquireLock (lock_var s); Some (s\<lparr>lock_var := l\<rparr>) }"

definition kernel_unlock :: "'a kernel_scheme \<Rightarrow> 'a kernel_scheme" where
  "kernel_unlock s = s\<lparr>lock_var := releaseLock (lock_var s)\<rparr>"

definition setCurrentProcess :: "addr \<Rightarrow> 'a kernel_scheme \<Rightarrow> 'a kernel_scheme" where
  "setCurrentProcess process s = s\<lparr>currentProcess := process\<rparr>"

definition getCurrentProcess :: "'a kernel_scheme \<Rightarrow> addr" where
  "getCurrentProcess s = currentProcess s"

definition setMaxMemory :: "uint64 \<Rightarrow> 'a kernel_scheme \<Rightarrow> 'a kernel_scheme" where
  "setMaxMemory v s = s\<lparr>maxMemory := v\<rparr>"

definition getMaxMemory :: "'a kernel_scheme \<Rightarrow> uint64" where
  "getMaxMemory s = maxMemory s"

definition getFreeMemory :: "'a kernel_scheme \<Rightarrow> uint64 option" where
  "getFreeMemory s = freeMemory s"

section \<open>The memory map\<close>

record memory_map =
  space :: memory_space
  map_type :: uint32
  extendedAtb :: uint32

definition sizes_types :: "string list" where
  "sizes_types = [''B'', ''KB'', ''MB'', ''GB'', ''TB'']"

definition memory_types :: "string list" where
  "memory_types = [''NOT_DEFINED'', ''FREE'', ''RESERVED'', ''ACPI'', ''ACPI NVS'', ''BAD_MEMORY'']"

text \<open>\<open>double size = mem->space.size\<close>: 53 significant bits, ties to even.\<close>

fun bit_len :: "nat \<Rightarrow> nat" where
  "bit_len n = (if n = 0 then 0 else Suc (bit_len (n div 2)))"

declare bit_len.simps [simp del]

definition to_double :: "uint64 \<Rightarrow> nat" where
  "to_double w = (let
     n = unat w;
     k = bit_len n - 53;
     q = n div 2 ^ k;
     r = n mod 2 ^ k
   in (if 2 ^ k < 2 * r \<or> 2 * r = 2 ^ k \<and> odd q then q + 1 else q) * 2 ^ k)"

text \<open>The \<open>while\<close> loop: after \<open>t\<close> rounds \<open>size\<close> is \<open>n / 1024 ^ t\<close>, exactly.\<close>

function size_loop :: "nat \<Rightarrow> nat \<Rightarrow> nat" where
  "size_loop n t = (if 1024 * 1024 ^ t < n then size_loop n (t + 1) else t)"
  by pat_completeness auto
termination
proof (relation "measure (\<lambda>(n, t). n - t)")
  fix n t :: nat
  assume "1024 * 1024 ^ t < n"
  moreover have "t < 1024 ^ t" by (rule less_exp [THEN less_le_trans]) (simp add: power_mono)
  ultimately show "((n, t + 1), n, t) \<in> measure (\<lambda>(n, t). n - t)" by simp
qed simp

declare size_loop.simps [simp del]

definition usable :: "memory_map \<Rightarrow> bool" where
  "usable m \<longleftrightarrow> map_type m = 1 \<and> 0x100000 \<le> sp_base (space m)"

text \<open>
  The line printed for an entry: \<open>sprintf\<close> is given the base, the size as \<open>n / 1024 ^ t\<close> and the two
  names. An index past the end of a table of names reads other memory: \<open>None\<close>.
\<close>

type_synonym map_format = "uint64 \<Rightarrow> nat \<times> nat \<Rightarrow> string \<Rightarrow> string \<Rightarrow> uint8 list"

definition map_line :: "map_format \<Rightarrow> memory_map \<Rightarrow> uint8 list option" where
  "map_line fmt m = (let
     size = to_double (sp_size (space m));
     t = size_loop size 0
   in if t < length sizes_types \<and> unat (map_type m) < length memory_types
      then Some (fmt (sp_base (space m)) (size, t) (sizes_types ! t) (memory_types ! unat (map_type m)))
      else None)"

partial_function (option) load_loop :: "'a paging_ext malloc_fun \<Rightarrow> 'a paging_ext free_fun \<Rightarrow> map_format \<Rightarrow>
    (nat \<Rightarrow> memory_map) \<Rightarrow> nat \<Rightarrow> uint64 \<Rightarrow> 'b vga_scheme \<Rightarrow> 'a paging_scheme \<Rightarrow>
    (uint64 \<times> 'b vga_scheme \<times> 'a paging_scheme) option" where
  "load_loop mf ff fmt e820 x mx st s =
     (if sp_size (space (e820 x)) \<noteq> 0 then do {
        str \<leftarrow> map_line fmt (e820 x);
        st \<leftarrow> kprintStr 1 (10 + int x) str 0x0f st;
        if usable (e820 x) then do {
          let mx = mx + (sp_size (space (e820 x)) AND PAGE_MASK);
          s \<leftarrow> addMemorySpace mf ff (space (e820 x)) s;
          load_loop mf ff fmt e820 (x + 1) mx st s }
        else load_loop mf ff fmt e820 (x + 1) mx st s }
      else Some (mx, st, s))"

definition loadMemoryInformation :: "'a paging_ext malloc_fun \<Rightarrow> 'a paging_ext free_fun \<Rightarrow> map_format \<Rightarrow>
    (nat \<Rightarrow> memory_map) \<Rightarrow> 'b vga_scheme \<Rightarrow> 'a paging_scheme \<Rightarrow> (uint64 \<times> 'b vga_scheme \<times> 'a paging_scheme) option" where
  "loadMemoryInformation mf ff fmt e820 st s = load_loop mf ff fmt e820 0 0 st s"

section \<open>Setting the paging up\<close>

function show_units :: "uint64 \<Rightarrow> uint64 \<Rightarrow> nat \<Rightarrow> uint64 \<times> uint64 \<times> nat" where
  "show_units fre mx x =
     (if 1024 * 1024 < fre \<and> 1024 * 1024 < mx then show_units (fre div 1024) (mx div 1024) (x + 1) else (fre, mx, x))"
  by pat_completeness auto
termination
  by (relation "measure (\<lambda>(f, m, x). unat f)") (auto simp: word_less_nat_alt unat_div)

declare show_units.simps [simp del]

type_synonym free_format = "uint64 \<Rightarrow> char \<Rightarrow> uint64 \<Rightarrow> uint8 list"

definition free_line :: "free_format \<Rightarrow> uint64 \<Rightarrow> uint64 \<Rightarrow> uint8 list option" where
  "free_line fmt fre mx = (case show_units fre mx 0 of (fre, mx, x) \<Rightarrow>
     if x < 4 then Some (fmt fre ('' KMG'' ! x) mx) else None)"

text \<open>\<open>k\<close> is the address of \<open>kernelController\<close>.\<close>

definition setupPagination :: "'a kernel_ext paging_ext malloc_fun \<Rightarrow> 'a kernel_ext paging_ext free_fun \<Rightarrow> map_format \<Rightarrow>
    (uint64 \<Rightarrow> uint8 list) \<Rightarrow> free_format \<Rightarrow> (nat \<Rightarrow> memory_map) \<Rightarrow> addr \<Rightarrow> 'b vga_scheme \<Rightarrow> 'a kernel_scheme \<Rightarrow>
    ('b vga_scheme \<times> 'a kernel_scheme) option" where
  "setupPagination mf ff fmt fmt_0xlx fmt_free e820 k st s = do {
     s \<leftarrow> prepareKernelPaginationTable s;
     (mx, st, s) \<leftarrow> loadMemoryInformation mf ff fmt e820 st s;
     let s = setMaxMemory mx s;
     st \<leftarrow> kprinthex fmt_0xlx 20 20 k st;
     r \<leftarrow> getRealAddr k s;
     st \<leftarrow> kprinthex fmt_0xlx 20 21 r st;
     fre \<leftarrow> getFreeMemory s;
     str \<leftarrow> free_line fmt_free fre (getMaxMemory s);
     st \<leftarrow> kprintStr 0 23 str (background_code TEXT_BLACK OR text_code TEXT_WHITE) st;
     Some (st, s) }"

section \<open>The kernel's address\<close>

lemma l_idx_less: "l_idx n v < 512" "unat (l_idx n v) = idx n v"
proof -
  have "unat (drop_bit n v AND 0x1FF) < 512" using idx_nat [of n v] by (simp add: idx_def)
  then show "unat (l_idx n v) = idx n v" unfolding l_idx_def idx_def by (intro unat_ucast_small) simp
  then show "l_idx n v < 512" by (simp add: word_less_nat_alt idx_nat)
qed

lemma low_offset: "v AND NOT PAGE_MASK = v AND 0xFFF"
proof -
  have "(0xFFF :: uint64) = mask 12" by (simp add: mask_eq_decr_exp)
  then show ?thesis by (simp add: PAGE_MASK_mask)
qed

lemma getRealAddr_walk:
  assumes s: "self_map s"
  shows "getRealAddr v s = (case walk (phys s) (pml4 s) [idx 39 v, idx 30 v, idx 21 v, idx 12 v] of
      Some t \<Rightarrow> Some (t + (v AND 0xFFF))
    | None \<Rightarrow> do { e \<leftarrow> rd64 NULL s; Some (if isPresent e then getAddr e OR (v AND 0xFFF) else NULL) })"
proof -
  let ?is = "[idx 39 v, idx 30 v, idx 21 v]"
  note L = lookup_page [OF s l_idx_less(1) l_idx_less(1) l_idx_less(1) l_idx_less(1), unfolded l_idx_less(2), of 39 v 30 v 21 v 12 v]
  note M = mmu_arr(4) [OF s l_idx_less(1) l_idx_less(1) l_idx_less(1) l_idx_less(1), unfolded l_idx_less(2), of 39 v 30 v 21 v 12 v]
  have w: "walk (phys s) (pml4 s) [idx 39 v, idx 30 v, idx 21 v, idx 12 v] =
      do { t \<leftarrow> walk (phys s) (pml4 s) ?is; walk (phys s) t [idx 12 v] }"
    using walk_append [of "phys s" "pml4 s" ?is "[idx 12 v]"] by simp
  have o: "getAddr e OR (v AND 0xFFF) = getAddr e + (v AND 0xFFF)" for e
  proof (rule disjunctive_add_eq_or [symmetric], rule bit_eqI)
    fix n
    have "(0xFFF :: uint64) = mask 12" by (simp add: mask_eq_decr_exp)
    then have "bit (v AND 0xFFF) n \<Longrightarrow> n < 12" by (simp only: bit_and_iff bit_mask_iff)
    then show "bit (getAddr e AND (v AND 0xFFF)) n = bit (0 :: uint64) n"
      by (simp only: bit_and_iff bit_getAddr bit_0_eq bot_apply bot_bool_def) auto
  qed
  show ?thesis
  proof (cases "walk (phys s) (pml4 s) [idx 39 v, idx 30 v, idx 21 v, idx 12 v]")
    case None
    show ?thesis unfolding getRealAddr_def getEntryLevel_def L None by (simp add: low_offset)
  next
    case (Some q)
    then obtain t where t: "walk (phys s) (pml4 s) ?is = Some t" "isPresent (phys s (entry_at t (idx 12 v)))"
        "q = getAddr (phys s (entry_at t (idx 12 v)))"
      unfolding w by (auto simp: Let_def simp del: walk.simps(2) split: bind_splits if_splits) (auto simp: Let_def split: if_splits)
    show ?thesis unfolding getRealAddr_def getEntryLevel_def L Some
      by (simp add: rd64_def M Let_def low_offset o t del: walk.simps)
  qed
qed

lemma mmu_walk: "mmu s v = (if canonical v then do { t \<leftarrow> walk (phys s) (pml4 s) [idx 39 v, idx 30 v, idx 21 v, idx 12 v]; Some (t + (v AND 0xFFF)) } else None)"
  by (simp add: mmu_def pml4_def)

lemma getRealAddr_mapped: "self_map s \<Longrightarrow> mmu s v = Some q \<Longrightarrow> getRealAddr v s = Some q"
  unfolding mmu_walk by (simp add: getRealAddr_walk del: walk.simps split: bind_splits if_splits)

text \<open>
  \<open>getRealAddr\<close> looks at the low 48 bits of its argument only. The canonical address that has them is the
  one whose other bits are copies of bit 47.
\<close>

definition canonical_form :: "addr \<Rightarrow> addr" where
  "canonical_form v = (if bit v 47 then v OR NOT (mask 48) else v AND mask 48)"

lemma bit_canonical_form: "n < 64 \<Longrightarrow> bit (canonical_form v) n = bit v (min n 47)"
  by (cases "n < 48") (auto simp: canonical_form_def bit_simps min_def dest: less_antisym)

lemma canonical_bits: "canonical v \<longleftrightarrow> (\<forall>n < 64. bit v n = bit v (min n 47))"
proof -
  have b: "bit (drop_bit 47 v) n = (n < 17 \<and> bit v (47 + n))" for n
    using bit_imp_le_length [of v "47 + n"] by (auto simp: bit_drop_bit_eq)
  have m: "(0x1FFFF :: uint64) = mask 17" "bit (mask 17 :: uint64) n = (n < 17)" for n
    by (simp add: mask_eq_decr_exp) (simp only: bit_mask_iff, auto)
  have "drop_bit 47 v = mask 17 \<longleftrightarrow> (\<forall>n < 17. bit v (47 + n))"
  proof
    assume "drop_bit 47 v = mask 17"
    then show "\<forall>n < 17. bit v (47 + n)" using b m(2) by metis
  qed (intro bit_word_eqI, auto simp only: b m(2))
  moreover have "drop_bit 47 v = 0 \<longleftrightarrow> (\<forall>n < 17. \<not> bit v (47 + n))"
  proof
    assume "drop_bit 47 v = 0"
    then show "\<forall>n < 17. \<not> bit v (47 + n)" using b by (metis bit_0_eq bot_apply bot_bool_def)
  qed (intro bit_word_eqI, auto simp only: b bit_0_eq bot_apply bot_bool_def)
  ultimately have "canonical v \<longleftrightarrow> (\<forall>n < 17. bit v (47 + n) = bit v 47)"
    unfolding canonical_def m(1) by (metis (no_types) add.right_neutral zero_less_numeral)
  also have "\<dots> \<longleftrightarrow> (\<forall>n < 64. bit v n = bit v (min n 47))"
  proof
    assume a: "\<forall>n < 17. bit v (47 + n) = bit v 47"
    show "\<forall>n < 64. bit v n = bit v (min n 47)"
    proof (intro allI impI)
      fix n :: nat assume "n < 64"
      then show "bit v n = bit v (min n 47)" using a [rule_format, of "n - 47"] by (cases "n < 47") (auto simp: min_def)
    qed
  next
    assume a: "\<forall>n < 64. bit v n = bit v (min n 47)"
    show "\<forall>n < 17. bit v (47 + n) = bit v 47"
    proof (intro allI impI)
      fix n :: nat assume "n < 17"
      then show "bit v (47 + n) = bit v 47" using a [rule_format, of "47 + n"] by simp
    qed
  qed
  finally show ?thesis .
qed

lemma canonical_canonical_form: "canonical (canonical_form v)" "canonical v \<Longrightarrow> canonical_form v = v"
proof -
  show "canonical (canonical_form v)" by (simp add: canonical_bits bit_canonical_form)
  assume c: "canonical v"
  show "canonical_form v = v"
  proof (rule bit_word_eqI)
    fix n assume n: "n < LENGTH(64)"
    then have "n < 64" by simp
    from c [unfolded canonical_bits, rule_format, OF this] bit_canonical_form [OF this]
    show "bit (canonical_form v) n = bit v n" by (rule trans [OF _ sym, rotated])
  qed
qed

lemma canonical_form_low:
  "idx 39 (canonical_form v) = idx 39 v" "idx 30 (canonical_form v) = idx 30 v" "idx 21 (canonical_form v) = idx 21 v"
  "idx 12 (canonical_form v) = idx 12 v" "canonical_form v AND 0xFFF = v AND 0xFFF"
proof -
  have m: "(0x1FF :: uint64) = mask 9" "(0xFFF :: uint64) = mask 12" by (simp_all add: mask_eq_decr_exp)
  have i: "idx k (canonical_form v) = idx k v" if "k < 40" for k
  proof -
    have "drop_bit k (canonical_form v) AND mask 9 = drop_bit k v AND mask 9"
      by (rule bit_eqI) (use that in \<open>auto simp: bit_and_iff bit_drop_bit_eq bit_mask_iff bit_canonical_form min_def\<close>)
    then show ?thesis by (simp only: idx_def m)
  qed
  show "idx 39 (canonical_form v) = idx 39 v" "idx 30 (canonical_form v) = idx 30 v" "idx 21 (canonical_form v) = idx 21 v"
    "idx 12 (canonical_form v) = idx 12 v" by (rule i, simp)+
  show "canonical_form v AND 0xFFF = v AND 0xFFF"
    unfolding m by (rule bit_eqI) (auto simp: bit_and_iff bit_mask_iff bit_canonical_form min_def)
qed

section \<open>The loops of the report\<close>

lemma kprintStr_runs: "\<exists>st'. kprintStr x y s col st = Some st'"
  using print_loop_safe [of 0 s "mod_size x NUM_COLS" "mod_size y NUM_ROWS" col col st]
    mod_size_range [of NUM_COLS x] mod_size_range [of NUM_ROWS y] by (auto simp: kprintStr_def NUM_COLS_def NUM_ROWS_def)

lemma bit_len_le: "n < 2 ^ j \<Longrightarrow> bit_len n \<le> j"
proof (induction j arbitrary: n)
  case 0
  then show ?case by (simp add: bit_len.simps)
next
  case (Suc j)
  then show ?case using Suc.IH [of "n div 2"] by (subst bit_len.simps) auto
qed

lemma to_double_exact: "unat w < 2 ^ 53 \<Longrightarrow> to_double w = unat w"
  using bit_len_le [of "unat w" 53] by (simp add: to_double_def Let_def)

lemma size_loop_le: "n \<le> 1024 ^ (m + 1) \<Longrightarrow> t \<le> m \<Longrightarrow> size_loop n t \<le> m"
proof (induction n t rule: size_loop.induct)
  case (1 n t)
  show ?case
  proof (cases "1024 * 1024 ^ t < n")
    case True
    then have "(1024 :: nat) ^ (t + 1) < 1024 ^ (m + 1)" using 1(2) by (simp only: power_add power_one_right mult.commute)
    then have "t + 1 < m + 1" by (rule power_less_imp_less_exp [rotated]) simp
    then show ?thesis using 1(1) [OF True 1(2)] True by (subst size_loop.simps) simp
  qed (use 1(3) in \<open>subst size_loop.simps, simp\<close>)
qed

lemma map_line_runs:
  assumes "unat (sp_size (space m)) \<le> 2 ^ 50" "unat (map_type m) < 6"
  shows "\<exists>l. map_line fmt m = Some l"
proof -
  have "size_loop (unat (sp_size (space m))) 0 \<le> 4" by (rule size_loop_le) (use assms(1) in simp_all)
  then show ?thesis using assms by (simp add: map_line_def to_double_exact sizes_types_def memory_types_def Let_def)
qed

lemma show_units_le: "unat mx \<le> 2 ^ 20 * 1024 ^ j \<Longrightarrow> snd (snd (show_units fre mx x)) \<le> x + j"
proof (induction j arbitrary: fre mx x)
  case 0
  then have "\<not> 1024 * 1024 < mx" by (simp add: word_less_nat_alt)
  then show ?case by (subst show_units.simps) simp
next
  case (Suc j)
  have "unat (mx div 1024) = unat mx div 1024" by (simp add: unat_div)
  also have "\<dots> \<le> 2 ^ 20 * 1024 ^ j" using Suc.prems by simp
  finally show ?case using Suc.IH [of "mx div 1024" "fre div 1024" "x + 1"] by (subst show_units.simps) simp
qed

lemma free_line_runs: "unat mx \<le> 2 ^ 50 \<Longrightarrow> \<exists>l. free_line fmt fre mx = Some l"
  using show_units_le [of mx 3 fre 0] by (auto simp: free_line_def split: prod.splits)

lemma freeMemory_loop_runs: "chain (nodes s) p ns \<Longrightarrow> \<exists>r. freeMemory_loop acc p s = Some r"
proof (induction ns arbitrary: p acc)
  case Nil
  then show ?case by (subst freeMemory_loop.simps) simp
next
  case (Cons a ns)
  then show ?case by (subst freeMemory_loop.simps) (simp add: rdn_def)
qed

section \<open>The first range of memory\<close>

text \<open>The allocators' static state as the image is loaded.\<close>

definition bss_zero :: "'a paging_scheme \<Rightarrow> bool" where
  "bss_zero s \<longleftrightarrow> l_initialized s = 0 \<and> alloc_lock s = 0 \<and> frame_lock0 s = 0 \<and> frame_lock1 s = 0 \<and>
     qtd_buffer s = 0 \<and> avaliableMemory s = NULL \<and> length (frame_buffer s) = BUFFER_ENTRIES"

lemma bss_free: "bss_zero s \<Longrightarrow> frames_inv s [] \<and> free_frames s [] = {}"
  by (simp add: bss_zero_def frames_inv_def free_frames_def buffered_def listed_def in_order_def)

lemma bss_system_ok:
  assumes b: "bss_zero s" and v: "vm_ok s 0 fr" "finite fr" "card fr < 2 ^ 18"
  shows "system_ok s [] {} Map.empty (\<lambda>_. []) 0 fr"
proof -
  note B = b [unfolded bss_zero_def]
  have "heap_ok (liballoc_init s) {} Map.empty (\<lambda>_. [])"
    by (rule heap_empty) (use B in \<open>simp_all add: liballoc_init_def\<close>)
  then show ?thesis using B v bss_free [OF b]
    by (simp add: system_ok_def heap_in_slot_def in_slot_def given_def)
qed

lemma fill_buffer_full:
  assumes "unat (qtd_buffer s) + k = MAX_BUFFER_FRAMES" "frame_lock0 s = 0" "space_ok m" "4096 * k < unat (sp_size m)"
  shows "\<exists>m' s'. fill_buffer m s = Some (m', s') \<and> unat (qtd_buffer s') = MAX_BUFFER_FRAMES \<and>
    unat (sp_size m') = unat (sp_size m) - 4096 * k"
  using assms
proof (induction k arbitrary: s m)
  case 0
  then have "fill_buffer m s = Some (m, s)" by (subst fill_buffer.simps) simp
  then show ?case using 0 by simp
next
  case (Suc k)
  let ?s = "push_frame (sp_base m) s"
  have q: "unat (qtd_buffer s) < MAX_BUFFER_FRAMES" "unat (qtd_buffer s) < BUFFER_ENTRIES" using Suc.prems(1)
    by (simp_all add: BUFFER_ENTRIES_def)
  have z: "4096 \<le> unat (sp_size m)" "PAGE_SIZE < sp_size m" using Suc.prems(4) by (simp_all add: word_less_nat_alt)
  have "fill_buffer m s = fill_buffer (drop_page m) ?s"
    using addFrameInBuffer_eq [OF q(2) Suc.prems(2) space_okD(1) [OF Suc.prems(3)]] q(1) z(2)
    by (subst fill_buffer.simps) (simp add: drop_page_def)
  moreover have "unat (qtd_buffer ?s) = unat (qtd_buffer s) + 1"
    using q(1) unfolding push_frame_def by (simp add: MAX_BUFFER_FRAMES_def, subst unat_add_no_wrap) simp_all
  ultimately show ?case
    using Suc.IH [of ?s "drop_page m"] Suc.prems drop_page_ok [OF Suc.prems(3) z(1)] by simp
qed

lemma first_range_runs:
  assumes ok: "system_ok s [] {} Map.empty (\<lambda>_. []) 0 fr" and q: "qtd_buffer s = 0"
    and m: "space_ok (round_space m)" "set (pages_of (round_space m)) \<inter> free_frames s [] = {}" "set (pages_of (round_space m)) \<subseteq> fr"
      "4096 * 64 < unat (sp_size (round_space m))"
  shows "\<exists>s'. addMemorySpace (sys_malloc (Suc (Suc d))) (sys_free (Suc (Suc d))) m s = Some s' \<and> (\<exists>fr'. vm_ok s' 16 fr') \<and>
    (\<forall>k. k + 83 \<le> unat (sp_size (round_space m)) div 4096 \<longrightarrow> rich k s') \<and>
    (\<forall>j. l_completePages s' ! j \<le> l_completePages (liballoc_init s) ! j) \<and> paging.more s' = paging.more s"
proof -
  note S = system_heap [OF ok]
  obtain m1 s1 where F: "fill_buffer (round_space m) s = Some (m1, s1)" "frames_inv s1 []" "space_ok m1"
     "free_frames s1 [] \<union> set (pages_of m1) = free_frames s [] \<union> set (pages_of (round_space m))"
     and e: "s1 = s\<lparr>qtd_buffer := qtd_buffer s1, frame_buffer := frame_buffer s1\<rparr>"
    using fill_buffer_ok [OF S(3,5) m(1,2)] by blast
  have "\<exists>m' s'. fill_buffer (round_space m) s = Some (m', s') \<and> unat (qtd_buffer s') = MAX_BUFFER_FRAMES \<and>
      unat (sp_size m') = unat (sp_size (round_space m)) - 4096 * 64"
    by (rule fill_buffer_full [OF _ S(5) m(1,4)]) (simp add: q MAX_BUFFER_FRAMES_def)
  then have Q: "unat (qtd_buffer s1) = 64" "0 < unat (sp_size m1)" "unat (sp_size m1) = unat (sp_size (round_space m)) - 4096 * 64"
    using F(1) m(4) by (simp_all add: MAX_BUFFER_FRAMES_def)
  have "4096 \<le> unat (sp_size m1)" by (rule dvd_imp_le) (use F(3) Q(2) in \<open>simp_all add: space_ok_def\<close>)
  then have z: "\<not> sp_size m1 < PAGE_SIZE" by (simp add: word_less_nat_alt)
  have E: "frame_lock0 s1 = 0" "frame_lock1 s1 = 0" "same_heap s s1" "frames.more s1 = frames.more s"
    by (subst e, simp add: S(5,6) same_heap_def)+
  have ok1: "system_ok s1 [] {} Map.empty (\<lambda>_. []) 0 fr"
    using ok F(2,4) m(3) S(4) E(1,2) heap_in_slot_cong [OF E(3,4)] unfolding system_ok_def by blast
  have sz: "unat (24 :: uint64) \<le> MAX_REQUEST" by (simp add: MAX_REQUEST_def TAG_SIZE_def)
  have pg: "unat (pages_for (ucast (24 :: uint64))) = 16" "run_cost 0 16 = 19"
    by (simp_all add: pages_for_def Let_def l_pageSize_def l_pageCount_def TAG_SIZE_def, code_simp)
  have ri: "rich (run_cost 0 16 + 13) s1" by (simp add: pg(2) rich_def Q(1) MAX_BUFFER_FRAMES_def)
  then have "rich (run_cost 0 (unat (pages_for (ucast (24 :: uint64))))) s1" unfolding pg(1) by (rule rich_less) simp
  then obtain p t where p: "sys_malloc (Suc (Suc d)) 24 s1 = Some (p, t)" using malloc_runs [OF ok1 sz, of "Suc d"] by blast
  have p0: "p \<noteq> NULL" by (rule malloc_real [OF ok1 sz p])
  note S1 = system_heap [OF ok1]
  from sys_malloc_heap [OF S1(1,3,4,5,6) sz p] obtain ns1 where t: "frames_inv t ns1" "set ns1 \<subseteq> set []" "frame_lock1 t = 0" by blast
  then have a: "avaliableMemory t = NULL" by (simp add: frames_inv_def)
  from malloc_system [OF ok1 sz p] obtain ns2 L2 R2 F2 N2 fr2 where
    M: "system_ok t ns2 L2 R2 F2 N2 fr2" "own_block t L2 N2 p (unat (24 :: uint64))" by blast
  have "unat p \<in> {unat p ..< unat p + unat (24 :: uint64)}" by simp
  moreover have "{unat p ..< unat p + unat (24 :: uint64)} \<subseteq> {unat (slot_addr 0) ..< unat (slot_addr 0) + 4096 * N2}"
    using M(2) unfolding own_block_def by blast
  ultimately have "0 < N2" by (cases N2) auto
  then have N2: "N2 = 16" "rich 13 t" "paging.more t = paging.more s1"
    using malloc_pages [OF ok1 sz p M(1) refl] ri unfolding pg(1) by auto
  have q: "45 \<le> unat (qtd_buffer t)"
    using N2(2) a by (auto simp: rich_def head_pages_def MAX_BUFFER_FRAMES_def)
  obtain u where u: "addMemorySpace (sys_malloc (Suc (Suc d))) (sys_free (Suc (Suc d))) m s = Some u"
    "u = t\<lparr>nodes := nodes u, avaliableMemory := p, frame_lock1 := 0\<rparr>" "fdata (nodes u p) = m1"
    using p p0 t(3) a z
    by (simp add: addMemorySpace_def F(1) updn_def lock1_def unlock1_def list_push.simps del: sys_malloc.simps sys_free.simps)
  have U: "qtd_buffer u = qtd_buffer t" "avaliableMemory u = p" "liballoc.truncate u = liballoc.truncate t" "frames.more u = frames.more t"
    by (subst u(2), simp add: liballoc.truncate_def)+
  have "vm_ok u 16 fr2" using system_heap(9) [OF M(1)] vm_ok_cong [OF more_paging [OF U(4)]] unfolding N2(1) by simp
  moreover have "rich k u" if "k + 83 \<le> unat (sp_size (round_space m)) div 4096" for k
  proof -
    have "(unat (sp_size (round_space m)) - 4096 * 64) div 4096 = unat (sp_size (round_space m)) div 4096 - 64"
    proof -
      obtain r where "unat (sp_size (round_space m)) = 4096 * 64 + r" using m(4) less_imp_le le_Suc_ex by blast
      then show ?thesis by simp
    qed
    then have "head_pages u = unat (sp_size (round_space m)) div 4096 - 64" using p0 U(2) u(3) Q(3) by (simp add: head_pages_def)
    moreover have "64 + k \<le> b + (n - 64)" if "k + 83 \<le> n" "45 \<le> b" for n b :: nat using that by simp
    ultimately have "64 + k \<le> unat (qtd_buffer u) + head_pages u" using that q U(1) by simp
    then show ?thesis by (simp add: rich_def MAX_BUFFER_FRAMES_def)
  qed
  moreover have "l_completePages u ! j \<le> l_completePages (liballoc_init s) ! j" for j
  proof -
    have "l_completePages u = l_completePages t" by (subst u(2)) simp
    moreover have "l_completePages (liballoc_init s1) = l_completePages (liballoc_init s)" by (subst e, simp add: liballoc_init_def)
    ultimately show ?thesis using malloc_counts [OF ok1 sz p, of j] by simp
  qed
  moreover have "paging.more u = paging.more s"
    using more_rest [OF U(4)] N2(3) more_rest [OF E(4)] by simp
  ultimately show ?thesis using u(1) by blast
qed

section \<open>The whole memory map\<close>

text \<open>A map the report can print: \<open>n\<close> entries with names for their type and size.\<close>

definition map_ok :: "(nat \<Rightarrow> memory_map) \<Rightarrow> nat \<Rightarrow> bool" where
  "map_ok e820 n \<longleftrightarrow> sp_size (space (e820 n)) = 0 \<and>
     (\<forall>x < n. sp_size (space (e820 x)) \<noteq> 0 \<and> unat (sp_size (space (e820 x))) \<le> 2 ^ 50 \<and> unat (map_type (e820 x)) < 6)"

lemma load_skips:
  assumes "map_ok e820 n" "x + k \<le> n" "\<And>y. x \<le> y \<Longrightarrow> y < x + k \<Longrightarrow> \<not> usable (e820 y)"
  shows "\<exists>st'. load_loop mf ff fmt e820 x mx st s = load_loop mf ff fmt e820 (x + k) mx st' s"
  using assms(2,3)
proof (induction k arbitrary: x st)
  case 0
  then show ?case by auto
next
  case (Suc k)
  have x: "sp_size (space (e820 x)) \<noteq> 0" "unat (sp_size (space (e820 x))) \<le> 2 ^ 50" "unat (map_type (e820 x)) < 6"
    using assms(1) Suc.prems(1) by (simp_all add: map_ok_def)
  obtain l where l: "map_line fmt (e820 x) = Some l" using map_line_runs [OF x(2,3)] by blast
  obtain st1 where st1: "kprintStr 1 (10 + int x) l 0x0f st = Some st1" using kprintStr_runs by blast
  have "\<exists>st'. load_loop mf ff fmt e820 (x + 1) mx st1 s = load_loop mf ff fmt e820 (x + 1 + k) mx st' s"
    by (rule Suc.IH) (use Suc.prems in auto)
  moreover have "load_loop mf ff fmt e820 x mx st s = load_loop mf ff fmt e820 (x + 1) mx st1 s"
    using x(1) l st1 Suc.prems(2) [of x] by (subst load_loop.simps) simp
  ultimately show ?case by simp
qed

text \<open>One range is usable: the report is that of its one call of \<open>addMemorySpace\<close>.\<close>

lemma load_one:
  assumes m: "map_ok e820 n" "i < n" "usable (e820 i)" "\<And>x. x < n \<Longrightarrow> x \<noteq> i \<Longrightarrow> \<not> usable (e820 x)"
    and run: "addMemorySpace mf ff (space (e820 i)) s = Some s'"
  shows "\<exists>st'. loadMemoryInformation mf ff fmt e820 st s = Some (sp_size (space (e820 i)) AND PAGE_MASK, st', s')"
proof -
  have x: "sp_size (space (e820 i)) \<noteq> 0" "unat (sp_size (space (e820 i))) \<le> 2 ^ 50" "unat (map_type (e820 i)) < 6"
    using m(1,2) by (simp_all add: map_ok_def)
  obtain st1 where 1: "load_loop mf ff fmt e820 0 0 st s = load_loop mf ff fmt e820 i 0 st1 s"
    using load_skips [OF m(1), of 0 i mf ff fmt 0 st s] m(2,4) by auto
  obtain l where l: "map_line fmt (e820 i) = Some l" using map_line_runs [OF x(2,3)] by blast
  obtain st2 where st2: "kprintStr 1 (10 + int i) l 0x0f st1 = Some st2" using kprintStr_runs by blast
  let ?mx = "sp_size (space (e820 i)) AND PAGE_MASK"
  have 2: "load_loop mf ff fmt e820 i 0 st1 s = load_loop mf ff fmt e820 (i + 1) ?mx st2 s'"
    using x(1) l st2 m(3) run by (subst load_loop.simps) simp
  have "i + 1 + (n - (i + 1)) = n" using m(2) by simp
  then obtain st3 where 3: "load_loop mf ff fmt e820 (i + 1) ?mx st2 s' = load_loop mf ff fmt e820 n ?mx st3 s'"
    using load_skips [OF m(1), of "i + 1" "n - (i + 1)" mf ff fmt ?mx st2 s'] m(4) by auto
  have 4: "load_loop mf ff fmt e820 n ?mx st3 s' = Some (?mx, st3, s')"
    using m(1) by (subst load_loop.simps) (simp add: map_ok_def)
  show ?thesis unfolding loadMemoryInformation_def 1 2 3 4 by blast
qed

lemma system_ok_maxMemory: "system_ok (s\<lparr>maxMemory := v\<rparr>) ns L R F N fr = system_ok s ns L R F N fr"
proof -
  have "heap_ok (liballoc_init (s\<lparr>maxMemory := v\<rparr>)) L R F = heap_ok (liballoc_init s) L R F"
    by (rule heap_but_cong) (simp_all add: liballoc_init_def)
  moreover have "vm_ok (s\<lparr>maxMemory := v\<rparr>) N fr = vm_ok s N fr" by (rule vm_ok_cong) simp_all
  ultimately show ?thesis
    by (simp add: system_ok_def heap_in_slot_def given_def allocated_def frames_inv_def free_frames_def buffered_def)
qed

lemma unat_page: "unat (a AND PAGE_MASK) = 4096 * (unat a div 4096)"
proof -
  have "a AND PAGE_MASK = push_bit 12 (drop_bit 12 a)" by (rule bit_eqI) (auto simp: bit_simps)
  moreover have "unat a div 4096 * 4096 < 2 ^ 64"
    using unat_lt64 [of a] div_times_less_eq_dividend [of "unat a" 4096] by simp
  ultimately show ?thesis using unat_lt64 [of a]
    by (simp add: unsigned_push_bit_eq unsigned_drop_bit_eq take_bit_eq_mod del: push_bit_of_nat drop_bit_of_nat)
      (simp add: push_bit_eq_mult drop_bit_eq_div)
qed

lemma high_idx:
  assumes "KERNEL_OFFSET \<le> v"
  shows "idx 39 v \<noteq> 510"
proof -
  have "unat KERNEL_OFFSET \<le> unat v" using assms by (simp add: word_le_nat_alt)
  moreover have "unat v < 2 ^ 64" using unat_lt64 [of v] by simp
  ultimately have "unat v div 2 ^ 39 = 0x1FFFFFF" by (simp add: KERNEL_OFFSET_def)
  then show ?thesis unfolding idx_nat by simp
qed

text \<open>Once the map is loaded, the rest of \<open>setupPagination\<close> reports and returns.\<close>

lemma setup_reports:
  assumes pr: "prepareKernelPaginationTable s = Some s1" and ld: "loadMemoryInformation mf ff fmt e820 st s1 = Some (mx, st2, s2)"
    and ok: "system_ok s2 ns L R F N fr" and k: "mmu s2 k = Some q" and mx: "unat mx \<le> 2 ^ 50"
  shows "\<exists>st'. setupPagination mf ff fmt fmt_hex fmt_free e820 k st s = Some (st', s2\<lparr>maxMemory := mx\<rparr>)"
proof -
  let ?s3 = "s2\<lparr>maxMemory := mx\<rparr>"
  have ok3: "system_ok ?s3 ns L R F N fr" using ok system_ok_maxMemory by blast
  have sm: "self_map ?s3" using system_heap(9) [OF ok3] slot_self unfolding vm_ok_def by blast
  have "mmu ?s3 k = mmu s2 k" by (simp add: mmu_def)
  then have "mmu ?s3 k = Some q" using k by simp
  note ra = getRealAddr_mapped [OF sm this]
  obtain st3 where st3: "kprinthex fmt_hex 20 20 k st2 = Some st3" unfolding kprinthex_def using kprintStr_runs by blast
  obtain st4 where st4: "kprinthex fmt_hex 20 21 q st3 = Some st4" unfolding kprinthex_def using kprintStr_runs by blast
  have "chain (nodes ?s3) (avaliableMemory ?s3) ns" using system_heap(3) [OF ok3] by (simp add: frames_inv_def)
  from freeMemory_loop_runs [OF this] obtain fre where fre: "getFreeMemory ?s3 = Some fre"
    unfolding getFreeMemory_def freeMemory_def by blast
  obtain l where l: "free_line fmt_free fre mx = Some l" using free_line_runs [OF mx] by blast
  obtain st5 where "kprintStr 0 23 l (background_code TEXT_BLACK OR text_code TEXT_WHITE) st4 = Some st5" using kprintStr_runs by blast
  then show ?thesis
    unfolding setupPagination_def using pr ld st3 ra st4 fre l by (simp add: setMaxMemory_def getMaxMemory_def)
qed

lemma setupPagination_runs:
  assumes "bss_zero s" and m: "map_ok e820 n" "i < n" "usable (e820 i)" "\<forall>x < n. x \<noteq> i \<longrightarrow> \<not> usable (e820 x)"
    and r: "rg = round_space (space (e820 i))" "space_ok rg" "0x40000 < unat (sp_size rg)" "unat (sp_size rg) < 2 ^ 30"
    and e: "\<forall>f. unat (f :: addr) \<in> set (pages_of rg) \<longrightarrow> empty_table s f"
    and k: "KERNEL_OFFSET \<le> k" "k - KERNEL_OFFSET < 0x200000"
  shows "\<exists>st' s' ns L R F N used.
    setupPagination (sys_malloc (d + 2)) (sys_free (d + 2)) fmt fmt_hex fmt_free e820 k st (SwitchToLongMode s) = Some (st', s') \<and>
    system_ok s' ns L R F N (set (pages_of rg) - used) \<and> free_frames s' ns = set (pages_of rg) - used \<and>
    used \<subseteq> set (pages_of rg) \<and> card used = 19 \<and>
    getMaxMemory s' = sp_size (space (e820 i)) AND PAGE_MASK \<and>
    (\<forall>v. KERNEL_OFFSET \<le> v \<and> v - KERNEL_OFFSET < 0x200000 \<longrightarrow> mmu s' v = Some (v - KERNEL_OFFSET)) \<and> N = 16 \<and>
    (\<forall>k. k + 83 \<le> unat (sp_size rg) div 4096 \<longrightarrow> rich k s') \<and> (\<forall>j < MAXEXP. l_completePages s' ! j \<le> 0) \<and> lock_var s' = lock_var s"
proof -
  let ?fr = "set (pages_of rg)"
  let ?s1 = "s\<lparr>cr3 := 0x1000, phys := prepared_mem (phys s)\<rparr>"
  have lo: "aligned f \<and> 0x5000 \<le> unat f \<and> empty_table s f" if f: "unat (f :: addr) \<in> ?fr" for f
  proof -
    obtain j where j: "unat f = unat (sp_base rg) + 4096 * j" using f by (auto simp: pages_of_def)
    have "unat (sp_base rg) = 4096 * (unat (sp_base (space (e820 i))) div 4096)" by (simp add: r(1) round_space_def unat_page)
    moreover have "0x100000 \<le> unat (sp_base (space (e820 i)))" using m(3) by (simp add: usable_def word_le_nat_alt)
    ultimately have "0x100000 \<le> unat (sp_base rg)" by simp
    then show ?thesis using e f j space_okD(1) [OF r(2)] by simp
  qed
  have fin: "finite ?fr" "card ?fr < 2 ^ 18"
  proof -
    have "card ?fr \<le> length (pages_of rg)" by (rule card_length)
    then show "card ?fr < 2 ^ 18" using r(4) by (simp add: pages_of_def)
  qed simp
  have b1: "bss_zero ?s1" using assms(1) by (simp add: bss_zero_def)
  note ok = bss_system_ok [OF b1 prepared_vm_ok [OF lo] fin]
  have F: "free_frames ?s1 [] = {}" using bss_free [OF b1] by simp
  have q: "qtd_buffer ?s1 = 0" using b1 by (simp add: bss_zero_def)
  have d: "d + 2 = Suc (Suc d)" by simp
  from first_range_runs [OF ok q, of "space (e820 i)" d] obtain s2 fr2 where
    s2: "addMemorySpace (sys_malloc (d + 2)) (sys_free (d + 2)) (space (e820 i)) ?s1 = Some s2"
    and R: "vm_ok s2 16 fr2" "\<And>k. k + 83 \<le> unat (sp_size rg) div 4096 \<Longrightarrow> rich k s2"
      "\<And>j. l_completePages s2 ! j \<le> l_completePages (liballoc_init ?s1) ! j" "paging.more s2 = paging.more ?s1"
    using F r(2,3) unfolding r(1) d by auto
  have "\<exists>ns' L' R' F' N' used. system_ok s2 ns' L' R' F' N' (?fr - used) \<and>
      free_frames s2 ns' = free_frames ?s1 [] \<union> ?fr - used \<and> used \<subseteq> free_frames ?s1 [] \<union> ?fr \<and> maps_kept ?s1 s2 \<and>
      (N' = 0 \<or> N' = 0 + 16) \<and> card used = run_cost 0 (N' - 0)"
    unfolding r(1) by (rule addMemorySpace_system [OF ok [unfolded r(1)] _ _ _ _ s2]) (use r(2) F in \<open>simp_all add: r(1)\<close>)
  then obtain ns L R FF N used where
    S: "system_ok s2 ns L R FF N (?fr - used)" "free_frames s2 ns = ?fr - used" "maps_kept ?s1 s2"
      "used \<subseteq> ?fr" "card used = run_cost 0 N" unfolding F by auto
  have "\<forall>x. x < n \<longrightarrow> x \<noteq> i \<longrightarrow> \<not> usable (e820 x)" using m(4) by blast
  then obtain st2 where ld: "loadMemoryInformation (sys_malloc (d + 2)) (sys_free (d + 2)) fmt e820 st ?s1 =
      Some (sp_size (space (e820 i)) AND PAGE_MASK, st2, s2)"
    using load_one [OF m(1-3) _ s2, of fmt st] by blast
  let ?mx = "sp_size (space (e820 i)) AND PAGE_MASK"
  let ?s3 = "s2\<lparr>maxMemory := ?mx\<rparr>"
  have kept: "mmu s2 v = Some (v - KERNEL_OFFSET)" if v: "KERNEL_OFFSET \<le> v" "v - KERNEL_OFFSET < 0x200000" for v
    by (rule maps_kept_mmu [OF S(3)]) (use prepared_mmu [OF high_idx [OF v(1)], of s] v in simp)
  have "unat ?mx \<le> unat (sp_size (space (e820 i)))" unfolding unat_page by simp
  also have "\<dots> \<le> 2 ^ 50" using m(1,2) by (simp add: map_ok_def)
  finally have "unat ?mx \<le> 2 ^ 50" .
  from setup_reports [OF prepare_runs ld S(1) kept [OF k] this] obtain st' where
    "setupPagination (sys_malloc (d + 2)) (sys_free (d + 2)) fmt fmt_hex fmt_free e820 k st (SwitchToLongMode s) = Some (st', ?s3)" by blast
  moreover have "mmu ?s3 v = mmu s2 v" for v by (simp add: mmu_def)
  moreover have "free_frames ?s3 ns = ?fr - used" using S(2) by (simp add: free_frames_def buffered_def)
  moreover have "getMaxMemory ?s3 = ?mx" by (simp add: getMaxMemory_def)
  moreover have "system_ok ?s3 ns L R FF N (?fr - used)" using S(1) system_ok_maxMemory by blast
  moreover have N: "N = 16" by (rule vm_unique [OF system_heap(9) [OF S(1)] R(1)]) (use system_heap(11) [OF S(1)] in simp_all)
  moreover have "card used = 19"
  proof -
    have "run_cost 0 16 = 19" by code_simp
    then show ?thesis using S(5) N by simp
  qed
  moreover note S(4)
  moreover have "rich k ?s3" if "k + 83 \<le> unat (sp_size rg) div 4096" for k using R(2) [OF that] rich_cong [of ?s3 s2] by simp
  moreover have "l_completePages ?s3 ! j \<le> 0" if "j < MAXEXP" for j
    using R(3) [of j] that b1 by (simp add: bss_zero_def liballoc_init_def)
  moreover have "lock_var ?s3 = lock_var s" using R(4) by (cases s2; cases s; simp)
  ultimately show ?thesis using kept by (intro exI conjI allI impI) (assumption | simp)+
qed

text \<open>
  C16. Setting the memory up. On the loader's tables, with the allocators' static state zero and a
  memory map that has one usable range of more than 64 pages (and less than 1 GB, what the
  page-table invariant covers), \<open>setupPagination\<close> returns: no call faults, spins or deadlocks. It leaves the
  invariant the heap, the page tables and the frame allocator are proved under; the free frames are
  the whole pages of the range, less the 19 the heap has taken for its first block (16 pages and three page tables); the recorded size is
  the range's; and the kernel's first two megabytes stay mapped. The heap has 16 pages, all but 83 of the
  range's pages can be handed out before a node is freed, and no whole block waits in it.
\<close>

theorem memory_set_up:
  assumes "bss_zero s" and m: "map_ok e820 n" "i < n" "usable (e820 i)" "\<forall>x < n. x \<noteq> i \<longrightarrow> \<not> usable (e820 x)"
    and r: "rg = round_space (space (e820 i))" "space_ok rg" "0x40000 < unat (sp_size rg)" "unat (sp_size rg) < 2 ^ 30"
    and e: "\<forall>f. unat (f :: addr) \<in> set (pages_of rg) \<longrightarrow> empty_table s f"
    and k: "KERNEL_OFFSET \<le> k" "k - KERNEL_OFFSET < 0x200000"
  shows "\<exists>st' s' ns L R F N used.
    setupPagination (sys_malloc (d + 2)) (sys_free (d + 2)) fmt fmt_hex fmt_free e820 k st (SwitchToLongMode s) = Some (st', s') \<and>
    system_ok s' ns L R F N (set (pages_of rg) - used) \<and> free_frames s' ns = set (pages_of rg) - used \<and>
    used \<subseteq> set (pages_of rg) \<and> card used = 19 \<and>
    getMaxMemory s' = sp_size (space (e820 i)) AND PAGE_MASK \<and>
    (\<forall>v. KERNEL_OFFSET \<le> v \<and> v - KERNEL_OFFSET < 0x200000 \<longrightarrow> mmu s' v = Some (v - KERNEL_OFFSET)) \<and> N = 16 \<and>
    (\<forall>k. k + 83 \<le> unat (sp_size rg) div 4096 \<longrightarrow> rich k s') \<and> (\<forall>j < MAXEXP. l_completePages s' ! j \<le> 0) \<and> lock_var s' = lock_var s"
  by (rule setupPagination_runs [OF assms])

text \<open>A machine of 128 MB, with other contents below the first megabyte.\<close>

definition example_map :: "nat \<Rightarrow> memory_map" where
  "example_map x = (\<lambda>(b, l, t). \<lparr>space = \<lparr>sp_base = b, sp_size = l\<rparr>, map_type = t, extendedAtb = 1\<rparr>)
     (if x < 4 then [(0, 0x9FC00, 1), (0x9FC00, 0x400, 2), (0x100000, 0x7EE0000, 1), (0x7FE0000, 0x20000, 2)] ! x else (0, 0, 0))"

definition example_machine :: kernel where
  "example_machine = \<lparr>mem = (\<lambda>_. \<lparr>magic = 0, req_size = 0, real_size = 0, index = 0, split_left = 0, split_right = 0,
       next_tag = 0, prev_tag = 0\<rparr>),
     bytes = (\<lambda>_. 7), l_freePages = [], l_completePages = [], l_initialized = 0, alloc_lock = 0,
     frame_lock0 = 0, frame_lock1 = 0, qtd_buffer = 0, avaliableMemory = NULL,
     frame_buffer = replicate 80 0, nodes = (\<lambda>_. \<lparr>fdata = \<lparr>sp_base = 0, sp_size = 0\<rparr>, next_frame = 0\<rparr>),
     cr3 = 0x77000, phys = (\<lambda>p. if p < 0x100000 then 7 else 0),
     lock_var = 0, maxMemory = 0, currentProcess = 0\<rparr>"

lemma example_map_ok:
  "map_ok example_map 4" "usable (example_map 2)" "\<forall>x < 4. x \<noteq> 2 \<longrightarrow> \<not> usable (example_map x)"
  "round_space (space (example_map 2)) = \<lparr>sp_base = 0x100000, sp_size = 0x7EE0000\<rparr>"
proof -
  have c: "x < 4 \<longleftrightarrow> x = 0 \<or> x = 1 \<or> x = 2 \<or> x = 3" for x :: nat by auto
  show "map_ok example_map 4" "usable (example_map 2)" "\<forall>x < 4. x \<noteq> 2 \<longrightarrow> \<not> usable (example_map x)"
    unfolding c by (auto simp: map_ok_def c usable_def example_map_def)
  show "round_space (space (example_map 2)) = \<lparr>sp_base = 0x100000, sp_size = 0x7EE0000\<rparr>"
    by (simp add: example_map_def round_space_def PAGE_MASK_def PAGE_SIZE_def)
qed

lemma example_empty:
  "\<forall>f. unat (f :: addr) \<in> set (pages_of \<lparr>sp_base = 0x100000, sp_size = 0x7EE0000\<rparr>) \<longrightarrow> empty_table example_machine f"
proof (intro allI impI)
  fix f :: addr
  assume "unat f \<in> set (pages_of \<lparr>sp_base = 0x100000, sp_size = 0x7EE0000\<rparr>)"
  then obtain j where j: "unat f = 0x100000 + 4096 * j" by (auto simp: pages_of_def)
  then have "aligned f" by simp
  then have "\<not> entry_at f i < 0x100000" if "i < 512" for i
    using unat_entry_at [OF _ that, of f] j by (simp add: word_less_nat_alt)
  then show "empty_table example_machine f" by (simp add: empty_table_def example_machine_def isPresent_bit)
qed

lemma example_bss: "bss_zero example_machine"
  by (simp add: bss_zero_def example_machine_def BUFFER_ENTRIES_def MAX_BUFFER_FRAMES_def)

theorem memory_set_up_witness:
  "\<exists>st' s' ns L R F N used.
    setupPagination (sys_malloc 2) (sys_free 2) (\<lambda>_ _ _ _. []) (\<lambda>_. []) (\<lambda>_ _ _. []) example_map (KERNEL_OFFSET + 0x9000)
      example_vga (SwitchToLongMode example_machine) = Some (st', s') \<and>
    system_ok s' ns L R F N (set (pages_of \<lparr>sp_base = 0x100000, sp_size = 0x7EE0000\<rparr>) - used) \<and> getMaxMemory s' = 0x7EE0000"
proof -
  have r: "(sp_size (space (example_map 2)) AND PAGE_MASK) = 0x7EE0000" by (simp add: example_map_def PAGE_MASK_def PAGE_SIZE_def)
  have two: "sys_malloc 2 = sys_malloc (Suc (Suc 0))" "sys_free 2 = sys_free (Suc (Suc 0))" by (simp_all only: numeral_2_eq_2)
  have k: "KERNEL_OFFSET \<le> KERNEL_OFFSET + 0x9000" by (simp add: KERNEL_OFFSET_def)
  show ?thesis
    using memory_set_up [OF example_bss example_map_ok(1) _ example_map_ok(2,3) example_map_ok(4) [symmetric] _ _ _ example_empty k, of 0 "\<lambda>_ _ _ _. []" "\<lambda>_. []" "\<lambda>_ _ _. []" example_vga] r
    by (simp add: space_ok_def space_end_def two del: sys_malloc.simps sys_free.simps) blast
qed

text \<open>
  C24. \<open>getRealAddr\<close> as an equation over every address, on tables that map themselves. It looks at the low 48
  bits only: where the canonical address with those bits is mapped, it returns the physical address the
  processor translates that one to, offset included. So it agrees with the processor on every canonical address that is mapped,
  but answers also for addresses that are not canonical, which the processor refuses. Where that
  address is not mapped, \<open>getEntryLevel\<close> gives \<open>NULL\<close> and \<open>getRealAddr\<close> reads its page entry from there without a check:
  with address 0 not mapped that is a page fault, and what is written to be the
  answer \<open>NULL\<close> is never returned.
\<close>

theorem getRealAddr_translates:
  assumes "self_map s"
  shows "getRealAddr v s = (case mmu s (canonical_form v) of Some q \<Rightarrow> Some q
      | None \<Rightarrow> do { e \<leftarrow> rd64 NULL s; Some (if isPresent e then getAddr e OR (v AND 0xFFF) else NULL) }) \<and>
    canonical (canonical_form v) \<and> (canonical v \<longrightarrow> canonical_form v = v) \<and>
    (mmu s NULL = None \<longrightarrow> getRealAddr v s = mmu s (canonical_form v))"
proof -
  have e: "getRealAddr v s = (case mmu s (canonical_form v) of Some q \<Rightarrow> Some q
      | None \<Rightarrow> do { e \<leftarrow> rd64 NULL s; Some (if isPresent e then getAddr e OR (v AND 0xFFF) else NULL) })"
    unfolding mmu_walk canonical_form_low getRealAddr_walk [OF assms] using canonical_canonical_form(1)
    by (cases "walk (phys s) (pml4 s) [idx 39 v, idx 30 v, idx 21 v, idx 12 v]") (simp_all del: walk.simps)
  moreover have "mmu s NULL = None \<longrightarrow> getRealAddr v s = mmu s (canonical_form v)"
    unfolding e by (cases "mmu s (canonical_form v)") (simp_all add: rd64_def)
  ultimately show ?thesis using canonical_canonical_form by blast
qed

theorem getRealAddr_translates_witness:
  "\<exists>s. prepareKernelPaginationTable (SwitchToLongMode example_machine) = Some s \<and>
     getRealAddr (KERNEL_OFFSET + 0x9123) s = Some 0x9123 \<and> getRealAddr 0x0000FF8000009123 s = Some 0x9123 \<and>
     mmu s 0x0000FF8000009123 = None \<and> getRealAddr 0x5000 s = None"
proof -
  let ?s = "example_machine\<lparr>cr3 := 0x1000, phys := prepared_mem (phys example_machine)\<rparr>"
  have "vm_ok ?s 0 {}" by (rule prepared_vm_ok) simp
  then have s: "self_map ?s" using slot_self unfolding vm_ok_def by blast
  have i: "idx 39 NULL = 0" "idx 39 0x5000 = 0" "idx 39 0xFFFFFF8000009123 = 511" by code_simp+
  have c: "canonical_form 0x5000 = 0x5000" "canonical_form 0xFFFFFF8000009123 = 0xFFFFFF8000009123"
    "canonical_form 0x0000FF8000009123 = 0xFFFFFF8000009123" "\<not> canonical 0x0000FF8000009123" by code_simp+
  have m: "mmu ?s NULL = None" "mmu ?s 0x5000 = None" "mmu ?s 0xFFFFFF8000009123 = Some 0x9123"
    by (subst prepared_mmu; simp add: i KERNEL_OFFSET_def)+
  have "getRealAddr v ?s = mmu ?s (canonical_form v)" for v using getRealAddr_translates [OF s, of v] m(1) by blast
  then have "getRealAddr 0x5000 ?s = None" "getRealAddr 0xFFFFFF8000009123 ?s = Some 0x9123" "getRealAddr 0x0000FF8000009123 ?s = Some 0x9123"
    unfolding c by (simp_all only: c m)
  moreover have "mmu ?s 0x0000FF8000009123 = None" using c(4) by (simp add: mmu_def)
  ultimately show ?thesis unfolding prepare_runs by (simp add: KERNEL_OFFSET_def)
qed

end
