(* ===== verification/FrameAlloc_Live.thy ===== *)
theory FrameAlloc_Live
  imports FrameAlloc_Correct
begin

text \<open>
  When the frame allocator returns. Merging ranges and loading the buffer free list nodes, each at most
  once: on a heap that can take back as many blocks as there are ranges (the locale \<open>node_heap_live\<close>),
  \<open>addMemorySpace\<close> returns, and \<open>allocate\<close> panics only when no frame is free.
\<close>

lemma fill_buffer_grows:
  "fill_buffer m s = Some r \<Longrightarrow> unat (qtd_buffer s) \<le> unat (qtd_buffer (snd r))"
proof (rule fill_buffer.raw_induct [where P = "\<lambda>m s r. unat (qtd_buffer s) \<le> unat (qtd_buffer (snd r))"])
  fix fill m s r
  assume 1: "\<And>m s r. fill m s = Some r \<Longrightarrow> unat (qtd_buffer s) \<le> unat (qtd_buffer (snd r))"
    "(if PAGE_SIZE < sp_size m \<and> unat (qtd_buffer s) < MAX_BUFFER_FRAMES
      then do { s \<leftarrow> addFrameInBuffer (sp_base m) s;
        fill (m\<lparr>sp_base := sp_base m + PAGE_SIZE, sp_size := sp_size m - PAGE_SIZE\<rparr>) s }
      else Some (m, s)) = Some r"
  show "unat (qtd_buffer s) \<le> unat (qtd_buffer (snd r))"
  proof (cases "PAGE_SIZE < sp_size m \<and> unat (qtd_buffer s) < MAX_BUFFER_FRAMES")
    case True
    then obtain s1 where a: "addFrameInBuffer (sp_base m) s = Some s1"
        "fill (m\<lparr>sp_base := sp_base m + PAGE_SIZE, sp_size := sp_size m - PAGE_SIZE\<rparr>) s1 = Some r"
      using 1(2) by (auto simp: bind_eq_Some_conv)
    have "unat (qtd_buffer s + 1) = unat (qtd_buffer s) + 1"
      by (subst unat_add_no_wrap) (use True in \<open>simp_all add: MAX_BUFFER_FRAMES_def\<close>)
    then have "unat (qtd_buffer s) \<le> unat (qtd_buffer s1)"
      using a(1) by (auto simp: addFrameInBuffer_def lock0_def unlock0_def bind_eq_Some_conv split: if_splits)
    then show ?thesis using 1(1) [OF a(2)] by simp
  qed (use 1(2) in auto)
qed

section \<open>A heap that takes nodes back\<close>

text \<open>\<open>slack s k\<close>: the heap can take back \<open>k\<close> more blocks.\<close>

locale node_heap_live = node_heap mf ff ninv took_for
  for mf :: "'a malloc_fun" and ff :: "'a free_fun" and ninv :: "'a frames_scheme \<Rightarrow> addr set \<Rightarrow> nat set \<Rightarrow> bool"
    and took_for :: "'a frames_scheme \<Rightarrow> 'a frames_scheme \<Rightarrow> nat set \<Rightarrow> bool" +
  fixes slack :: "'a frames_scheme \<Rightarrow> nat \<Rightarrow> bool"
  assumes slack_local: "slack s k \<Longrightarrow> same_heap s s' \<Longrightarrow> frames.more s' = frames.more s \<Longrightarrow> slack s' k"
    and slack_less: "slack s k \<Longrightarrow> j \<le> k \<Longrightarrow> slack s j"
    and ff_runs: "ninv s A fr \<Longrightarrow> p \<in> A \<Longrightarrow> slack s (Suc k) \<Longrightarrow> \<exists>s'. ff p s = Some s' \<and> slack s' k"
begin

lemma slack_nodes: "slack s k \<Longrightarrow> slack (s\<lparr>nodes := m\<rparr>) k"
  by (erule slack_local) (auto simp: same_heap_def)

lemma free_step_runs:
  assumes "ninv s A fr" "p \<in> A" "frame_lock1 s = 1" "slack s (Suc k)"
  obtains s1 s2 where "ff p (unlock1 s) = Some s1" "lock1 s1 = Some s2" "slack s2 k"
proof -
  have h: "same_heap s (unlock1 s)" "frames.more (unlock1 s) = frames.more s" by (auto simp: same_heap_def unlock1_def)
  note n = ninv_local [OF assms(1) h]
  from ff_runs [OF n assms(2) slack_local [OF assms(4) h]] obtain s1 where s1: "ff p (unlock1 s) = Some s1" "slack s1 k" by blast
  have "liballoc.more s1 = liballoc.more (unlock1 s)" using ff_law [OF n assms(2) s1(1)] by blast
  note M = more_frames [OF this]
  have "frame_lock1 s1 = 0" by (simp add: M unlock1_def)
  then have l: "lock1 s1 = Some (s1\<lparr>frame_lock1 := 1\<rparr>)" by (simp add: lock1_def)
  have "slack (s1\<lparr>frame_lock1 := 1\<rparr>) k" by (rule slack_local [OF s1(2)]) (auto simp: same_heap_def)
  then show ?thesis using that [OF s1(1) l] by blast
qed

lemma merge_next_runs:
  assumes "part_ok (nodes s) l (l # ns)" "set (l # ns) \<subseteq> A" "ninv s A fr" "frame_lock1 s = 1" "slack s (length ns + k)"
  shows "\<exists>s' ns'. merge_next ff l s = Some s' \<and> part_ok (nodes s') l (l # ns') \<and> slack s' (length ns' + k)"
  using assms
proof (induction ns arbitrary: s A)
  case Nil
  have "next_frame (nodes s l) = NULL" "l \<noteq> NULL" using Nil.prems(1) by (auto simp: part_ok_def)
  then have "merge_next ff l s = Some s" by (subst merge_next.simps) (simp add: rdn_def)
  then show ?case using Nil.prems by auto
next
  case (Cons b ns)
  let ?m = "nodes s"
  have P: "l \<noteq> NULL" "l \<noteq> b" "l \<notin> set ns" "b \<notin> set ns" "next_frame (?m l) = b" "b \<noteq> NULL" "space_ok (fdata (?m l))" "space_ok (fdata (?m b))"
     "space_end (fdata (?m l)) \<le> unat (sp_base (fdata (?m b)))" "part_ok ?m (next_frame (?m b)) ns"
     "\<forall>c \<in> set ns. space_end (fdata (?m b)) \<le> unat (sp_base (fdata (?m c)))"
    using Cons.prems(1) by (auto simp: part_ok_Cons)
  have e: "unat (sp_base (fdata (?m l)) + sp_size (fdata (?m l))) = space_end (fdata (?m l))"
    using space_okD(3) [OF P(7)] by (subst unat_add_no_wrap) (auto simp: space_end_def)
  show ?case
  proof (cases "sp_base (fdata (?m b)) \<le> sp_base (fdata (?m l)) + sp_size (fdata (?m l))")
    case False
    then have "merge_next ff l s = Some s" using P(1,5,6) by (subst merge_next.simps) (simp add: rdn_def)
    then show ?thesis using Cons.prems by blast
  next
    case True
    then have touch: "space_end (fdata (?m l)) = unat (sp_base (fdata (?m b)))"
      using P(9) e by (simp add: word_le_nat_alt)
    let ?c = "(fdata (?m l))\<lparr>sp_size := (sp_base (fdata (?m b)) + sp_size (fdata (?m b))) - sp_base (fdata (?m l))\<rparr>"
    let ?m1 = "?m(l := \<lparr>fdata = ?c, next_frame = next_frame (?m b)\<rparr>)"
    let ?s1 = "s\<lparr>nodes := ?m1\<rparr>"
    note J = join_spaces [OF P(7,8) touch refl]
    have b: "b \<in> A" "frame_lock1 ?s1 = 1" using Cons.prems(2,4) by simp_all
    have n1: "ninv ?s1 A fr" by (rule ninv_nodes [OF Cons.prems(3)])
    have k1: "slack ?s1 (Suc (length ns + k))" by (rule slack_nodes) (use Cons.prems(5) in simp)
    obtain s2 s3 where r: "ff b (unlock1 ?s1) = Some s2" "lock1 s2 = Some s3" "slack s3 (length ns + k)"
      by (rule free_step_runs [OF n1 b k1])
    have step: "merge_next ff l s = merge_next ff l s3"
      using merge_next_step [of l s b ff, OF P(1,5,6) True] r(1,2) by simp
    have F: "same_frames ?s1 s3" "nodes s3 = ?m1" "ninv s3 (A - {b}) fr"
      using free_step [OF n1 b r(1,2)] by auto
    have "part_ok ?m1 (next_frame (?m b)) ns" using part_ok_upd [OF P(3)] P(10) by blast
    then have p3: "part_ok (nodes s3) l (l # ns)" using P J F(2) by (auto simp: part_ok_Cons)
    have l3: "frame_lock1 s3 = 1" using F(1) Cons.prems(4) by (simp add: same_frames_def)
    have A3: "set (l # ns) \<subseteq> A - {b}" using Cons.prems(2) P(2,4) by auto
    show ?thesis unfolding step by (rule Cons.IH [OF p3 A3 F(3) l3 r(3)])
  qed
qed

text \<open>A range pushed is at most merged with those there are: one node remains.\<close>

lemma list_push_runs:
  assumes "part_ok (nodes s) p ns" "new \<notin> set ns" "new \<noteq> NULL" "space_ok (fdata (nodes s new))"
    and "4096 \<le> unat (sp_size (fdata (nodes s new)))"
    and "\<forall>a \<in> set ns. space_end (fdata (nodes s a)) \<le> unat (sp_base (fdata (nodes s new))) \<or>
       space_end (fdata (nodes s new)) \<le> unat (sp_base (fdata (nodes s a)))"
    and "set (new # ns) \<subseteq> A" "ninv s A fr" "frame_lock1 s = 1" "slack s (length ns + k)"
  shows "\<exists>q s' c ns'. list_push ff p new s = Some (q, s') \<and> part_ok (nodes s') q (c # ns') \<and> slack s' (length ns' + k)"
  using assms
proof (induction ns arbitrary: p s A k)
  case Nil
  then have "p = NULL" by (simp add: part_ok_def)
  let ?s = "s\<lparr>nodes := (nodes s)(new := (nodes s new)\<lparr>next_frame := NULL\<rparr>)\<rparr>"
  have "list_push ff p new s = Some (new, ?s)"
    using Nil.prems(3) \<open>p = NULL\<close> by (subst list_push.simps) (simp add: updn_def)
  moreover have "slack ?s (length ([] :: addr list) + k)" by (rule slack_nodes [OF Nil.prems(10)])
  moreover have "part_ok (nodes ?s) new [new]" using Nil.prems(3,4) by (simp add: part_ok_def in_order_def)
  ultimately show ?case by blast
next
  case (Cons a ns)
  let ?m = "nodes s"
  have P: "p = a" "a \<noteq> NULL" "a \<notin> set ns" "space_ok (fdata (?m a))" "part_ok ?m (next_frame (?m a)) ns" "a \<noteq> new"
     "\<forall>b \<in> set ns. space_end (fdata (?m a)) \<le> unat (sp_base (fdata (?m b)))"
    using Cons.prems(1,2) by (auto simp: part_ok_Cons)
  show ?case
  proof (cases "sp_base (fdata (?m new)) < sp_base (fdata (?m a))")
    case True
    let ?s = "s\<lparr>nodes := ?m(new := (?m new)\<lparr>next_frame := a\<rparr>)\<rparr>"
    have e: "list_push ff p new s = Some (new, ?s)"
      using Cons.prems(3) True P(1,2) by (subst list_push.simps) (simp add: updn_def rdn_def)
    from list_push_ok [OF Cons.prems(1-9) e] obtain ns' where ns': "part_ok (nodes ?s) new ns'" "set ns' \<subseteq> set (new # a # ns)" by blast
    have "chain (nodes ?s) p (a # ns) = chain ?m p (a # ns)" by (rule chain_cong) (use Cons.prems(2) in auto)
    then have "chain (nodes ?s) new (new # a # ns)" using Cons.prems(1,3) P(1) by (simp add: part_ok_def)
    moreover have "chain (nodes ?s) new ns'" using ns'(1) unfolding part_ok_def by blast
    ultimately have n: "ns' = new # a # ns" by (rule chain_unique [rotated])
    have "slack ?s (length (a # ns) + k)" by (rule slack_nodes [OF Cons.prems(10)])
    then show ?thesis using e ns'(1) unfolding n by blast
  next
    case False
    have A: "set (new # ns) \<subseteq> A" "new \<notin> set ns" and k: "slack s (length ns + (k + 1))" using Cons.prems(2,7,10) by simp_all
    have ap: "\<forall>b \<in> set ns. space_end (fdata (?m b)) \<le> unat (sp_base (fdata (?m new))) \<or>
        space_end (fdata (?m new)) \<le> unat (sp_base (fdata (?m b)))" using Cons.prems(6) by simp
    from Cons.IH [OF P(5) A(2) Cons.prems(3-5) ap A(1) Cons.prems(8,9) k] obtain r s1 c ns1 where
      r: "list_push ff (next_frame (?m a)) new s = Some (r, s1)" "part_ok (nodes s1) r (c # ns1)" "slack s1 (length ns1 + (k + 1))" by blast
    from list_push_ok [OF P(5) A(2) Cons.prems(3-5) ap A(1) Cons.prems(8,9) r(1)] obtain cs where
      I: "part_ok (nodes s1) r cs" "set cs \<subseteq> set (new # ns)"
        "\<forall>x. x \<le> unat (sp_base (fdata (?m new))) \<and> (\<forall>a \<in> set ns. x \<le> unat (sp_base (fdata (?m a)))) \<longrightarrow>
           (\<forall>b \<in> set cs. x \<le> unat (sp_base (fdata (nodes s1 b))))"
        "\<forall>a. a \<notin> set (new # ns) \<longrightarrow> nodes s1 a = ?m a" "same_frames s s1" "ninv s1 (A - (set (new # ns) - set cs)) fr" by blast
    have "chain (nodes s1) r cs" "chain (nodes s1) r (c # ns1)" using r(2) I(1) unfolding part_ok_def by blast+
    then have cs: "cs = c # ns1" by (rule chain_unique)
    let ?A = "A - (set (new # ns) - set cs)"
    have a1: "nodes s1 a = ?m a" "a \<notin> set cs" using I(2,4) P(3,6) by auto
    let ?s2 = "s1\<lparr>nodes := (nodes s1)(a := (?m a)\<lparr>next_frame := r\<rparr>)\<rparr>"
    have s2: "updn a (\<lambda>l. l\<lparr>next_frame := r\<rparr>) s1 = Some ?s2" using P(2) a1 by (simp add: updn_def)
    have "space_end (fdata (?m a)) \<le> unat (sp_base (fdata (?m new)))"
      using Cons.prems(5,6) False by (auto simp: word_less_nat_alt space_end_def)
    then have "\<forall>b \<in> set cs. space_end (fdata (?m a)) \<le> unat (sp_base (fdata (nodes s1 b)))" using I(3) P(7) by blast
    then have p2: "part_ok (nodes ?s2) a (a # cs)"
      using P(2,4) a1(2) part_ok_upd [OF a1(2)] I(1) by (auto simp: part_ok_Cons)
    have n2: "ninv ?s2 ?A fr" by (rule ninv_nodes [OF I(6)])
    have l2: "frame_lock1 ?s2 = 1" using I(5) Cons.prems(9) by (simp add: same_frames_def)
    have A2: "set (a # cs) \<subseteq> ?A" using Cons.prems(7) I(2) P(3,6) by auto
    have k2: "slack ?s2 (length cs + k)" by (rule slack_nodes) (use r(3) in \<open>simp add: cs\<close>)
    from merge_next_runs [OF p2 A2 n2 l2 k2] obtain s' ns' where
      M: "merge_next ff a ?s2 = Some s'" "part_ok (nodes s') a (a # ns')" "slack s' (length ns' + k)" by blast
    have "list_push ff p new s = Some (a, s')"
      using False P(1,2) Cons.prems(3) r(1) s2 M(1) by (subst list_push.simps) (simp add: rdn_def)
    then show ?thesis using M(2,3) by blast
  qed
qed

section \<open>The operations\<close>

lemma loadBuffer_loop_runs:
  assumes "frames_inv s ns" "set ns \<subseteq> A" "ninv s A fr" "frame_lock0 s = 0" "slack s (length ns + k)"
  shows "\<exists>s'. loadBuffer_loop ff s = Some s' \<and> (\<forall>ns'. chain (nodes s') (avaliableMemory s') ns' \<longrightarrow> slack s' (length ns' + k))"
  using assms
proof (induction "length ns + (MAX_BUFFER_FRAMES - unat (qtd_buffer s))" arbitrary: s ns A rule: less_induct)
  case less
  let ?q = "unat (qtd_buffer s) < MAX_BUFFER_FRAMES"
  have c: "chain (nodes s) (avaliableMemory s) ns" using less.prems(1) by (simp add: frames_inv_def)
  show ?case
  proof (cases "?q \<and> ns \<noteq> []")
    case False
    then have "\<not> (?q \<and> avaliableMemory s \<noteq> NULL)" using c by (cases ns) auto
    then have "loadBuffer_loop ff s = Some s" by (subst loadBuffer_loop.simps) auto
    then show ?thesis using less.prems(5) chain_unique [OF c] by auto
  next
    case True
    then obtain a ms where ns: "ns = a # ms" by (cases ns) auto
    have a: "avaliableMemory s = a" "a \<noteq> NULL" "a \<in> A" using c ns less.prems(2) by auto
    show ?thesis
    proof (cases "sp_size (fdata (nodes s a)) < PAGE_SIZE")
      case small: True
      have "slack s (Suc (length ms + k))" using less.prems(5) ns by simp
      from ff_runs [OF less.prems(3) a(3) this] obtain s1 where s1: "ff a s = Some s1" "slack s1 (length ms + k)" by blast
      let ?s2 = "s1\<lparr>avaliableMemory := next_frame (nodes s a)\<rparr>"
      have z: "unat (sp_size (fdata (nodes s a))) < 4096" using small by (simp add: word_less_nat_alt)
      have D: "frames_inv ?s2 ms" "ninv ?s2 (A - {a}) fr" "qtd_buffer ?s2 = qtd_buffer s" "frame_lock0 ?s2 = frame_lock0 s"
        using drop_head [OF less.prems(1) [unfolded ns] z less.prems(3) a(3) s1(1)] by (simp_all only: ns)
      have A: "set ms \<subseteq> A - {a}" using less.prems(1,2) ns by (auto simp: frames_inv_def)
      have l: "frame_lock0 ?s2 = 0" using D(4) less.prems(4) by simp
      have k: "slack ?s2 (length ms + k)" by (rule slack_local [OF s1(2)]) (auto simp: same_heap_def)
      have m: "length ms + (MAX_BUFFER_FRAMES - unat (qtd_buffer ?s2)) < length ns + (MAX_BUFFER_FRAMES - unat (qtd_buffer s))"
        using D(3) ns by simp
      have "loadBuffer_loop ff s = loadBuffer_loop ff ?s2"
        using True small a s1(1) by (subst loadBuffer_loop.simps) (simp add: rdn_def Let_def)
      then show ?thesis using less.hyps [OF m D(1) A D(2) l k] by simp
    next
      case large: False
      then have z: "4096 \<le> unat (sp_size (fdata (nodes s a)))" by (simp add: word_less_nat_alt)
      from take_head [OF less.prems(1) [unfolded ns] _ less.prems(4) z] True obtain s1 where
        T: "(do { s \<leftarrow> addFrameInBuffer (sp_base (fdata (nodes s a))) s;
          s \<leftarrow> updn (avaliableMemory s) (\<lambda>n. n\<lparr>fdata := (fdata n)\<lparr>sp_base := sp_base (fdata n) + PAGE_SIZE\<rparr>\<rparr>) s;
          updn (avaliableMemory s) (\<lambda>n. n\<lparr>fdata := (fdata n)\<lparr>sp_size := sp_size (fdata n) - PAGE_SIZE\<rparr>\<rparr>) s }) = Some s1"
        "frames_inv s1 ns" "unat (qtd_buffer s1) = unat (qtd_buffer s) + 1"
        "s1 = s\<lparr>qtd_buffer := qtd_buffer s1, frame_buffer := frame_buffer s1, nodes := nodes s1\<rparr>"
        unfolding ns by blast
      have e: "same_heap s s1" "frames.more s1 = frames.more s" "frame_lock0 s1 = 0"
        by (subst T(4), simp add: same_heap_def less.prems(4))+
      have r: "loadBuffer_loop ff s = loadBuffer_loop ff s1"
        using True large a T(1) by (subst loadBuffer_loop.simps) (auto simp: rdn_def Let_def bind_eq_Some_conv)
      have m: "length ns + (MAX_BUFFER_FRAMES - unat (qtd_buffer s1)) < length ns + (MAX_BUFFER_FRAMES - unat (qtd_buffer s))"
        using T(3) True by linarith
      show ?thesis unfolding r
        by (rule less.hyps [OF m T(2) less.prems(2) ninv_local [OF less.prems(3) e(1,2)] e(3) slack_local [OF less.prems(5) e(1,2)]])
    qed
  qed
qed

text \<open>\<open>allocate\<close> ends in \<open>panic\<close> only when no frame is free.\<close>

lemma allocate_runs:
  assumes "frames_inv s ns" "set ns \<subseteq> A" "ninv s A fr" "frame_lock0 s = 0" "frame_lock1 s = 0" "slack s (length ns)"
    and some: "free_frames s ns \<noteq> {}"
  shows "\<exists>f s'. allocate ff s = Some (f, s')"
proof (cases "unat (qtd_buffer s) \<le> MAX_BUFFER_FRAMES div 2")
  case False
  then show ?thesis using assms(4) by (simp add: allocate_def lock0_def Let_def)
next
  case True
  let ?s = "s\<lparr>frame_lock1 := 1\<rparr>"
  have h: "same_heap s ?s" "frames.more ?s = frames.more s" by (auto simp: same_heap_def)
  have b: "buffered ?s = buffered s" by (simp add: buffered_def)
  then have i: "frames_inv ?s ns" and f: "free_frames ?s ns = free_frames s ns" using assms(1)
    by (simp_all add: frames_inv_def free_frames_def)
  have l: "frame_lock0 ?s = 0" using assms(4) by simp
  note n = ninv_local [OF assms(3) h]
  have "slack ?s (length ns + 0)" using slack_local [OF assms(6) h] by simp
  from loadBuffer_loop_runs [OF i assms(2) n l this] obtain t where t: "loadBuffer_loop ff ?s = Some t" by blast
  from loadBuffer_loop_ok [OF i assms(2) n l t] obtain ns' where
    I: "free_frames t ns' = free_frames ?s ns" "frame_lock0 t = 0" "unat (qtd_buffer t) < MAX_BUFFER_FRAMES \<longrightarrow> ns' = []" by blast
  have "0 < qtd_buffer t"
  proof (rule ccontr)
    assume "\<not> 0 < qtd_buffer t"
    then have z: "unat (qtd_buffer t) = 0" by (simp add: word_gt_0)
    then have "ns' = []" using I(3) by (simp add: MAX_BUFFER_FRAMES_def)
    then have "free_frames t ns' = {}" using z by (simp add: free_frames_def buffered_def listed_def)
    then show False using I(1) f some by simp
  qed
  then show ?thesis using True t I(2) assms(5)
    by (simp add: allocate_def loadBuffer_def lock1_def unlock1_def lock0_def Let_def)
qed

text \<open>\<open>addMemorySpace\<close> returns when the heap serves the node it asks for.\<close>

lemma addMemorySpace_runs:
  assumes "frames_inv s ns" "set ns \<subseteq> A" "ninv s A fr" "frame_lock0 s = 0" "frame_lock1 s = 0" "slack s (length ns + k)"
    and m: "space_ok (round_space m)" "set (pages_of (round_space m)) \<inter> free_frames s ns = {}"
    and fr: "free_frames s ns \<union> set (pages_of (round_space m)) \<subseteq> fr"
    and apart: "\<forall>a \<in> set ns. space_end (fdata (nodes s a)) \<le> unat (sp_base (round_space m)) \<or>
       space_end (round_space m) \<le> unat (sp_base (fdata (nodes s a)))"
    and mf: "\<And>t. frames_inv t ns \<Longrightarrow> free_frames t ns \<subseteq> fr \<Longrightarrow> unat (qtd_buffer s) \<le> unat (qtd_buffer t) \<Longrightarrow>
       t = s\<lparr>qtd_buffer := qtd_buffer t, frame_buffer := frame_buffer t\<rparr> \<Longrightarrow>
       \<exists>p u. mf 24 t = Some (p, u) \<and> p \<noteq> NULL \<and> slack u (length ns + k)"
  shows "\<exists>s'. addMemorySpace mf ff m s = Some s' \<and>
     (\<forall>ns'. chain (nodes s') (avaliableMemory s') ns' \<longrightarrow> slack s' (length ns' - 1 + k))"
proof -
  let ?r = "round_space m"
  obtain m1 s1 where F: "fill_buffer ?r s = Some (m1, s1)" "frames_inv s1 ns" "space_ok m1" "space_end m1 = space_end ?r"
     "unat (sp_base ?r) \<le> unat (sp_base m1)" "free_frames s1 ns \<union> set (pages_of m1) = free_frames s ns \<union> set (pages_of ?r)"
     and e: "s1 = s\<lparr>qtd_buffer := qtd_buffer s1, frame_buffer := frame_buffer s1\<rparr>"
    using fill_buffer_ok [OF assms(1,4) m] by blast
  have E: "nodes s1 = nodes s" "frame_lock0 s1 = 0" "frame_lock1 s1 = 0" "same_heap s s1" "frames.more s1 = frames.more s"
    by (subst e, simp add: assms(4,5) same_heap_def)+
  have n1: "ninv s1 A fr" by (rule ninv_local [OF assms(3) E(4,5)])
  have k1: "slack s1 (length ns + k)" by (rule slack_local [OF assms(6) E(4,5)])
  show ?thesis
  proof (cases "sp_size m1 < PAGE_SIZE")
    case True
    have c: "chain (nodes s1) (avaliableMemory s1) ns" using F(2) by (simp add: frames_inv_def)
    have "slack s1 (length ns - 1 + k)" by (rule slack_less [OF k1]) simp
    then show ?thesis using True F(1) chain_unique [OF c] by (auto simp: addMemorySpace_def)
  next
    case False
    then have z: "4096 \<le> unat (sp_size m1)" by (simp add: word_less_nat_alt)
    have fr1: "free_frames s1 ns \<subseteq> fr" using F(6) fr by blast
    have q: "unat (qtd_buffer s) \<le> unat (qtd_buffer s1)" using fill_buffer_grows [OF F(1)] by simp
    from mf [OF F(2) fr1 q e] obtain new s2 where A: "mf 24 s1 = Some (new, s2)" "new \<noteq> NULL" "slack s2 (length ns + k)" by blast
    from mf_law [OF n1 F(2) assms(2) fr1 E(2,3) A(1)] A(2) obtain used ns2 where
      M: "frames_inv s2 ns2" "set ns2 \<subseteq> set ns" "narrower s1 s2 ns2" "frame_lock1 s2 = 0"
        "new \<notin> A" "ninv s2 (insert new A) (fr - used)" by auto
    have new: "new \<notin> set ns2" using M(2,5) assms(2) by blast
    let ?s3 = "s2\<lparr>nodes := (nodes s2)(new := (nodes s2 new)\<lparr>fdata := m1\<rparr>), frame_lock1 := 1\<rparr>"
    have n3: "ninv ?s3 (insert new A) (fr - used)" by (rule ninv_local [OF M(6)]) (auto simp: same_heap_def)
    have "part_ok (nodes s2) (avaliableMemory s2) ns2" using M(1) unfolding frames_inv_part by blast
    then have p3: "part_ok (nodes ?s3) (avaliableMemory s2) ns2" using part_ok_upd [OF new] by simp
    have ap: "space_end (fdata (nodes s2 a)) \<le> unat (sp_base m1) \<or> space_end m1 \<le> unat (sp_base (fdata (nodes s2 a)))"
      if a: "a \<in> set ns2" for a
    proof -
      have "a \<in> set ns" using a M(2) by blast
      then show ?thesis using bspec [OF apart, of a] M(3) a F(4,5) E(1) unfolding narrower_def by fastforce
    qed
    have ap3: "\<forall>a \<in> set ns2. space_end (fdata (nodes ?s3 a)) \<le> unat (sp_base (fdata (nodes ?s3 new))) \<or>
       space_end (fdata (nodes ?s3 new)) \<le> unat (sp_base (fdata (nodes ?s3 a)))"
      using ap new by auto
    have A3: "set (new # ns2) \<subseteq> insert new A" using M(2) assms(2) by auto
    have m3: "space_ok (fdata (nodes ?s3 new))" "4096 \<le> unat (sp_size (fdata (nodes ?s3 new)))" "frame_lock1 ?s3 = 1"
      using F(3) z by simp_all
    have "card (set ns2) \<le> card (set ns)" by (rule card_mono) (use M(2) in simp_all)
    then have "length ns2 \<le> length ns" using M(1) assms(1) by (simp add: frames_inv_def distinct_card)
    then have "slack s2 (length ns2 + k)" by (intro slack_less [OF A(3)]) simp
    then have k3: "slack ?s3 (length ns2 + k)" by (rule slack_local) (auto simp: same_heap_def)
    from list_push_runs [OF p3 new A(2) m3(1,2) ap3 A3 n3 m3(3) k3] obtain l s4 c ns' where
      L: "list_push ff (avaliableMemory s2) new ?s3 = Some (l, s4)" "part_ok (nodes s4) l (c # ns')" "slack s4 (length ns' + k)" by blast
    let ?s' = "unlock1 (s4\<lparr>avaliableMemory := l\<rparr>)"
    have "addMemorySpace mf ff m s = Some ?s'"
      using F(1) False A(1,2) M(4) L(1) by (simp add: addMemorySpace_def updn_def lock1_def)
    moreover have "slack ?s' (length (c # ns') - 1 + k)"
      by (rule slack_local [of s4]) (use L(3) in \<open>auto simp: same_heap_def unlock1_def\<close>)
    moreover have "chain (nodes ?s') (avaliableMemory ?s') (c # ns')" using L(2) by (simp add: part_ok_def unlock1_def)
    ultimately show ?thesis using chain_unique by blast
  qed
qed

end

end
