(* ===== verification/System_Live.thy ===== *)
theory System_Live
  imports System_Client FrameAlloc_Live
begin

text \<open>
  When the frame allocator returns on the whole system. A call of \<open>kernel_free\<close> may leave one more whole
  block waiting in its size class; a class that has its five deadlocks the next time
  (\<open>free_of_sixth_whole_block_deadlocks\<close>). So the heap can take back as many nodes as are missing to five.
\<close>

section \<open>What \<open>kernel_free\<close> leaves of the counts\<close>

lemma inc_le: "xs[n := xs ! n + 1] ! i \<le> (xs ! i + 1 :: int)"
  by (cases "n < length xs"; cases "i = n") (auto simp: list_update_beyond)

lemma give_back_counts:
  "give_back (\<lambda>_ _ _. None) tag s = Some t \<Longrightarrow> l_completePages t ! i \<le> l_completePages s ! i + 1"
  unfolding give_back_def Let_def
  by (auto simp: bind_eq_Some_conv add_completePages_def intro: inc_le split: if_splits dest!: insert_counts)

lemma free_counts:
  "kernel_free (\<lambda>_ _ _. None) p s = Some t \<Longrightarrow> l_completePages t ! i \<le> l_completePages s ! i + 1"
  unfolding kernel_free_def Let_def
  by (auto simp: bind_eq_Some_conv liballoc_lock_def liballoc_unlock_def split: if_splits prod.splits
      dest!: melt_left_loop_counters absorb_right_loop_counters dest: give_back_counts [where i = i])

section \<open>The heap takes nodes back\<close>

definition heap_slack :: "'a liballoc_scheme \<Rightarrow> nat \<Rightarrow> bool" where
  "heap_slack s k \<longleftrightarrow> (\<forall>i < MAXEXP. l_completePages (liballoc_init s) ! i + int k \<le> MAXCOMPLETE)"

lemma heap_slack_less: "heap_slack s k \<Longrightarrow> j \<le> k \<Longrightarrow> heap_slack s j"
  by (force simp: heap_slack_def)

lemma heap_slack_cong:
  assumes "same_heap s t"
  shows "heap_slack t k = heap_slack s k"
  using assms by (simp add: heap_slack_def liballoc_init_def same_heap_def)

lemma malloc_slack:
  assumes ok: "system_ok s ns L R F N fr" and sz: "unat sz \<le> MAX_REQUEST"
    and run: "sys_malloc (Suc d) sz s = Some (q, t)" and k: "heap_slack s k"
  shows "heap_slack t k"
proof -
  note S = system_heap [OF ok]
  from sys_malloc_heap [OF S(1,3,4,5,6) sz run] obtain L' R' F' where "malloc_post q sz s L t L' R' F'" by blast
  then have i: "liballoc_init t = t" by (intro liballoc_init_done) (simp add: malloc_post_def)
  show ?thesis
    unfolding heap_slack_def i
  proof (intro allI impI)
    fix i assume "i < MAXEXP"
    then show "l_completePages t ! i + int k \<le> MAXCOMPLETE"
      using k malloc_counts [OF ok sz run, of i] unfolding heap_slack_def by force
  qed
qed

lemma sys_free_slack:
  assumes h: "heap_in_slot s L R F N fr" and a: "p - of_nat TAG_SIZE \<in> allocated s L" and k: "heap_slack s (Suc k)"
  shows "\<exists>s'. sys_free (Suc d) p s = Some s' \<and> heap_slack s' k"
proof -
  have i: "l_initialized s \<noteq> 0" using h a by (auto simp: heap_in_slot_def allocated_def)
  have H: "alloc_lock s = 0" "heap_ok s L R F" using h liballoc_init_done [OF i] by (simp_all add: heap_in_slot_def)
  note K = k [unfolded heap_slack_def liballoc_init_done [OF i]]
  have "l_completePages s ! i \<noteq> MAXCOMPLETE" if "i < MAXEXP" for i using K that by fastforce
  from free_stays_in_heap [OF H(2,1) a this] obtain s' L' F' where
    f: "\<forall>pfree. kernel_free pfree p s = Some s'" "free_post p s L s' L' R F'" by blast
  have i': "liballoc_init s' = s'" by (rule liballoc_init_done) (use f(2) i in \<open>simp add: free_post_def\<close>)
  have "kernel_free (\<lambda>_ _ _. None) p s = Some s'" using f(1) by blast
  note c = free_counts [OF this]
  have "heap_slack s' k"
    unfolding heap_slack_def i'
  proof (intro allI impI)
    fix i assume "i < MAXEXP"
    then show "l_completePages s' ! i + int k \<le> MAXCOMPLETE" using K c [of i] by force
  qed
  then show ?thesis using f(1) by simp
qed

text \<open>
  A node heap beside other blocks \<open>B\<close> of the same heap: their sizes and contents, and the state outside
  the memory system, stay as they were in \<open>u\<close>.
\<close>

definition node_keep :: "'a paging_scheme \<Rightarrow> addr set \<Rightarrow> 'a paging_scheme \<Rightarrow> addr set \<Rightarrow> nat set \<Rightarrow> bool" where
  "node_keep u B s A fr \<longleftrightarrow> node_inv u s (A \<union> B) fr \<and> A \<inter> B = {} \<and> bytes s = bytes u \<and> paging.more s = paging.more u \<and>
     (\<forall>p \<in> B. req_size (mem s (p - of_nat TAG_SIZE)) = req_size (mem u (p - of_nat TAG_SIZE)))"

lemma node_system:
  assumes "heap_in_slot s L R F N fr" "given s L A" "frames_inv s ns" "set ns \<subseteq> A" "free_frames s ns \<subseteq> fr" "frame_lock0 s = 0" "frame_lock1 s = 0"
  shows "system_ok s ns L R F N fr"
  using assms given_less [OF assms(2,4)] by (simp add: system_ok_def)

interpretation live: node_heap_live "sys_malloc (Suc d)" "sys_free (Suc d)" "node_keep u B" "grew 16" heap_slack for d u B
proof
  fix s s' :: "'a paging_scheme" and A fr fr' p ns k j
  show "heap_slack s' k" if "heap_slack s k" "same_heap s s'" "frames.more s' = frames.more s" for k
    using that heap_slack_cong by blast
  show "heap_slack s j" if "heap_slack s k" "j \<le> k" for s :: "'a paging_scheme" and j k using that by (rule heap_slack_less)
  show "node_keep u B s' A fr" if "node_keep u B s A fr" "same_heap s s'" "frames.more s' = frames.more s"
    using that(1) idle.ninv_local [OF _ that(2,3)] that(2) more_rest [OF that(3)] unfolding node_keep_def by (simp add: same_heap_def)
  show "grew 16 s s' {}" if "node_keep u B s A fr" "frames.more s' = frames.more s"
    using idle.took_none [OF _ that(2)] that(1) unfolding node_keep_def by blast
  show "grew 16 t t' U" if "grew 16 s s' U" "frames.more t = frames.more s" "frames.more t' = frames.more s'" for t t' U
    by (rule idle.took_cong [OF that])
  show "liballoc.more s' = liballoc.more s \<and> node_keep u B s' (A - {p}) fr"
    if n: "node_keep u B s A fr" "p \<in> A" "sys_free (Suc d) p s = Some s'"
  proof -
    note K = n(1) [unfolded node_keep_def]
    have "p \<in> A \<union> B" using n(2) by blast
    from idle.ff_law [OF conjunct1 [OF K] this n(3)] have
      I: "liballoc.more s' = liballoc.more s" "node_inv u s' (A \<union> B - {p}) fr" by blast+
    have AB: "A \<union> B - {p} = (A - {p}) \<union> B" using K n(2) by blast
    obtain L R F N where h: "heap_in_slot s L R F N fr" "given s L (A \<union> B)" using K by (auto simp: node_inv_def)
    have "p - of_nat TAG_SIZE \<in> allocated s L" using h(2) n(2) by (auto simp: given_def)
    from sys_free_heap [OF h(1) this n(3)] obtain L' R' F' where f: "free_post p s L s' L' R' F'" by blast
    have "q - of_nat TAG_SIZE \<in> allocated s' L'" if "q \<in> B" for q
      using that h(2) K n(2) f by (auto simp: given_def free_post_def)
    then have "\<forall>q \<in> B. req_size (mem s' (q - of_nat TAG_SIZE)) = req_size (mem u (q - of_nat TAG_SIZE))"
      using K f by (simp add: free_post_def)
    then show ?thesis using I K f more_rest [OF more_frames(7) [OF I(1)]] unfolding node_keep_def AB by (auto simp: free_post_def)
  qed
  show "\<exists>used ns'. frames_inv s' ns' \<and> set ns' \<subseteq> set ns \<and> narrower s s' ns' \<and> used \<subseteq> free_frames s ns \<and>
      free_frames s' ns' = free_frames s ns - used \<and> frame_lock0 s' = 0 \<and> frame_lock1 s' = 0 \<and>
      (p \<noteq> NULL \<longrightarrow> p \<notin> A) \<and> grew 16 s s' used \<and> node_keep u B s' (if p = NULL then A else insert p A) (fr - used)"
    if n: "node_keep u B s A fr" "frames_inv s ns" "set ns \<subseteq> A" "free_frames s ns \<subseteq> fr" "frame_lock0 s = 0" "frame_lock1 s = 0"
      "sys_malloc (Suc d) 24 s = Some (p, s')"
  proof -
    note K = n(1) [unfolded node_keep_def]
    obtain L R F N where h: "heap_in_slot s L R F N fr" "given s L (A \<union> B)" using K by (auto simp: node_inv_def)
    have A: "set ns \<subseteq> A \<union> B" using n(3) by blast
    note ok = node_system [OF h n(2) A n(4-6)]
    have "unat (24 :: uint64) \<le> MAX_REQUEST" by (simp add: MAX_REQUEST_def TAG_SIZE_def)
    note M = malloc_system [OF ok this n(7)]
    from idle.mf_law [OF conjunct1 [OF K] n(2) A n(4-7)] M obtain used ns' where
      I: "frames_inv s' ns' \<and> set ns' \<subseteq> set ns \<and> narrower s s' ns' \<and> used \<subseteq> free_frames s ns \<and>
        free_frames s' ns' = free_frames s ns - used \<and> frame_lock0 s' = 0 \<and> frame_lock1 s' = 0"
      "p \<notin> A \<union> B" "node_inv u s' (insert p (A \<union> B)) (fr - used)" "grew 16 s s' used" by auto
    have "\<forall>q \<in> B. req_size (mem s' (q - of_nat TAG_SIZE)) = req_size (mem u (q - of_nat TAG_SIZE))"
      using K h(2) M by (auto simp: given_def)
    then have "node_keep u B s' (if p = NULL then A else insert p A) (fr - used)"
      using I(2,3) K M unfolding node_keep_def by auto
    then show ?thesis using I(1,2,4) by (intro exI [of _ used] exI [of _ ns']) simp
  qed
  show "\<exists>s'. sys_free (Suc d) p s = Some s' \<and> heap_slack s' k" if n: "node_keep u B s A fr" "p \<in> A" "heap_slack s (Suc k)"
    for s :: "'a paging_scheme" and A p k fr
  proof -
    obtain L R F N where h: "heap_in_slot s L R F N fr" "given s L (A \<union> B)" using n(1) by (auto simp: node_keep_def node_inv_def)
    have "p - of_nat TAG_SIZE \<in> allocated s L" using h(2) n(2) by (auto simp: given_def)
    from sys_free_slack [OF h(1) this n(3)] show ?thesis .
  qed
qed

section \<open>Adding memory\<close>

lemma ample_more:
  assumes "t = s\<lparr>qtd_buffer := qtd_buffer t, frame_buffer := frame_buffer t\<rparr>" "unat (qtd_buffer s) \<le> unat (qtd_buffer t)" "ample N n j s"
  shows "ample N n j t"
proof -
  have "avaliableMemory t = avaliableMemory s" "nodes t = nodes s" by (subst assms(1), simp)+
  then show ?thesis using assms(2,3) by (auto simp: ample_def rich_def head_pages_def)
qed

lemma add_space_live:
  assumes ok: "system_ok s ns L R F N fr" and m: "space_ok (round_space m)"
    "set (pages_of (round_space m)) \<inter> free_frames s ns = {}" "set (pages_of (round_space m)) \<subseteq> fr"
    "\<forall>a \<in> set ns. space_end (fdata (nodes s a)) \<le> unat (sp_base (round_space m)) \<or>
       space_end (round_space m) \<le> unat (sp_base (fdata (nodes s a)))"
    and sl: "heap_slack s (length ns + k)" and am: "ample N 16 0 s"
  shows "\<exists>s' ns' L' R' F' N' used. addMemorySpace (sys_malloc (Suc d)) (sys_free (Suc d)) m s = Some s' \<and>
    system_ok s' ns' L' R' F' N' (fr - used) \<and> used \<subseteq> free_frames s ns \<union> set (pages_of (round_space m)) \<and>
    free_frames s' ns' = free_frames s ns \<union> set (pages_of (round_space m)) - used \<and>
    (N' = N \<or> N' = N + 16) \<and> card used = run_cost N (N' - N) \<and>
    bytes s' = bytes s \<and> paging.more s' = paging.more s \<and> heap_slack s' (length ns' - 1 + k) \<and>
    (\<forall>p. p - of_nat TAG_SIZE \<in> allocated s L \<and> p \<notin> set ns \<longrightarrow> p - of_nat TAG_SIZE \<in> allocated s' L' \<and> p \<notin> set ns' \<and>
       req_size (mem s' (p - of_nat TAG_SIZE)) = req_size (mem s (p - of_nat TAG_SIZE)))"
proof -
  note S = system_heap [OF ok]
  let ?B = "{p. p - of_nat TAG_SIZE \<in> allocated s L} - set ns"
  have "given s L (set ns \<union> ?B)" using S(2) by (auto simp: given_def)
  then have n: "node_keep s ?B s (set ns) fr" unfolding node_keep_def node_inv_def using S(1) maps_kept_refl by blast
  have fr: "free_frames s ns \<union> set (pages_of (round_space m)) \<subseteq> fr" using S(4) m(3) by blast
  have sz: "unat (24 :: uint64) \<le> MAX_REQUEST" by (simp add: MAX_REQUEST_def TAG_SIZE_def)
  have pg: "unat (pages_for (ucast (24 :: uint64))) = 16"
    by (simp add: pages_for_def Let_def l_pageSize_def l_pageCount_def TAG_SIZE_def)
  have mf: "\<exists>p u. sys_malloc (Suc d) 24 t = Some (p, u) \<and> p \<noteq> NULL \<and> heap_slack u (length ns + k)"
    if t: "frames_inv t ns" "free_frames t ns \<subseteq> fr" "unat (qtd_buffer s) \<le> unat (qtd_buffer t)"
      "t = s\<lparr>qtd_buffer := qtd_buffer t, frame_buffer := frame_buffer t\<rparr>" for t
  proof -
    have E: "same_heap s t" "frames.more t = frames.more s" "frame_lock0 t = 0" "frame_lock1 t = 0"
      by (subst t(4), simp add: same_heap_def S(5,6))+
    have okt: "system_ok t ns L R F N fr" by (rule node_system [OF _ _ t(1) subset_refl t(2) E(3,4)]) (use S(1,2) heap_in_slot_cong [OF E(1,2)] in auto)
    from ample_runs [OF okt sz ample_more [OF t(4,3) am, unfolded pg [symmetric]], of d] obtain p u where r: "sys_malloc (Suc d) 24 t = Some (p, u)" .
    have "heap_slack t (length ns + k)" using sl heap_slack_cong [OF E(1)] by blast
    then show ?thesis using r malloc_real [OF okt sz r] malloc_slack [OF okt sz r] by blast
  qed
  from live.addMemorySpace_runs [OF S(3) subset_refl n S(5,6) sl m(1,2) fr m(4) mf] obtain s' where
    r: "addMemorySpace (sys_malloc (Suc d)) (sys_free (Suc d)) m s = Some s'"
      "\<forall>ns'. chain (nodes s') (avaliableMemory s') ns' \<longrightarrow> heap_slack s' (length ns' - 1 + k)" by blast
  from live.addMemorySpace_ok [OF S(3) subset_refl n S(5,6) m(1,2) fr m(4) r(1)] obtain ns' used A' where
    I: "frames_inv s' ns'" "set ns' \<subseteq> A'" "node_keep s ?B s' A' (fr - used)" "used \<subseteq> free_frames s ns \<union> set (pages_of (round_space m))"
      "free_frames s' ns' = free_frames s ns \<union> set (pages_of (round_space m)) - used" "frame_lock0 s' = 0" "frame_lock1 s' = 0"
      "grew 16 s s' used" by blast
  from I(3) obtain L' R' F' N' where H: "heap_in_slot s' L' R' F' N' (fr - used)" "given s' L' (A' \<union> ?B)" "A' \<inter> ?B = {}"
    "bytes s' = bytes s" "paging.more s' = paging.more s"
    "\<forall>p \<in> ?B. req_size (mem s' (p - of_nat TAG_SIZE)) = req_size (mem s (p - of_nat TAG_SIZE))"
    unfolding node_keep_def node_inv_def by blast
  have "free_frames s' ns' \<subseteq> fr - used" using I(5) fr by blast
  then have ok': "system_ok s' ns' L' R' F' N' (fr - used)" using node_system [OF H(1,2) I(1)] I(2,6,7) by blast
  have "N < 2 ^ 18" "N' < 2 ^ 18" using S(11) system_heap(11) [OF ok'] by simp_all
  note grew_cost [OF I(8) S(9) system_heap(9) [OF ok'] this]
  moreover note ok'
  moreover have "heap_slack s' (length ns' - 1 + k)" using r(2) I(1) by (simp add: frames_inv_def)
  moreover have "\<forall>p. p - of_nat TAG_SIZE \<in> allocated s L \<and> p \<notin> set ns \<longrightarrow> p - of_nat TAG_SIZE \<in> allocated s' L' \<and> p \<notin> set ns' \<and>
       req_size (mem s' (p - of_nat TAG_SIZE)) = req_size (mem s (p - of_nat TAG_SIZE))"
    using H(2,3,6) I(2) by (auto simp: given_def)
  ultimately show ?thesis using r(1) I(4,5) H(4,5) by (intro exI conjI) (assumption | blast)+
qed

text \<open>
  C10. \<open>allocate\<close>, called from outside the heap. The frame handed out was free and page-aligned, it and
  no other is gone from the free ones, and the invariant holds for a caller that now fills it; the list
  nodes the allocator drops go back to the heap, and no other block does. While the size classes have
  room for a node of every range, \<open>allocate\<close> returns whenever a frame is free: it panics only for want of memory.
\<close>

theorem allocate_takes_free_frame:
  assumes "system_ok s ns L R F N fr"
  shows "(\<forall>f s'. allocate (sys_free (Suc d)) s = Some (f, s') \<longrightarrow> unat f \<in> free_frames s ns \<and> 4096 dvd unat f \<and>
      (\<exists>ns' L' R' F' N'. system_ok s' ns' L' R' F' N' (fr - {unat f}) \<and> free_frames s' ns' = free_frames s ns - {unat f} \<and>
         set ns' \<subseteq> set ns \<and>
         (\<forall>b \<in> allocated s L. b + of_nat TAG_SIZE \<notin> set ns - set ns' \<longrightarrow> b \<in> allocated s' L'))) \<and>
    (heap_slack s (length ns) \<and> free_frames s ns \<noteq> {} \<longrightarrow> (\<exists>f s'. allocate (sys_free (Suc d)) s = Some (f, s')))"
proof -
  note S = system_heap [OF assms]
  have "node_keep s {} s (set ns) fr" unfolding node_keep_def node_inv_def using S(1,2) maps_kept_refl by auto
  from live.allocate_runs [OF S(3) subset_refl this S(5,6), of d]
  have "heap_slack s (length ns) \<and> free_frames s ns \<noteq> {} \<longrightarrow> (\<exists>f s'. allocate (sys_free (Suc d)) s = Some (f, s'))" by blast
  then show ?thesis using allocate_system [OF assms] by (intro conjI allI impI) (assumption | blast)+
qed

lemma boot_slack: "heap_slack boot_state 0"
  by (simp add: heap_slack_def liballoc_init_def boot_state_def MAXCOMPLETE_def)

theorem allocate_takes_free_frame_witness:
  "\<exists>f s' ns' L' R' F' N'. allocate (sys_free 2) boot_state = Some (f, s') \<and> unat f \<in> boot_frames \<and>
     system_ok s' ns' L' R' F' N' (boot_frames - {unat f})"
proof -
  note S = system_heap [OF boot_system_ok]
  have two: "sys_free 2 = sys_free (Suc (Suc 0))" by (simp only: numeral_2_eq_2)
  note A = allocate_takes_free_frame [OF boot_system_ok, of "Suc 0", folded two]
  have "free_frames boot_state [] \<noteq> {}" using boot_frames_inv(2) boot_frames(2) by (metis card.empty zero_neq_numeral)
  then have "heap_slack boot_state (length ([] :: addr list)) \<and> free_frames boot_state [] \<noteq> {}" using boot_slack by simp
  from mp [OF conjunct2 [OF A] this] obtain f s' where r: "allocate (sys_free 2) boot_state = Some (f, s')" by blast
  from conjunct1 [OF A, rule_format, OF r] obtain ns' L' R' F' N' where
    a: "unat f \<in> free_frames boot_state []" "system_ok s' ns' L' R' F' N' (boot_frames - {unat f})" by blast
  from a(1) S(4) have "unat f \<in> boot_frames" by (rule set_mp [rotated])
  then show ?thesis using r a(2) by (intro exI conjI)
qed



section \<open>Using freed memory again\<close>

text \<open>A request that a listed block satisfies asks for no page; a provider that has none serves it as well.\<close>

interpretation unasked: page_source "liballoc_free (sys_malloc d) (sys_free d)"
    "\<lambda>s R. liballoc.more s = m \<and> vm_ok s N fr \<and> N < 2 ^ 18 \<and> in_slot R N" "\<lambda>n s. Some (NULL, s)" for d m N fr
  by unfold_locales (simp add: same_heap_def)

lemma malloc_listed:
  assumes ok: "heap_ok (liballoc_init s) L R F" and b: "int i = min_index (getexp (ucast sz) + MODE)" "i < MAXEXP" "b \<in> set (F i)"
    "enough_space (mem s b) sz"
  shows "kernel_malloc palloc sz s = kernel_malloc palloc' sz s"
proof -
  let ?s = "liballoc_init (s\<lparr>alloc_lock := set_bit 0 (alloc_lock s)\<rparr>)"
  have "heap_ok ?s L R F" using ok heap_but_cong [of ?s "liballoc_init s"] by (simp add: liballoc_init_def split: if_splits)
  note H = heap_butD [OF this]
  note F = lists_okD [OF H(1) b(2)]
  have "NULL \<notin> set (F i)" using F(2) H(1) by (auto simp: lists_ok_def)
  from find_tag_ok [OF F(3) this, of sz] obtain c where c: "find_tag sz (l_freePages ?s ! i) ?s = Some c"
    "if c = NULL then \<forall>x \<in> set (F i). \<not> enough_space (mem ?s x) sz else c \<in> set (F i) \<and> enough_space (mem ?s c) sz"
    unfolding F(4) by blast
  have m: "mem ?s = mem s" by (simp add: liballoc_init_def)
  have "c \<noteq> NULL" using c(2) b(3,4) unfolding m by auto
  moreover have "get_freePages (min_index (getexp (ucast sz) + MODE)) ?s = Some (l_freePages ?s ! i)"
    using b(2) by (simp add: get_freePages_def b(1) [symmetric])
  ultimately have "take_tag palloc sz ?s = take_tag palloc' sz ?s" using c(1) by (simp add: take_tag_def)
  then show ?thesis by (simp add: kernel_malloc_def liballoc_lock_def acquireLock_def Let_def)
qed

text \<open>
  C13. Freed memory is used again: a request whose size class has a large enough free block is served
  from there, without a page or a frame, also when no frame is left or the last table is full.
\<close>

theorem malloc_reuses_free_block:
  assumes "system_ok s ns L R F N fr" "unat sz \<le> MAX_REQUEST" "int i = min_index (getexp (ucast sz) + MODE)" "i < MAXEXP"
    "b \<in> set (F i)" "enough_space (mem s b) sz"
  shows "\<exists>p s' L' R' F'. sys_malloc (Suc d) sz s = Some (p, s') \<and> p \<noteq> NULL \<and> system_ok s' ns L' R' F' N fr \<and>
    allocated s' L' = insert (p - of_nat TAG_SIZE) (allocated s L) \<and> liballoc.more s' = liballoc.more s"
proof -
  note S = system_heap [OF assms(1)]
  let ?pal = "\<lambda>n s. Some (NULL, s)"
  have e: "sys_malloc (Suc d) sz s = kernel_malloc ?pal sz s"
    using malloc_listed [OF S(8) assms(3-6), of "liballoc_alloc (sys_free d)" ?pal] by simp
  have pi: "liballoc.more s = liballoc.more s \<and> vm_ok s N fr \<and> N < 2 ^ 18 \<and> in_slot R N" using S(9,11,12) by simp
  have "\<exists>p s'. kernel_malloc ?pal sz s = Some (p, s')"
    by (rule unasked.malloc_returns [OF pi S(7,8) assms(2)]) simp
  then obtain p s' where r: "kernel_malloc ?pal sz s = Some (p, s')" by blast
  then have run: "sys_malloc (Suc d) sz s = Some (p, s')" unfolding e .
  have p: "p \<noteq> NULL" by (rule malloc_real [OF assms(1,2) run])
  from unasked.malloc_ok [OF pi S(7,8) assms(2) r] obtain L' R' F' where
    M: "liballoc.more s' = liballoc.more s" "vm_ok s' N fr" "in_slot R' N" "malloc_post p sz s L s' L' R' F'" by blast
  note P = M(4) [unfolded malloc_post_def] and f = more_frames [OF M(1)]
  have "heap_in_slot s' L' R' F' N fr" using P M(2,3) S(10,11) liballoc_init_done [of s'] by (simp add: heap_in_slot_def)
  moreover have "given s' L' (set ns)" using given_malloc(1) [OF S(2) M(4)] p by (simp add: given_def)
  moreover have "frames_inv s' ns" "free_frames s' ns \<subseteq> fr" using S(3,4) by (simp_all add: frames_inv_def free_frames_def buffered_def f)
  ultimately have "system_ok s' ns L' R' F' N fr" using S(5,6) by (simp add: system_ok_def f)
  then show ?thesis using run p P M(1) by auto
qed

text \<open>
  The state of \<open>malloc_faults_on_full_table\<close>, but with a block to free: 512 pages mapped, one region.
\<close>

theorem malloc_reuses_free_block_witness:
  "\<exists>s p s'. sys_free 1 (slot_addr 0 + of_nat TAG_SIZE) used_state = Some s \<and> sys_malloc 1 40000 s = Some (p, s') \<and> p \<noteq> NULL"
proof -
  let ?a = "slot_addr 0" and ?p = "slot_addr 0 + of_nat TAG_SIZE"
  have u: "?a \<noteq> NULL" "?p \<noteq> NULL" using slot_tag_not_null [of 0] by auto
  have t: "mem used_state ?a = used_tag" "alloc_lock used_state = 0" "l_freePages used_state = replicate MAXEXP NULL"
    "l_completePages used_state = replicate MAXEXP 0" "l_initialized used_state = 1" by (simp_all add: block_state_def paged_state_def boot_state_def)
  have ix: "min_index (getexp (65536 - of_nat TAG_SIZE)) = int 15" "min_index (getexp (ucast (40000 :: uint64)) + MODE) = int 15" by code_simp+
  have a: "?p - of_nat TAG_SIZE \<in> allocated used_state {?a}" using t(1) by (simp add: allocated_def used_tag_def)
  have "l_completePages used_state ! i \<noteq> MAXCOMPLETE" if "i < MAXEXP" for i using that t(4) by (simp add: MAXCOMPLETE_def)
  from free_system [OF used_system_ok a _ this, of 0] obtain s L F where
    f: "sys_free (Suc 0) ?p used_state = Some s" "system_ok s [] L used_regions F 512 boot_frames" by auto
  have "l_freePages s ! 15 = ?a \<and> real_size (mem s ?a) = 65536 \<and> l_initialized s = 1"
    using f(1) u t ix(1)
    by (simp add: kernel_free_def liballoc_lock_def liballoc_unlock_def acquireLock_def rd_def wr_def upd_def Let_def used_tag_def melt_left_loop.simps
        absorb_right_loop.simps give_back_def get_completePages_def add_completePages_def insert_tag_def get_freePages_def set_freePages_def
        MAXCOMPLETE_def MAXEXP_def split: if_splits) auto
  then have e: "l_freePages s ! 15 = ?a" "enough_space (mem s ?a) 40000" "l_initialized s \<noteq> 0" by (simp_all add: enough_space_def TAG_SIZE_def)
  have "lists_ok s L F" using heap_butD(1) [OF system_heap(8) [OF f(2)]] liballoc_init_done [OF e(3)] by simp
  from lists_okD(4) [OF this, of 15] have "?a = head_or (F 15) NULL" using e(1) by (simp add: MAXEXP_def)
  then have b: "?a \<in> set (F 15)" using u(1) by (cases "F 15") auto
  have sz: "unat (40000 :: uint64) \<le> MAX_REQUEST" "15 < MAXEXP" by (simp_all add: MAX_REQUEST_def TAG_SIZE_def MAXEXP_def)
  from malloc_reuses_free_block [OF f(2) sz(1) ix(2) [symmetric] sz(2) b e(2), of 0] show ?thesis
    using f(1) unfolding One_nat_def by blast
qed

end
