(* ===== verification/System_Store.thy ===== *)
theory System_Store
  imports System_Live
begin

text \<open>
  The heap as its clients see it: a store of blocks of bytes, and frames handed out. Every call the code
  serves is a step of this specification, whatever calls went before, so a client that keeps to its own blocks
  reads back what it wrote.
\<close>

section \<open>The specification\<close>

datatype call =
    Malloc uint64
  | Calloc uint64 uint64
  | Realloc addr uint64
  | Free addr
  | Frame
  | Store addr nat uint8
  | Load addr nat

datatype reply = Done | Addr addr | Value uint8

record store =
  blocks :: "addr \<rightharpoonup> uint8 list"
  held :: "addr set"

text \<open>A new block of \<open>n\<close> bytes: not at address 0, not wrapping, apart from every block there is.\<close>

definition fresh :: "addr \<Rightarrow> nat \<Rightarrow> store \<Rightarrow> bool" where
  "fresh p n st \<longleftrightarrow> in_memory p n \<and> p \<notin> dom (blocks st) \<and>
     (\<forall>q bs. blocks st q = Some bs \<longrightarrow> {unat p ..< unat p + n} \<inter> {unat q ..< unat q + length bs} = {})"

inductive store_step :: "store \<Rightarrow> call \<Rightarrow> reply \<Rightarrow> store \<Rightarrow> bool" where
  malloc: "fresh p (unat sz) st \<Longrightarrow> length bs = unat sz \<Longrightarrow>
     store_step st (Malloc sz) (Addr p) (st\<lparr>blocks := (blocks st)(p \<mapsto> bs)\<rparr>)"
| calloc: "fresh p (unat n * unat sz) st \<Longrightarrow>
     store_step st (Calloc n sz) (Addr p) (st\<lparr>blocks := (blocks st)(p \<mapsto> replicate (unat n * unat sz) 0)\<rparr>)"
| realloc: "blocks st p = Some bs \<Longrightarrow> p \<noteq> NULL \<Longrightarrow> sz \<noteq> 0 \<Longrightarrow> fresh q (unat sz) st \<Longrightarrow> length cs = unat sz \<Longrightarrow>
     \<forall>k < min (unat sz) (length bs). cs ! k = bs ! k \<Longrightarrow>
     store_step st (Realloc p sz) (Addr q) (st\<lparr>blocks := (blocks st)(q \<mapsto> cs, p := None)\<rparr>)"
| realloc_new: "sz \<noteq> 0 \<Longrightarrow> fresh q (unat sz) st \<Longrightarrow> length cs = unat sz \<Longrightarrow>
     store_step st (Realloc NULL sz) (Addr q) (st\<lparr>blocks := (blocks st)(q \<mapsto> cs)\<rparr>)"
| realloc_free: "store_step st (Realloc p 0) (Addr NULL) (st\<lparr>blocks := (blocks st)(p := None)\<rparr>)"
| free: "store_step st (Free p) Done (st\<lparr>blocks := (blocks st)(p := None)\<rparr>)"
| frame: "f \<notin> held st \<Longrightarrow> 4096 dvd unat f \<Longrightarrow> store_step st Frame (Addr f) (st\<lparr>held := insert f (held st)\<rparr>)"
| store: "blocks st p = Some bs \<Longrightarrow> k < length bs \<Longrightarrow>
     store_step st (Store p k v) Done (st\<lparr>blocks := (blocks st)(p \<mapsto> bs[k := v])\<rparr>)"
| load: "blocks st p = Some bs \<Longrightarrow> k < length bs \<Longrightarrow> store_step st (Load p k) (Value (bs ! k)) st"

inductive_cases store_step_load: "store_step st (Load p k) r st'"
inductive_cases store_step_store: "store_step st (Store p k v) r st'"

text \<open>
  What a client owes: it frees, resizes and touches its own blocks only, keeps to the sizes that do not
  wrap. It knows the addresses and sizes of its blocks.
\<close>

fun allowed :: "(addr \<rightharpoonup> nat) \<Rightarrow> call \<Rightarrow> bool" where
  "allowed own (Malloc sz) \<longleftrightarrow> unat sz \<le> MAX_REQUEST"
| "allowed own (Calloc n sz) \<longleftrightarrow> unat n * unat sz < 2 ^ 31"
| "allowed own (Realloc p sz) \<longleftrightarrow> (p = NULL \<or> own p \<noteq> None) \<and> unat sz \<le> MAX_REQUEST"
| "allowed own (Free p) \<longleftrightarrow> p = NULL \<or> own p \<noteq> None"
| "allowed own Frame \<longleftrightarrow> True"
| "allowed own (Store p k v) \<longleftrightarrow> (case own p of None \<Rightarrow> False | Some n \<Rightarrow> k < n)"
| "allowed own (Load p k) \<longleftrightarrow> (case own p of None \<Rightarrow> False | Some n \<Rightarrow> k < n)"

fun owned :: "(addr \<rightharpoonup> nat) \<Rightarrow> call \<Rightarrow> reply \<Rightarrow> (addr \<rightharpoonup> nat)" where
  "owned own (Malloc sz) (Addr p) = own(p \<mapsto> unat sz)"
| "owned own (Calloc n sz) (Addr p) = own(p \<mapsto> unat n * unat sz)"
| "owned own (Realloc p sz) (Addr q) = 
     (if sz = 0 then own(p := None) else if p = NULL then own(q \<mapsto> unat sz) else own(q \<mapsto> unat sz, p := None))"
| "owned own (Free p) r = own(p := None)"
| "owned own c r = own"

definition sizes :: "store \<Rightarrow> addr \<rightharpoonup> nat" where
  "sizes st = map_option length \<circ> blocks st"

section \<open>The code\<close>

fun perform :: "nat \<Rightarrow> call \<Rightarrow> 'a paging_scheme \<Rightarrow> (reply \<times> 'a paging_scheme) option" where
  "perform d (Malloc sz) s = do { (p, s) \<leftarrow> sys_malloc (Suc d) sz s; Some (Addr p, s) }"
| "perform d (Calloc n sz) s = do { (p, s) \<leftarrow> kernel_calloc (liballoc_alloc (sys_free d)) n sz s; Some (Addr p, s) }"
| "perform d (Realloc p sz) s = do { (q, s) \<leftarrow> sys_realloc d p sz s; Some (Addr q, s) }"
| "perform d (Free p) s = do { s \<leftarrow> sys_free (Suc d) p s; Some (Done, s) }"
| "perform d Frame s = do { (f, s) \<leftarrow> allocate (sys_free (Suc d)) s; Some (Addr f, s) }"
| "perform d (Store p k v) s = Some (Done, s\<lparr>bytes := (bytes s)(p + of_nat k := v)\<rparr>)"
| "perform d (Load p k) s = Some (Value (bytes s (p + of_nat k)), s)"

declare perform.simps [simp del]

section \<open>What the state stores\<close>

definition represents :: "'a paging_scheme \<Rightarrow> addr list \<Rightarrow> addr set \<Rightarrow> store \<Rightarrow> bool" where
  "represents s ns L st \<longleftrightarrow> (\<forall>p bs. blocks st p = Some bs \<longrightarrow> p - of_nat TAG_SIZE \<in> allocated s L \<and> p \<notin> set ns \<and>
     unat (req_size (mem s (p - of_nat TAG_SIZE))) = length bs \<and> (\<forall>k < length bs. bytes s (p + of_nat k) = bs ! k))"

text \<open>A frame held is neither free nor part of the heap to come.\<close>

definition implements :: "'a paging_scheme \<Rightarrow> store \<Rightarrow> bool" where
  "implements s st \<longleftrightarrow> (\<exists>ns L R F N fr. system_ok s ns L R F N fr \<and> represents s ns L st \<and> (\<forall>f \<in> held st. unat f \<notin> fr))"

lemma implementsI:
  "system_ok s ns L R F N fr \<Longrightarrow> represents s ns L st \<Longrightarrow> \<forall>f \<in> held st. unat f \<notin> fr \<Longrightarrow> implements s st"
  unfolding implements_def by (intro exI conjI)

lemma implementsE:
  assumes "implements s st"
  obtains ns L R F N fr where "system_ok s ns L R F N fr" "represents s ns L st" "\<forall>f \<in> held st. unat f \<notin> fr"
  using assms unfolding implements_def by (elim exE conjE) (rule that)

lemma represents_block:
  assumes ok: "system_ok s ns L R F N fr" and r: "represents s ns L st" "blocks st p = Some bs"
  shows "own_block s L N p (length bs)" "in_memory p (length bs)"
proof -
  have p: "p - of_nat TAG_SIZE \<in> allocated s L" "unat (req_size (mem s (p - of_nat TAG_SIZE))) = length bs"
    using r by (simp_all add: represents_def)
  show o: "own_block s L N p (length bs)" using block_memory(1) [OF ok p(1)] p(2) by simp
  have "N < 2 ^ 18" using system_heap(11) [OF ok] by simp
  then show "in_memory p (length bs)" by (rule own_block_memory [OF o _ block_memory(2) [OF ok p(1)]])
qed

lemma represents_disjoint:
  assumes ok: "system_ok s ns L R F N fr" and r: "represents s ns L st" "blocks st p = Some bs" "blocks st q = Some cs" and "p \<noteq> q"
  shows "{unat p ..< unat p + length bs} \<inter> {unat q ..< unat q + length cs} = {}"
proof -
  note P = represents_block(1) [OF ok r(1,2)] and Q = represents_block(1) [OF ok r(1,3)]
  have "q - of_nat TAG_SIZE \<in> allocated s L - {p - of_nat TAG_SIZE}" using r assms(5) by (simp add: represents_def)
  then have "payload s (q - of_nat TAG_SIZE) \<inter> {unat p ..< unat p + length bs} = {}" using P unfolding own_block_def by blast
  then show ?thesis using Q unfolding own_block_def by blast
qed

text \<open>Writing inside a block.\<close>

lemma implements_write:
  assumes i: "implements s st" and p: "blocks st p = Some bs" "length cs = length bs"
    and m: "\<And>k. k < length cs \<Longrightarrow> m (p + of_nat k) = cs ! k" "\<And>a. unat a \<notin> {unat p ..< unat p + length bs} \<Longrightarrow> m a = bytes s a"
  shows "implements (s\<lparr>bytes := m\<rparr>) (st\<lparr>blocks := (blocks st)(p \<mapsto> cs)\<rparr>)"
proof -
  obtain ns L R F N fr where ok: "system_ok s ns L R F N fr" and r: "represents s ns L st" and h: "\<forall>f \<in> held st. unat f \<notin> fr"
    by (rule implementsE [OF i])
  have "represents (s\<lparr>bytes := m\<rparr>) ns L (st\<lparr>blocks := (blocks st)(p \<mapsto> cs)\<rparr>)"
    unfolding represents_def
  proof (intro allI impI)
    fix q ds assume q: "blocks (st\<lparr>blocks := (blocks st)(p \<mapsto> cs)\<rparr>) q = Some ds"
    show "q - of_nat TAG_SIZE \<in> allocated (s\<lparr>bytes := m\<rparr>) L \<and> q \<notin> set ns \<and>
        unat (req_size (mem (s\<lparr>bytes := m\<rparr>) (q - of_nat TAG_SIZE))) = length ds \<and>
        (\<forall>k < length ds. bytes (s\<lparr>bytes := m\<rparr>) (q + of_nat k) = ds ! k)"
    proof (cases "q = p")
      case True
      then show ?thesis using q p r m(1) by (simp add: represents_def system_ok_bytes)
    next
      case False
      then have Q: "blocks st q = Some ds" using q by simp
      have "m (q + of_nat k) = bytes s (q + of_nat k)" if k: "k < length ds" for k
      proof (rule m(2))
        have "unat (q + of_nat k) = unat q + k" using in_memory_at [OF represents_block(2) [OF ok r Q] k] by blast
        then show "unat (q + of_nat k) \<notin> {unat p ..< unat p + length bs}"
          using represents_disjoint [OF ok r Q p(1) False] k by fastforce
      qed
      then show ?thesis using Q r by (simp add: represents_def system_ok_bytes)
    qed
  qed
  moreover have "system_ok (s\<lparr>bytes := m\<rparr>) ns L R F N fr" using ok system_ok_bytes(1) by blast
  ultimately show ?thesis using h by (intro implementsI) simp_all
qed

section \<open>The calls\<close>

lemma implements_malloc:
  assumes i: "implements s st" and sz: "unat sz \<le> MAX_REQUEST" and run: "sys_malloc (Suc d) sz s = Some (p, s')"
  shows "fresh p (unat sz) st" "implements s' (st\<lparr>blocks := (blocks st)(p \<mapsto> map (\<lambda>k. bytes s (p + of_nat k)) [0..<unat sz])\<rparr>)"
    "bytes s' = bytes s"
proof -
  let ?P = "p - of_nat TAG_SIZE" and ?cs = "map (\<lambda>k. bytes s (p + of_nat k)) [0..<unat sz]"
  obtain ns L R F N fr where ok: "system_ok s ns L R F N fr" and r: "represents s ns L st" and h: "\<forall>f \<in> held st. unat f \<notin> fr"
    by (rule implementsE [OF i])
  note S = system_heap [OF ok]
  have p: "p \<noteq> NULL" by (rule malloc_real [OF ok sz run])
  from sys_malloc_heap [OF S(1,3,4,5,6) sz run] obtain L' R' F' N' ns' used where
    m: "heap_in_slot s' L' R' F' N' (fr - used)" "malloc_post p sz s L s' L' R' F'" and
    f: "frames_inv s' ns'" "set ns' \<subseteq> set ns" "free_frames s' ns' = free_frames s ns - used" "frame_lock0 s' = 0" "frame_lock1 s' = 0"
    by blast
  have M: "?P \<notin> allocated s L" "allocated s' L' = insert ?P (allocated s L)" "unat (req_size (mem s' ?P)) = unat sz"
    "\<forall>b \<in> allocated s L. req_size (mem s' b) = req_size (mem s b)" "bytes s' = bytes s" using m(2) p by (simp_all add: malloc_post_def)
  have g: "given s' L' (set ns)" using S(2) M(2) by (auto simp: given_def)
  have "free_frames s' ns' \<subseteq> fr - used" using f(3) S(4) by blast
  note ok' = node_system [OF m(1) g f(1,2) this f(4,5)]
  have pn: "p \<notin> set ns" using S(2) M(1) by (auto simp: given_def)
  have old: "q \<noteq> p" if "blocks st q = Some bs" for q bs using that r M(1) by (auto simp: represents_def)
  have r': "represents s' ns' L' (st\<lparr>blocks := (blocks st)(p \<mapsto> ?cs)\<rparr>)"
    unfolding represents_def
  proof (intro allI impI)
    fix q ds assume q: "blocks (st\<lparr>blocks := (blocks st)(p \<mapsto> ?cs)\<rparr>) q = Some ds"
    show "q - of_nat TAG_SIZE \<in> allocated s' L' \<and> q \<notin> set ns' \<and>
        unat (req_size (mem s' (q - of_nat TAG_SIZE))) = length ds \<and> (\<forall>k < length ds. bytes s' (q + of_nat k) = ds ! k)"
    proof (cases "q = p")
      case True
      then show ?thesis using q pn f(2) M by auto
    next
      case False
      then have Q: "q - of_nat TAG_SIZE \<in> allocated s L" "q \<notin> set ns" "unat (req_size (mem s (q - of_nat TAG_SIZE))) = length ds"
        "\<forall>k < length ds. bytes s (q + of_nat k) = ds ! k" using q r by (simp_all add: represents_def)
      then show ?thesis using f(2) M by auto
    qed
  qed
  show "bytes s' = bytes s" by (rule M(5))
  have "\<forall>f \<in> held st. unat f \<notin> fr - used" using h by blast
  then show "implements s' (st\<lparr>blocks := (blocks st)(p \<mapsto> ?cs)\<rparr>)" by (intro implementsI [OF ok' r']) simp
  have new: "in_memory p (unat sz)" using represents_block(2) [OF ok' r', of p] by simp
  have "{unat p ..< unat p + unat sz} \<inter> {unat q ..< unat q + length bs} = {}" if q: "blocks st q = Some bs" for q bs
    using represents_disjoint [OF ok' r', of p ?cs q bs] q old [OF q] by auto
  then show "fresh p (unat sz) st" using new old unfolding fresh_def by blast
qed

lemma implements_free:
  assumes i: "implements s st" and p: "blocks st p = Some bs" and run: "sys_free (Suc d) p s = Some s'"
  shows "implements s' (st\<lparr>blocks := (blocks st)(p := None)\<rparr>)" "bytes s' = bytes s"
proof -
  obtain ns L R F N fr where ok: "system_ok s ns L R F N fr" and r: "represents s ns L st" and h: "\<forall>f \<in> held st. unat f \<notin> fr"
    by (rule implementsE [OF i])
  note S = system_heap [OF ok]
  have P: "p - of_nat TAG_SIZE \<in> allocated s L" "p \<notin> set ns" using r p by (simp_all add: represents_def)
  from sys_free_heap [OF S(1) P(1) run] obtain L' R' F' where
    f: "heap_in_slot s' L' R' F' N fr" "free_post p s L s' L' R' F'" "liballoc.more s' = liballoc.more s" by blast
  note M = more_frames [OF f(3)] and Q = f(2) [unfolded free_post_def]
  have g: "given s' L' (set ns)" using S(2) P(2) Q by (auto simp: given_def)
  have i': "frames_inv s' ns" "free_frames s' ns \<subseteq> fr" "frame_lock0 s' = 0" "frame_lock1 s' = 0"
    using S(3-6) by (simp_all add: frames_inv_def free_frames_def buffered_def M)
  note ok' = node_system [OF f(1) g i'(1) subset_refl i'(2-4)]
  have "represents s' ns L' (st\<lparr>blocks := (blocks st)(p := None)\<rparr>)"
    using r Q unfolding represents_def by (auto split: if_splits)
  then show "implements s' (st\<lparr>blocks := (blocks st)(p := None)\<rparr>)" using h by (intro implementsI [OF ok']) simp_all
  show "bytes s' = bytes s" using Q by blast
qed

lemma implements_frame:
  assumes i: "implements s st" and run: "allocate (sys_free (Suc d)) s = Some (f, s')"
  shows "f \<notin> held st" "4096 dvd unat f" "implements s' (st\<lparr>held := insert f (held st)\<rparr>)"
proof -
  obtain ns L R F N fr where ok: "system_ok s ns L R F N fr" and r: "represents s ns L st" and h: "\<forall>f \<in> held st. unat f \<notin> fr"
    by (rule implementsE [OF i])
  note S = system_heap [OF ok]
  let ?B = "dom (blocks st)"
  have "given s L (set ns \<union> ?B)" using S(2) r by (auto simp: given_def represents_def)
  moreover have "set ns \<inter> ?B = {}" using r by (auto simp: represents_def)
  ultimately have n: "node_keep s ?B s (set ns) fr" unfolding node_keep_def node_inv_def using S(1) maps_kept_refl by blast
  from live.allocate_ok [OF S(3) subset_refl n S(5,6) run] obtain ns' where
    I: "frames_inv s' ns'" "set ns' \<subseteq> set ns" "unat f \<in> free_frames s ns" "free_frames s' ns' = free_frames s ns - {unat f}"
      "node_keep s ?B s' (set ns - (set ns - set ns')) fr" "frame_lock0 s' = 0" "frame_lock1 s' = 0" using S(6) by auto
  from I(5) obtain L' R' F' N' where H: "heap_in_slot s' L' R' F' N' fr" "given s' L' (set ns' \<union> ?B)" "bytes s' = bytes s"
    "\<forall>p \<in> ?B. req_size (mem s' (p - of_nat TAG_SIZE)) = req_size (mem s (p - of_nat TAG_SIZE))"
    using I(2) unfolding node_keep_def node_inv_def by (auto simp: double_diff)
  have g: "given s' L' (set ns')" using H(2) by (simp add: given_def)
  have "free_frames s' ns' \<subseteq> fr - {unat f}" using I(4) S(4) by blast
  note ok' = node_system [OF heap_in_slot_less [OF H(1) Diff_subset] g I(1) subset_refl this I(6,7)]
  have "represents s' ns' L' (st\<lparr>held := insert f (held st)\<rparr>)"
    using r H(2-4) I(2) unfolding represents_def given_def by (simp add: domI) (blast dest: domI)
  moreover have "\<forall>g \<in> held (st\<lparr>held := insert f (held st)\<rparr>). unat g \<notin> fr - {unat f}" using h by auto
  ultimately show "implements s' (st\<lparr>held := insert f (held st)\<rparr>)" by (intro implementsI [OF ok'])
  show "f \<notin> held st" using h I(3) S(4) by blast
  show "4096 dvd unat f" by (rule free_aligned [OF S(3) I(3)])
qed

lemma blocks_upd_upd: "st\<lparr>blocks := a\<rparr>\<lparr>blocks := b\<rparr> = st\<lparr>blocks := b\<rparr>"
  by simp

lemma implements_calloc:
  assumes i: "implements s st" and sz: "unat n * unat sz < 2 ^ 31"
    and run: "kernel_calloc (liballoc_alloc (sys_free d)) n sz s = Some (p, s')"
  shows "fresh p (unat n * unat sz) st" "implements s' (st\<lparr>blocks := (blocks st)(p \<mapsto> replicate (unat n * unat sz) 0)\<rparr>)"
proof -
  have n: "unat (n * sz) = unat n * unat sz" by (rule unat_mult_lem [THEN iffD1]) (use sz in simp)
  have z: "unat (n * sz) \<le> MAX_REQUEST" using sz n by (simp add: MAX_REQUEST_def TAG_SIZE_def)
  have c: "(scast (ucast (n * sz) :: uint32) :: uint64) = n * sz" by (rule scast_ucast_small) (use sz n in simp)
  obtain s1 where m: "sys_malloc (Suc d) (n * sz) s = Some (p, s1)" "liballoc_memset p 0 (n * sz) s1 = Some s'"
    using run by (auto simp: kernel_calloc_def c bind_eq_Some_conv)
  note M = implements_malloc [OF i z m(1)]
  let ?st = "st\<lparr>blocks := (blocks st)(p \<mapsto> map (\<lambda>k. bytes s (p + of_nat k)) [0..<unat (n * sz)])\<rparr>"
  let ?f = "\<lambda>a. if unat a \<in> {unat p ..< unat p + unat (n * sz)} then 0 else bytes s1 a"
  have mem: "in_memory p (unat (n * sz))" using M(1) by (simp add: fresh_def)
  have s': "s' = s1\<lparr>bytes := ?f\<rparr>"
    using m(2) memset_loop_eq [where i = 0 and p = p and n = "unat (n * sz)" and c = 0 and s = s1] mem
    by (simp add: liballoc_memset_def)
  show "fresh p (unat n * unat sz) st" using M(1) unfolding n .
  have "implements (s1\<lparr>bytes := ?f\<rparr>) (?st\<lparr>blocks := (blocks ?st)(p \<mapsto> replicate (unat (n * sz)) 0)\<rparr>)"
  proof (rule implements_write [OF M(2)])
    show "?f (p + of_nat k) = replicate (unat (n * sz)) 0 ! k" if "k < length (replicate (unat (n * sz)) (0 :: uint8))" for k
    proof -
      have k: "k < unat (n * sz)" using that by simp
      then have "unat (p + of_nat k) = unat p + k" using in_memory_at [OF mem k] by blast
      then show ?thesis using k by simp
    qed
  qed auto
  then show "implements s' (st\<lparr>blocks := (blocks st)(p \<mapsto> replicate (unat n * unat sz) 0)\<rparr>)" unfolding s' n by simp
qed

lemma implements_realloc:
  assumes i: "implements s st" and p: "blocks st p = Some bs" and sz: "sz \<noteq> 0" "unat sz \<le> MAX_REQUEST"
    and run: "sys_realloc d p sz s = Some (q, s')"
  shows "fresh q (unat sz) st \<and> (\<exists>cs. length cs = unat sz \<and> (\<forall>k < min (unat sz) (length bs). cs ! k = bs ! k) \<and>
    implements s' (st\<lparr>blocks := (blocks st)(q \<mapsto> cs, p := None)\<rparr>))"
proof -
  obtain ns L R F N fr where ok: "system_ok s ns L R F N fr" and r: "represents s ns L st" by (rule implementsE [OF i])
  have P: "p - of_nat TAG_SIZE \<in> allocated s L" "unat (req_size (mem s (p - of_nat TAG_SIZE))) = length bs"
    "\<forall>k < length bs. bytes s (p + of_nat k) = bs ! k" using r p by (simp_all add: represents_def)
  note B = block_memory [OF ok P(1)]
  let ?rs = "req_size (mem s (p - of_nat TAG_SIZE))"
  let ?r = "ucast (if sz < ucast ?rs then ucast sz else ?rs) :: uint64"
  have l: "liballoc_lock s = Some (s\<lparr>alloc_lock := 1\<rparr>)" "liballoc_unlock (s\<lparr>alloc_lock := 1\<rparr>) = s"
    using system_heap(7) [OF ok] by (simp_all add: liballoc_lock_def liballoc_unlock_def)
  obtain s1 s2 where m: "sys_malloc (Suc d) sz s = Some (q, s1)" "liballoc_memcpy q p ?r s1 = Some s2" "sys_free (Suc d) p s2 = Some s'"
    using run l B(2,3) sz(1) by (auto simp: kernel_realloc_def rd_def bind_eq_Some_conv Let_def)
  have n: "unat ?r = min (unat sz) (length bs)" using min_size [OF sz(2), of ?rs] P(2) by simp
  note M = implements_malloc [OF i sz(2) m(1)]
  let ?n = "min (unat sz) (length bs)"
  have q: "q \<noteq> p" "in_memory q (unat sz)" "{unat q ..< unat q + unat sz} \<inter> {unat p ..< unat p + length bs} = {}"
    using M(1) p unfolding fresh_def by auto
  have "in_memory q ?n" "in_memory p ?n" using q(2) represents_block(2) [OF ok r p] by (auto simp: in_memory_def min_def)
  moreover have "apart q p ?n" using q(3) by (auto simp: apart_def)
  ultimately have s2: "s2 = s1\<lparr>bytes := copied q p ?n (bytes s)\<rparr>" using memcpy_eq [of q ?r p s1] m(2) M(3) n by simp
  let ?c = "copied q p ?n (bytes s)"
  let ?cs = "map (\<lambda>k. ?c (q + of_nat k)) [0..<unat sz]"
  let ?st = "st\<lparr>blocks := (blocks st)(q \<mapsto> map (\<lambda>k. bytes s (q + of_nat k)) [0..<unat sz])\<rparr>"
  have "implements (s1\<lparr>bytes := ?c\<rparr>) (?st\<lparr>blocks := (blocks ?st)(q \<mapsto> ?cs)\<rparr>)"
  proof (rule implements_write [OF M(2)])
    fix a :: addr assume a: "unat a \<notin> {unat q ..< unat q + length (map (\<lambda>k. bytes s (q + of_nat k)) [0..<unat sz])}"
    then have "\<not> unat (a - q) < ?n" unfolding in_memory_diff [OF \<open>in_memory q ?n\<close>] by auto
    then show "?c a = bytes s1 a" unfolding copied_def M(3) by (rule if_not_P)
  qed auto
  then have i2: "implements s2 (st\<lparr>blocks := (blocks st)(q \<mapsto> ?cs)\<rparr>)" unfolding s2 by simp
  have "blocks (st\<lparr>blocks := (blocks st)(q \<mapsto> ?cs)\<rparr>) p = Some bs" using p q(1) by simp
  from implements_free(1) [OF i2 this m(3)] have "implements s' (st\<lparr>blocks := (blocks st)(q \<mapsto> ?cs, p := None)\<rparr>)" by simp
  moreover have "?cs ! k = bs ! k" if k: "k < ?n" for k
  proof -
    have "unat (of_nat k :: addr) = k" using k q(2) by (intro unat_of_nat_small) (simp add: in_memory_def)
    then have "?c (q + of_nat k) = bytes s (p + of_nat k)" using k by (simp add: copied_def)
    then show ?thesis using k P(3) by simp
  qed
  ultimately show ?thesis using M(1) by (intro conjI exI [of _ ?cs]) auto
qed

section \<open>Refinement\<close>

lemma implements_at:
  "implements s st \<Longrightarrow> blocks st p = Some bs \<Longrightarrow> k < length bs \<Longrightarrow>
    bytes s (p + of_nat k) = bs ! k \<and> unat (p + of_nat k) = unat p + k"
  by (erule implementsE) (auto simp: represents_def dest: represents_block(2) in_memory_at)

lemma implements_store:
  assumes i: "implements s st" and p: "blocks st p = Some bs" and k: "k < length bs"
  shows "implements (s\<lparr>bytes := (bytes s)(p + of_nat k := v)\<rparr>) (st\<lparr>blocks := (blocks st)(p \<mapsto> bs[k := v])\<rparr>)"
proof (rule implements_write [OF i p])
  fix a :: addr assume "unat a \<notin> {unat p ..< unat p + length bs}"
  then show "((bytes s)(p + of_nat k := v)) a = bytes s a" using implements_at [OF i p k] k by auto
next
  fix j assume j: "j < length (bs[k := v])"
  have "p + of_nat j \<noteq> p + of_nat k" if "j \<noteq> k"
  proof -
    have "unat (p + of_nat j) \<noteq> unat (p + of_nat k)"
      using that implements_at [OF i p k] implements_at [OF i p, of j] j by simp
    then show ?thesis by metis
  qed
  then show "((bytes s)(p + of_nat k := v)) (p + of_nat j) = bs[k := v] ! j"
    using implements_at [OF i p, of j] j by (cases "j = k") (simp_all del: add_left_cancel)
qed simp

lemma implements_none: "implements s st \<Longrightarrow> blocks st NULL = None"
proof (erule implementsE)
  fix ns L R F N fr
  assume a: "system_ok s ns L R F N fr" "represents s ns L st"
  show "blocks st NULL = None"
    using represents_block(2) [OF a, of NULL] by (cases "blocks st NULL") (auto simp: in_memory_def)
qed

lemma free_null: "sys_free (Suc d) NULL s = Some s"
  by (simp add: kernel_free_def)

lemma realloc_null: "sz \<noteq> 0 \<Longrightarrow> sys_realloc d NULL sz s = sys_malloc (Suc d) sz s"
  "sys_realloc d p 0 s = do { s \<leftarrow> sys_free (Suc d) p s; Some (NULL, s) }"
  by (simp_all add: kernel_realloc_def)

lemma sizes_at: "sizes st p \<noteq> None \<longleftrightarrow> (\<exists>bs. blocks st p = Some bs)" "sizes st p = Some n \<longleftrightarrow> (\<exists>bs. blocks st p = Some bs \<and> length bs = n)"
  by (auto simp: sizes_def)

lemma implements_drop:
  assumes "implements s st" "p = NULL \<or> sizes st p \<noteq> None" "sys_free (Suc d) p s = Some s'"
  shows "implements s' (st\<lparr>blocks := (blocks st)(p := None)\<rparr>)"
proof (cases "p = NULL")
  case True
  then have "s' = s" using assms(3) unfolding True free_null by simp
  moreover have "st\<lparr>blocks := (blocks st)(p := None)\<rparr> = st" using implements_none [OF assms(1)] True by (simp add: fun_upd_idem)
  ultimately show ?thesis using assms(1) by simp
next
  case False
  then obtain bs where "blocks st p = Some bs" using assms(2) sizes_at by blast
  then show ?thesis using implements_free(1) [OF assms(1) _ assms(3)] by blast
qed

lemma perform_refines:
  assumes i: "implements s st" and a: "allowed (sizes st) c" and run: "perform d c s = Some (r, s')"
  shows "\<exists>st'. store_step st c r st' \<and> implements s' st'"
proof (cases c)
  case (Malloc sz)
  then obtain p where m: "sys_malloc (Suc d) sz s = Some (p, s')" "r = Addr p"
    using run by (auto simp: perform.simps bind_eq_Some_conv simp del: sys_malloc.simps)
  have "unat sz \<le> MAX_REQUEST" using a Malloc by simp
  note M = implements_malloc [OF i this m(1)]
  have l: "length (map (\<lambda>k. bytes s (p + of_nat k)) [0..<unat sz]) = unat sz" by simp
  show ?thesis unfolding Malloc m(2) using store_step.malloc [OF M(1) l] M(2) by blast
next
  case (Calloc n sz)
  then obtain p where m: "kernel_calloc (liballoc_alloc (sys_free d)) n sz s = Some (p, s')" "r = Addr p"
    using run by (auto simp: perform.simps bind_eq_Some_conv)
  have "unat n * unat sz < 2 ^ 31" using a Calloc by simp
  note M = implements_calloc [OF i this m(1)]
  show ?thesis unfolding Calloc m(2) using store_step.calloc [OF M(1)] M(2) by blast
next
  case (Realloc p sz)
  then obtain q where m: "sys_realloc d p sz s = Some (q, s')" "r = Addr q"
    using run by (auto simp: perform.simps bind_eq_Some_conv)
  have b: "p = NULL \<or> sizes st p \<noteq> None" "unat sz \<le> MAX_REQUEST" using a Realloc by simp_all
  consider "sz = 0" | "sz \<noteq> 0" "p = NULL" | bs where "sz \<noteq> 0" "blocks st p = Some bs" using b(1) sizes_at(1) by blast
  then show ?thesis
  proof cases
    case 1
    then have "sys_free (Suc d) p s = Some s'" "q = NULL" using m(1) realloc_null(2) [of d p s]
      by (auto simp: bind_eq_Some_conv simp del: sys_free.simps)
    then show ?thesis unfolding Realloc m(2) 1 using store_step.realloc_free [of st p] implements_drop [OF i b(1)] by blast
  next
    case 2
    then have "sys_malloc (Suc d) sz s = Some (q, s')" using m(1) realloc_null(1) by metis
    note M = implements_malloc [OF i b(2) this]
    have l: "length (map (\<lambda>k. bytes s (q + of_nat k)) [0..<unat sz]) = unat sz" by simp
    show ?thesis unfolding Realloc m(2) 2(2) using store_step.realloc_new [OF 2(1) M(1) l] M(2) by blast
  next
    case 3
    from implements_realloc [OF i 3(2,1) b(2) m(1)] obtain cs where
      "fresh q (unat sz) st" "length cs = unat sz" "\<forall>k < min (unat sz) (length bs). cs ! k = bs ! k"
      "implements s' (st\<lparr>blocks := (blocks st)(q \<mapsto> cs, p := None)\<rparr>)" by blast
    moreover have "p \<noteq> NULL" using implements_none [OF i] 3(2) by auto
    ultimately show ?thesis unfolding Realloc m(2) using store_step.realloc [OF 3(2) _ 3(1)] by blast
  qed
next
  case (Free p)
  then have m: "sys_free (Suc d) p s = Some s'" "r = Done"
    using run by (auto simp: perform.simps bind_eq_Some_conv simp del: sys_free.simps)
  have "p = NULL \<or> sizes st p \<noteq> None" using a Free by simp
  then show ?thesis unfolding Free m(2) using store_step.free [of st p] implements_drop [OF i _ m(1)] by blast
next
  case Frame
  then obtain f where m: "allocate (sys_free (Suc d)) s = Some (f, s')" "r = Addr f"
    using run by (auto simp: perform.simps bind_eq_Some_conv simp del: sys_free.simps)
  show ?thesis unfolding Frame m(2) using implements_frame [OF i m(1)] store_step.frame by blast
next
  case (Store p k v)
  then obtain bs where b: "blocks st p = Some bs" "k < length bs" using a sizes_at(2) by (auto split: option.splits)
  have "r = Done" "s' = s\<lparr>bytes := (bytes s)(p + of_nat k := v)\<rparr>" using run Store by (simp_all add: perform.simps)
  then show ?thesis unfolding Store using implements_store [OF i b] store_step.store [OF b] by blast
next
  case (Load p k)
  then obtain bs where b: "blocks st p = Some bs" "k < length bs" using a sizes_at(2) by (auto split: option.splits)
  have "r = Value (bs ! k)" "s' = s" using run Load implements_at [OF i b] by (simp_all add: perform.simps)
  then show ?thesis unfolding Load using i store_step.load [OF b] by blast
qed

section \<open>Sessions\<close>

type_synonym trace = "(call \<times> reply) list"

inductive session :: "nat \<Rightarrow> 'a paging_scheme \<Rightarrow> trace \<Rightarrow> 'a paging_scheme \<Rightarrow> bool" for d where
  stop: "session d s [] s"
| call: "perform d c s = Some (r, t) \<Longrightarrow> session d t tr u \<Longrightarrow> session d s ((c, r) # tr) u"

inductive store_exec :: "store \<Rightarrow> trace \<Rightarrow> store \<Rightarrow> bool" where
  stop: "store_exec st [] st"
| call: "store_step st c r st1 \<Longrightarrow> store_exec st1 tr st2 \<Longrightarrow> store_exec st ((c, r) # tr) st2"

inductive_cases store_exec_Nil: "store_exec st [] st'"
inductive_cases store_exec_Cons: "store_exec st (e # tr) st'"

fun client_ok :: "(addr \<rightharpoonup> nat) \<Rightarrow> trace \<Rightarrow> bool" where
  "client_ok own [] \<longleftrightarrow> True"
| "client_ok own ((c, r) # tr) \<longleftrightarrow> allowed own c \<and> client_ok (owned own c r) tr"

lemma store_step_sizes: "store_step st c r st' \<Longrightarrow> sizes st' = owned (sizes st) c r"
  by (induction rule: store_step.induct) (auto simp: sizes_def fun_eq_iff fresh_def in_memory_def)

lemma session_refines:
  assumes "session d s tr s'" "implements s st" "client_ok (sizes st) tr"
  shows "\<exists>st'. store_exec st tr st' \<and> implements s' st'"
  using assms
proof (induction arbitrary: st rule: session.induct)
  case (stop s)
  then show ?case using store_exec.stop by blast
next
  case (call c s r t tr u)
  from perform_refines [OF call.prems(1) _ call.hyps(1)] call.prems(2) obtain st1 where
    st1: "store_step st c r st1" "implements t st1" by auto
  have "client_ok (sizes st1) tr" using call.prems(2) store_step_sizes [OF st1(1)] by simp
  from call.IH [OF st1(2) this] show ?case using store_exec.call [OF st1(1)] by blast
qed

lemma store_exec_append: "store_exec st (xs @ ys) st' \<longleftrightarrow> (\<exists>st1. store_exec st xs st1 \<and> store_exec st1 ys st')"
proof (induction xs arbitrary: st)
  case Nil
  then show ?case by (auto intro: store_exec.stop elim: store_exec_Nil)
next
  case (Cons e xs)
  obtain c r where e: "e = (c, r)" by (cases e)
  show ?case
    unfolding e append_Cons
    using Cons.IH by (auto elim!: store_exec_Cons intro: store_exec.call) (metis store_exec.call)+
qed

text \<open>Calls that leave byte \<open>k\<close> of the block at \<open>p\<close> alone.\<close>

fun leaves :: "addr \<Rightarrow> nat \<Rightarrow> call \<Rightarrow> bool" where
  "leaves p k (Free q) \<longleftrightarrow> q \<noteq> p"
| "leaves p k (Realloc q sz) \<longleftrightarrow> q \<noteq> p"
| "leaves p k (Store q j v) \<longleftrightarrow> \<not> (q = p \<and> j = k)"
| "leaves p k c \<longleftrightarrow> True"

lemma store_step_leaves:
  "store_step st c r st' \<Longrightarrow> leaves p k c \<Longrightarrow> \<exists>bs. blocks st p = Some bs \<and> k < length bs \<and> bs ! k = v \<Longrightarrow>
    \<exists>bs. blocks st' p = Some bs \<and> k < length bs \<and> bs ! k = v"
  by (induction rule: store_step.induct) (auto simp: fresh_def nth_list_update)

lemma store_exec_leaves:
  "store_exec st tr st' \<Longrightarrow> \<forall>(c, r) \<in> set tr. leaves p k c \<Longrightarrow> \<exists>bs. blocks st p = Some bs \<and> k < length bs \<and> bs ! k = v \<Longrightarrow>
    \<exists>bs. blocks st' p = Some bs \<and> k < length bs \<and> bs ! k = v"
proof (induction rule: store_exec.induct)
  case (call st c r st1 tr st2)
  have "leaves p k c" "\<forall>(c, r) \<in> set tr. leaves p k c" using call.prems(1) by auto
  then show ?case using call.IH store_step_leaves [OF call.hyps(1) _ call.prems(2)] by blast
qed simp

lemma exec_reads_back:
  assumes "store_exec st (tr1 @ (Store p k v, r1) # tr2 @ [(Load p k, r)]) st'" "\<forall>(c, r) \<in> set tr2. leaves p k c"
  shows "r = Value v"
proof -
  from assms(1) obtain st1 st2 st3 st4 where s: "store_step st1 (Store p k v) r1 st2" "store_exec st2 tr2 st3" "store_step st3 (Load p k) r st4"
    unfolding store_exec_append by (auto elim!: store_exec_Cons simp: store_exec_append)
  have "\<exists>bs. blocks st2 p = Some bs \<and> k < length bs \<and> bs ! k = v" using s(1) by (auto elim: store_step_store)
  from store_exec_leaves [OF s(2) assms(2) this] s(3) show ?thesis by (auto elim: store_step_load)
qed

text \<open>The frames of a session.\<close>

definition frames_of :: "trace \<Rightarrow> addr list" where
  "frames_of tr = [f. (Frame, Addr f) \<leftarrow> tr]"

lemma store_step_held: "store_step st c r st' \<Longrightarrow> held st \<subseteq> held st'"
  by (induction rule: store_step.induct) auto

inductive_cases store_step_frame: "store_step st Frame r st'"

lemma exec_frames: "store_exec st tr st' \<Longrightarrow> distinct (frames_of tr) \<and> set (frames_of tr) \<inter> held st = {}"
proof (induction rule: store_exec.induct)
  case (call st c r st1 tr st2)
  note h = store_step_held [OF call.hyps(1)]
  show ?case
  proof (cases "\<exists>f. c = Frame \<and> r = Addr f")
    case True
    then obtain f where f: "c = Frame" "r = Addr f" by blast
    then have "f \<notin> held st" "f \<in> held st1" using call.hyps(1) by (auto elim: store_step_frame)
    then show ?thesis using call.IH h by (auto simp: frames_of_def f)
  next
    case False
    then have "frames_of ((c, r) # tr) = frames_of tr" by (auto simp: frames_of_def split: call.splits reply.splits)
    then show ?thesis using call.IH h by auto
  qed
qed (simp add: frames_of_def)

text \<open>The store of a system nobody has asked for anything.\<close>

definition no_blocks :: store where
  "no_blocks = \<lparr>blocks = Map.empty, held = {}\<rparr>"

lemma implements_start: "system_ok s ns L R F N fr \<Longrightarrow> implements s no_blocks"
  by (erule implementsI) (simp_all add: represents_def no_blocks_def)

lemma sizes_start: "sizes no_blocks = Map.empty"
  by (simp add: sizes_def no_blocks_def fun_eq_iff)

text \<open>
  C4. The heap and the frame allocator implement their specification. Whatever sequence of calls a
  client makes that keeps to its own blocks, the code's answers are those of a store of blocks: a new
  block is apart from all others, \<open>kernel_calloc\<close> gives zeroes, \<open>kernel_realloc\<close> moves the contents, no
  call changes a block it does not name, no frame is given twice; and the state implements the store
  reached, so that the invariant of the whole memory system holds after every call.
\<close>

theorem heap_refines_store:
  assumes "implements s st" "session d s tr s'" "client_ok (sizes st) tr"
  shows "\<exists>st'. store_exec st tr st' \<and> implements s' st'"
  by (rule session_refines [OF assms(2,1,3)])

text \<open>
  C5. A client reads what it wrote last. In every session, from a state with the invariant on, whose
  client keeps to its own blocks, a byte stored and not stored again until it is loaded is loaded
  unchanged, whatever the client allocated, freed and resized elsewhere in between.
\<close>

theorem last_write_is_read:
  assumes "system_ok s ns L R F N fr" "session d s (tr1 @ (Store p k v, r1) # tr2 @ [(Load p k, r)]) s'"
    "client_ok Map.empty (tr1 @ (Store p k v, r1) # tr2 @ [(Load p k, r)])" "\<forall>(c, a) \<in> set tr2. leaves p k c"
  shows "r = Value v"
  using session_refines [OF assms(2) implements_start [OF assms(1)], unfolded sizes_start, OF assms(3)] exec_reads_back [OF _ assms(4)]
  by blast

text \<open>
  C6. In every session of such a client no frame is handed out twice.
\<close>

theorem frames_handed_out_once:
  assumes "system_ok s ns L R F N fr" "session d s tr s'" "client_ok Map.empty tr"
  shows "distinct (frames_of tr)"
  using session_refines [OF assms(2) implements_start [OF assms(1)], unfolded sizes_start, OF assms(3)] exec_frames by blast

text \<open>A client that allocates 100 bytes, writes one, allocates a frame and reads.\<close>

definition example_trace :: "addr \<Rightarrow> addr \<Rightarrow> uint8 \<Rightarrow> trace" where
  "example_trace p f v = [(Malloc 100, Addr p)] @ (Store p 3 9, Done) # [(Frame, Addr f)] @ [(Load p 3, Value v)]"

lemma example_session:
  "\<exists>p f v s'. session 0 boot_state (example_trace p f v) s' \<and> client_ok Map.empty (example_trace p f v)"
proof -
  have sz: "unat (100 :: uint64) \<le> MAX_REQUEST" by (simp add: MAX_REQUEST_def TAG_SIZE_def)
  have n: "16 = unat (pages_for (ucast (100 :: uint64)))"
    by (simp add: pages_for_def Let_def l_pageSize_def l_pageCount_def TAG_SIZE_def)
  have "run_cost 0 16 = 19" by code_simp
  then have a: "ample 0 16 1 boot_state" by (simp add: ample_def rich_def boot_state_def MAX_BUFFER_FRAMES_def)
  obtain p t ns' L' R' F' N' fr' where m: "sys_malloc (Suc 0) 100 boot_state = Some (p, t)" "system_ok t ns' L' R' F' N' fr'"
      "N' = 0 \<and> rich (run_cost 0 16 + 1) t \<or> N' = 0 + 16 \<and> rich 1 t"
    by (rule malloc_client [OF boot_system_ok sz n a, of 0]) (rule that)
  let ?t = "t\<lparr>bytes := (bytes t)(p + of_nat 3 := 9)\<rparr>"
  have t: "system_ok ?t ns' L' R' F' N' fr'" using m(2) system_ok_bytes(1) by blast
  have "rich 1 t" using m(3) rich_less [of "run_cost 0 16 + 1" t 1] by fastforce
  then have "rich (Suc 0) ?t" using rich_cong [of ?t t] by simp
  from allocate_rich [OF system_heap(3,5,6) [OF t] this, of "sys_free (Suc 0)"] obtain f u where f: "allocate (sys_free (Suc 0)) ?t = Some (f, u)" by blast
  have P: "perform 0 (Malloc 100) boot_state = Some (Addr p, t)" "perform 0 (Store p 3 9) t = Some (Done, ?t)"
    "perform 0 Frame ?t = Some (Addr f, u)" "perform 0 (Load p 3) u = Some (Value (bytes u (p + of_nat 3)), u)"
    by (simp_all only: perform.simps m(1) f bind.bind_lunit prod.case)
  have "session 0 boot_state (example_trace p f (bytes u (p + of_nat 3))) u"
    unfolding example_trace_def append_Cons append_Nil
    by (rule session.call [OF P(1) session.call [OF P(2) session.call [OF P(3) session.call [OF P(4) session.stop]]]])
  moreover have "client_ok Map.empty (example_trace p f (bytes u (p + of_nat 3)))" using sz by (simp add: example_trace_def)
  ultimately show ?thesis by blast
qed

theorem heap_refines_store_witness:
  "\<exists>p f v s' st'. session 0 boot_state (example_trace p f v) s' \<and> store_exec no_blocks (example_trace p f v) st' \<and> implements s' st'"
proof -
  obtain p f v s' where e: "session 0 boot_state (example_trace p f v) s'" "client_ok (sizes no_blocks) (example_trace p f v)"
    using example_session unfolding sizes_start by blast
  from heap_refines_store [OF implements_start [OF boot_system_ok] e] e(1) show ?thesis by blast
qed

theorem last_write_is_read_witness:
  "\<exists>p f v s'. session 0 boot_state (example_trace p f v) s' \<and> v = 9"
proof -
  obtain p f v s' where e: "session 0 boot_state (example_trace p f v) s'" "client_ok Map.empty (example_trace p f v)"
    using example_session by blast
  have "\<forall>(c, a) \<in> set [(Frame, Addr f)]. leaves p 3 c" by simp
  from last_write_is_read [OF boot_system_ok e [unfolded example_trace_def] this] e(1) show ?thesis by blast
qed

theorem frames_handed_out_once_witness:
  "\<exists>p f v s'. session 0 boot_state (example_trace p f v) s' \<and> distinct (frames_of (example_trace p f v)) \<and> frames_of (example_trace p f v) = [f]"
proof -
  obtain p f v s' where e: "session 0 boot_state (example_trace p f v) s'" "client_ok Map.empty (example_trace p f v)"
    using example_session by blast
  have "frames_of (example_trace p f v) = [f]" by (simp add: frames_of_def example_trace_def)
  then show ?thesis using frames_handed_out_once [OF boot_system_ok e] e(1) by blast
qed

end
