(* ===== verification/Process.thy ===== *)
theory Process
  imports System_Live Setup Layout
begin

text \<open>
  Processes: \<open>src/lib/kernel/process\<close>. A process keeps its threads in one block of the kernel heap
  that every new thread reallocates. The object itself is a value of its own here, its fields at first
  whatever the memory of \<open>new\<close> held.
\<close>

section \<open>The code\<close>

record process =
  uid :: uint32
  size_threads :: uint32
  threads :: addr
  interface :: addr
  l4_pointer :: addr      \<comment> \<open>of \<open>paginatioTable\<close>\<close>
  supervisor :: bool

record kernel_uids = kernel +
  GLOBAL_UID :: uint32

definition isSupervisor :: "process \<Rightarrow> bool" where
  "isSupervisor this = supervisor this"

definition isUser :: "process \<Rightarrow> bool" where
  "isUser this = (\<not> supervisor this)"

definition sizeof_thread :: uint64 where
  "sizeof_thread = of_nat (size_of thread_layout)"

text \<open>The address of \<open>threads[0].state\<close>, the first field of the first thread.\<close>

definition getCurrentState :: "process \<Rightarrow> addr" where
  "getCurrentState this = threads this"

definition addThread :: "(addr \<Rightarrow> uint64 \<Rightarrow> 's \<Rightarrow> (addr \<times> 's) option) \<Rightarrow> process \<Rightarrow> 's \<Rightarrow> (process \<times> 's) option" where
  "addThread rf this s = do {
     let this = this\<lparr>size_threads := size_threads this + 1\<rparr>;
     (p, s) \<leftarrow> rf (threads this) (ucast (size_threads this) * sizeof_thread) s;
     Some (this\<lparr>threads := p\<rparr>, s) }"

definition create :: "'a kernel_uids_ext kernel_ext paging_ext malloc_fun \<Rightarrow>
    (addr \<Rightarrow> uint64 \<Rightarrow> 'a kernel_uids_scheme \<Rightarrow> (addr \<times> 'a kernel_uids_scheme) option) \<Rightarrow> bool \<Rightarrow> process \<Rightarrow>
    'a kernel_uids_scheme \<Rightarrow> (process \<times> 'a kernel_uids_scheme) option" where
  "create mf rf sv this s = do {
     let this = this\<lparr>supervisor := sv\<rparr>;
     s \<leftarrow> kernel_lock s;
     let this = this\<lparr>uid := GLOBAL_UID s\<rparr>;
     let s = s\<lparr>GLOBAL_UID := GLOBAL_UID s + 1\<rparr>;
     let s = kernel_unlock s;
     (p, s) \<leftarrow> mf 0 s;
     let this = this\<lparr>threads := p\<rparr>;
     let this = this\<lparr>size_threads := 0\<rparr>;
     addThread rf this s }"

text \<open>The destructor gives the page of the process's tables back, then its threads.\<close>

definition destroy :: "'a paging_ext malloc_fun \<Rightarrow> 'a paging_ext free_fun \<Rightarrow> process \<Rightarrow> 'a paging_scheme \<Rightarrow> 'a paging_scheme option" where
  "destroy mf ff this s = do {
     let addr = l4_pointer this;
     s \<leftarrow> addMemorySpace mf ff \<lparr>sp_base = addr, sp_size = PAGE_SIZE\<rparr> s;
     ff (threads this) s }"

section \<open>The block of the threads\<close>

text \<open>\<open>n\<close> threads, in a block of their own that is no node of the frame allocator.\<close>

definition process_ok :: "'a paging_scheme \<Rightarrow> addr list \<Rightarrow> addr set \<Rightarrow> process \<Rightarrow> nat \<Rightarrow> bool" where
  "process_ok s ns L this n \<longleftrightarrow> unat (size_threads this) = n \<and> threads this - of_nat TAG_SIZE \<in> allocated s L \<and>
     threads this \<notin> set ns \<and> unat (req_size (mem s (threads this - of_nat TAG_SIZE))) = 136 * n"

lemma sizeof_thread: "sizeof_thread = 136"
  by code_simp

lemma threads_size:
  assumes "unat (k :: uint32) = n" "136 * (n + 1) \<le> MAX_REQUEST"
  shows "unat (k + 1) = n + 1" "ucast (k + 1) * sizeof_thread = (of_nat (136 * (n + 1)) :: uint64)"
    "unat (of_nat (136 * (n + 1)) :: uint64) = 136 * (n + 1)"
proof -
  have n: "n + 1 < 2 ^ 32" using assms(2) by (simp add: MAX_REQUEST_def)
  then show u: "unat (k + 1) = n + 1" using assms(1) by (subst unat_add_no_wrap) simp_all
  show "unat (of_nat (136 * (n + 1)) :: uint64) = 136 * (n + 1)"
    by (rule unat_of_nat_small) (use assms(2) in \<open>simp add: MAX_REQUEST_def\<close>)
  have "ucast (k + 1) = (of_nat (n + 1) :: uint64)" using u by (metis of_nat_unat ucast_id unsigned_ucast_eq)
  then show "ucast (k + 1) * sizeof_thread = (of_nat (136 * (n + 1)) :: uint64)"
    by (simp add: sizeof_thread algebra_simps)
qed

lemma addThread_run:
  assumes ok: "system_ok s ns L R F N fr" and P: "process_ok s ns L this n" and b: "136 * (n + 1) \<le> MAX_REQUEST"
    and c: "\<forall>i < MAXEXP. l_completePages s ! i < MAXCOMPLETE"
    and run: "sys_malloc (Suc d) (of_nat (136 * (n + 1))) s = Some (q, s1)"
    and this': "this' = this\<lparr>size_threads := size_threads this + 1, threads := q\<rparr>"
  shows "\<exists>s' ns' L' R' F' N' fr'. addThread (sys_realloc d) this s = Some (this', s') \<and> system_ok s' ns' L' R' F' N' fr' \<and>
    own_block s' L' N' q (136 * (n + 1)) \<and> allocated s' L' = insert (q - of_nat TAG_SIZE) (allocated s L) - {threads this - of_nat TAG_SIZE} \<and>
    (\<forall>k < 136 * n. bytes s' (q + of_nat k) = bytes s (threads this + of_nat k)) \<and>
    (\<forall>a. unat a \<notin> {unat q ..< unat q + 136 * (n + 1)} \<longrightarrow> bytes s' a = bytes s a) \<and>
    set ns' \<subseteq> set ns \<and> process_ok s' ns' L' this' (n + 1) \<and> paging.more s' = paging.more s \<and>
    (\<forall>b \<in> allocated s L - {threads this - of_nat TAG_SIZE}. req_size (mem s' b) = req_size (mem s b))"
proof -
  note p = P [unfolded process_ok_def]
  have t: "threads this - of_nat TAG_SIZE \<in> allocated s L" "threads this \<notin> set ns" using p by blast+
  note sz = threads_size [OF conjunct1 [OF p] b]
  have z: "(of_nat (136 * (n + 1)) :: uint64) \<noteq> 0" "unat (of_nat (136 * (n + 1)) :: uint64) \<le> MAX_REQUEST"
    using sz(3) b by (metis add_is_0 mult_is_0 unat_0 zero_neq_numeral zero_neq_one, metis)
  have m: "min (136 * (n + 1)) (unat (req_size (mem s (threads this - of_nat TAG_SIZE)))) = 136 * n" using p by simp
  from realloc_block [OF ok t z c run, unfolded sz(3) m] obtain s' ns' L' R' F' N' fr' where
    r: "sys_realloc d (threads this) (of_nat (136 * (n + 1))) s = Some (q, s')" "system_ok s' ns' L' R' F' N' fr'"
      "own_block s' L' N' q (136 * (n + 1))"
      "allocated s' L' = insert (q - of_nat TAG_SIZE) (allocated s L) - {threads this - of_nat TAG_SIZE}"
      "\<forall>k < 136 * n. bytes s' (q + of_nat k) = bytes s (threads this + of_nat k)"
      "\<forall>a. unat a \<notin> {unat q ..< unat q + 136 * (n + 1)} \<longrightarrow> bytes s' a = bytes s a"
      "set ns' \<subseteq> set ns" "q \<notin> set ns" "unat (req_size (mem s' (q - of_nat TAG_SIZE))) = 136 * (n + 1)"
      "paging.more s' = paging.more s"
      "\<forall>b \<in> allocated s L - {threads this - of_nat TAG_SIZE}. req_size (mem s' b) = req_size (mem s b)"
    by (elim exE conjE) (rule that)
  from malloc_system [OF ok z(2) run] have "q - of_nat TAG_SIZE \<notin> allocated s L" by blast
  then have "q - of_nat TAG_SIZE \<noteq> threads this - of_nat TAG_SIZE" using t(1) by metis
  then have "process_ok s' ns' L' this' (n + 1)"
    unfolding process_ok_def this' using r(4,7,8,9) sz(1) by auto
  moreover have "addThread (sys_realloc d) this s = Some (this', s')"
    using r(1) sz(2) by (simp add: addThread_def this' Let_def del: of_nat_add of_nat_mult)
  ultimately show ?thesis using r(2-7,10,11) by (intro exI conjI)
qed

text \<open>The threads of another process: their block is another one.\<close>

lemma process_block:
  assumes ok: "system_ok s ns L R F N fr" and P: "process_ok s ns L p m"
  shows "own_block s L N (threads p) (136 * m)" "in_memory (threads p) (136 * m)"
proof -
  note B = block_memory [OF ok, of "threads p"]
  have t: "threads p - of_nat TAG_SIZE \<in> allocated s L" "unat (req_size (mem s (threads p - of_nat TAG_SIZE))) = 136 * m"
    using P by (simp_all add: process_ok_def)
  show o: "own_block s L N (threads p) (136 * m)" using B(1) [OF t(1)] t(2) by simp
  have "N < 2 ^ 18" using system_heap(11) [OF ok] by simp
  then show "in_memory (threads p) (136 * m)" by (rule own_block_memory [OF o _ B(2) [OF t(1)]])
qed

lemma other_process:
  assumes ok: "system_ok s' ns' L' R' F' N' fr'" and P: "process_ok s ns L p m" and sys: "system_ok s ns L R F N fr"
    and a: "threads p - of_nat TAG_SIZE \<in> allocated s' L'" "req_size (mem s' (threads p - of_nat TAG_SIZE)) = req_size (mem s (threads p - of_nat TAG_SIZE))"
      "threads p - of_nat TAG_SIZE \<noteq> q - of_nat TAG_SIZE" "set ns' \<subseteq> set ns"
    and new: "own_block s' L' N' q sz" "\<forall>a. unat a \<notin> {unat q ..< unat q + sz} \<longrightarrow> bytes s' a = bytes s a"
  shows "process_ok s' ns' L' p m" "\<forall>k < 136 * m. bytes s' (threads p + of_nat k) = bytes s (threads p + of_nat k)"
proof -
  show p: "process_ok s' ns' L' p m" using P a unfolding process_ok_def by auto
  have d: "payload s' (threads p - of_nat TAG_SIZE) \<inter> {unat q ..< unat q + sz} = {}"
    using new(1) a(1,3) unfolding own_block_def by blast
  have e: "payload s' (threads p - of_nat TAG_SIZE) = {unat (threads p) ..< unat (threads p) + 136 * m}"
    using process_block(1) [OF ok p] unfolding own_block_def by blast
  show "\<forall>k < 136 * m. bytes s' (threads p + of_nat k) = bytes s (threads p + of_nat k)"
  proof (intro allI impI)
    fix k assume k: "k < 136 * m"
    have "unat (threads p + of_nat k) = unat (threads p) + k" using in_memory_at [OF process_block(2) [OF sys P] k] by blast
    then have "unat (threads p + of_nat k) \<in> {unat (threads p) ..< unat (threads p) + 136 * m}" using k by simp
    then have "unat (threads p + of_nat k) \<notin> {unat q ..< unat q + sz}" using d unfolding e by blast
    then show "bytes s' (threads p + of_nat k) = bytes s (threads p + of_nat k)" using new(2) by blast
  qed
qed

section \<open>Adding a thread, creating a process\<close>

text \<open>
  C20. \<open>addThread\<close> on a process with \<open>n\<close> threads, while the heap has frames for the larger block and
  fewer than five whole blocks of each size wait: it returns, the process has \<open>n + 1\<close> threads in a
  block of their own, the saved states of the first \<open>n\<close> are those it had, and every other process keeps
  its threads and what they hold.
\<close>

theorem addThread_keeps_threads:
  assumes "system_ok s ns L R F N fr" "process_ok s ns L this n" "136 * (n + 1) \<le> MAX_REQUEST"
    "\<forall>i < MAXEXP. l_completePages s ! i < MAXCOMPLETE"
    "ample N (unat (pages_for (ucast (of_nat (136 * (n + 1)) :: uint64)))) 0 s"
  shows "\<exists>this' s' ns' L' R' F' N' fr'. addThread (sys_realloc d) this s = Some (this', s') \<and> system_ok s' ns' L' R' F' N' fr' \<and>
    process_ok s' ns' L' this' (n + 1) \<and> uid this' = uid this \<and>
    (\<forall>k < 136 * n. bytes s' (threads this' + of_nat k) = bytes s (threads this + of_nat k)) \<and>
    (\<forall>p m. process_ok s ns L p m \<and> threads p \<noteq> threads this \<longrightarrow>
       process_ok s' ns' L' p m \<and> (\<forall>k < 136 * m. bytes s' (threads p + of_nat k) = bytes s (threads p + of_nat k)))"
proof -
  have z: "unat (of_nat (136 * (n + 1)) :: uint64) \<le> MAX_REQUEST"
    using assms(2,3) threads_size(3) [OF _ assms(3)] unfolding process_ok_def by metis
  obtain q s1 where run: "sys_malloc (Suc d) (of_nat (136 * (n + 1))) s = Some (q, s1)" using ample_runs [OF assms(1) z assms(5)] .
  let ?me = "this\<lparr>size_threads := size_threads this + 1, threads := q\<rparr>"
  from addThread_run [OF assms(1-4) run refl] obtain s' ns' L' R' F' N' fr' where
    r: "addThread (sys_realloc d) this s = Some (?me, s')" "system_ok s' ns' L' R' F' N' fr'" "own_block s' L' N' q (136 * (n + 1))"
      "allocated s' L' = insert (q - of_nat TAG_SIZE) (allocated s L) - {threads this - of_nat TAG_SIZE}"
      "\<forall>k < 136 * n. bytes s' (q + of_nat k) = bytes s (threads this + of_nat k)"
      "\<forall>a. unat a \<notin> {unat q ..< unat q + 136 * (n + 1)} \<longrightarrow> bytes s' a = bytes s a"
      "set ns' \<subseteq> set ns" "process_ok s' ns' L' ?me (n + 1)"
      "\<forall>b \<in> allocated s L - {threads this - of_nat TAG_SIZE}. req_size (mem s' b) = req_size (mem s b)"
    by (elim exE conjE) (rule that)
  from malloc_system [OF assms(1) z run] have q: "q - of_nat TAG_SIZE \<notin> allocated s L" by blast
  have o: "\<forall>p m. process_ok s ns L p m \<and> threads p \<noteq> threads this \<longrightarrow>
      process_ok s' ns' L' p m \<and> (\<forall>k < 136 * m. bytes s' (threads p + of_nat k) = bytes s (threads p + of_nat k))"
  proof (intro allI impI)
    fix p m assume P: "process_ok s ns L p m \<and> threads p \<noteq> threads this"
    have t: "threads p - of_nat TAG_SIZE \<in> allocated s L" using P by (simp add: process_ok_def)
    have a: "threads p - of_nat TAG_SIZE \<in> allocated s' L'" "threads p - of_nat TAG_SIZE \<noteq> q - of_nat TAG_SIZE"
      using t q P unfolding r(4) by auto
    have "req_size (mem s' (threads p - of_nat TAG_SIZE)) = req_size (mem s (threads p - of_nat TAG_SIZE))" using r(9) t P by simp
    from other_process [OF r(2) conjunct1 [OF P] assms(1) a(1) this a(2) r(7,3,6)]
    show "process_ok s' ns' L' p m \<and> (\<forall>k < 136 * m. bytes s' (threads p + of_nat k) = bytes s (threads p + of_nat k))" by (rule conjI)
  qed
  have "uid ?me = uid this" "\<forall>k < 136 * n. bytes s' (threads ?me + of_nat k) = bytes s (threads this + of_nat k)" using r(5) by simp_all
  then show ?thesis using r(1,2,8) o by (intro exI conjI)
qed

theorem addThread_keeps_threads_witness:
  "\<exists>this' s'. addThread (sys_realloc 0)
       \<lparr>uid = 7, size_threads = 1, threads = slot_addr 0 + of_nat TAG_SIZE, interface = 0, l4_pointer = 0, supervisor = True\<rparr>
       (block_state 16) = Some (this', s') \<and> unat (size_threads this') = 2 \<and>
     (\<forall>k < 136. bytes s' (threads this' + of_nat k) = bytes (block_state 16) (slot_addr 0 + of_nat TAG_SIZE + of_nat k))"
proof -
  let ?s = "block_state 16" and ?p = "\<lparr>uid = 7, size_threads = 1, threads = slot_addr 0 + of_nat TAG_SIZE, interface = 0, l4_pointer = 0, supervisor = True\<rparr>"
  have ok: "system_ok ?s [] {slot_addr 0} used_regions (\<lambda>_. []) 16 boot_frames" by (rule block_system_ok) simp_all
  have P: "process_ok ?s [] {slot_addr 0} ?p 1"
    by (simp add: process_ok_def allocated_def block_state_def used_tag_def)
  have b: "136 * (1 + 1) \<le> MAX_REQUEST" by (simp add: MAX_REQUEST_def TAG_SIZE_def)
  have c: "\<forall>i < MAXEXP. l_completePages ?s ! i < MAXCOMPLETE" by (simp add: block_state_def MAXCOMPLETE_def)
  have n: "unat (pages_for (ucast (of_nat (136 * (1 + 1)) :: uint64))) = 16"
    by (simp add: pages_for_def Let_def l_pageSize_def l_pageCount_def TAG_SIZE_def)
  have "run_cost 16 16 = 16" by code_simp
  then have a: "ample 16 (unat (pages_for (ucast (of_nat (136 * (1 + 1)) :: uint64)))) 0 ?s"
    unfolding n by (simp add: ample_def rich_def block_state_def paged_state_def boot_state_def MAX_BUFFER_FRAMES_def)
  from addThread_keeps_threads [OF ok P b c a, of 0] obtain this' s' ns' L' where
    r: "addThread (sys_realloc 0) ?p ?s = Some (this', s')" "process_ok s' ns' L' this' (1 + 1)"
      "\<forall>k < 136 * 1. bytes s' (threads this' + of_nat k) = bytes ?s (threads ?p + of_nat k)" by (elim exE conjE) (rule that)
  have "unat (size_threads this') = 2" using r(2) by (simp add: process_ok_def)
  then show ?thesis using r(1,3) by (intro exI conjI) (assumption | simp)+
qed

lemma small_pages: "unat (pages_for (ucast (0 :: uint64))) = 16" "unat (pages_for (ucast (of_nat (136 * (0 + 1)) :: uint64))) = 16"
  by (simp_all add: pages_for_def Let_def l_pageSize_def l_pageCount_def TAG_SIZE_def)

lemma create_runs:
  fixes s :: "'a kernel_uids_scheme"
  assumes "system_ok s ns L R F N fr" "\<not> bit (lock_var s) 0" "\<forall>i < MAXEXP. l_completePages (liballoc_init s) ! i < MAXCOMPLETE"
    "ample N 16 (run_cost (N + 16) 16) s" "(N + 16) mod 512 \<noteq> 0"
  shows "\<exists>this' s' ns' L' R' F' N' fr'. create (sys_malloc (Suc d)) (sys_realloc d) sv this s = Some (this', s') \<and>
    system_ok s' ns' L' R' F' N' fr' \<and> process_ok s' ns' L' this' 1 \<and> uid this' = GLOBAL_UID s \<and> isSupervisor this' = sv \<and>
    GLOBAL_UID s' = GLOBAL_UID s + 1 \<and> lock_var s' = 0 \<and>
    allocated s' L' = insert (threads this' - of_nat TAG_SIZE) (allocated s L)"
proof -
  let ?s = "s\<lparr>GLOBAL_UID := GLOBAL_UID s + 1, lock_var := 0\<rparr>"
  have ok: "system_ok ?s ns L R F N fr" using assms(1) system_ok_fields [of ?s s] by simp
  have am: "ample N 16 (run_cost (N + 16) 16) ?s" using assms(4) rich_cong [of ?s s] by (simp add: ample_def)
  have z0: "unat (0 :: uint64) \<le> MAX_REQUEST" and b: "136 * (0 + 1) \<le> MAX_REQUEST" by (simp_all add: MAX_REQUEST_def TAG_SIZE_def)
  obtain p t ns1 L1 R1 F1 N1 fr1 where
    m: "sys_malloc (Suc d) 0 ?s = Some (p, t)" "p \<noteq> NULL" "p - of_nat TAG_SIZE \<notin> allocated ?s L" "bytes t = bytes ?s"
      "\<forall>b \<in> allocated ?s L. req_size (mem t b) = req_size (mem ?s b)" "paging.more t = paging.more ?s"
      "system_ok t ns1 L1 R1 F1 N1 fr1" "own_block t L1 N1 p (unat (0 :: uint64))"
      "allocated t L1 = insert (p - of_nat TAG_SIZE) (allocated ?s L)" "set ns1 \<subseteq> set ns" "p \<notin> set ns"
      "unat (req_size (mem t (p - of_nat TAG_SIZE))) = unat (0 :: uint64)"
      "N1 = N \<and> rich (run_cost N 16 + run_cost (N + 16) 16) t \<or> N1 = N + 16 \<and> rich (run_cost (N + 16) 16) t"
    by (rule malloc_client [OF ok z0 small_pages(1) [symmetric] am, of d])
  let ?me = "this\<lparr>supervisor := sv, uid := GLOBAL_UID s, threads := p, size_threads := 0\<rparr>"
  have P: "process_ok t ns1 L1 ?me 0" using m(9-12) by (auto simp: process_ok_def)
  have c: "\<forall>i < MAXEXP. l_completePages t ! i < MAXCOMPLETE"
  proof (intro allI impI)
    fix i assume "i < MAXEXP"
    then have "l_completePages (liballoc_init ?s) ! i < MAXCOMPLETE" using assms(3) by (auto simp: liballoc_init_def MAXCOMPLETE_def split: if_splits)
    then show "l_completePages t ! i < MAXCOMPLETE" using malloc_counts [OF ok z0 m(1), of i] by simp
  qed
  have "ample N1 16 0 t" using m(13) assms(4,5) rich_less [of _ t] by (auto simp: ample_def)
  then have a1: "ample N1 (unat (pages_for (ucast (of_nat (136 * (0 + 1)) :: uint64)))) 0 t" unfolding small_pages .
  have z1: "unat (of_nat (136 * (0 + 1)) :: uint64) \<le> MAX_REQUEST" by (simp add: MAX_REQUEST_def TAG_SIZE_def)
  obtain q s1 where run: "sys_malloc (Suc d) (of_nat (136 * (0 + 1))) t = Some (q, s1)" using ample_runs [OF m(7) z1 a1] .
  let ?new = "?me\<lparr>size_threads := size_threads ?me + 1, threads := q\<rparr>"
  from addThread_run [OF m(7) P b c run refl] obtain s' ns' L' R' F' N' fr' where
    r: "addThread (sys_realloc d) ?me t = Some (?new, s')" "system_ok s' ns' L' R' F' N' fr'"
      "allocated s' L' = insert (q - of_nat TAG_SIZE) (allocated t L1) - {threads ?me - of_nat TAG_SIZE}"
      "process_ok s' ns' L' ?new (0 + 1)" "paging.more s' = paging.more t"
    by (elim exE conjE) (rule that)
  have "q - of_nat TAG_SIZE \<notin> allocated t L1" using malloc_system [OF m(7) z1 run] by blast
  then have "allocated s' L' = insert (q - of_nat TAG_SIZE) (allocated s L)"
    unfolding r(3) m(9) using m(3) by (auto simp: allocated_def)
  moreover have "create (sys_malloc (Suc d)) (sys_realloc d) sv this s = Some (?new, s')"
    using m(1) r(1) assms(2) by (simp add: create_def kernel_lock_def kernel_unlock_def acquireLock_def Let_def del: sys_malloc.simps)
  moreover have "paging.more s' = paging.more ?s" using r(5) m(6) by simp
  then have "GLOBAL_UID s' = GLOBAL_UID s + 1" "lock_var s' = 0" by (cases s', cases s, simp)+
  ultimately show ?thesis using r(2,4) by (intro exI [of _ ?new] exI conjI) (assumption | simp add: isSupervisor_def)+
qed

text \<open>
  C21. Creating a process, with the kernel's lock free and frames for two small requests: the
  constructor returns, the new process has the next identifier and one thread in a block of its own,
  the identifier counter moves on, the lock is free again, and no other block of the heap is given or taken.
\<close>

theorem create_makes_process:
  fixes s :: "'a kernel_uids_scheme"
  assumes "system_ok s ns L R F N fr" "\<not> bit (lock_var s) 0" "\<forall>i < MAXEXP. l_completePages (liballoc_init s) ! i < MAXCOMPLETE"
    "ample N 16 (run_cost (N + 16) 16) s" "(N + 16) mod 512 \<noteq> 0"
  shows "\<exists>this' s' ns' L' R' F' N' fr'. create (sys_malloc (Suc d)) (sys_realloc d) sv this s = Some (this', s') \<and>
    system_ok s' ns' L' R' F' N' fr' \<and> process_ok s' ns' L' this' 1 \<and> uid this' = GLOBAL_UID s \<and> isSupervisor this' = sv \<and>
    GLOBAL_UID s' = GLOBAL_UID s + 1 \<and> lock_var s' = 0 \<and>
    allocated s' L' = insert (threads this' - of_nat TAG_SIZE) (allocated s L)"
  by (rule create_runs [OF assms])

text \<open>Sixteen pages of the slot are mapped already, so that the buffer of 64 frames is enough.\<close>

definition example_uids :: kernel_uids where
  "example_uids = \<lparr>mem = mem (paged_state 16), bytes = (\<lambda>_. 7), l_freePages = [], l_completePages = [], l_initialized = 0, alloc_lock = 0,
     frame_lock0 = 0, frame_lock1 = 0, qtd_buffer = 64, avaliableMemory = NULL, frame_buffer = frame_buffer (paged_state 16),
     nodes = nodes (paged_state 16), cr3 = cr3 (paged_state 16), phys = phys (paged_state 16), lock_var = 0, maxMemory = 0,
     currentProcess = 0, GLOBAL_UID = 41\<rparr>"

theorem create_makes_process_witness:
  "\<exists>this' s'. create (sys_malloc 1) (sys_realloc 0) False
       \<lparr>uid = 99, size_threads = 99, threads = 99, interface = 99, l4_pointer = 99, supervisor = True\<rparr> example_uids = Some (this', s') \<and>
     uid this' = 41 \<and> unat (size_threads this') = 1 \<and> GLOBAL_UID s' = 42"
proof -
  let ?p = "\<lparr>uid = 99, size_threads = 99, threads = 99, interface = 99, l4_pointer = 99, supervisor = True\<rparr> :: process"
  have "system_ok (paged_state 16) [] {} Map.empty (\<lambda>_. []) 16 boot_frames" by (rule paged_system_ok) simp_all
  then have ok: "system_ok example_uids [] {} Map.empty (\<lambda>_. []) 16 boot_frames"
    using system_ok_fields [of example_uids "paged_state 16"] by (simp add: example_uids_def paged_state_def boot_state_def)
  have "run_cost 16 16 = 16" "run_cost (16 + 16) 16 = 16" by code_simp+
  then have a: "ample 16 16 (run_cost (16 + 16) 16) example_uids"
    by (simp add: ample_def rich_def example_uids_def MAX_BUFFER_FRAMES_def)
  have l: "\<not> bit (lock_var example_uids) 0" by (simp add: example_uids_def)
  have c: "\<forall>i < MAXEXP. l_completePages (liballoc_init example_uids) ! i < MAXCOMPLETE"
    by (simp add: example_uids_def liballoc_init_def MAXCOMPLETE_def)
  from create_makes_process [OF ok l c a, of 0 False ?p] obtain this' s' ns' L' where
    r: "create (sys_malloc (Suc 0)) (sys_realloc 0) False ?p example_uids = Some (this', s')" "process_ok s' ns' L' this' 1"
      "uid this' = GLOBAL_UID example_uids" "GLOBAL_UID s' = GLOBAL_UID example_uids + 1" by (simp del: sys_malloc.simps) blast
  then show ?thesis by (intro exI [of _ this'] exI [of _ s']) (simp add: process_ok_def example_uids_def)
qed

section \<open>The destructor\<close>

lemma slack_counts:
  assumes "heap_slack s (Suc k)" "a \<in> allocated s L" "system_ok s ns L R F N fr" "i < MAXEXP"
  shows "l_completePages s ! i \<noteq> MAXCOMPLETE"
proof -
  have "l_initialized s \<noteq> 0" using system_heap(1) [OF assms(3)] assms(2) by (auto simp: heap_in_slot_def allocated_def)
  then show ?thesis using assms(1,4) liballoc_init_done [of s] by (fastforce simp: heap_slack_def)
qed

text \<open>One page that is not free, as a range.\<close>

lemma one_page:
  assumes "4096 dvd unat (q :: addr)"
  shows "round_space \<lparr>sp_base = q, sp_size = PAGE_SIZE\<rparr> = \<lparr>sp_base = q, sp_size = PAGE_SIZE\<rparr>"
    "pages_of \<lparr>sp_base = q, sp_size = PAGE_SIZE\<rparr> = [unat q]" "space_end \<lparr>sp_base = q, sp_size = PAGE_SIZE\<rparr> = unat q + 4096"
    "unat q < 2 ^ 64 - 4096 \<Longrightarrow> space_ok \<lparr>sp_base = q, sp_size = PAGE_SIZE\<rparr>"
proof -
  obtain j where j: "unat q = 4096 * j" using assms by blast
  have "unat (q AND PAGE_MASK) = unat q" by (simp only: unat_page j) simp
  then have m: "q AND PAGE_MASK = q" by (simp only: word_unat_eq_iff)
  have "(q AND PAGE_MASK) AND NOT PAGE_MASK = 0" by (simp only: and.assoc bit.conj_cancel_right and_zero_eq)
  then have "q AND NOT PAGE_MASK = 0" by (simp only: m)
  then show "round_space \<lparr>sp_base = q, sp_size = PAGE_SIZE\<rparr> = \<lparr>sp_base = q, sp_size = PAGE_SIZE\<rparr>"
    using m by (simp add: round_space_def PAGE_MASK_def PAGE_SIZE_def)
qed (use assms in \<open>simp_all add: pages_of_def space_end_def space_ok_def\<close>)

lemma page_apart:
  assumes "space_ok m" "4096 dvd q" "q \<notin> set (pages_of m)"
  shows "space_end m \<le> q \<or> q + 4096 \<le> unat (sp_base m)"
proof (rule ccontr)
  assume a: "\<not> ?thesis"
  obtain b z j where m: "unat (sp_base m) = 4096 * b" "unat (sp_size m) = 4096 * z" "q = 4096 * j"
    using assms(1,2) by (auto simp: space_ok_def elim!: dvdE)
  then have "b \<le> j" "j < b + z" using a by (auto simp: space_end_def)
  then have "q \<in> set (pages_of m)" by (auto simp: pages_of_def m intro!: image_eqI [of _ _ "j - b"])
  then show False using assms(3) by simp
qed

text \<open>
  C22. Destroying a process whose page-table page is one it holds (page-aligned, in use and empty again),
  while the heap has frames for a list node and its size classes have room: the destructor returns, the
  page is free, the block of the threads is given back, and every other process keeps its threads and
  what they hold. No frame is lost but the ones \<open>used\<close> that the heap's slot has grown by for the list node: none when
  the slot has as many pages as before, and else exactly what 16 more pages cost.
\<close>

theorem destroy_frees_process:
  assumes "system_ok s ns L R F N fr" "process_ok s ns L this n"
    and page: "4096 dvd unat (l4_pointer this)" "unat (l4_pointer this) < 2 ^ 64 - 4096" "unat (l4_pointer this) \<in> fr"
      "unat (l4_pointer this) \<notin> free_frames s ns"
    and few: "heap_slack s (length ns + 1)" "ample N 16 0 s"
  shows "\<exists>s' ns' L' R' F' N' used. destroy (sys_malloc (Suc d)) (sys_free (Suc d)) this s = Some s' \<and>
    system_ok s' ns' L' R' F' N' (fr - used) \<and> used \<subseteq> insert (unat (l4_pointer this)) (free_frames s ns) \<and>
    free_frames s' ns' = insert (unat (l4_pointer this)) (free_frames s ns) - used \<and>
    (N' = N \<or> N' = N + 16) \<and> card used = run_cost N (N' - N) \<and>
    threads this - of_nat TAG_SIZE \<notin> allocated s' L' \<and>
    (\<forall>p m. process_ok s ns L p m \<and> threads p \<noteq> threads this \<longrightarrow>
       process_ok s' ns' L' p m \<and> (\<forall>k < 136 * m. bytes s' (threads p + of_nat k) = bytes s (threads p + of_nat k)))"
proof -
  let ?q = "l4_pointer this" and ?a = "threads this - of_nat TAG_SIZE"
  let ?m = "\<lparr>sp_base = ?q, sp_size = PAGE_SIZE\<rparr>"
  note O = one_page [OF page(1)]
  note S = system_heap [OF assms(1)] and P = assms(2) [unfolded process_ok_def]
  have apart: "\<forall>a \<in> set ns. space_end (fdata (nodes s a)) \<le> unat (sp_base (round_space ?m)) \<or>
      space_end (round_space ?m) \<le> unat (sp_base (fdata (nodes s a)))"
  proof
    fix a assume a: "a \<in> set ns"
    have "space_ok (fdata (nodes s a))" using S(3) a by (simp add: frames_inv_def)
    moreover have "unat ?q \<notin> set (pages_of (fdata (nodes s a)))"
      using page(4) a by (auto simp: free_frames_def set_listed)
    ultimately show "space_end (fdata (nodes s a)) \<le> unat (sp_base (round_space ?m)) \<or>
      space_end (round_space ?m) \<le> unat (sp_base (fdata (nodes s a)))"
      using page_apart [OF _ page(1)] unfolding O by simp
  qed
  have m: "space_ok (round_space ?m)" "set (pages_of (round_space ?m)) \<inter> free_frames s ns = {}" "set (pages_of (round_space ?m)) \<subseteq> fr"
    using O(4) [OF page(2)] page(3,4) unfolding O(1,2) by simp_all
  have pg: "free_frames s ns \<union> set (pages_of (round_space ?m)) = insert (unat ?q) (free_frames s ns)" unfolding O(1,2) by simp
  from add_space_live [OF assms(1) m apart few, of d, unfolded pg] obtain t nt Lt Rt Ft Nt used where
    t: "addMemorySpace (sys_malloc (Suc d)) (sys_free (Suc d)) ?m s = Some t" "system_ok t nt Lt Rt Ft Nt (fr - used)"
      "used \<subseteq> insert (unat ?q) (free_frames s ns)" "free_frames t nt = insert (unat ?q) (free_frames s ns) - used"
      "bytes t = bytes s" "heap_slack t (length nt - 1 + 1)"
      "Nt = N \<or> Nt = N + 16" "card used = run_cost N (Nt - N)"
      "\<forall>p. p - of_nat TAG_SIZE \<in> allocated s L \<and> p \<notin> set ns \<longrightarrow> p - of_nat TAG_SIZE \<in> allocated t Lt \<and> p \<notin> set nt \<and>
         req_size (mem t (p - of_nat TAG_SIZE)) = req_size (mem s (p - of_nat TAG_SIZE))"
    by (elim exE conjE) (rule that)
  have a: "?a \<in> allocated t Lt" "threads this \<notin> set nt" using t(9) P by blast+
  have "heap_slack t (Suc (length nt - 1))" using t(6) by simp
  note few = slack_counts [OF this a(1) t(2)]
  from free_system [OF t(2) a few, of d] obtain s' L' F' where
    f: "sys_free (Suc d) (threads this) t = Some s'" "system_ok s' nt L' Rt F' Nt (fr - used)" "allocated s' L' = allocated t Lt - {?a}"
      "\<forall>b \<in> allocated s' L'. req_size (mem s' b) = req_size (mem t b) \<and> real_size (mem s' b) = real_size (mem t b)"
      "bytes s' = bytes t" "liballoc.more s' = liballoc.more t" by blast
  have M: "free_frames s' nt = free_frames t nt" using more_frames [OF f(6)] by (simp add: free_frames_def buffered_def)
  have "process_ok s' nt L' p m \<and> (\<forall>k < 136 * m. bytes s' (threads p + of_nat k) = bytes s (threads p + of_nat k))"
    if p: "process_ok s ns L p m" "threads p \<noteq> threads this" for p m
  proof -
    have "threads p - of_nat TAG_SIZE \<in> allocated s' L'" using t(9) p unfolding f(3) process_ok_def by auto
    then show ?thesis using t(5,9) p(1) f(4,5) unfolding process_ok_def by simp
  qed
  moreover have "destroy (sys_malloc (Suc d)) (sys_free (Suc d)) this s = Some s'"
    using t(1) f(1) by (simp add: destroy_def del: sys_malloc.simps sys_free.simps)
  moreover have "?a \<notin> allocated s' L'" unfolding f(3) by simp
  ultimately show ?thesis using f(2) t(3,4,7,8) unfolding M [symmetric]
    by (intro exI [of _ s'] exI [of _ nt] exI [of _ L'] exI [of _ Rt] exI [of _ F'] exI [of _ Nt] exI [of _ used] conjI allI impI) (blast | assumption)+
qed

text \<open>The page is the one frame \<open>allocate\<close> would have handed out first.\<close>

theorem destroy_frees_process_witness:
  "\<exists>s' ns' L' R' F' N' used. destroy (sys_malloc 1) (sys_free 1)
       \<lparr>uid = 7, size_threads = 1, threads = slot_addr 0 + of_nat TAG_SIZE, interface = 0, l4_pointer = 0x13F000, supervisor = True\<rparr>
       ((block_state 16)\<lparr>qtd_buffer := 63\<rparr>) = Some s' \<and> system_ok s' ns' L' R' F' N' (boot_frames - used) \<and>
     slot_addr 0 \<notin> allocated s' L' \<and> free_frames s' ns' = boot_frames - used \<and> (N' = 16 \<and> used = {} \<or> N' = 32 \<and> card used = 16)"
proof -
  let ?s = "block_state 16" and ?t = "(block_state 16)\<lparr>qtd_buffer := 63\<rparr>"
  let ?p = "\<lparr>uid = 7, size_threads = 1, threads = slot_addr 0 + of_nat TAG_SIZE, interface = 0, l4_pointer = 0x13F000, supervisor = True\<rparr>"
  have "system_ok ?s [] {slot_addr 0} used_regions (\<lambda>_. []) 16 boot_frames" by (rule block_system_ok) simp_all
  note S = system_heap [OF this]
  have q: "qtd_buffer ?s = 64" "frame_buffer ?s ! 63 = 0x13F000"
    by (simp_all add: block_state_def paged_state_def boot_state_def nth_append)
  have "0 < unat (qtd_buffer ?s)" "(0x13F000 :: addr) = frame_buffer ?s ! unat (qtd_buffer ?s - 1)" "?t = ?s\<lparr>qtd_buffer := qtd_buffer ?s - 1\<rparr>"
    using q by simp_all
  from pop_frame [OF S(3) this] have f: "frames_inv ?t []" "0x13F000 \<in> free_frames ?s []" "free_frames ?t [] = free_frames ?s [] - {0x13F000}"
    by simp_all
  have h: "same_heap ?s ?t" "frames.more ?t = frames.more ?s" by (auto simp: same_heap_def)
  have ok: "system_ok ?t [] {slot_addr 0} used_regions (\<lambda>_. []) 16 boot_frames"
    by (rule node_system [OF _ _ f(1), of _ _ _ _ _ "{}"]) (use S(1,4,5,6) heap_in_slot_cong [OF h] f(3) in \<open>auto simp: given_def\<close>)
  have P: "process_ok ?t [] {slot_addr 0} ?p 1"
    by (simp add: process_ok_def allocated_def block_state_def used_tag_def)
  have l: "4096 dvd unat (l4_pointer ?p)" "unat (l4_pointer ?p) < 2 ^ 64 - 4096" "unat (l4_pointer ?p) \<in> boot_frames"
    "unat (l4_pointer ?p) \<notin> free_frames ?t []" using S(4) f by auto
  have sl: "heap_slack ?t (length ([] :: addr list) + 1)"
    by (simp add: heap_slack_def liballoc_init_def block_state_def MAXCOMPLETE_def)
  have "run_cost 16 16 = 16" by code_simp
  then have a: "ample 16 16 0 ?t" by (simp add: ample_def rich_def MAX_BUFFER_FRAMES_def)
  from destroy_frees_process [OF ok P l sl a, of 0] obtain s' ns' L' R' F' N' used where
    D: "destroy (sys_malloc (Suc 0)) (sys_free (Suc 0)) ?p ?t = Some s'" "system_ok s' ns' L' R' F' N' (boot_frames - used)"
    "used \<subseteq> insert (unat (l4_pointer ?p)) (free_frames ?t [])" "free_frames s' ns' = insert (unat (l4_pointer ?p)) (free_frames ?t []) - used"
    "N' = 16 \<or> N' = 16 + 16" "card used = run_cost 16 (N' - 16)" "threads ?p - of_nat TAG_SIZE \<notin> allocated s' L'" by (elim exE conjE) (rule that)
  have e: "insert (unat (l4_pointer ?p)) (free_frames ?t []) = boot_frames"
    using f(2,3) boot_frames_inv(2) by (auto simp: free_frames_def buffered_def block_state_def paged_state_def boot_state_def)
  have "finite used" using D(3) boot_frames(1) unfolding e by (rule finite_subset)
  moreover have "run_cost 16 16 = 16" by code_simp
  ultimately have "N' = 16 \<and> used = {} \<or> N' = 32 \<and> card used = 16" using D(5,6) by auto
  moreover have "slot_addr 0 \<notin> allocated s' L'" using D(7) by simp
  ultimately show ?thesis using D(1,2,4) unfolding One_nat_def e by (intro exI conjI)
qed

end
