(* ===== verification/Processor.thy ===== *)
theory Processor
  imports Gdt
begin

text \<open>
  The processor registers the start-up code sets: model-specific registers (\<open>funcs/global/msr.asm\<close>)
  and the control bits of SSE (\<open>funcs/arch/sse.asm\<close>). \<open>wrmsr\<close> and \<open>rdmsr\<close> pass a 64-bit register in
  two halves, \<open>edx\<close> and \<open>eax\<close>.
\<close>

section \<open>Model-specific registers\<close>

record cpu =
  msr :: "uint32 \<Rightarrow> uint64"
  cr0_reg :: uint64
  cr4_reg :: uint64

definition wrmsr :: "uint32 \<Rightarrow> uint32 \<Rightarrow> uint32 \<Rightarrow> 'a cpu_scheme \<Rightarrow> 'a cpu_scheme" where
  "wrmsr ecx edx eax s = s\<lparr>msr := (msr s)(ecx := push_bit 32 (ucast edx) OR ucast eax)\<rparr>"

definition rdmsr :: "uint32 \<Rightarrow> 'a cpu_scheme \<Rightarrow> uint32 \<times> uint32" where
  "rdmsr ecx s = (ucast (drop_bit 32 (msr s ecx)), ucast (msr s ecx))"

definition write_gsbase :: "uint64 \<Rightarrow> 'a cpu_scheme \<Rightarrow> 'a cpu_scheme" where
  "write_gsbase rdi s = (let eax = ucast rdi; rdi = drop_bit 32 rdi; edx = ucast rdi in wrmsr 0xc0000101 edx eax s)"

definition write_kernelgsbase :: "uint64 \<Rightarrow> 'a cpu_scheme \<Rightarrow> 'a cpu_scheme" where
  "write_kernelgsbase rdi s = (let eax = ucast rdi; rdi = drop_bit 32 rdi; edx = ucast rdi in wrmsr 0xC0000102 edx eax s)"

definition write_fsbase :: "uint64 \<Rightarrow> 'a cpu_scheme \<Rightarrow> 'a cpu_scheme" where
  "write_fsbase rdi s = (let eax = ucast rdi; rdi = drop_bit 32 rdi; edx = ucast rdi in wrmsr 0xc0000100 edx eax s)"

definition read_fsbase :: "'a cpu_scheme \<Rightarrow> uint64" where
  "read_fsbase s = (case rdmsr 0xc0000100 s of (edx, eax) \<Rightarrow> ucast eax OR push_bit 32 (ucast edx))"

definition read_gsbase :: "'a cpu_scheme \<Rightarrow> uint64" where
  "read_gsbase s = (case rdmsr 0xc0000101 s of (edx, eax) \<Rightarrow> ucast eax OR push_bit 32 (ucast edx))"

definition read_kernelgsbase :: "'a cpu_scheme \<Rightarrow> uint64" where
  "read_kernelgsbase s = (case rdmsr 0xC0000102 s of (edx, eax) \<Rightarrow> ucast eax OR push_bit 32 (ucast edx))"

text \<open>\<open>eax0\<close> is what \<open>eax\<close> holds on entry: it goes into the low half of the first register.\<close>

definition setup_syscall :: "uint64 \<Rightarrow> uint32 \<Rightarrow> 'a cpu_scheme \<Rightarrow> 'a cpu_scheme" where
  "setup_syscall syscall_handler eax0 s = (let
     s = wrmsr 0xC0000081 0x00080008 eax0 s;
     rdx = syscall_handler; eax = ucast rdx; rdx = drop_bit 32 rdx;
     s = wrmsr 0xC0000082 (ucast rdx) eax s;
     (edx, eax) = rdmsr 0xC0000080 s
   in wrmsr 0xC0000080 edx (eax OR 1) s)"

section \<open>SSE\<close>

text \<open>An instruction on \<open>ax\<close> leaves the rest of \<open>rax\<close>.\<close>

definition with_ax :: "(uint16 \<Rightarrow> uint16) \<Rightarrow> uint64 \<Rightarrow> uint64" where
  "with_ax f rax = (rax AND NOT 0xFFFF) OR ucast (f (ucast rax))"

text \<open>\<open>edx\<close> holds the features \<open>cpuid\<close> reports; without SSE or SSE2 the code halts for ever.\<close>

definition enable_sse :: "uint32 \<Rightarrow> 'a cpu_scheme \<Rightarrow> 'a cpu_scheme option" where
  "enable_sse edx s =
     (if edx AND push_bit 25 1 = 0 then None
      else if edx AND push_bit 26 1 = 0 then None
      else (let
        rax = cr0_reg s; rax = with_ax (\<lambda>ax. ax AND 0xFFFB) rax; rax = with_ax (\<lambda>ax. ax OR 0x2) rax;
        s = s\<lparr>cr0_reg := rax\<rparr>;
        rax = cr4_reg s; rax = with_ax (\<lambda>ax. ax OR push_bit 9 3) rax;
        s = s\<lparr>cr4_reg := rax\<rparr> in Some s))"

section \<open>Properties\<close>

lemma halves: "push_bit 32 (ucast (ucast (drop_bit 32 v) :: uint32)) OR ucast (ucast v :: uint32) = (v :: uint64)"
  by (rule bit_word_eqI) (auto simp: bit_simps not_less)

lemma halves_swapped: "ucast (ucast v :: uint32) OR push_bit 32 (ucast (ucast (drop_bit 32 v) :: uint32)) = (v :: uint64)"
  using halves by (metis or.commute)

lemma write_msr [simp]:
  "write_gsbase v s = s\<lparr>msr := (msr s)(0xc0000101 := v)\<rparr>"
  "write_kernelgsbase v s = s\<lparr>msr := (msr s)(0xC0000102 := v)\<rparr>"
  "write_fsbase v s = s\<lparr>msr := (msr s)(0xc0000100 := v)\<rparr>"
  by (simp_all add: write_gsbase_def write_kernelgsbase_def write_fsbase_def wrmsr_def Let_def halves)

lemma read_msr [simp]:
  "read_gsbase s = msr s 0xc0000101" "read_kernelgsbase s = msr s 0xC0000102" "read_fsbase s = msr s 0xc0000100"
  by (simp_all add: read_gsbase_def read_kernelgsbase_def read_fsbase_def rdmsr_def halves_swapped)

text \<open>
  The base registers of \<open>fs\<close>, \<open>gs\<close> and the kernel's \<open>gs\<close>: each reads back the whole 64-bit value
  written to it through the two halves, and writing one leaves the other two.
\<close>

theorem segment_bases_roundtrip:
  "read_fsbase (write_fsbase v s) = v \<and> read_gsbase (write_gsbase v s) = v \<and> read_kernelgsbase (write_kernelgsbase v s) = v \<and>
   read_gsbase (write_fsbase v s) = read_gsbase s \<and> read_kernelgsbase (write_fsbase v s) = read_kernelgsbase s \<and>
   read_fsbase (write_gsbase v s) = read_fsbase s \<and> read_kernelgsbase (write_gsbase v s) = read_kernelgsbase s \<and>
   read_fsbase (write_kernelgsbase v s) = read_fsbase s \<and> read_gsbase (write_kernelgsbase v s) = read_gsbase s"
  by simp

text \<open>What \<open>syscall\<close> loads: the target from \<open>LSTAR\<close>, the two selectors from bits 32 to 47 of \<open>STAR\<close>.\<close>

definition syscall_target :: "'a cpu_scheme \<Rightarrow> uint64 option" where
  "syscall_target s = (if bit (msr s 0xC0000080) 0 then Some (msr s 0xC0000082) else None)"

definition syscall_cs :: "'a cpu_scheme \<Rightarrow> nat" where
  "syscall_cs s = unat (drop_bit 32 (msr s 0xC0000081) AND 0xFFFC)"

definition syscall_ss :: "'a cpu_scheme \<Rightarrow> nat" where
  "syscall_ss s = unat (drop_bit 32 (msr s 0xC0000081) AND 0xFFFF) + 8"

lemma setup_syscall_msr:
  "msr (setup_syscall h e s) =
     (msr s)(0xC0000081 := push_bit 32 0x00080008 OR ucast e, 0xC0000082 := h, 0xC0000080 := msr s 0xC0000080 OR 1)"
proof -
  have "push_bit 32 (ucast (ucast (drop_bit 32 v) :: uint32)) OR ucast ((ucast v :: uint32) OR 1) = (v OR 1 :: uint64)" for v :: uint64
    by (rule bit_word_eqI) (auto simp: bit_simps not_less)
  then show ?thesis by (simp add: setup_syscall_def wrmsr_def rdmsr_def halves Let_def)
qed

lemma syscall_selectors: "syscall_cs (setup_syscall h e s) = 8" "syscall_ss (setup_syscall h e s) = 16"
proof -
  have "drop_bit 32 (push_bit 32 0x00080008 OR ucast e) = (0x00080008 :: uint64)"
    by (rule bit_word_eqI) (auto simp: bit_simps dest: bit_imp_le_length)
  then show "syscall_cs (setup_syscall h e s) = 8" "syscall_ss (setup_syscall h e s) = 16"
    by (simp_all add: syscall_cs_def syscall_ss_def setup_syscall_msr)
qed

lemma setup_syscall_ready: "syscall_target (setup_syscall h e s) = Some h"
  by (simp add: syscall_target_def setup_syscall_msr bit_or_iff)

text \<open>
  The bits of the control registers: 2 (emulation) goes off and 1 (monitoring) on in \<open>cr0\<close>, 9 and 10
  (the SSE state is saved, SSE exceptions are raised) go on in \<open>cr4\<close>; every other bit stays.
\<close>

lemma with_ax_bits: "bit (with_ax f rax) n \<longleftrightarrow> (if n < 16 then bit (f (ucast rax)) n else bit rax n)"
proof -
  have m: "(0xFFFF :: uint64) = mask 16" by (simp add: mask_eq_exp_minus_1)
  show ?thesis unfolding with_ax_def m by (auto simp: bit_simps dest: bit_imp_le_length)
qed

lemma ax_masks:
  "bit (0xFFFB :: uint16) n \<longleftrightarrow> n < 16 \<and> n \<noteq> 2" "bit (2 :: uint16) n \<longleftrightarrow> n = 1" "bit (push_bit 9 3 :: uint16) n \<longleftrightarrow> n = 9 \<or> n = 10"
proof -
  have "(0xFFFB :: uint16) = NOT (push_bit 2 1)" by simp
  then show "bit (0xFFFB :: uint16) n \<longleftrightarrow> n < 16 \<and> n \<noteq> 2" by (simp only: bit_simps) auto
  have "(2 :: uint16) = push_bit 1 1" by simp
  then show "bit (2 :: uint16) n \<longleftrightarrow> n = 1" by (simp only: bit_simps) auto
  have "(3 :: uint16) = mask 2" by (simp add: mask_eq_exp_minus_1)
  then show "bit (push_bit 9 3 :: uint16) n \<longleftrightarrow> n = 9 \<or> n = 10" by (simp only: bit_simps) auto
qed

lemma feature_bit: "edx AND push_bit k 1 = 0 \<longleftrightarrow> \<not> bit edx k" if "k < 32" for edx :: uint32
  using that by (simp add: and_exp_eq_0_iff_not_bit push_bit_eq_mult)

lemma enable_sse_runs:
  assumes "bit edx 25" "bit edx 26"
  shows "\<exists>s'. enable_sse edx s = Some s'"
proof -
  have off: "(edx AND push_bit k 1 = 0) = False" if "bit edx k" "k < 32" for k
    using that feature_bit by blast
  have k: "(25 :: nat) < 32" "(26 :: nat) < 32" by simp_all
  show ?thesis unfolding enable_sse_def Let_def off [OF assms(1) k(1)] off [OF assms(2) k(2)] if_False by blast
qed

lemma enable_sse_bits:
  assumes "enable_sse edx s = Some s'"
  shows "bit edx 25 \<and> bit edx 26 \<and> msr s' = msr s"
    "bit (cr0_reg s') n \<longleftrightarrow> n = 1 \<or> n \<noteq> 2 \<and> bit (cr0_reg s) n" "bit (cr4_reg s') n \<longleftrightarrow> n = 9 \<or> n = 10 \<or> bit (cr4_reg s) n"
proof -
  have e: "bit edx 25" "bit edx 26" "msr s' = msr s" "cr0_reg s' = with_ax (\<lambda>ax. ax OR 0x2) (with_ax (\<lambda>ax. ax AND 0xFFFB) (cr0_reg s))"
    "cr4_reg s' = with_ax (\<lambda>ax. ax OR push_bit 9 3) (cr4_reg s)"
    using assms feature_bit [of 25 edx] feature_bit [of 26 edx] by (auto simp: enable_sse_def Let_def split: if_splits)
  then show "bit edx 25 \<and> bit edx 26 \<and> msr s' = msr s" by blast
  show "bit (cr0_reg s') n \<longleftrightarrow> n = 1 \<or> n \<noteq> 2 \<and> bit (cr0_reg s) n" "bit (cr4_reg s') n \<longleftrightarrow> n = 9 \<or> n = 10 \<or> bit (cr4_reg s) n"
    unfolding e(4,5) with_ax_bits bit_or_iff bit_and_iff ax_masks bit_ucast_iff by auto
qed

end
