(* ===== verification/Kernel.thy ===== *)
theory Kernel
  imports Setup Idt Processor
begin

text \<open>
  The kernel's start: \<open>_start\<close> (\<open>asm/start_kernel.asm\<close>), \<open>kmain\<close> (\<open>app/kernel/kernel.cpp\<close>) and \<open>main\<close>
  (\<open>app/app.cpp\<close>). Each of the parts it sets up is a view of the machine of its own. The addresses of
  the handlers and of \<open>kernelController\<close>, the text \<open>Test\<close> from \<open>storage/test.txt\<close> and libc's \<open>sprintf\<close> are
  parameters. A device interrupt between two steps writes to its ports and one cell of the screen only.
\<close>

section \<open>The code\<close>

record machine =
  m_cpu :: cpu
  m_gdt :: GDT
  m_irq :: idt_state
  m_vga :: vga
  m_mem :: kernel

definition main :: "uint8 list \<Rightarrow> 'a vga_scheme \<Rightarrow> 'a vga_scheme option" where
  "main Test st = do {
     st \<leftarrow> kprintStr 1 20 (ascii ''USUARIO PROGRAMA'') 0x2F st;
     kprintStr 1 21 Test 0x2F st }"

record environment =
  isr :: "uint8 \<Rightarrow> uint64"
  fmt_map :: map_format
  fmt_hex :: "uint64 \<Rightarrow> uint8 list"
  fmt_free :: free_format
  e820 :: "nat \<Rightarrow> memory_map"
  kernelController :: addr
  Test :: "uint8 list"
  cpuid_edx :: uint32
  syscall_handler :: uint64

definition kmain :: "environment \<Rightarrow> unit kernel_ext paging_ext malloc_fun \<Rightarrow> unit kernel_ext paging_ext free_fun \<Rightarrow> machine \<Rightarrow> machine option" where
  "kmain en mf ff m = do {
     let y = 2;
     let base = background_code TEXT_BLACK OR text_code TEXT_WHITE;
     let st = clrscr base (m_vga m);
     st \<leftarrow> kprintStr 0 y (ascii ''Kernel iniciado em 64bits'') base st; let y = y + 1;
     g \<leftarrow> setupGDT (m_gdt m);
     st \<leftarrow> kprintStr 0 y (ascii ''GDT definida.'') base st; let y = y + 1;
     let i = setupIDT (isr en) (m_irq m);
     st \<leftarrow> kprintStr 0 y (ascii ''IDT definida.'') base st; let y = y + 1;
     (st, k) \<leftarrow> setupPagination mf ff (fmt_map en) (fmt_hex en) (fmt_free en) (e820 en) (kernelController en) st (m_mem m);
     st \<leftarrow> kprintStr 0 y (ascii ''Paginacao definida.'') base st; let y = y + 1;
     st \<leftarrow> main (Test en) st;
     Some (m\<lparr>m_gdt := g, m_irq := i, m_vga := st, m_mem := k\<rparr>) }"

text \<open>\<open>rep stosq\<close> to the screen: a word of 64 bits is four cells, the character below the colour.\<close>

definition cell :: "nat \<Rightarrow> uint64 \<Rightarrow> uint8 \<times> color" where
  "cell j rax = (ucast (drop_bit (16 * j) rax), ucast (drop_bit (16 * j + 8) rax))"

fun rep_stosq :: "nat \<Rightarrow> uint16 \<Rightarrow> uint64 \<Rightarrow> (uint16 \<Rightarrow> uint8 \<times> color) \<Rightarrow> uint16 \<Rightarrow> uint8 \<times> color" where
  "rep_stosq 0 p rax v = v"
| "rep_stosq (Suc rcx) p rax v =
     rep_stosq rcx (p + 4) rax (v(p := cell 0 rax, p + 1 := cell 1 rax, p + 2 := cell 2 rax, p + 3 := cell 3 rax))"

text \<open>Up to the \<open>syscall\<close> instruction; \<open>eax0\<close> is what \<open>kmain\<close> leaves in \<open>eax\<close>.\<close>

definition start_kernel :: "environment \<Rightarrow> unit kernel_ext paging_ext malloc_fun \<Rightarrow> unit kernel_ext paging_ext free_fun \<Rightarrow>
    uint32 \<Rightarrow> machine \<Rightarrow> machine option" where
  "start_kernel en mf ff eax0 m = do {
     let rdi = 0xFFFFFF8000000000;
     let c = write_fsbase rdi (write_gsbase rdi (m_cpu m));
     let st = (m_vga m)\<lparr>vga_mem := rep_stosq 500 0 0x1F201F201F201F20 (vga_mem (m_vga m))\<rparr>;
     c \<leftarrow> enable_sse (cpuid_edx en) c;
     let i = (m_irq m)\<lparr>interrupts := False\<rparr>;
     m \<leftarrow> kmain en mf ff (m\<lparr>m_cpu := c, m_vga := st, m_irq := i\<rparr>);
     Some (m\<lparr>m_cpu := setup_syscall (syscall_handler en) eax0 (m_cpu m)\<rparr>) }"

section \<open>The whole start\<close>

lemma main_runs:
  assumes "list_all (\<lambda>c. c \<notin> {0, 10, 27}) txt" "length txt \<le> 79"
  shows "\<exists>st'. main txt st = Some st' \<and> (\<forall>j < 16. vga_mem st' (of_nat (1601 + j)) = (ascii ''USUARIO PROGRAMA'' ! j, 0x2F))"
proof -
  let ?u = "ascii ''USUARIO PROGRAMA''"
  have u: "list_all (\<lambda>c. c \<notin> {0, 10, 27}) ?u" "length ?u = 16" by (simp_all add: ascii_def)
  obtain st1 where st1: "kprintStr 1 20 ?u 0x2F st = Some st1"
      "\<And>p. vga_mem st1 p = (if 1601 \<le> unat p \<and> unat p < 1617 then (?u ! (unat p - 1601), 0x2F) else vga_mem st p)"
    using kprintStr_plain [OF u(1), of 1 20 "0x2F" st] u(2) by auto
  obtain st2 where st2: "kprintStr 1 21 txt 0x2F st1 = Some st2"
      "\<And>p. unat p < 1681 \<Longrightarrow> vga_mem st2 p = vga_mem st1 p"
    using kprintStr_plain [OF assms(1), of 1 21 "0x2F" st1] assms(2) by auto
  have "vga_mem st2 (of_nat (1601 + j)) = (?u ! j, 0x2F)" if "j < 16" for j
  proof -
    have "unat (of_nat (1601 + j) :: uint16) = 1601 + j" by (rule unat_of_nat_small) (use that in simp)
    then show ?thesis using st2(2) st1(2) that by simp
  qed
  then show ?thesis using st1(1) st2(1) by (simp add: main_def)
qed

lemma kmain_runs:
  assumes k: "\<And>st :: vga. \<exists>st' k. setupPagination mf ff (fmt_map en) (fmt_hex en) (fmt_free en) (e820 en) (kernelController en) st (m_mem m) = Some (st', k) \<and> P k"
    and g: "setupGDT (m_gdt m) = Some g" and t: "list_all (\<lambda>c. c \<notin> {0, 10, 27}) (Test en)" "length (Test en) \<le> 79"
  shows "\<exists>st k. kmain en mf ff m = Some (m\<lparr>m_gdt := g, m_irq := setupIDT (isr en) (m_irq m), m_vga := st, m_mem := k\<rparr>) \<and> P k \<and>
    (\<forall>j < 16. vga_mem st (of_nat (1601 + j)) = (ascii ''USUARIO PROGRAMA'' ! j, 0x2F))"
proof -
  let ?b = "background_code TEXT_BLACK OR text_code TEXT_WHITE"
  have run: "\<exists>st'. kprintStr x y str col st = Some st'" for x y str col and st :: vga using kprintStr_runs by blast
  obtain s1 where 1: "kprintStr 0 2 (ascii ''Kernel iniciado em 64bits'') ?b (clrscr ?b (m_vga m)) = Some s1" using run by blast
  obtain s2 where 2: "kprintStr 0 3 (ascii ''GDT definida.'') ?b s1 = Some s2" using run by blast
  obtain s3 where 3: "kprintStr 0 4 (ascii ''IDT definida.'') ?b s2 = Some s3" using run by blast
  obtain s4 k where 4: "setupPagination mf ff (fmt_map en) (fmt_hex en) (fmt_free en) (e820 en) (kernelController en) s3 (m_mem m) = Some (s4, k)" "P k"
    using k by blast
  obtain s5 where 5: "kprintStr 0 5 (ascii ''Paginacao definida.'') ?b s4 = Some s5" using run by blast
  obtain s6 where 6: "main (Test en) s5 = Some s6" "\<forall>j < 16. vga_mem s6 (of_nat (1601 + j)) = (ascii ''USUARIO PROGRAMA'' ! j, 0x2F)"
    using main_runs [OF t] by blast
  have n: "(2 :: int) + 1 = 3" "(3 :: int) + 1 = 4" "(4 :: int) + 1 = 5" by simp_all
  have "kmain en mf ff m = Some (m\<lparr>m_gdt := g, m_irq := setupIDT (isr en) (m_irq m), m_vga := s6, m_mem := k\<rparr>)"
    unfolding kmain_def Let_def n 1 2 3 4(1) 5 6(1) g bind.bind_lunit prod.case by (rule refl)
  then show ?thesis using 6(2) 4(2) by (intro exI conjI)
qed

lemma setupIDT_vector:
  "interrupts (setupIDT f i)" "v \<in> set isr_vectors \<Longrightarrow> idt (setupIDT f i) v = gate IDT_INTERRUPT_GATE (f v)"
proof -
  note I = setupIDT_gates [of f i]
  show "interrupts (setupIDT f i)" using I by blast
  have "if v \<in> set isr_vectors then idt (setupIDT f i) v = gate IDT_INTERRUPT_GATE (f v) else \<not> gate_present (idt (setupIDT f i) v)"
    using I by blast
  then show "v \<in> set isr_vectors \<Longrightarrow> idt (setupIDT f i) v = gate IDT_INTERRUPT_GATE (f v)" by simp
qed

text \<open>A region of 16 pages is enough for any request of up to 64 KB, its tag included.\<close>

lemma malloc_small:
  assumes ok: "system_ok s ns L R F N fr" and N: "N = 16" and r: "\<forall>k. k + 83 \<le> unat (sp_size rg) div 4096 \<longrightarrow> rich k s"
    and sz: "unat sz \<le> 0xFFD0" "0x63000 \<le> unat (sp_size rg)"
  shows "\<exists>p t. sys_malloc (d + 2) sz s = Some (p, t) \<and> p \<noteq> NULL"
proof -
  have u: "unat (ucast sz :: uint32) = unat sz" by (rule unat_ucast_small) (use sz(1) in simp)
  have m: "unat sz \<le> MAX_REQUEST" using sz(1) by (simp add: MAX_REQUEST_def TAG_SIZE_def)
  have pg: "unat (pages_for (ucast sz)) = 16"
  proof -
    let ?u = "ucast sz + of_nat TAG_SIZE :: uint32"
    have n: "unat ?u = unat sz + 48" using sz(1) u by (subst unat_add_no_wrap) (simp_all add: TAG_SIZE_def)
    have d: "unat (?u div l_pageSize) = (unat sz + 48) div 4096" "?u mod l_pageSize = 0 \<longleftrightarrow> (unat sz + 48) mod 4096 = 0"
      by (simp_all add: l_pageSize_def unat_div word_unat_eq_iff unat_mod n)
    have "(unat sz + 48) div 4096 < 16 \<or> unat sz = 0xFFD0" using sz(1) by auto
    then show ?thesis
    proof
      assume l: "(unat sz + 48) div 4096 < 16"
      then have "unat (?u div l_pageSize + 1) = unat (?u div l_pageSize) + 1" using d(1) by (subst unat_add_no_wrap) simp_all
      then show ?thesis using l d by (auto simp: pages_for_def Let_def l_pageCount_def word_less_nat_alt)
    qed (use d in \<open>simp add: pages_for_def Let_def l_pageCount_def word_less_nat_alt\<close>)
  qed
  have c: "run_cost 16 16 = 16" by code_simp
  have "rich 16 s" using r sz(2) by (auto dest: spec [of _ 16])
  then have "\<exists>p t. sys_malloc (d + 2) sz s = Some (p, t)"
    using malloc_runs [OF ok m, of "d + 1"] unfolding N pg c by simp
  then show ?thesis using malloc_real [OF ok m] by blast
qed

lemma start_runs:
  assumes s: "bss_zero s" "m_mem m = SwitchToLongMode s"
    and e820: "map_ok (e820 en) n" "i < n" "usable (e820 en i)" "\<forall>x < n. x \<noteq> i \<longrightarrow> \<not> usable (e820 en x)"
    and rg: "rg = round_space (space (e820 en i))" "space_ok rg" "0x40000 < unat (sp_size rg)" "unat (sp_size rg) < 2 ^ 30"
      "\<forall>f. unat (f :: addr) \<in> set (pages_of rg) \<longrightarrow> empty_table s f"
    and k: "KERNEL_OFFSET \<le> kernelController en" "kernelController en - KERNEL_OFFSET < 0x200000"
    and m: "length (entries (m_gdt m)) = 16" "outs (m_irq m) = []" "bit (cpuid_edx en) 25" "bit (cpuid_edx en) 26"
    and t: "list_all (\<lambda>c. c \<notin> {0, 10, 27}) (Test en)" "length (Test en) \<le> 79"
  shows "\<exists>m' ns L R F N used. start_kernel en (sys_malloc (d + 2)) (sys_free (d + 2)) eax0 m = Some m' \<and>
    system_ok (m_mem m') ns L R F N (set (pages_of rg) - used) \<and> free_frames (m_mem m') ns = set (pages_of rg) - used \<and>
    used \<subseteq> set (pages_of rg) \<and> card used = 19 \<and>
    (\<forall>v. KERNEL_OFFSET \<le> v \<and> v - KERNEL_OFFSET < 0x200000 \<longrightarrow> mmu (m_mem m') v = Some (v - KERNEL_OFFSET)) \<and>
    syscall_target (m_cpu m') = Some (syscall_handler en) \<and>
    decode_segment (entries (m_gdt m') ! (syscall_cs (m_cpu m') div 8)) = \<lparr>seg_base = 0, seg_limit = 0, seg_present = True, seg_dpl = 0,
      seg_code_data = True, seg_executable = True, seg_writable = False, seg_long = True, seg_pages = True\<rparr> \<and>
    decode_segment (entries (m_gdt m') ! (syscall_ss (m_cpu m') div 8)) = \<lparr>seg_base = 0, seg_limit = 0, seg_present = True, seg_dpl = 0,
      seg_code_data = True, seg_executable = False, seg_writable = True, seg_long = False, seg_pages = True\<rparr> \<and>
    interrupts (m_irq m') \<and> (\<forall>ms. \<forall>j < 16. irq_vector (fold pics_write (outs (m_irq m')) ms) j = 32 + j) \<and>
    idt (m_irq m') 32 = gate IDT_INTERRUPT_GATE (isr en 32) \<and> idt (m_irq m') 33 = gate IDT_INTERRUPT_GATE (isr en 33) \<and>
    read_fsbase (m_cpu m') = KERNEL_OFFSET \<and>
    (\<forall>j < 16. vga_mem (m_vga m') (of_nat (1601 + j)) = (ascii ''USUARIO PROGRAMA'' ! j, 0x2F)) \<and> N = 16 \<and>
    (\<forall>k. k + 83 \<le> unat (sp_size rg) div 4096 \<longrightarrow> rich k (m_mem m')) \<and> (\<forall>j < MAXEXP. l_completePages (m_mem m') ! j \<le> 0) \<and>
    lock_var (m_mem m') = lock_var s"
proof -
  define P where "P k = (\<exists>ns L R F N used. system_ok k ns L R F N (set (pages_of rg) - used) \<and> free_frames k ns = set (pages_of rg) - used \<and>
    used \<subseteq> set (pages_of rg) \<and> card used = 19 \<and>
    (\<forall>v. KERNEL_OFFSET \<le> v \<and> v - KERNEL_OFFSET < 0x200000 \<longrightarrow> mmu k v = Some (v - KERNEL_OFFSET)) \<and> N = 16 \<and>
    (\<forall>i. i + 83 \<le> unat (sp_size rg) div 4096 \<longrightarrow> rich i k) \<and> (\<forall>j < MAXEXP. l_completePages k ! j \<le> 0) \<and> lock_var k = lock_var s)" for k :: kernel
  obtain c where c: "enable_sse (cpuid_edx en) (write_fsbase 0xFFFFFF8000000000 (write_gsbase 0xFFFFFF8000000000 (m_cpu m))) = Some c"
    using enable_sse_runs [OF m(3,4)] by blast
  let ?st = "(m_vga m)\<lparr>vga_mem := rep_stosq 500 0 0x1F201F201F201F20 (vga_mem (m_vga m))\<rparr>"
  let ?m = "m\<lparr>m_cpu := c, m_vga := ?st, m_irq := (m_irq m)\<lparr>interrupts := False\<rparr>\<rparr>"
  obtain g where g: "setupGDT (m_gdt m) = Some g"
    "decode_segment (entries g ! 1) = \<lparr>seg_base = 0, seg_limit = 0, seg_present = True, seg_dpl = 0,
      seg_code_data = True, seg_executable = True, seg_writable = False, seg_long = True, seg_pages = True\<rparr>"
    "decode_segment (entries g ! 2) = \<lparr>seg_base = 0, seg_limit = 0, seg_present = True, seg_dpl = 0,
      seg_code_data = True, seg_executable = False, seg_writable = True, seg_long = False, seg_pages = True\<rparr>"
    using setupGDT_builds [OF m(1)] by blast
  have P: "\<exists>st' k. setupPagination (sys_malloc (d + 2)) (sys_free (d + 2)) (fmt_map en) (fmt_hex en) (fmt_free en) (e820 en)
      (kernelController en) st (m_mem ?m) = Some (st', k) \<and> P k" for st :: vga
  proof -
    from setupPagination_runs [OF s(1) e820 rg k, of d "fmt_map en" "fmt_hex en" "fmt_free en" st] obtain st' s' ns L R F N used where
      r: "setupPagination (sys_malloc (d + 2)) (sys_free (d + 2)) (fmt_map en) (fmt_hex en) (fmt_free en) (e820 en) (kernelController en) st
        (SwitchToLongMode s) = Some (st', s')" "system_ok s' ns L R F N (set (pages_of rg) - used)" "free_frames s' ns = set (pages_of rg) - used"
      "used \<subseteq> set (pages_of rg)" "card used = 19"
      "\<forall>v. KERNEL_OFFSET \<le> v \<and> v - KERNEL_OFFSET < 0x200000 \<longrightarrow> mmu s' v = Some (v - KERNEL_OFFSET)" "N = 16"
      "\<forall>i. i + 83 \<le> unat (sp_size rg) div 4096 \<longrightarrow> rich i s'" "\<forall>j < MAXEXP. l_completePages s' ! j \<le> 0" "lock_var s' = lock_var s"
      by (elim exE conjE) (rule that)
    from r(2-10) have ps: "P s'" unfolding P_def by (intro exI conjI)
    have "m_mem ?m = SwitchToLongMode s" using s(2) by simp
    then show ?thesis by (intro exI [of _ st'] exI [of _ s'], simp only:) (intro conjI r(1) ps)
  qed
  have "setupGDT (m_gdt ?m) = Some g" using g(1) by simp
  from kmain_runs [OF P this t] obtain st k where
    K: "kmain en (sys_malloc (d + 2)) (sys_free (d + 2)) ?m =
        Some (?m\<lparr>m_gdt := g, m_irq := setupIDT (isr en) (m_irq ?m), m_vga := st, m_mem := k\<rparr>)" "P k"
      "\<forall>j < 16. vga_mem st (of_nat (1601 + j)) = (ascii ''USUARIO PROGRAMA'' ! j, 0x2F)" by (elim exE conjE) (rule that)
  let ?m' = "?m\<lparr>m_gdt := g, m_irq := setupIDT (isr en) (m_irq ?m), m_vga := st, m_mem := k, m_cpu := setup_syscall (syscall_handler en) eax0 c\<rparr>"
  have run: "start_kernel en (sys_malloc (d + 2)) (sys_free (d + 2)) eax0 m = Some ?m'"
    using K(1) c by (simp add: start_kernel_def Let_def del: write_msr)
  have v: "(32 :: uint8) \<in> set isr_vectors" "(33 :: uint8) \<in> set isr_vectors" by (simp_all add: isr_vectors_def)
  have irq: "interrupts (m_irq ?m')" "idt (m_irq ?m') 32 = gate IDT_INTERRUPT_GATE (isr en 32)"
    "idt (m_irq ?m') 33 = gate IDT_INTERRUPT_GATE (isr en 33)" using setupIDT_vector v by simp_all
  have vec: "\<forall>ms. \<forall>j < 16. irq_vector (fold pics_write (outs (m_irq ?m')) ms) j = 32 + j"
    using setupIDT_remaps [of "m_irq ?m" _ "isr en", OF _ refl] m(2) by simp
  have fs: "read_fsbase (m_cpu ?m') = KERNEL_OFFSET"
    using enable_sse_bits(1) [OF c] by (simp add: setup_syscall_msr KERNEL_OFFSET_def)
  have seg: "syscall_cs (m_cpu ?m') div 8 = 1" "syscall_ss (m_cpu ?m') div 8 = 2" by (simp_all add: syscall_selectors)
  have tgt: "syscall_target (m_cpu ?m') = Some (syscall_handler en)" by (simp add: setup_syscall_ready)
  have mm: "m_mem ?m' = k" "m_gdt ?m' = g" "m_vga ?m' = st" by simp_all
  from K(2) [unfolded P_def] obtain ns L R F N used where M: "system_ok k ns L R F N (set (pages_of rg) - used)" "free_frames k ns = set (pages_of rg) - used"
    "used \<subseteq> set (pages_of rg)" "card used = 19"
    "\<forall>v. KERNEL_OFFSET \<le> v \<and> v - KERNEL_OFFSET < 0x200000 \<longrightarrow> mmu k v = Some (v - KERNEL_OFFSET)" "N = 16"
    "\<forall>i. i + 83 \<le> unat (sp_size rg) div 4096 \<longrightarrow> rich i k" "\<forall>j < MAXEXP. l_completePages k ! j \<le> 0" "lock_var k = lock_var s"
    by (elim exE conjE) (rule that)
  show ?thesis
    by (rule exI [of _ ?m'], rule exI [of _ ns], rule exI [of _ L], rule exI [of _ R], rule exI [of _ F], rule exI [of _ N],
      rule exI [of _ used], unfold seg mm) (intro conjI run M tgt g(2,3) irq vec fs K(3))
qed

text \<open>
  C15. The kernel starts. On a machine in the state the loader leaves (its page tables built, the
  kernel's static data zero, a memory map with one usable range of more than 64 pages and less than 1 GB
  whose frames hold no table entries, a processor with SSE), \<open>_start\<close> reaches its
  \<open>syscall\<close> instruction: no lock deadlocks, no access faults, no loop runs on. By then heap, page
  tables and frame allocator satisfy their invariant and the pages of the range are free, less the 19
  the heap took (16 pages and three page tables); \<open>syscall\<close> leads to its handler through the kernel's code and data segments of the
  table \<open>setupGDT\<close> built; the timer and the keyboard raise the vectors that lead to their handlers,
  with interrupts on; \<open>fs\<close> points to the kernel; the application's line is on the screen; and when the
  range has 99 pages, \<open>kernel_malloc\<close> serves any request of up to 64 KB less a tag.
\<close>

theorem kernel_starts:
  assumes s: "bss_zero s" "m_mem m = SwitchToLongMode s"
    and e820: "map_ok (e820 en) n" "i < n" "usable (e820 en i)" "\<forall>x < n. x \<noteq> i \<longrightarrow> \<not> usable (e820 en x)"
    and rg: "rg = round_space (space (e820 en i))" "space_ok rg" "0x40000 < unat (sp_size rg)" "unat (sp_size rg) < 2 ^ 30"
      "\<forall>f. unat (f :: addr) \<in> set (pages_of rg) \<longrightarrow> empty_table s f"
    and k: "KERNEL_OFFSET \<le> kernelController en" "kernelController en - KERNEL_OFFSET < 0x200000"
    and m: "length (entries (m_gdt m)) = 16" "outs (m_irq m) = []" "bit (cpuid_edx en) 25" "bit (cpuid_edx en) 26"
    and t: "list_all (\<lambda>c. c \<notin> {0, 10, 27}) (Test en)" "length (Test en) \<le> 79"
  shows "\<exists>m' ns L R F N used. start_kernel en (sys_malloc (d + 2)) (sys_free (d + 2)) eax0 m = Some m' \<and>
    system_ok (m_mem m') ns L R F N (set (pages_of rg) - used) \<and> free_frames (m_mem m') ns = set (pages_of rg) - used \<and>
    used \<subseteq> set (pages_of rg) \<and> card used = 19 \<and>
    (\<forall>v. KERNEL_OFFSET \<le> v \<and> v - KERNEL_OFFSET < 0x200000 \<longrightarrow> mmu (m_mem m') v = Some (v - KERNEL_OFFSET)) \<and>
    syscall_target (m_cpu m') = Some (syscall_handler en) \<and>
    decode_segment (entries (m_gdt m') ! (syscall_cs (m_cpu m') div 8)) = \<lparr>seg_base = 0, seg_limit = 0, seg_present = True, seg_dpl = 0,
      seg_code_data = True, seg_executable = True, seg_writable = False, seg_long = True, seg_pages = True\<rparr> \<and>
    decode_segment (entries (m_gdt m') ! (syscall_ss (m_cpu m') div 8)) = \<lparr>seg_base = 0, seg_limit = 0, seg_present = True, seg_dpl = 0,
      seg_code_data = True, seg_executable = False, seg_writable = True, seg_long = False, seg_pages = True\<rparr> \<and>
    interrupts (m_irq m') \<and> (\<forall>ms. \<forall>j < 16. irq_vector (fold pics_write (outs (m_irq m')) ms) j = 32 + j) \<and>
    idt (m_irq m') 32 = gate IDT_INTERRUPT_GATE (isr en 32) \<and> idt (m_irq m') 33 = gate IDT_INTERRUPT_GATE (isr en 33) \<and>
    read_fsbase (m_cpu m') = KERNEL_OFFSET \<and>
    (\<forall>j < 16. vga_mem (m_vga m') (of_nat (1601 + j)) = (ascii ''USUARIO PROGRAMA'' ! j, 0x2F)) \<and>
    (\<forall>sz. unat sz \<le> 0xFFD0 \<and> 0x63000 \<le> unat (sp_size rg) \<longrightarrow> (\<exists>p t. sys_malloc (d + 2) sz (m_mem m') = Some (p, t) \<and> p \<noteq> NULL))"
proof -
  from start_runs [OF assms, of d eax0] obtain m' ns L R F N used where
    S: "start_kernel en (sys_malloc (d + 2)) (sys_free (d + 2)) eax0 m = Some m'" "system_ok (m_mem m') ns L R F N (set (pages_of rg) - used)"
      "free_frames (m_mem m') ns = set (pages_of rg) - used" "used \<subseteq> set (pages_of rg)" "card used = 19"
      "\<forall>v. KERNEL_OFFSET \<le> v \<and> v - KERNEL_OFFSET < 0x200000 \<longrightarrow> mmu (m_mem m') v = Some (v - KERNEL_OFFSET)"
      "syscall_target (m_cpu m') = Some (syscall_handler en)"
      "decode_segment (entries (m_gdt m') ! (syscall_cs (m_cpu m') div 8)) = \<lparr>seg_base = 0, seg_limit = 0, seg_present = True, seg_dpl = 0,
        seg_code_data = True, seg_executable = True, seg_writable = False, seg_long = True, seg_pages = True\<rparr>"
      "decode_segment (entries (m_gdt m') ! (syscall_ss (m_cpu m') div 8)) = \<lparr>seg_base = 0, seg_limit = 0, seg_present = True, seg_dpl = 0,
        seg_code_data = True, seg_executable = False, seg_writable = True, seg_long = False, seg_pages = True\<rparr>"
      "interrupts (m_irq m')" "\<forall>ms. \<forall>j < 16. irq_vector (fold pics_write (outs (m_irq m')) ms) j = 32 + j"
      "idt (m_irq m') 32 = gate IDT_INTERRUPT_GATE (isr en 32)" "idt (m_irq m') 33 = gate IDT_INTERRUPT_GATE (isr en 33)"
      "read_fsbase (m_cpu m') = KERNEL_OFFSET"
      "\<forall>j < 16. vga_mem (m_vga m') (of_nat (1601 + j)) = (ascii ''USUARIO PROGRAMA'' ! j, 0x2F)" "N = 16"
      "\<forall>k. k + 83 \<le> unat (sp_size rg) div 4096 \<longrightarrow> rich k (m_mem m')" by (elim exE conjE) (rule that)
  have "\<forall>sz. unat sz \<le> 0xFFD0 \<and> 0x63000 \<le> unat (sp_size rg) \<longrightarrow> (\<exists>p t. sys_malloc (d + 2) sz (m_mem m') = Some (p, t) \<and> p \<noteq> NULL)"
    using malloc_small [OF S(2) S(16) S(17)] by blast
  then show ?thesis using S(1-15) by (intro exI conjI)
qed

text \<open>The 128 MB machine of \<open>Setup\<close>, with a processor that has every feature; \<open>storage/test.txt\<close> is empty.\<close>

definition example_start :: machine where
  "example_start = \<lparr>m_cpu = \<lparr>msr = (\<lambda>_. 0), cr0_reg = 0x80000011, cr4_reg = 0x20\<rparr>,
     m_gdt = \<lparr>gdt_size = 0, gdt_vector = False, entries = replicate 16 0, num_entries = 0,
       behind = (\<lambda>_. 0)\<rparr>,
     m_irq = \<lparr>outs = [], idt = (\<lambda>_. gate 0 0), descriptor_limit = 0, idt_loaded = False, interrupts = False\<rparr>,
     m_vga = example_vga, m_mem = SwitchToLongMode example_machine\<rparr>"

definition example_environment :: environment where
  "example_environment = \<lparr>isr = (\<lambda>_. KERNEL_OFFSET + 0xA000), fmt_map = (\<lambda>_ _ _ _. []), fmt_hex = (\<lambda>_. []),
     fmt_free = (\<lambda>_ _ _. []), e820 = example_map, kernelController = KERNEL_OFFSET + 0x9000,
     Test = [], cpuid_edx = - 1, syscall_handler = KERNEL_OFFSET + 0xB000\<rparr>"

lemma example_start_ok:
  "m_mem example_start = SwitchToLongMode example_machine" "space_ok \<lparr>sp_base = 0x100000, sp_size = 0x7EE0000\<rparr>"
  "0x40000 < unat (sp_size \<lparr>sp_base = 0x100000, sp_size = 0x7EE0000\<rparr>)" "unat (sp_size \<lparr>sp_base = 0x100000, sp_size = 0x7EE0000\<rparr>) < 2 ^ 30"
  "KERNEL_OFFSET \<le> kernelController example_environment" "kernelController example_environment - KERNEL_OFFSET < 0x200000"
  "length (entries (m_gdt example_start)) = 16" "outs (m_irq example_start) = []"
  "bit (cpuid_edx example_environment) 25" "bit (cpuid_edx example_environment) 26"
  "list_all (\<lambda>c. c \<notin> {0, 10, 27}) (Test example_environment)" "length (Test example_environment) \<le> 79"
  "e820 example_environment = example_map" "syscall_handler example_environment = KERNEL_OFFSET + 0xB000"
  by (simp_all add: example_start_def example_environment_def space_ok_def space_end_def KERNEL_OFFSET_def)

theorem kernel_starts_witness:
  "\<exists>m' ns L R F N used. start_kernel example_environment (sys_malloc 2) (sys_free 2) 0 example_start = Some m' \<and>
    system_ok (m_mem m') ns L R F N (set (pages_of \<lparr>sp_base = 0x100000, sp_size = 0x7EE0000\<rparr>) - used) \<and>
    syscall_target (m_cpu m') = Some (KERNEL_OFFSET + 0xB000)"
proof -
  note E = example_start_ok
  note X = kernel_starts [where en = example_environment and m = example_start and d = 0 and n = 4 and i = 2 and ?eax0.0 = 0,
    unfolded E(13,14) add_0]
  have n: "(2 :: nat) < 4" by simp
  from X [OF example_bss E(1) example_map_ok(1) n example_map_ok(2,3) example_map_ok(4) [symmetric] E(2-4) example_empty E(5-12)]
  obtain m' ns L R F N used where "start_kernel example_environment (sys_malloc 2) (sys_free 2) 0 example_start = Some m'"
    "system_ok (m_mem m') ns L R F N (set (pages_of \<lparr>sp_base = 0x100000, sp_size = 0x7EE0000\<rparr>) - used)"
    "syscall_target (m_cpu m') = Some (KERNEL_OFFSET + 0xB000)" by (elim exE conjE) (rule that)
  then show ?thesis by (intro exI conjI)
qed

end
