(* ===== verification/Runtime.thy ===== *)
theory Runtime
  imports Idt
begin

text \<open>
  \<open>memzero\<close> of \<open>lib/kernel/System.cpp\<close>, on a memory of bytes, and what it does to the interrupt
  table \<open>setupIDT\<close> clears with it. Values of several bytes are little-endian.
\<close>

section \<open>Values in bytes\<close>

fun le :: "nat \<Rightarrow> 'a::len word \<Rightarrow> ('a word \<Rightarrow> uint8) \<Rightarrow> uint64" where
  "le 0 a m = 0"
| "le (Suc n) a m = ucast (m a) OR push_bit 8 (le n (a + 1) m)"

definition put64 :: "addr \<Rightarrow> uint64 \<Rightarrow> (addr \<Rightarrow> uint8) \<Rightarrow> addr \<Rightarrow> uint8" where
  "put64 p v m = (\<lambda>a. if unat (a - p) < 8 then ucast (drop_bit (8 * unat (a - p)) v) else m a)"

lemma bit_le: "bit (le n a m) k \<longleftrightarrow> k < 64 \<and> k < 8 * n \<and> bit (m (a + of_nat (k div 8))) (k mod 8)"
proof (induction n arbitrary: a k)
  case (Suc n)
  show ?case
  proof (cases "k < 8")
    case True
    then show ?thesis by (simp add: bit_simps)
  next
    case False
    then obtain j where k: "k = 8 + j" using le_Suc_ex not_less by blast
    have "\<not> bit (m a) k" using False by (auto dest: bit_imp_le_length)
    then have "bit (le (Suc n) a m) k \<longleftrightarrow> k < 64 \<and> bit (le n (a + 1) m) j" by (auto simp: bit_simps k)
    moreover have "k div 8 = Suc (j div 8)" "k mod 8 = j mod 8" using k by simp_all
    ultimately show ?thesis unfolding Suc.IH by (auto simp: k add.assoc simp del: le.simps)
  qed
qed simp

lemma le_cong:
  assumes "\<And>i. i < n \<Longrightarrow> m (a + of_nat i) = m' (a + of_nat i)"
  shows "le n a m = le n a m'"
proof (rule bit_word_eqI)
  fix k
  have "k div 8 < n" if "k < 8 * n" using that by auto
  then show "bit (le n a m) k = bit (le n a m') k" unfolding bit_le using assms by auto
qed

section \<open>The code\<close>

text \<open>The two loops; \<open>p64[i]\<close> is 8 bytes from \<open>ptr + 8 * i\<close> on.\<close>

function zero64 :: "addr \<Rightarrow> uint64 \<Rightarrow> uint64 \<Rightarrow> (addr \<Rightarrow> uint8) \<Rightarrow> addr \<Rightarrow> uint8" where
  "zero64 ptr n i m = (if i < n then zero64 ptr n (i + 1) (put64 (ptr + 8 * i) 0 m) else m)"
  by pat_completeness auto

function zero8 :: "addr \<Rightarrow> uint64 \<Rightarrow> uint64 \<Rightarrow> (addr \<Rightarrow> uint8) \<Rightarrow> addr \<Rightarrow> uint8" where
  "zero8 ptr n i m = (if i < n then zero8 ptr n (i + 1) (m(ptr + i := 0)) else m)"
  by pat_completeness auto

lemma count_up:
  assumes "i < (n :: uint64)"
  shows "unat (i + 1) = unat i + 1" "unat n - Suc (unat i) < unat n - unat i"
proof -
  have l: "unat i < unat n" using assms by (simp add: word_less_nat_alt)
  then show "unat (i + 1) = unat i + 1" using unat_lt64 [of n] by (subst unat_add_no_wrap) simp_all
  show "unat n - Suc (unat i) < unat n - unat i" using l by simp
qed

termination zero64
  by (relation "measure (\<lambda>(ptr, n, i, m). unat n - unat i)") (simp_all add: count_up diff_less_mono2 word_less_nat_alt)

termination zero8
  by (relation "measure (\<lambda>(ptr, n, i, m). unat n - unat i)") (simp_all add: count_up diff_less_mono2 word_less_nat_alt)

declare zero64.simps [simp del] zero8.simps [simp del]

definition memzero :: "addr \<Rightarrow> uint64 \<Rightarrow> (addr \<Rightarrow> uint8) \<Rightarrow> addr \<Rightarrow> uint8" where
  "memzero ptr n m = (if n mod 8 = 0 then zero64 ptr (n div 8) 0 m else zero8 ptr n 0 m)"

section \<open>Properties\<close>

lemma zero8_zeroes: "zero8 p n i m a = (if unat i \<le> unat (a - p) \<and> unat (a - p) < unat n then 0 else m a)"
proof (induction p n i m rule: zero8.induct)
  case (1 p n i m)
  show ?case
  proof (cases "i < n")
    case True
    have "a = p + i \<longleftrightarrow> unat (a - p) = unat i" by (metis add_diff_cancel_left' diff_add_cancel add.commute word_unat_eq_iff)
    moreover have "unat i < unat n" using True by (simp add: word_less_nat_alt)
    ultimately show ?thesis using True 1 [OF True] count_up(1) [OF True] by (subst zero8.simps) (auto simp: fun_upd_def)
  next
    case False
    then show ?thesis by (subst zero8.simps) (auto simp: word_less_nat_alt)
  qed
qed

lemma put64_zero:
  assumes "8 * unat i + 16 \<le> 2 ^ 64"
  shows "put64 (p + 8 * i) 0 m a = (if 8 * unat i \<le> unat (a - p) \<and> unat (a - p) < 8 * unat i + 8 then 0 else m a)"
proof -
  define x where "x = a - p"
  have i: "unat (8 * i) = 8 * unat i" using assms by (subst unat_mult_no_wrap) simp_all
  have d: "a - (p + 8 * i) = x - 8 * i" by (simp add: x_def algebra_simps)
  show ?thesis
  proof (cases "8 * unat i \<le> unat x")
    case True
    then have "unat (x - 8 * i) = unat x - 8 * unat i" using i by (simp add: unat_sub_le)
    then show ?thesis using True unfolding put64_def d x_def [symmetric] by auto
  next
    case False
    then have "x < 8 * i" using i by (simp add: word_less_nat_alt)
    then have "unat (x - 8 * i) = 2 ^ 64 + unat x - 8 * unat i" using i False by (simp add: unat_sub_if_size word_size)
    then have "\<not> unat (x - 8 * i) < 8" using assms by simp
    then show ?thesis using False unfolding put64_def d x_def [symmetric] by simp
  qed
qed

lemma zero64_zeroes:
  assumes "8 * unat n < 2 ^ 64"
  shows "zero64 p n i m a = (if 8 * unat i \<le> unat (a - p) \<and> unat (a - p) < 8 * unat n then 0 else m a)"
  using assms
proof (induction p n i m rule: zero64.induct)
  case (1 p n i m)
  show ?case
  proof (cases "i < n")
    case True
    have l: "unat i < unat n" using True by (simp add: word_less_nat_alt)
    moreover have "8 * unat n \<le> 2 ^ 64 - 8"
    proof -
      have "8 * unat n < 8 * 2 ^ 61" using 1(2) by simp
      then show ?thesis by simp
    qed
    ultimately have "8 * unat i + 16 \<le> 2 ^ 64" by simp
    note put = put64_zero [OF this, of p m a]
    have "zero64 p n i m a = zero64 p n (i + 1) (put64 (p + 8 * i) 0 m) a" using True by (subst zero64.simps) simp
    also have "\<dots> = (if 8 * unat i + 8 \<le> unat (a - p) \<and> unat (a - p) < 8 * unat n then 0 else put64 (p + 8 * i) 0 m a)"
      using 1(1) [OF True 1(2)] count_up(1) [OF True] by simp
    finally show ?thesis unfolding put using l by auto
  next
    case False
    then show ?thesis by (subst zero64.simps) (auto simp: word_less_nat_alt)
  qed
qed

lemma memzero_bytes: "memzero p n m a = (if unat (a - p) < unat n then 0 else m a)"
proof (cases "n mod 8 = 0")
  case True
  then have "unat n mod 8 = 0" using unat_mod [of n 8] by simp
  then have d: "8 * unat (n div 8) = unat n" by (auto simp: unat_div)
  then have "8 * unat (n div 8) < 2 ^ 64" using unat_lt64 [of n] by simp
  from zero64_zeroes [OF this, of p 0 m a] show ?thesis using True d by (simp add: memzero_def)
next
  case False
  then show ?thesis by (simp add: memzero_def zero8_zeroes)
qed

text \<open>
  C36. \<open>memzero\<close> clears the \<open>n\<close> bytes from \<open>ptr\<close> on and no other, for every pointer and every size: its
  two loops, by words when the size is a multiple of 8 and by bytes otherwise, agree with one definition.
\<close>

theorem memzero_zeroes: "memzero ptr n m = (\<lambda>a. if unat (a - ptr) < unat n then 0 else m a)"
  by (rule ext) (rule memzero_bytes)

text \<open>The packed struct \<open>idt_entry\<close> in memory, 16 bytes.\<close>

definition idt_entry_at :: "(addr \<Rightarrow> uint8) \<Rightarrow> addr \<Rightarrow> idt_entry" where
  "idt_entry_at m a = \<lparr>offset_0_15 = ucast (le 2 a m), segment_sel = ucast (le 2 (a + 2) m), ist = ucast (le 1 (a + 4) m),
     gate_type = ucast (le 1 (a + 5) m), offset_16_31 = ucast (le 2 (a + 6) m), offset_32_63 = ucast (le 4 (a + 8) m),
     reserved = ucast (le 4 (a + 12) m)\<rparr>"

text \<open>
  The call in \<open>setupIDT\<close> clears exactly the 256 gates: each of them reads as zero afterwards, as
  \<open>setupIDT\<close> is modelled, and no byte outside the 4096 of the table has changed.
\<close>

theorem memzero_clears_idt:
  "(\<forall>v :: uint8. idt_entry_at (memzero t (16 * 256) m) (t + 16 * ucast v) = zero_entry) \<and>
   (\<forall>a. unat (a - t) \<notin> {0..<4096} \<longrightarrow> memzero t (16 * 256) m a = m a)"
proof (intro conjI allI impI)
  fix v :: uint8
  have z: "le n (t + 16 * ucast v + k) (memzero t (16 * 256) m) = 0" if "unat k + n \<le> 16" for n k
  proof -
    have "memzero t (16 * 256) m (t + 16 * ucast v + k + of_nat i) = 0" if "i < n" for i
    proof -
      have "unat v < 256" using unsigned_less [of v] by simp
      then have "unat (of_nat (16 * unat v + unat k + i) :: addr) = 16 * unat v + unat k + i"
        using \<open>i < n\<close> \<open>unat k + n \<le> 16\<close> by (simp add: unat_of_nat del: of_nat_add of_nat_mult)
      moreover have "t + 16 * ucast v + k + of_nat i - t = of_nat (16 * unat v + unat k + i)" by simp
      ultimately have "unat (t + 16 * ucast v + k + of_nat i - t) = 16 * unat v + unat k + i" by (simp only:)
      then have "unat (t + 16 * ucast v + k + of_nat i - t) < 4096"
        using \<open>unat v < 256\<close> \<open>i < n\<close> \<open>unat k + n \<le> 16\<close> by linarith
      then show ?thesis by (simp add: memzero_bytes del: add_diff_cancel_left')
    qed
    then have "le n (t + 16 * ucast v + k) (memzero t (16 * 256) m) = le n (t + 16 * ucast v + k) (\<lambda>_. 0)" by (intro le_cong)
    also have "\<dots> = 0" by (rule bit_word_eqI) (simp add: bit_le)
    finally show ?thesis .
  qed
  show "idt_entry_at (memzero t (16 * 256) m) (t + 16 * ucast v) = zero_entry"
    using z [of 0 2] z [of 2 2] z [of 4 1] z [of 5 1] z [of 6 2] z [of 8 4] z [of 12 4]
    by (simp only: idt_entry_at_def zero_entry_def add_0_right) simp
qed (simp add: memzero_bytes)

section \<open>new and delete\<close>

text \<open>\<open>lib/libc++/newdel.cpp\<close>, over \<open>malloc\<close> and \<open>free\<close> of the C library.\<close>

definition operator_new :: "(uint64 \<Rightarrow> 's \<Rightarrow> addr \<times> 's) \<Rightarrow> uint64 \<Rightarrow> 's \<Rightarrow> addr \<times> 's" where
  "operator_new malloc sz s = (let (addr, s) = malloc sz s in (addr, s))"

definition operator_new_array :: "(uint64 \<Rightarrow> 's \<Rightarrow> addr \<times> 's) \<Rightarrow> uint64 \<Rightarrow> 's \<Rightarrow> addr \<times> 's" where
  "operator_new_array malloc sz s = (let (addr, s) = malloc sz s in (addr, s))"

definition operator_delete :: "(addr \<Rightarrow> 's \<Rightarrow> 's) \<Rightarrow> addr \<Rightarrow> 's \<Rightarrow> 's" where
  "operator_delete free ptr s = free ptr s"

definition operator_delete_array :: "(addr \<Rightarrow> 's \<Rightarrow> 's) \<Rightarrow> addr \<Rightarrow> 's \<Rightarrow> 's" where
  "operator_delete_array free ptr s = free ptr s"

definition operator_delete_sized :: "(addr \<Rightarrow> 's \<Rightarrow> 's) \<Rightarrow> addr \<Rightarrow> uint64 \<Rightarrow> 's \<Rightarrow> 's" where
  "operator_delete_sized free ptr n s = free ptr s"

definition operator_delete_array_sized :: "(addr \<Rightarrow> 's \<Rightarrow> 's) \<Rightarrow> addr \<Rightarrow> uint64 \<Rightarrow> 's \<Rightarrow> 's" where
  "operator_delete_array_sized free ptr n s = free ptr s"

end
