(* ===== verification/RealMode.thy ===== *)
theory RealMode
  imports Setup Processor Runtime
begin

text \<open>
  The boot sector up to \<open>SwitchToLongMode\<close>: \<open>boot/boot.asm\<close> and the files it includes,
  \<open>memory_maper.asm\<close>, \<open>a20_high_memory.asm\<close>, the processor check of \<open>kernel_64.asm\<close> and the
  table of \<open>gdt.asm\<close>. The BIOS services (\<open>int 0x12\<close>, \<open>0x13\<close>, \<open>0x15\<close>), the keyboard
  controller, the A20 gate and \<open>cpuid\<close> are parameters. A jump to itself is \<open>None\<close>.
\<close>

section \<open>Registers and memory\<close>

record real_mode = ports +
  es :: uint16
  ds :: uint16
  ecx :: uint32
  ram :: "uint32 \<Rightarrow> uint8"
  polls :: nat          \<comment> \<open>reads of the controller's status so far\<close>

text \<open>Segment and offset; with the A20 gate closed, bit 20 of an address is 0.\<close>

definition linear :: "bool \<Rightarrow> uint16 \<Rightarrow> uint16 \<Rightarrow> uint32" where
  "linear a20 seg off = (let a = ucast seg * 16 + ucast off in if a20 then a else a AND NOT 0x100000)"

definition set_cx :: "uint16 \<Rightarrow> uint32 \<Rightarrow> uint32" where
  "set_cx v r = (r AND NOT 0xFFFF) OR ucast v"

record firmware =
  int12_carry :: bool
  int13 :: "uint16 \<Rightarrow> uint16 \<Rightarrow> (uint32 \<Rightarrow> uint8) \<Rightarrow> uint16 \<times> bool \<times> (uint32 \<Rightarrow> uint8)"
    \<comment> \<open>of \<open>ax\<close>, \<open>bx\<close> and the memory: \<open>ax\<close>, the carry flag and the memory\<close>
  int15 :: "nat \<Rightarrow> uint32 \<Rightarrow> uint8 list \<times> uint32 \<times> uint32"
    \<comment> \<open>of the number of earlier calls and \<open>ebx\<close>: the bytes stored at \<open>es:di\<close>, \<open>ecx\<close> and \<open>ebx\<close>\<close>
  kbc_status :: "nat \<Rightarrow> uint8"
  gate_a20 :: bool      \<comment> \<open>what the gate is after \<open>ChangeA20\<close>\<close>
  id_flag :: bool       \<comment> \<open>the processor lets bit 21 of the flags change: it has \<open>cpuid\<close>\<close>
  cpuid :: "uint32 \<Rightarrow> uint32 \<times> uint32 \<times> uint32 \<times> uint32"  \<comment> \<open>\<open>eax\<close>, \<open>ebx\<close>, \<open>ecx\<close>, \<open>edx\<close>\<close>
  eflags :: uint32

section \<open>Loading the kernel\<close>

definition INI_KERNEL :: uint16 where
  "INI_KERNEL = 0x7E00"

definition SEG_KERNEL :: uint8 where
  "SEG_KERNEL = 127"

text \<open>\<open>or ax,ax\<close> sets the zero flag from the result and clears the carry flag.\<close>

definition or_ax :: "uint16 \<Rightarrow> bool \<times> bool" where
  "or_ax ax = (ax OR ax = 0, False)"

definition load_kernel :: "firmware \<Rightarrow> uint8 \<Rightarrow> real_mode \<Rightarrow> real_mode option" where
  "load_kernel f dl s = (let
     s = s\<lparr>ram := (ram s)(linear True (ds s) 0x7000 := dl)\<rparr> in
     if int12_carry f then None
     else (let
       al = SEG_KERNEL + 1;
       (ax, cf, m) = int13 f (push_bit 8 0x02 OR ucast al) INI_KERNEL (ram s);
       s = s\<lparr>ram := m, ecx := set_cx 0x0002 (ecx s)\<rparr>;
       (zf, cf) = or_ax ax
     in if zf then None else if cf then None else Some s))"

section \<open>The memory map\<close>

fun store_bytes :: "uint16 \<Rightarrow> uint16 \<Rightarrow> uint8 list \<Rightarrow> (uint32 \<Rightarrow> uint8) \<Rightarrow> uint32 \<Rightarrow> uint8" where
  "store_bytes seg off [] m = m"
| "store_bytes seg off (b # bs) m = store_bytes seg (off + 1) bs (m(linear True seg off := b))"

text \<open>The loop ends when the BIOS says so; \<open>i\<close> counts its calls.\<close>

partial_function (option) memory_map_repeat :: "firmware \<Rightarrow> nat \<Rightarrow> uint16 \<Rightarrow> uint32 \<Rightarrow> real_mode \<Rightarrow> real_mode option" where
  "memory_map_repeat f i di ebx s = (let
     ecx = (24 :: uint32);
     di = di + ucast ecx;
     (bs, ecx, ebx) = int15 f i ebx;
     s = s\<lparr>ecx := ecx, ram := store_bytes (es s) di bs (ram s)\<rparr>
   in if ebx \<noteq> 0 then memory_map_repeat f (i + 1) di ebx s else Some s)"

definition memory_maper :: "firmware \<Rightarrow> real_mode \<Rightarrow> real_mode option" where
  "memory_maper f s = memory_map_repeat f 0 0xE000 0 (s\<lparr>es := 0x7000\<rparr>)"

section \<open>The A20 gate\<close>

text \<open>\<open>loopnz\<close> counts \<open>cx\<close> down and goes on while it is not 0 and the busy bit is set.\<close>

function A20L :: "firmware \<Rightarrow> real_mode \<Rightarrow> real_mode" where
  "A20L f s = (let
     al = kbc_status f (polls s);
     cx = ucast (ecx s) - 1;
     s = s\<lparr>polls := polls s + 1, ecx := set_cx cx (ecx s)\<rparr>
   in if cx \<noteq> 0 \<and> al AND 2 \<noteq> 0 then A20L f s else s)"
  by pat_completeness auto

lemma bit_set_cx: "bit (set_cx v r) n \<longleftrightarrow> (if n < 16 then bit v n else bit r n)"
proof -
  have m: "(0xFFFF :: uint32) = mask 16" by (simp add: mask_eq_exp_minus_1)
  show ?thesis unfolding set_cx_def m by (auto simp: bit_simps dest: bit_imp_le_length)
qed

lemma ucast_set_cx [simp]: "ucast (set_cx v r) = (v :: uint16)"
  by (rule bit_word_eqI) (simp add: bit_simps bit_set_cx)

lemma set_cx_twice: "set_cx v (set_cx w r) = set_cx v r"
  by (rule bit_word_eqI) (simp add: bit_set_cx)

termination A20L
proof (relation "measure (\<lambda>(f, s). unat (ucast (ecx s) - 1 :: uint16))", goal_cases)
  case (2 f s al cx t)
  have "cx - 1 < cx" using 2(4) by (metis word_gt_0 measure_unat word_less_nat_alt)
  then show ?case using 2 by (simp add: word_less_nat_alt)
qed simp

declare A20L.simps [simp del]

definition WaitKBC :: "firmware \<Rightarrow> real_mode \<Rightarrow> real_mode" where
  "WaitKBC f s = A20L f (s\<lparr>ecx := set_cx 0xFFFF (ecx s)\<rparr>)"

definition ChangeA20 :: "firmware \<Rightarrow> real_mode \<Rightarrow> real_mode" where
  "ChangeA20 f s = (let
     s = WaitKBC f s; s = outb 0x64 0xd1 s;
     s = WaitKBC f s; s = outb 0x60 0xdf s
   in s)"

text \<open>
  \<open>A20_OFF\<close> is reached with equal operands compared: the carry flag is clear and \<open>jnc $\<close> stays
  there. \<open>ds\<close> is saved on the stack and restored.
\<close>

definition CheckA20 :: "firmware \<Rightarrow> real_mode \<Rightarrow> real_mode option" where
  "CheckA20 f s = (let
     low = linear (gate_a20 f) 0 0; high = linear (gate_a20 f) (NOT 0) 0x10;
     s = s\<lparr>es := 0\<rparr>;
     ah = ram s low in
     if ah = ram s high then None
     else (let
       ah = ah + 1; s = s\<lparr>ram := (ram s)(low := ah)\<rparr>;
       zf = (ram s high = ah);
       ah = ah - 1; s = s\<lparr>ram := (ram s)(low := ah)\<rparr>
     in if zf then None else Some s))"

section \<open>The processor\<close>

definition popfd :: "firmware \<Rightarrow> uint32 \<Rightarrow> uint32 \<Rightarrow> uint32" where
  "popfd f v old = (if id_flag f then v else (v AND NOT 0x200000) OR (old AND 0x200000))"

definition CheckCPU :: "firmware \<Rightarrow> real_mode \<Rightarrow> real_mode option" where
  "CheckCPU f s = (let
     eax = eflags f;
     eax = eax XOR 0x200000;
     fl = popfd f eax (eflags f);
     eax = fl;
     eax = eax XOR ecx s;
     eax = drop_bit 21 eax;
     eax = eax AND 1 in
     if eax = 0 then None
     else (let (eax, ebx, ecx, edx) = cpuid f 0x80000000 in
       if eax < 0x80000001 then None
       else (let (eax, ebx, ecx, edx) = cpuid f 0x80000001 in
         if edx AND push_bit 29 1 = 0 then None else Some (s\<lparr>ecx := ecx\<rparr>))))"

text \<open>The whole of it. \<open>SwitchToLongMode\<close> (\<open>Boot\<close>) follows with \<open>edi = INI_PAGIN\<close>.\<close>

definition boot :: "firmware \<Rightarrow> uint8 \<Rightarrow> real_mode \<Rightarrow> real_mode option" where
  "boot f dl s = do {
     s \<leftarrow> load_kernel f dl s;
     s \<leftarrow> memory_maper f s;
     let s = ChangeA20 f s;
     s \<leftarrow> CheckA20 f s;
     CheckCPU f s }"

section \<open>The table for long mode\<close>

definition boot_gdt :: "uint64 list" where
  "boot_gdt = [0,
     push_bit 43 1 OR push_bit 44 1 OR push_bit 47 1 OR push_bit 53 1 OR push_bit 41 1,
     push_bit 44 1 OR push_bit 47 1 OR push_bit 41 1]"

definition boot_gdt_limit :: uint16 where
  "boot_gdt_limit = of_nat (8 * length boot_gdt) - 1"

section \<open>Reading the disk\<close>

text \<open>
  A disk error goes unnoticed: whether the kernel is loaded depends on \<open>ax\<close> alone, since \<open>or ax,ax\<close>
  clears the carry flag the BIOS reports an error with before \<open>jc\<close> looks at it. On an error \<open>ah\<close>
  holds its number, so \<open>ax\<close> is not 0 and the code goes on with whatever is in memory.
\<close>

theorem disk_error_unseen:
  "load_kernel f dl s = (let m = (ram s)(linear True (ds s) 0x7000 := dl); (ax, cf, m') = int13 f 0x0280 0x7E00 m in
     if int12_carry f \<or> ax = 0 then None else Some (s\<lparr>ecx := set_cx 2 (ecx s), ram := m'\<rparr>))"
  by (simp add: load_kernel_def or_ax_def SEG_KERNEL_def INI_KERNEL_def Let_def split: prod.split)

section \<open>The keyboard controller\<close>

lemma A20L_polls:
  assumes "unat (ucast (ecx s) :: uint16) = c" "0 < c"
  shows "\<exists>n cx. 0 < n \<and> n \<le> c \<and> A20L f s = s\<lparr>polls := polls s + n, ecx := set_cx cx (ecx s)\<rparr> \<and>
    (\<forall>k < n - 1. kbc_status f (polls s + k) AND 2 \<noteq> 0) \<and> (n < c \<longrightarrow> kbc_status f (polls s + n - 1) AND 2 = 0)"
  using assms
proof (induction c arbitrary: s)
  case (Suc c)
  let ?cx = "ucast (ecx s) - 1 :: uint16"
  let ?s = "s\<lparr>polls := polls s + 1, ecx := set_cx ?cx (ecx s)\<rparr>"
  have cx: "unat ?cx = c" using Suc.prems(1) by (subst unat_sub_le) simp_all
  show ?case
  proof (cases "?cx \<noteq> 0 \<and> kbc_status f (polls s) AND 2 \<noteq> 0")
    case False
    then have "A20L f s = ?s" by (subst A20L.simps) (auto simp: Let_def)
    moreover have "1 < Suc c \<longrightarrow> kbc_status f (polls s + 1 - 1) AND 2 = 0" using False cx by auto
    ultimately show ?thesis by (intro exI [of _ 1] exI [of _ ?cx]) simp
  next
    case True
    then have step: "A20L f s = A20L f ?s" by (subst A20L.simps) (simp add: Let_def)
    have "0 < c" using True cx by (metis gr0I unat_eq_zero)
    then obtain n cx where n: "0 < n" "n \<le> c" "A20L f ?s = ?s\<lparr>polls := polls ?s + n, ecx := set_cx cx (ecx ?s)\<rparr>"
      "\<forall>k < n - 1. kbc_status f (polls ?s + k) AND 2 \<noteq> 0" "n < c \<longrightarrow> kbc_status f (polls ?s + n - 1) AND 2 = 0"
      using Suc.IH [of ?s] cx by auto
    have "\<forall>k < Suc n - 1. kbc_status f (polls s + k) AND 2 \<noteq> 0"
    proof (intro allI impI)
      fix k
      assume "k < Suc n - 1"
      then show "kbc_status f (polls s + k) AND 2 \<noteq> 0" using n(1,4) True by (cases k) simp_all
    qed
    moreover have "Suc n < Suc c \<longrightarrow> kbc_status f (polls s + Suc n - 1) AND 2 = 0" using n(5) by simp
    moreover have "A20L f s = s\<lparr>polls := polls s + Suc n, ecx := set_cx cx (ecx s)\<rparr>" using step n(3) by (simp add: set_cx_twice)
    ultimately show ?thesis using n(2) by (intro exI [of _ "Suc n"] exI [of _ cx]) simp
  qed
qed simp

text \<open>
  C35. Waiting for the keyboard controller ends on any device: after at most 65535 reads of its status,
  the earlier ones all busy and, before the count runs out, the last one ready. Nothing but the count
  register changes.
\<close>

theorem WaitKBC_ends:
  "\<exists>n cx. 0 < n \<and> n \<le> 65535 \<and> WaitKBC f s = s\<lparr>polls := polls s + n, ecx := set_cx cx (ecx s)\<rparr> \<and>
    (\<forall>k < n - 1. kbc_status f (polls s + k) AND 2 \<noteq> 0) \<and> (n < 65535 \<longrightarrow> kbc_status f (polls s + n - 1) AND 2 = 0)"
proof -
  let ?s = "s\<lparr>ecx := set_cx 0xFFFF (ecx s)\<rparr>"
  have "unat (ucast (ecx ?s) :: uint16) = 65535" by simp
  from A20L_polls [OF this, of f] show ?thesis unfolding WaitKBC_def by (auto simp: set_cx_twice)
qed

text \<open>A controller that is busy for the first three reads.\<close>

theorem WaitKBC_ends_witness:
  "polls (WaitKBC \<lparr>int12_carry = False, int13 = (\<lambda>_ _ m. (0x80, False, m)), int15 = (\<lambda>_ _. ([], 24, 0)),
     kbc_status = (\<lambda>k. if k < 3 then 2 else 0), gate_a20 = True, id_flag = True, cpuid = (\<lambda>_. (0, 0, 0, 0)), eflags = 0\<rparr>
     \<lparr>outs = [], es = 0, ds = 0, ecx = 24, ram = (\<lambda>_. 0), polls = 0\<rparr>) = 4"
    (is "polls (WaitKBC ?f ?s) = 4")
proof -
  obtain n cx where n: "0 < n" "n \<le> 65535" "WaitKBC ?f ?s = ?s\<lparr>polls := n, ecx := set_cx cx (ecx ?s)\<rparr>"
    "\<forall>k < n - 1. kbc_status ?f k AND 2 \<noteq> 0" "n < 65535 \<longrightarrow> kbc_status ?f (n - 1) AND 2 = 0"
    using WaitKBC_ends [of ?f ?s] by auto
  have "\<not> 3 < n - 1" using n(4) by (auto dest: spec [of _ 3])
  then have "\<not> n - 1 < 3" using n(5) by (auto split: if_splits)
  then show ?thesis using n(3) \<open>\<not> 3 < n - 1\<close> n(1) by simp
qed

text \<open>So the command and the new output port value are sent, whatever the device answers.\<close>

lemma ChangeA20_sends:
  "\<exists>n cx. ChangeA20 f s = s\<lparr>outs := outs s @ [(0x64, 0xd1), (0x60, 0xdf)], ecx := set_cx cx (ecx s), polls := polls s + n\<rparr>"
proof -
  have wait: "\<exists>n cx. WaitKBC f s = s\<lparr>polls := polls s + n, ecx := set_cx cx (ecx s)\<rparr>" for s
  proof -
    let ?s = "s\<lparr>ecx := set_cx 0xFFFF (ecx s)\<rparr>"
    have "unat (ucast (ecx ?s) :: uint16) = 65535" by simp
    from A20L_polls [OF this, of f] show ?thesis unfolding WaitKBC_def by (auto simp: set_cx_twice)
  qed
  obtain n cx where 1: "WaitKBC f s = s\<lparr>polls := polls s + n, ecx := set_cx cx (ecx s)\<rparr>" using wait by blast
  let ?s = "outb 0x64 0xd1 (s\<lparr>polls := polls s + n, ecx := set_cx cx (ecx s)\<rparr>)"
  obtain k cy where 2: "WaitKBC f ?s = ?s\<lparr>polls := polls ?s + k, ecx := set_cx cy (ecx ?s)\<rparr>" using wait by blast
  show ?thesis unfolding ChangeA20_def Let_def 1 2
    by (intro exI [of _ "n + k"] exI [of _ cy]) (simp add: outb_def set_cx_twice)
qed

section \<open>The A20 gate\<close>

lemma CheckA20_eq:
  "CheckA20 f s = (if gate_a20 f \<and> ram s 0x100000 \<noteq> ram s 0 \<and> ram s 0x100000 \<noteq> ram s 0 + 1 then Some (s\<lparr>es := 0\<rparr>) else None)"
proof (cases "gate_a20 f")
  case True
  have l: "linear True 0 0 = 0" "linear True (- 1) 0x10 = 0x100000" by code_simp+
  show ?thesis using True by (auto simp: CheckA20_def l Let_def)
next
  case False
  have l: "linear False 0 0 = 0" "linear False (- 1) 0x10 = 0" by code_simp+
  show ?thesis using False by (simp add: CheckA20_def l Let_def)
qed

text \<open>
  C34. The check of the A20 gate, as an equation: with the gate closed, where the two addresses are one
  byte, it never passes; with the gate open it passes only when the byte at one megabyte is neither the
  byte at address 0 nor one more than it, and the code hangs on a machine that is in order otherwise.
  When it passes, memory is as before.
\<close>

theorem CheckA20_passes:
  "CheckA20 f s = (if gate_a20 f \<and> ram s 0x100000 \<noteq> ram s 0 \<and> ram s 0x100000 \<noteq> ram s 0 + 1 then Some (s\<lparr>es := 0\<rparr>) else None)"
  by (rule CheckA20_eq)

section \<open>The processor check\<close>

lemma CheckCPU_eq:
  assumes "\<not> bit (ecx s) 21"
  shows "CheckCPU f s = (if (if id_flag f then \<not> bit (eflags f) 21 else bit (eflags f) 21) \<and>
    0x80000001 \<le> fst (cpuid f 0x80000000) \<and> bit (snd (snd (snd (cpuid f 0x80000001)))) 29
    then Some (s\<lparr>ecx := fst (snd (snd (cpuid f 0x80000001)))\<rparr>) else None)"
proof -
  let ?fl = "popfd f (eflags f XOR 0x200000) (eflags f)"
  have p: "(0x200000 :: uint32) = push_bit 21 1" by simp
  have fl: "bit ?fl 21 \<longleftrightarrow> (if id_flag f then \<not> bit (eflags f) 21 else bit (eflags f) 21)"
    unfolding popfd_def p by (simp add: bit_simps)
  have "drop_bit 21 (?fl XOR ecx s) AND 1 = (of_bool (bit ?fl 21) :: uint32)"
    by (rule bit_word_eqI) (use assms in \<open>auto simp: bit_simps\<close>)
  then have t: "drop_bit 21 (?fl XOR ecx s) AND 1 = (0 :: uint32) \<longleftrightarrow> \<not> bit ?fl 21" by simp
  have "(29 :: nat) < 32" by simp
  note lm = feature_bit [OF this]
  obtain ea eb ec ed where 0: "cpuid f 0x80000000 = (ea, eb, ec, ed)" by (metis prod.exhaust)
  obtain fa fb fc fd where 1: "cpuid f 0x80000001 = (fa, fb, fc, fd)" by (metis prod.exhaust)
  show ?thesis unfolding CheckCPU_def Let_def t 0 1 prod.case lm fl by (auto simp: not_less [symmetric])
qed

lemma CheckCPU_runs:
  assumes "\<not> bit (ecx s) 21" "id_flag f" "\<not> bit (eflags f) 21" "0x80000001 \<le> fst (cpuid f 0x80000000)"
    "bit (snd (snd (snd (cpuid f 0x80000001)))) 29"
  shows "\<exists>c. CheckCPU f s = Some (s\<lparr>ecx := c\<rparr>)"
  using CheckCPU_eq [OF assms(1)] assms(2-) by (intro exI [of _ "fst (snd (snd (cpuid f 0x80000001)))"]) simp

text \<open>
  The check of the processor compares the new flags with \<open>ecx\<close>, which nothing has loaded with the
  old ones: with bit 21 of \<open>ecx\<close> clear (so the loader leaves it) the test says whether the flag is set
  now, not whether it changed. Starting from a clear flag that is the same; a processor with
  \<open>cpuid\<close> whose flag the firmware left set is refused.
\<close>

theorem CheckCPU_passes:
  assumes "\<not> bit (ecx s) 21"
  shows "CheckCPU f s \<noteq> None \<longleftrightarrow> (if id_flag f then \<not> bit (eflags f) 21 else bit (eflags f) 21) \<and>
    0x80000001 \<le> fst (cpuid f 0x80000000) \<and> bit (snd (snd (snd (cpuid f 0x80000001)))) 29"
  by (simp add: CheckCPU_eq [OF assms])

theorem CheckCPU_passes_witness:
  "CheckCPU \<lparr>int12_carry = False, int13 = (\<lambda>_ _ m. (0x80, False, m)), int15 = (\<lambda>_ _. ([], 24, 0)), kbc_status = (\<lambda>_. 0),
     gate_a20 = True, id_flag = True, cpuid = (\<lambda>_. (0x80000008, 0, 0, - 1)), eflags = 0x200202\<rparr>
     \<lparr>outs = [], es = 0, ds = 0, ecx = 24, ram = (\<lambda>_. 0), polls = 0\<rparr> = None"
proof -
  have "\<not> bit (24 :: uint32) 21" "bit (0x200202 :: uint32) 21" by code_simp+
  then show ?thesis
    using CheckCPU_passes [of "\<lparr>outs = [], es = 0, ds = 0, ecx = 24, ram = (\<lambda>_. 0), polls = 0\<rparr>"
      "\<lparr>int12_carry = False, int13 = (\<lambda>_ _ m. (0x80, False, m)), int15 = (\<lambda>_ _. ([], 24, 0)), kbc_status = (\<lambda>_. 0),
     gate_a20 = True, id_flag = True, cpuid = (\<lambda>_. (0x80000008, 0, 0, - 1)), eflags = 0x200202\<rparr>"] by simp
qed

section \<open>Handing over the memory map\<close>

text \<open>The packed struct \<open>memory_map\<close> in memory, 24 bytes, little-endian.\<close>

definition memory_map_at :: "(uint32 \<Rightarrow> uint8) \<Rightarrow> uint32 \<Rightarrow> memory_map" where
  "memory_map_at m a = \<lparr>space = \<lparr>sp_base = le 8 a m, sp_size = le 8 (a + 8) m\<rparr>,
     map_type = ucast (le 4 (a + 16) m), extendedAtb = ucast (le 4 (a + 20) m)\<rparr>"

definition le_bytes :: "nat \<Rightarrow> 'a::len word \<Rightarrow> uint8 list" where
  "le_bytes n v = map (\<lambda>i. ucast (drop_bit (8 * i) v)) [0..<n]"

definition encode :: "memory_map \<Rightarrow> uint8 list" where
  "encode e = le_bytes 8 (sp_base (space e)) @ le_bytes 8 (sp_size (space e)) @ le_bytes 4 (map_type e) @ le_bytes 4 (extendedAtb e)"

text \<open>
  What the BIOS documents of the service: from continuation value 0 on, the entries of the map one by one,
  24 bytes each, the next continuation value in \<open>ebx\<close> and 0 with the last.
\<close>

definition reports :: "firmware \<Rightarrow> (nat \<Rightarrow> uint32) \<Rightarrow> memory_map list \<Rightarrow> bool" where
  "reports f b ms \<longleftrightarrow> b 0 = 0 \<and> b (length ms) = 0 \<and>
     (\<forall>i < length ms. (0 < i \<longrightarrow> b i \<noteq> 0) \<and> int15 f i (b i) = (encode (ms ! i), 24, b (i + 1)))"

lemma le_stored:
  fixes v :: "'a::len word"
  assumes "\<And>i. i < n \<Longrightarrow> m (a + of_nat i) = le_bytes n v ! i" "LENGTH('a) = 8 * n" "n \<le> 8"
  shows "ucast (le n a m) = v"
proof (rule bit_word_eqI)
  fix k
  assume k: "k < LENGTH('a)"
  then have d: "k div 8 < n" "k < 64" "k < 8 * n" using assms(2,3) by auto
  have "m (a + of_nat (k div 8)) = ucast (drop_bit (8 * (k div 8)) v)" using assms(1) [OF d(1)] d(1) by (simp add: le_bytes_def)
  then have "bit (le n a m) k \<longleftrightarrow> bit v (8 * (k div 8) + k mod 8)" using d by (simp add: bit_le bit_simps)
  then show "bit (ucast (le n a m) :: 'a word) k = bit v k" using k by (simp add: bit_simps)
qed

lemma length_encode [simp]: "length (encode e) = 24"
  by (simp add: encode_def le_bytes_def)

lemma memory_map_stored:
  assumes "\<And>j. j < 24 \<Longrightarrow> m (a + of_nat j) = encode e ! j"
  shows "memory_map_at m a = e"
proof -
  have at: "m (a + of_nat k + of_nat j) = encode e ! (k + j)" if "k + j < 24" for k j
    using assms [OF that] by (simp add: add.assoc)
  have l: "length (le_bytes n v) = n" for n and v :: "'b::len word" by (simp add: le_bytes_def)
  have "ucast (le 8 a m) = sp_base (space e)"
    by (rule le_stored) (use at [of 0] in \<open>simp_all add: encode_def nth_append l\<close>)
  moreover have "ucast (le 8 (a + 8) m) = sp_size (space e)"
    by (rule le_stored) (use at [of 8] in \<open>simp_all add: encode_def nth_append l\<close>)
  moreover have "ucast (le 4 (a + 16) m) = map_type e"
    by (rule le_stored) (use at [of 16] in \<open>simp_all add: encode_def nth_append l\<close>)
  moreover have "ucast (le 4 (a + 20) m) = extendedAtb e"
    by (rule le_stored) (use at [of 20] in \<open>simp_all add: encode_def nth_append l\<close>)
  ultimately show ?thesis by (simp add: memory_map_at_def)
qed

lemma unat_linear: "unat (linear True seg off) = 16 * unat seg + unat off"
proof -
  have s: "unat (ucast seg :: uint32) = unat seg" "unat (ucast off :: uint32) = unat off" by (simp_all add: unat_ucast_up)
  have "unat seg < 65536" "unat off < 65536" using unsigned_less [of seg] unsigned_less [of off] by simp_all
  then show ?thesis unfolding linear_def Let_def by (simp add: unat_word_ariths s)
qed

lemma store_bytes_at:
  assumes "unat off + length bs \<le> 65536"
  shows "store_bytes seg off bs m p = (let a = unat (linear True seg off) in
    if a \<le> unat p \<and> unat p < a + length bs then bs ! (unat p - a) else m p)"
  using assms
proof (induction bs arbitrary: off m)
  case (Cons c cs)
  show ?case
  proof (cases "cs = []")
    case True
    then show ?thesis by (auto simp: Let_def word_unat_eq_iff)
  next
    case False
    then have "unat off + 1 < 65536" using Cons.prems by (cases cs) simp_all
    then have o: "unat (off + 1) = unat off + 1" by (simp add: unat_word_ariths)
    then have "unat (off + 1) + length cs \<le> 65536" using Cons.prems by simp
    note IH = Cons.IH [OF this, of "m(linear True seg off := c)"]
    have e: "p = linear True seg off \<longleftrightarrow> unat p = unat (linear True seg off)" by (simp add: word_unat_eq_iff)
    show ?thesis unfolding store_bytes.simps IH
      by (auto simp: Let_def unat_linear o e nth_Cons')
  qed
qed (auto simp: Let_def)

lemma store_bytes_append:
  "store_bytes seg off (bs @ cs) m = store_bytes seg (off + of_nat (length bs)) cs (store_bytes seg off bs m)"
  by (induction bs arbitrary: off m) (simp_all add: add.assoc)

lemma concat_encode:
  assumes "x < length ms" "j < 24"
  shows "concat (map encode ms) ! (24 * x + j) = encode (ms ! x) ! j"
  using assms
proof (induction ms arbitrary: x)
  case (Cons e ms)
  then show ?case by (cases x) (simp_all add: nth_append)
qed simp

lemma length_concat_encode [simp]: "length (concat (map encode ms)) = 24 * length ms"
  by (induction ms) simp_all

lemma maper_loop:
  assumes "reports f b ms" "i < length ms" "es s = 0x7000"
  shows "memory_map_repeat f i (of_nat (0xE000 + 24 * i)) (b i) s =
    Some (s\<lparr>ecx := 24, ram := store_bytes 0x7000 (of_nat (0xE018 + 24 * i)) (concat (map encode (drop i ms))) (ram s)\<rparr>)"
  using assms(2,3)
proof (induction "length ms - i" arbitrary: i s)
  case (Suc n)
  let ?at = "\<lambda>k. of_nat (0xE000 + 24 * k) :: uint16"
  have next_at: "?at k + of_nat 24 = ?at (k + 1)" for k
  proof -
    have "0xE000 + 24 * k + 24 = 0xE000 + 24 * (k + 1)" by simp
    then show ?thesis by (simp only: of_nat_add [symmetric])
  qed
  have e: "0xE018 + 24 * k = 0xE000 + 24 * (k + 1)" for k :: nat by simp
  have di: "?at i + ucast (24 :: uint32) = ?at (i + 1)" using next_at [of i] by simp
  have d: "concat (map encode (drop i ms)) = encode (ms ! i) @ concat (map encode (drop (i + 1) ms))"
    using Suc.prems(1) by (simp add: Cons_nth_drop_Suc [symmetric])
  have r: "int15 f i (b i) = (encode (ms ! i), 24, b (i + 1))" using assms(1) Suc.prems(1) by (simp add: reports_def)
  let ?s = "s\<lparr>ecx := 24, ram := store_bytes 0x7000 (?at (i + 1)) (encode (ms ! i)) (ram s)\<rparr>"
  have step: "memory_map_repeat f i (?at i) (b i) s =
      (if b (i + 1) \<noteq> 0 then memory_map_repeat f (i + 1) (?at (i + 1)) (b (i + 1)) ?s else Some ?s)"
    by (subst memory_map_repeat.simps) (simp only: Let_def di r prod.case Suc.prems(2))
  show ?case
  proof (cases "i + 1 < length ms")
    case True
    then have b: "b (i + 1) \<noteq> 0" using assms(1) by (simp add: reports_def)
    have "n = length ms - (i + 1)" "es ?s = 0x7000" using Suc.hyps(2) Suc.prems by simp_all
    note IH = Suc.hyps(1) [OF this(1) True this(2)]
    have "memory_map_repeat f i (?at i) (b i) s = memory_map_repeat f (i + 1) (?at (i + 1)) (b (i + 1)) ?s" unfolding step using b by simp
    then show ?thesis unfolding IH d store_bytes_append e length_encode next_at by simp
  next
    case False
    then have "i + 1 = length ms" using Suc.prems(1) by simp
    then have "b (i + 1) = 0" "drop (i + 1) ms = []" using assms(1) by (simp_all add: reports_def)
    then show ?thesis unfolding d step e by (simp del: of_nat_add of_nat_mult)
  qed
qed simp

lemma memory_maper_stores:
  assumes "reports f b ms" "ms \<noteq> []" "length ms \<le> 340"
  shows "\<exists>m. memory_maper f s = Some (s\<lparr>es := 0x7000, ecx := 24, ram := m\<rparr>) \<and>
    (\<forall>x < length ms. memory_map_at m (0x7E018 + 24 * of_nat x) = ms ! x) \<and>
    (\<forall>p. unat p < 0x7E018 \<or> 0x7E018 + 24 * length ms \<le> unat p \<longrightarrow> m p = ram s p)"
proof -
  let ?s = "s\<lparr>es := 0x7000\<rparr>" and ?bs = "concat (map encode ms)"
  let ?m = "store_bytes 0x7000 0xE018 ?bs (ram s)"
  have "b 0 = 0" using assms(1) by (simp add: reports_def)
  then have run: "memory_maper f s = Some (s\<lparr>es := 0x7000, ecx := 24, ram := ?m\<rparr>)"
    using maper_loop [OF assms(1), of 0 ?s] assms(2) by (simp add: memory_maper_def)
  have at: "?m p = (if 0x7E018 \<le> unat p \<and> unat p < 0x7E018 + 24 * length ms then ?bs ! (unat p - 0x7E018) else ram s p)" for p
    using store_bytes_at [where off = "0xE018" and bs = ?bs and seg = "0x7000" and m = "ram s" and p = p] assms(3) by (simp add: Let_def unat_linear)
  have "memory_map_at ?m (0x7E018 + 24 * of_nat x) = ms ! x" if x: "x < length ms" for x
  proof (rule memory_map_stored)
    fix j :: nat
    assume j: "j < 24"
    let ?p = "0x7E018 + 24 * of_nat x + of_nat j :: uint32"
    have "?p = of_nat (0x7E018 + 24 * x + j)" by simp
    moreover have "unat (of_nat (0x7E018 + 24 * x + j) :: uint32) = 0x7E018 + 24 * x + j"
      by (rule unat_of_nat_small) (use x j assms(3) in simp)
    ultimately have "unat ?p = 0x7E018 + 24 * x + j" by (simp only:)
    then show "?m ?p = encode (ms ! x) ! j" using x j by (simp add: at concat_encode)
  qed
  then show ?thesis using run at by (intro exI [of _ ?m]) simp
qed

lemma boot_runs:
  assumes d: "\<not> int12_carry f" "int13 f 0x0280 0x7E00 ((ram s)(linear True (ds s) 0x7000 := dl)) = (ax, cf, m)" "ax \<noteq> 0"
    and r: "reports f b ms" "ms \<noteq> []" "length ms \<le> 340"
    and a: "gate_a20 f" "m 0x100000 \<noteq> m 0" "m 0x100000 \<noteq> m 0 + 1"
    and c: "id_flag f" "\<not> bit (eflags f) 21" "0x80000001 \<le> fst (cpuid f 0x80000000)" "bit (snd (snd (snd (cpuid f 0x80000001)))) 29"
    and v: "\<forall>e \<in> set ms. sp_size (space e) \<noteq> 0 \<and> unat (sp_size (space e)) \<le> 2 ^ 50 \<and> unat (map_type e) < 6"
    and z: "le 8 (0x7E020 + 24 * of_nat (length ms)) m = 0"
  shows "\<exists>s'. boot f dl s = Some s' \<and> es s' = 0 \<and> outs s' = outs s @ [(0x64, 0xd1), (0x60, 0xdf)] \<and>
    (\<forall>x < length ms. memory_map_at (ram s') (0x7E018 + 24 * of_nat x) = ms ! x) \<and>
    map_ok (\<lambda>x. memory_map_at (ram s') (0x7E018 + 24 * of_nat x)) (length ms) \<and>
    (\<forall>p. unat p < 0x7E018 \<or> 0x7E018 + 24 * length ms \<le> unat p \<longrightarrow> ram s' p = m p)"
proof -
  let ?s1 = "s\<lparr>ecx := set_cx 2 (ecx s), ram := m\<rparr>"
  have 1: "load_kernel f dl s = Some ?s1"
    using d by (simp add: load_kernel_def or_ax_def SEG_KERNEL_def INI_KERNEL_def Let_def)
  obtain m' where m': "memory_maper f ?s1 = Some (?s1\<lparr>es := 0x7000, ecx := 24, ram := m'\<rparr>)"
    "\<forall>x < length ms. memory_map_at m' (0x7E018 + 24 * of_nat x) = ms ! x"
    "\<forall>p. unat p < 0x7E018 \<or> 0x7E018 + 24 * length ms \<le> unat p \<longrightarrow> m' p = m p"
    using memory_maper_stores [OF r, of ?s1] by auto
  let ?s2 = "?s1\<lparr>es := 0x7000, ecx := 24, ram := m'\<rparr>"
  obtain n cx where 3: "ChangeA20 f ?s2 =
      ?s2\<lparr>outs := outs ?s2 @ [(0x64, 0xd1), (0x60, 0xdf)], ecx := set_cx cx (ecx ?s2), polls := polls ?s2 + n\<rparr>"
    using ChangeA20_sends by blast
  let ?s3 = "?s2\<lparr>outs := outs ?s2 @ [(0x64, 0xd1), (0x60, 0xdf)], ecx := set_cx cx (ecx ?s2), polls := polls ?s2 + n\<rparr>"
  have "m' 0x100000 = m 0x100000" "m' 0 = m 0" using m'(3) r(3) by simp_all
  then have 4: "CheckA20 f ?s3 = Some (?s3\<lparr>es := 0\<rparr>)" using a CheckA20_eq [of f ?s3] by simp
  obtain c0 where 5: "CheckCPU f (?s3\<lparr>es := 0\<rparr>) = Some (?s3\<lparr>es := 0, ecx := c0\<rparr>)"
  proof -
    have "\<not> bit (24 :: uint32) 21" by code_simp
    then have "\<not> bit (ecx (?s3\<lparr>es := 0\<rparr>)) 21" by (simp add: bit_set_cx)
    then obtain c0 where "CheckCPU f (?s3\<lparr>es := 0\<rparr>) = Some (?s3\<lparr>es := 0\<rparr>\<lparr>ecx := c0\<rparr>)"
      using CheckCPU_runs c by blast
    then show thesis using that by simp
  qed
  let ?s' = "?s3\<lparr>es := 0, ecx := c0\<rparr>"
  have run: "boot f dl s = Some ?s'" unfolding boot_def using 1 m'(1) 3 4 5 by simp
  have "map_ok (\<lambda>x. memory_map_at m' (0x7E018 + 24 * of_nat x)) (length ms)"
  proof -
    let ?a = "0x7E020 + 24 * of_nat (length ms) :: uint32"
    have "le 8 ?a m' = le 8 ?a m"
    proof (rule le_cong)
      fix i :: nat
      assume "i < 8"
      have "?a + of_nat i = of_nat (0x7E020 + 24 * length ms + i)" by simp
      moreover have "unat (of_nat (0x7E020 + 24 * length ms + i) :: uint32) = 0x7E020 + 24 * length ms + i"
        by (rule unat_of_nat_small) (use \<open>i < 8\<close> r(3) in simp)
      ultimately have "unat (?a + of_nat i) = 0x7E020 + 24 * length ms + i" by (simp only:)
      then show "m' (?a + of_nat i) = m (?a + of_nat i)" using m'(3) by simp
    qed
    then have "sp_size (space (memory_map_at m' (0x7E018 + 24 * of_nat (length ms)))) = 0" using z by (simp add: memory_map_at_def)
    then show ?thesis using m'(2) v by (simp add: map_ok_def)
  qed
  then show ?thesis using run m'(2,3) by (intro exI [of _ ?s']) simp
qed

text \<open>
  C17. The boot sector hands the machine over: where the BIOS loads the kernel and reports at most 340
  memory ranges, the A20 gate opens (and its check can tell), and the processor has long mode, the
  code reaches \<open>SwitchToLongMode\<close> with \<open>es\<close> 0, as that code needs. The ranges are in
  memory from \<open>0x7E018\<close> on, where the kernel's struct \<open>memory_map\<close> reads them back; if what follows
  them happens to be zero, that is the map \<open>setupPagination\<close> is proved for. The rest of the
  memory is as the BIOS left it with the kernel loaded.
\<close>

theorem boot_hands_over:
  assumes d: "\<not> int12_carry f" "int13 f 0x0280 0x7E00 ((ram s)(linear True (ds s) 0x7000 := dl)) = (ax, cf, m)" "ax \<noteq> 0"
    and r: "reports f b ms" "ms \<noteq> []" "length ms \<le> 340"
    and a: "gate_a20 f" "m 0x100000 \<noteq> m 0" "m 0x100000 \<noteq> m 0 + 1"
    and c: "id_flag f" "\<not> bit (eflags f) 21" "0x80000001 \<le> fst (cpuid f 0x80000000)" "bit (snd (snd (snd (cpuid f 0x80000001)))) 29"
    and v: "\<forall>e \<in> set ms. sp_size (space e) \<noteq> 0 \<and> unat (sp_size (space e)) \<le> 2 ^ 50 \<and> unat (map_type e) < 6"
    and z: "le 8 (0x7E020 + 24 * of_nat (length ms)) m = 0"
  shows "\<exists>s'. boot f dl s = Some s' \<and> es s' = 0 \<and> outs s' = outs s @ [(0x64, 0xd1), (0x60, 0xdf)] \<and>
    (\<forall>x < length ms. memory_map_at (ram s') (0x7E018 + 24 * of_nat x) = ms ! x) \<and>
    map_ok (\<lambda>x. memory_map_at (ram s') (0x7E018 + 24 * of_nat x)) (length ms) \<and>
    (\<forall>p. unat p < 0x7E018 \<or> 0x7E018 + 24 * length ms \<le> unat p \<longrightarrow> ram s' p = m p)"
  by (rule boot_runs [OF assms])

definition example_firmware :: firmware where
  "example_firmware = \<lparr>int12_carry = False, int13 = (\<lambda>_ _ m. (0x80, False, m(0 := 0x53))),
     int15 = (\<lambda>i _. (encode (example_map i), 24, if i < 3 then of_nat i + 1 else 0)), kbc_status = (\<lambda>_. 0x1E),
     gate_a20 = True, id_flag = True, cpuid = (\<lambda>_. (0x80000008, 0, 0, - 1)), eflags = 0x202\<rparr>"

definition example_real_mode :: real_mode where
  "example_real_mode = \<lparr>outs = [], es = 0, ds = 0, ecx = 0, ram = (\<lambda>_. 0), polls = 0\<rparr>"

definition example_ram :: "uint32 \<Rightarrow> uint8" where
  "example_ram = (\<lambda>_. 0)(0x7000 := 0x80, 0 := 0x53)"

lemma example_boot:
  "\<not> int12_carry example_firmware"
  "int13 example_firmware 0x0280 0x7E00 ((ram example_real_mode)(linear True (ds example_real_mode) 0x7000 := 0x80)) = (0x80, False, example_ram)"
  "(0x80 :: uint16) \<noteq> 0"
  "reports example_firmware (\<lambda>i. if i < 4 then of_nat i else 0) (map example_map [0..<4])" "map example_map [0..<4] \<noteq> []"
  "length (map example_map [0..<4]) \<le> 340" "gate_a20 example_firmware" "example_ram 0x100000 \<noteq> example_ram 0"
  "example_ram 0x100000 \<noteq> example_ram 0 + 1" "id_flag example_firmware" "\<not> bit (eflags example_firmware) 21"
  "0x80000001 \<le> fst (cpuid example_firmware 0x80000000)" "bit (snd (snd (snd (cpuid example_firmware 0x80000001)))) 29"
  "\<forall>e \<in> set (map example_map [0..<4]). sp_size (space e) \<noteq> 0 \<and> unat (sp_size (space e)) \<le> 2 ^ 50 \<and> unat (map_type e) < 6"
  "le 8 (0x7E020 + 24 * of_nat (length (map example_map [0..<4]))) example_ram = 0"
proof -
  note simps = example_firmware_def example_real_mode_def example_ram_def
  have lt: "i < 4 \<longleftrightarrow> i = 0 \<or> i = 1 \<or> i = 2 \<or> i = 3" for i :: nat by auto
  have l: "linear True 0 0x7000 = 0x7000" "\<not> bit (0x202 :: uint32) 21" by code_simp+
  show "int13 example_firmware 0x0280 0x7E00 ((ram example_real_mode)(linear True (ds example_real_mode) 0x7000 := 0x80)) =
      (0x80, False, example_ram)" by (simp add: simps l(1))
  show "reports example_firmware (\<lambda>i. if i < 4 then of_nat i else 0) (map example_map [0..<4])"
    by (auto simp: reports_def simps lt)
  show "\<not> bit (eflags example_firmware) 21" using l(2) by (simp add: simps)
  show "\<forall>e \<in> set (map example_map [0..<4]). sp_size (space e) \<noteq> 0 \<and> unat (sp_size (space e)) \<le> 2 ^ 50 \<and> unat (map_type e) < 6"
    using example_map_ok(1) by (simp add: map_ok_def)
  have "le 8 (0x7E020 + 24 * of_nat 4) example_ram = 0" unfolding example_ram_def by code_simp
  then show "le 8 (0x7E020 + 24 * of_nat (length (map example_map [0..<4]))) example_ram = 0" by simp
qed (simp_all add: example_firmware_def example_ram_def)

theorem boot_hands_over_witness:
  "\<exists>s'. boot example_firmware 0x80 example_real_mode = Some s' \<and> es s' = 0 \<and>
    (\<forall>x < 4. memory_map_at (ram s') (0x7E018 + 24 * of_nat x) = example_map x) \<and>
    map_ok (\<lambda>x. memory_map_at (ram s') (0x7E018 + 24 * of_nat x)) 4"
  using boot_hands_over [OF example_boot(1-15)] by simp blast

section \<open>The table for long mode\<close>

text \<open>
  The table the jump to long mode goes through: its second entry, selector 8, is a present 64-bit
  code segment of ring 0, the third a present writable data segment, and the limit covers the three
  descriptors exactly.
\<close>

theorem boot_gdt_segments:
  "decode_segment (boot_gdt ! 1) = \<lparr>seg_base = 0, seg_limit = 0, seg_present = True, seg_dpl = 0, seg_code_data = True,
     seg_executable = True, seg_writable = True, seg_long = True, seg_pages = False\<rparr> \<and>
   decode_segment (boot_gdt ! 2) = \<lparr>seg_base = 0, seg_limit = 0, seg_present = True, seg_dpl = 0, seg_code_data = True,
     seg_executable = False, seg_writable = True, seg_long = False, seg_pages = False\<rparr> \<and>
   unat boot_gdt_limit + 1 = 8 * length boot_gdt"
  by (simp add: boot_gdt_def boot_gdt_limit_def decode_segment_def bit_numeral_rec mask_eq_exp_minus_1)

end
