(* ===== verification/Interrupts.thy ===== *)
theory Interrupts
  imports Gfx_Correct Idt
begin

text \<open>
  What an interrupt does to the program it interrupts: the frame the processor pushes, the register
  saving of \<open>src/asm/funcs/macros.asm\<close>, the handlers of \<open>src/asm/interruptions.asm\<close> instruction by
  instruction, \<open>iretq\<close>; and the prologue and epilogue of \<open>src/asm/compiler\<close>. The compiled C functions
  the handlers call are a parameter that keeps to the calling convention.
\<close>

section \<open>The machine\<close>

text \<open>
  The 64-bit registers, and the stack as a function from addresses to 64-bit words: every access here is to a
  multiple of eight, since the processor aligns the stack when it enters a handler. The vector registers are
  not modelled. \<open>rip\<close> is kept only where control is transferred.
\<close>

record cpu = vga +
  rax :: uint64
  rbx :: uint64
  rcx :: uint64
  rdx :: uint64
  rsi :: uint64
  rdi :: uint64
  rbp :: uint64
  r8 :: uint64
  r9 :: uint64
  r10 :: uint64
  r11 :: uint64
  r12 :: uint64
  r13 :: uint64
  r14 :: uint64
  r15 :: uint64
  rsp :: uint64
  rip :: uint64
  rflags :: uint64
  cs_reg :: uint16
  ss_reg :: uint16
  stack :: "addr \<Rightarrow> uint64"

definition push :: "uint64 \<Rightarrow> cpu \<Rightarrow> cpu" where
  "push v s = s\<lparr>rsp := rsp s - 8, stack := (stack s)(rsp s - 8 := v)\<rparr>"

definition pop :: "(uint64 \<Rightarrow> cpu \<Rightarrow> cpu) \<Rightarrow> cpu \<Rightarrow> cpu" where
  "pop put s = put (stack s (rsp s)) (s\<lparr>rsp := rsp s + 8\<rparr>)"

definition set_al :: "uint8 \<Rightarrow> cpu \<Rightarrow> cpu" where
  "set_al v s = s\<lparr>rax := (rax s AND NOT 0xFF) OR ucast v\<rparr>"

text \<open>\<open>pushfq\<close> stores the flags without RF and VM; \<open>popfq\<close> at ring 0 loads every defined flag but VM, and
  clears RF, VIF and VIP.\<close>

definition pushfq :: "cpu \<Rightarrow> cpu" where
  "pushfq s = push (rflags s AND 0xFCFFFF) s"

definition popfq :: "cpu \<Rightarrow> cpu" where
  "popfq = pop (\<lambda>v s. s\<lparr>rflags := (v AND 0x247FD5) OR (rflags s AND NOT 0x3D7FD5)\<rparr>)"

text \<open>
  Through an interrupt gate, without change of stack: the processor aligns the stack pointer, pushes \<open>ss\<close>,
  the old \<open>rsp\<close>, the flags, \<open>cs\<close>, \<open>rip\<close> and, for some exceptions, an error code, and clears TF, IF, NT and RF.
\<close>

definition enter_interrupt :: "uint64 list \<Rightarrow> cpu \<Rightarrow> cpu" where
  "enter_interrupt err s =
     (fold push ([ucast (ss_reg s), rsp s, rflags s, ucast (cs_reg s), rip s] @ err) (s\<lparr>rsp := rsp s AND NOT 15\<rparr>))
       \<lparr>rflags := rflags s AND NOT 0x14300\<rparr>"

definition iretq :: "cpu \<Rightarrow> cpu" where
  "iretq s = (let
     i = stack s (rsp s); c = stack s (rsp s + 8); f = stack s (rsp s + 16); p = stack s (rsp s + 24); w = stack s (rsp s + 32)
     in s\<lparr>rip := i, cs_reg := ucast c, rflags := f, rsp := p, ss_reg := ucast w\<rparr>)"

text \<open>\<open>call\<close> pushes the address \<open>ra\<close> of the instruction after it; \<open>f\<close> runs the function up to its \<open>ret\<close>.\<close>

definition ret :: "cpu \<Rightarrow> cpu" where
  "ret = pop (\<lambda>v s. s\<lparr>rip := v\<rparr>)"

definition call_c :: "uint64 \<Rightarrow> (cpu \<Rightarrow> cpu option) \<Rightarrow> cpu \<Rightarrow> cpu option" where
  "call_c ra f s = map_option ret (f (push ra s))"

section \<open>The macros of macros.asm\<close>

definition pushaq :: "cpu \<Rightarrow> cpu" where
  "pushaq s = pushfq (fold (\<lambda>r s. push (r s) s) [rax, rcx, rdx, rsi, rdi, r8, r9, r10, r11] s)"

definition popaq :: "cpu \<Rightarrow> cpu" where
  "popaq s = fold pop
     [\<lambda>v s. s\<lparr>r11 := v\<rparr>, \<lambda>v s. s\<lparr>r10 := v\<rparr>, \<lambda>v s. s\<lparr>r9 := v\<rparr>, \<lambda>v s. s\<lparr>r8 := v\<rparr>, \<lambda>v s. s\<lparr>rdi := v\<rparr>,
      \<lambda>v s. s\<lparr>rsi := v\<rparr>, \<lambda>v s. s\<lparr>rdx := v\<rparr>, \<lambda>v s. s\<lparr>rcx := v\<rparr>, \<lambda>v s. s\<lparr>rax := v\<rparr>] (popfq s)"

definition pushall :: "cpu \<Rightarrow> cpu" where
  "pushall s = pushfq (fold (\<lambda>r s. push (r s) s)
     [rax, rbx, rcx, rdx, rsi, rdi, r8, r9, r10, r11, r12, r13, r14, r15] s)"

definition popall :: "cpu \<Rightarrow> cpu" where
  "popall s = fold pop
     [\<lambda>v s. s\<lparr>r15 := v\<rparr>, \<lambda>v s. s\<lparr>r14 := v\<rparr>, \<lambda>v s. s\<lparr>r13 := v\<rparr>, \<lambda>v s. s\<lparr>r12 := v\<rparr>, \<lambda>v s. s\<lparr>r11 := v\<rparr>,
      \<lambda>v s. s\<lparr>r10 := v\<rparr>, \<lambda>v s. s\<lparr>r9 := v\<rparr>, \<lambda>v s. s\<lparr>r8 := v\<rparr>, \<lambda>v s. s\<lparr>rdi := v\<rparr>, \<lambda>v s. s\<lparr>rsi := v\<rparr>,
      \<lambda>v s. s\<lparr>rdx := v\<rparr>, \<lambda>v s. s\<lparr>rcx := v\<rparr>, \<lambda>v s. s\<lparr>rbx := v\<rparr>, \<lambda>v s. s\<lparr>rax := v\<rparr>] (popfq s)"

text \<open>An exception without a handler of its own: its message on the last line, then a jump to itself.\<close>

definition exception_report :: "string \<Rightarrow> 'a vga_scheme \<Rightarrow> 'a vga_scheme option" where
  "exception_report msg s = kprintStr 0 24 (ascii msg) 0x1f s"

definition generic_exception :: "string \<Rightarrow> 'a vga_scheme \<Rightarrow> 'a vga_scheme option" where
  "generic_exception msg s = do { s \<leftarrow> exception_report msg s; spin s }"

definition exceptions :: "(uint8 \<times> string) list" where
  "exceptions = [(0, ''divide by zero''), (1, ''debug''), (2, ''non-maskable interrupt''), (3, ''breakpoint''),
     (4, ''overflow''), (5, ''bound range exceeded''), (6, ''invalid opcode''), (7, ''device not available''),
     (8, ''double fault''), (10, ''invalid tss''), (11, ''segment not present''), (12, ''stack segment fault''),
     (13, ''general protection fault'')]"

section \<open>The handlers of interruptions.asm\<close>

definition isr_14_code :: "uint64 \<Rightarrow> uint64 \<Rightarrow> (cpu \<Rightarrow> cpu option) \<Rightarrow> cpu \<Rightarrow> cpu option" where
  "isr_14_code cr2 ra handler s = do {
     s \<leftarrow> call_c ra handler ((pushaq s)\<lparr>rsi := cr2\<rparr>);
     Some (iretq (popaq s)) }"

definition end_of_interrupt :: "cpu \<Rightarrow> cpu" where
  "end_of_interrupt s = (let
     s = set_al 0x20 (push (rax s) s);
     s = outb 0x20 (ucast (rax s)) (outb 0xa0 (ucast (rax s)) s) in pop (\<lambda>v s. s\<lparr>rax := v\<rparr>) s)"

definition isr_32_code :: "cpu \<Rightarrow> cpu" where
  "isr_32_code s = iretq (end_of_interrupt s)"

definition isr_33_code :: "((uint16 \<times> uint8) list \<Rightarrow> uint16 \<Rightarrow> uint8) \<Rightarrow> uint64 \<Rightarrow> (cpu \<Rightarrow> cpu option) \<Rightarrow> cpu \<Rightarrow> cpu option" where
  "isr_33_code dev ra print s = (let
     s = pushall s;
     s = set_al (inb dev 0x60 s) s;
     s = s\<lparr>rdi := 10, rsi := 10, rdx := (rdx s AND NOT 0xFF) OR (rax s AND 0xFF), rcx := 0x1f\<rparr>
     in do {
       s \<leftarrow> call_c ra print s;
       Some (iretq (popall (end_of_interrupt s))) })"

text \<open>\<open>syscall_handler\<close> jumps to itself before its \<open>sysret\<close>.\<close>

definition syscall_entry :: "cpu \<Rightarrow> cpu option" where
  "syscall_entry s = spin s"

text \<open>The sections of \<open>crti.asm\<close> and \<open>crtn.asm\<close> joined by the linker, around what other files put between them.\<close>

definition crti_prologue :: "cpu \<Rightarrow> cpu" where
  "crti_prologue s = (let s = push (rax s) s; s = push (rbp s) s in s\<lparr>rbp := rsp s\<rparr>)"

definition crtn_epilogue :: "cpu \<Rightarrow> cpu" where
  "crtn_epilogue s = (let s = pop (\<lambda>v s. s\<lparr>rbp := v\<rparr>) s; s = push (rax s) s in ret s)"

definition init_section :: "(cpu \<Rightarrow> cpu) \<Rightarrow> cpu \<Rightarrow> cpu" where
  "init_section body s = crtn_epilogue (body (crti_prologue s))"

section \<open>The words on the stack\<close>

text \<open>The words from the stack pointer on.\<close>

definition holds :: "uint64 list \<Rightarrow> cpu \<Rightarrow> bool" where
  "holds vs s \<longleftrightarrow> (\<forall>i < length vs. stack s (rsp s + 8 * of_nat i) = vs ! i)"

lemma holds_cong: "stack t = stack s \<Longrightarrow> rsp t = rsp s \<Longrightarrow> holds vs t = holds vs s"
  by (simp add: holds_def)

lemma holds_update [simp]:
  "holds vs (s\<lparr>rax := x\<rparr>) = holds vs s" "holds vs (s\<lparr>rbx := x\<rparr>) = holds vs s" "holds vs (s\<lparr>rcx := x\<rparr>) = holds vs s"
  "holds vs (s\<lparr>rdx := x\<rparr>) = holds vs s" "holds vs (s\<lparr>rsi := x\<rparr>) = holds vs s" "holds vs (s\<lparr>rdi := x\<rparr>) = holds vs s"
  "holds vs (s\<lparr>rbp := x\<rparr>) = holds vs s" "holds vs (s\<lparr>r8 := x\<rparr>) = holds vs s" "holds vs (s\<lparr>r9 := x\<rparr>) = holds vs s"
  "holds vs (s\<lparr>r10 := x\<rparr>) = holds vs s" "holds vs (s\<lparr>r11 := x\<rparr>) = holds vs s" "holds vs (s\<lparr>r12 := x\<rparr>) = holds vs s"
  "holds vs (s\<lparr>r13 := x\<rparr>) = holds vs s" "holds vs (s\<lparr>r14 := x\<rparr>) = holds vs s" "holds vs (s\<lparr>r15 := x\<rparr>) = holds vs s"
  "holds vs (s\<lparr>rflags := x\<rparr>) = holds vs s" "holds vs (s\<lparr>rip := x\<rparr>) = holds vs s" "holds vs (outb q v s) = holds vs s"
  by (simp_all add: holds_def outb_def)

lemma push_sel [simp]:
  "rsp (push v s) = rsp s - 8" "rax (push v s) = rax s" "rbx (push v s) = rbx s" "rcx (push v s) = rcx s" "rdx (push v s) = rdx s"
  "rsi (push v s) = rsi s" "rdi (push v s) = rdi s" "rbp (push v s) = rbp s" "r8 (push v s) = r8 s" "r9 (push v s) = r9 s"
  "r10 (push v s) = r10 s" "r11 (push v s) = r11 s" "r12 (push v s) = r12 s" "r13 (push v s) = r13 s" "r14 (push v s) = r14 s"
  "r15 (push v s) = r15 s" "rflags (push v s) = rflags s" "rip (push v s) = rip s" "cs_reg (push v s) = cs_reg s"
  "ss_reg (push v s) = ss_reg s" "outs (push v s) = outs s" "vga_mem (push v s) = vga_mem s"
  by (simp_all add: push_def)

lemma holds_push:
  assumes "holds vs s" "length vs < 2 ^ 20"
  shows "holds (v # vs) (push v s)"
proof -
  have "stack (push v s) (rsp (push v s) + 8 * of_nat i) = (v # vs) ! i" if "i < length (v # vs)" for i
  proof (cases i)
    case (Suc j)
    have "unat (of_nat (8 * Suc j) :: addr) = 8 * Suc j"
      using that assms(2) Suc by (intro unat_of_nat_small) simp
    then have "8 * of_nat (Suc j) \<noteq> (0 :: addr)" by (metis of_nat_mult of_nat_numeral unat_0 nat.distinct(1) mult_is_0 zero_neq_numeral)
    then have "rsp s - 8 + 8 * of_nat (Suc j) \<noteq> rsp s - 8" by (metis add_cancel_right_right)
    then show ?thesis using assms(1) that Suc by (simp add: push_def holds_def algebra_simps)
  qed (simp add: push_def)
  then show ?thesis by (simp add: holds_def)
qed

lemma pop_holds:
  assumes "holds (v # vs) s"
  shows "pop put s = put v (s\<lparr>rsp := rsp s + 8\<rparr>)" "holds vs (s\<lparr>rsp := rsp s + 8\<rparr>)"
proof -
  have *: "\<forall>i < Suc (length vs). stack s (rsp s + 8 * of_nat i) = (v # vs) ! i" using assms by (simp add: holds_def)
  from spec [OF *, of 0] show "pop put s = put v (s\<lparr>rsp := rsp s + 8\<rparr>)" by (simp add: pop_def)
  show "holds vs (s\<lparr>rsp := rsp s + 8\<rparr>)" using * by (auto simp: holds_def algebra_simps dest: spec [of _ "Suc _"])
qed

text \<open>Pushing a list: what it stores, and that it leaves the words from \<open>b\<close> on alone.\<close>

lemma fold_push:
  assumes "holds ws s" "length ws + length vs < 2 ^ 20"
  shows "holds (rev vs @ ws) (fold push vs s)"
  using assms
proof (induction vs arbitrary: s ws)
  case (Cons v vs)
  from Cons.IH [OF holds_push [OF Cons.prems(1), of v]] Cons.prems(2) show ?case by simp
qed simp

lemma push_above:
  assumes "8 \<le> unat (rsp s)" "unat (rsp s) \<le> unat (b :: addr)" "unat b \<le> unat a"
  shows "stack (push v s) a = stack s a" "unat (rsp (push v s)) = unat (rsp s) - 8"
proof -
  show "unat (rsp (push v s)) = unat (rsp s) - 8" using unat_sub_le [of 8 "rsp s"] assms(1) by simp
  then have "unat (rsp (push v s)) < unat a" using assms by simp
  then show "stack (push v s) a = stack s a" by (auto simp: push_def)
qed

lemma fold_push_above:
  assumes "8 * length vs \<le> unat (rsp s)" "unat (rsp s) \<le> unat (b :: addr)" "unat b \<le> unat a"
  shows "stack (fold push vs s) a = stack s a" "unat (rsp (fold push vs s)) = unat (rsp s) - 8 * length vs"
proof -
  have "stack (fold push vs s) a = stack s a \<and> unat (rsp (fold push vs s)) = unat (rsp s) - 8 * length vs"
    using assms(1,2)
  proof (induction vs arbitrary: s)
    case (Cons v vs)
    note p = push_above [OF _ Cons.prems(2) assms(3), of v]
    have "8 * length vs \<le> unat (rsp (push v s))" "unat (rsp (push v s)) \<le> unat b" using p(2) Cons.prems by auto
    from Cons.IH [OF this] show ?case using p Cons.prems by simp
  qed simp
  then show "stack (fold push vs s) a = stack s a" "unat (rsp (fold push vs s)) = unat (rsp s) - 8 * length vs" by auto
qed

lemma fold_push_sel:
  "rsp (fold push vs s) = rsp s - 8 * of_nat (length vs)"
  "fold push vs s = s\<lparr>rsp := rsp (fold push vs s), stack := stack (fold push vs s)\<rparr>"
proof -
  show "rsp (fold push vs s) = rsp s - 8 * of_nat (length vs)" by (induction vs arbitrary: s) (simp_all add: algebra_simps)
  show "fold push vs s = s\<lparr>rsp := rsp (fold push vs s), stack := stack (fold push vs s)\<rparr>"
  proof (induction vs arbitrary: s)
    case (Cons v vs)
    from Cons.IH [of "push v s"] have "fold push (v # vs) s = (push v s)\<lparr>rsp := rsp (fold push (v # vs) s), stack := stack (fold push (v # vs) s)\<rparr>"
      by simp
    then show ?case by (simp add: push_def [of v s])
  qed simp
qed

lemma pushall_list:
  "pushall s = fold push [rax s, rbx s, rcx s, rdx s, rsi s, rdi s, r8 s, r9 s, r10 s, r11 s, r12 s, r13 s, r14 s, r15 s,
     rflags s AND 0xFCFFFF] s"
  by (simp add: pushall_def pushfq_def)

lemma pushaq_list:
  "pushaq s = fold push [rax s, rcx s, rdx s, rsi s, rdi s, r8 s, r9 s, r10 s, r11 s, rflags s AND 0xFCFFFF] s"
  by (simp add: pushaq_def pushfq_def)

text \<open>Popping what was saved.\<close>

lemma popall_holds:
  assumes "holds ([f, v15, v14, v13, v12, v11, v10, v9, v8, vdi, vsi, vdx, vcx, vbx, vax] @ ws) s"
  shows "\<exists>fl. popall s = s\<lparr>rflags := fl, r15 := v15, r14 := v14, r13 := v13, r12 := v12, r11 := v11, r10 := v10, r9 := v9, r8 := v8,
      rdi := vdi, rsi := vsi, rdx := vdx, rcx := vcx, rbx := vbx, rax := vax, rsp := rsp s + 120\<rparr>" (is "\<exists>fl. _ = ?t fl")
    "holds ws (popall s)"
proof -
  have a: "\<forall>i < 15 + length ws. stack s (rsp s + 8 * of_nat i) = ([f, v15, v14, v13, v12, v11, v10, v9, v8, vdi, vsi, vdx, vcx, vbx, vax] @ ws) ! i"
    using assms by (simp add: holds_def)
  then have b: "stack s (rsp s + 8 * of_nat i) = ([f, v15, v14, v13, v12, v11, v10, v9, v8, vdi, vsi, vdx, vcx, vbx, vax] @ ws) ! i"
    if "i < 15" for i using that by simp
  have "stack s (rsp s) = f" using b [of 0] by simp
  moreover have "stack s (rsp s + 8) = v15" using b [of 1] by simp
  ultimately show "\<exists>fl. popall s = ?t fl"
    using b [of 2] b [of 3] b [of 4] b [of 5] b [of 6] b [of 7] b [of 8] b [of 9] b [of 10] b [of 11] b [of 12] b [of 13] b [of 14]
    by (simp add: popall_def popfq_def pop_def add.assoc) (rule exI [of _ "f AND 0x247FD5 OR rflags s AND NOT 0x3D7FD5"], rule cpu.equality; simp)
  then obtain fl where t: "popall s = ?t fl" by blast
  have "stack s (rsp s + 120 + 8 * of_nat i) = ws ! i" if "i < length ws" for i
    using spec [OF a, of "15 + i"] that by (simp add: nth_append algebra_simps)
  then show "holds ws (popall s)" unfolding t by (simp add: holds_def)
qed

lemma low_masks: "(0xFF :: uint64) = mask 8" "(15 :: uint64) = mask 4"
  by (simp_all add: mask_eq_exp_minus_1)

text \<open>An acknowledged interrupt leaves every register and the words on the stack.\<close>

lemma end_of_interrupt_holds:
  assumes "holds vs s" "length vs < 2 ^ 20"
  shows "end_of_interrupt s = (outb 0x20 0x20 (outb 0xa0 0x20 s))\<lparr>stack := (stack s)(rsp s - 8 := rax s)\<rparr>"
    "holds vs (end_of_interrupt s)"
proof -
  let ?p = "push (rax s) s"
  have al: "ucast (rax (set_al 0x20 s)) = (0x20 :: uint8)" for s
    unfolding set_al_def low_masks by (rule bit_word_eqI) (auto simp: bit_simps)
  have "holds (rax s # vs) ?p" by (rule holds_push [OF assms])
  then have h: "holds (rax s # vs) (outb 0x20 0x20 (outb 0xa0 0x20 (set_al 0x20 ?p)))" by (simp add: set_al_def)
  have e: "end_of_interrupt s = pop (\<lambda>v s. s\<lparr>rax := v\<rparr>) (outb 0x20 0x20 (outb 0xa0 0x20 (set_al 0x20 ?p)))"
    by (simp add: end_of_interrupt_def Let_def al)
  show "end_of_interrupt s = (outb 0x20 0x20 (outb 0xa0 0x20 s))\<lparr>stack := (stack s)(rsp s - 8 := rax s)\<rparr>"
    unfolding e pop_holds(1) [OF h] by (rule cpu.equality) (simp_all add: set_al_def push_def outb_def)
  show "holds vs (end_of_interrupt s)" unfolding e pop_holds(1) [OF h] using pop_holds(2) [OF h] by simp
qed

section \<open>Compiled functions\<close>

text \<open>
  The System V calling convention, for a function without result or stacked arguments whose effect in the
  source is \<open>g\<close>: entered with the stack aligned, it returns with the stack pointer and the registers a
  callee saves as they were, and without writing at or above its return address.
\<close>

definition compiled :: "(cpu \<Rightarrow> cpu option) \<Rightarrow> (cpu \<Rightarrow> cpu) \<Rightarrow> bool" where
  "compiled f g \<longleftrightarrow> (\<forall>s. unat (rsp s) mod 16 = 8 \<longrightarrow> (\<exists>t. f s = Some t \<and> rsp t = rsp s \<and> rbx t = rbx s \<and> rbp t = rbp s \<and>
     r12 t = r12 s \<and> r13 t = r13 s \<and> r14 t = r14 s \<and> r15 t = r15 s \<and> cs_reg t = cs_reg s \<and> ss_reg t = ss_reg s \<and>
     outs t = outs (g s) \<and> vga_mem t = vga_mem (g s) \<and> (\<forall>a. unat (rsp s) \<le> unat a \<longrightarrow> stack t a = stack s a)))"

text \<open>\<open>kprintChar\<close> with its arguments in \<open>edi\<close>, \<open>esi\<close>, \<open>dl\<close> and \<open>cl\<close>.\<close>

definition kprintChar_args :: "cpu \<Rightarrow> cpu" where
  "kprintChar_args s = kprintChar (sint (ucast (rdi s) :: uint32)) (sint (ucast (rsi s) :: uint32)) (ucast (rdx s)) (ucast (rcx s)) s"

lemma call_c_compiled:
  assumes "compiled f g" "unat (rsp s) mod 16 = 0" "holds vs s" "8 * Suc (length vs) \<le> 2 ^ 20" "8 \<le> unat (rsp s)"
    "unat (rsp s) + 8 * length vs < 2 ^ 64"
  shows "\<exists>t. call_c ra f s = Some t \<and> rsp t = rsp s \<and> rbx t = rbx s \<and> rbp t = rbp s \<and>
     r12 t = r12 s \<and> r13 t = r13 s \<and> r14 t = r14 s \<and> r15 t = r15 s \<and> cs_reg t = cs_reg s \<and> ss_reg t = ss_reg s \<and>
     outs t = outs (g (push ra s)) \<and> vga_mem t = vga_mem (g (push ra s)) \<and> holds vs t \<and>
     (\<forall>a. unat (rsp s) \<le> unat a \<longrightarrow> stack t a = stack s a)"
proof -
  let ?p = "push ra s"
  have u: "unat (rsp ?p) = unat (rsp s) - 8" using unat_sub_le [of 8 "rsp s"] assms(5) by simp
  have "(n - 8) mod 16 = 8" if n: "n mod 16 = 0" "8 \<le> n" for n :: nat
  proof -
    have "n = 16 * (n div 16)" using mult_div_mod_eq [of 16 n] n(1) by simp
    then obtain j where "n = 16 * j + 16" using n(2) by (cases "n div 16") auto
    then have "n - 8 = 8 + 16 * j" by simp
    then show ?thesis by simp
  qed
  from this [OF assms(2,5)] have "unat (rsp ?p) mod 16 = 8" unfolding u .
  from mp [OF spec [OF assms(1) [unfolded compiled_def]] this] obtain t where t: "f ?p = Some t" "rsp t = rsp ?p" "rbx t = rbx ?p" "rbp t = rbp ?p"
    "r12 t = r12 ?p" "r13 t = r13 ?p" "r14 t = r14 ?p" "r15 t = r15 ?p" "cs_reg t = cs_reg ?p" "ss_reg t = ss_reg ?p"
    "outs t = outs (g ?p)" "vga_mem t = vga_mem (g ?p)" "\<forall>a. unat (rsp ?p) \<le> unat a \<longrightarrow> stack t a = stack ?p a"
    by (elim exE conjE) (rule that)
  have k: "\<forall>a. unat (rsp s) \<le> unat a \<longrightarrow> stack t a = stack s a"
    using t(13) u push_above(1) [OF assms(5) order.refl, of _ ra] by simp
  have "unat (rsp s) \<le> unat (rsp s + 8 * of_nat i)" if "i < length vs" for i
  proof -
    have "unat (8 * of_nat i :: addr) = 8 * i" using that assms(4) unat_of_nat [of "8 * i", where 'a = 64] by simp
    then show ?thesis using unat_add_no_wrap [of "rsp s" "8 * of_nat i"] that assms(6) by simp
  qed
  then have "holds vs (t\<lparr>rsp := rsp s\<rparr>)" using k assms(3) by (simp add: holds_def)
  then show ?thesis using t(1-12) k by (simp add: call_c_def ret_def pop_def)
qed

lemma unat_aligned: "unat ((x :: uint64) AND NOT 15) = unat x div 16 * 16"
proof -
  have "x AND NOT 15 = push_bit 4 (drop_bit 4 x)" unfolding low_masks by (rule bit_word_eqI) (auto simp: bit_simps)
  then have "unat (x AND NOT 15) = unat (push_bit 4 (drop_bit 4 x))" by (rule arg_cong)
  also have "\<dots> = take_bit 64 (unat x div 16 * 16)"
    by (simp only: unsigned_push_bit_eq unsigned_drop_bit_eq) (simp add: push_bit_eq_mult drop_bit_eq_div take_bit_nat_eq_self [of "unat x"] unat_lt64)
  also have "\<dots> = unat x div 16 * 16" using unat_lt64 [of x] by (intro take_bit_nat_eq_self) (simp add: less_mult_imp_div_less)
  finally show ?thesis .
qed

section \<open>Entering and leaving a handler\<close>

lemma enter_interrupt_holds:
  assumes "length err \<le> 1" "48 \<le> unat (rsp s AND NOT 15)"
  shows "holds (rev err @ [rip s, ucast (cs_reg s), rflags s, rsp s, ucast (ss_reg s)]) (enter_interrupt err s)"
    "enter_interrupt err s = s\<lparr>rsp := (rsp s AND NOT 15) - 8 * of_nat (5 + length err), rflags := rflags s AND NOT 0x14300,
       stack := stack (enter_interrupt err s)\<rparr>"
    "unat (rsp s AND NOT 15) \<le> unat a \<Longrightarrow> stack (enter_interrupt err s) a = stack s a"
proof -
  let ?b = "rsp s AND NOT 15" and ?vs = "[ucast (ss_reg s), rsp s, rflags s, ucast (cs_reg s), rip s] @ err"
  let ?s = "s\<lparr>rsp := ?b\<rparr>"
  have e: "enter_interrupt err s = (fold push ?vs ?s)\<lparr>rflags := rflags s AND NOT 0x14300\<rparr>" by (simp only: enter_interrupt_def)
  have "holds [] ?s" by (simp add: holds_def)
  from fold_push [OF this, of ?vs] assms(1)
  show "holds (rev err @ [rip s, ucast (cs_reg s), rflags s, rsp s, ucast (ss_reg s)]) (enter_interrupt err s)"
    unfolding e by simp
  show "enter_interrupt err s = s\<lparr>rsp := ?b - 8 * of_nat (5 + length err), rflags := rflags s AND NOT 0x14300,
       stack := stack (enter_interrupt err s)\<rparr>"
  proof -
    have "enter_interrupt err s = (?s\<lparr>rsp := rsp (fold push ?vs ?s), stack := stack (fold push ?vs ?s)\<rparr>)\<lparr>rflags := rflags s AND NOT 0x14300\<rparr>"
      unfolding e by (rule arg_cong [OF fold_push_sel(2)])
    moreover have "stack (enter_interrupt err s) = stack (fold push ?vs ?s)" unfolding e by simp
    ultimately show ?thesis using fold_push_sel(1) [of ?vs ?s] by simp
  qed
  assume "unat ?b \<le> unat a"
  moreover have "8 * length ?vs \<le> unat (rsp ?s)" using assms by simp
  ultimately show "stack (enter_interrupt err s) a = stack s a"
    unfolding e using fold_push_above(1) [of ?vs ?s ?b a] by simp
qed

lemma iretq_holds:
  assumes "holds ([i, c, f, p, w] @ ws) s"
  shows "iretq s = s\<lparr>rip := i, cs_reg := ucast c, rflags := f, rsp := p, ss_reg := ucast w\<rparr>"
proof -
  have "stack s (rsp s + 8 * of_nat k) = ([i, c, f, p, w] @ ws) ! k" if "k < 5" for k
    using assms that by (simp add: holds_def)
  from this [of 0] this [of 1] this [of 2] this [of 3] this [of 4] show ?thesis by (simp add: iretq_def)
qed

lemma selector_roundtrip: "ucast (ucast (x :: uint16) :: uint64) = x"
  by (rule bit_word_eqI) (auto simp: bit_simps)

text \<open>The timer's handler, entered as the processor enters it.\<close>

lemma isr_32_resumes:
  assumes "48 \<le> unat (rsp s AND NOT 15)"
  shows "isr_32_code (enter_interrupt [] s) = (isr_32 s)\<lparr>stack := stack (isr_32_code (enter_interrupt [] s))\<rparr>"
    "unat (rsp s AND NOT 15) \<le> unat a \<Longrightarrow> stack (isr_32_code (enter_interrupt [] s)) a = stack s a"
proof -
  let ?e = "enter_interrupt [] s"
  note E = enter_interrupt_holds [of "[]" s, OF _ assms]
  have h: "holds [rip s, ucast (cs_reg s), rflags s, rsp s, ucast (ss_reg s)] ?e" using E(1) by simp
  from E(2) obtain st where st: "?e = s\<lparr>rsp := (rsp s AND NOT 15) - 40, rflags := rflags s AND NOT 0x14300, stack := st\<rparr>" by auto
  have r: "rsp ?e = (rsp s AND NOT 15) - 40" "rax ?e = rax s" unfolding st by simp_all
  have "length [rip s, ucast (cs_reg s), rflags s, rsp s, ucast (ss_reg s)] < 2 ^ 20" by simp
  note H = end_of_interrupt_holds [OF h this]
  have i: "isr_32_code ?e = (end_of_interrupt ?e)\<lparr>rip := rip s, cs_reg := cs_reg s, rflags := rflags s, rsp := rsp s, ss_reg := ss_reg s\<rparr>"
    unfolding isr_32_code_def using iretq_holds [of _ _ _ _ _ "[]"] H(2) by (simp add: selector_roundtrip)
  show "isr_32_code ?e = (isr_32 s)\<lparr>stack := stack (isr_32_code ?e)\<rparr>"
    unfolding i H(1) unfolding st by (intro cpu.equality) (simp_all add: isr_32_def outb_def)
  assume a: "unat (rsp s AND NOT 15) \<le> unat a"
  have "unat ((rsp s AND NOT 15) - 48) = unat (rsp s AND NOT 15) - 48" using unat_sub_le [of 48 "rsp s AND NOT 15"] assms by simp
  then have "(rsp s AND NOT 15) - 48 \<noteq> a" using a assms by auto
  then show "stack (isr_32_code ?e) a = stack s a"
    unfolding i H(1) using E(3) [of a] a r by (simp add: diff_diff_add)
qed

lemma kprintChar_cong:
  fixes s t :: cpu
  assumes "outs s = outs t" "vga_mem s = vga_mem t"
  shows "outs (kprintChar x y c col s) = outs (kprintChar x y c col t)" "vga_mem (kprintChar x y c col s) = vga_mem (kprintChar x y c col t)"
  using assms by (simp_all add: kprintChar_def setCursorPosition_def outb_def Let_def)

lemma kprintChar_cpu:
  fixes s :: cpu
  shows "kprintChar x y c col s = s\<lparr>outs := outs (kprintChar x y c col s), vga_mem := vga_mem (kprintChar x y c col s)\<rparr>"
  by (simp add: kprintChar_def setCursorPosition_def outb_def Let_def)

lemma key_byte: "ucast ((d AND NOT 0xFF) OR (((a AND NOT 0xFF) OR ucast (c :: uint8)) AND 0xFF) :: uint64) = c"
  unfolding low_masks by (rule bit_word_eqI) (auto simp: bit_simps)

lemma isr_33_resumes:
  assumes f: "compiled f kprintChar_args" and room: "512 \<le> unat (rsp s AND NOT 15)"
  shows "\<exists>t. isr_33_code dev ra f (enter_interrupt [] s) = Some t \<and> t = (isr_33 dev s)\<lparr>stack := stack t\<rparr> \<and>
    (\<forall>a. unat (rsp s AND NOT 15) \<le> unat a \<longrightarrow> stack t a = stack s a)"
proof -
  let ?b = "rsp s AND NOT 15" and ?e = "enter_interrupt [] s"
  let ?fr = "[rip s, ucast (cs_reg s), rflags s, rsp s, ucast (ss_reg s)]"
  let ?sv = "[rax s, rbx s, rcx s, rdx s, rsi s, rdi s, r8 s, r9 s, r10 s, r11 s, r12 s, r13 s, r14 s, r15 s, (rflags s AND NOT 0x14300) AND 0xFCFFFF]"
  have b: "unat (?b - of_nat k) = unat ?b - k" if "k \<le> 512" for k
  proof -
    have "unat (of_nat k :: uint64) = k" using that by (intro unat_of_nat_small) simp
    then show ?thesis using unat_sub_le [of "of_nat k" ?b] that room by simp
  qed
  have "48 \<le> unat ?b" using room by simp
  note E = enter_interrupt_holds [of "[]" s, OF _ this, simplified]
  from E(2) obtain st where st: "?e = s\<lparr>rsp := ?b - 40, rflags := rflags s AND NOT 0x14300, stack := st\<rparr>" by auto
  have above: "stack ?e a = stack s a" if "unat ?b \<le> unat a" for a using E(3) [of a] that by simp
  have p: "pushall ?e = fold push ?sv ?e" unfolding pushall_list st by simp
  obtain st2 where st2: "stack (pushall ?e) = st2" by simp
  have "rsp (pushall ?e) = ?b - 160" unfolding p fold_push_sel(1) unfolding st by (simp add: diff_diff_add)
  moreover have "pushall ?e = ?e\<lparr>rsp := rsp (pushall ?e), stack := stack (pushall ?e)\<rparr>" unfolding p by (rule fold_push_sel(2))
  ultimately have "pushall ?e = ?e\<lparr>rsp := ?b - 160, stack := st2\<rparr>" unfolding st2 by simp
  then have q1: "pushall ?e = s\<lparr>rsp := ?b - 160, rflags := rflags s AND NOT 0x14300, stack := st2\<rparr>" unfolding st by simp
  have "holds (rev ?sv @ ?fr) (pushall ?e)" unfolding p by (rule fold_push) (use E(1) in simp_all)
  then have q2: "holds (rev ?sv @ ?fr) (s\<lparr>rsp := ?b - 160, rflags := rflags s AND NOT 0x14300, stack := st2\<rparr>)" unfolding q1 .
  have q3: "st2 a = stack s a" if "unat ?b \<le> unat a" for a
    unfolding st2 [symmetric] p using fold_push_above(1) [of ?sv ?e ?b a] above [OF that] that room b [of 40] by (simp add: st)
  let ?q = "s\<lparr>rsp := ?b - 160, rflags := rflags s AND NOT 0x14300, stack := st2\<rparr>" and ?k = "dev (outs s) 0x60"
  let ?x = "(rax s AND NOT 0xFF) OR ucast ?k"
  let ?v = "?q\<lparr>rax := ?x, rdi := 10, rsi := 10, rdx := (rdx s AND NOT 0xFF) OR (?x AND 0xFF), rcx := 0x1f\<rparr>"
  have run: "isr_33_code dev ra f ?e = map_option (\<lambda>s. iretq (popall (end_of_interrupt s))) (call_c ra f ?v)"
    by (simp add: isr_33_code_def q1 Let_def set_al_def inb_def map_conv_bind_option comp_def)
  have "unat (rsp ?v) mod 16 = 0"
  proof -
    have "unat ?b = unat (rsp s) div 16 * 16" by (rule unat_aligned)
    moreover have "unat (rsp ?v) = unat ?b - 160" using b [of 160] by simp
    ultimately have "unat (rsp ?v) = (unat (rsp s) div 16 - 10) * 16" by (simp add: diff_mult_distrib)
    then show ?thesis by simp
  qed
  moreover have "holds (rev ?sv @ ?fr) ?v" using q2 by simp
  moreover have "8 \<le> unat (rsp ?v)" "unat (rsp ?v) + 8 * length (rev ?sv @ ?fr) < 2 ^ 64"
    using b [of 160] room unat_lt64 [of ?b] by simp_all
  ultimately obtain t where t: "call_c ra f ?v = Some t" "rsp t = rsp ?v" "rbx t = rbx ?v" "rbp t = rbp ?v" "cs_reg t = cs_reg ?v" "ss_reg t = ss_reg ?v"
    "outs t = outs (kprintChar_args (push ra ?v))" "vga_mem t = vga_mem (kprintChar_args (push ra ?v))" "holds (rev ?sv @ ?fr) t"
    "\<forall>a. unat (rsp ?v) \<le> unat a \<longrightarrow> stack t a = stack ?v a"
    using call_c_compiled [OF f, of ?v "rev ?sv @ ?fr" ra] by auto
  have out: "outs t = outs (kprintChar 10 10 ?k 0x1f s)" "vga_mem t = vga_mem (kprintChar 10 10 ?k 0x1f s)"
  proof -
    have "kprintChar_args (push ra ?v) = kprintChar 10 10 ?k 0x1f (push ra ?v)" by (simp add: kprintChar_args_def key_byte [simplified])
    then show "outs t = outs (kprintChar 10 10 ?k 0x1f s)" "vga_mem t = vga_mem (kprintChar 10 10 ?k 0x1f s)"
      using t(7,8) by (auto intro!: kprintChar_cong)
  qed
  have "length (rev ?sv @ ?fr) < 2 ^ 20" by simp
  note H = end_of_interrupt_holds [OF t(9) this]
  obtain fl where P: "popall (end_of_interrupt t) = (end_of_interrupt t)\<lparr>rflags := fl, r15 := r15 s, r14 := r14 s, r13 := r13 s, r12 := r12 s,
      r11 := r11 s, r10 := r10 s, r9 := r9 s, r8 := r8 s, rdi := rdi s, rsi := rsi s, rdx := rdx s, rcx := rcx s, rbx := rbx s, rax := rax s,
      rsp := rsp (end_of_interrupt t) + 120\<rparr>" "holds ?fr (popall (end_of_interrupt t))"
  proof -
    have h: "holds ([(rflags s AND NOT 0x14300) AND 0xFCFFFF, r15 s, r14 s, r13 s, r12 s, r11 s, r10 s, r9 s, r8 s, rdi s, rsi s, rdx s, rcx s, rbx s, rax s] @ ?fr)
      (end_of_interrupt t)" using H(2) by simp
    from popall_holds(1) [OF h] popall_holds(2) [OF h] that show thesis by (elim exE) blast
  qed
  have fin: "iretq (popall (end_of_interrupt t)) = (popall (end_of_interrupt t))\<lparr>rip := rip s, cs_reg := cs_reg s, rflags := rflags s, rsp := rsp s, ss_reg := ss_reg s\<rparr>"
    using iretq_holds [of _ _ _ _ _ "[]"] P(2) by (simp add: selector_roundtrip)
  let ?t = "iretq (popall (end_of_interrupt t))"
  obtain og vg where kc: "kprintChar 10 10 ?k 0x1f s = s\<lparr>outs := og, vga_mem := vg\<rparr>" using kprintChar_cpu by blast
  have "?t = (isr_33 dev s)\<lparr>stack := stack ?t\<rparr>"
    unfolding fin unfolding P(1) unfolding H(1) isr_33_def inb_def Let_def kc using t(2-6) out kc by (intro cpu.equality) (simp_all add: outb_def)
  moreover have "stack ?t a = stack s a" if a: "unat ?b \<le> unat a" for a
  proof -
    have "rsp t - 8 \<noteq> a" using b [of 168] a room t(2) by (auto simp: diff_diff_add)
    then have "stack ?t a = stack t a" unfolding fin unfolding P(1) unfolding H(1) by simp
    also have "\<dots> = stack ?v a" using t(10) a b [of 160] by simp
    finally show ?thesis using q3 [OF a] by simp
  qed
  ultimately show ?thesis using run t(1) by auto
qed

section \<open>Interrupts between the instructions of a program\<close>

datatype irq = Timer | Key

text \<open>One interrupt, from the state between two instructions to the state after \<open>iretq\<close>, and many.\<close>

definition serve :: "((uint16 \<times> uint8) list \<Rightarrow> uint16 \<Rightarrow> uint8) \<Rightarrow> uint64 \<Rightarrow> (cpu \<Rightarrow> cpu option) \<Rightarrow> irq \<Rightarrow> cpu \<Rightarrow> cpu option" where
  "serve dev ra f q s = (case q of
     Timer \<Rightarrow> Some (isr_32_code (enter_interrupt [] s))
   | Key \<Rightarrow> isr_33_code dev ra f (enter_interrupt [] s))"

fun serve_all :: "((uint16 \<times> uint8) list \<Rightarrow> uint16 \<Rightarrow> uint8) \<Rightarrow> uint64 \<Rightarrow> (cpu \<Rightarrow> cpu option) \<Rightarrow> irq list \<Rightarrow> cpu \<Rightarrow> cpu option" where
  "serve_all dev ra f [] s = Some s"
| "serve_all dev ra f (q # qs) s = do { s \<leftarrow> serve dev ra f q s; serve_all dev ra f qs s }"

definition irq_effect :: "((uint16 \<times> uint8) list \<Rightarrow> uint16 \<Rightarrow> uint8) \<Rightarrow> irq \<Rightarrow> 'a vga_scheme \<Rightarrow> 'a vga_scheme" where
  "irq_effect dev q s = (case q of Timer \<Rightarrow> isr_32 s | Key \<Rightarrow> isr_33 dev s)"

lemma serve_resumes:
  assumes "compiled f kprintChar_args" "512 \<le> unat (rsp s AND NOT 15)"
  shows "\<exists>t. serve dev ra f q s = Some t \<and> t = (irq_effect dev q s)\<lparr>stack := stack t\<rparr> \<and>
    (\<forall>a. unat (rsp s AND NOT 15) \<le> unat a \<longrightarrow> stack t a = stack s a)"
proof (cases q)
  case Timer
  then show ?thesis using isr_32_resumes [of s] assms(2) by (simp add: serve_def irq_effect_def)
next
  case Key
  then show ?thesis using isr_33_resumes [OF assms] by (simp add: serve_def irq_effect_def)
qed

lemma irq_effect_stack: "irq_effect dev q (s\<lparr>stack := x\<rparr>) = (irq_effect dev q s)\<lparr>stack := x\<rparr>"
  by (cases q) (simp_all add: irq_effect_def isr_32_def isr_33_def kprintChar_def setCursorPosition_def outb_def inb_def Let_def)

lemma irq_effect_rsp: "rsp (irq_effect dev q s) = rsp s"
  by (cases q) (simp_all add: irq_effect_def isr_32_def isr_33_def kprintChar_def setCursorPosition_def outb_def inb_def Let_def)

lemma irq_effects_stack: "fold (irq_effect dev) qs (s\<lparr>stack := x\<rparr>) = (fold (irq_effect dev) qs s)\<lparr>stack := x\<rparr>"
  by (induction qs arbitrary: s) (simp_all add: irq_effect_stack)

text \<open>
  C18. The program does not notice interrupts. Whatever sequence of timer and keyboard interrupts comes between two
  instructions, each handler returns to the instruction that was interrupted with all registers, flags and
  selectors as they were; ports and screen change as the interrupts' specification says; and no word
  at or above the stack pointer changes, for any compiled \<open>kprintChar\<close> that keeps to the calling convention: its stack
  is aligned, and there are 512 bytes of it.
\<close>

theorem interrupts_transparent:
  assumes "compiled f kprintChar_args" "512 \<le> unat (rsp s AND NOT 15)"
  shows "\<exists>t. serve_all dev ra f qs s = Some t \<and> t = (fold (irq_effect dev) qs s)\<lparr>stack := stack t\<rparr> \<and>
    (\<forall>a. unat (rsp s AND NOT 15) \<le> unat a \<longrightarrow> stack t a = stack s a)"
  using assms(2)
proof (induction qs arbitrary: s)
  case (Cons q qs)
  from serve_resumes [OF assms(1) Cons.prems, of dev ra q] obtain t where
    t: "serve dev ra f q s = Some t" "t = (irq_effect dev q s)\<lparr>stack := stack t\<rparr>" "\<forall>a. unat (rsp s AND NOT 15) \<le> unat a \<longrightarrow> stack t a = stack s a" by blast
  have r: "rsp t = rsp s" using arg_cong [OF t(2), of rsp] by (simp add: irq_effect_rsp)
  with Cons.IH [of t] Cons.prems obtain u where
    u: "serve_all dev ra f qs t = Some u" "u = (fold (irq_effect dev) qs t)\<lparr>stack := stack u\<rparr>"
    "\<forall>a. unat (rsp t AND NOT 15) \<le> unat a \<longrightarrow> stack u a = stack t a" by auto
  have "fold (irq_effect dev) qs t = (fold (irq_effect dev) (q # qs) s)\<lparr>stack := stack t\<rparr>"
    using arg_cong [OF t(2), of "fold (irq_effect dev) qs"] by (simp add: irq_effects_stack)
  then have "u = (fold (irq_effect dev) (q # qs) s)\<lparr>stack := stack u\<rparr>" using u(2) by simp
  then show ?case using t(1,3) u(1,3) r by simp
qed simp

text \<open>A program whose stack pointer is odd, interrupted by a key and the timer; the compiled \<open>kprintChar\<close> uses
  \<open>rax\<close>, \<open>r11\<close> and a word of stack.\<close>

definition example_print :: "cpu \<Rightarrow> cpu option" where
  "example_print s = Some ((kprintChar_args s)\<lparr>rax := 1, r11 := 2, rflags := 0x46, stack := (stack s)(rsp s - 8 := 3)\<rparr>)"

definition example_cpu :: cpu where
  "example_cpu = \<lparr>outs = [], vga_mem = (\<lambda>_. (0, 0)), rax = 10, rbx = 11, rcx = 12, rdx = 13, rsi = 14, rdi = 15, rbp = 16,
     r8 = 17, r9 = 18, r10 = 19, r11 = 20, r12 = 21, r13 = 22, r14 = 23, r15 = 24, rsp = 0x8FF5, rip = 0x7E123, rflags = 0x202,
     cs_reg = 8, ss_reg = 16, stack = (\<lambda>_. 0)\<rparr>"

lemma example_print_compiled: "compiled example_print kprintChar_args"
proof -
  have "\<not> unat (rsp s) \<le> unat (rsp s - 8)" if "unat (rsp s) mod 16 = 8" for s :: cpu
  proof -
    have "8 \<le> unat (rsp s)" using that mod_less_eq_dividend [of "unat (rsp s)" 16] by simp
    then show ?thesis using unat_sub_le [of 8 "rsp s"] by simp
  qed
  then show ?thesis
    by (simp add: compiled_def example_print_def kprintChar_args_def kprintChar_def setCursorPosition_def outb_def Let_def)
qed

theorem interrupts_transparent_witness:
  "\<exists>t. serve_all (\<lambda>_ _. 0x1E) 0x9000 example_print [Key, Timer] example_cpu = Some t \<and>
     rax t = 10 \<and> r11 t = 20 \<and> rsp t = 0x8FF5 \<and> rip t = 0x7E123 \<and> rflags t = 0x202 \<and> vga_mem t 810 = (0x1E, 0x1f)"
proof -
  have "unat (rsp example_cpu AND NOT 15) = 0x8FF0" unfolding unat_aligned by (simp add: example_cpu_def)
  then have r: "512 \<le> unat (rsp example_cpu AND NOT 15)" by simp
  from interrupts_transparent [OF example_print_compiled r, where dev = "\<lambda>_ _. 0x1E" and ra = "0x9000" and qs = "[Key, Timer]"]
  obtain t where t: "serve_all (\<lambda>_ _. 0x1E) 0x9000 example_print [Key, Timer] example_cpu = Some t"
    "t = (isr_32 (isr_33 (\<lambda>_ _. 0x1E) example_cpu))\<lparr>stack := stack t\<rparr>" by (auto simp: irq_effect_def)
  then obtain st where st: "t = (isr_32 (isr_33 (\<lambda>_ _. 0x1E) example_cpu))\<lparr>stack := st\<rparr>" by blast
  have "rax t = 10 \<and> r11 t = 20 \<and> rsp t = 0x8FF5 \<and> rip t = 0x7E123 \<and> rflags t = 0x202 \<and> vga_mem t 810 = (0x1E, 0x1f)"
    unfolding st by (simp add: isr_32_def isr_33_def kprintChar_def setCursorPosition_def outb_def inb_def Let_def example_cpu_def NUM_COLS_def)
  then show ?thesis using t(1) by blast
qed

section \<open>Where the handlers go wrong\<close>

text \<open>
  The frame of an interrupt lies in the 128 bytes under the stack pointer that the calling convention lets
  a function use without moving it, and that the Makefile does not tell the compiler to leave unused.
\<close>

lemma interrupt_writes_red_zone:
  "stack (enter_interrupt [] s) ((rsp s AND NOT 15) - 24) = rflags s" "unat (rsp s) - unat (rsp s AND NOT 15) < 16"
proof -
  have "holds [rip s, ucast (cs_reg s), rflags s, rsp s, ucast (ss_reg s)] (enter_interrupt [] s)" "rsp (enter_interrupt [] s) = (rsp s AND NOT 15) - 40"
  proof -
    have "holds [] (s\<lparr>rsp := rsp s AND NOT 15\<rparr>)" by (simp add: holds_def)
    from fold_push [OF this, of "[ucast (ss_reg s), rsp s, rflags s, ucast (cs_reg s), rip s]"]
    show "holds [rip s, ucast (cs_reg s), rflags s, rsp s, ucast (ss_reg s)] (enter_interrupt [] s)" by (simp add: enter_interrupt_def)
  qed (simp add: enter_interrupt_def diff_diff_add)
  then show "stack (enter_interrupt [] s) ((rsp s AND NOT 15) - 24) = rflags s" by (auto simp: holds_def dest!: spec [of _ 2])
  show "unat (rsp s) - unat (rsp s AND NOT 15) < 16" unfolding unat_aligned by (simp add: minus_div_mult_eq_mod)
qed

lemma popaq_sel: "rsp (popaq s) = rsp s + 80" "stack (popaq s) = stack s"
  by (simp_all add: popaq_def popfq_def pop_def add.assoc)

text \<open>
  \<open>isr_14\<close> does not take the error code off the stack: were its handler to return, \<open>iretq\<close> would take the
  error code for the address to go on at, that address for the selector, the selector for the flags, and
  the flags for the stack pointer.
\<close>

theorem page_fault_never_resumes:
  assumes "compiled f g" "512 \<le> unat (rsp s AND NOT 15)"
  shows "\<exists>t. isr_14_code cr2 ra f (enter_interrupt [err] s) = Some t \<and> rip t = err \<and> cs_reg t = ucast (rip s) \<and>
    rflags t = ucast (cs_reg s) \<and> rsp t = rflags s"
proof -
  let ?b = "rsp s AND NOT 15" and ?e = "enter_interrupt [err] s"
  let ?fr = "[err, rip s, ucast (cs_reg s), rflags s, rsp s, ucast (ss_reg s)]"
  have b: "unat (?b - 128) = unat ?b - 128" using unat_sub_le [of 128 ?b] assms(2) by simp
  have "48 \<le> unat ?b" using assms(2) by simp
  note E = enter_interrupt_holds [of "[err]" s, OF _ this, simplified]
  have rs: "rsp ?e = ?b - 48" using arg_cong [OF E(2), of rsp] by simp
  let ?sv = "[rax ?e, rcx ?e, rdx ?e, rsi ?e, rdi ?e, r8 ?e, r9 ?e, r10 ?e, r11 ?e, rflags ?e AND 0xFCFFFF]"
  have q: "pushaq ?e = fold push ?sv ?e" by (rule pushaq_list)
  have h: "holds (rev ?sv @ ?fr) (pushaq ?e)" unfolding q by (rule fold_push) (use E(1) in simp_all)
  have r: "rsp (pushaq ?e) = ?b - 128" unfolding q fold_push_sel(1) rs by (simp add: diff_diff_add)
  let ?v = "(pushaq ?e)\<lparr>rsi := cr2\<rparr>"
  have "unat (rsp ?v) mod 16 = 0"
  proof -
    have "unat (rsp ?v) = (unat (rsp s) div 16 - 8) * 16" using b r unat_aligned [of "rsp s"] by (simp add: diff_mult_distrib)
    then show ?thesis by simp
  qed
  moreover have "8 \<le> unat (rsp ?v)" "unat (rsp ?v) + 8 * length (rev ?sv @ ?fr) < 2 ^ 64"
    using r b assms(2) unat_lt64 [of ?b] by simp_all
  moreover have "holds (rev ?sv @ ?fr) ?v" using h by simp
  ultimately obtain t where t: "call_c ra f ?v = Some t" "holds (rev ?sv @ ?fr) t"
    using call_c_compiled [OF assms(1), of ?v "rev ?sv @ ?fr" ra] by auto
  have "holds ([err, rip s, ucast (cs_reg s), rflags s, rsp s] @ [ucast (ss_reg s)]) (popaq t)"
  proof -
    have "stack t (rsp t + 8 * of_nat (10 + i)) = ?fr ! i" if "i < 6" for i
      using t(2) that by (auto simp: holds_def nth_append dest: spec [of _ "10 + i"])
    then show ?thesis by (simp add: holds_def popaq_sel algebra_simps)
  qed
  from iretq_holds [OF this] show ?thesis by (simp add: isr_14_code_def t(1) selector_roundtrip)
qed

text \<open>
  \<open>crtn.asm\<close> pushes \<open>rax\<close> again where it should pop it: \<open>_init\<close> and \<open>_fini\<close> do not return to their caller but go
  to the address that happens to be in \<open>rax\<close>.
\<close>

lemma init_section_goes_to_rax: "rip (init_section body s) = rax (body (crti_prologue s))"
  by (simp add: init_section_def crtn_epilogue_def ret_def pop_def push_def Let_def)

section \<open>Exceptions\<close>

lemma isr_vectors_exceptions: "isr_vectors = map fst exceptions @ [14, 32, 33]"
  by (simp add: isr_vectors_def exceptions_def)

lemma spin_never: "spin s = None"
proof -
  have "spin s = Some y \<Longrightarrow> False" for y by (rule spin.raw_induct [where P = "\<lambda>_ _. False"])
  then show ?thesis by (cases "spin s") auto
qed

lemma syscall_never_returns: "syscall_entry s = None"
  unfolding syscall_entry_def by (rule spin_never)

text \<open>Every exception puts its message on the last line and stops.\<close>

lemma exception_report_draws:
  assumes "(v, msg) \<in> set exceptions"
  shows "\<exists>t. exception_report msg s = Some t \<and> (\<forall>i < length msg. vga_mem t (of_nat (1920 + i)) = (ascii msg ! i, 0x1f))"
    "generic_exception msg s = None"
proof -
  have "list_all (\<lambda>(v, m). list_all (\<lambda>c. c \<notin> {0, 10, 27}) (ascii m) \<and> length m \<le> 24 \<and> length (ascii m) = length m) exceptions"
    by (simp add: exceptions_def ascii_def)
  then have m: "list_all (\<lambda>c. c \<notin> {0, 10, 27}) (ascii msg)" "length msg \<le> 24" "length (ascii msg) = length msg"
    using assms by (auto simp: list_all_iff)
  from kprintStr_plain [OF m(1), of 0 24 "0x1f" s] m(2,3) obtain t where t: "kprintStr 0 24 (ascii msg) 0x1f s = Some t"
    "\<forall>p. vga_mem t p = (if 1920 \<le> unat p \<and> unat p < 1920 + length msg then (ascii msg ! (unat p - 1920), 0x1f) else vga_mem s p)" by auto
  have "unat (of_nat (1920 + i) :: uint16) = 1920 + i" if "i < length msg" for i
    by (rule unat_of_nat_small) (use that m(2) in simp)
  then show "\<exists>t. exception_report msg s = Some t \<and> (\<forall>i < length msg. vga_mem t (of_nat (1920 + i)) = (ascii msg ! i, 0x1f))"
    using t by (simp add: exception_report_def)
  show "generic_exception msg s = None" using t spin_never by (simp add: generic_exception_def exception_report_def)
qed

end
