(* ===== verification/RealMode_Print.thy ===== *)
theory RealMode_Print
  imports Prelude
begin

text \<open>
  The printing routines of \<open>src/boot/print_string.asm\<close>, on the 16-bit registers, the stack, and the calls of the
  BIOS's video interrupt they make, as \<open>(ah, al, bh)\<close>. The BIOS keeps the registers. The strings are in
  the data segment \<open>ds\<close>. No file includes the routines (the call in \<open>boot.asm\<close> is commented out).
\<close>

section \<open>The machine\<close>

record rm =
  reg_ax :: uint16
  reg_bx :: uint16
  reg_cx :: uint16
  reg_dx :: uint16
  reg_bp :: uint16
  reg_si :: uint16
  reg_di :: uint16
  reg_sp :: uint16
  stk :: "uint16 list"  \<comment> \<open>the words from \<open>sp\<close> on\<close>
  video :: "(uint8 \<times> uint8 \<times> uint8) list"  \<comment> \<open>oldest first\<close>

definition push :: "uint16 \<Rightarrow> rm \<Rightarrow> rm" where
  "push v s = s\<lparr>reg_sp := reg_sp s - 2, stk := v # stk s\<rparr>"

definition pop :: "(uint16 \<Rightarrow> rm \<Rightarrow> rm) \<Rightarrow> rm \<Rightarrow> rm option" where
  "pop put s = (case stk s of [] \<Rightarrow> None | v # r \<Rightarrow> Some (put v (s\<lparr>reg_sp := reg_sp s + 2, stk := r\<rparr>)))"

text \<open>\<open>pusha\<close> pushes the stack pointer it started from, and \<open>popa\<close> drops it.\<close>

definition pusha :: "rm \<Rightarrow> rm" where
  "pusha s = fold push [reg_ax s, reg_cx s, reg_dx s, reg_bx s, reg_sp s, reg_bp s, reg_si s, reg_di s] s"

definition popa :: "rm \<Rightarrow> rm option" where
  "popa s = do {
     s \<leftarrow> pop (\<lambda>v s. s\<lparr>reg_di := v\<rparr>) s; s \<leftarrow> pop (\<lambda>v s. s\<lparr>reg_si := v\<rparr>) s; s \<leftarrow> pop (\<lambda>v s. s\<lparr>reg_bp := v\<rparr>) s; s \<leftarrow> pop (\<lambda>v s. s) s;
     s \<leftarrow> pop (\<lambda>v s. s\<lparr>reg_bx := v\<rparr>) s; s \<leftarrow> pop (\<lambda>v s. s\<lparr>reg_dx := v\<rparr>) s; s \<leftarrow> pop (\<lambda>v s. s\<lparr>reg_cx := v\<rparr>) s; pop (\<lambda>v s. s\<lparr>reg_ax := v\<rparr>) s }"

definition set_ah :: "uint8 \<Rightarrow> rm \<Rightarrow> rm" where
  "set_ah v s = s\<lparr>reg_ax := (reg_ax s AND 0xFF) OR push_bit 8 (ucast v)\<rparr>"

definition set_al :: "uint8 \<Rightarrow> rm \<Rightarrow> rm" where
  "set_al v s = s\<lparr>reg_ax := (reg_ax s AND NOT 0xFF) OR ucast v\<rparr>"

definition int10 :: "rm \<Rightarrow> rm" where
  "int10 s = s\<lparr>video := video s @ [(ucast (drop_bit 8 (reg_ax s)), ucast (reg_ax s), ucast (drop_bit 8 (reg_bx s)))]\<rparr>"

text \<open>\<open>ret\<close>: the address control goes to, and the state there.\<close>

definition ret :: "rm \<Rightarrow> (uint16 \<times> rm) option" where
  "ret s = (case stk s of [] \<Rightarrow> None | v # r \<Rightarrow> Some (v, s\<lparr>reg_sp := reg_sp s + 2, stk := r\<rparr>))"

section \<open>The routines\<close>

text \<open>The code at the label \<open>end\<close>.\<close>

definition print_end :: "rm \<Rightarrow> (uint16 \<times> rm) option" where
  "print_end s = do {
     s \<leftarrow> popa (int10 (set_al 10 (int10 (set_al 13 s))));
     ret s }"

text \<open>The loop at \<open>print\<close>; a segment without a zero byte never ends it.\<close>

partial_function (option) print_loop :: "(uint16 \<Rightarrow> uint8) \<Rightarrow> rm \<Rightarrow> rm option" where
  "print_loop ds s = (let
     s = set_al (ds (reg_si s)) (set_ah 0x0e s);
     s = s\<lparr>reg_si := reg_si s + 1\<rparr>
     in if ucast (reg_ax s) = (0 :: uint8) then Some s else print_loop ds (int10 s))"

definition print_string :: "(uint16 \<Rightarrow> uint8) \<Rightarrow> rm \<Rightarrow> (uint16 \<times> rm) option" where
  "print_string ds s = (let
     s = pusha s;
     s = s\<lparr>reg_si := reg_bx s\<rparr>
     in do { s \<leftarrow> print_loop ds s; print_end s })"

definition print2 :: "(uint16 \<Rightarrow> uint8) \<Rightarrow> rm \<Rightarrow> rm option" where
  "print2 ds s = (let
     s = push (reg_ax s) s;
     s = set_al (ds (reg_bx s)) (set_ah 0x0e s);
     s = int10 s
     in pop (\<lambda>v s. s\<lparr>reg_ax := v\<rparr>) s)"

text \<open>The loop at \<open>erro\<close>, from the count \<open>cx\<close> on; \<open>er0\<close> and \<open>er1\<close> are the addresses of the two digits, \<open>bt ax, cx\<close>
  counts modulo 16. The number of rounds bounds the recursion.\<close>

fun print_bits :: "nat \<Rightarrow> (uint16 \<Rightarrow> uint8) \<Rightarrow> uint16 \<Rightarrow> uint16 \<Rightarrow> rm \<Rightarrow> rm option" where
  "print_bits 0 ds er0 er1 s = None"
| "print_bits (Suc n) ds er0 er1 s = do {
     s \<leftarrow> print2 ds (s\<lparr>reg_bx := (if bit (reg_ax s) (unat (reg_cx s) mod 16) then er1 else er0)\<rparr>);
     s \<leftarrow> Some (s\<lparr>reg_cx := reg_cx s + 1\<rparr>);
     if reg_cx s < 8 then print_bits n ds er0 er1 s else Some s }"

text \<open>
  \<open>call end\<close> pushes the address \<open>ra\<close> of the instruction after it: \<open>popa\<close> and \<open>ret\<close> then find the stack as
  \<open>print_num\<close> left it. If control comes back to \<open>ra\<close>, the rest of the routine runs.
\<close>

definition print_num :: "(uint16 \<Rightarrow> uint8) \<Rightarrow> uint16 \<Rightarrow> uint16 \<Rightarrow> uint16 \<Rightarrow> rm \<Rightarrow> (uint16 \<times> rm) option" where
  "print_num ds er0 er1 ra s = (let
     s = push (reg_cx s) (push (reg_bx s) s);
     s = s\<lparr>reg_cx := 0\<rparr>
     in do {
       s \<leftarrow> print_bits 8 ds er0 er1 s;
       (ip, s) \<leftarrow> print_end (push ra s);
       if ip \<noteq> ra then Some (ip, s)
       else do { s \<leftarrow> pop (\<lambda>v s. s\<lparr>reg_cx := v\<rparr>) s; s \<leftarrow> pop (\<lambda>v s. s\<lparr>reg_bx := v\<rparr>) s; ret s } })"

section \<open>Printing a string\<close>

lemma low_byte: "(0xFF :: uint16) = mask 8"
  by (simp add: mask_eq_exp_minus_1)

lemma set_bytes:
  "ucast (reg_ax (set_al v s)) = v" "ucast (drop_bit 8 (reg_ax (set_al v s))) = (ucast (drop_bit 8 (reg_ax s)) :: uint8)"
  "ucast (drop_bit 8 (reg_ax (set_ah v s))) = v"
  unfolding set_al_def set_ah_def low_byte rm.simps by (rule bit_word_eqI; auto simp: bit_simps dest: bit_imp_le_length)+

lemma set_other: "set_al v s = s\<lparr>reg_ax := reg_ax (set_al v s)\<rparr>" "set_ah v s = s\<lparr>reg_ax := reg_ax (set_ah v s)\<rparr>"
  by (simp_all add: set_al_def set_ah_def)

lemma high_byte: "ucast (drop_bit 8 (a :: uint16)) = (0x0e :: uint8) \<Longrightarrow> drop_bit 8 a = 0x0e"
proof -
  assume a: "ucast (drop_bit 8 a) = (0x0e :: uint8)"
  have "drop_bit 8 a = ucast (ucast (drop_bit 8 a) :: uint8)" by (rule bit_word_eqI) (auto simp: bit_simps dest: bit_imp_le_length)
  then show ?thesis unfolding a by simp
qed

lemma teletype_regs:
  "\<exists>a. set_al c (set_ah 0x0e s) = s\<lparr>reg_ax := a\<rparr> \<and> ucast a = c \<and> drop_bit 8 a = 0x0e"
proof -
  let ?t = "set_al c (set_ah 0x0e s)"
  have "?t = s\<lparr>reg_ax := reg_ax ?t\<rparr>" by (simp add: set_al_def set_ah_def)
  moreover have "ucast (reg_ax ?t) = c" "ucast (drop_bit 8 (reg_ax ?t)) = (0x0e :: uint8)" by (simp_all only: set_bytes)
  ultimately show ?thesis using high_byte by blast
qed

lemma print_loop_round:
  "\<exists>a. print_loop ds s = (if ds (reg_si s) = 0 then Some (s\<lparr>reg_ax := a, reg_si := reg_si s + 1\<rparr>)
     else print_loop ds (s\<lparr>reg_ax := a, reg_si := reg_si s + 1, video := video s @ [(0x0e, ds (reg_si s), ucast (drop_bit 8 (reg_bx s)))]\<rparr>)) \<and>
     drop_bit 8 a = 0x0e"
proof -
  obtain a where a: "set_al (ds (reg_si s)) (set_ah 0x0e s) = s\<lparr>reg_ax := a\<rparr>" "ucast a = ds (reg_si s)" "drop_bit 8 a = 0x0e"
    using teletype_regs by blast
  show ?thesis by (rule exI [of _ a], subst print_loop.simps) (simp add: a Let_def int10_def)
qed

text \<open>The string \<open>cs\<close>, ended by a zero byte, from \<open>p\<close> on.\<close>

fun string_at :: "(uint16 \<Rightarrow> uint8) \<Rightarrow> uint16 \<Rightarrow> uint8 list \<Rightarrow> bool" where
  "string_at ds p [] = (ds p = 0)"
| "string_at ds p (c # cs) = (c \<noteq> 0 \<and> ds p = c \<and> string_at ds (p + 1) cs)"

lemma print_loop_prints:
  assumes "string_at ds (reg_si s) cs"
  shows "\<exists>a. print_loop ds s = Some (s\<lparr>reg_ax := a, reg_si := reg_si s + of_nat (length cs) + 1,
     video := video s @ map (\<lambda>c. (0x0e, c, ucast (drop_bit 8 (reg_bx s)))) cs\<rparr>) \<and> drop_bit 8 a = 0x0e"
  using assms
proof (induction cs arbitrary: s)
  case Nil
  then show ?case using print_loop_round [of ds s] by auto
next
  case (Cons c cs)
  obtain a where a: "print_loop ds s = print_loop ds (s\<lparr>reg_ax := a, reg_si := reg_si s + 1, video := video s @ [(0x0e, c, ucast (drop_bit 8 (reg_bx s)))]\<rparr>)"
    using print_loop_round [of ds s] Cons.prems by auto
  from Cons.IH [of "s\<lparr>reg_ax := a, reg_si := reg_si s + 1, video := video s @ [(0x0e, c, ucast (drop_bit 8 (reg_bx s)))]\<rparr>"] Cons.prems
  show ?case unfolding a by (auto simp: add.commute add.left_commute)
qed

lemma int10_al:
  "\<exists>a. int10 (set_al v s) = s\<lparr>reg_ax := a, video := video s @ [(ucast (drop_bit 8 (reg_ax s)), v, ucast (drop_bit 8 (reg_bx s)))]\<rparr> \<and>
     ucast (drop_bit 8 a) = (ucast (drop_bit 8 (reg_ax s)) :: uint8)"
proof -
  have "set_al v s = s\<lparr>reg_ax := reg_ax (set_al v s)\<rparr>" by (simp add: set_al_def)
  then obtain a where a: "set_al v s = s\<lparr>reg_ax := a\<rparr>" by blast
  show ?thesis using set_bytes(1,2) [of v s] unfolding a int10_def by (intro exI [of _ a]) simp
qed

text \<open>A line end, and control goes to the ninth word of the stack.\<close>

lemma print_end_prints:
  assumes "stk s = [v1, v2, v3, v4, v5, v6, v7, v8, v9] @ r" "ucast (drop_bit 8 (reg_ax s)) = h"
  shows "print_end s = Some (v9, s\<lparr>reg_ax := v8, reg_cx := v7, reg_dx := v6, reg_bx := v5, reg_bp := v3, reg_si := v2, reg_di := v1, reg_sp := reg_sp s + 18, stk := r,
     video := video s @ [(h, 13, ucast (drop_bit 8 (reg_bx s))), (h, 10, ucast (drop_bit 8 (reg_bx s)))]\<rparr>)"
proof -
  obtain a where a: "int10 (set_al 13 s) = s\<lparr>reg_ax := a, video := video s @ [(h, 13, ucast (drop_bit 8 (reg_bx s)))]\<rparr>"
    "ucast (drop_bit 8 a) = h" using int10_al [of 13 s] assms(2) by auto
  obtain a' where "int10 (set_al 10 (int10 (set_al 13 s))) =
      s\<lparr>reg_ax := a', video := video s @ [(h, 13, ucast (drop_bit 8 (reg_bx s))), (h, 10, ucast (drop_bit 8 (reg_bx s)))]\<rparr>"
    unfolding a(1) using int10_al [of 10 "s\<lparr>reg_ax := a, video := video s @ [(h, 13, ucast (drop_bit 8 (reg_bx s)))]\<rparr>"] a(2) by auto
  then show ?thesis using assms(1) by (simp add: print_end_def popa_def pop_def ret_def add.assoc)
qed

text \<open>\<open>print_string\<close> prints the string and a line end, on the video page the high byte of its address names, and
  returns with every register as it was.\<close>

theorem print_string_prints:
  assumes "string_at ds (reg_bx s) cs" "stk s = ra # r"
  shows "print_string ds s = Some (ra, s\<lparr>reg_sp := reg_sp s + 2, stk := r,
     video := video s @ map (\<lambda>c. (0x0e, c, ucast (drop_bit 8 (reg_bx s)))) (cs @ [13, 10])\<rparr>)"
proof -
  let ?p = "(pusha s)\<lparr>reg_si := reg_bx s\<rparr>"
  have p: "pusha s = s\<lparr>reg_sp := reg_sp s - 16, stk := [reg_di s, reg_si s, reg_bp s, reg_sp s, reg_bx s, reg_dx s, reg_cx s, reg_ax s, ra] @ r\<rparr>"
    using assms(2) by (simp add: pusha_def push_def diff_diff_add)
  from print_loop_prints [of ds ?p cs] assms(1) obtain a where
    l: "print_loop ds ?p = Some (?p\<lparr>reg_ax := a, reg_si := reg_bx s + of_nat (length cs) + 1,
      video := video s @ map (\<lambda>c. (0x0e, c, ucast (drop_bit 8 (reg_bx s)))) cs\<rparr>)" "drop_bit 8 a = 0x0e" by (auto simp: p)
  let ?e = "?p\<lparr>reg_ax := a, reg_si := reg_bx s + of_nat (length cs) + 1, video := video s @ map (\<lambda>c. (0x0e, c, ucast (drop_bit 8 (reg_bx s)))) cs\<rparr>"
  have r: "print_string ds s = print_end ?e" using l(1) by (simp add: print_string_def Let_def p)
  have "stk ?e = [reg_di s, reg_si s, reg_bp s, reg_sp s, reg_bx s, reg_dx s, reg_cx s, reg_ax s, ra] @ r" "ucast (drop_bit 8 (reg_ax ?e)) = (0x0e :: uint8)"
    using l(2) by (simp_all add: p)
  note e = print_end_prints [OF this]
  show ?thesis unfolding r e by (simp add: p)
qed

section \<open>Printing a number\<close>

lemma print2_prints:
  "print2 ds s = Some (s\<lparr>video := video s @ [(0x0e, ds (reg_bx s), ucast (drop_bit 8 (reg_bx s)))]\<rparr>)"
proof -
  obtain a where "set_al (ds (reg_bx s)) (set_ah 0x0e (push (reg_ax s) s)) = (push (reg_ax s) s)\<lparr>reg_ax := a\<rparr>" "ucast a = ds (reg_bx s)" "drop_bit 8 a = 0x0e"
    using teletype_regs by blast
  then show ?thesis by (simp add: print2_def int10_def pop_def push_def)
qed

definition digit_call :: "(uint16 \<Rightarrow> uint8) \<Rightarrow> uint16 \<Rightarrow> uint8 \<times> uint8 \<times> uint8" where
  "digit_call ds p = (0x0e, ds p, ucast (drop_bit 8 p))"

lemma print_bits_prints:
  assumes "k + Suc m = 8" "reg_cx s = of_nat k"
  shows "print_bits (Suc m) ds er0 er1 s = Some (s\<lparr>reg_bx := (if bit (reg_ax s) 7 then er1 else er0), reg_cx := 8,
    video := video s @ map (\<lambda>i. digit_call ds (if bit (reg_ax s) i then er1 else er0)) [k..<8]\<rparr>)"
  using assms
proof (induction m arbitrary: k s)
  case 0
  then have "k = 7" by simp
  with 0 show ?case by (simp add: print2_prints digit_call_def)
next
  case (Suc m)
  then have k: "k < 7" "[k..<8] = k # [Suc k..<8]" by (simp_all add: upt_conv_Cons)
  have "unat (of_nat k :: uint16) = k" "unat (of_nat (Suc k) :: uint16) = Suc k" by (rule unat_of_nat_small, use k(1) in simp)+
  moreover have "reg_cx s + 1 = of_nat (Suc k)" unfolding Suc.prems(2) by (simp only: of_nat_Suc add.commute)
  ultimately have u: "unat (reg_cx s) = k" "unat (reg_cx s + 1) = Suc k" unfolding Suc.prems(2) by (simp_all add: add.commute)
  then have c: "reg_cx s + 1 < 8" using k(1) by (simp add: word_less_nat_alt)
  let ?s = "s\<lparr>reg_bx := (if bit (reg_ax s) k then er1 else er0),
    video := video s @ [digit_call ds (if bit (reg_ax s) k then er1 else er0)], reg_cx := reg_cx s + 1\<rparr>"
  have "print_bits (Suc (Suc m)) ds er0 er1 s = print_bits (Suc m) ds er0 er1 ?s"
    using u c k(1) by (subst print_bits.simps) (simp add: print2_prints digit_call_def del: print_bits.simps)
  also have "\<dots> = Some (?s\<lparr>reg_bx := (if bit (reg_ax s) 7 then er1 else er0), reg_cx := 8,
    video := video ?s @ map (\<lambda>i. digit_call ds (if bit (reg_ax s) i then er1 else er0)) [Suc k..<8]\<rparr>)"
  proof -
    have "Suc k + Suc m = 8" "reg_cx ?s = of_nat (Suc k)" using Suc.prems by simp_all
    from Suc.IH [OF this] show ?thesis by simp
  qed
  finally show ?case unfolding k(2) by simp
qed

text \<open>
  \<open>print_num\<close> prints the low byte of \<open>ax\<close>, least bit first, but does not come back: the \<open>popa\<close> after the line end takes
  what \<open>print_num\<close> and its caller had pushed, and \<open>ret\<close> the fifth word above the return address. The line end
  itself is asked for with the number's high byte in \<open>ah\<close>, whatever function of the BIOS that is.
\<close>

theorem print_num_loses_its_return:
  assumes "stk s = [ret_addr, u1, u2, u3, u4, u5] @ r" "u5 \<noteq> ra"
  shows "\<exists>t. print_num ds er0 er1 ra s = Some (u5, t) \<and> reg_ax t = u4 \<and> reg_sp t = reg_sp s + 12 \<and>
    video t = video s @ map (\<lambda>i. digit_call ds (if bit (reg_ax s) i then er1 else er0)) [0..<8] @
      (let page = ucast (drop_bit 8 (if bit (reg_ax s) 7 then er1 else er0)); h = ucast (drop_bit 8 (reg_ax s)) in [(h, 13, page), (h, 10, page)])"
proof -
  let ?s = "(push (reg_cx s) (push (reg_bx s) s))\<lparr>reg_cx := 0\<rparr>"
  have b: "print_bits 8 ds er0 er1 ?s = Some (?s\<lparr>reg_bx := (if bit (reg_ax s) 7 then er1 else er0), reg_cx := 8,
    video := video s @ map (\<lambda>i. digit_call ds (if bit (reg_ax s) i then er1 else er0)) [0..<8]\<rparr>)" (is "_ = Some ?t")
    using print_bits_prints [of 0 7 ?s] by (simp add: push_def eval_nat_numeral del: print_bits.simps upt_Suc)
  have k: "stk (push ra ?t) = [ra, reg_cx s, reg_bx s, ret_addr, u1, u2, u3, u4, u5] @ r" using assms(1) by (simp add: push_def)
  note e = print_end_prints [OF k refl]
  show ?thesis unfolding print_num_def Let_def b Option.bind.simps e using assms(2)
    by (simp add: push_def Let_def diff_diff_add)
qed

end
