(* ===== verification/Bit_Sets.thy ===== *)
theory Bit_Sets
  imports Prelude "HOL-Library.Signed_Division"
begin

text \<open>
  The sets of small numbers of the C library's headers: \<open>fd_set\<close> (\<open>sys/select.h\<close>), \<open>cpu_set_t\<close> (\<open>sched.h\<close>) and the
  byte arrays of \<open>sys/param.h\<close>. A set is its array of words; an access outside it is \<open>None\<close>. A number is
  the \<open>int\<close> it is in C: \<open>uint32\<close> here, read as signed where C does.
\<close>

section \<open>Bits of an array of words\<close>

definition bits_of :: "'a::len word list \<Rightarrow> nat set" where
  "bits_of ws = {i. i < LENGTH('a) * length ws \<and> bit (ws ! (i div LENGTH('a))) (i mod LENGTH('a))}"

text \<open>The word with one bit set.\<close>

definition one_bit :: "nat \<Rightarrow> 'a::len word" where
  "one_bit k = push_bit k 1"

lemma bit_one_bit [simp]: "bit (one_bit k :: 'a::len word) j \<longleftrightarrow> j = k \<and> k < LENGTH('a)"
  by (auto simp: one_bit_def bit_simps)

lemma div_bound: "i < LENGTH('a::len) * n \<Longrightarrow> i div LENGTH('a) < n"
  by (simp add: less_mult_imp_div_less mult.commute)

lemma bits_of_set:
  fixes ws :: "'a::len word list"
  assumes "i < LENGTH('a) * length ws"
  shows "bits_of (ws[i div LENGTH('a) := ws ! (i div LENGTH('a)) OR one_bit (i mod LENGTH('a))]) = insert i (bits_of ws)"
proof -
  have "j = i" if "j div LENGTH('a) = i div LENGTH('a)" "j mod LENGTH('a) = i mod LENGTH('a)" for j
    using that by (metis div_mult_mod_eq)
  then show ?thesis using assms div_bound [OF assms] by (auto simp: bits_of_def nth_list_update bit_simps)
qed

lemma bits_of_clear:
  fixes ws :: "'a::len word list"
  assumes "i < LENGTH('a) * length ws"
  shows "bits_of (ws[i div LENGTH('a) := ws ! (i div LENGTH('a)) AND NOT (one_bit (i mod LENGTH('a)))]) = bits_of ws - {i}"
proof -
  have "j = i" if "j div LENGTH('a) = i div LENGTH('a)" "j mod LENGTH('a) = i mod LENGTH('a)" for j
    using that by (metis div_mult_mod_eq)
  then show ?thesis using assms div_bound [OF assms] by (auto simp: bits_of_def nth_list_update bit_simps)
qed

lemma bits_of_test:
  fixes ws :: "'a::len word list"
  assumes "i < LENGTH('a) * length ws"
  shows "ws ! (i div LENGTH('a)) AND one_bit (i mod LENGTH('a)) \<noteq> 0 \<longleftrightarrow> i \<in> bits_of ws"
proof -
  have "ws ! (i div LENGTH('a)) AND one_bit (i mod LENGTH('a)) \<noteq> 0 \<longleftrightarrow> (\<exists>j. bit (ws ! (i div LENGTH('a)) AND one_bit (i mod LENGTH('a))) j)"
    using bit_eq_iff [of "ws ! (i div LENGTH('a)) AND one_bit (i mod LENGTH('a))" 0] by (auto dest: bit_imp_le_length)
  then show ?thesis using assms by (auto simp: bits_of_def bit_simps)
qed

section \<open>What the three have in common\<close>

text \<open>Operations that keep a set: numbers below \<open>room\<close> can be put in, taken out and asked for.\<close>

locale bit_set =
  fixes elems :: "'s \<Rightarrow> nat set" and room :: "'s \<Rightarrow> nat" and num :: "'i \<Rightarrow> nat"
    and put :: "'i \<Rightarrow> 's \<Rightarrow> 's option" and clear :: "'i \<Rightarrow> 's \<Rightarrow> 's option" and has :: "'i \<Rightarrow> 's \<Rightarrow> bool option"
  assumes put: "num i < room s \<Longrightarrow> \<exists>t. put i s = Some t \<and> elems t = insert (num i) (elems s) \<and> room t = room s"
    and clear: "num i < room s \<Longrightarrow> \<exists>t. clear i s = Some t \<and> elems t = elems s - {num i} \<and> room t = room s"
    and has: "num i < room s \<Longrightarrow> has i s = Some (num i \<in> elems s)"

text \<open>A history of insertions and removals, on the code's sets and on sets of numbers.\<close>

fun run_history :: "('i \<Rightarrow> 's \<Rightarrow> 's option) \<Rightarrow> ('i \<Rightarrow> 's \<Rightarrow> 's option) \<Rightarrow> (bool \<times> 'i) list \<Rightarrow> 's \<Rightarrow> 's option" where
  "run_history put clear [] s = Some s"
| "run_history put clear ((b, i) # h) s = do { s \<leftarrow> (if b then put i s else clear i s); run_history put clear h s }"

fun set_history :: "('i \<Rightarrow> nat) \<Rightarrow> (bool \<times> 'i) list \<Rightarrow> nat set \<Rightarrow> nat set" where
  "set_history num [] A = A"
| "set_history num ((b, i) # h) A = set_history num h (if b then insert (num i) A else A - {num i})"

context bit_set begin

lemma history:
  assumes "\<forall>(b, i) \<in> set h. num i < room s"
  shows "\<exists>t. run_history put clear h s = Some t \<and> elems t = set_history num h (elems s) \<and> room t = room s"
  using assms
proof (induction h arbitrary: s)
  case (Cons x h)
  obtain b i where x: "x = (b, i)" by fastforce
  then have i: "num i < room s" using Cons.prems by simp
  then obtain t where t: "(if b then put i s else clear i s) = Some t" "room t = room s"
    "elems t = (if b then insert (num i) (elems s) else elems s - {num i})" using put [OF i] clear [OF i] by (cases b) auto
  then show ?case using Cons.IH [of t] Cons.prems x by simp
qed simp

end

section \<open>fd\_set\<close>

definition FD_SETSIZE :: nat where
  "FD_SETSIZE = 1024"

type_synonym fd_set = "uint64 list"

definition fd_word :: "uint32 \<Rightarrow> nat" where
  "fd_word d = unat ((scast d :: uint64) div 64)"

definition fd_mask :: "uint32 \<Rightarrow> uint64" where
  "fd_mask d = one_bit (unat ((scast d :: uint64) mod 64))"

text \<open>The loop of \<open>FD_ZERO\<close>: \<open>i\<close> words are left, from word \<open>b\<close> on.\<close>

fun fd_zero_loop :: "nat \<Rightarrow> nat \<Rightarrow> fd_set \<Rightarrow> fd_set" where
  "fd_zero_loop 0 b s = s"
| "fd_zero_loop (Suc i) b s = fd_zero_loop i (b + 1) (s[b := 0])"

definition FD_ZERO :: "fd_set \<Rightarrow> fd_set" where
  "FD_ZERO s = fd_zero_loop (FD_SETSIZE div 8 div 8) 0 s"

definition FD_SET :: "uint32 \<Rightarrow> fd_set \<Rightarrow> fd_set option" where
  "FD_SET d s = (if fd_word d < length s then Some (s[fd_word d := s ! fd_word d OR fd_mask d]) else None)"

definition FD_CLR :: "uint32 \<Rightarrow> fd_set \<Rightarrow> fd_set option" where
  "FD_CLR d s = (if fd_word d < length s then Some (s[fd_word d := s ! fd_word d AND NOT (fd_mask d)]) else None)"

definition FD_ISSET :: "uint32 \<Rightarrow> fd_set \<Rightarrow> bool option" where
  "FD_ISSET d s = (if fd_word d < length s then Some (s ! fd_word d AND fd_mask d \<noteq> 0) else None)"

text \<open>An \<open>int\<close> that is not negative.\<close>

lemma sint_small:
  assumes "unat (d :: uint32) < 2 ^ 31"
  shows "sint d = int (unat d)"
proof -
  from assms have "int (unat d) < int (2 ^ 31)" by (rule iffD2 [OF of_nat_less_iff])
  then have "int (unat d) < 2 ^ 31" by (simp only: of_nat_power of_nat_numeral)
  then have "signed_take_bit 31 (int (unat d)) = int (unat d)" by (intro signed_take_bit_int_eq_self) linarith+
  then show ?thesis by (simp add: sint_uint)
qed

lemma scast_small:
  assumes "unat (d :: uint32) < 2 ^ 31"
  shows "unat (scast d :: uint64) = unat d"
proof -
  have "(scast d :: uint64) = word_of_int (sint d)" by (rule scast_eq)
  also have "\<dots> = word_of_int (int (unat d))" by (rule arg_cong [OF sint_small [OF assms]])
  also have "\<dots> = of_nat (unat d)" by (rule of_int_of_nat_eq)
  finally have e: "(scast d :: uint64) = of_nat (unat d)" .
  have "unat (of_nat (unat d) :: uint64) = unat d" by (rule unat_of_nat_small, rule less_trans [OF assms], simp)
  then show ?thesis by (rule trans [OF arg_cong [OF e]])
qed

lemma fd_place:
  assumes "unat d < FD_SETSIZE"
  shows "fd_word d = unat d div 64" "fd_mask d = one_bit (unat d mod 64)"
proof -
  have "unat (scast d :: uint64) = unat d" by (rule scast_small) (use assms in \<open>simp add: FD_SETSIZE_def\<close>)
  then show "fd_word d = unat d div 64" "fd_mask d = one_bit (unat d mod 64)"
    by (simp_all only: fd_word_def fd_mask_def unat_div unat_mod) simp_all
qed

definition fd_room :: "fd_set \<Rightarrow> nat" where
  "fd_room s = (if length s = 16 then FD_SETSIZE else 0)"

interpretation fd: bit_set bits_of fd_room "unat :: uint32 \<Rightarrow> nat" FD_SET FD_CLR FD_ISSET
proof
  fix d :: uint32 and s :: fd_set
  assume d: "unat d < fd_room s"
  then have r: "unat d < FD_SETSIZE" "length s = 16" by (auto simp: fd_room_def split: if_splits)
  then have l: "unat d < LENGTH(64) * length s" "unat d div 64 < 16" by (simp_all add: FD_SETSIZE_def less_mult_imp_div_less)
  note p = fd_place [OF r(1)]
  show "\<exists>t. FD_SET d s = Some t \<and> bits_of t = insert (unat d) (bits_of s) \<and> fd_room t = fd_room s"
    using bits_of_set [OF l(1)] l(2) by (simp add: FD_SET_def p r(2) fd_room_def)
  show "\<exists>t. FD_CLR d s = Some t \<and> bits_of t = bits_of s - {unat d} \<and> fd_room t = fd_room s"
    using bits_of_clear [OF l(1)] l(2) by (simp add: FD_CLR_def p r(2) fd_room_def)
  show "FD_ISSET d s = Some (unat d \<in> bits_of s)"
    using bits_of_test [OF l(1)] l(2) by (simp add: FD_ISSET_def p r(2))
qed

lemma fd_zero_loop: "fd_zero_loop n b s = take b s @ replicate (min n (length s - b)) 0 @ drop (b + n) s"
proof (induction n arbitrary: b s)
  case (Suc n)
  show ?case
  proof (cases "b < length s")
    case True
    then have "fd_zero_loop (Suc n) b s = take (b + 1) (s[b := 0]) @ replicate (min n (length s - (b + 1))) 0 @ drop (b + 1 + n) (s[b := 0])"
      by (simp add: Suc.IH)
    moreover have "take (b + 1) (s[b := 0]) = take b s @ [0]" using True by (simp add: take_Suc_conv_app_nth)
    moreover have "min (Suc n) (length s - b) = Suc (min n (length s - (b + 1)))" using True by simp
    ultimately show ?thesis using True by (simp only: replicate_Suc) simp
  next
    case False
    then show ?thesis by (simp add: Suc.IH list_update_beyond)
  qed
qed simp

lemma FD_ZERO_empty: "length s = 16 \<Longrightarrow> FD_ZERO s = replicate 16 0"
  by (simp add: FD_ZERO_def FD_SETSIZE_def fd_zero_loop)

lemma bits_of_zero: "bits_of (replicate n 0 :: 'a::len word list) = {}"
  by (auto simp: bits_of_def div_bound)

text \<open>
  A descriptor set is a set of descriptors: after \<open>FD_ZERO\<close> and any sequence of \<open>FD_SET\<close> and \<open>FD_CLR\<close> on
  descriptors below \<open>FD_SETSIZE\<close>, none of which writes outside the array, \<open>FD_ISSET\<close> says of every such
  descriptor whether it was put in and not taken out since.
\<close>

theorem fd_set_history:
  assumes "length s = 16" "\<forall>(b, d) \<in> set h. unat d < FD_SETSIZE" "unat d < FD_SETSIZE"
  shows "\<exists>t. run_history FD_SET FD_CLR h (FD_ZERO s) = Some t \<and> length t = 16 \<and>
    FD_ISSET d t = Some (unat d \<in> set_history unat h {})"
proof -
  have z: "fd_room (FD_ZERO s) = FD_SETSIZE" "bits_of (FD_ZERO s) = {}" using assms(1) by (simp_all add: FD_ZERO_empty fd_room_def bits_of_zero)
  then obtain t where t: "run_history FD_SET FD_CLR h (FD_ZERO s) = Some t" "bits_of t = set_history unat h {}" "fd_room t = FD_SETSIZE"
    using fd.history [of h "FD_ZERO s"] assms(2) by auto
  have "length t = 16" using t(3) by (simp add: fd_room_def FD_SETSIZE_def split: if_splits)
  moreover have "FD_ISSET d t = Some (unat d \<in> bits_of t)" by (rule fd.has) (use t(3) assms(3) in simp)
  ultimately show ?thesis using t(1,2) by simp
qed

theorem fd_set_history_witness:
  "\<exists>t. run_history FD_SET FD_CLR [(True, 3), (True, 1023), (False, 3)] (FD_ZERO (replicate 16 7)) = Some t \<and>
     FD_ISSET 1023 t = Some True"
  using fd_set_history [of "replicate 16 7" "[(True, 3), (True, 1023), (False, 3)]" 1023] by (auto simp: FD_SETSIZE_def)

section \<open>cpu\_set\_t\<close>

text \<open>
  \<open>__CPU_op_S\<close>: 0 for a processor beyond \<open>size\<close> bytes, otherwise the value of the operation and the set after it.
  The three operations store \<open>x op mask\<close> (\<open>CPU_SET_S\<close>, \<open>CPU_CLR_S\<close>) or only compute it (\<open>CPU_ISSET_S\<close>).
\<close>

definition cpu_word :: "uint32 \<Rightarrow> nat" where
  "cpu_word i = unat ((word_of_int (sint i sdiv 8) :: uint64) div 8)"

definition CPU_SET_S :: "uint32 \<Rightarrow> uint64 \<Rightarrow> uint64 list \<Rightarrow> (uint64 \<times> uint64 list) option" where
  "CPU_SET_S i sz s =
     (if sz \<le> ucast (i div 8) then Some (0, s)
      else if cpu_word i < length s then
        (let x = s ! cpu_word i OR fd_mask i in Some (x, s[cpu_word i := x]))
      else None)"

definition CPU_CLR_S :: "uint32 \<Rightarrow> uint64 \<Rightarrow> uint64 list \<Rightarrow> (uint64 \<times> uint64 list) option" where
  "CPU_CLR_S i sz s =
     (if sz \<le> ucast (i div 8) then Some (0, s)
      else if cpu_word i < length s then
        (let x = s ! cpu_word i AND NOT (fd_mask i) in Some (x, s[cpu_word i := x]))
      else None)"

definition CPU_ISSET_S :: "uint32 \<Rightarrow> uint64 \<Rightarrow> uint64 list \<Rightarrow> uint64 option" where
  "CPU_ISSET_S i sz s =
     (if sz \<le> ucast (i div 8) then Some 0
      else if cpu_word i < length s then Some (s ! cpu_word i AND fd_mask i) else None)"

definition CPU_SET :: "uint32 \<Rightarrow> uint64 list \<Rightarrow> (uint64 \<times> uint64 list) option" where
  "CPU_SET i s = CPU_SET_S i 128 s"

definition CPU_CLR :: "uint32 \<Rightarrow> uint64 list \<Rightarrow> (uint64 \<times> uint64 list) option" where
  "CPU_CLR i s = CPU_CLR_S i 128 s"

definition CPU_ISSET :: "uint32 \<Rightarrow> uint64 list \<Rightarrow> uint64 option" where
  "CPU_ISSET i s = CPU_ISSET_S i 128 s"

text \<open>The three loops \<open>__CPU_AND_S\<close>, \<open>__CPU_OR_S\<close>, \<open>__CPU_XOR_S\<close>, on named arrays, of which some may be the same.\<close>

function cpu_op_loop :: "(uint64 \<Rightarrow> uint64 \<Rightarrow> uint64) \<Rightarrow> nat \<Rightarrow> nat \<Rightarrow> nat \<Rightarrow> nat \<Rightarrow> nat \<Rightarrow> (nat \<Rightarrow> uint64 list) \<Rightarrow> (nat \<Rightarrow> uint64 list) option" where
  "cpu_op_loop oper i n dest src1 src2 h =
     (if i < n then
        if i < length (h dest) \<and> i < length (h src1) \<and> i < length (h src2)
        then cpu_op_loop oper (i + 1) n dest src1 src2 (h(dest := (h dest)[i := oper (h src1 ! i) (h src2 ! i)]))
        else None
      else Some h)"
  by pat_completeness auto
termination
  by (relation "measure (\<lambda>(oper, i, n, dest, src1, src2, h). n - i)") auto

declare cpu_op_loop.simps [simp del]

definition CPU_AND_S :: "uint64 \<Rightarrow> nat \<Rightarrow> nat \<Rightarrow> nat \<Rightarrow> (nat \<Rightarrow> uint64 list) \<Rightarrow> (nat \<Rightarrow> uint64 list) option" where
  "CPU_AND_S sz dest src1 src2 h = cpu_op_loop (AND) 0 (unat (sz div 8)) dest src1 src2 h"

definition CPU_OR_S :: "uint64 \<Rightarrow> nat \<Rightarrow> nat \<Rightarrow> nat \<Rightarrow> (nat \<Rightarrow> uint64 list) \<Rightarrow> (nat \<Rightarrow> uint64 list) option" where
  "CPU_OR_S sz dest src1 src2 h = cpu_op_loop (OR) 0 (unat (sz div 8)) dest src1 src2 h"

definition CPU_XOR_S :: "uint64 \<Rightarrow> nat \<Rightarrow> nat \<Rightarrow> nat \<Rightarrow> (nat \<Rightarrow> uint64 list) \<Rightarrow> (nat \<Rightarrow> uint64 list) option" where
  "CPU_XOR_S sz dest src1 src2 h = cpu_op_loop (XOR) 0 (unat (sz div 8)) dest src1 src2 h"

definition CPU_ALLOC_SIZE :: "uint64 \<Rightarrow> uint64" where
  "CPU_ALLOC_SIZE n = 8 * (n div 64 + (n mod 64 + 64 - 1) div 64)"

lemma sdiv_nat: "int n sdiv 8 = int (n div 8)"
  by (cases "n = 0") (simp_all add: signed_divide_int_def zdiv_int)

lemma cpu_place:
  assumes "unat i < 1024"
  shows "cpu_word i = unat i div 64" "fd_mask i = one_bit (unat i mod 64)" "\<not> 128 \<le> (ucast (i div 8) :: uint64)"
proof -
  have s: "sint i = int (unat i)" by (rule sint_small, rule less_trans [OF assms], simp)
  have "sint i sdiv 8 = int (unat i div 8)" unfolding s by (rule sdiv_nat)
  moreover have "unat (of_nat (unat i div 8) :: uint64) = unat i div 8" by (rule unat_of_nat_small) (use assms in simp)
  ultimately have "unat (word_of_int (sint i sdiv 8) :: uint64) = unat i div 8" by (metis of_int_of_nat_eq)
  then show "cpu_word i = unat i div 64" by (simp add: cpu_word_def unat_div div_mult2_eq [symmetric])
  show "fd_mask i = one_bit (unat i mod 64)" by (rule fd_place(2)) (use assms in \<open>simp add: FD_SETSIZE_def\<close>)
  have "unat (i div 8) = unat i div 8" by (simp add: unat_div)
  moreover have "unat (ucast (i div 8) :: uint64) = unat (i div 8)" by (rule unsigned_ucast_eq [THEN trans], rule take_bit_nat_eq_self) (use assms in \<open>simp add: unat_div\<close>)
  ultimately show "\<not> 128 \<le> (ucast (i div 8) :: uint64)" using assms by (simp add: word_le_nat_alt)
qed

definition cpu_room :: "uint64 list \<Rightarrow> nat" where
  "cpu_room s = (if length s = 16 then 1024 else 0)"

interpretation cpus: bit_set bits_of cpu_room "unat :: uint32 \<Rightarrow> nat" "\<lambda>i s. map_option snd (CPU_SET i s)"
  "\<lambda>i s. map_option snd (CPU_CLR i s)" "\<lambda>i s. map_option (\<lambda>x. x \<noteq> 0) (CPU_ISSET i s)"
proof
  fix i :: uint32 and s :: "uint64 list"
  assume d: "unat i < cpu_room s"
  then have r: "unat i < 1024" "length s = 16" by (auto simp: cpu_room_def split: if_splits)
  then have l: "unat i < LENGTH(64) * length s" "unat i div 64 < 16" by (simp_all add: less_mult_imp_div_less)
  note p = cpu_place [OF r(1)]
  show "\<exists>t. map_option snd (CPU_SET i s) = Some t \<and> bits_of t = insert (unat i) (bits_of s) \<and> cpu_room t = cpu_room s"
    using bits_of_set [OF l(1)] l(2) p(3) by (simp add: CPU_SET_def CPU_SET_S_def Let_def p(1,2) r(2) cpu_room_def)
  show "\<exists>t. map_option snd (CPU_CLR i s) = Some t \<and> bits_of t = bits_of s - {unat i} \<and> cpu_room t = cpu_room s"
    using bits_of_clear [OF l(1)] l(2) p(3) by (simp add: CPU_CLR_def CPU_CLR_S_def Let_def p(1,2) r(2) cpu_room_def)
  show "map_option (\<lambda>x. x \<noteq> 0) (CPU_ISSET i s) = Some (unat i \<in> bits_of s)"
    using bits_of_test [OF l(1)] l(2) p(3) by (simp add: CPU_ISSET_def CPU_ISSET_S_def p(1,2) r(2))
qed

text \<open>Beyond the set nothing is read or written, whatever \<open>int\<close> is asked for: unlike \<open>FD_SET\<close>.\<close>

lemma cpu_out_of_range:
  assumes "1024 \<le> unat i"
  shows "CPU_SET i s = Some (0, s)" "CPU_CLR i s = Some (0, s)" "CPU_ISSET i s = Some 0"
proof -
  have "unat (ucast (i div 8) :: uint64) = unat (i div 8)"
    by (rule unsigned_ucast_eq [THEN trans], rule take_bit_nat_eq_self, rule less_trans [OF unat_lt32], simp)
  then have "(128 :: uint64) \<le> ucast (i div 8)" using assms by (simp add: word_le_nat_alt unat_div)
  then show "CPU_SET i s = Some (0, s)" "CPU_CLR i s = Some (0, s)" "CPU_ISSET i s = Some 0"
    by (simp_all add: CPU_SET_def CPU_SET_S_def CPU_CLR_def CPU_CLR_S_def CPU_ISSET_def CPU_ISSET_S_def)
qed

lemma FD_SET_out_of_range: "length s \<le> fd_word d \<Longrightarrow> FD_SET d s = None"
  by (simp add: FD_SET_def)

lemma cpu_op_loop_result:
  assumes "n \<le> length (h dest)" "n \<le> length (h src1)" "n \<le> length (h src2)"
  shows "cpu_op_loop oper i n dest src1 src2 h = Some (h(dest :=
    map (\<lambda>k. if i \<le> k \<and> k < n then oper (h src1 ! k) (h src2 ! k) else h dest ! k) [0..<length (h dest)]))"
  using assms
proof (induction oper i n dest src1 src2 h rule: cpu_op_loop.induct)
  case (1 oper i n dest src1 src2 h)
  show ?case
  proof (cases "i < n")
    case True
    let ?h = "h(dest := (h dest)[i := oper (h src1 ! i) (h src2 ! i)])"
    have l: "length (?h x) = length (h x)" for x by simp
    have "cpu_op_loop oper i n dest src1 src2 h = cpu_op_loop oper (i + 1) n dest src1 src2 ?h"
      using True "1.prems" by (subst cpu_op_loop.simps) simp
    also have "\<dots> = Some (?h(dest :=
      map (\<lambda>k. if i + 1 \<le> k \<and> k < n then oper (?h src1 ! k) (?h src2 ! k) else ?h dest ! k) [0..<length (?h dest)]))"
      by (rule "1.IH" [OF True]) (use True "1.prems" l in auto)
    also have "\<dots> = Some (h(dest :=
      map (\<lambda>k. if i \<le> k \<and> k < n then oper (h src1 ! k) (h src2 ! k) else h dest ! k) [0..<length (h dest)]))"
      using True by (auto simp: fun_eq_iff nth_list_update not_less_eq_eq)
    finally show ?thesis .
  next
    case False
    then have "map (\<lambda>k. if i \<le> k \<and> k < n then oper (h src1 ! k) (h src2 ! k) else h dest ! k) [0..<length (h dest)] = h dest"
      by (intro nth_equalityI) auto
    then show ?thesis using False by (subst cpu_op_loop.simps) simp
  qed
qed

text \<open>The loops compute intersection, union and symmetric difference, also into one of their operands.\<close>

theorem cpu_sets_combine:
  assumes "length (h dest) = 16" "length (h src1) = 16" "length (h src2) = 16"
  shows "\<exists>t. CPU_AND_S 128 dest src1 src2 h = Some (h(dest := t)) \<and> bits_of t = bits_of (h src1) \<inter> bits_of (h src2)"
    "\<exists>t. CPU_OR_S 128 dest src1 src2 h = Some (h(dest := t)) \<and> bits_of t = bits_of (h src1) \<union> bits_of (h src2)"
    "\<exists>t. CPU_XOR_S 128 dest src1 src2 h = Some (h(dest := t)) \<and>
       bits_of t = bits_of (h src1) - bits_of (h src2) \<union> (bits_of (h src2) - bits_of (h src1))"
proof -
  have n: "unat ((128 :: uint64) div 8) = 16" by simp
  have r: "cpu_op_loop oper 0 16 dest src1 src2 h = Some (h(dest := map (\<lambda>k. oper (h src1 ! k) (h src2 ! k)) [0..<16]))" for oper
  proof -
    have "map (\<lambda>k. if 0 \<le> k \<and> k < 16 then oper (h src1 ! k) (h src2 ! k) else h dest ! k) [0..<16] = map (\<lambda>k. oper (h src1 ! k) (h src2 ! k)) [0..<16]"
      by (rule map_cong [OF refl]) simp
    then show ?thesis using cpu_op_loop_result [of 16 h dest src1 src2 oper 0] assms by (simp only: order.refl)
  qed
  have b: "bits_of (map (\<lambda>k. oper (h src1 ! k) (h src2 ! k)) [0..<16]) = {i. i < 1024 \<and> bit (oper (h src1 ! (i div 64)) (h src2 ! (i div 64))) (i mod 64)}"
    for oper :: "uint64 \<Rightarrow> uint64 \<Rightarrow> uint64"
    by (auto simp: bits_of_def less_mult_imp_div_less simp del: upt_Suc)
  note d = bits_of_def [of "h src1"] bits_of_def [of "h src2"]
  show "\<exists>t. CPU_AND_S 128 dest src1 src2 h = Some (h(dest := t)) \<and> bits_of t = bits_of (h src1) \<inter> bits_of (h src2)"
    unfolding CPU_AND_S_def n r by (intro exI conjI, rule refl, unfold b d) (auto simp: assms bit_simps)
  show "\<exists>t. CPU_OR_S 128 dest src1 src2 h = Some (h(dest := t)) \<and> bits_of t = bits_of (h src1) \<union> bits_of (h src2)"
    unfolding CPU_OR_S_def n r by (intro exI conjI, rule refl, unfold b d) (auto simp: assms bit_simps)
  show "\<exists>t. CPU_XOR_S 128 dest src1 src2 h = Some (h(dest := t)) \<and>
       bits_of t = bits_of (h src1) - bits_of (h src2) \<union> (bits_of (h src2) - bits_of (h src1))"
    unfolding CPU_XOR_S_def n r by (intro exI conjI, rule refl, unfold b d) (auto simp: assms bit_simps)
qed

text \<open>\<open>CPU_ALLOC_SIZE\<close> is the least multiple of a word that has a bit for each of \<open>n\<close> processors.\<close>

lemma ceil_div_64: "m div 64 + (m mod 64 + 63) div 64 = (m + 63 :: nat) div 64"
proof -
  have "m + 63 = (m mod 64 + 63) + (m div 64) * 64" using div_mult_mod_eq [of m 64] by linarith
  then have "(m + 63) div 64 = ((m mod 64 + 63) + (m div 64) * 64) div 64" by (rule arg_cong)
  also have "\<dots> = m div 64 + (m mod 64 + 63) div 64" by (rule div_mult_self1) simp
  finally show ?thesis by simp
qed

lemma CPU_ALLOC_SIZE_least:
  assumes "unat n < 2 ^ 32"
  shows "unat (CPU_ALLOC_SIZE n) = 8 * ((unat n + 63) div 64)"
proof -
  have a: "unat (n mod 64 + 64 - 1) = unat n mod 64 + 63"
  proof -
    have e: "n mod 64 + 64 - 1 = n mod 64 + 63" by simp
    have m: "unat (n mod 64) = unat n mod 64" by (simp add: unat_mod)
    have "unat n mod 64 < 64" by simp
    then have "unat (n mod 64) + unat (63 :: uint64) < 2 ^ LENGTH(64)" unfolding m by simp
    then show ?thesis unfolding e using unat_add_no_wrap [of "n mod 64" 63] m by (simp only:) simp
  qed
  have "unat (n div 64) = unat n div 64" "unat ((n mod 64 + 64 - 1) div 64) = (unat n mod 64 + 63) div 64"
    using a by (simp_all only: unat_div) simp_all
  moreover have c: "unat n div 64 + (unat n mod 64 + 63) div 64 = (unat n + 63) div 64" by (rule ceil_div_64)
  moreover have "unat n div 64 + (unat n mod 64 + 63) div 64 < 2 ^ 32"
    unfolding c using assms by (simp add: less_mult_imp_div_less)
  ultimately have s: "unat (n div 64 + (n mod 64 + 64 - 1) div 64) = (unat n + 63) div 64" "(unat n + 63) div 64 < 2 ^ 32"
    using unat_add_no_wrap [of "n div 64" "(n mod 64 + 64 - 1) div 64"] by simp_all
  show ?thesis unfolding CPU_ALLOC_SIZE_def using unat_mult_no_wrap [of 8 "n div 64 + (n mod 64 + 64 - 1) div 64"] s by simp
qed

section \<open>The bits of param.h\<close>

definition setbit :: "uint8 list \<Rightarrow> uint32 \<Rightarrow> uint8 list option" where
  "setbit x i = (if 0 \<le> sint i \<and> nat (sint i div 8) < length x
     then Some (x[nat (sint i div 8) := x ! nat (sint i div 8) OR one_bit (nat (sint i mod 8))]) else None)"

definition clrbit :: "uint8 list \<Rightarrow> uint32 \<Rightarrow> uint8 list option" where
  "clrbit x i = (if 0 \<le> sint i \<and> nat (sint i div 8) < length x
     then Some (x[nat (sint i div 8) := x ! nat (sint i div 8) AND NOT (one_bit (nat (sint i mod 8)))]) else None)"

definition isset :: "uint8 list \<Rightarrow> uint32 \<Rightarrow> uint8 option" where
  "isset x i = (if 0 \<le> sint i \<and> nat (sint i div 8) < length x
     then Some (x ! nat (sint i div 8) AND one_bit (nat (sint i mod 8))) else None)"

definition isclr :: "uint8 list \<Rightarrow> uint32 \<Rightarrow> bool option" where
  "isclr x i = map_option (\<lambda>v. v = 0) (isset x i)"

definition param_room :: "uint8 list \<Rightarrow> nat" where
  "param_room x = min (8 * length x) (2 ^ 31)"

interpretation param: bit_set bits_of param_room "unat :: uint32 \<Rightarrow> nat" "\<lambda>i x. setbit x i" "\<lambda>i x. clrbit x i"
  "\<lambda>i x. map_option Not (isclr x i)"
proof
  fix i :: uint32 and x :: "uint8 list"
  assume "unat i < param_room x"
  then have l: "unat i < LENGTH(8) * length x" "unat i < 2 ^ 31" "unat i div 8 < length x"
    by (simp_all add: param_room_def less_mult_imp_div_less)
  have s: "sint i = int (unat i)" by (rule sint_small [OF l(2)])
  have p: "0 \<le> sint i" "nat (sint i div 8) = unat i div 8" "nat (sint i mod 8) = unat i mod 8"
    unfolding s by (simp_all add: nat_div_distrib nat_mod_distrib)
  show "\<exists>t. setbit x i = Some t \<and> bits_of t = insert (unat i) (bits_of x) \<and> param_room t = param_room x"
    using bits_of_set [OF l(1)] l(3) p(1) by (simp add: setbit_def p(2,3) param_room_def)
  show "\<exists>t. clrbit x i = Some t \<and> bits_of t = bits_of x - {unat i} \<and> param_room t = param_room x"
    using bits_of_clear [OF l(1)] l(3) p(1) by (simp add: clrbit_def p(2,3) param_room_def)
  show "map_option Not (isclr x i) = Some (unat i \<in> bits_of x)"
    using bits_of_test [OF l(1)] l(3) p(1) by (simp add: isclr_def isset_def p(2,3))
qed

end
