(* ===== verification/Libc_Macros.thy ===== *)
theory Libc_Macros
  imports Prelude
begin

text \<open>
  The inline functions and macros of the C library's headers (\<open>include/libc\<close>) that compute: byte order, device
  numbers, wait statuses, time intervals, character and number classes, addresses. \<open>int\<close> is
  \<open>uint32\<close> here, \<open>unsigned long\<close> and \<open>unsigned long long\<close> \<open>uint64\<close>.
\<close>

lemma byte_masks:
  "(0xff00 :: uint32) = push_bit 8 (mask 8)" "(0xff0000 :: uint32) = push_bit 16 (mask 8)" "(0xfffff000 :: uint64) = push_bit 12 (mask 20)"
  "(0xffffff00 :: uint64) = push_bit 8 (mask 24)" "(0xfff :: uint64) = mask 12" "(0xff :: uint64) = mask 8" "(0x7f :: uint32) = mask 7"
  "(0xffff :: uint32) = mask 16"
  by (simp_all add: mask_eq_exp_minus_1 push_bit_eq_mult)

section \<open>Byte order\<close>

definition bswap16 :: "uint16 \<Rightarrow> uint16" where
  "bswap16 x = push_bit 8 x OR drop_bit 8 x"

definition bswap32 :: "uint32 \<Rightarrow> uint32" where
  "bswap32 x = drop_bit 24 x OR (drop_bit 8 x AND 0xff00) OR (push_bit 8 x AND 0xff0000) OR push_bit 24 x"

definition bswap64 :: "uint64 \<Rightarrow> uint64" where
  "bswap64 x = push_bit 32 (ucast (bswap32 (ucast x)) + 0) OR ucast (bswap32 (ucast (drop_bit 32 x)))"

definition htobe16 :: "uint16 \<Rightarrow> uint16" where
  "htobe16 x = bswap16 x"

definition htobe32 :: "uint32 \<Rightarrow> uint32" where
  "htobe32 x = bswap32 x"

definition htobe64 :: "uint64 \<Rightarrow> uint64" where
  "htobe64 x = bswap64 x"

text \<open>The same functions in \<open>byteswap.h\<close>.\<close>

definition bswap_16 :: "uint16 \<Rightarrow> uint16" where
  "bswap_16 x = push_bit 8 x OR drop_bit 8 x"

definition bswap_32 :: "uint32 \<Rightarrow> uint32" where
  "bswap_32 x = drop_bit 24 x OR (drop_bit 8 x AND 0xff00) OR (push_bit 8 x AND 0xff0000) OR push_bit 24 x"

definition bswap_64 :: "uint64 \<Rightarrow> uint64" where
  "bswap_64 x = push_bit 32 (ucast (bswap_32 (ucast x)) + 0) OR ucast (bswap_32 (ucast (drop_bit 32 x)))"

text \<open>The bytes of a word, lowest first.\<close>

definition word_bytes :: "nat \<Rightarrow> 'a::len word \<Rightarrow> uint8 list" where
  "word_bytes n x = map (\<lambda>i. ucast (drop_bit (8 * i) x)) [0..<n]"

lemma bswap16_reverses: "word_bytes 2 (bswap16 x) = rev (word_bytes 2 x)"
proof -
  have "ucast (bswap16 x) = (ucast (drop_bit 8 x) :: uint8)" "ucast (drop_bit 8 (bswap16 x)) = (ucast x :: uint8)"
    unfolding bswap16_def by (rule bit_word_eqI; auto simp: bit_simps dest: bit_imp_le_length)+
  then show ?thesis by (simp add: word_bytes_def numeral_2_eq_2)
qed

lemma bswap32_bytes:
  "ucast (bswap32 x) = (ucast (drop_bit 24 x) :: uint8)" "ucast (drop_bit 8 (bswap32 x)) = (ucast (drop_bit 16 x) :: uint8)"
  "ucast (drop_bit 16 (bswap32 x)) = (ucast (drop_bit 8 x) :: uint8)" "ucast (drop_bit 24 (bswap32 x)) = (ucast x :: uint8)"
  unfolding bswap32_def byte_masks by (rule bit_word_eqI; auto simp: bit_simps dest: bit_imp_le_length)+

lemma four_bytes: "word_bytes 4 x = [ucast x, ucast (drop_bit 8 x), ucast (drop_bit 16 x), ucast (drop_bit 24 x)]"
  by (simp add: word_bytes_def eval_nat_numeral)

lemma bswap32_reverses: "word_bytes 4 (bswap32 x) = rev (word_bytes 4 x)"
  by (simp add: four_bytes bswap32_bytes)

lemma eight_bytes:
  "word_bytes 8 (x :: uint64) = word_bytes 4 (ucast x :: uint32) @ word_bytes 4 (ucast (drop_bit 32 x) :: uint32)"
proof -
  have "ucast (drop_bit k x) = (ucast (drop_bit k (ucast x :: uint32)) :: uint8)" if "k \<le> 24" for k
    by (rule bit_word_eqI) (use that in \<open>auto simp: bit_simps\<close>)
  moreover have "ucast (drop_bit (32 + k) x) = (ucast (drop_bit k (ucast (drop_bit 32 x) :: uint32)) :: uint8)" if "k \<le> 24" for k
    by (rule bit_word_eqI) (use that in \<open>auto simp: bit_simps ac_simps\<close>)
  from this [of 0] this [of 8] this [of 16] this [of 24] calculation [of 0] calculation [of 8] calculation [of 16] calculation [of 24]
  show ?thesis by (simp add: four_bytes) (simp add: word_bytes_def eval_nat_numeral)
qed

lemma bswap64_halves: "ucast (bswap64 x) = bswap32 (ucast (drop_bit 32 x))" "ucast (drop_bit 32 (bswap64 x)) = bswap32 (ucast x)"
  unfolding bswap64_def by (rule bit_word_eqI; auto simp: bit_simps dest: bit_imp_le_length)+

text \<open>\<open>bswap64\<close> reverses the bytes of a word.\<close>

theorem bswap64_reverses: "word_bytes 8 (bswap64 x) = rev (word_bytes 8 x)"
  by (simp add: eight_bytes bswap64_halves bswap32_reverses)

lemma byteswap_h: "bswap_16 = bswap16" "bswap_32 = bswap32" "bswap_64 = bswap64"
  by (simp_all add: fun_eq_iff bswap_16_def bswap16_def bswap_32_def bswap32_def bswap_64_def bswap64_def)

section \<open>Device numbers\<close>

definition dev_major :: "uint64 \<Rightarrow> uint32" where
  "dev_major x = ucast ((drop_bit 1 (drop_bit 31 x) AND 0xfffff000) OR (drop_bit 8 x AND 0x00000fff))"

definition dev_minor :: "uint64 \<Rightarrow> uint32" where
  "dev_minor x = ucast ((drop_bit 12 x AND 0xffffff00) OR (x AND 0x000000ff))"

definition makedev :: "uint32 \<Rightarrow> uint32 \<Rightarrow> uint64" where
  "makedev x y = push_bit 32 (ucast x AND 0xfffff000) OR push_bit 8 (ucast x AND 0x00000fff) OR
     push_bit 12 (ucast y AND 0xffffff00) OR (ucast y AND 0x000000ff)"

text \<open>A device number is its two parts, and the parts are any two words.\<close>

lemma bit_dev_major: "bit (dev_major d) n \<longleftrightarrow> n < 32 \<and> bit d (if n < 12 then n + 8 else n + 32)"
  unfolding dev_major_def byte_masks by (auto simp: bit_simps ac_simps)

lemma bit_dev_minor: "bit (dev_minor d) n \<longleftrightarrow> n < 32 \<and> bit d (if n < 8 then n else n + 12)"
  unfolding dev_minor_def byte_masks by (auto simp: bit_simps ac_simps)

lemma bit_makedev:
  "bit (makedev x y) n \<longleftrightarrow> n < 64 \<and> (if n < 8 then bit y n else if n < 20 then bit x (n - 8) else if n < 44 then bit y (n - 12) else bit x (n - 32))"
  unfolding makedev_def byte_masks by (auto simp: bit_simps dest: bit_imp_le_length)

theorem device_roundtrip:
  "dev_major (makedev x y) = x" "dev_minor (makedev x y) = y" "makedev (dev_major d) (dev_minor d) = d"
proof -
  show "dev_major (makedev x y) = x" "dev_minor (makedev x y) = y"
    by (rule bit_word_eqI; simp add: bit_dev_major bit_dev_minor bit_makedev)+
  show "makedev (dev_major d) (dev_minor d) = d"
  proof (rule bit_word_eqI)
    fix n assume n: "n < LENGTH(64)"
    consider "n < 8" | "8 \<le> n" "n < 20" | "20 \<le> n" "n < 44" | "44 \<le> n" by linarith
    then show "bit (makedev (dev_major d) (dev_minor d)) n \<longleftrightarrow> bit d n"
    proof cases
      case 2
      then have "n = (n - 8) + 8" "n - 8 < 12" by linarith+
      then obtain k where "n = k + 8" "k < 12" by blast
      then show ?thesis by (simp add: bit_dev_major bit_makedev)
    next
      case 3
      then have "n = (n - 12) + 12" "8 \<le> n - 12" "n - 12 < 32" by linarith+
      then obtain k where "n = k + 12" "8 \<le> k" "k < 32" by blast
      then show ?thesis by (simp add: bit_dev_minor bit_makedev)
    next
      case 4
      then have "n = (n - 32) + 32" "12 \<le> n - 32" "n - 32 < 32" using n by simp_all
      then obtain k where "n = k + 32" "12 \<le> k" "k < 32" by blast
      then show ?thesis by (simp add: bit_dev_major bit_makedev)
    qed (simp add: bit_dev_minor bit_makedev)
  qed
qed

section \<open>Wait statuses\<close>

definition WEXITSTATUS :: "uint32 \<Rightarrow> uint32" where
  "WEXITSTATUS s = drop_bit 8 (s AND 0xff00)"

definition WTERMSIG :: "uint32 \<Rightarrow> uint32" where
  "WTERMSIG s = s AND 0x7f"

definition WSTOPSIG :: "uint32 \<Rightarrow> uint32" where
  "WSTOPSIG s = WEXITSTATUS s"

definition WCOREDUMP :: "uint32 \<Rightarrow> uint32" where
  "WCOREDUMP s = s AND 0x80"

definition WIFEXITED :: "uint32 \<Rightarrow> bool" where
  "WIFEXITED s \<longleftrightarrow> WTERMSIG s = 0"

definition WIFSTOPPED :: "uint32 \<Rightarrow> bool" where
  "WIFSTOPPED s \<longleftrightarrow> 0x7f00 < sint (ucast (drop_bit 8 ((s AND 0xffff) * 0x10001)) :: uint16)"

definition WIFSIGNALED :: "uint32 \<Rightarrow> bool" where
  "WIFSIGNALED s \<longleftrightarrow> (s AND 0xffff) - 1 < 0xff"

definition WIFCONTINUED :: "uint32 \<Rightarrow> bool" where
  "WIFCONTINUED s \<longleftrightarrow> s = 0xffff"

text \<open>The status of a process that exited with \<open>e\<close>, was ended by signal \<open>g\<close>, or was stopped by it.\<close>

lemma exit_status:
  fixes e :: uint8
  shows "WIFEXITED (push_bit 8 (ucast e))" "WEXITSTATUS (push_bit 8 (ucast e)) = ucast e"
proof -
  show "WIFEXITED (push_bit 8 (ucast e))"
    unfolding WIFEXITED_def WTERMSIG_def byte_masks by (rule bit_word_eqI) (auto simp: bit_simps dest: bit_imp_le_length)
  show "WEXITSTATUS (push_bit 8 (ucast e)) = ucast e"
    unfolding WEXITSTATUS_def byte_masks by (rule bit_word_eqI) (auto simp: bit_simps; use bit_imp_le_length [of e] in fastforce)
qed

lemma signal_status:
  assumes "0 < g" "g < 127"
  shows "WIFSIGNALED g" "WTERMSIG g = g" "\<not> WIFEXITED g"
proof -
  have u: "unat g < 127" "0 < unat g" using assms by (simp_all add: word_less_nat_alt)
  have "take_bit 16 g = g" "take_bit 7 g = g"
    by (rule word_unat_eq_iff [THEN iffD2]; simp add: unsigned_take_bit_eq take_bit_nat_eq_self u less_trans [OF u(1)])+
  then have m: "g AND 0xffff = g" "g AND 0x7f = g" unfolding byte_masks by (simp_all add: take_bit_eq_mask)
  show "WTERMSIG g = g" by (simp only: WTERMSIG_def m)
  then show "\<not> WIFEXITED g" using assms by (simp add: WIFEXITED_def)
  have "unat (g - 1) = unat g - 1" using unat_sub_le [of 1 g] u by simp
  then show "WIFSIGNALED g" unfolding WIFSIGNALED_def m using u by (simp add: word_less_nat_alt)
qed

section \<open>Time intervals\<close>

text \<open>Both fields are signed 64-bit numbers; an overflow is undefined in C, and \<open>None\<close> here.\<close>

record timeval =
  tv_sec :: int
  tv_usec :: int

definition int64 :: "int \<Rightarrow> int option" where
  "int64 x = (if - (2 ^ 63) \<le> x \<and> x < 2 ^ 63 then Some x else None)"

definition timerisset :: "timeval \<Rightarrow> bool" where
  "timerisset t \<longleftrightarrow> tv_sec t \<noteq> 0 \<or> tv_usec t \<noteq> 0"

definition timerclear :: "timeval \<Rightarrow> timeval" where
  "timerclear t = t\<lparr>tv_sec := 0, tv_usec := 0\<rparr>"

definition timercmp :: "timeval \<Rightarrow> timeval \<Rightarrow> (int \<Rightarrow> int \<Rightarrow> bool) \<Rightarrow> bool" where
  "timercmp s t oper = (if tv_sec s = tv_sec t then oper (tv_usec s) (tv_usec t) else oper (tv_sec s) (tv_sec t))"

definition timeradd :: "timeval \<Rightarrow> timeval \<Rightarrow> timeval \<Rightarrow> timeval option" where
  "timeradd s t a = do {
     sec \<leftarrow> int64 (tv_sec s + tv_sec t);
     usec \<leftarrow> int64 (tv_usec s + tv_usec t);
     if 1000000 \<le> usec then do {
       usec \<leftarrow> int64 (usec - 1000000); sec \<leftarrow> int64 (sec + 1); Some (a\<lparr>tv_sec := sec, tv_usec := usec\<rparr>) }
     else Some (a\<lparr>tv_sec := sec, tv_usec := usec\<rparr>) }"

definition timersub :: "timeval \<Rightarrow> timeval \<Rightarrow> timeval \<Rightarrow> timeval option" where
  "timersub s t a = do {
     sec \<leftarrow> int64 (tv_sec s - tv_sec t);
     usec \<leftarrow> int64 (tv_usec s - tv_usec t);
     if usec < 0 then do {
       usec \<leftarrow> int64 (usec + 1000000); sec \<leftarrow> int64 (sec - 1); Some (a\<lparr>tv_sec := sec, tv_usec := usec\<rparr>) }
     else Some (a\<lparr>tv_sec := sec, tv_usec := usec\<rparr>) }"

definition microseconds :: "timeval \<Rightarrow> int" where
  "microseconds t = 1000000 * tv_sec t + tv_usec t"

definition normal :: "timeval \<Rightarrow> bool" where
  "normal t \<longleftrightarrow> 0 \<le> tv_usec t \<and> tv_usec t < 1000000 \<and> \<bar>tv_sec t\<bar> < 2 ^ 62"

text \<open>On normal intervals the macros add, subtract and compare microseconds, and give a normal fraction.\<close>

theorem time_arithmetic:
  assumes "normal s" "normal t"
  shows "\<exists>u. timeradd s t a = Some u \<and> microseconds u = microseconds s + microseconds t \<and> 0 \<le> tv_usec u \<and> tv_usec u < 1000000"
    "\<exists>u. timersub s t a = Some u \<and> microseconds u = microseconds s - microseconds t \<and> 0 \<le> tv_usec u \<and> tv_usec u < 1000000"
    "timercmp s t (<) \<longleftrightarrow> microseconds s < microseconds t"
proof -
  note n = assms [unfolded normal_def]
  have i: "int64 (tv_sec s + tv_sec t) = Some (tv_sec s + tv_sec t)" "int64 (tv_sec s - tv_sec t) = Some (tv_sec s - tv_sec t)"
    "int64 (tv_sec s + tv_sec t + 1) = Some (tv_sec s + tv_sec t + 1)" "int64 (tv_sec s - tv_sec t - 1) = Some (tv_sec s - tv_sec t - 1)"
    "int64 (tv_usec s + tv_usec t) = Some (tv_usec s + tv_usec t)" "int64 (tv_usec s - tv_usec t) = Some (tv_usec s - tv_usec t)"
    "int64 (tv_usec s + tv_usec t - 1000000) = Some (tv_usec s + tv_usec t - 1000000)"
    "int64 (tv_usec s - tv_usec t + 1000000) = Some (tv_usec s - tv_usec t + 1000000)"
    using n unfolding int64_def by auto
  show "\<exists>u. timeradd s t a = Some u \<and> microseconds u = microseconds s + microseconds t \<and> 0 \<le> tv_usec u \<and> tv_usec u < 1000000"
    using n by (auto simp: timeradd_def i microseconds_def)
  show "\<exists>u. timersub s t a = Some u \<and> microseconds u = microseconds s - microseconds t \<and> 0 \<le> tv_usec u \<and> tv_usec u < 1000000"
    using n by (auto simp: timersub_def i microseconds_def)
  show "timercmp s t (<) \<longleftrightarrow> microseconds s < microseconds t" using n unfolding timercmp_def microseconds_def by (simp split: if_splits) linarith
qed

section \<open>Characters\<close>

definition isalpha :: "uint32 \<Rightarrow> bool" where
  "isalpha a \<longleftrightarrow> (a OR 32) - 97 < 26"

definition isdigit :: "uint32 \<Rightarrow> bool" where
  "isdigit a \<longleftrightarrow> a - 48 < 10"

definition islower :: "uint32 \<Rightarrow> bool" where
  "islower a \<longleftrightarrow> a - 97 < 26"

definition isupper :: "uint32 \<Rightarrow> bool" where
  "isupper a \<longleftrightarrow> a - 65 < 26"

definition isprint :: "uint32 \<Rightarrow> bool" where
  "isprint a \<longleftrightarrow> a - 0x20 < 0x5f"

definition isgraph :: "uint32 \<Rightarrow> bool" where
  "isgraph a \<longleftrightarrow> a - 0x21 < 0x5e"

definition isspace :: "uint32 \<Rightarrow> bool" where
  "isspace a \<longleftrightarrow> a = 32 \<or> a - 9 < 5"

definition isascii :: "uint32 \<Rightarrow> bool" where
  "isascii a \<longleftrightarrow> a < 128"

definition to_lower :: "uint32 \<Rightarrow> uint32" where
  "to_lower a = a OR 0x20"

definition to_upper :: "uint32 \<Rightarrow> uint32" where
  "to_upper a = a AND 0x5f"

text \<open>One unsigned comparison tests both ends of a range.\<close>

lemma range_test:
  assumes "unat c + unat n \<le> 2 ^ 32"
  shows "(a :: uint32) - c < n \<longleftrightarrow> unat c \<le> unat a \<and> unat a < unat c + unat n"
proof (cases "unat c \<le> unat a")
  case True
  then show ?thesis using unat_sub_le [OF True] by (auto simp: word_less_nat_alt)
next
  case False
  then have "a < c" by (simp add: word_less_nat_alt)
  then have "unat (a - c) = 2 ^ 32 + unat a - unat c" using unat_lt32 [of c] by (simp add: unat_sub_if_size word_size word_le_nat_alt False)
  then show ?thesis using False assms unat_lt32 [of n] by (simp add: word_less_nat_alt)
qed

lemma char_ranges:
  "isdigit a \<longleftrightarrow> unat a \<in> {48..57}" "islower a \<longleftrightarrow> unat a \<in> {97..122}" "isupper a \<longleftrightarrow> unat a \<in> {65..90}"
  "isprint a \<longleftrightarrow> unat a \<in> {32..126}" "isgraph a \<longleftrightarrow> unat a \<in> {33..126}"
  by (auto simp: isdigit_def islower_def isupper_def isprint_def isgraph_def range_test)

section \<open>Classes of floating-point numbers, from their bits\<close>

definition isinf_double :: "uint64 \<Rightarrow> bool" where
  "isinf_double x \<longleftrightarrow> x AND drop_bit 1 (- 1) = push_bit 52 0x7ff"

definition isnan_double :: "uint64 \<Rightarrow> bool" where
  "isnan_double x \<longleftrightarrow> push_bit 52 0x7ff < x AND drop_bit 1 (- 1)"

definition isnormal_double :: "uint64 \<Rightarrow> bool" where
  "isnormal_double x \<longleftrightarrow> push_bit 53 1 \<le> (x + push_bit 52 1) AND drop_bit 1 (- 1)"

definition isfinite_double :: "uint64 \<Rightarrow> bool" where
  "isfinite_double x \<longleftrightarrow> x AND drop_bit 1 (- 1) < push_bit 52 0x7ff"

definition isinf_float :: "uint32 \<Rightarrow> bool" where
  "isinf_float x \<longleftrightarrow> x AND 0x7fffffff = 0x7f800000"

definition isnan_float :: "uint32 \<Rightarrow> bool" where
  "isnan_float x \<longleftrightarrow> 0x7f800000 < x AND 0x7fffffff"

definition isnormal_float :: "uint32 \<Rightarrow> bool" where
  "isnormal_float x \<longleftrightarrow> 0x01000000 \<le> (x + 0x00800000) AND 0x7fffffff"

definition isfinite_float :: "uint32 \<Rightarrow> bool" where
  "isfinite_float x \<longleftrightarrow> x AND 0x7fffffff < 0x7f800000"

definition signbit_float :: "uint32 \<Rightarrow> uint32" where
  "signbit_float x = drop_bit 31 x"

definition signbit_double :: "uint64 \<Rightarrow> uint32" where
  "signbit_double x = ucast (drop_bit 63 x)"

text \<open>Every number is finite, infinite or no number, and a normal one is finite: its exponent is neither all zeroes
  nor all ones.\<close>

lemma float_low31: "unat ((x :: uint32) AND 0x7fffffff) = unat x mod 2 ^ 31"
proof -
  have "(0x7fffffff :: uint32) = mask 31" by (simp add: mask_eq_exp_minus_1)
  then have "x AND 0x7fffffff = take_bit 31 x" by (simp add: take_bit_eq_mask)
  then have "unat (x AND 0x7fffffff) = unat (take_bit 31 x)" by (rule arg_cong)
  also have "\<dots> = take_bit 31 (unat x)" by (rule unsigned_take_bit_eq)
  finally show ?thesis by (simp only: take_bit_eq_mod)
qed

theorem float_classes:
  "isfinite_float x \<or> isinf_float x \<or> isnan_float x" "\<not> (isfinite_float x \<and> isinf_float x)"
  "\<not> (isfinite_float x \<and> isnan_float x)" "\<not> (isinf_float x \<and> isnan_float x)"
  "isnormal_float x \<longleftrightarrow> isfinite_float x \<and> unat x mod 2 ^ 31 \<ge> 2 ^ 23"
proof -
  show "isfinite_float x \<or> isinf_float x \<or> isnan_float x" "\<not> (isfinite_float x \<and> isinf_float x)"
    "\<not> (isfinite_float x \<and> isnan_float x)" "\<not> (isinf_float x \<and> isnan_float x)"
    by (auto simp: isfinite_float_def isinf_float_def isnan_float_def)
  have "unat (x + 0x00800000) mod 2 ^ 31 = (unat x mod 2 ^ 31 + 2 ^ 23) mod 2 ^ 31"
  proof -
    have "unat (x + 0x00800000) = (unat x + 2 ^ 23) mod 2 ^ 32" by (simp add: unat_word_ariths)
    also have "\<dots> mod 2 ^ 31 = (unat x + 2 ^ 23) mod 2 ^ 31" by (rule mod_mod_cancel) (simp add: le_imp_power_dvd)
    finally show ?thesis by (simp add: mod_add_left_eq)
  qed
  moreover have "(m + 2 ^ 23) mod 2 ^ 31 \<ge> 2 ^ 24 \<longleftrightarrow> 2 ^ 23 \<le> m \<and> m < 255 * 2 ^ 23" if "m < 2 ^ 31" for m :: nat
  proof (cases "m + 2 ^ 23 < 2 ^ 31")
    case False
    then have "(m + 2 ^ 23) mod 2 ^ 31 = m + 2 ^ 23 - 2 ^ 31" using that by (simp add: le_mod_geq)
    then show ?thesis using that False by simp
  qed simp
  ultimately show "isnormal_float x \<longleftrightarrow> isfinite_float x \<and> unat x mod 2 ^ 31 \<ge> 2 ^ 23"
    by (auto simp: isnormal_float_def isfinite_float_def word_le_nat_alt word_less_nat_alt float_low31)
qed

section \<open>Internet addresses\<close>

definition IN_CLASSA :: "uint32 \<Rightarrow> bool" where
  "IN_CLASSA a \<longleftrightarrow> a AND 0x80000000 = 0"

definition IN_CLASSB :: "uint32 \<Rightarrow> bool" where
  "IN_CLASSB a \<longleftrightarrow> a AND 0xc0000000 = 0x80000000"

definition IN_CLASSC :: "uint32 \<Rightarrow> bool" where
  "IN_CLASSC a \<longleftrightarrow> a AND 0xe0000000 = 0xc0000000"

definition IN_CLASSD :: "uint32 \<Rightarrow> bool" where
  "IN_CLASSD a \<longleftrightarrow> a AND 0xf0000000 = 0xe0000000"

definition IN_MULTICAST :: "uint32 \<Rightarrow> bool" where
  "IN_MULTICAST a \<longleftrightarrow> IN_CLASSD a"

definition IN_EXPERIMENTAL :: "uint32 \<Rightarrow> bool" where
  "IN_EXPERIMENTAL a \<longleftrightarrow> a AND 0xe0000000 = 0xe0000000"

definition IN_BADCLASS :: "uint32 \<Rightarrow> bool" where
  "IN_BADCLASS a \<longleftrightarrow> a AND 0xf0000000 = 0xf0000000"

text \<open>An address of version 6 is its sixteen bytes; \<open>word32 a k\<close> is \<open>((uint32_t *) a)[k]\<close>, little-endian.\<close>

definition word32 :: "(nat \<Rightarrow> uint8) \<Rightarrow> nat \<Rightarrow> uint32" where
  "word32 a k = ucast (a (4 * k)) OR push_bit 8 (ucast (a (4 * k + 1))) OR push_bit 16 (ucast (a (4 * k + 2))) OR push_bit 24 (ucast (a (4 * k + 3)))"

definition IN6_IS_ADDR_UNSPECIFIED :: "(nat \<Rightarrow> uint8) \<Rightarrow> bool" where
  "IN6_IS_ADDR_UNSPECIFIED a \<longleftrightarrow> word32 a 0 = 0 \<and> word32 a 1 = 0 \<and> word32 a 2 = 0 \<and> word32 a 3 = 0"

definition IN6_IS_ADDR_LOOPBACK :: "(nat \<Rightarrow> uint8) \<Rightarrow> bool" where
  "IN6_IS_ADDR_LOOPBACK a \<longleftrightarrow> word32 a 0 = 0 \<and> word32 a 1 = 0 \<and> word32 a 2 = 0 \<and> a 12 = 0 \<and> a 13 = 0 \<and> a 14 = 0 \<and> a 15 = 1"

definition IN6_IS_ADDR_MULTICAST :: "(nat \<Rightarrow> uint8) \<Rightarrow> bool" where
  "IN6_IS_ADDR_MULTICAST a \<longleftrightarrow> a 0 = 0xff"

definition IN6_IS_ADDR_LINKLOCAL :: "(nat \<Rightarrow> uint8) \<Rightarrow> bool" where
  "IN6_IS_ADDR_LINKLOCAL a \<longleftrightarrow> a 0 = 0xfe \<and> a 1 AND 0xc0 = 0x80"

definition IN6_IS_ADDR_SITELOCAL :: "(nat \<Rightarrow> uint8) \<Rightarrow> bool" where
  "IN6_IS_ADDR_SITELOCAL a \<longleftrightarrow> a 0 = 0xfe \<and> a 1 AND 0xc0 = 0xc0"

definition IN6_IS_ADDR_V4MAPPED :: "(nat \<Rightarrow> uint8) \<Rightarrow> bool" where
  "IN6_IS_ADDR_V4MAPPED a \<longleftrightarrow> word32 a 0 = 0 \<and> word32 a 1 = 0 \<and> a 8 = 0 \<and> a 9 = 0 \<and> a 10 = 0xff \<and> a 11 = 0xff"

definition IN6_IS_ADDR_V4COMPAT :: "(nat \<Rightarrow> uint8) \<Rightarrow> bool" where
  "IN6_IS_ADDR_V4COMPAT a \<longleftrightarrow> word32 a 0 = 0 \<and> word32 a 1 = 0 \<and> word32 a 2 = 0 \<and> 1 < a 15"

definition IN6_IS_ADDR_MC_NODELOCAL :: "(nat \<Rightarrow> uint8) \<Rightarrow> bool" where
  "IN6_IS_ADDR_MC_NODELOCAL a \<longleftrightarrow> IN6_IS_ADDR_MULTICAST a \<and> a 1 AND 0xf = 0x1"

definition IN6_IS_ADDR_MC_LINKLOCAL :: "(nat \<Rightarrow> uint8) \<Rightarrow> bool" where
  "IN6_IS_ADDR_MC_LINKLOCAL a \<longleftrightarrow> IN6_IS_ADDR_MULTICAST a \<and> a 1 AND 0xf = 0x2"

definition IN6_IS_ADDR_MC_SITELOCAL :: "(nat \<Rightarrow> uint8) \<Rightarrow> bool" where
  "IN6_IS_ADDR_MC_SITELOCAL a \<longleftrightarrow> IN6_IS_ADDR_MULTICAST a \<and> a 1 AND 0xf = 0x5"

definition IN6_IS_ADDR_MC_ORGLOCAL :: "(nat \<Rightarrow> uint8) \<Rightarrow> bool" where
  "IN6_IS_ADDR_MC_ORGLOCAL a \<longleftrightarrow> IN6_IS_ADDR_MULTICAST a \<and> a 1 AND 0xf = 0x8"

definition IN6_IS_ADDR_MC_GLOBAL :: "(nat \<Rightarrow> uint8) \<Rightarrow> bool" where
  "IN6_IS_ADDR_MC_GLOBAL a \<longleftrightarrow> IN6_IS_ADDR_MULTICAST a \<and> a 1 AND 0xf = 0xe"

definition IN6_ARE_ADDR_EQUAL :: "(nat \<Rightarrow> uint8) \<Rightarrow> (nat \<Rightarrow> uint8) \<Rightarrow> bool" where
  "IN6_ARE_ADDR_EQUAL a b \<longleftrightarrow> ((word32 a 0 - word32 b 0) OR (word32 a 1 - word32 b 1) OR (word32 a 2 - word32 b 2) OR (word32 a 3 - word32 b 3)) = 0"

text \<open>Comparing by subtraction and disjunction is equality of the sixteen bytes.\<close>

lemma or_zero: "(a :: 'a::len word) OR b = 0 \<longleftrightarrow> a = 0 \<and> b = 0"
  by (metis or.left_neutral or.idem or_eq_0_iff)

lemma word32_eq:
  "word32 a k = word32 b k \<longleftrightarrow> a (4 * k) = b (4 * k) \<and> a (4 * k + 1) = b (4 * k + 1) \<and> a (4 * k + 2) = b (4 * k + 2) \<and> a (4 * k + 3) = b (4 * k + 3)"
proof -
  have "ucast (word32 a k) = a (4 * k)" "ucast (drop_bit 8 (word32 a k)) = a (4 * k + 1)"
    "ucast (drop_bit 16 (word32 a k)) = a (4 * k + 2)" "ucast (drop_bit 24 (word32 a k)) = a (4 * k + 3)" for a
    unfolding word32_def by (rule bit_word_eqI; auto simp: bit_simps dest: bit_imp_le_length)+
  then show ?thesis by (metis word32_def)
qed

theorem IN6_ARE_ADDR_EQUAL_bytes: "IN6_ARE_ADDR_EQUAL a b \<longleftrightarrow> (\<forall>i < 16. a i = b i)"
proof -
  have "(\<forall>i < 16. a i = b i) \<longleftrightarrow> list_all (\<lambda>i. a i = b i) [0..<16]" by (auto simp: list_all_iff)
  also have "\<dots> \<longleftrightarrow> IN6_ARE_ADDR_EQUAL a b"
    unfolding IN6_ARE_ADDR_EQUAL_def or_zero right_minus_eq word32_eq by (simp add: eval_nat_numeral)
  finally show ?thesis ..
qed

section \<open>File types\<close>

definition S_ISDIR :: "uint32 \<Rightarrow> bool" where
  "S_ISDIR mode \<longleftrightarrow> mode AND 0xF000 = 0x4000"

definition S_ISCHR :: "uint32 \<Rightarrow> bool" where
  "S_ISCHR mode \<longleftrightarrow> mode AND 0xF000 = 0x2000"

definition S_ISBLK :: "uint32 \<Rightarrow> bool" where
  "S_ISBLK mode \<longleftrightarrow> mode AND 0xF000 = 0x6000"

definition S_ISREG :: "uint32 \<Rightarrow> bool" where
  "S_ISREG mode \<longleftrightarrow> mode AND 0xF000 = 0x8000"

definition S_ISFIFO :: "uint32 \<Rightarrow> bool" where
  "S_ISFIFO mode \<longleftrightarrow> mode AND 0xF000 = 0x1000"

definition S_ISLNK :: "uint32 \<Rightarrow> bool" where
  "S_ISLNK mode \<longleftrightarrow> mode AND 0xF000 = 0xA000"

definition S_ISSOCK :: "uint32 \<Rightarrow> bool" where
  "S_ISSOCK mode \<longleftrightarrow> mode AND 0xF000 = 0xC000"

text \<open>A file has at most one type.\<close>

lemma one_file_type:
  "length (filter (\<lambda>f. f mode) [S_ISDIR, S_ISCHR, S_ISBLK, S_ISREG, S_ISFIFO, S_ISLNK, S_ISSOCK]) \<le> 1"
  by (simp add: S_ISDIR_def S_ISCHR_def S_ISBLK_def S_ISREG_def S_ISFIFO_def S_ISLNK_def S_ISSOCK_def)

section \<open>Counting in blocks\<close>

definition howmany :: "uint64 \<Rightarrow> uint64 \<Rightarrow> uint64" where
  "howmany n d = (n + (d - 1)) div d"

definition roundup :: "uint64 \<Rightarrow> uint64 \<Rightarrow> uint64" where
  "roundup n d = howmany n d * d"

definition powerof2 :: "uint64 \<Rightarrow> bool" where
  "powerof2 n \<longleftrightarrow> (n - 1) AND n = 0"

text \<open>Records of control messages of sockets: lengths are rounded up to a word.\<close>

definition CMSG_ALIGN :: "uint64 \<Rightarrow> uint64" where
  "CMSG_ALIGN n = (n + 8 - 1) AND NOT (8 - 1)"

definition CMSG_SPACE :: "uint64 \<Rightarrow> uint64" where
  "CMSG_SPACE n = CMSG_ALIGN n + CMSG_ALIGN 16"

definition CMSG_LEN :: "uint64 \<Rightarrow> uint64" where
  "CMSG_LEN n = CMSG_ALIGN 16 + n"

lemma roundup_least:
  assumes "0 < unat d" "unat n + unat d \<le> 2 ^ 64"
  shows "unat (roundup n d) = (unat n + unat d - 1) div unat d * unat d"
proof -
  have "unat (d - 1) = unat d - 1" using unat_sub_le [of 1 d] assms(1) by simp
  then have a: "unat (n + (d - 1)) = unat n + unat d - 1" using unat_add_no_wrap [of n "d - 1"] assms by simp
  have "unat (howmany n d) = (unat n + unat d - 1) div unat d" unfolding howmany_def unat_div a ..
  moreover have "(unat n + unat d - 1) div unat d * unat d < 2 ^ LENGTH(64)"
  proof (rule le_less_trans)
    show "(unat n + unat d - 1) div unat d * unat d \<le> unat n + unat d - 1" by (rule div_times_less_eq_dividend)
    show "unat n + unat d - 1 < 2 ^ LENGTH(64)" using assms by simp
  qed
  ultimately show ?thesis using unat_mult_no_wrap [of "howmany n d" d] by (simp only: roundup_def)
qed

lemma powerof2_power: "k < 64 \<Longrightarrow> powerof2 (push_bit k 1)"
proof -
  have "push_bit k 1 - 1 = (mask k :: uint64)" by (simp add: mask_eq_exp_minus_1 push_bit_eq_mult)
  moreover have "mask k AND push_bit k 1 = (0 :: uint64)" by (rule bit_word_eqI) (auto simp: bit_simps)
  ultimately show "powerof2 (push_bit k 1)" by (simp add: powerof2_def)
qed

end
