(* ===== verification/Spec2Isabelle.thy ===== *)
theory Spec2Isabelle
  imports Atomic Liballoc_Correct Entry Ports Gdt Idt Gfx_Correct Keyboard Layout Elf_Types Elf_Tables
    Setup System_Realloc System_Store Process Kernel RealMode
    Interrupts RealMode_Print Bit_Sets Libc_Macros
begin

text \<open>
  A verification library for the FrameBoot kernel (64-bit x86, C++ and assembly): its boot sector and
  start-up code, heap, frame allocator, page tables, processes, spin locks, descriptor tables, interrupt
  setup, text console, keyboard drivers and the ELF header it ships.

  How the parts interact. The boot sector (\<open>RealMode\<close>) loads the kernel, leaves the BIOS's memory map at
  \<open>0x7E018\<close>, builds the first page tables (\<open>Boot\<close>) and enters long mode at \<open>_start\<close> (\<open>Kernel\<close>), which calls
  \<open>kmain\<close>: segments (\<open>Gdt\<close>), interrupts (\<open>Idt\<close>), paging and the free memory of the map (\<open>Setup\<close>).
  \<open>kernel_malloc\<close> and \<open>kernel_free\<close> (\<open>Liballoc\<close>) take whole pages from the page table (\<open>alloc_vm\<close>) and give
  them back (\<open>free_vm\<close>); the page table takes frames from the frame allocator (\<open>FrameAlloc\<close>), which keeps
  its list of ranges in the same heap. All of them are guarded by the spin locks (\<open>Atomic\<close>). \<open>System\<close> ties
  this knot. Processes (\<open>Process\<close>) keep their threads in the heap.

  The state of the memory system is one record that each layer extends: \<open>liballoc\<close>, \<open>frames\<close>, \<open>paging\<close>,
  \<open>kernel\<close>, \<open>kernel_uids\<close>. It has separate views of what is one memory in the machine: \<open>mem\<close> the boundary
  tags, \<open>bytes\<close> the contents of blocks, \<open>nodes\<close> the frame allocator's list nodes, \<open>phys\<close> the physical words
  of page tables; the invariant places them in disjoint regions. The screen, the ports, the descriptor
  tables, the processor's registers and the real-mode memory are records of their own.

  Conventions. Integers are words of their width. A path of the code that never returns (a page
  fault, whose handler loops; \<open>panic\<close>; a lock nobody will release; a jump to itself; a recursion without
  end) is \<open>None\<close>. Loops are \<open>fun\<close> or \<open>function\<close> with a proved termination where they end by themselves,
  \<open>partial_function (option)\<close> otherwise, and then theorems say when the result is \<open>Some\<close>.

  Theories:

  \<^item> \<open>Prelude\<close>: integer types, the option monad, lemmas on words and lists.
  \<^item> \<open>Atomic\<close> (\<open>asm/funcs/global/atomic.asm\<close>): the lock routines one instruction at a time on any
    number of processors, and as functions of one processor; mutual exclusion.
  \<^item> \<open>Liballoc\<close> (\<open>memory/liballoc\<close>): boundary tags, the 32 free lists, malloc, free, calloc, realloc.
    \<open>Liballoc_Lists\<close>, \<open>Liballoc_Blocks\<close> and \<open>Liballoc_Inv\<close> state the invariant (doubly linked lists;
    blocks tile their regions; size classes, counters, no two neighbours free) and show that each
    step keeps it; \<open>Liballoc_Correct\<close> composes them into malloc and free, for every provider of
    pages that keeps the laws of the locale \<open>page_source\<close>.
  \<^item> \<open>Entry\<close> (\<open>PageTable.hh\<close>, \<open>memory.h\<close>): one paging entry.
  \<^item> \<open>FrameAlloc\<close> (\<open>FrameAllocator.cpp\<close>): the frame buffer and the sorted list of ranges, with
    \<open>FrameAlloc_Lists\<close> and \<open>FrameAlloc_Correct\<close>: a frame handed out was free, adding a range adds its
    pages, less the frames the heap has grown by meanwhile, for every heap that keeps the laws of \<open>node_heap\<close>.
  \<^item> \<open>PageTable\<close> (\<open>PageTable.cpp\<close>): the recursive mapping of slot 510, looking up, creating and
    removing entries, allocating virtual pages. \<open>PageTable_Walk\<close>: what the processor finds there;
    \<open>PageTable_Slot\<close>: the invariant of the heap's slot (its first \<open>N\<close> pages mapped, each to a frame of its
    own, no table shared, no free frame in use); \<open>PageTable_Grow\<close>: creating one entry keeps it;
    \<open>PageTable_Alloc\<close>: \<open>alloc_vm\<close> maps the next pages, at a cost of exactly \<open>run_cost\<close> frames.
  \<^item> \<open>System\<close>: heap, page table and frame allocator calling each other, the depth of nested calls as fuel;
    the locales of \<open>Liballoc\<close>, \<open>FrameAlloc\<close> and \<open>PageTable\<close> interpreted on each other's definitions; \<open>grew\<close>
    counts the frames a call has used up for the heap's slot, so that no other can be lost.
    \<open>System_Start\<close>: the invariant of the empty system and concrete states; \<open>System_Correct\<close>: the
    specification of malloc, free and the page provider on the whole system, and where
    the code faults or deadlocks; \<open>System_Realloc\<close>, \<open>System_Client\<close>: realloc and calloc, and when malloc returns
    to a caller in terms of frames left, in the buffer or the first range; \<open>FrameAlloc_Live\<close>, \<open>System_Live\<close>:
    the frame allocator's specification with when it returns, for a heap that can take nodes back (the
    locale \<open>node_heap_live\<close>), which the system's heap is until five whole blocks of a size wait. A request
    with a free block of its size class is served from there, whatever frames are left.
    \<open>System_Store\<close>: the heap and the frame allocator refine a store of blocks of bytes and frames held, over
    any sequence of calls of a client that keeps to its own blocks.
  \<^item> \<open>Boot\<close> (\<open>kernel_64.asm\<close>, \<open>pagination.cpp\<close>): the loader's page tables and what they translate;
    \<open>Setup\<close> (\<open>pagination.cpp\<close>, \<open>KernelController\<close>): reading the memory map, setting the memory up.
  \<^item> \<open>Process\<close> (\<open>process/\<close>): creating a process, adding threads, the destructor, and that
    none of them touches another process.
  \<^item> \<open>Ports\<close>, \<open>Idt\<close>, \<open>Gdt\<close>: port writes and the devices they program, gates, segments. \<open>Runtime\<close>
    (\<open>System.cpp\<close>): \<open>memzero\<close>, and the interrupt table it clears.
  \<^item> \<open>Processor\<close> (\<open>msr.asm\<close>, \<open>sse.asm\<close>): model-specific registers, SSE; \<open>Kernel\<close> (\<open>start_kernel.asm\<close>,
    \<open>kernel.cpp\<close>, \<open>app.cpp\<close>): the start from \<open>_start\<close> to \<open>syscall\<close>.
  \<^item> \<open>Interrupts\<close> (\<open>macros.asm\<close>, \<open>interruptions.asm\<close>, \<open>crti.asm\<close>, \<open>crtn.asm\<close>): the frame of an interrupt, the
    handlers instruction by instruction, and that the interrupted program does not notice them; where
    they go wrong. The compiled functions they call are a parameter that keeps to the calling convention.
  \<^item> \<open>RealMode\<close> (\<open>boot/\<close>): the boot sector; \<open>RealMode_Print\<close> (\<open>print_string.asm\<close>): its printing routines.
  \<^item> \<open>Gfx\<close>, \<open>Gfx_Correct\<close>: the text console, page-fault handler and panic.
  \<^item> \<open>Keyboard\<close>: both keyboard drivers and \<open>getChar\<close>.
  \<^item> \<open>Layout\<close>, \<open>Elf_Types\<close>, \<open>Elf_Tables\<close>: struct layouts, the packing macros and constant tables of
    \<open>elf.h\<close>.
  \<^item> \<open>Bit_Sets\<close>, \<open>Libc_Macros\<close> (\<open>include/libc\<close>): what the other headers of the C library compute: \<open>fd_set\<close>,
    \<open>cpu_set_t\<close> and bit arrays as sets of numbers (the locale \<open>bit_set\<close>, interpreted for each), byte order, device
    numbers, wait statuses, time intervals, classes of characters, numbers and addresses.

  Bounds and assumptions. A heap request is at most \<open>MAX_REQUEST\<close> bytes, below which the 32-bit sizes of
  the boundary tags do not wrap; the frame buffer holds 64 of its 80 entries; the processor's walk
  has four levels and no large pages (the boot code builds none); the heap's slot is followed up to
  \<open>2 ^ 18\<close> pages, 1 GB. A nested call of the heap ends at its lock, so two levels of depth are enough for every result
  and more change nothing. Free frames hold zeroes (\<open>empty_table\<close>): the code links a fresh frame as a
  table without clearing it. The kernel's static data is zero (\<open>bss_zero\<close>): nothing clears it. The
  BIOS reports at most 340 ranges, and memory after them is zero.

  Not modelled: stale entries of the processor's translation buffer; what a handler prints while the
  interrupted program is printing too (an interrupt between two instructions leaves the program's
  registers and stack alone, but both share the screen and the cursor's ports); vector registers;
  the BIOS, \<open>cpuid\<close>, \<open>sprintf\<close> and the rest of the C library (a binary), which are parameters; \<open>interface.h\<close>,
  which no file includes and which names variables declared nowhere; the declarations of the C library's
  headers; and code compiled only with DEBUG.
\<close>

section \<open>From the boot sector to the system call\<close>

text \<open>
  C8. The machine boots. Under the hypotheses of \<open>boot_hands_over\<close> and \<open>kernel_starts\<close>, with the BIOS
  reporting one usable range, the boot sector reaches \<open>SwitchToLongMode\<close>; the kernel's pointer to the memory
  map translates, by the tables that code builds, to the place where the boot sector has put it; and
  the kernel, reading the map from there, reaches its \<open>syscall\<close> instruction with the
  memory system in its invariant, the pages of the range free but for exactly 19 of them (the heap's first
  16 pages and the three page tables above them), all but 83 of the range's pages ready to be
  handed out before a list node is freed, the system call handler registered, interrupts on and the application's line on the screen.
\<close>

theorem machine_boots:
  assumes d: "\<not> int12_carry f" "int13 f 0x0280 0x7E00 ((ram r)(linear True (ds r) 0x7000 := dl)) = (ax, cf, m)" "ax \<noteq> 0"
    and ms: "reports f b ms" "ms \<noteq> []" "length ms \<le> 340"
    and a: "gate_a20 f" "m 0x100000 \<noteq> m 0" "m 0x100000 \<noteq> m 0 + 1"
    and c: "id_flag f" "\<not> bit (eflags f) 21" "0x80000001 \<le> fst (cpuid f 0x80000000)" "bit (snd (snd (snd (cpuid f 0x80000001)))) 29"
    and v: "\<forall>e \<in> set ms. sp_size (space e) \<noteq> 0 \<and> unat (sp_size (space e)) \<le> 2 ^ 50 \<and> unat (map_type e) < 6"
    and z: "le 8 (0x7E020 + 24 * of_nat (length ms)) m = 0"
    and s: "bss_zero s" "m_mem k = SwitchToLongMode s"
    and u: "i < length ms" "usable (ms ! i)" "\<forall>x < length ms. x \<noteq> i \<longrightarrow> \<not> usable (ms ! x)"
    and rg: "rg = round_space (space (ms ! i))" "space_ok rg" "0x40000 < unat (sp_size rg)" "unat (sp_size rg) < 2 ^ 30"
      "\<forall>p. unat (p :: addr) \<in> set (pages_of rg) \<longrightarrow> empty_table s p"
    and kc: "KERNEL_OFFSET \<le> kernelController en" "kernelController en - KERNEL_OFFSET < 0x200000"
    and mc: "length (entries (m_gdt k)) = 16" "outs (m_irq k) = []" "bit (cpuid_edx en) 25" "bit (cpuid_edx en) 26"
    and t: "list_all (\<lambda>c. c \<notin> {0, 10, 27}) (Test en)" "length (Test en) \<le> 79"
  shows "\<exists>r' k' ns L R F N used. boot f dl r = Some r' \<and> es r' = 0 \<and>
    (\<forall>j < 24 * 341. mmu (m_mem k) (KERNEL_OFFSET + 0x7E000 + 24 + of_nat j) = Some (0x7E018 + of_nat j)) \<and>
    start_kernel (en\<lparr>e820 := (\<lambda>x. memory_map_at (ram r') (0x7E018 + 24 * of_nat x))\<rparr>) (sys_malloc (n + 2)) (sys_free (n + 2)) eax0 k = Some k' \<and>
    system_ok (m_mem k') ns L R F N (set (pages_of rg) - used) \<and> free_frames (m_mem k') ns = set (pages_of rg) - used \<and>
    used \<subseteq> set (pages_of rg) \<and> card used = 19 \<and>
    (\<forall>k. k + 83 \<le> unat (sp_size rg) div 4096 \<longrightarrow> rich k (m_mem k')) \<and>
    syscall_target (m_cpu k') = Some (syscall_handler en) \<and> interrupts (m_irq k') \<and>
    (\<forall>j < 16. vga_mem (m_vga k') (of_nat (1601 + j)) = (ascii ''USUARIO PROGRAMA'' ! j, 0x2F))"
proof -
  from boot_runs [OF d ms a c v z] obtain r' where r': "boot f dl r = Some r'" "es r' = 0"
    "\<forall>x < length ms. memory_map_at (ram r') (0x7E018 + 24 * of_nat x) = ms ! x"
    "map_ok (\<lambda>x. memory_map_at (ram r') (0x7E018 + 24 * of_nat x)) (length ms)" by (elim exE conjE) (rule that)
  let ?e = "\<lambda>x. memory_map_at (ram r') (0x7E018 + 24 * of_nat x)"
  let ?en = "en\<lparr>e820 := ?e\<rparr>"
  have e: "e820 ?en = ?e" "kernelController ?en = kernelController en" "cpuid_edx ?en = cpuid_edx en" "Test ?en = Test en"
    "syscall_handler ?en = syscall_handler en" by simp_all
  have i: "?e i = ms ! i" using r'(3) u(1) by blast
  have ui: "usable (?e i)" "\<forall>x < length ms. x \<noteq> i \<longrightarrow> \<not> usable (?e x)" "rg = round_space (space (?e i))"
    using u(2,3) rg(1) r'(3) unfolding i by simp_all
  have j: "mmu (m_mem k) (KERNEL_OFFSET + 0x7E000 + 24 + of_nat j) = Some (0x7E018 + of_nat j)" if "j < 24 * 341" for j
  proof -
    have "unat (of_nat (0xFFFFFF8000000000 + 0x7E018 + j) :: addr) = 0xFFFFFF8000000000 + 0x7E018 + j"
      "unat (of_nat (0x7E018 + j) :: addr) = 0x7E018 + j" by (rule unat_of_nat_small; use that in simp)+
    moreover have o: "KERNEL_OFFSET + 0x7E000 + 24 + of_nat j = of_nat (0xFFFFFF8000000000 + 0x7E018 + j)"
      "of_nat (0xFFFFFF8000000000 + 0x7E018 + j) - KERNEL_OFFSET = of_nat (0x7E018 + j)" by (simp_all add: KERNEL_OFFSET_def)
    ultimately show ?thesis unfolding s(2) SwitchToLongMode_mmu o
      using that by (simp add: word_less_nat_alt word_le_nat_alt KERNEL_OFFSET_def)
  qed
  from start_runs [where en = ?en and m = k and ?eax0.0 = eax0 and d = n, unfolded e, OF s r'(4) u(1) ui(1,2,3) rg(2-) kc mc t]
  obtain k' ns L R F N used where "start_kernel ?en (sys_malloc (n + 2)) (sys_free (n + 2)) eax0 k = Some k'"
    "system_ok (m_mem k') ns L R F N (set (pages_of rg) - used)" "free_frames (m_mem k') ns = set (pages_of rg) - used"
    "used \<subseteq> set (pages_of rg)" "card used = 19" "\<forall>k. k + 83 \<le> unat (sp_size rg) div 4096 \<longrightarrow> rich k (m_mem k')"
    "syscall_target (m_cpu k') = Some (syscall_handler en)" "interrupts (m_irq k')"
    "\<forall>j < 16. vga_mem (m_vga k') (of_nat (1601 + j)) = (ascii ''USUARIO PROGRAMA'' ! j, 0x2F)" by (elim exE conjE) (rule that)
  moreover have "\<forall>j < 24 * 341. mmu (m_mem k) (KERNEL_OFFSET + 0x7E000 + 24 + of_nat j) = Some (0x7E018 + of_nat j)" using j by blast
  ultimately show ?thesis using r'(1,2) by (intro exI conjI)
qed

theorem machine_boots_witness:
  "\<exists>r' k' ns L R F N used. boot example_firmware 0x80 example_real_mode = Some r' \<and>
    start_kernel (example_environment\<lparr>e820 := (\<lambda>x. memory_map_at (ram r') (0x7E018 + 24 * of_nat x))\<rparr>) (sys_malloc 2) (sys_free 2) 0
      example_start = Some k' \<and>
    system_ok (m_mem k') ns L R F N (set (pages_of \<lparr>sp_base = 0x100000, sp_size = 0x7EE0000\<rparr>) - used) \<and>
    free_frames (m_mem k') ns = set (pages_of \<lparr>sp_base = 0x100000, sp_size = 0x7EE0000\<rparr>) - used \<and> card used = 19"
proof -
  note B = example_boot and E = example_start_ok
  have i: "(2 :: nat) < length (map example_map [0..<4])" "map example_map [0..<4] ! 2 = example_map 2" by (simp_all add: numeral_2_eq_2)
  have u: "\<forall>x < length (map example_map [0..<4]). x \<noteq> 2 \<longrightarrow> \<not> usable (map example_map [0..<4] ! x)" using example_map_ok(3) by simp
  from machine_boots [where n = 0 and ?eax0.0 = 0 and i = 2 and ms = "map example_map [0..<4]", unfolded add_0 i(2),
      OF B(1-15) example_bss E(1) i(1) example_map_ok(2) u example_map_ok(4) [symmetric] E(2-4) example_empty E(5-12)]
  obtain r' k' ns L R F N used where "boot example_firmware 0x80 example_real_mode = Some r'"
    "start_kernel (example_environment\<lparr>e820 := (\<lambda>x. memory_map_at (ram r') (0x7E018 + 24 * of_nat x))\<rparr>) (sys_malloc 2) (sys_free 2) 0
      example_start = Some k'"
    "system_ok (m_mem k') ns L R F N (set (pages_of \<lparr>sp_base = 0x100000, sp_size = 0x7EE0000\<rparr>) - used)"
    "free_frames (m_mem k') ns = set (pages_of \<lparr>sp_base = 0x100000, sp_size = 0x7EE0000\<rparr>) - used" "card used = 19" by (elim exE conjE) (rule that)
  then show ?thesis by (intro exI conjI)
qed

section \<open>The first process\<close>

text \<open>The kernel's state as \<open>start_kernel\<close> leaves it, with the static counter of \<open>Process.cpp\<close> beside it.\<close>

definition with_uids :: "kernel \<Rightarrow> kernel_uids" where
  "with_uids k = kernel.extend k (kernel_uids.fields 0)"

lemma with_uids_fields:
  "system_ok (with_uids k) ns L R F N fr = system_ok k ns L R F N fr" "rich i (with_uids k) = rich i k" "lock_var (with_uids k) = lock_var k"
  "GLOBAL_UID (with_uids k) = 0" "l_completePages (liballoc_init (with_uids k)) = l_completePages (liballoc_init k)"
proof -
  show "system_ok (with_uids k) ns L R F N fr = system_ok k ns L R F N fr"
    by (rule system_ok_fields) (simp_all add: with_uids_def kernel.extend_def)
  show "rich i (with_uids k) = rich i k" by (rule rich_cong) (simp_all add: with_uids_def kernel.extend_def)
qed (simp_all add: with_uids_def kernel.extend_def kernel_uids.fields_def liballoc_init_def)

text \<open>
  C9. After the start a process can be created. On a machine as in \<open>kernel_starts\<close>, with a range of 115
  pages and the kernel's lock in its static state, \<open>new Process\<close> on the memory the kernel has set up returns
  a process with identifier 0 and one thread in a block of its own, and the invariant holds.
\<close>

theorem first_process:
  assumes s: "bss_zero s" "m_mem m = SwitchToLongMode s" "lock_var s = 0"
    and e820: "map_ok (e820 en) n" "i < n" "usable (e820 en i)" "\<forall>x < n. x \<noteq> i \<longrightarrow> \<not> usable (e820 en x)"
    and rg: "rg = round_space (space (e820 en i))" "space_ok rg" "0x73000 \<le> unat (sp_size rg)" "unat (sp_size rg) < 2 ^ 30"
      "\<forall>f. unat (f :: addr) \<in> set (pages_of rg) \<longrightarrow> empty_table s f"
    and k: "KERNEL_OFFSET \<le> kernelController en" "kernelController en - KERNEL_OFFSET < 0x200000"
    and m: "length (entries (m_gdt m)) = 16" "outs (m_irq m) = []" "bit (cpuid_edx en) 25" "bit (cpuid_edx en) 26"
    and t: "list_all (\<lambda>c. c \<notin> {0, 10, 27}) (Test en)" "length (Test en) \<le> 79"
  shows "\<exists>m' p t ns L R F N fr. start_kernel en (sys_malloc (d + 2)) (sys_free (d + 2)) eax0 m = Some m' \<and>
    create (sys_malloc (Suc c)) (sys_realloc c) sv this (with_uids (m_mem m')) = Some (p, t) \<and>
    system_ok t ns L R F N fr \<and> process_ok t ns L p 1 \<and> uid p = 0 \<and> isSupervisor p = sv \<and> GLOBAL_UID t = 1 \<and> lock_var t = 0"
proof -
  have g: "0x40000 < unat (sp_size rg)" using rg(3) by simp
  from start_runs [OF s(1,2) e820 rg(1,2) g rg(4,5) k m t, of d eax0] obtain m' ns L R F N used where
    S: "start_kernel en (sys_malloc (d + 2)) (sys_free (d + 2)) eax0 m = Some m'" "system_ok (m_mem m') ns L R F N (set (pages_of rg) - used)"
      "N = 16" "\<forall>k. k + 83 \<le> unat (sp_size rg) div 4096 \<longrightarrow> rich k (m_mem m')" "\<forall>j < MAXEXP. l_completePages (m_mem m') ! j \<le> 0"
      "lock_var (m_mem m') = lock_var s" by (elim exE conjE) (rule that)
  let ?u = "with_uids (m_mem m')"
  note U = with_uids_fields [where k = "m_mem m'"]
  have ok: "system_ok ?u ns L R F N (set (pages_of rg) - used)" unfolding U(1) by (rule S(2))
  have l: "\<not> bit (lock_var ?u) 0" using S(6) s(3) U(3) by simp
  have c: "\<forall>i < MAXEXP. l_completePages (liballoc_init ?u) ! i < MAXCOMPLETE"
    using S(5) unfolding U(5) by (fastforce simp: liballoc_init_def MAXCOMPLETE_def)
  have "0x73000 div 4096 \<le> unat (sp_size rg) div 4096" by (rule div_le_mono [OF rg(3)])
  then have "rich 32 (m_mem m')" using S(4) by simp
  moreover have "run_cost 16 16 + run_cost (16 + 16) 16 = 32" by code_simp
  ultimately have a: "ample N 16 (run_cost (N + 16) 16) ?u" unfolding ample_def S(3) U(2) by simp
  have n: "(N + 16) mod 512 \<noteq> 0" using S(3) by simp
  from create_runs [OF ok l c a n, of "c" sv this, unfolded U(4)] obtain p t ns' L' R' F' N' fr' where
    "create (sys_malloc (Suc c)) (sys_realloc c) sv this ?u = Some (p, t)" "system_ok t ns' L' R' F' N' fr'" "process_ok t ns' L' p 1"
    "uid p = 0" "isSupervisor p = sv" "GLOBAL_UID t = 0 + 1" "lock_var t = 0" by (elim exE conjE) (rule that)
  then show ?thesis using S(1) unfolding add_0 by (intro exI conjI)
qed

theorem first_process_witness:
  "\<exists>m' p t. start_kernel example_environment (sys_malloc 2) (sys_free 2) 0 example_start = Some m' \<and>
    create (sys_malloc (Suc 0)) (sys_realloc 0) True \<lparr>uid = 9, size_threads = 9, threads = 9, interface = 9, l4_pointer = 9, supervisor = False\<rparr>
      (with_uids (m_mem m')) = Some (p, t) \<and> uid p = 0 \<and> isSupervisor p"
proof -
  note E = example_start_ok
  note X = first_process [where en = example_environment and m = example_start and d = 0 and n = 4 and i = 2 and ?eax0.0 = 0 and c = 0
      and sv = True and this = "\<lparr>uid = 9, size_threads = 9, threads = 9, interface = 9, l4_pointer = 9, supervisor = False\<rparr>",
    unfolded E(13,14) add_0]
  have n: "(2 :: nat) < 4" "lock_var example_machine = 0" "0x73000 \<le> unat (sp_size \<lparr>sp_base = 0x100000, sp_size = 0x7EE0000\<rparr> :: uint64)"
    by (simp_all add: example_machine_def)
  from X [OF example_bss E(1) n(2) example_map_ok(1) n(1) example_map_ok(2,3) example_map_ok(4) [symmetric] E(2) n(3) E(4) example_empty E(5-12)]
  obtain m' p t where "start_kernel example_environment (sys_malloc 2) (sys_free 2) 0 example_start = Some m'"
    "create (sys_malloc (Suc 0)) (sys_realloc 0) True \<lparr>uid = 9, size_threads = 9, threads = 9, interface = 9, l4_pointer = 9, supervisor = False\<rparr>
      (with_uids (m_mem m')) = Some (p, t)" "uid p = 0" "isSupervisor p = True" by (elim exE conjE) (rule that)
  then show ?thesis by blast
qed

end
